(* ===== verification/Prelude.thy ===== *)
theory Prelude
  imports Complex_Main "HOL-Library.AList" "HOL-Library.Sublist" "HOL-Library.Char_ord"
    "HOL-Library.List_Lexorder"
begin

text \<open>
  Shared vocabulary of the development: the Python values a package declaration is made of,
  the string and dictionary operations of the Python standard library the sources call, the
  notion of a step system with an invariant, and the interface of an encoder/decoder pair.

  \<^item> Text is \<open>string\<close>, a list of characters with code points below 256. Every separator the
    sources look for is ASCII; \<open>str.strip\<close> and \<open>str.lower\<close> are written out for that range.
  \<^item> Bytes are characters as well, one per byte; \<open>str.encode\<close> is \<open>utf8\<close> below.
  \<^item> A Python dictionary is an association list in insertion order: \<open>map_of\<close> reads it and
    \<open>AList.update\<close> writes it, in place when the key is there and at the end when it is not.
  \<^item> A Python float is a rational, an infinity or not-a-number (every finite binary64 value is
    rational); Python integers are unbounded and are \<open>int\<close>.
\<close>

named_theorems py_str \<open>equations of the string operations\<close>
named_theorems py_dict \<open>equations of the dictionary operations\<close>
named_theorems step_inv \<open>one-step preservation facts\<close>

section \<open>Values\<close>

datatype pyfloat = Fin rat | PosInf | NegInf | NaN

datatype pyval =
    PNone
  | PBool bool
  | PInt int
  | PFloat pyfloat
  | PStr string
  | PBytes string
  | PList "pyval list"
  | PDict "(string \<times> pyval) list"

type_synonym pydict = "(string \<times> pyval) list"

text \<open>Python's truth value of an object: what \<open>if x\<close> asks.\<close>

fun truthy :: "pyval \<Rightarrow> bool" where
  "truthy PNone = False"
| "truthy (PBool b) = b"
| "truthy (PInt i) = (i \<noteq> 0)"
| "truthy (PFloat f) = (f \<noteq> Fin 0)"
| "truthy (PStr s) = (s \<noteq> [])"
| "truthy (PBytes b) = (b \<noteq> [])"
| "truthy (PList xs) = (xs \<noteq> [])"
| "truthy (PDict d) = (d \<noteq> [])"

fun is_str :: "pyval \<Rightarrow> bool" where
  "is_str (PStr _) = True"
| "is_str _ = False"

fun is_dict :: "pyval \<Rightarrow> bool" where
  "is_dict (PDict _) = True"
| "is_dict _ = False"

section \<open>Dictionaries\<close>

abbreviation dict_get :: "('k \<times> 'v) list \<Rightarrow> 'k \<Rightarrow> 'v option" where
  "dict_get d k \<equiv> map_of d k"

abbreviation dict_has :: "('k \<times> 'v) list \<Rightarrow> 'k \<Rightarrow> bool" where
  "dict_has d k \<equiv> map_of d k \<noteq> None"

text \<open>\<open>d.update(e)\<close>: the entries of \<open>e\<close> assigned one after another.\<close>

fun dict_update :: "('k \<times> 'v) list \<Rightarrow> ('k \<times> 'v) list \<Rightarrow> ('k \<times> 'v) list" where
  "dict_update d [] = d"
| "dict_update d ((k, v) # e) = dict_update (AList.update k v d) e"

text \<open>\<open>{k: v for k, v in d.items() if p(k)}\<close>\<close>

definition dict_restrict :: "('k \<Rightarrow> bool) \<Rightarrow> ('k \<times> 'v) list \<Rightarrow> ('k \<times> 'v) list" where
  "dict_restrict p d = filter (\<lambda>kv. p (fst kv)) d"

abbreviation wf_dict :: "('k \<times> 'v) list \<Rightarrow> bool" where
  "wf_dict d \<equiv> distinct (map fst d)"

lemma map_of_update [simp, py_dict]:
  "map_of (AList.update k v d) = (map_of d)(k \<mapsto> v)"
  by (simp add: update_conv fun_eq_iff)

lemma dict_update_append: "dict_update d (e @ f) = dict_update (dict_update d e) f"
  by (induction d e rule: dict_update.induct) auto

lemma map_of_dict_update:
  "map_of (dict_update d e) k =
     (case map_of (rev e) k of None \<Rightarrow> map_of d k | Some v \<Rightarrow> Some v)"
proof (induction d e rule: dict_update.induct)
  case (1 d)
  then show ?case by simp
next
  case (2 d a v e)
  then show ?case
    by (auto simp: map_add_def map_of_append split: option.splits)
qed

lemma map_of_rev_distinct: "wf_dict e \<Longrightarrow> map_of (rev e) = map_of e"
  by (metis map_of_inject_set distinct_rev rev_map set_rev)

lemma map_of_dict_update_wf [py_dict]:
  "wf_dict e \<Longrightarrow> map_of (dict_update d e) = map_of d ++ map_of e"
  by (rule ext) (simp add: map_of_dict_update map_of_rev_distinct map_add_def)

lemma wf_dict_alist_update [simp, intro]: "wf_dict d \<Longrightarrow> wf_dict (AList.update k v d)"
  by (rule distinct_update)

lemma wf_dict_update [simp, intro]: "wf_dict d \<Longrightarrow> wf_dict (dict_update d e)"
  by (induction d e rule: dict_update.induct) auto

lemma map_of_dict_restrict [simp, py_dict]:
  "map_of (dict_restrict p d) k = (if p k then map_of d k else None)"
  by (induction d) (auto simp: dict_restrict_def)

lemma wf_dict_restrict [simp, intro]: "wf_dict d \<Longrightarrow> wf_dict (dict_restrict p d)"
  by (induction d) (auto simp: dict_restrict_def)

lemma alist_update_fresh: "map_of d k = None \<Longrightarrow> AList.update k v d = d @ [(k, v)]"
  by (induction d) (auto split: if_splits)

lemma fst_set_update: "fst ` set (AList.update k v d) = insert k (fst ` set d)"
  by (simp add: dom_update image_comp)

section \<open>Strings\<close>

definition code :: "char \<Rightarrow> nat" where
  "code c = of_char c"

text \<open>What \<open>str.isspace\<close> says of a code point below 256.\<close>

definition is_space :: "char \<Rightarrow> bool" where
  "is_space c \<longleftrightarrow> (let n = code c in (9 \<le> n \<and> n \<le> 13) \<or> (28 \<le> n \<and> n \<le> 32) \<or> n = 133 \<or> n = 160)"

definition is_digit :: "char \<Rightarrow> bool" where
  "is_digit c \<longleftrightarrow> 48 \<le> code c \<and> code c \<le> 57"

definition lstrip :: "string \<Rightarrow> string" where
  "lstrip s = dropWhile is_space s"

definition rstrip :: "string \<Rightarrow> string" where
  "rstrip s = rev (dropWhile is_space (rev s))"

definition strip :: "string \<Rightarrow> string" where
  "strip s = rstrip (lstrip s)"

text \<open>\<open>str.lower\<close> on code points below 256.\<close>

definition lower_char :: "char \<Rightarrow> char" where
  "lower_char c = (let n = code c in
     if (65 \<le> n \<and> n \<le> 90) \<or> (192 \<le> n \<and> n \<le> 222 \<and> n \<noteq> 215) then char_of (n + 32) else c)"

definition lower :: "string \<Rightarrow> string" where
  "lower s = map lower_char s"

text \<open>\<open>s.partition(c)\<close>: what precedes the first separator, whether there is one, what follows.\<close>

definition partition1 :: "char \<Rightarrow> string \<Rightarrow> string \<times> bool \<times> string" where
  "partition1 c s = (takeWhile (\<lambda>x. x \<noteq> c) s, c \<in> set s, tl (dropWhile (\<lambda>x. x \<noteq> c) s))"

text \<open>\<open>s.rpartition(c)\<close>: split at the last separator; with none, everything is the tail.\<close>

definition rpartition1 :: "char \<Rightarrow> string \<Rightarrow> string \<times> bool \<times> string" where
  "rpartition1 c s =
     (if c \<in> set s
      then (rev (tl (dropWhile (\<lambda>x. x \<noteq> c) (rev s))), True, rev (takeWhile (\<lambda>x. x \<noteq> c) (rev s)))
      else ([], False, s))"

text \<open>\<open>s.split(c)\<close>: always at least one piece.\<close>

fun split_on :: "char \<Rightarrow> string \<Rightarrow> string list" where
  "split_on c [] = [[]]"
| "split_on c (x # xs) =
     (if x = c then [] # split_on c xs
      else (case split_on c xs of [] \<Rightarrow> [[x]] | y # ys \<Rightarrow> (x # y) # ys))"

text \<open>\<open>sep.join(xs)\<close>\<close>

fun join :: "string \<Rightarrow> string list \<Rightarrow> string" where
  "join sep [] = []"
| "join sep [x] = x"
| "join sep (x # y # ys) = x @ sep @ join sep (y # ys)"

text \<open>\<open>s.split()\<close>: the maximal runs of non-space characters.\<close>

function split_ws :: "string \<Rightarrow> string list" where
  "split_ws s =
     (case dropWhile is_space s of
        [] \<Rightarrow> []
      | x # xs \<Rightarrow> takeWhile (\<lambda>c. \<not> is_space c) (x # xs)
                  # split_ws (dropWhile (\<lambda>c. \<not> is_space c) (x # xs)))"
  by pat_completeness auto
termination
proof (relation "measure length")
  fix s x xs
  assume a: "dropWhile is_space s = x # xs"
  then have "\<not> is_space x"
    by (metis hd_dropWhile list.distinct(1) list.sel(1))
  then have "length (dropWhile (\<lambda>c. \<not> is_space c) (x # xs)) \<le> length xs"
    by (simp add: length_dropWhile_le)
  moreover have "length (x # xs) \<le> length s"
    using a by (metis length_dropWhile_le)
  ultimately show "(dropWhile (\<lambda>c. \<not> is_space c) (x # xs), s) \<in> measure length"
    by simp
qed simp

declare split_ws.simps [simp del]

abbreviation starts_with :: "string \<Rightarrow> string \<Rightarrow> bool" where
  "starts_with s p \<equiv> prefix p s"

abbreviation ends_with :: "string \<Rightarrow> string \<Rightarrow> bool" where
  "ends_with s p \<equiv> suffix p s"

text \<open>\<open>pat in s\<close> for a non-empty pattern.\<close>

definition contains_sub :: "string \<Rightarrow> string \<Rightarrow> bool" where
  "contains_sub s p \<longleftrightarrow> sublist p s"

text \<open>\<open>s.replace(pat, rep)\<close>: the non-overlapping occurrences, left to right.\<close>

function replace_sub :: "string \<Rightarrow> string \<Rightarrow> string \<Rightarrow> string" where
  "replace_sub p r s =
     (case s of [] \<Rightarrow> []
      | x # xs \<Rightarrow>
          if p \<noteq> [] \<and> prefix p s then r @ replace_sub p r (drop (length p) s)
          else x # replace_sub p r xs)"
  by pat_completeness auto
termination
  by (relation "measure (\<lambda>(p, r, s). length s)") auto

declare replace_sub.simps [simp del]

lemma replace_sub_Nil [simp]: "replace_sub p r [] = []"
  by (simp add: replace_sub.simps)

lemma suffix_singleton [simp, py_str]: "suffix [c] s \<longleftrightarrow> s \<noteq> [] \<and> last s = c"
  by (cases s rule: rev_cases) (auto simp: suffix_def)

lemma suffix_last: "suffix (a @ [c]) s \<Longrightarrow> s \<noteq> [] \<and> last s = c"
  by (auto simp: suffix_def)

lemma split_on_nonempty [simp]: "split_on c s \<noteq> []"
  by (induction c s rule: split_on.induct) (auto split: list.splits)

lemma join_split_on [simp]: "join [c] (split_on c s) = s"
proof (induction c s rule: split_on.induct)
  case (1 c)
  then show ?case by simp
next
  case (2 c x xs)
  show ?case
  proof (cases "split_on c xs")
    case Nil
    then show ?thesis by (metis split_on_nonempty)
  next
    case (Cons y ys)
    with 2 show ?thesis by (cases ys) auto
  qed
qed

lemma join_Cons: "join sep (x # xs) = x @ concat (map (\<lambda>y. sep @ y) xs)"
  by (induction xs arbitrary: x) auto

lemma split_on_sep: "split_on c (a @ c # b) = split_on c a @ split_on c b"
proof (induction a)
  case Nil
  then show ?case by simp
next
  case (Cons x a)
  obtain y ys where "split_on c a = y # ys"
    by (metis split_on_nonempty neq_Nil_conv)
  with Cons show ?case by simp
qed

lemma split_on_join_concat:
  "xs \<noteq> [] \<Longrightarrow> split_on c (join [c] xs) = concat (map (split_on c) xs)"
  by (induction "[c]" xs rule: join.induct) (auto simp: split_on_sep)

lemma split_on_no_sep: "c \<notin> set s \<Longrightarrow> split_on c s = [s]"
  by (induction c s rule: split_on.induct) auto

lemma split_on_append:
  "c \<notin> set a \<Longrightarrow> split_on c (a @ c # b) = a # split_on c b"
  by (induction a) auto

lemma split_on_join:
  "xs \<noteq> [] \<Longrightarrow> (\<And>x. x \<in> set xs \<Longrightarrow> c \<notin> set x) \<Longrightarrow> split_on c (join [c] xs) = xs"
proof (induction "[c]" xs rule: join.induct)
  case 1
  then show ?case by simp
next
  case (2 x)
  then show ?case by (simp add: split_on_no_sep)
next
  case (3 x y ys)
  have "split_on c (join [c] (y # ys)) = y # ys"
    using 3 by auto
  then show ?case
    using 3 by (simp add: split_on_append)
qed

lemma split_on_pieces: "x \<in> set (split_on c s) \<Longrightarrow> c \<notin> set x"
proof (induction c s arbitrary: x rule: split_on.induct)
  case (1 c)
  then show ?case by simp
next
  case (2 c a xs)
  show ?case
  proof (cases "split_on c xs")
    case Nil
    then show ?thesis by (metis split_on_nonempty)
  next
    case (Cons y ys)
    with 2 show ?thesis by (auto split: if_splits)
  qed
qed

lemma takeWhile_neq: "c \<notin> set a \<Longrightarrow> takeWhile (\<lambda>x. x \<noteq> c) (a @ c # b) = a"
  by (induction a) auto

lemma dropWhile_neq: "c \<notin> set a \<Longrightarrow> dropWhile (\<lambda>x. x \<noteq> c) (a @ c # b) = c # b"
  by (induction a) auto

lemma takeWhile_neq_all: "c \<notin> set a \<Longrightarrow> takeWhile (\<lambda>x. x \<noteq> c) a = a"
  by (induction a) auto

lemma dropWhile_neq_all: "c \<notin> set a \<Longrightarrow> dropWhile (\<lambda>x. x \<noteq> c) a = []"
  by (induction a) auto

lemma partition1_found:
  "c \<notin> set a \<Longrightarrow> partition1 c (a @ c # b) = (a, True, b)"
  by (simp add: partition1_def takeWhile_neq dropWhile_neq)

lemma partition1_none: "c \<notin> set s \<Longrightarrow> partition1 c s = (s, False, [])"
  by (simp add: partition1_def takeWhile_neq_all dropWhile_neq_all)

lemma partition1_cases:
  obtains (none) "c \<notin> set s" "partition1 c s = (s, False, [])"
    | (found) a b where "s = a @ c # b" "c \<notin> set a" "partition1 c s = (a, True, b)"
  by (metis partition1_found partition1_none split_list_first)

lemma partition1_head: "partition1 c s = (a, f, b) \<Longrightarrow> c \<notin> set a"
  by (cases c s rule: partition1_cases) auto

lemma rpartition1_found:
  "c \<notin> set b \<Longrightarrow> rpartition1 c (a @ c # b) = (a, True, b)"
  by (simp add: rpartition1_def takeWhile_neq dropWhile_neq)

lemma rpartition1_none: "c \<notin> set s \<Longrightarrow> rpartition1 c s = ([], False, s)"
  by (simp add: rpartition1_def)

lemma strip_subset: "set (strip s) \<subseteq> set s"
proof
  fix x
  assume "x \<in> set (strip s)"
  then have "x \<in> set (dropWhile is_space (rev (dropWhile is_space s)))"
    by (simp add: strip_def rstrip_def lstrip_def)
  then have "x \<in> set (dropWhile is_space s)"
    by (metis set_dropWhileD set_rev)
  then show "x \<in> set s"
    by (metis set_dropWhileD)
qed

lemma dropWhile_idem: "dropWhile P (dropWhile P xs) = dropWhile P xs"
  by (induction xs) auto

lemma lower_char_idem [simp]: "lower_char (lower_char c) = lower_char c"
  by (auto simp: lower_char_def code_def Let_def)

lemma lower_idem [simp]: "lower (lower s) = lower s"
  by (simp add: lower_def)

lemma lower_append [simp]: "lower (a @ b) = lower a @ lower b"
  by (simp add: lower_def)

text \<open>\<open>"%d" % n\<close> and \<open>str(n)\<close>\<close>

fun show_nat :: "nat \<Rightarrow> string" where
  "show_nat n =
     (if n < 10 then [char_of (48 + n)] else show_nat (n div 10) @ [char_of (48 + n mod 10)])"

declare show_nat.simps [simp del]

definition show_int :: "int \<Rightarrow> string" where
  "show_int i = (if i < 0 then ''-'' @ show_nat (nat (- i)) else show_nat (nat i))"

text \<open>
  \<open>str(v)\<close>. The text of a float, a list or a dictionary is the interpreter's business and is the
  parameter \<open>repr\<close>.
\<close>

fun py_str :: "(pyval \<Rightarrow> string) \<Rightarrow> pyval \<Rightarrow> string" where
  "py_str repr PNone = ''None''"
| "py_str repr (PBool b) = (if b then ''True'' else ''False'')"
| "py_str repr (PInt i) = show_int i"
| "py_str repr (PStr s) = s"
| "py_str repr v = repr v"

text \<open>\<open>str.encode()\<close>: code points from 128 on take two bytes.\<close>

definition utf8_char :: "char \<Rightarrow> string" where
  "utf8_char c =
     (if code c < 128 then [c]
      else [char_of (192 + code c div 64), char_of (128 + code c mod 64)])"

definition utf8 :: "string \<Rightarrow> string" where
  "utf8 s = concat (map utf8_char s)"

lemma utf8_ascii: "\<forall>c \<in> set s. code c < 128 \<Longrightarrow> utf8 s = s"
  by (induction s) (auto simp: utf8_def utf8_char_def)

lemma utf8_append [simp]: "utf8 (a @ b) = utf8 a @ utf8 b"
  by (simp add: utf8_def)

lemma code_char_of [simp]: "code (char_of n) = n mod 256"
  by (simp add: code_def)

lemma show_nat_digits: "\<forall>c \<in> set (show_nat n). is_digit c"
proof (induction n rule: show_nat.induct)
  case (1 n)
  then show ?case
    by (subst show_nat.simps) (auto simp: is_digit_def)
qed

lemma show_nat_nonempty [simp]: "show_nat n \<noteq> []"
  by (subst show_nat.simps) simp

text \<open>\<open>int(s)\<close> on a run of ASCII digits.\<close>

definition nat_of_digits :: "string \<Rightarrow> nat" where
  "nat_of_digits s = foldl (\<lambda>n c. 10 * n + (code c - 48)) 0 s"

lemma nat_of_digits_snoc [simp]:
  "nat_of_digits (s @ [c]) = 10 * nat_of_digits s + (code c - 48)"
  by (simp add: nat_of_digits_def)

lemma nat_of_digits_show [simp]: "nat_of_digits (show_nat n) = n"
proof (induction n rule: show_nat.induct)
  case (1 n)
  show ?case
  proof (cases "n < 10")
    case True
    then show ?thesis by (subst show_nat.simps) (simp add: nat_of_digits_def)
  next
    case False
    then show ?thesis using 1 by (subst show_nat.simps) simp
  qed
qed

lemma is_space_lower [simp]: "is_space (lower_char c) = is_space c"
  by (auto simp: is_space_def lower_char_def Let_def)

lemma rstrip_eq: "s \<noteq> [] \<Longrightarrow> \<not> is_space (List.last s) \<Longrightarrow> rstrip s = s"
  by (cases s rule: rev_cases) (auto simp: rstrip_def)

lemma strip_ends: "s \<noteq> [] \<Longrightarrow> \<not> is_space (hd s) \<Longrightarrow> \<not> is_space (List.last s) \<Longrightarrow> strip s = s"
  by (cases s) (auto simp: strip_def lstrip_def rstrip_eq)

lemma strip_none: "\<forall>c \<in> set s. \<not> is_space c \<Longrightarrow> strip s = s"
  by (cases "s = []") (auto simp: strip_ends, simp add: strip_def lstrip_def rstrip_def)

lemma strip_hd_last:
  assumes "strip s \<noteq> []"
  shows "\<not> is_space (hd (strip s))" and "\<not> is_space (List.last (strip s))"
proof -
  have r: "rstrip (x # xs) \<noteq> [] \<Longrightarrow> \<not> is_space x \<Longrightarrow> hd (rstrip (x # xs)) = x" for x xs
    by (cases "dropWhile is_space (rev xs)") (auto simp: rstrip_def dropWhile_append)
  have l: "lstrip s \<noteq> []" using assms by (auto simp: strip_def rstrip_def)
  then have "\<not> is_space (hd (lstrip s))"
    unfolding lstrip_def by (rule hd_dropWhile)
  with r assms l show "\<not> is_space (hd (strip s))"
    by (cases "lstrip s") (auto simp: strip_def)
  show "\<not> is_space (List.last (strip s))"
    using assms hd_dropWhile [of is_space "rev (lstrip s)"]
    by (simp add: strip_def rstrip_def last_rev)
qed

lemma strip_Nil [simp]: "strip [] = []"
  by (simp add: strip_def lstrip_def rstrip_def)

lemma strip_idem [simp]: "strip (strip s) = strip s"
  using strip_ends strip_hd_last by (cases "strip s = []") auto

lemma strip_glue:
  assumes "strip a = a" "a \<noteq> []" "strip b = b" "b \<noteq> []"
  shows "strip (a @ sep @ b) = a @ sep @ b"
  using assms strip_hd_last [of a] strip_hd_last [of b] by (intro strip_ends) auto

section \<open>Step systems\<close>

text \<open>
  A concurrent component is a step relation and a set of initial states. The locale carries the
  one induction every safety property of such a component rests on.
\<close>

inductive reach :: "('s \<Rightarrow> bool) \<Rightarrow> ('s \<Rightarrow> 's \<Rightarrow> bool) \<Rightarrow> 's \<Rightarrow> bool"
  for init :: "'s \<Rightarrow> bool" and step :: "'s \<Rightarrow> 's \<Rightarrow> bool" where
  reach_init: "init s \<Longrightarrow> reach init step s"
| reach_step: "reach init step s \<Longrightarrow> step s t \<Longrightarrow> reach init step t"

locale step_system =
  fixes init :: "'s \<Rightarrow> bool"
    and step :: "'s \<Rightarrow> 's \<Rightarrow> bool"
    and inv :: "'s \<Rightarrow> bool"
  assumes init_inv: "init s \<Longrightarrow> inv s"
    and step_pres: "step s t \<Longrightarrow> inv s \<Longrightarrow> inv t"
begin

lemma reach_inv: "reach init step s \<Longrightarrow> inv s"
  by (induction rule: reach.induct) (auto intro: init_inv step_pres)

lemma reach_trans: "step\<^sup>*\<^sup>* s t \<Longrightarrow> reach init step s \<Longrightarrow> reach init step t"
  by (induction rule: rtranclp_induct) (auto intro: reach_step)

lemma run_inv: "step\<^sup>*\<^sup>* s t \<Longrightarrow> init s \<Longrightarrow> inv t"
  by (rule reach_inv, rule reach_trans, assumption, rule reach_init)

end

section \<open>Encoders and decoders\<close>

text \<open>
  The contract of a writer and its reader: what was written for a valid value is read back, so
  the writer loses nothing on valid values.
\<close>

locale codec =
  fixes valid :: "'a \<Rightarrow> bool"
    and encode :: "'a \<Rightarrow> 'b"
    and decode :: "'b \<Rightarrow> 'c"
    and result :: "'a \<Rightarrow> 'c"
  assumes roundtrip: "valid x \<Longrightarrow> decode (encode x) = result x"
begin

lemma encode_separates: "valid x \<Longrightarrow> valid y \<Longrightarrow> encode x = encode y \<Longrightarrow> result x = result y"
  using roundtrip by metis

lemma encode_inj_on: "inj_on result {x. valid x} \<Longrightarrow> inj_on encode {x. valid x}"
  by (rule inj_onI) (metis encode_separates inj_onD mem_Collect_eq)

end

end
