(* ===== verification/Names.thy ===== *)
theory Names
  imports Prelude
begin

text \<open>
  \<open>src/src/partcad_utils/utils.py\<close>: how packages and objects are named. Package paths relative
  to another package, the recursive suffix of a package argument, object references
  \<open>package:object\<close>, and the names of parameterized instances \<open>base;a=1,b=2\<close>.

  The two regular expressions of the source are written out as scanners. Log lines are not
  modelled; the exception of a malformed reference is \<open>Inl\<close>.
\<close>

datatype exn =
    ValueError
  | KeyError
  | TypeError
  | IndexError
  | AttributeError
  | AssertionError
  | Raised string

section \<open>Results in sequence\<close>

definition and_then :: "exn + 'a \<Rightarrow> ('a \<Rightarrow> exn + 'b) \<Rightarrow> exn + 'b" where
  "and_then m f = (case m of Inl e \<Rightarrow> Inl e | Inr x \<Rightarrow> f x)"

lemma and_then_simps [simp]: "and_then (Inl e) f = Inl e" "and_then (Inr x) f = f x"
  by (simp_all add: and_then_def)

lemma map_sum_Inr: "map_sum id f r = Inr y \<longleftrightarrow> (\<exists>x. r = Inr x \<and> y = f x)"
  by (cases r) auto

lemma and_then_Inr: "and_then m f = Inr r \<longleftrightarrow> (\<exists>x. m = Inr x \<and> f x = Inr r)"
  by (cases m) simp_all

definition require_that :: "bool \<Rightarrow> exn \<Rightarrow> exn + unit" where
  "require_that ok e = (if ok then Inr () else Inl e)"

lemma require_that_Inr [simp]: "require_that ok e = Inr u \<longleftrightarrow> ok"
  by (simp add: require_that_def)

section \<open>Relative package paths\<close>

text \<open>
  \<open>re.sub(r"/[^/]*/\.\.", "", s)\<close>: one pass, left to right; at a slash, the segment behind it is
  dropped together with a following \<open>/..\<close>, and the scan goes on behind the match.
\<close>

function sub_dotdot :: "string \<Rightarrow> string" where
  "sub_dotdot s =
     (case s of [] \<Rightarrow> []
      | x # xs \<Rightarrow>
          (let rest = dropWhile (\<lambda>c. c \<noteq> CHR ''/'') xs in
           if x = CHR ''/'' \<and> starts_with rest ''/..'' then sub_dotdot (drop 3 rest)
           else x # sub_dotdot xs))"
  by pat_completeness auto
termination
proof (relation "measure length")
  fix s x xs rest
  assume "s = x # xs" and "rest = dropWhile (\<lambda>c. c \<noteq> CHR ''/'') xs"
  then show "(drop 3 rest, s) \<in> measure length"
    using length_dropWhile_le [of "\<lambda>c. c \<noteq> CHR ''/''" xs] by simp
qed simp_all

declare sub_dotdot.simps [simp del]

text \<open>\<open>re.sub(r"/$", "", s)\<close>: \<open>$\<close> also matches in front of a final newline.\<close>

definition drop_final_slash :: "string \<Rightarrow> string" where
  "drop_final_slash s =
     (if ends_with s ''/'' then butlast s
      else if ends_with s [CHR ''/'', CHR 0x0A] then butlast (butlast s) @ [CHR 0x0A]
      else s)"

definition get_child_project_path :: "string \<Rightarrow> string \<Rightarrow> string" where
  "get_child_project_path parent_path child_name =
     (let result = (if ends_with parent_path ''/'' then parent_path @ child_name
                    else parent_path @ ''/'' @ child_name);
          result = sub_dotdot result
      in if result \<noteq> ''//'' then drop_final_slash result else result)"

section \<open>The recursive suffix\<close>

definition RECURSIVE_SUFFIX :: string where
  "RECURSIVE_SUFFIX = ''...''"

text \<open>The argument is absent (\<open>None\<close>) or text; what is not text comes back unchanged.\<close>

fun split_recursive_package :: "string option \<Rightarrow> string option \<times> bool" where
  "split_recursive_package None = (None, False)"
| "split_recursive_package (Some package) =
     (if \<not> ends_with package RECURSIVE_SUFFIX then (Some package, False)
      else
        let package = take (length package - length RECURSIVE_SUFFIX) package;
            package = (if ends_with package ''/'' \<and> package \<notin> {''/'', ''//''}
                       then butlast package else package);
            package = (if package = '''' then ''.'' else package)
        in (Some package, True))"

definition split_recursive_object ::
  "string option \<Rightarrow> string option \<Rightarrow> string option \<times> string option \<times> bool" where
  "split_recursive_object package object_name =
     (let (package, recursive) = split_recursive_package package in
      case object_name of
        None \<Rightarrow> (package, None, recursive)
      | Some name \<Rightarrow>
          if CHR '':'' \<notin> set name then (package, Some name, recursive)
          else
            let (object_package, _, item) = partition1 CHR '':'' name;
                (object_package, object_recursive) = split_recursive_package (Some object_package)
            in if \<not> object_recursive then (package, Some name, recursive)
               else (if object_package \<noteq> Some ''.'' then object_package else package, Some item, True))"

section \<open>Parameterized names\<close>

type_synonym params = "(string \<times> string) list"

text \<open>One turn of the loop over the comma-separated fragments.\<close>

fun param_step :: "params \<times> string option \<Rightarrow> string \<Rightarrow> params \<times> string option" where
  "param_step (parameters, prev) pair =
     (case prev of
        Some l \<Rightarrow>
          if CHR ''='' \<notin> set pair
          then (AList.update l (the (map_of parameters l) @ '','' @ pair) parameters, Some l)
          else (let (parameter, _, value) = partition1 CHR ''='' pair
                in (AList.update parameter value parameters, Some parameter))
      | None \<Rightarrow>
          (let (parameter, _, value) = partition1 CHR ''='' pair
           in (AList.update parameter value parameters, Some parameter)))"

definition parse_parameterized_name :: "string \<Rightarrow> string \<times> params" where
  "parse_parameterized_name name =
     (let (base, _, suffix) = partition1 CHR '';'' name;
          pairs = (if suffix \<noteq> [] then split_on CHR '','' suffix else [])
      in (base, fst (foldl param_step ([], None) pairs)))"

text \<open>\<open>show\<close> is Python's \<open>str\<close> of a parameter value, which \<open>%s\<close> applies.\<close>

definition format_parameterized_name ::
  "('v \<Rightarrow> string) \<Rightarrow> string \<Rightarrow> (string \<times> 'v) list \<Rightarrow> string" where
  "format_parameterized_name show base parameters =
     (let (base, inherited) = parse_parameterized_name base;
          inherited = dict_update inherited (map (\<lambda>(k, v). (k, show v)) parameters)
      in if inherited = [] then base
         else base @ '';'' @ join '',''
                (map (\<lambda>name. name @ ''='' @ the (map_of inherited name)) (sort (map fst inherited))))"

section \<open>References to objects\<close>

definition matches_single_slash :: "string \<Rightarrow> bool" where
  "matches_single_slash s \<longleftrightarrow>
     (case s of a # b # _ \<Rightarrow> a = CHR ''/'' \<and> b \<noteq> CHR ''/'' | _ \<Rightarrow> False)"

definition resolve_resource_path :: "string \<Rightarrow> string \<Rightarrow> exn + (string \<times> string)" where
  "resolve_resource_path current_project_name pattern =
     (let pattern = (if CHR '':'' \<notin> set pattern then '':'' @ pattern else pattern) in
      case split_on CHR '':'' pattern of
        [project_pattern, item_pattern] \<Rightarrow>
          (let project_pattern = (if project_pattern = '''' then current_project_name else project_pattern);
               project_pattern = (if matches_single_slash project_pattern
                                  then ''/'' @ project_pattern else project_pattern);
               project_pattern = replace_sub ''...'' ''*'' project_pattern;
               project_pattern =
                 (if \<not> starts_with project_pattern ''//''
                  then if ends_with current_project_name ''/''
                       then current_project_name @ project_pattern
                       else current_project_name @ ''/'' @ project_pattern
                  else project_pattern);
               project_pattern = sub_dotdot project_pattern;
               item_pattern = replace_sub ''...'' ''*'' item_pattern
           in Inr (project_pattern, item_pattern))
      | _ \<Rightarrow> Inl ValueError)"

definition normalize_resource_path :: "string \<Rightarrow> string \<Rightarrow> exn + string" where
  "normalize_resource_path current_project_name pattern =
     (case resolve_resource_path current_project_name pattern of
        Inl e \<Rightarrow> Inl e
      | Inr (project_pattern, item_pattern) \<Rightarrow> Inr (project_pattern @ '':'' @ item_pattern))"

section \<open>Lemmas: relative paths\<close>

lemma sub_dotdot_Nil [simp]: "sub_dotdot [] = []"
  by (simp add: sub_dotdot.simps)

lemma sub_dotdot_other:
  "x \<noteq> CHR ''/'' \<Longrightarrow> sub_dotdot (x # xs) = x # sub_dotdot xs"
  by (simp add: sub_dotdot.simps [of "x # xs"])

lemma sub_dotdot_no_slash_prefix:
  "CHR ''/'' \<notin> set a \<Longrightarrow> sub_dotdot (a @ b) = a @ sub_dotdot b"
  by (induction a) (auto simp: sub_dotdot_other)

lemma sub_dotdot_no_slash: "CHR ''/'' \<notin> set a \<Longrightarrow> sub_dotdot a = a"
  using sub_dotdot_no_slash_prefix [of a "[]"] by simp

text \<open>A slash, a segment, another slash: the segment goes exactly when two dots follow.\<close>

lemma sub_dotdot_match:
  assumes "CHR ''/'' \<notin> set seg"
  shows "sub_dotdot (''/'' @ seg @ ''/..'' @ rest) = sub_dotdot rest"
proof -
  have "dropWhile (\<lambda>c. c \<noteq> CHR ''/'') (seg @ CHR ''/'' # ''..'' @ rest) = CHR ''/'' # ''..'' @ rest"
    using assms by (rule dropWhile_neq)
  then show ?thesis
    by (simp add: sub_dotdot.simps [of "CHR ''/'' # seg @ CHR ''/'' # CHR ''.'' # CHR ''.'' # rest"])
qed

lemma sub_dotdot_keep:
  assumes "CHR ''/'' \<notin> set seg" and "\<not> prefix ''..'' rest"
  shows "sub_dotdot (''/'' @ seg @ ''/'' @ rest) = ''/'' @ seg @ sub_dotdot (''/'' @ rest)"
proof -
  have "dropWhile (\<lambda>c. c \<noteq> CHR ''/'') (seg @ CHR ''/'' # rest) = CHR ''/'' # rest"
    using assms(1) by (rule dropWhile_neq)
  then show ?thesis
    using assms
    by (simp add: sub_dotdot.simps [of "CHR ''/'' # seg @ CHR ''/'' # rest"]
        sub_dotdot_no_slash_prefix)
qed

lemma sub_dotdot_last:
  assumes "CHR ''/'' \<notin> set seg"
  shows "sub_dotdot (''/'' @ seg) = ''/'' @ seg"
  using assms
  by (simp add: sub_dotdot.simps [of "CHR ''/'' # seg"] sub_dotdot_no_slash dropWhile_neq_all Let_def)

text \<open>An absolute package path spelled from its segments; the root is \<open>//\<close>.\<close>

fun path_of :: "string list \<Rightarrow> string" where
  "path_of [] = ''''"
| "path_of (seg # segs) = ''/'' @ seg @ path_of segs"

definition package_path :: "string list \<Rightarrow> string" where
  "package_path segs = (if segs = [] then ''//'' else ''/'' @ path_of segs)"

text \<open>A segment as a package uses one: not empty, no slash or newline, not starting with two dots.\<close>

definition plain_segment :: "string \<Rightarrow> bool" where
  "plain_segment seg \<longleftrightarrow> seg \<noteq> [] \<and> CHR ''/'' \<notin> set seg \<and> CHR 0x0A \<notin> set seg \<and> \<not> prefix ''..'' seg"

lemma path_of_append [simp]: "path_of (a @ b) = path_of a @ path_of b"
  by (induction a) auto

lemma path_of_cases: "path_of segs = [] \<or> (\<exists>r. path_of segs = CHR ''/'' # r)"
  by (cases segs) auto

lemma plain_segment_append:
  "plain_segment seg \<Longrightarrow> r = [] \<or> (\<exists>q. r = CHR ''/'' # q) \<Longrightarrow> \<not> prefix ''..'' (seg @ r)"
  by (cases seg; cases "tl seg") (auto simp: plain_segment_def)

lemma sub_dotdot_path:
  assumes "\<forall>s \<in> set segs. plain_segment s"
    and "r = [] \<or> (\<exists>q. r = CHR ''/'' # q \<and> \<not> prefix ''..'' q)"
  shows "sub_dotdot (path_of segs @ r) = path_of segs @ sub_dotdot r"
  using assms
proof (induction segs)
  case Nil
  then show ?case by simp
next
  case (Cons seg segs)
  have seg: "plain_segment seg" "CHR ''/'' \<notin> set seg"
    using Cons.prems by (auto simp: plain_segment_def)
  have IH: "sub_dotdot (path_of segs @ r) = path_of segs @ sub_dotdot r"
    using Cons by simp
  show ?case
  proof (cases segs)
    case Nil
    show ?thesis
    proof (cases "r = []")
      case True
      then show ?thesis using Nil seg sub_dotdot_last by simp
    next
      case False
      then obtain q where "r = CHR ''/'' # q" "\<not> prefix ''..'' q"
        using Cons.prems by auto
      then show ?thesis using Nil seg sub_dotdot_keep [of seg q] by simp
    qed
  next
    case (Cons s' ss)
    have "plain_segment s'" using Cons.prems Cons by simp
    moreover have "path_of ss @ r = [] \<or> (\<exists>q. path_of ss @ r = CHR ''/'' # q)"
      using path_of_cases [of ss] Cons.prems by auto
    ultimately have "\<not> prefix ''..'' (s' @ path_of ss @ r)"
      by (rule plain_segment_append)
    then show ?thesis
      using Cons IH seg sub_dotdot_keep [of seg "s' @ path_of ss @ r"] by simp
  qed
qed

lemma sub_dotdot_package:
  assumes "\<forall>s \<in> set segs. plain_segment s"
    and "segs \<noteq> []"
    and "r = [] \<or> (\<exists>q. r = CHR ''/'' # q \<and> \<not> prefix ''..'' q)"
  shows "sub_dotdot (''/'' @ path_of segs @ r) = ''/'' @ path_of segs @ sub_dotdot r"
proof -
  obtain seg segs' where segs: "segs = seg # segs'"
    using assms(2) by (cases segs) auto
  have "path_of segs' @ r = [] \<or> (\<exists>q. path_of segs' @ r = CHR ''/'' # q)"
    using path_of_cases [of segs'] assms(3) by auto
  moreover have "plain_segment seg" using assms(1) segs by simp
  ultimately have "\<not> prefix ''..'' (seg @ path_of segs' @ r)"
    using plain_segment_append by blast
  then have "sub_dotdot (''/'' @ path_of segs @ r) = ''/'' @ sub_dotdot (path_of segs @ r)"
    using segs sub_dotdot_keep [of "[]" "seg @ path_of segs' @ r"] by simp
  then show ?thesis using sub_dotdot_path assms by simp
qed

lemma last_plain_segment:
  assumes "plain_segment seg"
  shows "last seg \<noteq> CHR ''/''" "last seg \<noteq> CHR 0x0A" "seg \<noteq> []"
  using assms last_in_set [of seg] unfolding plain_segment_def by metis+

lemma drop_final_slash_segment:
  assumes "plain_segment seg" shows "drop_final_slash (a @ seg) = a @ seg"
  using last_plain_segment [OF assms] suffix_last [of "''/''" "CHR 0x0A" "a @ seg"]
  by (auto simp: drop_final_slash_def)

lemma drop_final_slash_path:
  assumes "segs \<noteq> []" "plain_segment (last segs)"
  shows "drop_final_slash (a @ path_of segs) = a @ path_of segs"
proof -
  have "segs = butlast segs @ [last segs]" using assms(1) by simp
  then have "path_of segs = path_of (butlast segs) @ ''/'' @ last segs"
    by (metis append_Nil2 path_of.simps path_of_append)
  then show ?thesis
    using drop_final_slash_segment [OF assms(2), of "a @ path_of (butlast segs) @ ''/''"] by simp
qed

lemma package_path_snoc: "package_path (segs @ [seg]) = ''/'' @ path_of segs @ ''/'' @ seg"
  by (simp add: package_path_def)

lemma package_path_no_final_slash:
  assumes "segs \<noteq> []" "\<forall>s \<in> set segs. plain_segment s"
  shows "\<not> suffix ''/'' (package_path segs)"
proof -
  have "segs = butlast segs @ [last segs]" "plain_segment (last segs)" using assms by auto
  then show ?thesis
    using last_plain_segment [of "last segs"] package_path_snoc [of "butlast segs" "last segs"]
    by auto
qed

lemma path_of_concat: "path_of segs = concat (map (\<lambda>y. ''/'' @ y) segs)"
  by (induction segs) auto

lemma join_path_of: "segs \<noteq> [] \<Longrightarrow> ''/'' @ join ''/'' segs = path_of segs"
  by (cases segs) (auto simp: join_Cons path_of_concat)

text \<open>A relative path downwards is appended.\<close>

lemma child_path_down:
  assumes "\<forall>s \<in> set (segs @ children). plain_segment s" "children \<noteq> []"
  shows "get_child_project_path (package_path segs) (join ''/'' children) = package_path (segs @ children)"
proof -
  let ?all = "''/'' @ path_of (segs @ children)"
  have "(if ends_with (package_path segs) ''/'' then package_path segs @ join ''/'' children
         else package_path segs @ ''/'' @ join ''/'' children) = ?all"
    using package_path_no_final_slash [of segs] join_path_of [OF assms(2)] assms(1)
    by (auto simp: package_path_def)
  moreover have "sub_dotdot ?all = ?all"
    using sub_dotdot_package [of "segs @ children" "[]"] assms by simp
  moreover have "drop_final_slash ?all = ?all"
    using assms by (intro drop_final_slash_path) auto
  ultimately have "get_child_project_path (package_path segs) (join ''/'' children) = ?all"
    by (simp only: get_child_project_path_def Let_def if_cancel)
  then show ?thesis using assms(2) by (simp add: package_path_def)
qed

lemma sub_dotdot_up:
  assumes "\<forall>s \<in> set segs. plain_segment s" "plain_segment seg"
  shows "sub_dotdot (package_path (segs @ [seg]) @ ''/..'' @ rest)
       = ''/'' @ path_of segs @ sub_dotdot rest"
proof -
  have seg: "CHR ''/'' \<notin> set seg" "\<not> prefix ''..'' (seg @ ''/..'' @ rest)"
    using assms(2) plain_segment_append [of seg "''/..'' @ rest"] by (auto simp: plain_segment_def)
  show ?thesis
  proof (cases "segs = []")
    case True
    then show ?thesis
      using seg sub_dotdot_keep [of "[]" "seg @ ''/..'' @ rest"] sub_dotdot_match [of seg rest]
      by (simp add: package_path_def)
  next
    case False
    then show ?thesis
      using seg sub_dotdot_package [OF assms(1) False, of "''/'' @ seg @ ''/..'' @ rest"]
        sub_dotdot_match [of seg rest]
      by (simp add: package_path_def)
  qed
qed

text \<open>One level up, and sideways.\<close>

lemma child_path_up:
  assumes "\<forall>s \<in> set (segs @ children). plain_segment s" "plain_segment seg" "segs @ children \<noteq> []"
  shows "get_child_project_path (package_path (segs @ [seg])) (join ''/'' (''..'' # children))
       = package_path (segs @ children)"
proof -
  let ?all = "''/'' @ path_of (segs @ children)"
  have j: "join ''/'' (''..'' # children) = ''..'' @ path_of children"
    by (simp add: join_Cons path_of_concat)
  have ns: "\<not> ends_with (package_path (segs @ [seg])) ''/''"
    using last_plain_segment [OF assms(2)] by (simp add: package_path_snoc)
  have "sub_dotdot (package_path (segs @ [seg]) @ ''/'' @ join ''/'' (''..'' # children)) = ?all"
    using sub_dotdot_up [of segs seg "path_of children"] sub_dotdot_path [of children "[]"] assms j
    by simp
  moreover have "plain_segment (last (segs @ children))"
    using assms last_in_set by blast
  then have "drop_final_slash ?all = ?all"
    using assms(3) by (intro drop_final_slash_path)
  ultimately have "get_child_project_path (package_path (segs @ [seg])) (join ''/'' (''..'' # children)) = ?all"
    by (simp only: get_child_project_path_def Let_def if_cancel ns if_False)
  then show ?thesis using assms(3) by (simp add: package_path_def)
qed

section \<open>Lemmas: parameterized names\<close>

text \<open>
  What a parameter has to look like for its name to be read back: the key carries neither
  separator, and every comma of the value starts a fragment without an equals sign.
\<close>

definition readable_param :: "string \<times> string \<Rightarrow> bool" where
  "readable_param kv \<longleftrightarrow>
     CHR ''='' \<notin> set (fst kv) \<and> CHR '','' \<notin> set (fst kv) \<and>
     (\<forall>piece \<in> set (tl (split_on CHR '','' (snd kv))). CHR ''='' \<notin> set piece)"

definition readable_params :: "params \<Rightarrow> bool" where
  "readable_params ps \<longleftrightarrow> wf_dict ps \<and> (\<forall>kv \<in> set ps. readable_param kv)"

lemma split_on_prefix:
  "c \<notin> set a \<Longrightarrow> split_on c (a @ s) = (a @ hd (split_on c s)) # tl (split_on c s)"
proof (induction a)
  case Nil
  then show ?case by simp
next
  case (Cons x a)
  then have "x \<noteq> c" by auto
  with Cons show ?case by simp
qed

lemma param_continue:
  assumes "\<forall>piece \<in> set pieces. CHR ''='' \<notin> set piece" "map_of ps k = Some v"
  shows "foldl param_step (ps, Some k) pieces
       = (AList.update k (v @ concat (map (\<lambda>p. '','' @ p) pieces)) ps, Some k)"
  using assms
proof (induction pieces arbitrary: ps v)
  case Nil
  then have "AList.update k v ps = ps"
    by (intro update_triv)
  then show ?case by simp
next
  case (Cons p pieces)
  let ?ps = "AList.update k (v @ '','' @ p) ps"
  have "foldl param_step (?ps, Some k) pieces
      = (AList.update k ((v @ '','' @ p) @ concat (map (\<lambda>p. '','' @ p) pieces)) ?ps, Some k)"
    using Cons.prems by (intro Cons.IH) auto
  then show ?case using Cons.prems by simp
qed

lemma param_item:
  assumes "readable_param (k, v)"
  shows "foldl param_step (ps, prev) (split_on CHR '','' (k @ ''='' @ v)) = (AList.update k v ps, Some k)"
proof -
  obtain v0 vs where vs: "split_on CHR '','' v = v0 # vs"
    by (metis split_on_nonempty neq_Nil_conv)
  have k: "CHR ''='' \<notin> set k" "CHR '','' \<notin> set (k @ ''='')"
    and pieces: "\<forall>piece \<in> set vs. CHR ''='' \<notin> set piece"
    using assms vs by (auto simp: readable_param_def)
  have v: "v = v0 @ concat (map (\<lambda>p. '','' @ p) vs)"
    using join_split_on [of "CHR '',''" v] vs by (simp add: join_Cons)
  have "split_on CHR '','' (k @ ''='' @ v) = (k @ ''='' @ v0) # vs"
    using split_on_prefix [OF k(2), of v] vs by simp
  moreover have "param_step (ps, prev) (k @ ''='' @ v0) = (AList.update k v0 ps, Some k)"
    using partition1_found [OF k(1), of v0] by (simp split: option.splits)
  moreover have "map_of (AList.update k v0 ps) k = Some v0" by simp
  ultimately show ?thesis
    using param_continue [OF pieces, of "AList.update k v0 ps" k v0] v by simp
qed

lemma param_items:
  assumes "\<forall>kv \<in> set items. readable_param kv"
  shows "fst (foldl param_step (ps, prev)
           (concat (map (split_on CHR '','') (map (\<lambda>(k, v). k @ ''='' @ v) items))))
       = dict_update ps items"
  using assms
proof (induction items arbitrary: ps prev)
  case Nil
  then show ?case by simp
next
  case (Cons kv items)
  obtain k v where kv: "kv = (k, v)" by force
  then show ?case using Cons param_item [of k v ps prev] by simp
qed

text \<open>The sorted entries of a parameter dictionary, which the name spells out.\<close>

definition sorted_params :: "params \<Rightarrow> params" where
  "sorted_params ps = map (\<lambda>k. (k, the (map_of ps k))) (sort (map fst ps))"

lemma fst_sorted_params [simp]: "map fst (sorted_params ps) = sort (map fst ps)"
  by (simp add: sorted_params_def comp_def)

lemma map_of_sorted_params [simp]: "map_of (sorted_params ps) = map_of ps"
proof
  fix k
  show "map_of (sorted_params ps) k = map_of ps k"
  proof (cases "k \<in> fst ` set ps")
    case True
    then obtain v where "map_of ps k = Some v"
      by (metis image_iff map_of_eq_None_iff not_None_eq)
    moreover have "map_of (map (\<lambda>k. (k, the (map_of ps k))) ks) k
        = (if k \<in> set ks then Some (the (map_of ps k)) else None)" for ks
      by (induction ks) auto
    ultimately show ?thesis using True by (simp add: sorted_params_def)
  next
    case False
    then show ?thesis
      by (metis fst_sorted_params list.set_map map_of_eq_None_iff set_sort)
  qed
qed

lemma set_sorted_params: "wf_dict ps \<Longrightarrow> set (sorted_params ps) = set ps"
  by (rule map_of_inject_set [THEN iffD1]) auto

lemma sorted_params_cong:
  "wf_dict ps \<Longrightarrow> wf_dict qs \<Longrightarrow> map_of ps = map_of qs \<Longrightarrow> sorted_params ps = sorted_params qs"
proof -
  assume d: "wf_dict ps" "wf_dict qs" "map_of ps = map_of qs"
  then have "set ps = set qs" by (simp add: map_of_inject_set)
  then have "sort (map fst ps) = sort (map fst qs)"
    using d by (intro sorted_distinct_set_unique) auto
  then show ?thesis using d by (simp add: sorted_params_def)
qed

lemma dict_update_fresh:
  "wf_dict (d @ e) \<Longrightarrow> dict_update d e = d @ e"
proof (induction d e rule: dict_update.induct)
  case (1 d)
  then show ?case by simp
next
  case (2 d k v e)
  have "AList.update k v d = d @ [(k, v)]"
    using 2 by (intro alist_update_fresh) (auto simp: map_of_eq_None_iff)
  with 2 show ?case by simp
qed

text \<open>
  The name of an instance, read back: the base it was given, and its parameters in the order the
  name spells them.
\<close>

lemma parse_plain: "CHR '';'' \<notin> set base \<Longrightarrow> parse_parameterized_name base = (base, [])"
  by (simp add: parse_parameterized_name_def partition1_none)

lemma parse_spelled:
  assumes "CHR '';'' \<notin> set base" "readable_params items" "items \<noteq> []"
  shows "parse_parameterized_name (base @ '';'' @ join '','' (map (\<lambda>(k, v). k @ ''='' @ v) items))
       = (base, items)"
proof -
  let ?pieces = "map (\<lambda>(k, v). k @ ''='' @ v) items"
  let ?suffix = "join '','' ?pieces"
  have "?suffix \<noteq> []"
    using assms(3) by (cases items) (auto simp: join_Cons)
  moreover have "split_on CHR '','' ?suffix = concat (map (split_on CHR '','') ?pieces)"
    using assms(3) by (intro split_on_join_concat) simp
  moreover have "dict_update [] items = items"
    using assms(2) dict_update_fresh [of "[]" items] by (simp add: readable_params_def)
  moreover have "fst (foldl param_step ([], None) (concat (map (split_on CHR '','') ?pieces)))
      = dict_update [] items"
    using assms(2) by (intro param_items) (simp add: readable_params_def)
  ultimately show ?thesis
    using partition1_found [OF assms(1), of ?suffix]
    by (simp add: parse_parameterized_name_def)
qed

lemma format_plain:
  assumes "CHR '';'' \<notin> set base" "wf_dict ps"
  shows "format_parameterized_name id base ps =
    (if ps = [] then base
     else base @ '';'' @ join '','' (map (\<lambda>(k, v). k @ ''='' @ v) (sorted_params ps)))"
proof -
  have "dict_update [] (map (\<lambda>(k, v). (k, id v)) ps) = ps"
    using assms(2) dict_update_fresh [of "[]" ps] by (simp add: case_prod_beta')
  then show ?thesis
    using parse_plain [OF assms(1)]
    by (simp add: format_parameterized_name_def sorted_params_def comp_def)
qed

lemma readable_sorted: "readable_params ps \<Longrightarrow> readable_params (sorted_params ps)"
  by (auto simp: readable_params_def set_sorted_params)

interpretation names: codec
  "\<lambda>(base, ps). CHR '';'' \<notin> set base \<and> readable_params ps"
  "\<lambda>(base, ps). format_parameterized_name id base ps"
  parse_parameterized_name
  "\<lambda>(base, ps). (base, sorted_params ps)"
proof (unfold_locales, clarify)
  fix base and ps :: params
  assume a: "CHR '';'' \<notin> set base" "readable_params ps"
  then have wf: "wf_dict ps" by (simp add: readable_params_def)
  show "parse_parameterized_name (format_parameterized_name id base ps) = (base, sorted_params ps)"
  proof (cases "ps = []")
    case True
    then show ?thesis
      using a(1) format_plain [OF a(1) wf] parse_plain by (simp add: sorted_params_def)
  next
    case False
    then have "sorted_params ps \<noteq> []"
      by (metis fst_sorted_params list.map_disc_iff set_empty set_sort)
    then show ?thesis
      using False format_plain [OF a(1) wf] parse_spelled [OF a(1) readable_sorted [OF a(2)]]
      by simp
  qed
qed

section \<open>Properties\<close>



text \<open>one instance has one name. For readable parameters, two requests for the same base spell
  the same name exactly when their parameters are the same dictionary, whatever the order.\<close>

theorem parameterized_name_canonical:
  assumes "CHR '';'' \<notin> set base" and "readable_params ps" and "readable_params qs"
  shows "format_parameterized_name id base ps = format_parameterized_name id base qs
         \<longleftrightarrow> map_of ps = map_of qs"
proof
  assume "format_parameterized_name id base ps = format_parameterized_name id base qs"
  then have "sorted_params ps = sorted_params qs"
    using names.encode_separates [of "(base, ps)" "(base, qs)"] assms by simp
  then show "map_of ps = map_of qs" by (metis map_of_sorted_params)
next
  assume eq: "map_of ps = map_of qs"
  have wf: "wf_dict ps" "wf_dict qs" using assms by (auto simp: readable_params_def)
  have "ps = [] \<longleftrightarrow> qs = []"
    using eq by (metis map_of_eq_empty_iff)
  then show "format_parameterized_name id base ps = format_parameterized_name id base qs"
    using format_plain [OF assms(1)] wf sorted_params_cong [OF wf eq] by simp
qed

theorem parameterized_name_canonical_witness:
  "format_parameterized_name id ''m'' [(''b'', ''2''), (''a'', ''1'')]
   = format_parameterized_name id ''m'' [(''a'', ''1''), (''b'', ''2'')]"
  by (rule parameterized_name_canonical [THEN iffD2])
     (auto simp: readable_params_def readable_param_def)

text \<open>a relative package reference is resolved against the package it is written in: plain
  segments are appended, and a leading \<open>..\<close> replaces the last segment of that package.\<close>

theorem child_project_path_resolves:
  assumes "\<forall>s \<in> set (segs @ children). plain_segment s" and "plain_segment seg"
    and "children \<noteq> []"
  shows "get_child_project_path (package_path segs) (join ''/'' children) = package_path (segs @ children)
       \<and> get_child_project_path (package_path (segs @ [seg])) (join ''/'' (''..'' # children))
         = package_path (segs @ children)"
  using child_path_down child_path_up assms by simp_all

theorem child_project_path_resolves_witness:
  "get_child_project_path ''//pub/robotics'' ''../std/metric'' = ''//pub/std/metric''"
  using child_project_path_resolves
    [where segs = "[''pub'']" and children = "[''std'', ''metric'']" and seg = "''robotics''"]
  by (simp add: plain_segment_def package_path_def)

text \<open>only one level up is resolved. The substitution runs once, left to right, so of two
  leading \<open>..\<close> the second stays in the name of the package.\<close>

theorem child_project_path_two_levels:
  assumes "\<forall>s \<in> set segs. plain_segment s" and "plain_segment seg"
  shows "get_child_project_path (package_path (segs @ [seg])) ''../..'' = ''/'' @ path_of segs @ ''/..''"
proof -
  have ns: "\<not> ends_with (package_path (segs @ [seg])) ''/''"
    using last_plain_segment [OF assms(2)] by (simp add: package_path_snoc)
  have "sub_dotdot (package_path (segs @ [seg]) @ ''/'' @ ''../..'') = ''/'' @ path_of segs @ ''/..''"
    using sub_dotdot_up [OF assms, of "''/..''"] sub_dotdot_last [of "''..''"] by simp
  moreover have "drop_final_slash (''/'' @ path_of segs @ ''/..'') = ''/'' @ path_of segs @ ''/..''"
    using suffix_last [of "''/''" "CHR 0x0A" "''/'' @ path_of segs @ ''/..''"]
    by (auto simp: drop_final_slash_def)
  ultimately show ?thesis
    by (simp only: get_child_project_path_def Let_def if_cancel ns if_False)
qed

theorem child_project_path_two_levels_witness:
  "get_child_project_path ''//a/b/c'' ''../..'' = ''//a/b/..''"
  using child_project_path_two_levels [where segs = "[''a'', ''b'']" and seg = "''c''"]
  by (simp add: plain_segment_def package_path_def)

end
