(* ===== verification/Tags.thy ===== *)
theory Tags
  imports Names
begin

text \<open>
  \<open>src/src/partcad/tags.py\<close> and \<open>src/src/partcad_utils/booleans.py\<close>: the tags that are true of the
  machine and of the configuration, the \<open>unless\<close> condition that skips a declaration where they
  hold, and the one reading of a boolean that arrived as text.

  What the \<open>platform\<close> module answers is the record \<open>platform_info\<close>; an unreadable
  \<open>/etc/os-release\<close> is \<open>None\<close>. Log lines are not modelled.
\<close>

section \<open>Booleans as text\<close>

definition TRUE_TEXTS :: "string list" where
  "TRUE_TEXTS = [''1'', ''true'', ''yes'', ''y'', ''on'', ''t'']"

definition FALSE_TEXTS :: "string list" where
  "FALSE_TEXTS = [''0'', ''false'', ''no'', ''n'', ''off'', ''f'', '''']"

definition to_bool :: "(pyval \<Rightarrow> string) \<Rightarrow> pyval \<Rightarrow> bool \<Rightarrow> bool" where
  "to_bool repr val dflt =
     (case val of
        PNone \<Rightarrow> dflt
      | PBool b \<Rightarrow> b
      | PInt i \<Rightarrow> i \<noteq> 0
      | PFloat f \<Rightarrow> f \<noteq> Fin 0
      | _ \<Rightarrow>
          let txt = lower (strip (py_str repr val)) in
          if txt \<in> set FALSE_TEXTS then False
          else if txt \<in> set TRUE_TEXTS then True
          else True)"

section \<open>What is true of this machine\<close>

record platform_info =
  machine :: string
  system :: string
  os_release :: "(string \<times> string) list option"
  mac_ver :: string
  win32_ver :: string

definition UNLESS_KEY :: string where
  "UNLESS_KEY = ''unless''"

definition CONFIG_TAGS :: "(string \<times> string) list" where
  "CONFIG_TAGS =
     [(''useDocker'', ''use_docker''),
      (''useDockerPython'', ''use_docker_python_declared''),
      (''useDockerKicad'', ''use_docker_kicad_declared'')]"

definition normalize_tag :: "string \<Rightarrow> string" where
  "normalize_tag val = lower (strip val)"

definition arch_tags :: "platform_info \<Rightarrow> string set" where
  "arch_tags p =
     (let m = normalize_tag (machine p) in
      if m = '''' then {}
      else {m} \<union>
        (if m \<in> {''x86_64'', ''amd64'', ''x64''} then {''x86_64'', ''amd64''}
         else if m \<in> {''aarch64'', ''arm64'', ''armv8b'', ''armv8l''} then {''arm64'', ''aarch64'', ''arm''}
         else if m \<in> {''i386'', ''i486'', ''i586'', ''i686'', ''x86''} then {''i386'', ''x86''}
         else if starts_with m ''arm'' then {''arm''}
         else {}))"

definition release_get :: "(string \<times> string) list \<Rightarrow> string \<Rightarrow> string" where
  "release_get release k = (case map_of release k of None \<Rightarrow> '''' | Some v \<Rightarrow> v)"

definition linux_os_tags :: "platform_info \<Rightarrow> string set" where
  "linux_os_tags p =
     (case os_release p of
        None \<Rightarrow> {}
      | Some release \<Rightarrow>
          let distro = normalize_tag (release_get release ''ID'') in
          if distro = '''' then {}
          else
            let likes = set (split_ws (normalize_tag (release_get release ''ID_LIKE'')));
                version = normalize_tag (release_get release ''VERSION_ID'')
            in {distro} \<union> likes \<union> (if version \<noteq> '''' then {distro @ ''-'' @ version} else {}))"

definition macos_os_tags :: "platform_info \<Rightarrow> string set" where
  "macos_os_tags p =
     (let tags = {''macos'', ''darwin''};
          version = normalize_tag (mac_ver p)
      in if version = '''' then tags
         else let parts = split_on CHR ''.'' version in
           tags \<union> {''macos-'' @ parts ! 0}
           \<union> (if length parts > 1 then {''macos-'' @ parts ! 0 @ ''.'' @ parts ! 1} else {}))"

definition windows_os_tags :: "platform_info \<Rightarrow> string set" where
  "windows_os_tags p =
     (let release = normalize_tag (win32_ver p)
      in {''windows''} \<union> (if release \<noteq> '''' then {''windows-'' @ release} else {}))"

definition os_tags :: "platform_info \<Rightarrow> string set" where
  "os_tags p =
     (let s = normalize_tag (system p) in
      if s = ''linux'' then {''linux''} \<union> linux_os_tags p
      else if s = ''darwin'' then macos_os_tags p
      else if s = ''windows'' then windows_os_tags p
      else if s \<noteq> '''' then {s} else {})"

definition host_tags :: "platform_info \<Rightarrow> string set" where
  "host_tags p = arch_tags p \<union> os_tags p"

section \<open>What the configuration adds\<close>

definition parse_tags :: "(pyval \<Rightarrow> string) \<Rightarrow> pyval \<Rightarrow> string list" where
  "parse_tags repr val =
     (let items = (case val of
             PStr s \<Rightarrow> map PStr (split_ws (map (\<lambda>c. if c = CHR '','' then CHR '' '' else c) s))
           | PList xs \<Rightarrow> xs
           | _ \<Rightarrow> [])
      in filter (\<lambda>tag. tag \<noteq> '''') (map (\<lambda>item. strip (py_str repr item)) items))"

text \<open>The user configuration is its attributes; \<open>getattr(user_config, a, None)\<close> reads one.\<close>

definition getattr_none :: "pydict \<Rightarrow> string \<Rightarrow> pyval" where
  "getattr_none user_config a = (case map_of user_config a of None \<Rightarrow> PNone | Some v \<Rightarrow> v)"

definition config_tags :: "pydict \<Rightarrow> string set" where
  "config_tags user_config =
     set (concat (map (\<lambda>(option, attribute).
       let val = getattr_none user_config attribute in
       if val = PNone then [] else [if truthy val then option else ''!'' @ option]) CONFIG_TAGS))"

definition context_tags :: "(pyval \<Rightarrow> string) \<Rightarrow> platform_info \<Rightarrow> pydict \<Rightarrow> string set" where
  "context_tags repr p user_config =
     host_tags p \<union> config_tags user_config
     \<union> set (parse_tags repr (getattr_none user_config ''tags''))"

section \<open>The exclusion\<close>

definition parse_unless_item :: "pyval \<Rightarrow> exn + string list" where
  "parse_unless_item item =
     (let check = (\<lambda>tags.
            if \<exists>tag \<in> set tags. \<not> (case tag of PStr s \<Rightarrow> strip s \<noteq> '''' | _ \<Rightarrow> False) then Inl ValueError
            else Inr (map (\<lambda>tag. case tag of PStr s \<Rightarrow> strip s | _ \<Rightarrow> '''') tags))
      in case item of
           PStr s \<Rightarrow> check [PStr s]
         | PList [] \<Rightarrow> Inl ValueError
         | PList tags \<Rightarrow> check tags
         | _ \<Rightarrow> Inl ValueError)"

fun parse_unless_items :: "pyval list \<Rightarrow> exn + string list list" where
  "parse_unless_items [] = Inr []"
| "parse_unless_items (item # items) =
     (case parse_unless_item item of
        Inl e \<Rightarrow> Inl e
      | Inr clause \<Rightarrow>
          (case parse_unless_items items of Inl e \<Rightarrow> Inl e | Inr clauses \<Rightarrow> Inr (clause # clauses)))"

definition parse_unless :: "pyval \<Rightarrow> exn + string list list" where
  "parse_unless val =
     (case val of
        PNone \<Rightarrow> Inr []
      | PStr s \<Rightarrow> parse_unless_items [PStr s]
      | PList items \<Rightarrow> parse_unless_items items
      | _ \<Rightarrow> Inl ValueError)"

definition describe_clause :: "string list \<Rightarrow> string" where
  "describe_clause clause = join '' and '' clause"

definition excluded_by :: "pyval \<Rightarrow> string set \<Rightarrow> exn + string option" where
  "excluded_by config tags =
     (case config of
        PDict d \<Rightarrow>
          (case parse_unless (getattr_none d UNLESS_KEY) of
             Inl e \<Rightarrow> Inl e
           | Inr clauses \<Rightarrow>
               if clauses = [] then Inr None
               else
                 let present = normalize_tag ` tags in
                 Inr (map_option describe_clause
                        (find (\<lambda>clause. \<forall>tag \<in> set clause. normalize_tag tag \<in> present) clauses)))
      | _ \<Rightarrow> Inr None)"

section \<open>Lemmas\<close>

text \<open>What an \<open>unless\<close> may be: nothing, a tag, or a list of tags and of non-empty tag lists.\<close>

fun is_tag :: "pyval \<Rightarrow> bool" where
  "is_tag (PStr s) = (strip s \<noteq> '''')"
| "is_tag _ = False"

fun is_clause :: "pyval \<Rightarrow> bool" where
  "is_clause (PStr s) = is_tag (PStr s)"
| "is_clause (PList tags) = (tags \<noteq> [] \<and> list_all is_tag tags)"
| "is_clause _ = False"

fun is_unless :: "pyval \<Rightarrow> bool" where
  "is_unless PNone = True"
| "is_unless (PStr s) = is_tag (PStr s)"
| "is_unless (PList items) = list_all is_clause items"
| "is_unless _ = False"

text \<open>The clauses a well-formed declaration states.\<close>

fun clause_of :: "pyval \<Rightarrow> string list" where
  "clause_of (PStr s) = [strip s]"
| "clause_of (PList tags) = map (\<lambda>tag. case tag of PStr s \<Rightarrow> strip s | _ \<Rightarrow> '''') tags"
| "clause_of _ = []"

fun clauses_of :: "pyval \<Rightarrow> string list list" where
  "clauses_of (PStr s) = [[strip s]]"
| "clauses_of (PList items) = map clause_of items"
| "clauses_of _ = []"

lemma is_tag_case: "(case tag of PStr s \<Rightarrow> strip s \<noteq> '''' | _ \<Rightarrow> False) = is_tag tag"
  by (cases tag) auto

lemma parse_unless_item_spec:
  "parse_unless_item item = (if is_clause item then Inr (clause_of item) else Inl ValueError)"
proof (cases item)
  case (PList tags)
  then show ?thesis
    by (cases tags) (auto simp: parse_unless_item_def Let_def is_tag_case list_all_iff)
qed (auto simp: parse_unless_item_def Let_def)

lemma parse_unless_items_spec:
  "parse_unless_items items
   = (if list_all is_clause items then Inr (map clause_of items) else Inl ValueError)"
  by (induction items) (auto simp: parse_unless_item_spec)

lemma parse_unless_spec:
  "parse_unless val = (if is_unless val then Inr (clauses_of val) else Inl ValueError)"
  by (cases val) (auto simp: parse_unless_def parse_unless_items_spec)

lemma clauses_nonempty: "is_unless val \<Longrightarrow> clause \<in> set (clauses_of val) \<Longrightarrow> clause \<noteq> []"
proof (cases val)
  case (PList items)
  assume "is_unless val" "clause \<in> set (clauses_of val)"
  then obtain item where "clause = clause_of item" "is_clause item"
    using PList by (auto simp: list_all_iff)
  then show ?thesis by (cases item) auto
qed auto

text \<open>A declaration is excluded where all the tags of one of its clauses hold.\<close>

definition excluded_here :: "pyval \<Rightarrow> string set \<Rightarrow> bool" where
  "excluded_here val tags \<longleftrightarrow>
     (\<exists>clause \<in> set (clauses_of val). \<forall>tag \<in> set clause. normalize_tag tag \<in> normalize_tag ` tags)"

lemma excluded_by_dict:
  "excluded_by (PDict d) tags =
     (let val = getattr_none d UNLESS_KEY in
      if \<not> is_unless val then Inl ValueError
      else Inr (map_option describe_clause
             (find (\<lambda>clause. \<forall>tag \<in> set clause. normalize_tag tag \<in> normalize_tag ` tags)
               (clauses_of val))))"
  by (auto simp: excluded_by_def parse_unless_spec Let_def)

lemma find_map_None: "find P xs = None \<longleftrightarrow> (\<forall>x \<in> set xs. \<not> P x)"
  by (induction xs) auto

lemma excluded_by_None:
  "is_unless (getattr_none d UNLESS_KEY) \<Longrightarrow>
   excluded_by (PDict d) tags = Inr None \<longleftrightarrow> \<not> excluded_here (getattr_none d UNLESS_KEY) tags"
  by (auto simp: excluded_by_dict find_map_None excluded_here_def Let_def)

lemma dropWhile_map_lower: "dropWhile is_space (map lower_char s) = map lower_char (dropWhile is_space s)"
  by (induction s) auto

lemma strip_lower: "strip (lower s) = lower (strip s)"
  by (simp add: strip_def lstrip_def rstrip_def lower_def dropWhile_map_lower rev_map)

lemma normalize_lower [simp]: "normalize_tag (lower s) = normalize_tag s"
  by (simp add: normalize_tag_def strip_lower)

lemma excluded_here_mono: "tags \<subseteq> tags' \<Longrightarrow> excluded_here val tags \<Longrightarrow> excluded_here val tags'"
  unfolding excluded_here_def by blast

lemma config_tags_iff:
  "t \<in> config_tags cfg \<longleftrightarrow>
     (\<exists>option attribute. (option, attribute) \<in> set CONFIG_TAGS
        \<and> getattr_none cfg attribute \<noteq> PNone
        \<and> t = (if truthy (getattr_none cfg attribute) then option else ''!'' @ option))"
  by (fastforce simp: config_tags_def Let_def split: if_splits)

lemma config_options_distinct:
  "(x, a) \<in> set CONFIG_TAGS \<Longrightarrow> (y, b) \<in> set CONFIG_TAGS
   \<Longrightarrow> (x = y \<longrightarrow> a = b) \<and> x \<noteq> ''!'' @ y"
  by (auto simp: CONFIG_TAGS_def)

section \<open>Properties\<close>

text \<open>the exclusion of a declaration. A misshapen \<open>unless\<close> is refused and never ignored; a
  well-formed one excludes exactly where every tag of one of its clauses holds, compared without
  regard to case and surrounding space, and the declaration is told the clause that excluded it.\<close>

theorem excluded_by_correct:
  "excluded_by (PDict d) tags =
     (let val = getattr_none d UNLESS_KEY;
          holds = (\<lambda>clause. \<forall>tag \<in> set clause. \<exists>t \<in> tags. normalize_tag t = normalize_tag tag)
      in if \<not> is_unless val then Inl ValueError
         else if \<exists>clause \<in> set (clauses_of val). holds clause
         then Inr (Some (describe_clause (hd (filter holds (clauses_of val)))))
         else Inr None)"
proof -
  have find_hd: "find P xs = (if \<exists>x \<in> set xs. P x then Some (hd (filter P xs)) else None)"
    for P and xs :: "string list list"
    by (induction xs) auto
  have "normalize_tag x \<in> normalize_tag ` tags \<longleftrightarrow> (\<exists>t \<in> tags. normalize_tag t = normalize_tag x)" for x
    unfolding image_iff by metis
  then show ?thesis by (auto simp: excluded_by_dict find_hd Let_def) blast
qed

theorem excluded_by_correct_witness:
  "(let val = getattr_none [(''unless'', PList [PStr ''ARM64''])] UNLESS_KEY;
        holds = (\<lambda>clause. \<forall>tag \<in> set clause. \<exists>t \<in> {'' arm64''}. normalize_tag t = normalize_tag tag)
    in if \<not> is_unless val then Inl ValueError
       else if \<exists>clause \<in> set (clauses_of val). holds clause
       then Inr (Some (describe_clause (hd (filter holds (clauses_of val)))))
       else Inr None) = Inr (Some ''ARM64'')"
proof -
  have "excluded_by (PDict [(''unless'', PList [PStr ''ARM64''])]) {'' arm64''} = Inr (Some ''ARM64'')"
    by code_simp
  then show ?thesis
    unfolding excluded_by_correct .
qed

text \<open>what is excluded here stays excluded where more is true, and the spelling of the case of
  the tags a context carries changes nothing.\<close>

theorem excluded_by_monotone:
  assumes "excluded_by config tags = Inr (Some txt)" and "tags \<subseteq> tags'"
  shows "(\<exists>txt'. excluded_by config tags' = Inr (Some txt'))
       \<and> excluded_by config (lower ` tags') = excluded_by config tags'"
proof -
  obtain d where d: "config = PDict d"
    using assms(1) by (cases config) (auto simp: excluded_by_def)
  let ?v = "getattr_none d UNLESS_KEY"
  have v: "is_unless ?v"
    using assms(1) d by (auto simp: excluded_by_dict Let_def split: if_splits)
  have "excluded_here ?v tags"
    using excluded_by_None [OF v, of tags] assms(1) d by auto
  then have "excluded_by config tags' \<noteq> Inr None"
    using excluded_by_None [OF v, of tags'] excluded_here_mono [OF assms(2)] d by blast
  moreover have "normalize_tag ` lower ` tags' = normalize_tag ` tags'"
    by (auto simp: image_iff)
  ultimately show ?thesis
    using v d by (auto simp: excluded_by_dict Let_def)
qed

theorem excluded_by_monotone_witness:
  "\<exists>txt. excluded_by (PDict [(''unless'', PList [PList [PStr ''arm'', PStr ''useDocker''], PStr ''macos''])])
     {''arm'', ''useDocker'', ''linux''} = Inr (Some txt)"
proof (rule excluded_by_monotone [THEN conjunct1])
  show "excluded_by (PDict [(''unless'', PList [PList [PStr ''arm'', PStr ''useDocker''], PStr ''macos''])])
     {''arm'', ''useDocker''} = Inr (Some ''arm and useDocker'')"
    by code_simp
qed auto

text \<open>each boolean option the configuration has contributes exactly one of its two spellings, an
  option it does not have contributes neither, and nothing else is contributed.\<close>

theorem config_tags_exactly_one:
  assumes "(option, attribute) \<in> set CONFIG_TAGS"
  shows "(option \<in> config_tags cfg \<longleftrightarrow> truthy (getattr_none cfg attribute))
       \<and> (''!'' @ option \<in> config_tags cfg
           \<longleftrightarrow> getattr_none cfg attribute \<noteq> PNone \<and> \<not> truthy (getattr_none cfg attribute))"
proof -
  have key: "x = option \<Longrightarrow> a = attribute" "option \<noteq> ''!'' @ x" "''!'' @ option \<noteq> x"
    if "(x, a) \<in> set CONFIG_TAGS" for x a
    using config_options_distinct [OF that assms] config_options_distinct [OF assms that] by auto
  have inj: "''!'' @ option = ''!'' @ x \<Longrightarrow> x = option" for x by simp
  have t: "truthy (getattr_none cfg attribute) \<Longrightarrow> getattr_none cfg attribute \<noteq> PNone"
    by auto
  show ?thesis
  proof (intro conjI iffI)
    show "truthy (getattr_none cfg attribute)" if "option \<in> config_tags cfg"
      using that key unfolding config_tags_iff by metis
    show "option \<in> config_tags cfg" if "truthy (getattr_none cfg attribute)"
      using that assms t unfolding config_tags_iff by metis
    show "getattr_none cfg attribute \<noteq> PNone" "\<not> truthy (getattr_none cfg attribute)"
      if "''!'' @ option \<in> config_tags cfg"
      using that key inj unfolding config_tags_iff by metis+
    show "''!'' @ option \<in> config_tags cfg"
      if "getattr_none cfg attribute \<noteq> PNone \<and> \<not> truthy (getattr_none cfg attribute)"
      using that assms unfolding config_tags_iff by metis
  qed
qed

theorem config_tags_exactly_one_witness:
  "''useDocker'' \<notin> config_tags [(''use_docker'', PBool False)]
   \<and> ''!useDocker'' \<in> config_tags [(''use_docker'', PBool False)]"
  using config_tags_exactly_one [of "''useDocker''" "''use_docker''" "[(''use_docker'', PBool False)]"]
  by (simp add: CONFIG_TAGS_def getattr_none_def)

end
