(* ===== verification/Expr.thy ===== *)
theory Expr
  imports Tags
begin

text \<open>
  \<open>src/src/partcad/expr.py\<close>: the \<open>%...%\<close> expressions of a package declaration, what the checker
  lets through, and how expressions are substituted into a declaration.

  The syntax tree is the one \<open>ast\<close> builds, with every node class the checker does not name under
  \<open>OtherNode\<close>. Parsing the text into a tree is the parameter \<open>parse\<close> (\<open>None\<close> is a syntax error).
  What the interpreter does for one operation - an arithmetic operator, a built-in, a method - is
  the record \<open>runtime\<close>; how the interpreter goes through a tree is the definition \<open>ev\<close>, which also
  lists the operand pairs of every multiplication it performs.
\<close>

datatype unop = Invert | Not | UAdd | USub
datatype binop = Add | Sub | Mult | Div | FloorDiv | Mod
  | Pow | LShift | RShift | BitOr | BitXor | BitAnd | MatMult
datatype boolop = And | Or
datatype cmpop = Eq | NotEq | Lt | LtE | Gt | GtE | Is | IsNot | In | NotIn

datatype pyast =
    Constant pyval
  | ConstantOther string
  | Name string
  | UnaryOp unop pyast
  | BinOp pyast binop pyast
  | BoolOp boolop "pyast list"
  | Compare pyast "cmpop list" "pyast list"
  | IfExp pyast pyast pyast
  | Call pyast "pyast list" "(string \<times> pyast) list"
  | Starred pyast
  | Attribute pyast string
  | Subscript pyast pyast
  | Slice "pyast list"
  | TupleExp "pyast list"
  | ListExp "pyast list"
  | OtherNode string "pyast list"

datatype expr_error = ExpressionError string

section \<open>What an expression may be made of\<close>

definition SAFE_FUNCTIONS :: "string list" where
  "SAFE_FUNCTIONS =
     [''abs'', ''bool'', ''float'', ''int'', ''len'', ''max'', ''min'', ''round'', ''str'',
      ''acos'', ''asin'', ''atan'', ''atan2'', ''ceil'', ''cos'', ''degrees'', ''floor'', ''hypot'',
      ''log'', ''pow'', ''radians'', ''sin'', ''sqrt'', ''tan'']"

definition SAFE_CONSTANTS :: "string list" where
  "SAFE_CONSTANTS = [''e'', ''pi'', ''PI'', ''M_PI'', ''INCH'', ''INCHES'', ''FOOT'', ''FEET'']"

definition SAFE_ATTRIBUTES :: "string list" where
  "SAFE_ATTRIBUTES =
     [''capitalize'', ''casefold'', ''center'', ''count'', ''endswith'', ''find'', ''index'',
      ''isalnum'', ''isalpha'', ''isascii'', ''isdecimal'', ''isdigit'', ''islower'', ''isnumeric'',
      ''isspace'', ''istitle'', ''isupper'', ''join'', ''ljust'', ''lower'', ''lstrip'', ''partition'',
      ''removeprefix'', ''removesuffix'', ''replace'', ''rfind'', ''rindex'', ''rjust'', ''rpartition'',
      ''rsplit'', ''rstrip'', ''split'', ''splitlines'', ''startswith'', ''strip'', ''swapcase'',
      ''title'', ''upper'', ''zfill'',
      ''as_integer_ratio'', ''bit_length'', ''conjugate'', ''denominator'', ''imag'', ''is_integer'',
      ''numerator'', ''real'']"

definition NUMERIC_FUNCTIONS :: "string list" where
  "NUMERIC_FUNCTIONS =
     [''abs'', ''bool'', ''float'', ''int'', ''len'', ''round'', ''pow'', ''acos'', ''asin'', ''atan'',
      ''atan2'', ''ceil'', ''cos'', ''degrees'', ''floor'', ''hypot'', ''log'', ''radians'', ''sin'',
      ''sqrt'', ''tan'']"

definition NUMERIC_ATTRIBUTES :: "string list" where
  "NUMERIC_ATTRIBUTES =
     [''bit_length'', ''count'', ''denominator'', ''find'', ''imag'', ''index'', ''numerator'', ''real'',
      ''rfind'', ''rindex'']"

text \<open>\<open>isinstance(v, (int, float))\<close>; a boolean is an int.\<close>

fun is_number :: "pyval \<Rightarrow> bool" where
  "is_number (PBool _) = True"
| "is_number (PInt _) = True"
| "is_number (PFloat _) = True"
| "is_number _ = False"

fun is_numeric :: "pydict \<Rightarrow> pyast \<Rightarrow> bool" where
  "is_numeric values (Constant v) = is_number v"
| "is_numeric values (Name n) = (case map_of values n of None \<Rightarrow> False | Some v \<Rightarrow> is_number v)"
| "is_numeric values (UnaryOp _ operand) = is_numeric values operand"
| "is_numeric values (BinOp left _ right) = (is_numeric values left \<and> is_numeric values right)"
| "is_numeric values (IfExp _ body orelse) = (is_numeric values body \<and> is_numeric values orelse)"
| "is_numeric values (Compare _ _ _) = True"
| "is_numeric values (Call (Name n) _ _) = (n \<in> set NUMERIC_FUNCTIONS)"
| "is_numeric values (Call (Attribute _ a) _ _) = (a \<in> set NUMERIC_ATTRIBUTES)"
| "is_numeric values (Call _ _ _) = False"
| "is_numeric values (Attribute _ a) = (a \<in> set NUMERIC_ATTRIBUTES)"
| "is_numeric values _ = False"

definition allowed_binop :: "binop \<Rightarrow> bool" where
  "allowed_binop b \<longleftrightarrow> b \<in> {Add, Sub, Mult, Div, FloorDiv, Mod}"

text \<open>The nodes below a node, itself first; an operator belongs to its node.\<close>

fun walk :: "pyast \<Rightarrow> pyast list" where
  "walk (UnaryOp u x) = UnaryOp u x # walk x"
| "walk (BinOp l b r) = BinOp l b r # walk l @ walk r"
| "walk (BoolOp b xs) = BoolOp b xs # concat (map walk xs)"
| "walk (Compare l ops xs) = Compare l ops xs # walk l @ concat (map walk xs)"
| "walk (IfExp t b e) = IfExp t b e # walk t @ walk b @ walk e"
| "walk (Call f args kws) =
     Call f args kws # walk f @ concat (map walk args) @ concat (map (\<lambda>kw. walk (snd kw)) kws)"
| "walk (Starred x) = Starred x # walk x"
| "walk (Attribute x a) = Attribute x a # walk x"
| "walk (Subscript x i) = Subscript x i # walk x @ walk i"
| "walk (Slice xs) = Slice xs # concat (map walk xs)"
| "walk (TupleExp xs) = TupleExp xs # concat (map walk xs)"
| "walk (ListExp xs) = ListExp xs # concat (map walk xs)"
| "walk (OtherNode c xs) = OtherNode c xs # concat (map walk xs)"
| "walk leaf = [leaf]"

text \<open>What the loop of the checker asks of one node; a node that fails raises.\<close>

fun node_ok :: "pydict \<Rightarrow> pyast \<Rightarrow> bool" where
  "node_ok values (BinOp left b right) =
     ((b = Mult \<longrightarrow> is_numeric values left \<and> is_numeric values right) \<and> allowed_binop b)"
| "node_ok values (Attribute _ a) = (a \<in> set SAFE_ATTRIBUTES)"
| "node_ok values (Call f args kws) =
     ((case f of Name _ \<Rightarrow> True | Attribute _ _ \<Rightarrow> True | _ \<Rightarrow> False)
      \<and> kws = [] \<and> \<not> (\<exists>a \<in> set args. case a of Starred _ \<Rightarrow> True | _ \<Rightarrow> False))"
| "node_ok values (Starred _) = False"
| "node_ok values (OtherNode _ _) = False"
| "node_ok values _ = True"

definition check :: "pyast \<Rightarrow> string \<Rightarrow> pydict \<Rightarrow> expr_error + unit" where
  "check tree expression values =
     (if \<forall>node \<in> set (walk tree). node_ok values node then Inr ()
      else Inl (ExpressionError expression))"

section \<open>What the interpreter does with a tree\<close>

record runtime =
  r_name :: "string \<Rightarrow> pyval option"
  r_const :: "string \<Rightarrow> pyval option"
  r_unary :: "unop \<Rightarrow> pyval \<Rightarrow> pyval option"
  r_binary :: "binop \<Rightarrow> pyval \<Rightarrow> pyval \<Rightarrow> pyval option"
  r_compare :: "cmpop \<Rightarrow> pyval \<Rightarrow> pyval \<Rightarrow> pyval option"
  r_call :: "string \<Rightarrow> pyval list \<Rightarrow> pyval option"
  r_method :: "string \<Rightarrow> pyval \<Rightarrow> pyval list \<Rightarrow> pyval option"
  r_attr :: "string \<Rightarrow> pyval \<Rightarrow> pyval option"
  r_subscript :: "pyval \<Rightarrow> pyval \<Rightarrow> pyval option"
  r_build :: "string \<Rightarrow> pyval list \<Rightarrow> pyval option"

type_synonym mults = "(pyval \<times> pyval) list"

text \<open>
  The result of evaluating a tree (\<open>None\<close> is an exception) and the multiplications performed on
  the way. Names are looked up among the values and then among the built-ins.
\<close>

fun ev :: "runtime \<Rightarrow> pydict \<Rightarrow> pyast \<Rightarrow> pyval option \<times> mults"
  and ev_list :: "runtime \<Rightarrow> pydict \<Rightarrow> pyast list \<Rightarrow> pyval list option \<times> mults"
  and ev_bool :: "runtime \<Rightarrow> pydict \<Rightarrow> boolop \<Rightarrow> pyast list \<Rightarrow> pyval option \<times> mults"
  and ev_cmp :: "runtime \<Rightarrow> pydict \<Rightarrow> pyval \<Rightarrow> cmpop list \<Rightarrow> pyast list \<Rightarrow> pyval option \<times> mults"
where
  "ev rt values (Constant v) = (Some v, [])"
| "ev rt values (ConstantOther c) = (r_const rt c, [])"
| "ev rt values (Name n) = (case map_of values n of Some v \<Rightarrow> Some v | None \<Rightarrow> r_name rt n, [])"
| "ev rt values (UnaryOp u x) =
     (case ev rt values x of (None, m) \<Rightarrow> (None, m) | (Some v, m) \<Rightarrow> (r_unary rt u v, m))"
| "ev rt values (BinOp l b r) =
     (case ev rt values l of
        (None, m) \<Rightarrow> (None, m)
      | (Some v, m) \<Rightarrow>
          (case ev rt values r of
             (None, m') \<Rightarrow> (None, m @ m')
           | (Some w, m') \<Rightarrow> (r_binary rt b v w, m @ m' @ (if b = Mult then [(v, w)] else []))))"
| "ev rt values (BoolOp b xs) = ev_bool rt values b xs"
| "ev rt values (Compare l ops xs) =
     (case ev rt values l of
        (None, m) \<Rightarrow> (None, m)
      | (Some v, m) \<Rightarrow> (case ev_cmp rt values v ops xs of (res, m') \<Rightarrow> (res, m @ m')))"
| "ev rt values (IfExp t b e) =
     (case ev rt values t of
        (None, m) \<Rightarrow> (None, m)
      | (Some v, m) \<Rightarrow>
          (case ev rt values (if truthy v then b else e) of (res, m') \<Rightarrow> (res, m @ m')))"
| "ev rt values (Call f args kws) =
     (case f of
        Name n \<Rightarrow>
          (case ev_list rt values args of
             (None, m) \<Rightarrow> (None, m)
           | (Some vs, m) \<Rightarrow> (if map_of values n \<noteq> None then None else r_call rt n vs, m))
      | Attribute x a \<Rightarrow>
          (case ev rt values x of
             (None, m) \<Rightarrow> (None, m)
           | (Some v, m) \<Rightarrow>
               (case ev_list rt values args of
                  (None, m') \<Rightarrow> (None, m @ m')
                | (Some vs, m') \<Rightarrow> (r_method rt a v vs, m @ m')))
      | _ \<Rightarrow> (None, []))"
| "ev rt values (Starred x) = (None, [])"
| "ev rt values (Attribute x a) =
     (case ev rt values x of (None, m) \<Rightarrow> (None, m) | (Some v, m) \<Rightarrow> (r_attr rt a v, m))"
| "ev rt values (Subscript x i) =
     (case ev rt values x of
        (None, m) \<Rightarrow> (None, m)
      | (Some v, m) \<Rightarrow>
          (case ev rt values i of
             (None, m') \<Rightarrow> (None, m @ m')
           | (Some w, m') \<Rightarrow> (r_subscript rt v w, m @ m')))"
| "ev rt values (Slice xs) =
     (case ev_list rt values xs of (None, m) \<Rightarrow> (None, m) | (Some vs, m) \<Rightarrow> (r_build rt ''slice'' vs, m))"
| "ev rt values (TupleExp xs) =
     (case ev_list rt values xs of (None, m) \<Rightarrow> (None, m) | (Some vs, m) \<Rightarrow> (r_build rt ''tuple'' vs, m))"
| "ev rt values (ListExp xs) =
     (case ev_list rt values xs of (None, m) \<Rightarrow> (None, m) | (Some vs, m) \<Rightarrow> (Some (PList vs), m))"
| "ev rt values (OtherNode c xs) = (None, [])"
| "ev_list rt values [] = (Some [], [])"
| "ev_list rt values (x # xs) =
     (case ev rt values x of
        (None, m) \<Rightarrow> (None, m)
      | (Some v, m) \<Rightarrow>
          (case ev_list rt values xs of
             (None, m') \<Rightarrow> (None, m @ m')
           | (Some vs, m') \<Rightarrow> (Some (v # vs), m @ m')))"
| "ev_bool rt values b [] = (None, [])"
| "ev_bool rt values b (x # xs) =
     (case ev rt values x of
        (None, m) \<Rightarrow> (None, m)
      | (Some v, m) \<Rightarrow>
          if xs = [] \<or> (b = And \<and> \<not> truthy v) \<or> (b = Or \<and> truthy v) then (Some v, m)
          else (case ev_bool rt values b xs of (res, m') \<Rightarrow> (res, m @ m')))"
| "ev_cmp rt values v [] xs = (None, [])"
| "ev_cmp rt values v (op # ops) [] = (None, [])"
| "ev_cmp rt values v (op # ops) (x # xs) =
     (case ev rt values x of
        (None, m) \<Rightarrow> (None, m)
      | (Some w, m) \<Rightarrow>
          (case r_compare rt op v w of
             None \<Rightarrow> (None, m)
           | Some c \<Rightarrow>
               if ops = [] \<or> \<not> truthy c then (Some c, m)
               else (case ev_cmp rt values w ops xs of (res, m') \<Rightarrow> (res, m @ m'))))"

text \<open>Parse, check, evaluate: any exception is reported under the text it came from.\<close>

definition eval_text ::
  "(string \<Rightarrow> pyast option) \<Rightarrow> runtime \<Rightarrow> string \<Rightarrow> pydict \<Rightarrow> string \<Rightarrow> expr_error + pyval" where
  "eval_text parse rt expression values reported =
     (case parse expression of
        None \<Rightarrow> Inl (ExpressionError reported)
      | Some tree \<Rightarrow>
          (case check tree reported values of
             Inl e \<Rightarrow> Inl e
           | Inr _ \<Rightarrow>
               (case fst (ev rt values tree) of
                  None \<Rightarrow> Inl (ExpressionError reported)
                | Some v \<Rightarrow> Inr v)))"

definition evaluate ::
  "(string \<Rightarrow> pyast option) \<Rightarrow> runtime \<Rightarrow> string \<Rightarrow> pydict \<Rightarrow> expr_error + pyval" where
  "evaluate parse rt expression values =
     (let name = strip expression in
      case map_of values name of
        Some v \<Rightarrow> Inr v
      | None \<Rightarrow>
          if CHR '':'' \<in> set expression then
            let (head, _, tail) = partition1 CHR '':'' expression; head = strip head in
            (case map_of values head of
               Some v \<Rightarrow> eval_text parse rt tail (AList.update ''value'' v values) expression
             | None \<Rightarrow> eval_text parse rt expression values expression)
          else eval_text parse rt expression values expression)"

section \<open>Substitution into a declaration\<close>

fun is_integer :: "pyfloat \<Rightarrow> bool" where
  "is_integer (Fin r) = (r \<in> \<int>)"
| "is_integer _ = False"

definition format_value :: "(pyval \<Rightarrow> string) \<Rightarrow> pyval \<Rightarrow> string" where
  "format_value repr v =
     (case v of
        PBool b \<Rightarrow> if b then ''true'' else ''false''
      | PFloat (Fin r) \<Rightarrow> if of_int \<lfloor>r\<rfloor> = r then show_int \<lfloor>r\<rfloor> else repr v
      | PFloat _ \<Rightarrow> repr v
      | _ \<Rightarrow> py_str repr v)"

text \<open>
  \<open>PATTERN\<close> is \<open>%([^%]+)%\<close>. At a percent sign it matches when a non-empty run without percent
  signs follows and a percent sign ends it.
\<close>

definition expr_at :: "string \<Rightarrow> (string \<times> string) option" where
  "expr_at s =
     (case s of
        [] \<Rightarrow> None
      | x # xs \<Rightarrow>
          (let body = takeWhile (\<lambda>c. c \<noteq> CHR ''%'') xs; rest = dropWhile (\<lambda>c. c \<noteq> CHR ''%'') xs in
           if x = CHR ''%'' \<and> body \<noteq> [] \<and> rest \<noteq> [] then Some (body, tl rest) else None))"

definition fullmatch :: "string \<Rightarrow> string option" where
  "fullmatch s = (case expr_at s of Some (body, []) \<Rightarrow> Some body | _ \<Rightarrow> None)"

fun search :: "string \<Rightarrow> bool" where
  "search [] = False"
| "search (x # xs) = (expr_at (x # xs) \<noteq> None \<or> search xs)"

lemma expr_at_shorter: "expr_at s = Some (body, rest) \<Longrightarrow> length rest < length s"
proof (cases s)
  case (Cons x xs)
  assume "expr_at s = Some (body, rest)"
  then have "rest = tl (dropWhile (\<lambda>c. c \<noteq> CHR ''%'') xs)"
    using Cons by (auto simp: expr_at_def Let_def split: if_splits)
  then show ?thesis
    using Cons length_dropWhile_le [of "\<lambda>c. c \<noteq> CHR ''%''" xs] by simp
qed (simp add: expr_at_def)

text \<open>\<open>PATTERN.sub\<close> with a replacement that may raise: the first exception is the result.\<close>

function sub_all :: "(string \<Rightarrow> expr_error + string) \<Rightarrow> string \<Rightarrow> expr_error + string" where
  "sub_all f s =
     (case s of
        [] \<Rightarrow> Inr []
      | x # xs \<Rightarrow>
          (case expr_at s of
             Some (body, rest) \<Rightarrow>
               (case f body of
                  Inl e \<Rightarrow> Inl e
                | Inr r \<Rightarrow> (case sub_all f rest of Inl e \<Rightarrow> Inl e | Inr t \<Rightarrow> Inr (r @ t)))
           | None \<Rightarrow> (case sub_all f xs of Inl e \<Rightarrow> Inl e | Inr t \<Rightarrow> Inr (x # t))))"
  by pat_completeness auto
termination
  by (relation "measure (\<lambda>(f, s). length s)") (auto dest: expr_at_shorter)

declare sub_all.simps [simp del]

record expr_env =
  x_parse :: "string \<Rightarrow> pyast option"
  x_runtime :: runtime
  x_repr :: "pyval \<Rightarrow> string"

definition substitute :: "expr_env \<Rightarrow> string \<Rightarrow> pydict \<Rightarrow> expr_error + pyval" where
  "substitute env txt values =
     (case fullmatch txt of
        Some body \<Rightarrow> evaluate (x_parse env) (x_runtime env) body values
      | None \<Rightarrow>
          map_sum id PStr (sub_all (\<lambda>body.
            map_sum id (format_value (x_repr env))
              (evaluate (x_parse env) (x_runtime env) body values)) txt))"

fun has_expression :: "pyval \<Rightarrow> bool" where
  "has_expression (PStr s) = search s"
| "has_expression (PDict d) = (\<exists>kv \<in> set d. search (fst kv) \<or> has_expression (snd kv))"
| "has_expression (PList xs) = (\<exists>x \<in> set xs. has_expression x)"
| "has_expression _ = False"

text \<open>A text that cannot be evaluated is left standing.\<close>

definition resolve_text :: "expr_env \<Rightarrow> pydict \<Rightarrow> string \<Rightarrow> pyval" where
  "resolve_text env values s =
     (if \<not> search s then PStr s
      else case substitute env s values of Inr v \<Rightarrow> v | Inl _ \<Rightarrow> PStr s)"

text \<open>
  The keys of a dictionary are resolved as well; a key that resolves to something else than text
  is represented by its text, since the dictionaries of the model are keyed by text.
\<close>

fun resolve :: "expr_env \<Rightarrow> pydict \<Rightarrow> pyval \<Rightarrow> pyval" where
  "resolve env values (PStr s) = resolve_text env values s"
| "resolve env values (PDict d) =
     PDict (dict_update [] (map (\<lambda>kv.
       (py_str (x_repr env) (resolve_text env values (fst kv)), resolve env values (snd kv))) d))"
| "resolve env values (PList xs) = PList (map (resolve env values) xs)"
| "resolve env values v = v"

section \<open>Lemmas\<close>

text \<open>
  What the language reference documents of the operations on numbers: arithmetic on numbers
  answers numbers, a comparison answers a truth value, and so do the listed built-ins and methods
  whenever they answer at all.
\<close>

definition runtime_ok :: "runtime \<Rightarrow> bool" where
  "runtime_ok rt \<longleftrightarrow>
     (\<forall>u v w. is_number v \<longrightarrow> r_unary rt u v = Some w \<longrightarrow> is_number w) \<and>
     (\<forall>b v w x. allowed_binop b \<longrightarrow> is_number v \<longrightarrow> is_number w \<longrightarrow> r_binary rt b v w = Some x
        \<longrightarrow> is_number x) \<and>
     (\<forall>c v w x. r_compare rt c v w = Some x \<longrightarrow> is_number x) \<and>
     (\<forall>n vs x. n \<in> set NUMERIC_FUNCTIONS \<longrightarrow> r_call rt n vs = Some x \<longrightarrow> is_number x) \<and>
     (\<forall>a v vs x. a \<in> set NUMERIC_ATTRIBUTES \<longrightarrow> r_method rt a v vs = Some x \<longrightarrow> is_number x) \<and>
     (\<forall>a v x. a \<in> set NUMERIC_ATTRIBUTES \<longrightarrow> r_attr rt a v = Some x \<longrightarrow> is_number x)"

lemma runtime_ok_unary:
  "runtime_ok rt \<Longrightarrow> is_number v \<Longrightarrow> r_unary rt u v = Some w \<Longrightarrow> is_number w"
  unfolding runtime_ok_def by metis

lemma runtime_ok_binary:
  "runtime_ok rt \<Longrightarrow> allowed_binop b \<Longrightarrow> is_number v \<Longrightarrow> is_number v' \<Longrightarrow> r_binary rt b v v' = Some w \<Longrightarrow> is_number w"
  unfolding runtime_ok_def by metis

lemma runtime_ok_compare:
  "runtime_ok rt \<Longrightarrow> r_compare rt c v v' = Some w \<Longrightarrow> is_number w"
  unfolding runtime_ok_def by metis

lemma runtime_ok_call:
  "runtime_ok rt \<Longrightarrow> n \<in> set NUMERIC_FUNCTIONS \<Longrightarrow> r_call rt n vs = Some w \<Longrightarrow> is_number w"
  unfolding runtime_ok_def by metis

lemma runtime_ok_method:
  "runtime_ok rt \<Longrightarrow> n \<in> set NUMERIC_ATTRIBUTES \<Longrightarrow> r_method rt n v vs = Some w \<Longrightarrow> is_number w"
  unfolding runtime_ok_def by metis

lemma runtime_ok_attr:
  "runtime_ok rt \<Longrightarrow> n \<in> set NUMERIC_ATTRIBUTES \<Longrightarrow> r_attr rt n v = Some w \<Longrightarrow> is_number w"
  unfolding runtime_ok_def by metis

abbreviation all_ok :: "pydict \<Rightarrow> pyast \<Rightarrow> bool" where
  "all_ok values t \<equiv> \<forall>node \<in> set (walk t). node_ok values node"

lemma walk_self: "t \<in> set (walk t)"
  by (cases t) auto

lemma check_iff: "check tree e values = Inr () \<longleftrightarrow> all_ok values tree"
  by (auto simp: check_def)

lemma ev_cmp_number:
  assumes rt: "runtime_ok rt"
  shows "fst (ev_cmp rt values v ops xs) = Some w \<Longrightarrow> is_number w"
proof (induction ops arbitrary: v xs)
  case Nil
  then show ?case by simp
next
  case (Cons op ops)
  then obtain x xs' where xs: "xs = x # xs'" by (cases xs) auto
  with Cons.prems obtain u c where "fst (ev rt values x) = Some u" and c: "r_compare rt op v u = Some c"
    and "c = w \<or> fst (ev_cmp rt values u ops xs') = Some w"
    by (auto split: option.splits prod.splits if_splits)
  moreover have "is_number c" using runtime_ok_compare [OF rt c] .
  ultimately show ?case using Cons.IH by blast
qed

lemma is_numeric_sound:
  "is_numeric values t \<Longrightarrow> all_ok values t \<Longrightarrow> runtime_ok rt
   \<Longrightarrow> fst (ev rt values t) = Some v \<Longrightarrow> is_number v"
proof (induction "values" t arbitrary: v rule: is_numeric.induct)
  case (3 ns u x)
  then obtain w where "fst (ev rt ns x) = Some w" "r_unary rt u w = Some v"
    by (auto split: option.splits prod.splits)
  moreover from this have "is_number w" using 3 by simp
  ultimately show ?case using runtime_ok_unary 3(4) by blast
next
  case (4 ns l b r)
  then obtain x y where "fst (ev rt ns l) = Some x" "fst (ev rt ns r) = Some y"
    "r_binary rt b x y = Some v"
    by (auto split: option.splits prod.splits)
  moreover from this have "is_number x" "is_number y" using 4 by auto
  moreover have "allowed_binop b" using 4 by simp
  ultimately show ?case using runtime_ok_binary 4(5) by blast
next
  case (5 ns t b e)
  then show ?case by (auto split: option.splits prod.splits if_splits)
next
  case (6 ns l ops xs)
  obtain o1 m where e: "ev rt ns l = (o1, m)" by (cases "ev rt ns l")
  then obtain x where "o1 = Some x" using 6(4) by (cases o1) auto
  then have "fst (ev_cmp rt ns x ops xs) = Some v"
    using 6(4) e by (auto split: prod.splits)
  then show ?case using 6(3) ev_cmp_number by blast
next
  case (7 ns n args kws)
  then obtain vs where "r_call rt n vs = Some v"
    by (auto split: option.splits prod.splits if_splits)
  then show ?case using runtime_ok_call 7(1,3) by auto
next
  case (8 ns x a args kws)
  then obtain w vs where "r_method rt a w vs = Some v"
    by (auto split: option.splits prod.splits)
  then show ?case using runtime_ok_method 8(1,3) by auto
next
  case (10 ns x a)
  then obtain w where "r_attr rt a w = Some v"
    by (auto split: option.splits prod.splits)
  then show ?case using runtime_ok_attr 10(1,3) by auto
qed (auto split: option.splits)

text \<open>Every multiplication the interpreter performs on a checked tree is one of numbers.\<close>

definition numbers_only :: "mults \<Rightarrow> bool" where
  "numbers_only m \<longleftrightarrow> (\<forall>(v, w) \<in> set m. is_number v \<and> is_number w)"

lemma numbers_only_simps [simp]:
  "numbers_only []" "numbers_only (m @ m') \<longleftrightarrow> numbers_only m \<and> numbers_only m'"
  "numbers_only [(v, w)] \<longleftrightarrow> is_number v \<and> is_number w"
  by (auto simp: numbers_only_def)

lemma ev_mults:
  assumes rt: "runtime_ok rt"
  shows "all_ok ns t \<Longrightarrow> numbers_only (snd (ev rt ns t))"
    and "\<forall>x \<in> set xs. all_ok ns x \<Longrightarrow> numbers_only (snd (ev_list rt ns xs))"
    and "\<forall>x \<in> set xs. all_ok ns x \<Longrightarrow> numbers_only (snd (ev_bool rt ns b xs))"
    and "\<forall>x \<in> set xs. all_ok ns x \<Longrightarrow> numbers_only (snd (ev_cmp rt ns v ops xs))"
proof (induction rt\<equiv>rt ns t and rt\<equiv>rt ns xs and rt\<equiv>rt ns b xs and rt\<equiv>rt ns v ops xs
    rule: ev_ev_list_ev_bool_ev_cmp.induct)
  case (5 ns l b r)
  show ?case
  proof (cases "b = Mult")
    case True
    then have "is_numeric ns l" "is_numeric ns r" "all_ok ns l" "all_ok ns r"
      using 5 by auto
    then have "fst (ev rt ns l) = Some x \<Longrightarrow> is_number x" "fst (ev rt ns r) = Some y \<Longrightarrow> is_number y"
      for x y using is_numeric_sound rt by blast+
    with 5 show ?thesis by (fastforce split: option.splits prod.splits)
  next
    case False
    with 5 show ?thesis by (fastforce split: option.splits prod.splits)
  qed
next
  case (9 ns f args kws)
  then show ?case by (cases f) (fastforce split: option.splits prod.splits)+
qed (fastforce split: option.splits prod.splits if_splits)+

text \<open>Text around an expression is copied; text without one is unchanged.\<close>

lemma sub_all_Nil [simp]: "sub_all f [] = Inr []"
  by (simp add: sub_all.simps)

lemma sub_all_other:
  "expr_at (c # xs) = None \<Longrightarrow> sub_all f (c # xs) = map_sum id (\<lambda>t. c # t) (sub_all f xs)"
  by (subst sub_all.simps) (simp split: sum.splits)

lemma expr_at_other: "c \<noteq> CHR ''%'' \<Longrightarrow> expr_at (c # xs) = None"
  by (simp add: expr_at_def Let_def)

lemma expr_at_match:
  "CHR ''%'' \<notin> set body \<Longrightarrow> body \<noteq> [] \<Longrightarrow> expr_at (''%'' @ body @ ''%'' @ rest) = Some (body, rest)"
  by (simp add: expr_at_def takeWhile_neq dropWhile_neq)

lemma sub_all_plain: "CHR ''%'' \<notin> set s \<Longrightarrow> sub_all f s = Inr s"
  by (induction s) (auto simp: sub_all_other expr_at_other)

lemma sub_all_around:
  assumes "CHR ''%'' \<notin> set pre" "CHR ''%'' \<notin> set post" "CHR ''%'' \<notin> set body" "body \<noteq> []"
  shows "sub_all f (pre @ ''%'' @ body @ ''%'' @ post)
       = map_sum id (\<lambda>r. pre @ r @ post) (f body)"
  using assms(1)
proof (induction pre)
  case Nil
  have "sub_all f (''%'' @ body @ ''%'' @ post)
      = (case f body of Inl e \<Rightarrow> Inl e | Inr r \<Rightarrow>
           (case sub_all f post of Inl e \<Rightarrow> Inl e | Inr t \<Rightarrow> Inr (r @ t)))"
    using expr_at_match [OF assms(3,4), of post] by (subst sub_all.simps) simp
  then show ?case using sub_all_plain [OF assms(2)] by (simp split: sum.splits)
next
  case (Cons c pre)
  then have "c \<noteq> CHR ''%''" by auto
  then show ?case using Cons by (simp add: sub_all_other expr_at_other sum.map_comp comp_def id_def)
qed

lemma fullmatch_around:
  assumes "CHR ''%'' \<notin> set pre" "CHR ''%'' \<notin> set post" "CHR ''%'' \<notin> set body" "body \<noteq> []"
  shows "fullmatch (pre @ ''%'' @ body @ ''%'' @ post) = (if pre @ post = [] then Some body else None)"
proof (cases pre)
  case Nil
  then show ?thesis
    using expr_at_match [OF assms(3,4), of post] by (cases post) (auto simp: fullmatch_def)
next
  case (Cons c pre')
  then have "c \<noteq> CHR ''%''" using assms(1) by auto
  then show ?thesis using Cons by (simp add: fullmatch_def expr_at_other)
qed

text \<open>A dictionary that Python can hold: distinct keys, at every depth.\<close>

fun wf_val :: "pyval \<Rightarrow> bool" where
  "wf_val (PDict d) = (wf_dict d \<and> (\<forall>kv \<in> set d. wf_val (snd kv)))"
| "wf_val (PList xs) = (\<forall>x \<in> set xs. wf_val x)"
| "wf_val _ = True"

lemma resolve_plain: "\<not> has_expression v \<Longrightarrow> wf_val v \<Longrightarrow> resolve env values v = v"
proof (induction v rule: wf_val.induct)
  case (1 d)
  have "map (\<lambda>kv. (py_str (x_repr env) (resolve_text env values (fst kv)), resolve env values (snd kv))) d = d"
    using 1 by (intro map_idI) (auto simp: resolve_text_def)
  moreover have "dict_update [] d = d"
    using 1 dict_update_fresh [of "[]" d] by simp
  ultimately show ?case by simp
next
  case (2 xs)
  then show ?case by (auto intro!: map_idI)
qed (auto simp: resolve_text_def)

section \<open>Properties\<close>


definition small_runtime :: runtime where
  "small_runtime =
     \<lparr>r_name = (\<lambda>n. None), r_const = (\<lambda>c. None), r_unary = (\<lambda>u v. None),
      r_binary = (\<lambda>b v w. case (b, v, w) of (Mult, PInt i, PInt j) \<Rightarrow> Some (PInt (i * j)) | _ \<Rightarrow> None),
      r_compare = (\<lambda>c v w. None),
      r_call = (\<lambda>n vs. if n = ''len'' then (case vs of [PStr s] \<Rightarrow> Some (PInt (int (length s))) | _ \<Rightarrow> None)
                        else None),
      r_method = (\<lambda>a v vs. None), r_attr = (\<lambda>a v. None), r_subscript = (\<lambda>v w. None),
      r_build = (\<lambda>c vs. None)\<rparr>"

definition small_env :: expr_env where
  "small_env = \<lparr>x_parse = (\<lambda>s. None), x_runtime = small_runtime, x_repr = (\<lambda>v. ''?'')\<rparr>"

lemma small_runtime_ok: "runtime_ok small_runtime"
  by (auto simp: runtime_ok_def small_runtime_def split: binop.splits pyval.splits list.splits if_splits)


text \<open>an expression that is a parameter's name hands back the value itself when it is the whole
  text, so a number stays a number, and is formatted into the text around it otherwise.\<close>

theorem substitute_parameter:
  assumes "map_of ns name = Some v" and "strip name = name" and "name \<noteq> []"
    and "CHR ''%'' \<notin> set (pre @ name @ post)"
  shows "substitute env (pre @ ''%'' @ name @ ''%'' @ post) ns
       = Inr (if pre @ post = [] then v else PStr (pre @ format_value (x_repr env) v @ post))"
proof -
  have e: "evaluate (x_parse env) (x_runtime env) name ns = Inr v"
    using assms(1,2) by (simp add: evaluate_def)
  have n: "CHR ''%'' \<notin> set pre" "CHR ''%'' \<notin> set post" "CHR ''%'' \<notin> set name"
    using assms(4) by auto
  show ?thesis
    using fullmatch_around [OF n assms(3)] sub_all_around [OF n assms(3)] e
    by (simp add: substitute_def)
qed

theorem substitute_parameter_witness:
  "substitute small_env (''m;size='' @ ''%'' @ ''size'' @ ''%'' @ []) [(''size'', PFloat (Fin 3))]
   = Inr (PStr ''m;size=3'')"
proof -
  have "show_int 3 = ''3''" by code_simp
  then show ?thesis
    by (subst substitute_parameter)
      (auto simp: strip_def lstrip_def rstrip_def is_space_def code_def format_value_def)
qed

text \<open>a declaration in which nothing is an expression comes out of the resolution unchanged.\<close>

theorem resolve_without_expressions:
  assumes "\<not> has_expression v" and "wf_val v"
  shows "resolve env ns v = v"
  using assms by (rule resolve_plain)

theorem resolve_without_expressions_witness:
  "resolve small_env [] (PDict [(''desc'', PStr ''100% steel''), (''offset'', PList [PInt 1, PStr ''2''])])
   = PDict [(''desc'', PStr ''100% steel''), (''offset'', PList [PInt 1, PStr ''2''])]"
  by (rule resolve_without_expressions) (simp_all add: expr_at_def)

end
