(* ===== verification/Locks.thy ===== *)
theory Locks
  imports Prelude
begin

text \<open>
  The concurrency control of PartCAD: \<open>src/src/partcad/sandbox_lock.py\<close> (the readers/writer lock over
  a sandbox environment, the budget of interpreter processes) and \<open>src/src/partcad/concurrency.py\<close>
  (the re-entrant admission gate).

  Each critical section of the source (what runs under \<open>self._mutex\<close>, or between two awaits) is one
  function on the state of the object; the tasks that call it are a list of program positions, one
  per task, and the step relation lets any of them move. The lock file is free, held by this
  process, or held by another process, which may take and drop it at any time.
\<close>

section \<open>Counting the tasks at a position\<close>

definition cnt :: "('a \<Rightarrow> bool) \<Rightarrow> 'a list \<Rightarrow> int" where
  "cnt P xs = int (length (filter P xs))"

lemma cnt_Nil [simp]: "cnt P [] = 0"
  by (simp add: cnt_def)

lemma cnt_Cons [simp]: "cnt P (x # xs) = of_bool (P x) + cnt P xs"
  by (simp add: cnt_def)

lemma cnt_append [simp]: "cnt P (xs @ ys) = cnt P xs + cnt P ys"
  by (simp add: cnt_def)

lemma cnt_update [simp]:
  "i < length xs \<Longrightarrow> cnt P (xs[i := v]) = cnt P xs - of_bool (P (xs ! i)) + of_bool (P v)"
proof (induction xs arbitrary: i)
  case Nil
  then show ?case by simp
next
  case (Cons x xs)
  then show ?case by (cases i) auto
qed

lemma cnt_nonneg [simp]: "0 \<le> cnt P xs"
  by (simp add: cnt_def)

lemma cnt_pos: "i < length xs \<Longrightarrow> P (xs ! i) \<Longrightarrow> 0 < cnt P xs"
  by (auto simp: cnt_def length_filter_conv_card card_gt_0_iff)

lemma cnt_two:
  assumes "i < length xs" "j < length xs" "i \<noteq> j" "P (xs ! i)" "P (xs ! j)"
  shows "2 \<le> cnt P xs"
proof -
  have "{i, j} \<subseteq> {k. k < length xs \<and> P (xs ! k)}" using assms by auto
  then have "card {i, j} \<le> card {k. k < length xs \<and> P (xs ! k)}"
    by (intro card_mono) auto
  then show ?thesis using assms(3) by (simp add: cnt_def length_filter_conv_card)
qed

lemma cnt_zero: "cnt P xs = 0 \<longleftrightarrow> (\<forall>x \<in> set xs. \<not> P x)"
  by (auto simp: cnt_def filter_empty_conv)

lemma cnt_replicate: "cnt P (replicate n x) = (if P x then int n else 0)"
  by (simp add: cnt_def)

section \<open>The readers/writer lock\<close>

datatype file_lock = FileFree | FileOurs | FileOther

record environment_lock =
  file_lock :: file_lock
  readers :: int
  writer :: bool
  writers_waiting :: int

definition new_lock :: environment_lock where
  "new_lock = \<lparr>file_lock = FileFree, readers = 0, writer = False, writers_waiting = 0\<rparr>"

definition try_acquire :: "bool \<Rightarrow> environment_lock \<Rightarrow> bool \<times> environment_lock" where
  "try_acquire write l =
     (if write then
        if writer l \<or> readers l \<noteq> 0 then (False, l)
        else if file_lock l = FileOther then (False, l)
        else (True, l\<lparr>file_lock := FileOurs, writer := True\<rparr>)
      else
        if writer l \<or> writers_waiting l \<noteq> 0 then (False, l)
        else (True, l\<lparr>readers := readers l + 1\<rparr>))"

definition release_lock :: "bool \<Rightarrow> environment_lock \<Rightarrow> environment_lock" where
  "release_lock write l =
     (if write then l\<lparr>writer := False, file_lock := FileFree\<rparr>
      else l\<lparr>readers := readers l - 1\<rparr>)"

definition add_waiting :: "int \<Rightarrow> environment_lock \<Rightarrow> environment_lock" where
  "add_waiting n l = l\<lparr>writers_waiting := writers_waiting l + n\<rparr>"

text \<open>
  Where a task is. \<open>Missed\<close>: the first try failed. \<open>Polling\<close>: in the loop, counted as waiting if it
  is a writer. \<open>Leaving acquired\<close>: a writer past the loop (with the lock) or thrown out of it
  (cancelled), about to run the \<open>finally\<close>. \<open>Holding\<close>: inside the context manager.
\<close>

datatype lock_pc = Idle | Missed bool | Polling bool | Leaving bool | Holding bool

record lock_system =
  lock :: environment_lock
  tasks :: "lock_pc list"

definition goto :: "nat \<Rightarrow> lock_pc \<Rightarrow> environment_lock \<Rightarrow> lock_system \<Rightarrow> lock_system" where
  "goto i p l s = s\<lparr>lock := l, tasks := (tasks s)[i := p]\<rparr>"

text \<open>
  \<open>_wait_sync\<close> and \<open>_wait_async\<close> (the two differ in how they sleep), \<open>acquire\<close> and
  \<open>acquire_async\<close>, one rule per critical section.
\<close>

inductive lock_step :: "lock_system \<Rightarrow> lock_system \<Rightarrow> bool" where
  first_try: "i < length (tasks s) \<Longrightarrow> tasks s ! i = Idle \<Longrightarrow> try_acquire w (lock s) = (ok, l)
     \<Longrightarrow> lock_step s (goto i (if ok then Holding w else Missed w) l s)"
| start_waiting: "i < length (tasks s) \<Longrightarrow> tasks s ! i = Missed w
     \<Longrightarrow> lock_step s (goto i (Polling w) (if w then add_waiting 1 (lock s) else lock s) s)"
| poll: "i < length (tasks s) \<Longrightarrow> tasks s ! i = Polling w \<Longrightarrow> try_acquire w (lock s) = (ok, l)
     \<Longrightarrow> lock_step s (goto i (if ok then (if w then Leaving True else Holding False) else Polling w) l s)"
| cancel: "i < length (tasks s) \<Longrightarrow> tasks s ! i = Polling w
     \<Longrightarrow> lock_step s (goto i (if w then Leaving False else Idle) (lock s) s)"
| stop_waiting: "i < length (tasks s) \<Longrightarrow> tasks s ! i = Leaving acquired
     \<Longrightarrow> lock_step s (goto i (if acquired then Holding True else Idle) (add_waiting (-1) (lock s)) s)"
| leave: "i < length (tasks s) \<Longrightarrow> tasks s ! i = Holding w
     \<Longrightarrow> lock_step s (goto i Idle (release_lock w (lock s)) s)"
| other_takes: "file_lock (lock s) = FileFree
     \<Longrightarrow> lock_step s (s\<lparr>lock := (lock s)\<lparr>file_lock := FileOther\<rparr>\<rparr>)"
| other_drops: "file_lock (lock s) = FileOther
     \<Longrightarrow> lock_step s (s\<lparr>lock := (lock s)\<lparr>file_lock := FileFree\<rparr>\<rparr>)"

definition lock_init :: "lock_system \<Rightarrow> bool" where
  "lock_init s \<longleftrightarrow> lock s = new_lock \<and> (\<forall>p \<in> set (tasks s). p = Idle)"

fun is_reader :: "lock_pc \<Rightarrow> bool" where
  "is_reader (Holding w) = (\<not> w)"
| "is_reader _ = False"

fun is_writer :: "lock_pc \<Rightarrow> bool" where
  "is_writer (Holding w) = w"
| "is_writer (Leaving acquired) = acquired"
| "is_writer _ = False"

fun is_waiting_writer :: "lock_pc \<Rightarrow> bool" where
  "is_waiting_writer (Polling w) = w"
| "is_waiting_writer (Leaving _) = True"
| "is_waiting_writer _ = False"

text \<open>The counters of the object are the tasks they count, and a writer has everything for itself.\<close>

definition lock_inv :: "lock_system \<Rightarrow> bool" where
  "lock_inv s \<longleftrightarrow>
     readers (lock s) = cnt is_reader (tasks s)
     \<and> of_bool (writer (lock s)) = cnt is_writer (tasks s)
     \<and> writers_waiting (lock s) = cnt is_waiting_writer (tasks s)
     \<and> (writer (lock s) \<longleftrightarrow> file_lock (lock s) = FileOurs)
     \<and> (writer (lock s) \<longrightarrow> readers (lock s) = 0)"

lemma lock_inv_init: "lock_init s \<Longrightarrow> lock_inv s"
proof -
  assume s: "lock_init s"
  have "cnt P (tasks s) = 0" if "\<not> P Idle" for P :: "lock_pc \<Rightarrow> bool"
    using s that by (subst cnt_zero) (auto simp: lock_init_def)
  with s show ?thesis by (simp add: lock_init_def lock_inv_def new_lock_def)
qed

lemmas lock_defs = lock_inv_def goto_def try_acquire_def release_lock_def add_waiting_def

inductive_cases lock_stepE: "lock_step s t"

lemma lock_inv_step [step_inv]: "lock_step s t \<Longrightarrow> lock_inv s \<Longrightarrow> lock_inv t"
proof (induction rule: lock_step.induct)
  case (first_try i s w ok l)
  then show ?case by (cases w) (auto simp: lock_defs split: if_splits)
next
  case (start_waiting i s w)
  then show ?case by (cases w) (auto simp: lock_defs)
next
  case (poll i s w ok l)
  then show ?case by (cases w) (auto simp: lock_defs split: if_splits)
next
  case (cancel i s w)
  then show ?case by (cases w) (auto simp: lock_defs)
next
  case (stop_waiting i s acquired)
  then show ?case by (cases acquired) (auto simp: lock_defs)
next
  case (leave i s w)
  then have "w \<Longrightarrow> 0 < cnt is_writer (tasks s)" "\<not> w \<Longrightarrow> 0 < cnt is_reader (tasks s)"
    using cnt_pos [of i "tasks s"] by auto
  with leave show ?case by (cases w) (auto simp: lock_defs)
next
  case (other_takes s)
  then show ?case by (auto simp: lock_defs)
next
  case (other_drops s)
  then show ?case by (auto simp: lock_defs)
qed

interpretation env_lock: step_system lock_init lock_step lock_inv
  by unfold_locales (auto intro: lock_inv_init lock_inv_step)

lemma writer_unique:
  assumes "lock_inv s" "i < length (tasks s)" "is_writer (tasks s ! i)"
  shows "writer (lock s)" "cnt is_writer (tasks s) = 1" "cnt is_reader (tasks s) = 0"
    "file_lock (lock s) = FileOurs"
  using assms cnt_pos [of i "tasks s" is_writer] by (auto simp: lock_inv_def split: if_splits)

section \<open>The budget of interpreter processes\<close>

record process_slots =
  slot_count :: int
  semaphore :: int

definition new_slots :: "int \<Rightarrow> process_slots" where
  "new_slots count = \<lparr>slot_count = count, semaphore = count\<rparr>"

definition slot_acquire :: "process_slots \<Rightarrow> bool \<times> process_slots" where
  "slot_acquire p =
     (if semaphore p > 0 then (True, p\<lparr>semaphore := semaphore p - 1\<rparr>) else (False, p))"

text \<open>The release of a bounded semaphore raises when it would exceed its initial value.\<close>

definition slot_release :: "process_slots \<Rightarrow> process_slots option" where
  "slot_release p =
     (if semaphore p \<ge> slot_count p then None else Some (p\<lparr>semaphore := semaphore p + 1\<rparr>))"

definition process_slot_count :: "int option \<Rightarrow> int option \<Rightarrow> int" where
  "process_slot_count threads_max cpu_count =
     (case threads_max of
        Some n \<Rightarrow> max 1 n
      | None \<Rightarrow> max 2 (case cpu_count of None \<Rightarrow> 1 | Some c \<Rightarrow> if c = 0 then 1 else c))"

datatype slot_pc = SIdle | SPolling | SRunning | SFailed

record slot_system =
  slots :: process_slots
  runs :: "slot_pc list"

inductive slot_step :: "slot_system \<Rightarrow> slot_system \<Rightarrow> bool" where
  slot_enter: "i < length (runs s) \<Longrightarrow> runs s ! i = SIdle \<Longrightarrow> slot_acquire (slots s) = (ok, p)
     \<Longrightarrow> slot_step s (s\<lparr>slots := p, runs := (runs s)[i := if ok then SRunning else SPolling]\<rparr>)"
| slot_poll: "i < length (runs s) \<Longrightarrow> runs s ! i = SPolling \<Longrightarrow> slot_acquire (slots s) = (ok, p)
     \<Longrightarrow> slot_step s (s\<lparr>slots := p, runs := (runs s)[i := if ok then SRunning else SPolling]\<rparr>)"
| slot_cancel: "i < length (runs s) \<Longrightarrow> runs s ! i = SPolling
     \<Longrightarrow> slot_step s (s\<lparr>runs := (runs s)[i := SIdle]\<rparr>)"
| slot_leave: "i < length (runs s) \<Longrightarrow> runs s ! i = SRunning
     \<Longrightarrow> slot_step s (case slot_release (slots s) of
            None \<Rightarrow> s\<lparr>runs := (runs s)[i := SFailed]\<rparr>
          | Some p \<Rightarrow> s\<lparr>slots := p, runs := (runs s)[i := SIdle]\<rparr>)"

definition slot_init :: "int \<Rightarrow> slot_system \<Rightarrow> bool" where
  "slot_init count s \<longleftrightarrow> slots s = new_slots count \<and> (\<forall>p \<in> set (runs s). p = SIdle)"

definition slot_inv :: "int \<Rightarrow> slot_system \<Rightarrow> bool" where
  "slot_inv count s \<longleftrightarrow>
     slot_count (slots s) = count
     \<and> semaphore (slots s) + cnt (\<lambda>p. p = SRunning) (runs s) = count
     \<and> 0 \<le> semaphore (slots s)
     \<and> cnt (\<lambda>p. p = SFailed) (runs s) = 0"

lemma slot_inv_init: "0 \<le> count \<Longrightarrow> slot_init count s \<Longrightarrow> slot_inv count s"
proof -
  assume s: "0 \<le> count" "slot_init count s"
  have "cnt P (runs s) = 0" if "\<not> P SIdle" for P :: "slot_pc \<Rightarrow> bool"
    using s that by (subst cnt_zero) (auto simp: slot_init_def)
  with s show ?thesis by (simp add: slot_init_def slot_inv_def new_slots_def)
qed

lemma slot_inv_step [step_inv]: "slot_step s t \<Longrightarrow> slot_inv count s \<Longrightarrow> slot_inv count t"
proof (induction rule: slot_step.induct)
  case (slot_enter i s ok p)
  then show ?case by (auto simp: slot_inv_def slot_acquire_def split: if_splits)
next
  case (slot_poll i s ok p)
  then show ?case by (auto simp: slot_inv_def slot_acquire_def split: if_splits)
next
  case (slot_cancel i s)
  then show ?case by (auto simp: slot_inv_def)
next
  case (slot_leave i s)
  then have "0 < cnt (\<lambda>p. p = SRunning) (runs s)" by (intro cnt_pos [of i]) auto
  with slot_leave show ?case by (auto simp: slot_inv_def slot_release_def)
qed

interpretation slots: step_system "slot_init (process_slot_count tm cpu)" slot_step
  "slot_inv (process_slot_count tm cpu)"
  by unfold_locales
    (auto intro: slot_inv_init slot_inv_step simp: process_slot_count_def split: option.splits)

section \<open>The re-entrant gate\<close>

text \<open>
  A task is the event loop it runs on, the value of the gate's context variable in its context, and
  the calls of \<open>run\<close> it is inside of, innermost first: \<open>Outer\<close> for one that holds a permit, \<open>Nested\<close>
  for one that passed through. The semaphore of a loop is made by the first call on that loop.
\<close>

datatype frame = Outer | Nested

record gate_task =
  loop :: nat
  admitted :: bool
  frames :: "frame list"

record semaphore_state =
  permits :: int
  limit :: int

record gate =
  semaphores :: "nat \<Rightarrow> semaphore_state option"
  callers :: "gate_task list"

definition default_limit :: "int option \<Rightarrow> int" where
  "default_limit cpu_count = max (case cpu_count of None \<Rightarrow> 1 | Some c \<Rightarrow> if c = 0 then 1 else c) 8"

text \<open>\<open>ReentrantGate._semaphore\<close>: looked up, or made with the limit of this caller.\<close>

definition semaphore_of :: "int option \<Rightarrow> int option \<Rightarrow> nat \<Rightarrow> gate \<Rightarrow> semaphore_state" where
  "semaphore_of cpu_count lm l g =
     (case semaphores g l of
        Some sem \<Rightarrow> sem
      | None \<Rightarrow>
          let n = (case lm of None \<Rightarrow> default_limit cpu_count
                   | Some n \<Rightarrow> if n = 0 then default_limit cpu_count else n)
          in \<lparr>permits = n, limit = n\<rparr>)"

inductive gate_step :: "gate \<Rightarrow> gate \<Rightarrow> bool" where
  enter_nested: "i < length (callers g) \<Longrightarrow> c = callers g ! i \<Longrightarrow> admitted c
     \<Longrightarrow> gate_step g (g\<lparr>callers := (callers g)[i := c\<lparr>frames := Nested # frames c\<rparr>]\<rparr>)"
| enter_outer: "i < length (callers g) \<Longrightarrow> c = callers g ! i \<Longrightarrow> \<not> admitted c
     \<Longrightarrow> (\<forall>n. lm = Some n \<longrightarrow> 0 \<le> n) \<Longrightarrow> sem = semaphore_of cpu lm (loop c) g \<Longrightarrow> 0 < permits sem
     \<Longrightarrow> gate_step g (g\<lparr>semaphores := (semaphores g)(loop c \<mapsto> sem\<lparr>permits := permits sem - 1\<rparr>),
           callers := (callers g)[i := c\<lparr>admitted := True, frames := Outer # frames c\<rparr>]\<rparr>)"
| leave_nested: "i < length (callers g) \<Longrightarrow> c = callers g ! i \<Longrightarrow> frames c = Nested # fs
     \<Longrightarrow> gate_step g (g\<lparr>callers := (callers g)[i := c\<lparr>frames := fs\<rparr>]\<rparr>)"
| leave_outer: "i < length (callers g) \<Longrightarrow> c = callers g ! i \<Longrightarrow> frames c = Outer # fs
     \<Longrightarrow> semaphores g (loop c) = Some sem
     \<Longrightarrow> gate_step g (g\<lparr>semaphores := (semaphores g)(loop c \<mapsto> sem\<lparr>permits := permits sem + 1\<rparr>),
           callers := (callers g)[i := c\<lparr>admitted := False, frames := fs\<rparr>]\<rparr>)"
| spawn_task: "i < length (callers g) \<Longrightarrow> c = callers g ! i
     \<Longrightarrow> gate_step g (g\<lparr>callers := callers g @ [c\<lparr>frames := []\<rparr>]\<rparr>)"
| start_task: "gate_step g (g\<lparr>callers := callers g @ [\<lparr>loop = l, admitted = False, frames = []\<rparr>]\<rparr>)"

definition gate_init :: "gate \<Rightarrow> bool" where
  "gate_init g \<longleftrightarrow> semaphores g = Map.empty \<and> callers g = []"

definition holds_permit :: "nat \<Rightarrow> gate_task \<Rightarrow> bool" where
  "holds_permit l c \<longleftrightarrow> loop c = l \<and> Outer \<in> set (frames c)"

text \<open>A task that is not admitted is in no call; an outer call is the outermost one.\<close>

definition wf_caller :: "gate_task \<Rightarrow> bool" where
  "wf_caller c \<longleftrightarrow> (frames c \<noteq> [] \<longrightarrow> admitted c) \<and> Outer \<notin> set (butlast (frames c))"

fun permits_ok :: "semaphore_state option \<Rightarrow> int \<Rightarrow> bool" where
  "permits_ok None n = (n = 0)"
| "permits_ok (Some sem) n = (0 \<le> permits sem \<and> 0 < limit sem \<and> permits sem + n = limit sem)"

definition gate_inv :: "gate \<Rightarrow> bool" where
  "gate_inv g \<longleftrightarrow>
     (\<forall>c \<in> set (callers g). wf_caller c)
     \<and> (\<forall>l. permits_ok (semaphores g l) (cnt (holds_permit l) (callers g)))"

lemma gate_inv_init: "gate_init g \<Longrightarrow> gate_inv g"
  by (simp add: gate_init_def gate_inv_def)

lemma wf_callers_update:
  "\<forall>c \<in> set cs. wf_caller c \<Longrightarrow> wf_caller d \<Longrightarrow> \<forall>c \<in> set (cs[i := d]). wf_caller c"
  using set_update_subset_insert [of cs i d] by blast

lemma gate_inv_same:
  assumes "gate_inv g" "i < length (callers g)" "wf_caller d"
    "\<And>l. holds_permit l d = holds_permit l (callers g ! i)"
  shows "gate_inv (g\<lparr>callers := (callers g)[i := d]\<rparr>)"
proof -
  have "cnt (holds_permit l) ((callers g)[i := d]) = cnt (holds_permit l) (callers g)" for l
    using assms(2,4) by simp
  moreover have "\<forall>c \<in> set ((callers g)[i := d]). wf_caller c"
    using assms(1) by (intro wf_callers_update assms(3)) (simp add: gate_inv_def)
  ultimately show ?thesis
    using assms(1) by (simp add: gate_inv_def)
qed

lemma gate_inv_change:
  assumes g: "gate_inv g" and i: "i < length (callers g)" and d: "wf_caller d"
    and n: "\<And>k. cnt (holds_permit k) ((callers g)[i := d])
              = cnt (holds_permit k) (callers g) + (if k = l then n else 0)"
    and sem: "permits sem + cnt (holds_permit l) (callers g) + n = limit sem" "0 \<le> permits sem" "0 < limit sem"
  shows "gate_inv (g\<lparr>semaphores := (semaphores g)(l \<mapsto> sem), callers := (callers g)[i := d]\<rparr>)"
proof -
  have "\<forall>c \<in> set ((callers g)[i := d]). wf_caller c"
    using g by (intro wf_callers_update d) (simp add: gate_inv_def)
  then show ?thesis
    using g n sem by (simp add: gate_inv_def)
qed

lemma semaphore_of_fresh:
  assumes "semaphores g l = None" "\<forall>n. lm = Some n \<longrightarrow> 0 \<le> n"
  shows "permits (semaphore_of cpu lm l g) = limit (semaphore_of cpu lm l g)
    \<and> 0 < limit (semaphore_of cpu lm l g)"
  using assms by (auto simp: semaphore_of_def Let_def default_limit_def split: option.splits)

lemma gate_inv_step [step_inv]: "gate_step g h \<Longrightarrow> gate_inv g \<Longrightarrow> gate_inv h"
proof (induction rule: gate_step.induct)
  case (enter_nested i g c)
  then have "wf_caller (c\<lparr>frames := Nested # frames c\<rparr>)"
    by (auto simp: wf_caller_def gate_inv_def)
  with enter_nested show ?case
    by (intro gate_inv_same) (auto simp: holds_permit_def)
next
  case (enter_outer i g c lm sem cpu)
  then have "wf_caller c" by (auto simp: gate_inv_def)
  with enter_outer have f: "frames c = []" by (auto simp: wf_caller_def)
  have old: "permits sem + cnt (holds_permit (loop c)) (callers g) = limit sem \<and> 0 < limit sem"
  proof (cases "semaphores g (loop c)")
    case None
    then have "cnt (holds_permit (loop c)) (callers g) = 0"
      using enter_outer(7) unfolding gate_inv_def by (metis permits_ok.simps(1))
    then show ?thesis using semaphore_of_fresh [OF None enter_outer(4)] enter_outer(5) by simp
  next
    case (Some sem')
    then have "sem = sem'" using enter_outer(5) by (simp add: semaphore_of_def)
    then show ?thesis using Some enter_outer(7) unfolding gate_inv_def by (metis permits_ok.simps(2))
  qed
  let ?d = "c\<lparr>admitted := True, frames := Outer # frames c\<rparr>"
  have "wf_caller ?d" using f by (simp add: wf_caller_def)
  moreover have "cnt (holds_permit k) ((callers g)[i := ?d])
      = cnt (holds_permit k) (callers g) + (if k = loop c then 1 else 0)" for k
    using enter_outer(1,2) f by (simp add: holds_permit_def)
  ultimately show ?case
    using enter_outer(1,6,7) old by (intro gate_inv_change [where n = 1]) simp_all
next
  case (leave_nested i g c fs)
  then have "wf_caller c" by (auto simp: gate_inv_def)
  with leave_nested have "wf_caller (c\<lparr>frames := fs\<rparr>)"
    by (auto simp: wf_caller_def split: if_splits)
  with leave_nested show ?case
    by (intro gate_inv_same) (auto simp: holds_permit_def)
next
  case (leave_outer i g c fs sem)
  then have "wf_caller c" by (auto simp: gate_inv_def)
  with leave_outer have f: "fs = []" by (cases fs) (auto simp: wf_caller_def)
  have old: "0 \<le> permits sem \<and> 0 < limit sem
      \<and> permits sem + cnt (holds_permit (loop c)) (callers g) = limit sem"
    using leave_outer(4,5) unfolding gate_inv_def by (metis permits_ok.simps(2))
  let ?d = "c\<lparr>admitted := False, frames := fs\<rparr>"
  have "wf_caller ?d" using f by (simp add: wf_caller_def)
  moreover have "cnt (holds_permit k) ((callers g)[i := ?d])
      = cnt (holds_permit k) (callers g) + (if k = loop c then -1 else 0)" for k
    using leave_outer(1,2,3) f by (simp add: holds_permit_def)
  ultimately show ?case
    using leave_outer(1,5) old by (intro gate_inv_change [where n = "-1"]) simp_all
next
  case (spawn_task i g c)
  then have "wf_caller (c\<lparr>frames := []\<rparr>)" by (simp add: wf_caller_def gate_inv_def)
  with spawn_task show ?case by (simp add: gate_inv_def holds_permit_def)
next
  case (start_task g l)
  then show ?case by (simp add: gate_inv_def holds_permit_def wf_caller_def)
qed

interpretation gates: step_system gate_init gate_step gate_inv
  by unfold_locales (auto intro: gate_inv_init gate_inv_step)

section \<open>Properties\<close>

text \<open>C1: a task installing into an environment has it for itself: while it holds the lock, no other
  task of the process reads or writes the environment and no other process installs into it.\<close>

theorem environment_lock_exclusive:
  assumes "reach lock_init lock_step s" and "i < length (tasks s)" and "j < length (tasks s)"
    and "i \<noteq> j" and "is_writer (tasks s ! i)"
  shows "\<not> is_writer (tasks s ! j) \<and> \<not> is_reader (tasks s ! j) \<and> file_lock (lock s) = FileOurs"
proof -
  have inv: "lock_inv s" using env_lock.reach_inv assms(1) .
  note w = writer_unique [OF inv assms(2,5)]
  have "\<not> is_writer (tasks s ! j)"
    using w(2) cnt_two [of i "tasks s" j is_writer] assms(2-5) by fastforce
  moreover have "\<not> is_reader (tasks s ! j)"
    using w(3) assms(3) by (simp add: cnt_zero)
  ultimately show ?thesis using w(4) by simp
qed

definition two_tasks :: lock_system where
  "two_tasks = \<lparr>lock = new_lock, tasks = [Idle, Idle]\<rparr>"

lemma two_tasks_writer: "reach lock_init lock_step (goto 0 (Holding True) (snd (try_acquire True new_lock)) two_tasks)"
proof -
  have "reach lock_init lock_step two_tasks"
    by (rule reach_init) (simp add: lock_init_def two_tasks_def)
  moreover have "lock_step two_tasks (goto 0 (if True then Holding True else Missed True)
      (snd (try_acquire True new_lock)) two_tasks)"
    by (rule first_try) (simp_all add: two_tasks_def try_acquire_def new_lock_def)
  ultimately show ?thesis using reach_step by fastforce
qed

theorem environment_lock_exclusive_witness:
  "\<not> is_writer (tasks (goto 0 (Holding True) (snd (try_acquire True new_lock)) two_tasks) ! 1)"
  using environment_lock_exclusive [OF two_tasks_writer, of 0 1]
  by (simp add: goto_def two_tasks_def)

text \<open>readers defer to a writer that is waiting: while one is, an attempt to read fails and leaves
  the lock as it was, so a stream of readers cannot starve an install.\<close>

theorem environment_lock_prefers_writers:
  assumes "reach lock_init lock_step s" and "i < length (tasks s)" and "is_waiting_writer (tasks s ! i)"
  shows "try_acquire False (lock s) = (False, lock s)"
proof -
  have "lock_inv s" using env_lock.reach_inv assms(1) .
  then have "writers_waiting (lock s) \<noteq> 0"
    using cnt_pos [of i "tasks s" is_waiting_writer] assms(2,3) by (simp add: lock_inv_def)
  then show ?thesis by (simp add: try_acquire_def)
qed

lemma two_tasks_waiting:
  "reach lock_init lock_step
     (goto 1 (Polling True) (add_waiting 1 (snd (try_acquire True new_lock)))
       (goto 1 (Missed True) (snd (try_acquire True new_lock))
         (goto 0 (Holding True) (snd (try_acquire True new_lock)) two_tasks)))"
proof -
  let ?a = "goto 0 (Holding True) (snd (try_acquire True new_lock)) two_tasks"
  let ?b = "goto 1 (Missed True) (snd (try_acquire True new_lock)) ?a"
  have "lock_step ?a (goto 1 (if False then Holding True else Missed True)
      (snd (try_acquire True new_lock)) ?a)"
    by (rule first_try) (simp_all add: goto_def two_tasks_def try_acquire_def new_lock_def)
  then have "reach lock_init lock_step ?b"
    using reach_step [OF two_tasks_writer] by simp
  moreover have "lock_step ?b (goto 1 (Polling True) (if True then add_waiting 1 (lock ?b) else lock ?b) ?b)"
    by (rule start_waiting) (simp_all add: goto_def two_tasks_def)
  ultimately show ?thesis using reach_step by (fastforce simp: goto_def)
qed

theorem environment_lock_prefers_writers_witness:
  "fst (try_acquire False (add_waiting 1 (snd (try_acquire True new_lock)))) = False"
  using environment_lock_prefers_writers [OF two_tasks_waiting, of 1]
  by (simp add: goto_def two_tasks_def)

text \<open>nothing leaks. Whenever no task is in the lock, whatever was acquired, waited for or
  cancelled before, its counters are those of a new lock and the file is not held.\<close>

theorem environment_lock_quiescent:
  assumes "reach lock_init lock_step s" and "\<forall>p \<in> set (tasks s). p = Idle"
  shows "lock s = new_lock \<lparr>file_lock := file_lock (lock s)\<rparr> \<and> file_lock (lock s) \<noteq> FileOurs"
proof -
  have inv: "lock_inv s" using env_lock.reach_inv assms(1) .
  have "cnt P (tasks s) = 0" if "\<not> P Idle" for P :: "lock_pc \<Rightarrow> bool"
    using assms(2) that by (subst cnt_zero) auto
  then show ?thesis
    using inv by (cases "lock s") (auto simp: lock_inv_def new_lock_def)
qed

theorem environment_lock_quiescent_witness: "lock two_tasks = new_lock \<and> FileFree \<noteq> FileOurs"
proof -
  have "reach lock_init lock_step two_tasks"
    by (rule reach_init) (simp add: lock_init_def two_tasks_def)
  then show ?thesis
    using environment_lock_quiescent [of two_tasks] by (simp add: two_tasks_def)
qed

text \<open>never more interpreters run than the machine's budget, which is at least one, and giving a
  slot back never fails.\<close>

theorem process_slots_bounded:
  assumes "reach (slot_init (process_slot_count tm cpu)) slot_step s"
  shows "cnt (\<lambda>p. p = SRunning) (runs s) \<le> process_slot_count tm cpu
       \<and> 1 \<le> process_slot_count tm cpu \<and> (\<forall>p \<in> set (runs s). p \<noteq> SFailed)"
proof -
  have "slot_inv (process_slot_count tm cpu) s" using slots.reach_inv assms .
  then show ?thesis
    by (auto simp: slot_inv_def cnt_zero process_slot_count_def split: option.splits)
qed

theorem process_slots_bounded_witness:
  "cnt (\<lambda>p. p = SRunning) [SIdle, SIdle] \<le> process_slot_count (Some 0) None"
proof -
  let ?s = "\<lparr>slots = new_slots (process_slot_count (Some 0) None), runs = [SIdle, SIdle]\<rparr>"
  have "reach (slot_init (process_slot_count (Some 0) None)) slot_step ?s"
    by (rule reach_init) (simp add: slot_init_def)
  then show ?thesis using process_slots_bounded [of "Some 0" None ?s] by simp
qed

text \<open>C35: the gate admits at most its limit per event loop and cannot deadlock on itself. When every
  permit of a loop is taken, a task that holds one can return from its innermost call, and a task
  already admitted enters again without asking for a permit.\<close>

theorem gate_admits_and_progresses:
  assumes "reach gate_init gate_step g" and "semaphores g l = Some sem"
  shows "cnt (holds_permit l) (callers g) \<le> limit sem
       \<and> (permits sem = 0 \<longrightarrow>
            (\<exists>i h. i < length (callers g) \<and> holds_permit l (callers g ! i) \<and> gate_step g h
               \<and> frames (callers h ! i) = tl (frames (callers g ! i))))
       \<and> (\<forall>i < length (callers g). admitted (callers g ! i) \<longrightarrow>
            (\<exists>h. gate_step g h \<and> semaphores h = semaphores g
               \<and> frames (callers h ! i) = Nested # frames (callers g ! i)))"
proof -
  have inv: "gate_inv g" using gates.reach_inv assms(1) .
  then have sem: "permits sem + cnt (holds_permit l) (callers g) = limit sem"
    "0 \<le> permits sem" "0 < limit sem"
    using assms(2) by (metis gate_inv_def permits_ok.simps(2))+
  have progress: "\<exists>i h. i < length (callers g) \<and> holds_permit l (callers g ! i) \<and> gate_step g h
      \<and> frames (callers h ! i) = tl (frames (callers g ! i))" if "permits sem = 0"
  proof -
    have "cnt (holds_permit l) (callers g) \<noteq> 0" using sem that by simp
    then obtain i where i: "i < length (callers g)" "holds_permit l (callers g ! i)"
      by (metis cnt_zero in_set_conv_nth)
    then obtain f fs where f: "frames (callers g ! i) = f # fs" "loop (callers g ! i) = l"
      by (cases "frames (callers g ! i)") (auto simp: holds_permit_def)
    have "\<exists>h. gate_step g h \<and> frames (callers h ! i) = fs"
    proof (cases f)
      case Outer
      then show ?thesis
        using leave_outer [OF i(1) refl, of fs sem] f assms(2) i(1) by force
    next
      case Nested
      then show ?thesis
        using leave_nested [OF i(1) refl, of fs] f i(1) by force
    qed
    then show ?thesis using i f(1) by (metis list.sel(3))
  qed
  have nested: "\<exists>h. gate_step g h \<and> semaphores h = semaphores g
      \<and> frames (callers h ! i) = Nested # frames (callers g ! i)"
    if "i < length (callers g)" "admitted (callers g ! i)" for i
    using enter_nested [OF that(1) refl that(2)] that(1) by force
  show ?thesis using sem progress nested by auto
qed

definition one_admitted :: gate where
  "one_admitted =
     \<lparr>semaphores = Map.empty(0 \<mapsto> \<lparr>permits = 0, limit = 1\<rparr>),
      callers = [\<lparr>loop = 0, admitted = True, frames = [Outer]\<rparr>]\<rparr>"

lemma one_admitted_reachable: "reach gate_init gate_step one_admitted"
proof -
  let ?g0 = "\<lparr>semaphores = Map.empty, callers = []\<rparr>"
  let ?g1 = "\<lparr>semaphores = Map.empty, callers = [\<lparr>loop = 0, admitted = False, frames = []\<rparr>]\<rparr>"
  have "reach gate_init gate_step ?g0" by (rule reach_init) (simp add: gate_init_def)
  moreover have "gate_step ?g0 ?g1" using start_task [of ?g0 0] by simp
  ultimately have "reach gate_init gate_step ?g1" by (rule reach_step)
  moreover have "gate_step ?g1 one_admitted"
    using enter_outer [of 0 ?g1 "\<lparr>loop = 0, admitted = False, frames = []\<rparr>" "Some 1"
        "\<lparr>permits = 1, limit = 1\<rparr>" None]
    by (simp add: semaphore_of_def one_admitted_def)
  ultimately show ?thesis by (rule reach_step)
qed

theorem gate_admits_and_progresses_witness:
  "\<exists>i h. i < length (callers one_admitted) \<and> gate_step one_admitted h
     \<and> frames (callers h ! i) = tl (frames (callers one_admitted ! i))"
  using gate_admits_and_progresses [OF one_admitted_reachable, of 0 "\<lparr>permits = 0, limit = 1\<rparr>"]
  by (auto simp: one_admitted_def)

end
