(* ===== verification/CacheTiers.thy ===== *)
theory CacheTiers
  imports Prelude
begin

text \<open>
  \<open>src/src/partcad/cache.py\<close>, \<open>src/src/partcad/cache_backend.py\<close> and
  \<open>src/src/partcad/cache_backend_files.py\<close>: a cache as a list of storage tiers, nearest first.

  A tier is its size window, whether it stores name sidecars, what it stores, and whether it works:
  \<open>failing = Some landed\<close> is a tier that raises, after the entries whose names satisfy \<open>landed\<close>
  were written. An answer of a tier is an association list from entry names.
\<close>

type_synonym entries = "(string \<times> string) list"

record tier =
  min_entry_size :: nat
  max_entry_size :: nat
  stores_names :: bool
  stored :: "string \<Rightarrow> string option"
  failing :: "(string \<Rightarrow> bool) option"

section \<open>One tier\<close>

definition SIZED_KEYS :: "string list" where
  "SIZED_KEYS = [''shape'', ''sketch'', ''part'', ''assembly'', ''cmps'']"

definition PROPERTIES_SUFFIX :: string where
  "PROPERTIES_SUFFIX = ''-props''"

definition NON_GEOMETRY_SUFFIXES :: "string list" where
  "NON_GEOMETRY_SUFFIXES = [PROPERTIES_SUFFIX]"

definition accepts :: "tier \<Rightarrow> string \<Rightarrow> nat \<Rightarrow> bool" where
  "accepts t key n =
     (if \<not> (\<exists>p \<in> set SIZED_KEYS. starts_with key p) \<or> (\<exists>q \<in> set NON_GEOMETRY_SUFFIXES. ends_with key q)
      then True
      else if n \<ge> 2 \<and> min_entry_size t \<noteq> 0 \<and> n < min_entry_size t then False
      else if max_entry_size t \<noteq> 0 \<and> n > max_entry_size t then False
      else True)"

text \<open>\<open>FilesCacheBackend._read_async\<close>: the entries that exist.\<close>

definition files_read :: "tier \<Rightarrow> string list \<Rightarrow> entries" where
  "files_read t names = concat (map (\<lambda>name. case stored t name of None \<Rightarrow> [] | Some data \<Rightarrow> [(name, data)]) names)"

text \<open>\<open>FilesCacheBackend._contains_async\<close>: one answer per name, by the size of the file.\<close>

definition files_contains :: "tier \<Rightarrow> string list \<Rightarrow> (string \<times> bool) list" where
  "files_contains t names =
     map (\<lambda>name. (name, case stored t name of None \<Rightarrow> False | Some data \<Rightarrow> 0 < length data)) names"

text \<open>\<open>CacheBackend._contains_async\<close>: the answer of a tier that can only be read.\<close>

definition default_contains :: "tier \<Rightarrow> string list \<Rightarrow> (string \<times> bool) list" where
  "default_contains t names =
     (let found = files_read t names in
      map (\<lambda>name. (name, case map_of found name of None \<Rightarrow> False | Some data \<Rightarrow> data \<noteq> [])) names)"

text \<open>\<open>FilesCacheBackend._write_async\<close>: every entry replaced as a whole.\<close>

fun files_write :: "(string \<Rightarrow> string option) \<Rightarrow> entries \<Rightarrow> (string \<Rightarrow> string option)" where
  "files_write m [] = m"
| "files_write m ((name, data) # items) = files_write (m(name \<mapsto> data)) items"

definition tier_read :: "tier \<Rightarrow> string list \<Rightarrow> entries" where
  "tier_read t names = (if failing t \<noteq> None then [] else files_read t names)"

definition tier_contains :: "tier \<Rightarrow> string list \<Rightarrow> (string \<times> bool) list" where
  "tier_contains t names =
     (if names = [] then [] else if failing t \<noteq> None then [] else files_contains t names)"

definition tier_write :: "tier \<Rightarrow> entries \<Rightarrow> tier \<times> (string \<times> bool) list" where
  "tier_write t items =
     (if items = [] then (t, [])
      else case failing t of
        None \<Rightarrow> (t\<lparr>stored := files_write (stored t) items\<rparr>, map (\<lambda>(name, _). (name, True)) items)
      | Some landed \<Rightarrow>
          (t\<lparr>stored := files_write (stored t) (filter (\<lambda>(name, _). landed name) items)\<rparr>, []))"

section \<open>The hierarchy\<close>

definition entry_name :: "string \<Rightarrow> string \<Rightarrow> string" where
  "entry_name hash_str key = hash_str @ ''.'' @ key"

definition task_backend ::
  "string \<Rightarrow> string \<Rightarrow> (string \<times> string) list \<Rightarrow> tier \<Rightarrow> tier \<times> (string \<times> bool) list" where
  "task_backend hash_str hash_name items t =
     (let accepted = map (\<lambda>(key, data). (entry_name hash_str key, data))
                       (filter (\<lambda>(key, data). accepts t key (length data)) items)
      in if accepted = [] then (t, [])
         else tier_write t
           (if stores_names t
            then AList.update (entry_name hash_str ''name'') (utf8 hash_name) accepted
            else accepted))"

text \<open>\<open>hash_str\<close> is what \<open>CacheHash.get\<close> answered; the result lists the keys reported as saved.\<close>

definition write_data ::
  "tier list \<Rightarrow> string option \<Rightarrow> string \<Rightarrow> (string \<times> string) list \<Rightarrow> tier list \<times> (string \<times> bool) list" where
  "write_data backends hash_str hash_name items =
     (if backends = [] then (backends, [])
      else case hash_str of
        None \<Rightarrow> (backends, [])
      | Some h \<Rightarrow>
          if h = '''' then (backends, [])
          else
            let results = map (task_backend h hash_name items) backends;
                saved = filter (\<lambda>key. \<exists>r \<in> set results. map_of (snd r) (entry_name h key) = Some True)
                          (map fst items)
            in (map fst results, map (\<lambda>key. (key, True)) saved))"

text \<open>One turn of the loop over the tiers: what this tier has, and what is still pending.\<close>

fun read_tiers ::
  "string \<Rightarrow> tier list \<Rightarrow> string list \<Rightarrow> (string \<times> string option) list \<Rightarrow> (string \<times> string option) list" where
  "read_tiers h [] pending found = found @ map (\<lambda>key. (key, None)) pending"
| "read_tiers h (t # ts) pending found =
     (if pending = [] then found
      else
        let answer = tier_read t (map (entry_name h) pending);
            hits = filter (\<lambda>key. map_of answer (entry_name h key) \<noteq> None) pending;
            still = filter (\<lambda>key. map_of answer (entry_name h key) = None) pending
        in read_tiers h ts still (found @ map (\<lambda>key. (key, map_of answer (entry_name h key))) hits))"

definition read_data ::
  "tier list \<Rightarrow> string option \<Rightarrow> string list \<Rightarrow> (string \<times> string option) list" where
  "read_data backends hash_str keys =
     (if backends = [] then []
      else case hash_str of
        None \<Rightarrow> []
      | Some h \<Rightarrow> if h = '''' then [] else read_tiers h backends keys [])"

fun contains_tiers :: "string \<Rightarrow> tier list \<Rightarrow> string list \<Rightarrow> string list \<Rightarrow> string list" where
  "contains_tiers h [] pending found = found"
| "contains_tiers h (t # ts) pending found =
     (if pending = [] then found
      else
        let held = tier_contains t (map (entry_name h) pending);
            hits = filter (\<lambda>key. map_of held (entry_name h key) = Some True) pending;
            still = filter (\<lambda>key. map_of held (entry_name h key) \<noteq> Some True) pending
        in contains_tiers h ts still (found @ hits))"

definition contains_data :: "tier list \<Rightarrow> string option \<Rightarrow> string list \<Rightarrow> (string \<times> bool) list" where
  "contains_data backends hash_str keys =
     (let nothing = map (\<lambda>key. (key, False)) keys in
      if backends = [] then nothing
      else case hash_str of
        None \<Rightarrow> nothing
      | Some h \<Rightarrow>
          if h = '''' then nothing
          else let found = contains_tiers h backends keys [] in map (\<lambda>key. (key, key \<in> set found)) keys)"

section \<open>What a tier promises\<close>

text \<open>
  The interface the hierarchy relies on: what is written is what is read, nothing else changes, and
  the question whether an entry is held is answered as reading it would.
\<close>

locale storage_tier =
  fixes get :: "'t \<Rightarrow> string list \<Rightarrow> entries"
    and has :: "'t \<Rightarrow> string list \<Rightarrow> (string \<times> bool) list"
    and put :: "'t \<Rightarrow> entries \<Rightarrow> 't \<times> (string \<times> bool) list"
    and works :: "'t \<Rightarrow> bool"
    and holds :: "'t \<Rightarrow> string \<Rightarrow> string option"
  assumes read_holds: "works t \<Longrightarrow> map_of (get t names) n = (if n \<in> set names then holds t n else None)"
    and contains_holds: "works t \<Longrightarrow> n \<in> set names \<Longrightarrow>
      map_of (has t names) n = Some (holds t n \<noteq> None \<and> holds t n \<noteq> Some [])"
    and write_holds: "works t \<Longrightarrow> wf_dict items \<Longrightarrow> holds (fst (put t items)) = holds t ++ map_of items"
    and write_works: "works t \<Longrightarrow> works (fst (put t items))"
    and write_reports: "works t \<Longrightarrow> map_of (snd (put t items)) n = (if n \<in> fst ` set items then Some True else None)"
begin

lemma read_after_write:
  assumes "works t" "wf_dict items" "map_of items n = Some data" "n \<in> set names"
  shows "map_of (get (fst (put t items)) names) n = Some data"
  using assms read_holds [OF write_works] write_holds by simp

lemma write_frame:
  assumes "works t" "wf_dict items" "n \<notin> fst ` set items"
  shows "map_of (get (fst (put t items)) names) n = map_of (get t names) n"
proof -
  have "map_of items n = None" using assms(3) by (simp add: map_of_eq_None_iff)
  then show ?thesis
    using assms read_holds [OF write_works] read_holds write_holds by (simp add: map_add_def)
qed

lemma contains_iff_nonempty_read:
  assumes "works t" "n \<in> set names"
  shows "map_of (has t names) n = Some True
         \<longleftrightarrow> (\<exists>data. map_of (get t names) n = Some data \<and> data \<noteq> [])"
  using assms read_holds contains_holds by (auto split: option.splits)

end

lemma map_of_files_read: "map_of (files_read t names) n = (if n \<in> set names then stored t n else None)"
  by (induction names) (auto simp: files_read_def split: option.splits)

lemma map_of_map_key: "map_of (map (\<lambda>x. (x, f x)) xs) n = (if n \<in> set xs then Some (f n) else None)"
  by (induction xs) auto

lemma files_write_map: "wf_dict items \<Longrightarrow> files_write m items = m ++ map_of items"
proof (induction m items rule: files_write.induct)
  case (1 m)
  then show ?case by simp
next
  case (2 m name data items)
  then have "map_of items name = None" by (simp add: map_of_eq_None_iff)
  then have "m(name \<mapsto> data) ++ map_of items = (m ++ map_of items)(name \<mapsto> data)"
    by (intro map_add_upd_left) (simp add: dom_def)
  with 2 show ?case by (simp del: fun_upd_apply)
qed

lemma map_of_report: "map_of (map (\<lambda>(name, _). (name, True)) items) n
    = (if n \<in> fst ` set items then Some True else None)"
  by (induction items) auto

interpretation files: storage_tier tier_read tier_contains tier_write "\<lambda>t. failing t = None" stored
proof unfold_locales
  fix t :: tier and names n
  assume w: "failing t = None"
  show "map_of (tier_read t names) n = (if n \<in> set names then stored t n else None)"
    using w by (simp add: tier_read_def map_of_files_read)
  show "map_of (tier_contains t names) n = Some (stored t n \<noteq> None \<and> stored t n \<noteq> Some [])"
    if "n \<in> set names"
    using w that by (auto simp: tier_contains_def files_contains_def map_of_map_key split: option.splits)
next
  fix t :: tier and items :: entries and n
  assume w: "failing t = None"
  show "stored (fst (tier_write t items)) = stored t ++ map_of items" if "wf_dict items"
    using w that by (simp add: tier_write_def files_write_map)
  show "failing (fst (tier_write t items)) = None"
    using w by (simp add: tier_write_def)
  show "map_of (snd (tier_write t items)) n = (if n \<in> fst ` set items then Some True else None)"
    using w by (simp add: tier_write_def map_of_report)
qed

section \<open>The hierarchy reads the nearest tier\<close>

text \<open>The entry of the nearest working tier that has one.\<close>

fun nearest :: "tier list \<Rightarrow> string \<Rightarrow> string option" where
  "nearest [] n = None"
| "nearest (t # ts) n =
     (if failing t \<noteq> None then nearest ts n
      else case stored t n of None \<Rightarrow> nearest ts n | Some data \<Rightarrow> Some data)"

lemma entry_name_inj [simp]: "entry_name h k = entry_name h k' \<longleftrightarrow> k = k'"
  by (simp add: entry_name_def)

lemma map_of_entry: "map_of (map (\<lambda>x. (entry_name h x, f x)) xs) (entry_name h n)
    = (if n \<in> set xs then Some (f n) else None)"
  by (induction xs) auto

lemma tier_read_broken [simp]: "failing t \<noteq> None \<Longrightarrow> tier_read t names = []"
  by (simp add: tier_read_def)

lemma map_of_tier_read:
  "map_of (tier_read t (map (entry_name h) ks)) (entry_name h k)
   = (if failing t = None \<and> k \<in> set ks then stored t (entry_name h k) else None)"
  using files.read_holds [of t "map (entry_name h) ks" "entry_name h k"] by (auto simp: tier_read_def)

lemma read_tiers_spec:
  assumes "\<And>k. k \<in> set pending \<Longrightarrow> map_of found k = None"
  shows "map_of (read_tiers h ts pending found) k =
     (case map_of found k of
        Some v \<Rightarrow> Some v
      | None \<Rightarrow> if k \<in> set pending then Some (nearest ts (entry_name h k)) else None)"
  using assms
proof (induction h ts pending found rule: read_tiers.induct)
  case (1 h pending found)
  then show ?case by (simp add: map_of_append map_add_def map_of_map_key split: option.splits)
next
  case (2 h t ts pending found)
  show ?case
  proof (cases "pending = []")
    case True
    then show ?thesis by (auto split: option.splits)
  next
    case False
    let ?a = "\<lambda>key. map_of (tier_read t (map (entry_name h) pending)) (entry_name h key)"
    let ?hits = "filter (\<lambda>key. ?a key \<noteq> None) pending"
    let ?still = "filter (\<lambda>key. ?a key = None) pending"
    let ?found = "found @ map (\<lambda>key. (key, ?a key)) ?hits"
    have step: "read_tiers h (t # ts) pending found = read_tiers h ts ?still ?found"
      using False by (simp add: Let_def)
    have found: "map_of ?found key = (case map_of found key of Some v \<Rightarrow> Some v
        | None \<Rightarrow> if key \<in> set ?hits then Some (?a key) else None)" for key
      by (simp add: map_of_append map_add_def map_of_map_key split: option.splits)
    have fresh: "map_of ?found key = None" if "key \<in> set ?still" for key
      using that 2(2) [of key] by (subst found) simp
    have "map_of (read_tiers h ts ?still ?found) k =
        (case map_of ?found k of Some v \<Rightarrow> Some v
         | None \<Rightarrow> if k \<in> set ?still then Some (nearest ts (entry_name h k)) else None)"
      using 2(1) [OF False refl refl refl fresh] by simp
    then show ?thesis
      by (simp only: step found) (auto simp: map_of_tier_read split: option.splits)
  qed
qed

lemma read_data_spec:
  assumes "backends \<noteq> []" "h \<noteq> []"
  shows "map_of (read_data backends (Some h) keys) k
         = (if k \<in> set keys then Some (nearest backends (entry_name h k)) else None)"
  using assms by (simp add: read_data_def read_tiers_spec)

lemma map_of_tier_contains:
  "map_of (tier_contains t (map (entry_name h) ks)) (entry_name h k) = Some True
   \<longleftrightarrow> failing t = None \<and> k \<in> set ks \<and> (\<exists>data. stored t (entry_name h k) = Some data \<and> data \<noteq> [])"
proof (cases "failing t = None \<and> k \<in> set ks")
  case True
  then show ?thesis
    using files.contains_holds [of t "entry_name h k" "map (entry_name h) ks"] by auto
next
  case False
  then show ?thesis
    by (auto simp: tier_contains_def files_contains_def map_of_entry comp_def)
qed

text \<open>Whether some working tier holds a non-empty entry.\<close>

definition held_somewhere :: "tier list \<Rightarrow> string \<Rightarrow> bool" where
  "held_somewhere ts n \<longleftrightarrow>
     (\<exists>t \<in> set ts. failing t = None \<and> (\<exists>data. stored t n = Some data \<and> data \<noteq> []))"

lemma contains_tiers_spec:
  "set (contains_tiers h ts pending found)
   = set found \<union> {k \<in> set pending. held_somewhere ts (entry_name h k)}"
proof (induction h ts pending found rule: contains_tiers.induct)
  case (1 h pending found)
  then show ?case by (simp add: held_somewhere_def)
next
  case (2 h t ts pending found)
  show ?case
  proof (cases "pending = []")
    case True
    then show ?thesis by simp
  next
    case False
    let ?hit = "\<lambda>key. map_of (tier_contains t (map (entry_name h) pending)) (entry_name h key) = Some True"
    have "contains_tiers h (t # ts) pending found
        = contains_tiers h ts (filter (\<lambda>key. \<not> ?hit key) pending) (found @ filter ?hit pending)"
      using False by (simp add: Let_def)
    moreover have "?hit k \<longleftrightarrow> failing t = None \<and> k \<in> set pending
        \<and> (\<exists>data. stored t (entry_name h k) = Some data \<and> data \<noteq> [])" for k
      by (rule map_of_tier_contains)
    ultimately show ?thesis
      using 2 [OF False refl refl refl] by (auto simp: held_somewhere_def)
  qed
qed

lemma contains_data_spec:
  assumes "backends \<noteq> []" "h \<noteq> []"
  shows "map_of (contains_data backends (Some h) keys) k
         = (if k \<in> set keys then Some (held_somewhere backends (entry_name h k)) else None)"
  using assms by (simp add: contains_data_def Let_def map_of_map_key contains_tiers_spec)

lemma nearest_held: "nearest ts n = Some data \<Longrightarrow> data \<noteq> [] \<Longrightarrow> held_somewhere ts n"
  by (induction ts) (auto simp: held_somewhere_def split: if_splits option.splits)

text \<open>A read of several keys walks the tiers nearest first, asking each tier only for what the
  nearer ones did not have. Whatever the tiers hold and whichever of them fail, every requested key
  is answered with exactly the entry of the nearest working tier that has one, \<open>None\<close> when there is
  no such tier, and nothing that was not requested is answered.\<close>

theorem read_data_nearest:
  assumes "backends \<noteq> []" and "h \<noteq> []"
  shows "map_of (read_data backends (Some h) keys) k
         = (if k \<in> set keys then Some (nearest backends (entry_name h k)) else None)"
  using assms by (rule read_data_spec)

definition memory_tier :: "nat \<Rightarrow> (string \<Rightarrow> string option) \<Rightarrow> tier" where
  "memory_tier n m = \<lparr>min_entry_size = 0, max_entry_size = n, stores_names = True, stored = m, failing = None\<rparr>"

definition broken_tier :: tier where
  "broken_tier = (memory_tier 0 Map.empty)\<lparr>failing := Some (\<lambda>_. False)\<rparr>"

theorem read_data_nearest_witness:
  "map_of (read_data [broken_tier, memory_tier 4 Map.empty, memory_tier 0 [''h.part'' \<mapsto> ''brep'']]
       (Some ''h'') [''cmps'', ''part'']) ''part'' = Some (Some ''brep'')"
  by (subst read_data_nearest) (simp_all add: broken_tier_def memory_tier_def entry_name_def)

lemma map_of_accepted:
  "map_of (map (\<lambda>(key, data). (entry_name h key, data))
      (filter (\<lambda>(key, data). accepts t key (length data)) items)) (entry_name h k)
   = map_of (filter (\<lambda>(key, data). accepts t key (length data)) items) k"
  by (induction items) auto

lemma map_of_filter_wf:
  "wf_dict items \<Longrightarrow> map_of (filter (\<lambda>(key, data). p key data) items) k
   = (case map_of items k of None \<Rightarrow> None | Some data \<Rightarrow> if p k data then Some data else None)"
  by (induction items) (auto simp: map_of_eq_None_iff split: option.splits)

lemma wf_accepted:
  "wf_dict items \<Longrightarrow> wf_dict (map (\<lambda>(key, data). (entry_name h key, data))
      (filter (\<lambda>(key, data). accepts t key (length data)) items))"
  by (induction items) (auto simp: image_iff)

text \<open>What a tier is handed, as an answer per key.\<close>

definition offered :: "tier \<Rightarrow> (string \<times> string) list \<Rightarrow> string \<Rightarrow> string option" where
  "offered t items k =
     (case map_of items k of None \<Rightarrow> None | Some data \<Rightarrow> if accepts t k (length data) then Some data else None)"

lemma map_of_in_fst: "n \<in> fst ` set xs \<longleftrightarrow> map_of xs n \<noteq> None"
  by (simp add: map_of_eq_None_iff)

lemma task_backend_spec:
  assumes w: "failing t = None" and wf: "wf_dict items" and k: "k \<noteq> ''name''"
  shows "stored (fst (task_backend h nm items t)) (entry_name h k)
         = (case offered t items k of None \<Rightarrow> stored t (entry_name h k) | Some data \<Rightarrow> Some data)"
    and "map_of (snd (task_backend h nm items t)) (entry_name h k)
         = (if offered t items k = None then None else Some True)"
    and "failing (fst (task_backend h nm items t)) = None"
proof -
  let ?acc = "map (\<lambda>(key, data). (entry_name h key, data))
      (filter (\<lambda>(key, data). accepts t key (length data)) items)"
  let ?all = "if stores_names t then AList.update (entry_name h ''name'') (utf8 nm) ?acc else ?acc"
  have acc: "map_of ?acc (entry_name h k) = offered t items k"
    unfolding map_of_accepted offered_def using map_of_filter_wf [OF wf] by simp
  have all: "map_of ?all (entry_name h k) = offered t items k"
    using k acc by simp
  have wfa: "wf_dict ?all"
    using wf_accepted [OF wf] by (simp add: distinct_update)
  have empty: "offered t items k = None" if "?acc = []"
    using that acc by simp
  have eq: "task_backend h nm items t = (if ?acc = [] then (t, []) else tier_write t ?all)"
    by (simp only: task_backend_def Let_def)
  show "stored (fst (task_backend h nm items t)) (entry_name h k)
         = (case offered t items k of None \<Rightarrow> stored t (entry_name h k) | Some data \<Rightarrow> Some data)"
    unfolding eq using empty files.write_holds [OF w wfa] all
    by (simp add: map_add_def split: option.splits)
  show "map_of (snd (task_backend h nm items t)) (entry_name h k)
         = (if offered t items k = None then None else Some True)"
    unfolding eq using empty files.write_reports [OF w, of ?all "entry_name h k"] all
    by (simp only: map_of_in_fst) auto
  show "failing (fst (task_backend h nm items t)) = None"
    unfolding eq using w files.write_works [OF w] by simp
qed

lemma task_backend_broken: "failing t \<noteq> None \<Longrightarrow> snd (task_backend h nm items t) = []"
  by (auto simp: task_backend_def Let_def tier_write_def split: option.splits)

lemma task_backend_failing [simp]: "failing (fst (task_backend h nm items t)) = failing t"
  by (simp add: task_backend_def Let_def tier_write_def split: option.splits)

lemma write_data_report:
  assumes "backends \<noteq> []" "h \<noteq> []" "wf_dict items" "k \<noteq> ''name''"
  shows "map_of (snd (write_data backends (Some h) nm items)) k
         = (if \<exists>t \<in> set backends. failing t = None \<and> offered t items k \<noteq> None then Some True else None)"
proof -
  have rep: "map_of (snd (task_backend h nm items t)) (entry_name h k) = Some True
      \<longleftrightarrow> failing t = None \<and> offered t items k \<noteq> None" for t
  proof (cases "failing t = None")
    case True
    then show ?thesis
      using task_backend_spec(2) [OF True assms(3,4)] by (metis option.distinct(1))
  next
    case False
    then show ?thesis by (simp add: task_backend_broken)
  qed
  have dom: "k \<in> fst ` set items" if "offered t items k \<noteq> None" for t
    using that by (auto simp: offered_def map_of_in_fst split: option.splits)
  show ?thesis
    using assms(1,2) dom by (simp only: write_data_def Let_def option.case if_False snd_conv)
      (auto simp: map_of_map_key rep)
qed

lemma nearest_all_agree:
  assumes "\<forall>t \<in> set ts. failing t = None \<longrightarrow> stored t n = None \<or> stored t n = Some data"
    and "\<exists>t \<in> set ts. failing t = None \<and> stored t n = Some data"
  shows "nearest ts n = Some data"
  using assms by (induction ts) (auto split: option.splits)

lemma saved_is_read_back:
  assumes "backends \<noteq> []" and "h \<noteq> []" and "wf_dict items" and "k \<noteq> ''name''"
    and "map_of items k = Some data"
    and "map_of (snd (write_data backends (Some h) nm items)) k = Some True"
    and "\<forall>t \<in> set backends. failing t = None \<and> \<not> accepts t k (length data) \<longrightarrow>
           stored t (entry_name h k) = None \<or> stored t (entry_name h k) = Some data"
    and "k \<in> set keys"
  shows "map_of (read_data (fst (write_data backends (Some h) nm items)) (Some h) keys) k = Some (Some data)
       \<and> map_of (contains_data (fst (write_data backends (Some h) nm items)) (Some h) keys) k = Some (data \<noteq> [])
       \<and> (\<exists>t \<in> set backends. failing t = None \<and> accepts t k (length data))"
proof -
  let ?w = "fst (write_data backends (Some h) nm items)"
  let ?n = "entry_name h k"
  have w: "?w = map (\<lambda>t. fst (task_backend h nm items t)) backends"
    using assms(1,2) by (simp add: write_data_def Let_def)
  have off: "offered t items k = (if accepts t k (length data) then Some data else None)" for t
    using assms(5) by (simp add: offered_def)
  have st: "stored (fst (task_backend h nm items t)) ?n
      = (if accepts t k (length data) then Some data else stored t ?n)" if "failing t = None" for t
    using task_backend_spec(1) [OF that assms(3,4)] by (simp add: off)
  have some: "\<exists>t \<in> set backends. failing t = None \<and> accepts t k (length data)"
    using assms(6) write_data_report [OF assms(1-4)] off by (metis option.distinct(1))
  have agree: "\<forall>t \<in> set ?w. failing t = None \<longrightarrow> stored t ?n = None \<or> stored t ?n = Some data"
    using assms(7) by (auto simp: w st)
  have hit: "\<exists>t \<in> set ?w. failing t = None \<and> stored t ?n = Some data"
    using some by (auto simp: w st)
  have near: "nearest ?w ?n = Some data"
    by (rule nearest_all_agree [OF agree hit])
  have held: "held_somewhere ?w ?n \<longleftrightarrow> data \<noteq> []"
    using agree hit unfolding held_somewhere_def by (metis option.distinct(1) option.inject)
  have "?w \<noteq> []" using assms(1) by (simp add: w)
  then show ?thesis
    using read_data_spec contains_data_spec assms(2,8) near held some by simp
qed



text \<open>An entry with no bytes counts as absent to the question whether a key is held, and only
  there: that question looks past a nearer tier's empty entry to the next tier, while a read stops
  at it. So the question is answered with yes exactly when some working tier holds a non-empty
  entry; whenever a read returns bytes the answer is yes; and there are tiers for which the answer
  is yes and the read that follows returns no bytes although a farther tier has them.\<close>

theorem contains_versus_read:
  "(\<forall>backends h keys k. backends \<noteq> [] \<and> h \<noteq> [] \<and> k \<in> set keys \<longrightarrow>
      map_of (contains_data backends (Some h) keys) k = Some (held_somewhere backends (entry_name h k))
      \<and> (\<forall>data. map_of (read_data backends (Some h) keys) k = Some (Some data) \<and> data \<noteq> [] \<longrightarrow>
           map_of (contains_data backends (Some h) keys) k = Some True))
   \<and> (\<exists>backends. map_of (contains_data backends (Some ''h'') [''part'']) ''part'' = Some True
      \<and> map_of (read_data backends (Some ''h'') [''part'']) ''part'' = Some (Some []))"
proof -
  let ?b = "[memory_tier 0 [''h.part'' \<mapsto> []], memory_tier 0 [''h.part'' \<mapsto> ''brep'']]"
  have "map_of (contains_data ?b (Some ''h'') [''part'']) ''part'' = Some True
      \<and> map_of (read_data ?b (Some ''h'') [''part'']) ''part'' = Some (Some [])"
    by (simp add: contains_data_spec read_data_spec held_somewhere_def memory_tier_def entry_name_def)
  moreover have "map_of (contains_data bs (Some h) keys) k = Some True"
    if "bs \<noteq> []" "h \<noteq> []" "k \<in> set keys" "map_of (read_data bs (Some h) keys) k = Some (Some data)" "data \<noteq> []"
    for bs h keys k data
    using that by (simp add: contains_data_spec read_data_spec nearest_held)
  ultimately show ?thesis
    by (intro conjI exI [of _ ?b] allI impI; elim conjE; simp add: contains_data_spec)
qed

theorem contains_versus_read_witness:
  "map_of (contains_data [memory_tier 0 [''h.part'' \<mapsto> ''brep'']] (Some ''h'') [''part'']) ''part''
   = Some (held_somewhere [memory_tier 0 [''h.part'' \<mapsto> ''brep'']] ''h.part'')"
  using conjunct1 [OF contains_versus_read, rule_format,
      of "[memory_tier 0 [''h.part'' \<mapsto> ''brep'']]" "''h''" "''part''" "[''part'']"]
  by (simp add: entry_name_def)

end
