(* ===== verification/CacheHash.thy ===== *)
theory CacheHash
  imports Names "HOL-Library.Multiset"
begin

text \<open>
  \<open>src/src/partcad/cache_hash.py\<close>: the content hash a cache entry is keyed on.

  The hasher is the algorithm it was made with and the bytes fed to it so far; \<open>hexdigest\<close> is the
  parameter \<open>digest\<close>, a function of these two. A file is what \<open>fs\<close> says of its name, \<open>None\<close> when
  it does not exist; the text of a float is the parameter \<open>repr\<close>.
\<close>

record cache_hash =
  hash_name :: string
  is_empty :: bool
  is_used :: bool
  dependencies :: "string list"
  hasher :: "(string \<times> string) option"

definition VERSION :: nat where
  "VERSION = 5"

definition VERSION_TAG :: string where
  "VERSION_TAG = ''partcad-cache-v'' @ show_nat VERSION"

text \<open>\<open>CacheHash.__init__\<close>: disabled, continuing the hasher of another hash, or fresh.\<close>

definition new_hash ::
  "string \<Rightarrow> string \<Rightarrow> (string \<times> string) option \<Rightarrow> bool \<Rightarrow> exn + cache_hash" where
  "new_hash name algo parent cache =
     (let blank = \<lparr>hash_name = name, is_empty = True, is_used = False, dependencies = [], hasher = None\<rparr>
      in if \<not> cache then Inr blank
         else case parent of
           Some h \<Rightarrow> Inr (blank\<lparr>hasher := Some h\<rparr>)
         | None \<Rightarrow>
             if algo \<in> {''md5'', ''sha1'', ''sha256''}
             then Inr (blank\<lparr>hasher := Some (algo, VERSION_TAG)\<rparr>)
             else Inl ValueError)"

definition touch :: "cache_hash \<Rightarrow> cache_hash" where
  "touch h = h\<lparr>is_empty := False\<rparr>"

definition update_hasher :: "string \<Rightarrow> cache_hash \<Rightarrow> cache_hash" where
  "update_hasher data h = h\<lparr>hasher := map_option (\<lambda>(algo, fed). (algo, fed @ data)) (hasher h)\<rparr>"

text \<open>What \<open>recurse\<close> feeds for a value: the keys of a dictionary in order, each before its value.\<close>

fun feed :: "(pyval \<Rightarrow> string) \<Rightarrow> pyval \<Rightarrow> string" where
  "feed repr (PDict d) =
     concat (map (\<lambda>(k, bytes). utf8 k @ bytes) (sort_key fst (map (\<lambda>(k, v). (k, feed repr v)) d)))"
| "feed repr (PStr s) = utf8 s"
| "feed repr (PList xs) = concat (map (feed repr) xs)"
| "feed repr v = utf8 (py_str repr v)"

definition add_dict :: "(pyval \<Rightarrow> string) \<Rightarrow> pydict option \<Rightarrow> cache_hash \<Rightarrow> cache_hash" where
  "add_dict repr data h =
     (if hasher h = None then h
      else case data of
        None \<Rightarrow> h
      | Some d \<Rightarrow> if d = [] then h else touch (update_hasher (feed repr (PDict d)) h))"

definition add_string :: "string option \<Rightarrow> cache_hash \<Rightarrow> cache_hash" where
  "add_string text h =
     (if hasher h = None then h
      else case text of None \<Rightarrow> h | Some s \<Rightarrow> touch (update_hasher (utf8 s) h))"

definition add_bytes :: "string option \<Rightarrow> cache_hash \<Rightarrow> cache_hash" where
  "add_bytes bytes h =
     (if hasher h = None then h
      else case bytes of
        None \<Rightarrow> h
      | Some b \<Rightarrow> if b = [] then h else touch (update_hasher b h))"

definition add_filename :: "(string \<Rightarrow> string option) \<Rightarrow> string option \<Rightarrow> cache_hash \<Rightarrow> cache_hash" where
  "add_filename fs filename h =
     (if hasher h = None then h
      else case filename of
        None \<Rightarrow> h
      | Some f \<Rightarrow> (case fs f of None \<Rightarrow> h | Some content \<Rightarrow> touch (update_hasher content h)))"

definition set_dependencies :: "string list \<Rightarrow> cache_hash \<Rightarrow> cache_hash" where
  "set_dependencies deps h = h\<lparr>dependencies := deps\<rparr>"

fun add_filenames :: "(string \<Rightarrow> string option) \<Rightarrow> string list \<Rightarrow> cache_hash \<Rightarrow> cache_hash" where
  "add_filenames fs [] h = h"
| "add_filenames fs (f # files) h = add_filenames fs files (add_filename fs (Some f) h)"

text \<open>
  \<open>get\<close>. Nothing is digested for a hash that stayed empty; one that is not empty has a hasher,
  because every operation that clears the flag checked for it first.
\<close>

definition hash_get ::
  "(string \<Rightarrow> string \<Rightarrow> string) \<Rightarrow> (string \<Rightarrow> string option) \<Rightarrow> cache_hash \<Rightarrow> cache_hash \<times> string option" where
  "hash_get digest fs h =
     (let h' = (if is_used h then h else add_filenames fs (dependencies h) h)\<lparr>is_used := True\<rparr>
      in (h', if is_empty h' then None else map_option (\<lambda>(algo, fed). digest algo fed) (hasher h')))"

section \<open>Sequences of operations\<close>

datatype hash_op =
    AddDict "pydict option"
  | AddString "string option"
  | AddBytes "string option"
  | AddFilename "string option"
  | SetDependencies "string list"

fun hash_do :: "(pyval \<Rightarrow> string) \<Rightarrow> (string \<Rightarrow> string option) \<Rightarrow> hash_op \<Rightarrow> cache_hash \<Rightarrow> cache_hash" where
  "hash_do repr fs (AddDict d) h = add_dict repr d h"
| "hash_do repr fs (AddString s) h = add_string s h"
| "hash_do repr fs (AddBytes b) h = add_bytes b h"
| "hash_do repr fs (AddFilename f) h = add_filename fs f h"
| "hash_do repr fs (SetDependencies ds) h = set_dependencies ds h"

fun hash_run :: "(pyval \<Rightarrow> string) \<Rightarrow> (string \<Rightarrow> string option) \<Rightarrow> hash_op list \<Rightarrow> cache_hash \<Rightarrow> cache_hash" where
  "hash_run repr fs [] h = h"
| "hash_run repr fs (op # ops) h = hash_run repr fs ops (hash_do repr fs op h)"

text \<open>The specification: what one operation contributes, and what is left to read when asked.\<close>

fun contribution :: "(pyval \<Rightarrow> string) \<Rightarrow> (string \<Rightarrow> string option) \<Rightarrow> hash_op \<Rightarrow> string option" where
  "contribution repr fs (AddDict d) =
     (case d of None \<Rightarrow> None | Some [] \<Rightarrow> None | Some d \<Rightarrow> Some (feed repr (PDict d)))"
| "contribution repr fs (AddString s) = map_option utf8 s"
| "contribution repr fs (AddBytes b) = (if b = Some [] then None else b)"
| "contribution repr fs (AddFilename f) = (case f of None \<Rightarrow> None | Some f \<Rightarrow> fs f)"
| "contribution repr fs (SetDependencies ds) = None"

fun pending_files :: "hash_op list \<Rightarrow> string list \<Rightarrow> string list" where
  "pending_files [] ds = ds"
| "pending_files (SetDependencies es # ops) ds = pending_files ops es"
| "pending_files (_ # ops) ds = pending_files ops ds"

definition contributions ::
  "(pyval \<Rightarrow> string) \<Rightarrow> (string \<Rightarrow> string option) \<Rightarrow> hash_op list \<Rightarrow> string list" where
  "contributions repr fs ops =
     List.map_filter (contribution repr fs) (ops @ map (\<lambda>f. AddFilename (Some f)) (pending_files ops []))"

lemma hash_do_fed:
  assumes "hasher h = Some (algo, fed)"
  shows "hash_do repr fs op h =
     (let h' = (case op of SetDependencies ds \<Rightarrow> h\<lparr>dependencies := ds\<rparr> | _ \<Rightarrow> h) in
      case contribution repr fs op of
        None \<Rightarrow> h'
      | Some b \<Rightarrow> h'\<lparr>is_empty := False, hasher := Some (algo, fed @ b)\<rparr>)"
  using assms
  by (cases op)
    (auto simp: add_dict_def add_string_def add_bytes_def add_filename_def set_dependencies_def
      touch_def update_hasher_def split: option.splits list.splits)

lemma hash_run_state:
  assumes "hasher h = Some (algo, fed)"
  shows "hash_run repr fs ops h = h\<lparr>
      is_empty := is_empty h \<and> List.map_filter (contribution repr fs) ops = [],
      dependencies := pending_files ops (dependencies h),
      hasher := Some (algo, fed @ concat (List.map_filter (contribution repr fs) ops))\<rparr>"
  using assms
proof (induction ops arbitrary: h fed)
  case Nil
  then show ?case by simp
next
  case (Cons op ops)
  let ?h = "hash_do repr fs op h"
  let ?b = "case contribution repr fs op of None \<Rightarrow> [] | Some b \<Rightarrow> b"
  have 1: "hasher ?h = Some (algo, fed @ ?b)"
    using Cons.prems
    by (simp add: hash_do_fed [OF Cons.prems] Let_def split: hash_op.splits option.splits)
  have eq: "hash_run repr fs (op # ops) h = ?h\<lparr>
      is_empty := is_empty ?h \<and> List.map_filter (contribution repr fs) ops = [],
      dependencies := pending_files ops (dependencies ?h),
      hasher := Some (algo, (fed @ ?b) @ concat (List.map_filter (contribution repr fs) ops))\<rparr>"
    using Cons.IH [OF 1] by simp
  have cat: "concat (List.map_filter (contribution repr fs) (op # ops))
      = ?b @ concat (List.map_filter (contribution repr fs) ops)"
    by (simp add: List.map_filter_simps split: option.splits)
  show ?case
    unfolding eq cat hash_do_fed [OF Cons.prems]
    by (cases op) (simp_all add: Let_def List.map_filter_simps split: option.splits list.splits)
qed

lemma hash_run_append: "hash_run repr fs (a @ b) h = hash_run repr fs b (hash_run repr fs a h)"
  by (induction a arbitrary: h) auto

lemma add_filenames_run:
  "add_filenames fs files h = hash_run repr fs (map (\<lambda>f. AddFilename (Some f)) files) h"
  by (induction files arbitrary: h) auto

lemma pending_files_adds: "pending_files (map (\<lambda>f. AddFilename (Some f)) files) ds = ds"
  by (induction files) auto

lemma hash_run_disabled:
  "hasher h = None \<Longrightarrow> hasher (hash_run repr fs ops h) = None
     \<and> is_empty (hash_run repr fs ops h) = is_empty h
     \<and> is_used (hash_run repr fs ops h) = is_used h"
proof (induction ops arbitrary: h)
  case Nil
  then show ?case by simp
next
  case (Cons op ops)
  have "hasher (hash_do repr fs op h) = None \<and> is_empty (hash_do repr fs op h) = is_empty h
      \<and> is_used (hash_do repr fs op h) = is_used h"
    using Cons.prems
    by (cases op) (auto simp: add_dict_def add_string_def add_bytes_def add_filename_def set_dependencies_def)
  then show ?case using Cons.IH by simp
qed

text \<open>What a fresh, enabled hash answers after any operations.\<close>

lemma hash_get_fresh:
  assumes "new_hash name algo None True = Inr h"
  shows "snd (hash_get digest fs' (hash_run repr fs ops h))
     = (let parts = List.map_filter (contribution repr fs) ops
                    @ List.map_filter (contribution repr fs') (map (\<lambda>f. AddFilename (Some f)) (pending_files ops []))
        in if parts = [] then None else Some (digest algo (VERSION_TAG @ concat parts)))"
proof -
  have h: "hasher h = Some (algo, VERSION_TAG)" "is_empty h" "\<not> is_used h" "dependencies h = []"
    using assms by (auto simp: new_hash_def Let_def split: if_splits)
  let ?c = "List.map_filter (contribution repr fs) ops"
  let ?fs = "map (\<lambda>f. AddFilename (Some f)) (pending_files ops [])"
  let ?c' = "List.map_filter (contribution repr fs') ?fs"
  define g where "g = h\<lparr>is_empty := ?c = [], dependencies := pending_files ops [],
      hasher := Some (algo, VERSION_TAG @ concat ?c)\<rparr>"
  have g: "hash_run repr fs ops h = g"
    using hash_run_state [OF h(1), of repr fs ops] h by (simp add: g_def)
  have "hasher g = Some (algo, VERSION_TAG @ concat ?c)" "\<not> is_used g" "dependencies g = pending_files ops []"
    using h by (simp_all add: g_def)
  moreover have "hash_run repr fs' ?fs g = g\<lparr>is_empty := ?c = [] \<and> ?c' = [],
      hasher := Some (algo, (VERSION_TAG @ concat ?c) @ concat ?c')\<rparr>"
    using hash_run_state [of g algo "VERSION_TAG @ concat ?c" repr fs' ?fs]
    by (simp add: g_def pending_files_adds)
  ultimately show ?thesis
    by (simp add: g hash_get_def Let_def add_filenames_run [where repr = repr])
qed

lemma hash_get_again:
  "hash_get digest fs' (fst (hash_get digest fs h)) = (fst (hash_get digest fs h), snd (hash_get digest fs h))"
  by (simp add: hash_get_def Let_def)

text \<open>The key of a cache entry. After any sequence of additions to a fresh hash, \<open>get\<close> answers the
  digest of the format version followed by what every addition contributed, in order, and then the
  content of the files that are dependencies at that moment; it answers nothing exactly when no
  addition contributed (a missing file, an empty dictionary, no bytes) and no dependency exists, so
  the version alone is never a key. Asking again gives the same answer and changes nothing, whatever
  happened to the files in between.\<close>

theorem hash_get_content:
  assumes "new_hash name algo None True = Inr h"
  shows "(let h' = hash_run repr fs ops h; parts = contributions repr fs ops in
      snd (hash_get digest fs h')
        = (if parts = [] then None else Some (digest algo (VERSION_TAG @ concat parts)))
      \<and> hash_get digest fs' (fst (hash_get digest fs h')) = hash_get digest fs h')"
  using hash_get_fresh [OF assms, of digest fs repr fs ops]
  by (simp add: Let_def contributions_def List.map_filter_def hash_get_again)

theorem hash_get_content_witness:
  "\<exists>h. new_hash ''cube'' ''md5'' None True = Inr h
     \<and> snd (hash_get (\<lambda>a b. a @ b) (\<lambda>f. if f = ''a.py'' then Some ''code'' else None)
         (hash_run (\<lambda>_. []) (\<lambda>_. None)
           [AddString (Some ''part''), AddDict (Some []), SetDependencies [''a.py'', ''b.py'']] h))
       = Some (''md5'' @ VERSION_TAG @ ''part'' @ ''code'')"
proof -
  define h where "h = \<lparr>hash_name = ''cube'', is_empty = True, is_used = False, dependencies = [],
      hasher = Some (''md5'', VERSION_TAG)\<rparr>"
  define fs where "fs = (\<lambda>f. if f = ''a.py'' then Some ''code'' else (None :: string option))"
  let ?ops = "[AddString (Some ''part''), AddDict (Some []), SetDependencies [''a.py'', ''b.py'']]"
  have n: "new_hash ''cube'' ''md5'' None True = Inr h"
    by (simp add: new_hash_def h_def)
  have u: "utf8 ''part'' = ''part''" by code_simp
  have "contributions (\<lambda>_. []) fs ?ops = [''part'', ''code'']"
    by (simp add: contributions_def List.map_filter_simps fs_def u)
  moreover have "hash_run (\<lambda>_. []) (\<lambda>_. None) ?ops h = hash_run (\<lambda>_. []) fs ?ops h"
    by simp
  ultimately show ?thesis
    using hash_get_content [OF n, of "\<lambda>_. []" fs ?ops "\<lambda>a b. a @ b" fs] n
    by (auto simp: Let_def fs_def)
qed

text \<open>With caching disabled a hash answers nothing and reads nothing, whatever was added to it.\<close>

theorem hash_disabled:
  "(case new_hash name algo parent False of
      Inl e \<Rightarrow> False
    | Inr h \<Rightarrow> snd (hash_get digest fs (hash_run repr fs ops h)) = None)"
proof -
  define h where "h = \<lparr>hash_name = name, is_empty = True, is_used = False, dependencies = [], hasher = None\<rparr>"
  let ?h1 = "hash_run repr fs ops h"
  have 1: "hasher ?h1 = None" "is_empty ?h1"
    using hash_run_disabled [of h repr fs ops] by (simp_all add: h_def)
  then have "is_empty (add_filenames fs (dependencies ?h1) ?h1)"
    using hash_run_disabled [OF 1(1)] by (simp add: add_filenames_run [where repr = repr])
  then show ?thesis
    using 1 by (simp add: new_hash_def Let_def hash_get_def flip: h_def)
qed

section \<open>The order of keys does not matter, their grouping is not recorded\<close>

text \<open>The same value up to the order in which dictionaries list their keys, at any depth.\<close>

inductive reordered :: "pyval \<Rightarrow> pyval \<Rightarrow> bool" where
  reordered_refl: "reordered v v"
| reordered_list: "list_all2 reordered xs ys \<Longrightarrow> reordered (PList xs) (PList ys)"
| reordered_dict:
    "list_all2 (\<lambda>a b. fst a = fst b \<and> reordered (snd a) (snd b)) d e \<Longrightarrow> wf_dict d \<Longrightarrow> mset e = mset f
     \<Longrightarrow> reordered (PDict d) (PDict f)"

lemma feed_dict:
  "feed repr (PDict d) = concat (map (\<lambda>(k, bytes). utf8 k @ bytes)
     (sort_key fst (map (\<lambda>(k, v). (k, feed repr v)) d)))"
  by simp

lemma sort_key_fst_mset:
  assumes "mset xs = mset ys" "distinct (map fst xs)"
  shows "sort_key fst xs = sort_key fst ys"
proof (rule sort_key_inj_key_eq)
  show "mset xs = mset (sort_key fst ys)" using assms(1) by simp
  show "inj_on fst (set xs)" using assms(2) by (simp add: distinct_map)
  show "sorted (map fst (sort_key fst ys))" by simp
qed

lemma map_feed_eq:
  "list_all2 (\<lambda>a b. fst a = fst b \<and> feed repr (snd a) = feed repr (snd b)) d e \<Longrightarrow>
   map (\<lambda>(k, v). (k, feed repr v)) d = map (\<lambda>(k, v). (k, feed repr v)) e"
  by (induction rule: list_all2_induct) auto

lemma map_fst_feed: "map fst (map (\<lambda>(k, v). (k, feed repr v)) d) = map fst d"
  by (induction d) auto

lemma feed_reordered: "reordered v w \<Longrightarrow> feed repr v = feed repr w"
proof (induction rule: reordered.induct)
  case (reordered_refl v)
  then show ?case by simp
next
  case (reordered_list xs ys)
  then have "list_all2 (\<lambda>x y. feed repr x = feed repr y) xs ys"
    by (rule list_all2_mono) simp
  then have "map (feed repr) xs = map (feed repr) ys"
    by (induction rule: list_all2_induct) auto
  then show ?case by (simp only: feed.simps)
next
  case (reordered_dict d e f)
  let ?m = "\<lambda>d. map (\<lambda>(k, v). (k, feed repr v)) d"
  have "list_all2 (\<lambda>a b. fst a = fst b \<and> feed repr (snd a) = feed repr (snd b)) d e"
    using reordered_dict(1) by (rule list_all2_mono) simp
  then have 1: "?m d = ?m e" by (rule map_feed_eq)
  have "mset (?m e) = mset (?m f)"
    using reordered_dict(3) by (simp only: mset_map)
  moreover have "distinct (map fst (?m e))"
    using reordered_dict(2) by (simp only: 1 [symmetric] map_fst_feed)
  ultimately have "sort_key fst (?m e) = sort_key fst (?m f)"
    by (rule sort_key_fst_mset)
  then show ?case by (simp only: feed_dict 1)
qed

text \<open>Two declarations that list the same keys and values in a different order, at any depth,
  have the same key: what is hashed does not depend on the order a file states its options in.\<close>

theorem add_dict_order_independent:
  assumes "reordered (PDict d) (PDict e)" and "d \<noteq> [] \<longleftrightarrow> e \<noteq> []"
  shows "hash_get digest fs (add_dict repr (Some d) h) = hash_get digest fs (add_dict repr (Some e) h)"
  using assms feed_reordered [OF assms(1), of repr] by (simp add: add_dict_def del: feed.simps)

theorem add_dict_order_independent_witness:
  "\<forall>h. hash_get (\<lambda>a b. b) (\<lambda>_. None) (add_dict (\<lambda>_. []) (Some [(''y'', PInt 2), (''x'', PInt 1)]) h)
   = hash_get (\<lambda>a b. b) (\<lambda>_. None) (add_dict (\<lambda>_. []) (Some [(''x'', PInt 1), (''y'', PInt 2)]) h)"
proof (intro allI, rule add_dict_order_independent)
  show "reordered (PDict [(''y'', PInt 2), (''x'', PInt 1)]) (PDict [(''x'', PInt 1), (''y'', PInt 2)])"
    by (rule reordered_dict [where e = "[(''y'', PInt 2), (''x'', PInt 1)]"])
      (auto intro: reordered_refl)
qed simp

text \<open>C0: The parts of a declaration are fed to the digest back to back, with nothing between a key,
  its value and the next key. So declarations that differ can share a key for every digest: an
  option \<open>x\<close> whose value is the text \<open>1y2\<close> and the two options \<open>x: 1\<close> and \<open>y: 2\<close>.\<close>

theorem add_dict_grouping_collides:
  "\<exists>d e. map_of d \<noteq> map_of e \<and> (\<forall>repr digest fs h.
     hash_get digest fs (add_dict repr (Some d) h) = hash_get digest fs (add_dict repr (Some e) h))"
proof (intro exI conjI allI)
  show "map_of [(''x'', PStr ''1y2'')] \<noteq> map_of [(''x'', PInt 1), (''y'', PInt 2)]"
    by (metis map_of_Cons_code(2) option.inject pyval.distinct(29))
  fix repr digest fs h
  have "utf8 ''x'' @ utf8 ''1y2'' = utf8 ''x'' @ utf8 (show_int 1) @ utf8 ''y'' @ utf8 (show_int 2)"
    by code_simp
  then have "feed repr (PDict [(''x'', PStr ''1y2'')]) = feed repr (PDict [(''x'', PInt 1), (''y'', PInt 2)])"
    by simp
  then show "hash_get digest fs (add_dict repr (Some [(''x'', PStr ''1y2'')]) h)
      = hash_get digest fs (add_dict repr (Some [(''x'', PInt 1), (''y'', PInt 2)]) h)"
    by (simp add: add_dict_def del: feed.simps)
qed

end
