(* ===== verification/Codecs.thy ===== *)
theory Codecs
  imports Prelude
begin

text \<open>
  The two standard-library codecs the sources store and send things with: \<open>base64\<close> and \<open>json\<close>.

  \<open>b64decode\<close> is the lenient decoder of \<open>binascii.a2b_base64\<close>: characters outside the alphabet are
  skipped, decoding stops at the padding. \<open>json_dumps\<close> is \<open>json.dumps\<close> with its default separators
  and ASCII escapes; \<open>json_loads\<close> is \<open>json.loads\<close>, \<open>None\<close> for a \<open>JSONDecodeError\<close>. The text of a
  float and the float a text denotes are parameters. Escapes above \<open>\u00ff\<close> denote characters the
  text of this development does not have and are refused.
\<close>

section \<open>base64\<close>

definition b64_char :: "nat \<Rightarrow> char" where
  "b64_char n = (if n < 26 then char_of (65 + n) else if n < 52 then char_of (71 + n)
     else if n < 62 then char_of (n - 4) else if n = 62 then CHR ''+'' else CHR ''/'')"

definition b64_value :: "char \<Rightarrow> nat option" where
  "b64_value c = (let n = code c in
     if 65 \<le> n \<and> n \<le> 90 then Some (n - 65)
     else if 97 \<le> n \<and> n \<le> 122 then Some (n - 71)
     else if 48 \<le> n \<and> n \<le> 57 then Some (n + 4)
     else if c = CHR ''+'' then Some 62 else if c = CHR ''/'' then Some 63 else None)"

fun b64encode :: "string \<Rightarrow> string" where
  "b64encode [] = []"
| "b64encode [a] = [b64_char (code a div 4), b64_char (code a mod 4 * 16), CHR ''='', CHR ''='']"
| "b64encode [a, b] =
     [b64_char (code a div 4), b64_char (code a mod 4 * 16 + code b div 16),
      b64_char (code b mod 16 * 4), CHR ''='']"
| "b64encode (a # b # c # s) =
     b64_char (code a div 4) # b64_char (code a mod 4 * 16 + code b div 16)
     # b64_char (code b mod 16 * 4 + code c div 64) # b64_char (code c mod 64) # b64encode s"

text \<open>The state: how many of a group of four were read, the bits left over, the pads seen, the output.\<close>

fun b64_loop :: "nat \<Rightarrow> nat \<Rightarrow> nat \<Rightarrow> string \<Rightarrow> string \<Rightarrow> string option" where
  "b64_loop quad left pads out [] = (if quad = 0 then Some out else None)"
| "b64_loop quad left pads out (c # s) =
     (if c = CHR ''='' then
        (if quad \<ge> 2 then (if quad + pads + 1 \<ge> 4 then Some out else b64_loop quad left (pads + 1) out s)
         else b64_loop quad left pads out s)
      else case b64_value c of
        None \<Rightarrow> b64_loop quad left pads out s
      | Some v \<Rightarrow>
          if quad = 0 then b64_loop 1 v 0 out s
          else if quad = 1 then b64_loop 2 (v mod 16) 0 (out @ [char_of (left * 4 + v div 16)]) s
          else if quad = 2 then b64_loop 3 (v mod 4) 0 (out @ [char_of (left * 16 + v div 4)]) s
          else b64_loop 0 0 0 (out @ [char_of (left * 64 + v)]) s)"

definition b64decode :: "string \<Rightarrow> string option" where
  "b64decode s = b64_loop 0 0 0 [] s"

lemma code_less [simp]: "code c < 256"
  by (simp add: code_def)

lemma char_of_code [simp]: "char_of (code c) = c"
  by (simp add: code_def)

lemma b64_value_char [simp]:
  assumes "n < 64"
  shows "b64_value (b64_char n) = Some n"
proof -
  have pl: "code CHR ''+'' = 43" "code CHR ''/'' = 47"
    by code_simp+
  consider "n < 26" | "26 \<le> n" "n < 52" | "52 \<le> n" "n < 62" | "n = 62" | "n = 63"
    using assms by linarith
  then show ?thesis
    by cases (simp_all add: b64_value_def b64_char_def Let_def pl, linarith?)
qed

lemma b64_char_not_pad [simp]: "n < 64 \<Longrightarrow> b64_char n \<noteq> CHR ''=''"
proof
  assume "n < 64" "b64_char n = CHR ''=''"
  moreover have "b64_value CHR ''='' = None"
    by code_simp
  ultimately show False
    using b64_value_char by fastforce
qed

lemma b64_split:
  assumes "(y::nat) < k"
  shows "(x * k + y) div k = x" "(x * k + y) mod k = y"
  using assms by simp_all

lemma b64_small:
  assumes "(b::nat) < 256"
  shows "b div 16 < 16" "b div 64 < 4" "b div 4 < 64"
  using assms by (simp_all add: less_mult_imp_div_less)

lemma b64_arith:
  assumes "(b::nat) < 256" "c < 256"
  shows "a div 4 * 4 + (a mod 4 * 16 + b div 16) div 16 = a"
    and "(a mod 4 * 16 + b div 16) mod 16 = b div 16"
    and "b div 16 * 16 + (b mod 16 * 4 + c div 64) div 4 = b"
    and "(b mod 16 * 4 + c div 64) mod 4 = c div 64"
  using b64_split [OF b64_small(1) [OF assms(1)], of "a mod 4"]
    b64_split [OF b64_small(2) [OF assms(2)], of "b mod 16"]
  by (simp_all only: div_mult_mod_eq)

lemma b64_range:
  assumes "(a::nat) < 256" "b < 256" "c < 256"
  shows "a div 4 < 64" "a mod 4 * 16 + b div 16 < 64" "b mod 16 * 4 + c div 64 < 64" "c mod 64 < 64"
proof -
  show "a div 4 < 64" by (rule b64_small(3) [OF assms(1)])
  have "a mod 4 < 4" "b mod 16 < 16" by simp_all
  then show "a mod 4 * 16 + b div 16 < 64" "b mod 16 * 4 + c div 64 < 64"
    using b64_small(1) [OF assms(2)] b64_small(2) [OF assms(3)] by linarith+
  show "c mod 64 < 64" by simp
qed

lemma b64_three:
  "b64_loop 0 l p out (b64_char (code a div 4) # b64_char (code a mod 4 * 16 + code b div 16)
     # b64_char (code b mod 16 * 4 + code c div 64) # b64_char (code c mod 64) # s)
   = b64_loop 0 0 0 (out @ [a, b, c]) s"
  using b64_range [OF code_less [of a] code_less [of b] code_less [of c]]
    b64_arith [OF code_less [of b] code_less [of c]]
  by simp

lemma b64_loop_encode: "b64_loop 0 l p out (b64encode s) = Some (out @ s)"
proof (induction s arbitrary: l p out rule: b64encode.induct)
  case 1
  then show ?case by simp
next
  case (2 a)
  then show ?case
    using b64_range [of "code a" 0 0] b64_arith [of 0 0] by simp
next
  case (3 a b)
  then show ?case
    using b64_range [of "code a" "code b" 0] b64_arith [of "code b" 0] by simp
next
  case (4 a b c s)
  then show ?case by (simp only: b64encode.simps b64_three) simp
qed

lemma b64_roundtrip [simp]: "b64decode (b64encode s) = Some s"
  by (simp add: b64decode_def b64_loop_encode)

interpretation base64: codec "\<lambda>_. True" b64encode b64decode Some
  by unfold_locales simp

section \<open>JSON\<close>

definition hex_digit :: "nat \<Rightarrow> char" where
  "hex_digit n = (if n < 10 then char_of (48 + n) else char_of (87 + n))"

definition hex_value :: "char \<Rightarrow> nat option" where
  "hex_value c = (let n = code c in
     if 48 \<le> n \<and> n \<le> 57 then Some (n - 48)
     else if 97 \<le> n \<and> n \<le> 102 then Some (n - 87)
     else if 65 \<le> n \<and> n \<le> 70 then Some (n - 55) else None)"

text \<open>The two-character escapes: what follows the backslash, by the code it stands for.\<close>

definition short_escapes :: "(nat \<times> char) list" where
  "short_escapes = [(34, CHR 0x22), (92, CHR 0x5C), (10, CHR ''n''), (13, CHR ''r''), (9, CHR ''t''),
     (12, CHR ''f''), (8, CHR ''b'')]"

definition json_escape :: "char \<Rightarrow> string" where
  "json_escape c =
     (case map_of short_escapes (code c) of
        Some e \<Rightarrow> [CHR 0x5C, e]
      | None \<Rightarrow>
          if 32 \<le> code c \<and> code c \<le> 126 then [c]
          else [CHR 0x5C, CHR ''u'', CHR ''0'', CHR ''0'', hex_digit (code c div 16), hex_digit (code c mod 16)])"

definition json_string :: "string \<Rightarrow> string" where
  "json_string s = CHR 0x22 # concat (map json_escape s) @ [CHR 0x22]"

fun json_dumps :: "(pyfloat \<Rightarrow> string) \<Rightarrow> pyval \<Rightarrow> string option" where
  "json_dumps ft PNone = Some ''null''"
| "json_dumps ft (PBool b) = Some (if b then ''true'' else ''false'')"
| "json_dumps ft (PInt i) = Some (show_int i)"
| "json_dumps ft (PFloat f) = Some (ft f)"
| "json_dumps ft (PStr s) = Some (json_string s)"
| "json_dumps ft (PBytes b) = None"
| "json_dumps ft (PList xs) =
     map_option (\<lambda>ts. ''['' @ join '', '' ts @ '']'') (those (map (json_dumps ft) xs))"
| "json_dumps ft (PDict d) =
     map_option (\<lambda>ts. ''{'' @ join '', '' ts @ ''}'')
       (those (map (\<lambda>(k, v). map_option (\<lambda>t. json_string k @ '': '' @ t) (json_dumps ft v)) d))"

definition json_space :: "char \<Rightarrow> bool" where
  "json_space c \<longleftrightarrow> c \<in> {CHR '' '', CHR 0x09, CHR 0x0A, CHR 0x0D}"

definition skip_space :: "string \<Rightarrow> string" where
  "skip_space s = dropWhile json_space s"

definition hex4 :: "char \<Rightarrow> char \<Rightarrow> char \<Rightarrow> char \<Rightarrow> nat option" where
  "hex4 a b c d =
     (case (hex_value a, hex_value b, hex_value c, hex_value d) of
        (Some a, Some b, Some c, Some d) \<Rightarrow> Some (((a * 16 + b) * 16 + c) * 16 + d)
      | _ \<Rightarrow> None)"

text \<open>The characters of a string literal after its opening quote.\<close>

function parse_chars :: "string \<Rightarrow> (string \<times> string) option" where
  "parse_chars s =
     (case s of
        [] \<Rightarrow> None
      | c # rest \<Rightarrow>
          if c = CHR 0x22 then Some ([], rest)
          else if c \<noteq> CHR 0x5C then
            (if code c < 32 then None else map_option (\<lambda>(t, r). (c # t, r)) (parse_chars rest))
          else case rest of
            [] \<Rightarrow> None
          | e # rest' \<Rightarrow>
              if e = CHR ''u'' then
                (case rest' of
                   h1 # h2 # h3 # h4 # rest'' \<Rightarrow>
                     (case hex4 h1 h2 h3 h4 of
                        None \<Rightarrow> None
                      | Some n \<Rightarrow> if n < 256 then map_option (\<lambda>(t, r). (char_of n # t, r)) (parse_chars rest'')
                                 else None)
                 | _ \<Rightarrow> None)
              else if e = CHR ''/'' then map_option (\<lambda>(t, r). (e # t, r)) (parse_chars rest')
              else case map_of (map (\<lambda>(n, e). (e, n)) short_escapes) e of
                None \<Rightarrow> None
              | Some n \<Rightarrow> map_option (\<lambda>(t, r). (char_of n # t, r)) (parse_chars rest'))"
  by pat_completeness auto
termination
  by (relation "measure length") auto

declare parse_chars.simps [simp del]

definition number_char :: "char \<Rightarrow> bool" where
  "number_char c \<longleftrightarrow> is_digit c \<or> c \<in> {CHR ''-'', CHR ''+'', CHR ''.'', CHR ''e'', CHR ''E''}"

definition int_text :: "string \<Rightarrow> int option" where
  "int_text s =
     (let (neg, ds) = (case s of c # r \<Rightarrow> if c = CHR ''-'' then (True, r) else (False, s) | [] \<Rightarrow> (False, s)) in
      if ds \<noteq> [] \<and> list_all is_digit ds \<and> (length ds = 1 \<or> hd ds \<noteq> CHR ''0'')
      then Some (if neg then - int (nat_of_digits ds) else int (nat_of_digits ds)) else None)"

definition json_number :: "(string \<Rightarrow> pyfloat option) \<Rightarrow> string \<Rightarrow> (pyval \<times> string) option" where
  "json_number fl s =
     (let t = takeWhile number_char s; r = dropWhile number_char s in
      case int_text t of
        Some i \<Rightarrow> Some (PInt i, r)
      | None \<Rightarrow> map_option (\<lambda>f. (PFloat f, r)) (fl t))"

definition strip_prefix :: "string \<Rightarrow> string \<Rightarrow> string option" where
  "strip_prefix p s = (if prefix p s then Some (drop (length p) s) else None)"

text \<open>
  A value, the rest of an array and the rest of an object, with fuel: every call is one level deeper
  or one element further, so the length of the text is enough.
\<close>

fun parse_value :: "(string \<Rightarrow> pyfloat option) \<Rightarrow> nat \<Rightarrow> string \<Rightarrow> (pyval \<times> string) option"
  and parse_items :: "(string \<Rightarrow> pyfloat option) \<Rightarrow> nat \<Rightarrow> string \<Rightarrow> (pyval list \<times> string) option"
  and parse_members :: "(string \<Rightarrow> pyfloat option) \<Rightarrow> nat \<Rightarrow> pydict \<Rightarrow> string \<Rightarrow> (pydict \<times> string) option" where
  "parse_value fl 0 s = None"
| "parse_value fl (Suc n) s =
     (case s of
        [] \<Rightarrow> None
      | c # r \<Rightarrow>
          if c = CHR 0x22 then map_option (\<lambda>(t, r). (PStr t, r)) (parse_chars r)
          else if c = CHR ''['' then
            (case skip_space r of
               [] \<Rightarrow> None
             | d # r' \<Rightarrow> if d = CHR '']'' then Some (PList [], r')
                        else map_option (\<lambda>(xs, r). (PList xs, r)) (parse_items fl n (d # r')))
          else if c = CHR ''{'' then
            (case skip_space r of
               [] \<Rightarrow> None
             | d # r' \<Rightarrow> if d = CHR ''}'' then Some (PDict [], r')
                        else map_option (\<lambda>(kv, r). (PDict kv, r)) (parse_members fl n [] (d # r')))
          else case strip_prefix ''null'' s of Some r \<Rightarrow> Some (PNone, r) | None \<Rightarrow>
            (case strip_prefix ''true'' s of Some r \<Rightarrow> Some (PBool True, r) | None \<Rightarrow>
            (case strip_prefix ''false'' s of Some r \<Rightarrow> Some (PBool False, r) | None \<Rightarrow>
             json_number fl s)))"
| "parse_items fl 0 s = None"
| "parse_items fl (Suc n) s =
     (case parse_value fl n s of
        None \<Rightarrow> None
      | Some (v, r) \<Rightarrow>
          (case skip_space r of
             [] \<Rightarrow> None
           | c # r' \<Rightarrow>
               if c = CHR '']'' then Some ([v], r')
               else if c = CHR '','' then map_option (\<lambda>(xs, r). (v # xs, r)) (parse_items fl n (skip_space r'))
               else None))"
| "parse_members fl 0 d s = None"
| "parse_members fl (Suc n) d s =
     (case s of
        [] \<Rightarrow> None
      | q # s' \<Rightarrow>
          if q \<noteq> CHR 0x22 then None
          else case parse_chars s' of
            None \<Rightarrow> None
          | Some (k, r) \<Rightarrow>
              (case skip_space r of
                 [] \<Rightarrow> None
               | c # r' \<Rightarrow>
                   if c \<noteq> CHR '':'' then None
                   else case parse_value fl n (skip_space r') of
                     None \<Rightarrow> None
                   | Some (v, r'') \<Rightarrow>
                       (case skip_space r'' of
                          [] \<Rightarrow> None
                        | e # rest \<Rightarrow>
                            if e = CHR ''}'' then Some (AList.update k v d, rest)
                            else if e = CHR '','' then
                              parse_members fl n (AList.update k v d) (skip_space rest)
                            else None)))"

definition json_loads :: "(string \<Rightarrow> pyfloat option) \<Rightarrow> string \<Rightarrow> pyval option" where
  "json_loads fl s =
     (case parse_value fl (Suc (length s)) (skip_space s) of
        None \<Rightarrow> None
      | Some (v, r) \<Rightarrow> if skip_space r = [] then Some v else None)"

subsection \<open>What was printed is read back\<close>

text \<open>What the parameters owe each other on a float: its text is a number that is no integer.\<close>

definition float_text_ok :: "(pyfloat \<Rightarrow> string) \<Rightarrow> (string \<Rightarrow> pyfloat option) \<Rightarrow> pyfloat \<Rightarrow> bool" where
  "float_text_ok ft fl f \<longleftrightarrow>
     ft f \<noteq> [] \<and> list_all number_char (ft f) \<and> int_text (ft f) = None \<and> fl (ft f) = Some f"

fun json_ok :: "(pyfloat \<Rightarrow> string) \<Rightarrow> (string \<Rightarrow> pyfloat option) \<Rightarrow> pyval \<Rightarrow> bool" where
  "json_ok ft fl (PFloat f) = float_text_ok ft fl f"
| "json_ok ft fl (PBytes b) = False"
| "json_ok ft fl (PList xs) = list_all (json_ok ft fl) xs"
| "json_ok ft fl (PDict d) = (wf_dict d \<and> list_all (\<lambda>(k, v). json_ok ft fl v) d)"
| "json_ok ft fl v = True"

definition delimited :: "string \<Rightarrow> bool" where
  "delimited r \<longleftrightarrow> (case r of [] \<Rightarrow> True | c # _ \<Rightarrow> \<not> number_char c)"

lemma hex_value_digit [simp]: "n < 16 \<Longrightarrow> hex_value (hex_digit n) = Some n"
  by (auto simp: hex_value_def hex_digit_def Let_def)

lemma parse_short_escape:
  assumes "(n, e) \<in> set short_escapes"
  shows "parse_chars (CHR 0x5C # e # s) = map_option (\<lambda>(t, r). (char_of n # t, r)) (parse_chars s)"
proof -
  have "\<forall>(n, e) \<in> set short_escapes. e \<noteq> CHR ''u'' \<and> e \<noteq> CHR ''/''
      \<and> map_of (map (\<lambda>(n, e). (e, n)) short_escapes) e = Some n"
    by code_simp
  then have "e \<noteq> CHR ''u''" "e \<noteq> CHR ''/''" "map_of (map (\<lambda>(n, e). (e, n)) short_escapes) e = Some n"
    using assms by auto
  then show ?thesis
    by (subst parse_chars.simps) simp
qed

lemma parse_escaped:
  "parse_chars (json_escape c @ s) = map_option (\<lambda>(t, r). (c # t, r)) (parse_chars s)"
proof (cases "map_of short_escapes (code c)")
  case (Some e)
  then show ?thesis
    using parse_short_escape [OF map_of_SomeD [OF Some]] by (simp add: json_escape_def)
next
  case None
  have q: "code CHR 0x22 = 34" "code CHR 0x5C = 92" by code_simp+
  have ne: "c \<noteq> CHR 0x22" "c \<noteq> CHR 0x5C"
    using None q by (auto simp: short_escapes_def)
  show ?thesis
  proof (cases "32 \<le> code c \<and> code c \<le> 126")
    case True
    then show ?thesis
      using None ne by (subst parse_chars.simps) (simp add: json_escape_def)
  next
    case False
    have z: "hex_value CHR ''0'' = Some 0" by code_simp
    have "code c div 16 < 16" by (simp add: less_mult_imp_div_less)
    then have "hex4 CHR ''0'' CHR ''0'' (hex_digit (code c div 16)) (hex_digit (code c mod 16)) = Some (code c)"
      by (simp add: hex4_def z)
    moreover have "json_escape c = [CHR 0x5C, CHR ''u'', CHR ''0'', CHR ''0'', hex_digit (code c div 16),
        hex_digit (code c mod 16)]"
      using None False by (simp add: json_escape_def)
    ultimately show ?thesis
      by (simp only:) (subst parse_chars.simps, simp)
  qed
qed

lemma parse_chars_end: "parse_chars (CHR 0x22 # r) = Some ([], r)"
  by (subst parse_chars.simps) simp

lemma parse_chars_string: "parse_chars (concat (map json_escape s) @ CHR 0x22 # r) = Some (s, r)"
  by (induction s) (simp_all add: parse_escaped parse_chars_end)

lemma show_nat_hd: "0 < n \<Longrightarrow> hd (show_nat n) \<noteq> CHR ''0''"
proof (induction n rule: show_nat.induct)
  case (1 n)
  have z: "code CHR ''0'' = 48" by code_simp
  show ?case
  proof (cases "n < 10")
    case True
    then have "code (char_of (48 + n)) \<noteq> code CHR ''0''"
      using 1(2) True by (simp add: z)
    then have "char_of (48 + n) \<noteq> CHR ''0''" by metis
    then show ?thesis using True by (subst show_nat.simps) simp
  next
    case False
    then have "hd (show_nat (n div 10)) \<noteq> CHR ''0''"
      using 1 by simp
    then show ?thesis using False by (subst show_nat.simps) (simp add: hd_append)
  qed
qed

lemma digit_not_minus: "is_digit c \<Longrightarrow> c \<noteq> CHR ''-''"
proof
  assume "is_digit c" "c = CHR ''-''"
  moreover have "\<not> is_digit CHR ''-''" by code_simp
  ultimately show False by simp
qed

lemma show_nat_length: "n < 10 \<Longrightarrow> length (show_nat n) = 1"
  by (subst show_nat.simps) simp

lemma int_digits_show:
  "show_nat n \<noteq> [] \<and> list_all is_digit (show_nat n) \<and> (length (show_nat n) = 1 \<or> hd (show_nat n) \<noteq> CHR ''0'')"
  using show_nat_digits [of n] show_nat_hd [of n] show_nat_length [of n]
  by (cases "n < 10") (auto simp: list_all_iff)

lemma int_text_show [simp]: "int_text (show_int i) = Some i"
proof (cases "i < 0")
  case True
  then show ?thesis
    using int_digits_show [of "nat (- i)"] by (simp add: int_text_def show_int_def)
next
  case False
  then obtain c r where cr: "show_nat (nat i) = c # r" "is_digit c"
    using show_nat_nonempty show_nat_digits by (metis list.set_intros(1) neq_Nil_conv)
  then show ?thesis
    using False int_digits_show [of "nat i"] nat_of_digits_show [of "nat i"] digit_not_minus
    by (simp add: int_text_def show_int_def Let_def)
qed

lemma show_int_number: "list_all number_char (show_int i)"
  using show_nat_digits by (auto simp: show_int_def list_all_iff number_char_def)

lemma takeWhile_delimited:
  "list_all number_char t \<Longrightarrow> delimited r \<Longrightarrow> takeWhile number_char (t @ r) = t \<and> dropWhile number_char (t @ r) = r"
  by (induction t) (auto simp: delimited_def split: list.splits)

lemma number_char_first:
  assumes "number_char c"
  shows "c \<noteq> CHR 0x22 \<and> c \<noteq> CHR ''['' \<and> c \<noteq> CHR ''{'' \<and> c \<noteq> CHR ''n'' \<and> c \<noteq> CHR ''t'' \<and> c \<noteq> CHR ''f''
    \<and> \<not> json_space c \<and> c \<noteq> CHR '']''"
proof -
  have "list_all (\<lambda>c. \<not> number_char c) [CHR 0x22, CHR ''['', CHR ''{'', CHR ''n'', CHR ''t'', CHR ''f'',
      CHR '' '', CHR 0x09, CHR 0x0A, CHR 0x0D, CHR '']'']"
    by code_simp
  then show ?thesis
    using assms unfolding json_space_def by auto
qed

lemma parse_number:
  assumes "t \<noteq> []" "list_all number_char t" "delimited r"
    and "json_number fl (t @ r) = Some x"
  shows "parse_value fl (Suc n) (t @ r) = Some x"
proof -
  obtain c t' where t: "t = c # t'" "number_char c"
    using assms(1,2) by (cases t) auto
  show ?thesis
    using assms(4) number_char_first [OF t(2)] by (auto simp: t strip_prefix_def)
qed

lemma delimited_sep [simp]: "delimited (CHR '','' # r)" "delimited (CHR '']'' # r)" "delimited (CHR ''}'' # r)"
  "delimited []"
proof -
  have "\<not> number_char CHR '',''" "\<not> number_char CHR '']''" "\<not> number_char CHR ''}''" by code_simp+
  then show "delimited (CHR '','' # r)" "delimited (CHR '']'' # r)" "delimited (CHR ''}'' # r)" "delimited []"
    by (simp_all add: delimited_def)
qed

lemma skip_space_stop: "\<not> json_space c \<Longrightarrow> skip_space (c # s) = c # s"
  by (simp add: skip_space_def)

lemma not_space [simp]: "\<not> json_space CHR '',''" "\<not> json_space CHR '']''" "\<not> json_space CHR ''}''"
  "\<not> json_space CHR '':''" "\<not> json_space CHR 0x22" "json_space CHR '' ''"
  by (simp_all add: json_space_def)

lemma skip_space_blank [simp]: "skip_space (CHR '' '' # s) = skip_space s"
  by (simp add: skip_space_def)

text \<open>How a printed value starts.\<close>

definition value_start :: "string \<Rightarrow> bool" where
  "value_start t \<longleftrightarrow> (case t of [] \<Rightarrow> False | c # _ \<Rightarrow> \<not> json_space c \<and> c \<noteq> CHR '']'')"

lemma value_start_number: "t \<noteq> [] \<Longrightarrow> list_all number_char t \<Longrightarrow> value_start t"
  using number_char_first by (cases t) (auto simp: value_start_def)

lemma show_int_nonempty [simp]: "show_int i \<noteq> []"
  by (simp add: show_int_def)

lemma dumps_start: "json_ok ft fl v \<Longrightarrow> json_dumps ft v = Some t \<Longrightarrow> value_start t"
  using value_start_number show_int_number
  by (cases v) (auto simp: float_text_ok_def value_start_def json_string_def json_space_def)

lemma skip_value_start: "value_start t \<Longrightarrow> skip_space (t @ r) = t @ r"
  by (cases t) (auto simp: value_start_def skip_space_stop)

text \<open>A value is read back from its text when enough fuel is left and a delimiter follows.\<close>

definition reads :: "(pyfloat \<Rightarrow> string) \<Rightarrow> (string \<Rightarrow> pyfloat option) \<Rightarrow> pyval \<Rightarrow> bool" where
  "reads ft fl v \<longleftrightarrow> (\<forall>t n r. json_dumps ft v = Some t \<longrightarrow> length t \<le> n \<longrightarrow> delimited r
     \<longrightarrow> parse_value fl n (t @ r) = Some (v, r))"

lemma readsD: "reads ft fl v \<Longrightarrow> json_dumps ft v = Some t \<Longrightarrow> length t \<le> n \<Longrightarrow> delimited r
   \<Longrightarrow> parse_value fl n (t @ r) = Some (v, r)"
  by (simp add: reads_def)

lemma those_Cons:
  "those (x # xs) = Some ts \<longleftrightarrow> (\<exists>t ts'. x = Some t \<and> those xs = Some ts' \<and> ts = t # ts')"
  by (auto split: option.splits)

lemma those_length: "those xs = Some ts \<Longrightarrow> length ts = length xs"
  by (induction xs arbitrary: ts) (auto split: option.splits)

lemma parse_items_ok:
  assumes "xs \<noteq> []" "\<And>x. x \<in> set xs \<Longrightarrow> json_ok ft fl x \<and> reads ft fl x"
    and "those (map (json_dumps ft) xs) = Some ts" "length (join '', '' ts) < n"
  shows "parse_items fl n (join '', '' ts @ CHR '']'' # r) = Some (xs, r)"
  using assms
proof (induction xs arbitrary: ts n)
  case Nil
  then show ?case by simp
next
  case (Cons x xs)
  from Cons.prems(3) obtain t ts' where t: "json_dumps ft x = Some t" "those (map (json_dumps ft) xs) = Some ts'"
    "ts = t # ts'"
    by (auto simp: those_Cons simp del: those.simps)
  obtain m where n: "n = Suc m" using Cons.prems(4) by (cases n) auto
  show ?case
  proof (cases xs)
    case Nil
    with t have "ts' = []" by simp
    then have "parse_value fl m (t @ CHR '']'' # r) = Some (x, CHR '']'' # r)"
      using readsD [OF _ t(1)] Cons.prems(2,4) t(3) n by simp
    then show ?thesis
      using Nil t(3) \<open>ts' = []\<close> by (simp add: n skip_space_stop)
  next
    case (Cons y ys)
    then obtain u us where us: "ts' = u # us" "json_dumps ft y = Some u"
      using t(2) by (auto simp: those_Cons simp del: those.simps)
    have len: "length t \<le> m" "length (join '', '' ts') < m"
      using Cons.prems(4) t(3) us n by (cases us; simp)+
    have start: "value_start u"
      using Cons.prems(2) [of y] Cons dumps_start us(2) by auto
    have sp: "skip_space (join '', '' ts' @ CHR '']'' # r) = join '', '' ts' @ CHR '']'' # r"
      using skip_value_start [OF start] us(1) by (cases us) simp_all
    have "parse_value fl m (t @ CHR '','' # CHR '' '' # join '', '' ts' @ CHR '']'' # r)
        = Some (x, CHR '','' # CHR '' '' # join '', '' ts' @ CHR '']'' # r)"
      using readsD [OF _ t(1) len(1)] Cons.prems(2) by simp
    moreover have "parse_items fl m (join '', '' ts' @ CHR '']'' # r) = Some (xs, r)"
      using Cons.IH [OF _ _ t(2) len(2)] Cons.prems(2) Cons by auto
    ultimately show ?thesis
      using t(3) us(1) by (simp add: n skip_space_stop sp [unfolded us(1)])
  qed
qed

lemma json_string_start: "json_string k @ s = CHR 0x22 # concat (map json_escape k) @ CHR 0x22 # s"
  by (simp add: json_string_def)

lemma parse_members_ok:
  assumes "d \<noteq> []" "\<And>k v. (k, v) \<in> set d \<Longrightarrow> json_ok ft fl v \<and> reads ft fl v"
    and "those (map (\<lambda>(k, v). map_option (\<lambda>t. json_string k @ '': '' @ t) (json_dumps ft v)) d) = Some ts"
    and "length (join '', '' ts) < n" and "wf_dict (e @ d)"
  shows "parse_members fl n e (join '', '' ts @ CHR ''}'' # r) = Some (e @ d, r)"
  using assms
proof (induction d arbitrary: ts n e)
  case Nil
  then show ?case by simp
next
  case (Cons kv d)
  obtain k v where kv: "kv = (k, v)" by (cases kv)
  from Cons.prems(3) obtain t ts' where t: "json_dumps ft v = Some t"
    "those (map (\<lambda>(k, v). map_option (\<lambda>t. json_string k @ '': '' @ t) (json_dumps ft v)) d) = Some ts'"
    "ts = (json_string k @ '': '' @ t) # ts'"
    by (auto simp: those_Cons kv simp del: those.simps)
  obtain m where n: "n = Suc m" using Cons.prems(4) by (cases n) auto
  have ok: "json_ok ft fl v" "reads ft fl v" using Cons.prems(2) kv by auto
  have fresh: "AList.update k v e = e @ [(k, v)]"
    using Cons.prems(5) kv by (intro alist_update_fresh) (auto simp: map_of_eq_None_iff)
  have key: "parse_chars (concat (map json_escape k) @ CHR 0x22 # s) = Some (k, s)" for s
    by (rule parse_chars_string)
  have st: "skip_space (t @ s) = t @ s" for s
    by (rule skip_value_start [OF dumps_start [OF ok(1) t(1)]])
  show ?case
  proof (cases d)
    case Nil
    with t have ts': "ts' = []" by simp
    then have "parse_value fl m (t @ CHR ''}'' # r) = Some (v, CHR ''}'' # r)"
      using readsD [OF ok(2) t(1)] Cons.prems(4) t(3) n by simp
    then show ?thesis
      using Nil t(3) ts' fresh kv by (simp add: n json_string_start key skip_space_stop st)
  next
    case (Cons y ys)
    then obtain u us where us: "ts' = u # us" "\<exists>k u'. u = json_string k @ u'"
      using t(2) by (cases y) (auto simp: those_Cons simp del: those.simps)
    have len: "length t \<le> m" "length (join '', '' ts') < m"
      using Cons.prems(4) t(3) us n by (cases us; simp)+
    have sp: "skip_space (join '', '' ts' @ CHR ''}'' # r) = join '', '' ts' @ CHR ''}'' # r"
      using us by (cases us) (auto simp: json_string_start skip_space_stop)
    have "parse_value fl m (t @ CHR '','' # CHR '' '' # join '', '' ts' @ CHR ''}'' # r)
        = Some (v, CHR '','' # CHR '' '' # join '', '' ts' @ CHR ''}'' # r)"
      using readsD [OF ok(2) t(1) len(1)] by simp
    moreover have "parse_members fl m (e @ [(k, v)]) (join '', '' ts' @ CHR ''}'' # r) = Some ((e @ [(k, v)]) @ d, r)"
    proof (rule Cons.IH [OF _ _ t(2) len(2)])
      show "d \<noteq> []" using Cons by simp
      show "json_ok ft fl v' \<and> reads ft fl v'" if "(k', v') \<in> set d" for k' v'
        using Cons.prems(2) that by auto
      show "wf_dict ((e @ [(k, v)]) @ d)" using Cons.prems(5) kv by simp
    qed
    ultimately show ?thesis
      using t(3) us(1) fresh kv by (simp add: n json_string_start key skip_space_stop st sp [unfolded us(1)])
  qed
qed

lemma reads_all: "json_ok ft fl v \<Longrightarrow> reads ft fl v"
proof (induction v)
  case (PFloat f)
  then show ?case
    unfolding reads_def
  proof (intro allI impI)
    fix t n r
    assume a: "json_dumps ft (PFloat f) = Some t" "length t \<le> n" "delimited r"
    then have t: "t = ft f" "t \<noteq> []" "list_all number_char t"
      using PFloat by (auto simp: float_text_ok_def)
    then have "json_number fl (t @ r) = Some (PFloat f, r)"
      using PFloat takeWhile_delimited [OF t(3) a(3)] by (simp add: json_number_def float_text_ok_def)
    moreover obtain m where "n = Suc m" using a(2) t(2) by (cases n) auto
    ultimately show "parse_value fl n (t @ r) = Some (PFloat f, r)"
      using parse_number [OF t(2,3) a(3)] by simp
  qed
next
  case (PInt i)
  show ?case
    unfolding reads_def
  proof (intro allI impI)
    fix t n r
    assume a: "json_dumps ft (PInt i) = Some t" "length t \<le> n" "delimited r"
    then have t: "t = show_int i" "t \<noteq> []" "list_all number_char t"
      using show_int_number by auto
    then have "json_number fl (t @ r) = Some (PInt i, r)"
      using takeWhile_delimited [OF t(3) a(3)] by (simp add: json_number_def)
    moreover obtain m where "n = Suc m" using a(2) t(2) by (cases n) auto
    ultimately show "parse_value fl n (t @ r) = Some (PInt i, r)"
      using parse_number [OF t(2,3) a(3)] by simp
  qed
next
  case PNone
  then show ?case
    by (auto simp: reads_def strip_prefix_def dest!: Suc_le_D)
next
  case (PBool b)
  then show ?case
    by (auto simp: reads_def strip_prefix_def dest!: Suc_le_D)
next
  case (PStr s)
  then show ?case
    by (auto simp: reads_def json_string_def parse_chars_string dest!: Suc_le_D)
next
  case (PBytes b)
  then show ?case by simp
next
  case (PList xs)
  then have ok: "\<And>x. x \<in> set xs \<Longrightarrow> json_ok ft fl x \<and> reads ft fl x"
    by (auto simp: list_all_iff)
  show ?case
    unfolding reads_def
  proof (intro allI impI)
    fix t n r
    assume a: "json_dumps ft (PList xs) = Some t" "length t \<le> n" "delimited r"
    then obtain ts where ts: "those (map (json_dumps ft) xs) = Some ts" "t = ''['' @ join '', '' ts @ '']''"
      by auto
    then obtain m where n: "n = Suc m" "length (join '', '' ts) < m" using a(2) by (cases n) auto
    show "parse_value fl n (t @ r) = Some (PList xs, r)"
    proof (cases xs)
      case Nil
      then show ?thesis using ts n by (simp add: skip_space_stop)
    next
      case (Cons x xs')
      then obtain u us where us: "ts = u # us" "json_dumps ft x = Some u"
        using ts(1) by (auto simp: those_Cons simp del: those.simps)
      have "value_start u" using ok [of x] Cons us(2) dumps_start by auto
      then obtain c u' where c: "u = c # u'" "\<not> json_space c" "c \<noteq> CHR '']''"
        by (cases u) (auto simp: value_start_def)
      obtain rest where rest: "join '', '' ts = c # rest" using us(1) c(1) by (cases us) auto
      have "parse_items fl m (c # rest @ CHR '']'' # r) = Some (xs, r)"
        using parse_items_ok [OF _ ok ts(1) n(2), where r = r] Cons rest by simp
      then show ?thesis using ts(2) n(1) rest c by (simp add: skip_space_stop)
    qed
  qed
next
  case (PDict d)
  then have ok: "\<And>k v. (k, v) \<in> set d \<Longrightarrow> json_ok ft fl v \<and> reads ft fl v" and wf: "wf_dict ([] @ d)"
    by (fastforce simp: list_all_iff)+
  show ?case
    unfolding reads_def
  proof (intro allI impI)
    fix t n r
    assume a: "json_dumps ft (PDict d) = Some t" "length t \<le> n" "delimited r"
    then obtain ts where ts: "those (map (\<lambda>(k, v). map_option (\<lambda>t. json_string k @ '': '' @ t) (json_dumps ft v)) d)
        = Some ts" "t = ''{'' @ join '', '' ts @ ''}''"
      by auto
    then obtain m where n: "n = Suc m" "length (join '', '' ts) < m" using a(2) by (cases n) auto
    show "parse_value fl n (t @ r) = Some (PDict d, r)"
    proof (cases d)
      case Nil
      then show ?thesis using ts n by (simp add: skip_space_stop)
    next
      case (Cons x d')
      then obtain u us where us: "ts = u # us" "\<exists>k u'. u = json_string k @ u'"
        using ts(1) by (cases x) (auto simp: those_Cons simp del: those.simps)
      obtain rest where rest: "join '', '' ts = CHR 0x22 # rest"
        using us by (cases us) (auto simp: json_string_def)
      have "parse_members fl m [] (CHR 0x22 # rest @ CHR ''}'' # r) = Some (d, r)"
        using parse_members_ok [OF _ ok ts(1) n(2) wf, where r = r] Cons rest by simp
      then show ?thesis using ts(2) n(1) rest by (simp add: skip_space_stop)
    qed
  qed
qed

lemma json_roundtrip:
  assumes "json_ok ft fl v" "json_dumps ft v = Some t"
  shows "json_loads fl t = Some v"
proof -
  have "skip_space t = t"
    using skip_value_start [OF dumps_start [OF assms], of "[]"] by simp
  moreover have "parse_value fl (Suc (length t)) t = Some (v, [])"
    using readsD [OF reads_all [OF assms(1)] assms(2), of "Suc (length t)" "[]"] by simp
  ultimately show ?thesis by (simp add: json_loads_def skip_space_def)
qed

lemma those_some: "\<forall>x \<in> set xs. x \<noteq> None \<Longrightarrow> \<exists>ts. those xs = Some ts"
  by (induction xs) auto

lemma json_dumps_total: "json_ok ft fl v \<Longrightarrow> \<exists>t. json_dumps ft v = Some t"
proof (induction v)
  case (PList xs)
  then show ?case
    using those_some [of "map (json_dumps ft) xs"] by (fastforce simp: list_all_iff)
next
  case (PDict d)
  then have "\<exists>ts. those (map (\<lambda>(k, v). map_option (\<lambda>t. json_string k @ '': '' @ t) (json_dumps ft v)) d) = Some ts"
    by (intro those_some) (fastforce simp: list_all_iff)
  then show ?case by auto
qed auto

definition printable :: "char \<Rightarrow> bool" where
  "printable c \<longleftrightarrow> 32 \<le> code c \<and> code c \<le> 126"

lemma number_char_printable: "number_char c \<Longrightarrow> printable c"
proof -
  have "list_all printable [CHR ''-'', CHR ''+'', CHR ''.'', CHR ''e'', CHR ''E'']" by code_simp
  then show "number_char c \<Longrightarrow> printable c"
    by (auto simp: number_char_def is_digit_def printable_def)
qed

lemma hex_digit_printable: "n < 16 \<Longrightarrow> printable (hex_digit n)"
  by (auto simp: printable_def hex_digit_def)

lemma json_escape_printable: "list_all printable (json_escape c)"
proof -
  have 1: "list_all (\<lambda>(n, e). printable e) short_escapes" by code_simp
  have 2: "list_all printable [CHR 0x5C, CHR ''u'', CHR ''0'']" by code_simp
  show ?thesis
  proof (cases "map_of short_escapes (code c)")
    case (Some e)
    then have "printable e" using 1 map_of_SomeD [OF Some] by (auto simp: list_all_iff)
    then show ?thesis using Some 2 by (simp add: json_escape_def)
  next
    case None
    have "code c div 16 < 16" by (simp add: less_mult_imp_div_less)
    then show ?thesis
      using None 2 hex_digit_printable by (simp add: json_escape_def) (simp add: printable_def)
  qed
qed

lemma json_string_printable: "list_all printable (json_string s)"
proof -
  have "printable CHR 0x22" by code_simp
  then show ?thesis
    using json_escape_printable by (simp add: json_string_def list_all_iff)
qed

lemma join_set: "set (join sep xs) \<subseteq> set sep \<union> \<Union> (set ` set xs)"
  by (induction sep xs rule: join.induct) auto

lemma those_set: "those xs = Some ts \<Longrightarrow> t \<in> set ts \<Longrightarrow> Some t \<in> set xs"
  by (induction xs arbitrary: ts) (auto split: option.splits)

lemma join_printable:
  assumes "those ms = Some ts" "\<And>t. Some t \<in> set ms \<Longrightarrow> list_all printable t" "list_all printable sep"
  shows "list_all printable (join sep ts)"
  using assms join_set [of sep ts] those_set [OF assms(1)] by (fastforce simp: list_all_iff)

text \<open>The text is one line of printable ASCII, so encoding it as UTF-8 changes nothing.\<close>

lemma json_dumps_printable: "json_ok ft fl v \<Longrightarrow> json_dumps ft v = Some t \<Longrightarrow> list_all printable t"
proof (induction v arbitrary: t)
  case (PList xs)
  then obtain ts where ts: "those (map (json_dumps ft) xs) = Some ts" "t = ''['' @ join '', '' ts @ '']''"
    by auto
  have p: "list_all printable ''['' \<and> list_all printable '']'' \<and> list_all printable '', ''" by code_simp
  have "list_all printable (join '', '' ts)"
  proof (rule join_printable [OF ts(1)])
    fix u
    assume "Some u \<in> set (map (json_dumps ft) xs)"
    then obtain x where "x \<in> set xs" "json_dumps ft x = Some u" by auto
    then show "list_all printable u" using PList by (auto simp: list_all_iff)
  qed (use p in simp)
  then show ?case using ts(2) p by simp
next
  case (PDict d)
  let ?f = "\<lambda>(k, v). map_option (\<lambda>t. json_string k @ '': '' @ t) (json_dumps ft v)"
  obtain ts where ts: "those (map ?f d) = Some ts" "t = ''{'' @ join '', '' ts @ ''}''"
    using PDict.prems by auto
  have p: "list_all printable ''{'' \<and> list_all printable ''}'' \<and> list_all printable '', '' \<and> list_all printable '': ''"
    by code_simp
  have "list_all printable (join '', '' ts)"
  proof (rule join_printable [OF ts(1)])
    fix u
    assume "Some u \<in> set (map ?f d)"
    then obtain k v w where "(k, v) \<in> set d" "json_dumps ft v = Some w" "u = json_string k @ '': '' @ w"
      by (auto dest!: sym [of "Some u"])
    then show "list_all printable u"
      using PDict p json_string_printable by (fastforce simp: list_all_iff)
  qed (use p in simp)
  then show ?case using ts(2) p by simp
next
  case PNone
  have "list_all printable ''null''" by code_simp
  with PNone show ?case by auto
next
  case (PBool b)
  have "list_all printable ''true'' \<and> list_all printable ''false''" by code_simp
  with PBool show ?case by auto
next
  case (PInt i)
  then show ?case using show_int_number [of i] number_char_printable by (auto simp: list_all_iff)
next
  case (PFloat f)
  then show ?case using number_char_printable by (auto simp: list_all_iff float_text_ok_def)
next
  case (PStr s)
  then show ?case using json_string_printable by auto
qed auto

lemma json_dumps_utf8: "json_ok ft fl v \<Longrightarrow> json_dumps ft v = Some t \<Longrightarrow> utf8 t = t"
  using json_dumps_printable by (intro utf8_ascii) (fastforce simp: list_all_iff printable_def)

interpretation json: codec "json_ok ft fl" "\<lambda>v. the (json_dumps ft v)" "json_loads fl" Some for ft fl
proof unfold_locales
  fix v
  assume "json_ok ft fl v"
  then show "json_loads fl (the (json_dumps ft v)) = Some v"
    using json_dumps_total json_roundtrip by fastforce
qed

text \<open>\<open>bytes.decode("utf-8")\<close> on code points below 256: \<open>None\<close> for what is no such text.\<close>

fun utf8_decode :: "string \<Rightarrow> string option" where
  "utf8_decode [] = Some []"
| "utf8_decode (c # s) =
     (if code c < 128 then map_option ((#) c) (utf8_decode s)
      else if code c = 194 \<or> code c = 195 then
        (case s of
           d # s' \<Rightarrow> if 128 \<le> code d \<and> code d < 192
             then map_option ((#) (char_of ((code c - 192) * 64 + (code d - 128)))) (utf8_decode s') else None
         | [] \<Rightarrow> None)
      else None)"

lemma utf8_decode_ascii: "\<forall>c \<in> set s. code c < 128 \<Longrightarrow> utf8_decode s = Some s"
  by (induction s) auto

lemma printable_ascii: "list_all printable t \<Longrightarrow> \<forall>c \<in> set t. code c < 128"
  by (auto simp: list_all_iff printable_def)

end
