(* ===== verification/Envelope.thy ===== *)
theory Envelope
  imports Names Codecs
begin

text \<open>
  \<open>src/src/partcad/shape_envelope.py\<close>: the envelope a shape travels in, its outer layer and its
  metadata, and the codec of the wrapper pipe. A node is a dictionary; the payload under \<open>brep\<close> is
  bytes in memory and base64 text on the pipe. A result \<open>None\<close> of the codec is an exception of the
  source (a \<open>TypeError\<close> for what cannot be encoded, a decoding error for what cannot be read).
\<close>

definition KEY_BREP :: string where "KEY_BREP = ''brep''"
definition KEY_ASSEMBLY :: string where "KEY_ASSEMBLY = ''assembly''"
definition KEY_BYTES :: string where "KEY_BYTES = ''__bytes__''"
definition KEY_GLTF :: string where "KEY_GLTF = ''gltf''"
definition KEY_LOCATION :: string where "KEY_LOCATION = ''location''"
definition KEY_METADATA :: string where "KEY_METADATA = ''metadata''"
definition METADATA_MEASUREMENTS :: string where "METADATA_MEASUREMENTS = ''measurements''"
definition METADATA_ANNOTATIONS :: string where "METADATA_ANNOTATIONS = ''annotations''"
definition METADATA_SECTIONS :: string where "METADATA_SECTIONS = ''sections''"

lemmas envelope_keys = KEY_BREP_def KEY_ASSEMBLY_def KEY_BYTES_def KEY_GLTF_def KEY_LOCATION_def
  KEY_METADATA_def METADATA_MEASUREMENTS_def METADATA_ANNOTATIONS_def METADATA_SECTIONS_def

definition ZSTD_MAGIC :: string where
  "ZSTD_MAGIC = [CHR 0x28, CHR 0xB5, CHR 0x2F, CHR 0xFD]"

definition MAX_BREP_EXPANSION :: nat where "MAX_BREP_EXPANSION = 100"
definition MAX_BREP_EXPANSION_FLOOR :: nat where "MAX_BREP_EXPANSION_FLOOR = 2 ^ 20"

definition geometry_key :: "string \<Rightarrow> exn + string" where
  "geometry_key form = (if form \<in> {KEY_BREP, KEY_GLTF} then Inr form else Inl ValueError)"

section \<open>Recognising a node\<close>

fun has_key :: "string \<Rightarrow> pyval \<Rightarrow> bool" where
  "has_key k (PDict d) = dict_has d k"
| "has_key k _ = False"

definition is_shape_object :: "pyval \<Rightarrow> bool" where "is_shape_object v = has_key KEY_BREP v"
definition is_assembly_object :: "pyval \<Rightarrow> bool" where "is_assembly_object v = has_key KEY_ASSEMBLY v"
definition is_gltf_object :: "pyval \<Rightarrow> bool" where "is_gltf_object v = has_key KEY_GLTF v"

definition is_node :: "pyval \<Rightarrow> bool" where
  "is_node v \<longleftrightarrow> is_shape_object v \<or> is_assembly_object v \<or> is_gltf_object v"

definition is_shape_envelope :: "pyval \<Rightarrow> bool" where
  "is_shape_envelope v \<longleftrightarrow> is_shape_object v \<or> is_assembly_object v"

section \<open>The payload\<close>

text \<open>\<open>base64.b64decode\<close> of a value: text has to be ASCII; anything but text and bytes is refused.\<close>

fun b64decode_value :: "pyval \<Rightarrow> string option" where
  "b64decode_value (PStr s) = (if \<forall>c \<in> set s. code c < 128 then b64decode s else None)"
| "b64decode_value (PBytes b) = b64decode b"
| "b64decode_value _ = None"

fun brep_bytes :: "pyval \<Rightarrow> string option" where
  "brep_bytes (PBytes b) = Some b"
| "brep_bytes v = b64decode_value v"

fun brep_base64 :: "pyval \<Rightarrow> string option" where
  "brep_base64 (PStr s) = Some s"
| "brep_base64 (PBytes b) = Some (b64encode b)"
| "brep_base64 _ = None"

text \<open>
  The decompressor is a parameter: \<open>None\<close> when it is not installed, else what it makes of the data
  within a bound, and whether the frame ended there.
\<close>

definition brep_plain :: "(string \<Rightarrow> nat \<Rightarrow> string \<times> bool) option \<Rightarrow> pyval \<Rightarrow> exn + string" where
  "brep_plain zstd v =
     (case brep_bytes v of
        None \<Rightarrow> Inl ValueError
      | Some data \<Rightarrow>
          if \<not> starts_with data ZSTD_MAGIC then Inr data
          else case zstd of
            None \<Rightarrow> Inl (Raised ''RuntimeError'')
          | Some decompress \<Rightarrow>
              (let limit = max MAX_BREP_EXPANSION_FLOOR (MAX_BREP_EXPANSION * length data);
                   (plain, eof) = decompress data limit
               in if eof then Inr plain else Inl ValueError))"

definition make_shape :: "pyval \<Rightarrow> pyval \<Rightarrow> pyval \<Rightarrow> pyval option" where
  "make_shape brep name label =
     map_option (\<lambda>b. PDict [(''name'', name), (''label'', label), (KEY_BREP, PBytes b)]) (brep_bytes brep)"

definition payload_key_of :: "pydict \<Rightarrow> string option" where
  "payload_key_of d =
     (if dict_has d KEY_BREP then Some KEY_BREP
      else if dict_has d KEY_ASSEMBLY then Some KEY_ASSEMBLY else None)"

fun payload_key :: "pyval \<Rightarrow> string option" where
  "payload_key (PDict d) = payload_key_of d"
| "payload_key _ = None"

section \<open>Metadata and the outer layer\<close>

definition metadata_of_dict :: "pydict \<Rightarrow> pydict option" where
  "metadata_of_dict d =
     (case map_of d KEY_METADATA of
        Some (PDict m) \<Rightarrow> if m = [] then None else Some m
      | _ \<Rightarrow> None)"

fun metadata_of :: "pyval \<Rightarrow> pydict option" where
  "metadata_of (PDict d) = metadata_of_dict d"
| "metadata_of _ = None"

fun metadata_section :: "pyval \<Rightarrow> string \<Rightarrow> pyval option" where
  "metadata_section (PDict m) section =
     (case map_of m section of None \<Rightarrow> None | Some v \<Rightarrow> if truthy v then Some v else None)"
| "metadata_section _ section = None"

text \<open>\<open>make_metadata\<close>, on the sections as they are passed: a value, a list, a dictionary.\<close>

definition make_metadata :: "pyval \<Rightarrow> pyval list \<Rightarrow> pydict \<Rightarrow> pydict" where
  "make_metadata measurements annotations sections =
     (let m1 = (if truthy measurements then AList.update METADATA_MEASUREMENTS measurements [] else []);
          m2 = (if annotations \<noteq> [] then AList.update METADATA_ANNOTATIONS (PList annotations) m1 else m1)
      in if sections \<noteq> [] then AList.update METADATA_SECTIONS (PDict sections) m2 else m2)"

definition without_measurements :: "pydict option \<Rightarrow> pydict" where
  "without_measurements m = dict_restrict (\<lambda>k. k \<noteq> METADATA_MEASUREMENTS) (case m of None \<Rightarrow> [] | Some d \<Rightarrow> d)"

fun lay_over :: "pydict \<Rightarrow> pydict \<Rightarrow> pydict" where
  "lay_over merged [] = merged"
| "lay_over merged ((k, v) # rest) = lay_over (if truthy v then AList.update k v merged else merged) rest"

definition merge_metadata :: "pydict option \<Rightarrow> pydict option \<Rightarrow> pydict" where
  "merge_metadata base overlay =
     lay_over (case base of None \<Rightarrow> [] | Some b \<Rightarrow> b) (case overlay of None \<Rightarrow> [] | Some v \<Rightarrow> v)"

definition strip_dict :: "pydict \<Rightarrow> pydict" where
  "strip_dict d =
     (case payload_key_of d of
        None \<Rightarrow> d
      | Some key \<Rightarrow>
          let stripped = [(key, the (map_of d key))] in
          case metadata_of_dict d of
            None \<Rightarrow> stripped
          | Some m \<Rightarrow> AList.update KEY_METADATA (PDict m) stripped)"

fun strip_metadata :: "pyval \<Rightarrow> pyval" where
  "strip_metadata (PList xs) = PList (map strip_metadata xs)"
| "strip_metadata (PDict d) = PDict (strip_dict d)"
| "strip_metadata v = v"

definition apply_dict :: "pydict option \<Rightarrow> pydict \<Rightarrow> pydict" where
  "apply_dict metadata d =
     (case payload_key_of d of
        None \<Rightarrow> d
      | Some key \<Rightarrow>
          let wrapped = AList.update key (the (map_of d key)) (case metadata of None \<Rightarrow> [] | Some m \<Rightarrow> m) in
          case metadata_of_dict d of
            None \<Rightarrow> wrapped
          | Some own \<Rightarrow> AList.update KEY_METADATA (PDict own) wrapped)"

fun apply_metadata :: "pydict option \<Rightarrow> pyval \<Rightarrow> pyval" where
  "apply_metadata metadata (PList xs) = PList (map (apply_metadata metadata) xs)"
| "apply_metadata metadata (PDict d) = PDict (apply_dict metadata d)"
| "apply_metadata metadata v = v"

section \<open>The codec of the pipe\<close>

text \<open>\<open>[f(child) for child in value]\<close> for a value that is no list.\<close>

fun iterate_other :: "pyval \<Rightarrow> pyval option" where
  "iterate_other (PDict e) = Some (PList (map (\<lambda>kv. PStr (fst kv)) e))"
| "iterate_other (PStr s) = Some (PList (map (\<lambda>c. PStr [c]) s))"
| "iterate_other (PBytes b) = Some (PList (map (\<lambda>c. PInt (int (code c))) b))"
| "iterate_other _ = None"

fun is_list :: "pyval \<Rightarrow> bool" where
  "is_list (PList _) = True"
| "is_list _ = False"

text \<open>
  \<open>encode\<close>. The children of an assembly are encoded one by one, which for a list is what encoding
  the list does.
\<close>

fun encode :: "pyval \<Rightarrow> pyval option" where
  "encode (PDict d) =
     (if payload_key_of d \<noteq> None
      then map_option PDict (those (map (\<lambda>(k, v). map_option (Pair k)
             (if k = KEY_BREP then map_option PStr (brep_base64 v)
              else if k = KEY_ASSEMBLY then (if is_list v then encode v else iterate_other v)
              else if k \<in> {KEY_LOCATION, ''name'', ''label''} then Some v
              else encode v)) d))
      else map_option PDict (those (map (\<lambda>(k, v). map_option (Pair k) (encode v)) d)))"
| "encode (PList xs) = map_option PList (those (map encode xs))"
| "encode (PBytes b) = Some (PDict [(KEY_BYTES, PStr (b64encode b))])"
| "encode v = Some v"

fun decode :: "pyval \<Rightarrow> pyval option" where
  "decode (PDict d) =
     (if payload_key_of d \<noteq> None
      then map_option PDict (those (map (\<lambda>(k, v). map_option (Pair k)
             (if k = KEY_BREP then map_option PBytes (brep_bytes v)
              else if k = KEY_ASSEMBLY then (if is_list v then decode v else iterate_other v)
              else Some v)) d))
      else if dict_has d KEY_BYTES \<and> length d = 1 then map_option PBytes (b64decode_value (the (map_of d KEY_BYTES)))
      else map_option PDict (those (map (\<lambda>(k, v). map_option (Pair k) (decode v)) d)))"
| "decode (PList xs) = map_option PList (those (map decode xs))"
| "decode v = Some v"

definition dumps :: "(pyfloat \<Rightarrow> string) \<Rightarrow> pyval \<Rightarrow> string option" where
  "dumps ft v = Option.bind (encode v) (json_dumps ft)"

definition loads :: "(string \<Rightarrow> pyfloat option) \<Rightarrow> string \<Rightarrow> pyval option" where
  "loads fl text = Option.bind (json_loads fl text) decode"

definition loads_bytes :: "(string \<Rightarrow> pyfloat option) \<Rightarrow> string \<Rightarrow> pyval option" where
  "loads_bytes fl data = Option.bind (utf8_decode data) (loads fl)"

text \<open>The characters \<open>str.splitlines\<close> breaks a line at, below code point 256.\<close>

definition line_break :: "char \<Rightarrow> bool" where
  "line_break c \<longleftrightarrow> (let n = code c in (10 \<le> n \<and> n \<le> 13) \<or> (28 \<le> n \<and> n \<le> 30) \<or> n = 133)"

text \<open>The lines of a text; blank ones may be more than \<open>splitlines\<close> has, and are skipped anyway.\<close>

fun lines :: "string \<Rightarrow> string list" where
  "lines [] = [[]]"
| "lines (c # s) = (if line_break c then [] # lines s else (c # hd (lines s)) # tl (lines s))"

definition response_line :: "string \<Rightarrow> string" where
  "response_line data =
     (let line = strip data in
      if CHR 0x0A \<in> set line
      then (case filter (\<lambda>l. l \<noteq> []) (map strip (rev (lines line))) of [] \<Rightarrow> line | l # _ \<Rightarrow> l)
      else line)"

definition deserialize :: "(string \<Rightarrow> pyfloat option) \<Rightarrow> string \<Rightarrow> pyval option" where
  "deserialize fl data = (let line = response_line data in if line = [] then None else loads fl line)"

section \<open>What is sent is what is received\<close>

text \<open>Plain JSON data: no bytes and no envelope inside.\<close>

fun native :: "pyval \<Rightarrow> bool" where
  "native (PBytes b) = False"
| "native (PList xs) = list_all native xs"
| "native (PDict d) = (payload_key_of d = None \<and> list_all (\<lambda>(k, v). native v) d)"
| "native v = True"

fun is_bytes :: "pyval \<Rightarrow> bool" where
  "is_bytes (PBytes _) = True"
| "is_bytes _ = False"

text \<open>
  What the pipe carries losslessly: bytes and envelopes anywhere, except inside what an envelope
  carries besides its payload, and no dictionary that looks like encoded bytes.
\<close>

fun wire_ok :: "pyval \<Rightarrow> bool" where
  "wire_ok (PDict d) =
     (wf_dict d \<and>
      (if payload_key_of d \<noteq> None
       then list_all (\<lambda>(k, v). if k = KEY_BREP then is_bytes v
              else if k = KEY_ASSEMBLY then is_list v \<and> wire_ok v
              else k \<in> {KEY_LOCATION, ''name'', ''label''} \<or> native v) d
       else \<not> (dict_has d KEY_BYTES \<and> length d = 1) \<and> list_all (\<lambda>(k, v). wire_ok v) d))"
| "wire_ok (PList xs) = list_all wire_ok xs"
| "wire_ok v = True"

lemma those_pairs_ex:
  "\<forall>(k, v) \<in> set d. \<exists>w. f k v = Some w \<and> P k v w \<Longrightarrow>
   \<exists>ws. those (map (\<lambda>(k, v). map_option (Pair k) (f k v)) d) = Some ws
     \<and> list_all2 (\<lambda>a b. fst a = fst b \<and> P (fst a) (snd a) (snd b)) d ws"
  by (induction d) auto

lemma those_pairs_back:
  "list_all2 (\<lambda>a b. fst a = fst b \<and> g (fst a) (snd b) = Some (snd a)) d ws \<Longrightarrow>
   those (map (\<lambda>(k, w). map_option (Pair k) (g k w)) ws) = Some d"
  by (induction rule: list_all2_induct) auto

lemma those_list_ex:
  "\<forall>v \<in> set xs. \<exists>w. f v = Some w \<and> g w = Some v \<Longrightarrow>
   \<exists>ws. those (map f xs) = Some ws \<and> those (map g ws) = Some xs"
  by (induction xs) auto

lemma list_all2_keys: "list_all2 (\<lambda>a b. fst a = fst b \<and> P a b) d ws \<Longrightarrow> map fst ws = map fst d"
  by (induction rule: list_all2_induct) auto

lemma dict_has_keys: "dict_has d k \<longleftrightarrow> k \<in> set (map fst d)"
  by (simp add: map_of_eq_None_iff)

lemma payload_key_of_keys: "map fst d = map fst e \<Longrightarrow> payload_key_of d = payload_key_of e"
  unfolding payload_key_of_def dict_has_keys by simp

lemma encode_native: "native v \<Longrightarrow> encode v = Some v"
proof (induction v)
  case (PDict d)
  have "\<forall>(k, v) \<in> set d. \<exists>w. encode v = Some w \<and> w = v"
    using PDict by (fastforce simp: list_all_iff)
  from those_pairs_ex [OF this] obtain ws where
    ws: "those (map (\<lambda>(k, v). map_option (Pair k) (encode v)) d) = Some ws"
      "list_all2 (\<lambda>a b. fst a = fst b \<and> snd b = snd a) d ws" by blast
  have "ws = d" using ws(2) by (induction rule: list_all2_induct) (auto simp: prod_eq_iff)
  then show ?case using PDict ws(1) by simp
next
  case (PList xs)
  have "\<forall>v \<in> set xs. encode v = Some v" using PList by (auto simp: list_all_iff)
  then have "those (map encode xs) = Some xs" by (induction xs) auto
  then show ?case by simp
qed auto

lemma b64encode_ascii: "\<forall>c \<in> set (b64encode s). code c < 128"
proof -
  have m: "code CHR ''='' < 128" "code CHR ''+'' < 128" "code CHR ''/'' < 128" by code_simp+
  then have "code (b64_char n) < 128" for n by (auto simp: b64_char_def)
  then show ?thesis using m by (induction s rule: b64encode.induct) auto
qed

lemma is_bytes_cases: "is_bytes v \<Longrightarrow> \<exists>b. v = PBytes b"
  by (cases v) auto

lemma is_list_cases: "is_list v \<Longrightarrow> \<exists>xs. v = PList xs"
  by (cases v) auto

lemma encode_list: "encode (PList xs) = Some w \<Longrightarrow> is_list w"
  by auto

lemma encode_decode: "wire_ok v \<Longrightarrow> \<exists>w. encode v = Some w \<and> decode w = Some v"
proof (induction v)
  case (PDict d)
  have IH: "\<exists>w. encode v = Some w \<and> decode w = Some v" if "(k, v) \<in> set d" "wire_ok v" for k v
    using PDict.IH that by fastforce
  show ?case
  proof (cases "payload_key_of d = None")
    case False
    let ?f = "\<lambda>k v. if k = KEY_BREP then map_option PStr (brep_base64 v)
              else if k = KEY_ASSEMBLY then (if is_list v then encode v else iterate_other v)
              else if k \<in> {KEY_LOCATION, ''name'', ''label''} then Some v else encode v"
    let ?g = "\<lambda>k v. if k = KEY_BREP then map_option PBytes (brep_bytes v)
              else if k = KEY_ASSEMBLY then (if is_list v then decode v else iterate_other v) else Some v"
    have "\<forall>(k, v) \<in> set d. \<exists>w. ?f k v = Some w \<and> ?g k w = Some v"
    proof clarify
      fix k v
      assume kv: "(k, v) \<in> set d"
      have ok: "if k = KEY_BREP then is_bytes v else if k = KEY_ASSEMBLY then is_list v \<and> wire_ok v
          else k \<in> {KEY_LOCATION, ''name'', ''label''} \<or> native v"
        using PDict.prems False kv by (auto simp: list_all_iff split: if_splits)
      consider "k = KEY_BREP" | "k = KEY_ASSEMBLY" "k \<noteq> KEY_BREP" | "k \<noteq> KEY_BREP" "k \<noteq> KEY_ASSEMBLY" by blast
      then show "\<exists>w. ?f k v = Some w \<and> ?g k w = Some v"
      proof cases
        case 1
        then obtain b where "v = PBytes b" using ok is_bytes_cases by auto
        then show ?thesis using 1 b64encode_ascii [of b] by simp
      next
        case 2
        then have v: "is_list v" "wire_ok v" using ok by auto
        then obtain w where w: "encode v = Some w" "decode w = Some v" using IH kv by blast
        moreover have "is_list w" using v(1) w(1) is_list_cases encode_list by blast
        ultimately show ?thesis using 2 v by simp
      next
        case 3
        then show ?thesis using ok encode_native by (auto split: if_splits)
      qed
    qed
    from those_pairs_ex [OF this] obtain ws where
      ws: "those (map (\<lambda>(k, v). map_option (Pair k) (?f k v)) d) = Some ws"
        "list_all2 (\<lambda>a b. fst a = fst b \<and> ?g (fst a) (snd b) = Some (snd a)) d ws" by blast
    have "encode (PDict d) = Some (PDict ws)"
      using False ws(1) by simp
    moreover have "payload_key_of ws \<noteq> None"
      using payload_key_of_keys [OF list_all2_keys [OF ws(2)]] False by simp
    then have "decode (PDict ws) = Some (PDict d)"
      using those_pairs_back [OF ws(2)] by simp
    ultimately show ?thesis by blast
  next
    case True
    have "\<forall>(k, v) \<in> set d. \<exists>w. encode v = Some w \<and> decode w = Some v"
      using PDict.prems True IH by (fastforce simp: list_all_iff)
    from those_pairs_ex [OF this] obtain ws where
      ws: "those (map (\<lambda>(k, v). map_option (Pair k) (encode v)) d) = Some ws"
        "list_all2 (\<lambda>a b. fst a = fst b \<and> decode (snd b) = Some (snd a)) d ws" by blast
    note keys = list_all2_keys [OF ws(2)]
    have "\<not> (dict_has ws KEY_BYTES \<and> length ws = 1)"
    proof -
      have "dict_has ws KEY_BYTES = dict_has d KEY_BYTES"
        by (simp only: dict_has_keys keys)
      then show ?thesis
        using PDict.prems True list_all2_lengthD [OF ws(2)] by auto
    qed
    then have "decode (PDict ws) = Some (PDict d)"
      using those_pairs_back [of "\<lambda>k. decode", OF ws(2)] payload_key_of_keys [OF keys] True
      by (simp del: not_None_eq)
    then show ?thesis using True ws(1) by simp
  qed
next
  case (PList xs)
  then have "\<forall>v \<in> set xs. \<exists>w. encode v = Some w \<and> decode w = Some v"
    by (auto simp: list_all_iff)
  from those_list_ex [OF this] show ?case by auto
next
  case (PBytes b)
  have "payload_key_of [(KEY_BYTES, PStr (b64encode b))] = None"
    by (simp add: payload_key_of_def envelope_keys)
  then show ?case using b64encode_ascii [of b] by simp
qed auto

lemma dumps_loads:
  assumes "wire_ok v" "\<forall>w. encode v = Some w \<longrightarrow> json_ok ft fl w"
  shows "\<exists>t. dumps ft v = Some t \<and> loads fl t = Some v \<and> list_all printable t"
proof -
  obtain w where w: "encode v = Some w" "decode w = Some v" using encode_decode [OF assms(1)] by blast
  then have ok: "json_ok ft fl w" using assms(2) by blast
  then obtain t where "json_dumps ft w = Some t" using json_dumps_total by blast
  then show ?thesis
    using w ok json_roundtrip json_dumps_printable by (fastforce simp: dumps_def loads_def)
qed

lemma printable_not_break: "printable c \<Longrightarrow> \<not> line_break c"
  by (auto simp: printable_def line_break_def Let_def)

lemma lines_nonempty [simp]: "lines s \<noteq> []"
  by (cases s) auto

lemma lines_one: "list_all (\<lambda>c. \<not> line_break c) t \<Longrightarrow> lines t = [t]"
  by (induction t) auto

lemma lines_last:
  "line_break b \<Longrightarrow> list_all (\<lambda>c. \<not> line_break c) t \<Longrightarrow> last (lines (a @ b # t)) = t"
proof (induction a)
  case Nil
  then show ?case by (simp add: lines_one)
next
  case (Cons c a)
  let ?l = "lines (a @ b # t)"
  have "?l \<noteq> [hd ?l]"
  proof
    assume "?l = [hd ?l]"
    then have len: "length ?l = 1" by (metis length_Cons list.size(3) One_nat_def)
    have "2 \<le> length (lines (a @ b # t))"
    proof (induction a)
      case Nil
      then show ?case using Cons.prems by (cases "lines t") auto
    next
      case (Cons d a)
      then show ?case by (cases "lines (a @ b # t)") auto
    qed
    with len show False by simp
  qed
  then have "tl ?l \<noteq> []" by (metis list.collapse lines_nonempty)
  then show ?case using Cons by (auto simp: last_tl)
qed

lemma dropWhile_space_append:
  "dropWhile is_space a \<noteq> [] \<Longrightarrow> dropWhile is_space (a @ b) = dropWhile is_space a @ b"
  by (induction a) auto

lemma rstrip_append: "b \<noteq> [] \<Longrightarrow> \<not> is_space (last b) \<Longrightarrow> list_all is_space w \<Longrightarrow> rstrip (b @ w) = b"
proof -
  assume b: "b \<noteq> []" "\<not> is_space (last b)" and w: "list_all is_space w"
  have "dropWhile is_space (rev w @ rev b) = rev b"
  proof -
    have "\<And>c. c \<in> set (rev w) \<Longrightarrow> is_space c" using w by (simp add: list_all_iff)
    then have "dropWhile is_space (rev w @ rev b) = dropWhile is_space (rev b)"
      by (rule dropWhile_append2)
    then show ?thesis using b by (cases b rule: rev_cases) auto
  qed
  then show ?thesis by (simp add: rstrip_def)
qed

text \<open>A line that starts and ends in something visible.\<close>

definition visible_line :: "string \<Rightarrow> bool" where
  "visible_line t \<longleftrightarrow> t \<noteq> [] \<and> \<not> is_space (hd t) \<and> \<not> is_space (last t) \<and> list_all (\<lambda>c. \<not> line_break c) t"

lemma strip_visible: "visible_line t \<Longrightarrow> strip t = t"
proof -
  assume v: "visible_line t"
  then have "lstrip t = t" by (cases t) (auto simp: visible_line_def lstrip_def)
  then show "strip t = t"
    using v rstrip_append [of t "[]"] by (simp add: strip_def visible_line_def)
qed

lemma newline_facts: "line_break CHR 0x0A" "is_space CHR 0x0A"
  by code_simp+

lemma response_line_found:
  assumes "visible_line t" "list_all is_space w" "noise = [] \<or> (\<exists>n. noise = n @ [CHR 0x0A])"
  shows "response_line (noise @ t @ w) = t"
proof -
  have t: "t \<noteq> []" "\<not> is_space (hd t)" "\<not> is_space (last t)" "list_all (\<lambda>c. \<not> line_break c) t"
    using assms(1) by (auto simp: visible_line_def)
  have r: "rstrip (n @ t @ w) = n @ t" for n
    using rstrip_append [of "n @ t" w] t assms(2) by simp
  have no: "CHR 0x0A \<notin> set t"
    using t(4) newline_facts(1) by (auto simp: list_all_iff)
  have l: "lstrip (t @ w) = t @ w"
    using t(1,2) by (cases t) (auto simp: lstrip_def)
  show ?thesis
  proof (cases "dropWhile is_space noise = []")
    case True
    then have "lstrip (noise @ t @ w) = t @ w"
      using l by (simp add: lstrip_def dropWhile_append2 dropWhile_eq_Nil_conv)
    then have "strip (noise @ t @ w) = t" using r [of "[]"] by (simp add: strip_def)
    then show ?thesis using no by (simp add: response_line_def)
  next
    case False
    then obtain n where n: "noise = n @ [CHR 0x0A]" using assms(3) by auto
    let ?d = "dropWhile is_space n"
    have "dropWhile is_space n \<noteq> []"
      using False newline_facts(2) unfolding n by (auto simp: dropWhile_eq_Nil_conv)
    then have d: "lstrip (noise @ t @ w) = ?d @ CHR 0x0A # t @ w"
      by (simp add: lstrip_def n dropWhile_space_append)
    then have st: "strip (noise @ t @ w) = ?d @ CHR 0x0A # t"
      using r [of "?d @ [CHR 0x0A]"] by (simp add: strip_def)
    have "last (lines (?d @ CHR 0x0A # t)) = t"
      using lines_last [OF newline_facts(1) t(4)] by simp
    then obtain ls where "rev (lines (?d @ CHR 0x0A # t)) = t # ls"
      by (metis lines_nonempty append_butlast_last_id rev.simps(2) rev_rev_ident)
    then show ?thesis
      using strip_visible [OF assms(1)] t(1) by (simp add: response_line_def st)
  qed
qed

lemma dumps_dict_visible:
  assumes "dumps ft (PDict d) = Some t" "list_all printable t"
  shows "visible_line t"
proof -
  obtain w where w: "encode (PDict d) = Some (PDict w)" "json_dumps ft (PDict w) = Some t"
    using assms(1) by (auto simp: dumps_def bind_eq_Some_conv split: if_splits)
  then obtain u where "t = ''{'' @ u @ ''}''" by auto
  moreover have "\<not> is_space CHR ''{''" "\<not> is_space CHR ''}''" by code_simp+
  ultimately show ?thesis
    using assms(2) printable_not_break by (auto simp: visible_line_def list_all_iff)
qed

text \<open>C39: What crosses the pipe. A request or response (a dictionary that holds shapes, assemblies and
  bytes anywhere but inside what an envelope carries besides its payload) is written as one line of
  printable ASCII, and is read back unchanged, compressed payloads as the bytes they were, whatever
  the process printed on lines of its own before it and whatever white space follows.\<close>

theorem pipe_roundtrip:
  assumes "wire_ok (PDict d)" and "\<forall>w. encode (PDict d) = Some w \<longrightarrow> json_ok ft fl w"
    and "noise = [] \<or> (\<exists>n. noise = n @ [CHR 0x0A])" and "list_all is_space trailing"
  shows "\<exists>t. dumps ft (PDict d) = Some t \<and> list_all printable t
     \<and> deserialize fl (noise @ t @ trailing) = Some (PDict d)"
proof -
  obtain t where t: "dumps ft (PDict d) = Some t" "loads fl t = Some (PDict d)" "list_all printable t"
    using dumps_loads [OF assms(1,2)] by blast
  then have v: "visible_line t" using dumps_dict_visible by blast
  then have "t \<noteq> []" by (simp add: visible_line_def)
  then show ?thesis
    using t response_line_found [OF v assms(4,3)] by (auto simp: deserialize_def)
qed

theorem pipe_roundtrip_witness:
  "\<exists>t. dumps (\<lambda>_. []) (PDict [(''shape'', PDict [(''name'', PStr ''cube''), (''brep'', PBytes ''BREP'')]),
        (''log'', PBytes [CHR 0x00])]) = Some t \<and> list_all printable t
     \<and> deserialize (\<lambda>_. None) ((''warning: slow'' @ [CHR 0x0A]) @ t @ [CHR 0x0A])
       = Some (PDict [(''shape'', PDict [(''name'', PStr ''cube''), (''brep'', PBytes ''BREP'')]),
        (''log'', PBytes [CHR 0x00])])"
  by (rule pipe_roundtrip)
    (auto simp: payload_key_of_def envelope_keys newline_facts)

text \<open>The two directions of the pipe codec do not quite match: bytes under any key of an envelope
  besides its payload are encoded on the way out, and nothing decodes them on the way in, so such an
  envelope does not come back as it was sent.\<close>

theorem envelope_bytes_not_decoded:
  "\<exists>v w u. is_shape_envelope v \<and> encode v = Some w \<and> decode w = Some u \<and> u \<noteq> v"
proof -
  let ?v = "PDict [(''brep'', PBytes []), (''properties'', PDict [(''thumb'', PBytes [])])]"
  let ?u = "PDict [(''brep'', PBytes []), (''properties'', PDict [(''thumb'', PDict [(''__bytes__'', PStr [])])])]"
  let ?w = "PDict [(''brep'', PStr []), (''properties'', PDict [(''thumb'', PDict [(''__bytes__'', PStr [])])])]"
  have "is_shape_envelope ?v" by (simp add: is_shape_envelope_def is_shape_object_def envelope_keys)
  moreover have "encode ?v = Some ?w" by (simp add: payload_key_of_def envelope_keys)
  moreover have "decode ?w = Some ?u" by (simp add: payload_key_of_def envelope_keys b64decode_def)
  moreover have "?u \<noteq> ?v" by simp
  ultimately show ?thesis by blast
qed

section \<open>The outer layer\<close>

lemma payload_key_of_cases: "payload_key_of d = Some k \<Longrightarrow> (k = KEY_BREP \<or> k = KEY_ASSEMBLY) \<and> dict_has d k"
  by (auto simp: payload_key_of_def split: if_splits)

lemma key_distinct [simp]: "KEY_METADATA \<noteq> KEY_BREP" "KEY_METADATA \<noteq> KEY_ASSEMBLY" "KEY_BREP \<noteq> KEY_ASSEMBLY"
  "KEY_BREP \<noteq> KEY_METADATA" "KEY_ASSEMBLY \<noteq> KEY_METADATA" "KEY_ASSEMBLY \<noteq> KEY_BREP"
  by (simp_all add: envelope_keys)

lemma map_of_strip_dict:
  assumes "payload_key_of d = Some key"
  shows "map_of (strip_dict d) k =
     (if k = key then map_of d key
      else if k = KEY_METADATA then map_option PDict (metadata_of_dict d) else None)"
  using payload_key_of_cases [OF assms] assms by (auto simp: strip_dict_def Let_def split: option.splits)

lemma payload_key_strip: "payload_key_of d = Some key \<Longrightarrow> payload_key_of (strip_dict d) = Some key"
proof -
  assume k: "payload_key_of d = Some key"
  have "map_of (strip_dict d) KEY_BREP = (if key = KEY_BREP then map_of d key else None)"
    "map_of (strip_dict d) KEY_ASSEMBLY = (if key = KEY_ASSEMBLY then map_of d key else None)"
    by (auto simp: map_of_strip_dict [OF k])
  then show ?thesis
    using payload_key_of_cases [OF k] by (auto simp: payload_key_of_def)
qed

lemma metadata_strip: "payload_key_of d = Some key \<Longrightarrow> metadata_of_dict (strip_dict d) = metadata_of_dict d"
proof -
  assume k: "payload_key_of d = Some key"
  have "map_of (strip_dict d) KEY_METADATA = map_option PDict (metadata_of_dict d)"
    using payload_key_of_cases [OF k] by (auto simp: map_of_strip_dict [OF k])
  then show ?thesis
    by (auto simp: metadata_of_dict_def split: option.splits pyval.splits)
qed

lemma map_of_apply_dict:
  assumes "payload_key_of d = Some key"
  shows "map_of (apply_dict (Some m) d) k =
     (if k = KEY_METADATA \<and> metadata_of_dict d \<noteq> None then map_option PDict (metadata_of_dict d)
      else if k = key then map_of d key else map_of m k)"
  using payload_key_of_cases [OF assms] assms by (auto simp: apply_dict_def Let_def split: option.splits)

text \<open>Objects that share a geometry share a cache entry without sharing an identity. Whatever object
  an entry was written for, wrapping another object's outer layer around what was kept gives that
  object's own name, label and placement and none of the first one's, with the payload and what was
  recorded about the geometry exactly as they were; and stripping the result again gives the same
  entry.\<close>

theorem outer_layer_is_the_readers:
  assumes "payload_key_of d = Some key"
    and "map_of outer KEY_BREP = None" and "map_of outer KEY_ASSEMBLY = None"
    and "map_of outer KEY_METADATA = None"
  shows "(let e = apply_dict (Some outer) (strip_dict d) in
      (\<forall>k. k \<noteq> KEY_BREP \<and> k \<noteq> KEY_ASSEMBLY \<and> k \<noteq> KEY_METADATA \<longrightarrow> map_of e k = map_of outer k)
      \<and> payload_key_of e = Some key \<and> map_of e key = map_of d key
      \<and> metadata_of_dict e = metadata_of_dict d
      \<and> strip_dict e = strip_dict d)"
proof -
  let ?e = "apply_dict (Some outer) (strip_dict d)"
  note k = payload_key_of_cases [OF assms(1)]
  note ks = payload_key_strip [OF assms(1)]
  have e: "map_of ?e k =
     (if k = KEY_METADATA then map_option PDict (metadata_of_dict d)
      else if k = key then map_of d key else map_of outer k)" for k
    using k assms(4)
    by (auto simp: map_of_apply_dict [OF ks] metadata_strip [OF assms(1)] map_of_strip_dict [OF assms(1)])
  have pk: "payload_key_of ?e = Some key"
    using k assms(2,3) by (auto simp: payload_key_of_def e)
  have md: "metadata_of_dict ?e = metadata_of_dict d"
    unfolding metadata_of_dict_def e
    by (auto simp: metadata_of_dict_def split: option.splits pyval.splits)
  have "map_of ?e key = map_of d key" using k by (auto simp: e)
  moreover have "strip_dict ?e = strip_dict d"
    using pk md calculation assms(1) by (simp add: strip_dict_def)
  ultimately show ?thesis
    using pk md k by (auto simp: Let_def e)
qed

theorem outer_layer_is_the_readers_witness:
  "strip_dict (apply_dict (Some [(''name'', PStr ''b'')])
     (strip_dict [(''name'', PStr ''a''), (''brep'', PBytes ''X'')])) = [(''brep'', PBytes ''X'')]"
  using outer_layer_is_the_readers [of "[(''name'', PStr ''a''), (''brep'', PBytes ''X'')]" "''brep''"
      "[(''name'', PStr ''b'')]"]
  by (simp add: payload_key_of_def envelope_keys Let_def strip_dict_def metadata_of_dict_def)

lemma lay_over_get:
  "wf_dict v \<Longrightarrow> map_of (lay_over m v) k =
     (case map_of v k of Some x \<Rightarrow> if truthy x then Some x else map_of m k | None \<Rightarrow> map_of m k)"
proof (induction m v rule: lay_over.induct)
  case (1 merged)
  then show ?case by simp
next
  case (2 merged a x rest)
  then have "map_of rest a = None" by (simp add: map_of_eq_None_iff)
  with 2 show ?case by (cases "k = a") (simp_all split: option.split)
qed

text \<open>After a transformation the metadata keeps every section the import recorded unless the second
  wrapper reports it anew, and never a stale measurement: the measurements are the new ones, and when
  the transformation reports none there are none.\<close>

theorem transformed_metadata:
  assumes "wf_dict overlay"
  shows "map_of (merge_metadata (Some (without_measurements (Some base))) (Some overlay)) k =
     (case map_of overlay k of
        Some v \<Rightarrow> if truthy v then Some v else if k = METADATA_MEASUREMENTS then None else map_of base k
      | None \<Rightarrow> if k = METADATA_MEASUREMENTS then None else map_of base k)"
  using assms by (simp add: merge_metadata_def without_measurements_def lay_over_get split: option.splits)

theorem transformed_metadata_witness:
  "map_of (merge_metadata (Some (without_measurements (Some
      [(''measurements'', PDict [(''volume'', PInt 8)]), (''sections'', PDict [(''step'', PNone)])])))
      (Some [(''measurements'', PDict [])])) ''measurements'' = None"
  by (subst transformed_metadata) (simp_all add: envelope_keys)

text \<open>The one place the core decompresses a shape is bounded: with a decompressor that respects the
  bound it is given, no payload, however it was made, expands beyond the larger of the floor and a
  hundred times its own size; a frame that would is refused, not cut short.\<close>

theorem brep_plain_bounded:
  assumes "\<And>d n. length (fst (zstd d n)) \<le> n" and "brep_bytes v = Some data"
  shows "(case brep_plain (Some zstd) v of
      Inl e \<Rightarrow> starts_with data ZSTD_MAGIC \<and> e = ValueError
        \<and> \<not> snd (zstd data (max MAX_BREP_EXPANSION_FLOOR (MAX_BREP_EXPANSION * length data)))
    | Inr plain \<Rightarrow> length plain \<le> max MAX_BREP_EXPANSION_FLOOR (MAX_BREP_EXPANSION * length data))"
proof -
  have "length data \<le> max MAX_BREP_EXPANSION_FLOOR (MAX_BREP_EXPANSION * length data)"
    by (simp add: MAX_BREP_EXPANSION_def le_max_iff_disj)
  then show ?thesis
    using assms(1) [of data "max MAX_BREP_EXPANSION_FLOOR (MAX_BREP_EXPANSION * length data)"] assms(2)
    by (auto simp: brep_plain_def Let_def split: prod.splits)
qed

theorem brep_plain_bounded_witness:
  "case brep_plain (Some (\<lambda>d n. (take n (drop 4 d), length d \<le> n + 4))) (PBytes (ZSTD_MAGIC @ ''CASCADE'')) of
     Inl e \<Rightarrow> False | Inr plain \<Rightarrow> length plain \<le> 2 ^ 20"
  using brep_plain_bounded [of "\<lambda>d n. (take n (drop 4 d), length d \<le> n + 4)" "PBytes (ZSTD_MAGIC @ ''CASCADE'')"
      "ZSTD_MAGIC @ ''CASCADE''"]
  by (simp add: ZSTD_MAGIC_def MAX_BREP_EXPANSION_FLOOR_def MAX_BREP_EXPANSION_def split: sum.splits)

end
