(* ===== verification/CacheShape.thy ===== *)
theory CacheShape
  imports Envelope CacheTiers
begin

text \<open>
  \<open>src/src/partcad/cache_shape.py\<close>: what the shape cache stores under a content hash. The text of
  floats and their reading are the parameters \<open>ft\<close> and \<open>fl\<close> of the JSON codec; the size of an object
  in memory (\<open>total_size\<close>) is a parameter. A result \<open>None\<close> is an exception of the source.
\<close>

definition BREP_PREFIXES :: "string list" where
  "BREP_PREFIXES = [ZSTD_MAGIC, ''CASCADE Topology'', ''DBRep_DrawableShape'']"

definition FRAME_MAGIC :: string where
  "FRAME_MAGIC = ''PCM1''"

definition FRAME_HEADER :: nat where
  "FRAME_HEADER = length FRAME_MAGIC + 4"

text \<open>\<open>n.to_bytes(4, "big")\<close>, which raises when the number does not fit, and \<open>int.from_bytes\<close>.\<close>

definition to_bytes4 :: "nat \<Rightarrow> string option" where
  "to_bytes4 n = (if n < 2 ^ 32
     then Some [char_of (n div 16777216), char_of (n div 65536), char_of (n div 256), char_of n] else None)"

definition from_bytes :: "string \<Rightarrow> nat" where
  "from_bytes s = foldl (\<lambda>n c. n * 256 + code c) 0 s"

fun without_metadata :: "pyval \<Rightarrow> pyval" where
  "without_metadata (PDict d) = PDict (dict_restrict (\<lambda>k. k \<noteq> KEY_METADATA) d)"
| "without_metadata v = v"

fun set_metadata :: "pydict \<Rightarrow> pyval \<Rightarrow> pyval" where
  "set_metadata m (PDict d) = PDict (AList.update KEY_METADATA (PDict m) d)"
| "set_metadata m v = v"

text \<open>The value under \<open>brep\<close> of a dictionary that has nothing else.\<close>

fun lone_brep :: "pyval \<Rightarrow> pyval option" where
  "lone_brep (PDict d) = (if map fst d = [KEY_BREP] then map_of d KEY_BREP else None)"
| "lone_brep v = None"

definition serialize_entry :: "(pyfloat \<Rightarrow> string) \<Rightarrow> pyval \<Rightarrow> string option" where
  "serialize_entry ft v =
     (let metadata = metadata_of v;
          geometry = without_metadata (strip_metadata v)
      in case lone_brep geometry of
           Some value \<Rightarrow> Option.bind (brep_bytes value) (\<lambda>brep.
             case metadata of
               None \<Rightarrow> Some brep
             | Some m \<Rightarrow> Option.bind (map_option utf8 (json_dumps ft (PDict m))) (\<lambda>header.
                 map_option (\<lambda>size. FRAME_MAGIC @ size @ header @ brep) (to_bytes4 (length header))))
         | None \<Rightarrow>
             (let payload = (case metadata of None \<Rightarrow> geometry | Some m \<Rightarrow> set_metadata m geometry)
              in map_option utf8 (Option.bind (encode payload) (json_dumps ft))))"

definition deserialize_entry :: "(string \<Rightarrow> pyfloat option) \<Rightarrow> string \<Rightarrow> pyval option" where
  "deserialize_entry fl data =
     (if starts_with data FRAME_MAGIC then
        (let size = from_bytes (take 4 (drop (length FRAME_MAGIC) data));
             body = drop FRAME_HEADER data
         in map_option (\<lambda>m. PDict [(KEY_BREP, PBytes (drop size body)), (KEY_METADATA, m)])
              (Option.bind (utf8_decode (take size body)) (json_loads fl)))
      else if \<exists>p \<in> set BREP_PREFIXES. starts_with data p then Some (PDict [(KEY_BREP, PBytes data)])
      else Option.bind (utf8_decode data) (\<lambda>t. Option.bind (json_loads fl t) decode))"

definition properties_key :: "string \<Rightarrow> string" where
  "properties_key kind = kind @ PROPERTIES_SUFFIX"

record memory_config =
  cache_memory :: bool
  cache_memory_max_entry_size :: nat
  cache_memory_double_cache_max_entry_size :: nat

definition keep_in_memory :: "memory_config \<Rightarrow> nat \<Rightarrow> bool \<Rightarrow> bool" where
  "keep_in_memory cfg data_len on_tier =
     (if \<not> cache_memory cfg then False
      else
        let max_size = cache_memory_max_entry_size cfg in
        if max_size > 0 \<and> data_len > max_size then False
        else
          let double_max_size = cache_memory_double_cache_max_entry_size cfg in
          if on_tier \<and> double_max_size > 0 \<and> data_len > double_max_size then False else True)"

definition write_shapes ::
  "(pyfloat \<Rightarrow> string) \<Rightarrow> (pyval \<Rightarrow> nat) \<Rightarrow> memory_config \<Rightarrow> tier list \<Rightarrow> string option \<Rightarrow> string
   \<Rightarrow> (string \<times> pyval) list \<Rightarrow> (tier list \<times> (string \<times> bool) list) option" where
  "write_shapes ft size_of cfg backends hash_str hash_name items =
     (let finish = (\<lambda>(tiers, saved).
            (tiers, map (\<lambda>(key, value). (key,
               if \<not> cache_memory cfg then False
               else keep_in_memory cfg (size_of value) (map_of saved key = Some True))) items))
      in if backends = [] then Some (finish (backends, []))
         else map_option (\<lambda>datas. finish (write_data backends hash_str hash_name datas))
           (those (map (\<lambda>(key, value). map_option (Pair key) (serialize_entry ft value)) items)))"

definition read_shapes ::
  "(string \<Rightarrow> pyfloat option) \<Rightarrow> memory_config \<Rightarrow> tier list \<Rightarrow> string option \<Rightarrow> string list \<Rightarrow> pydict option
   \<Rightarrow> (string \<times> pyval option) list \<times> (string \<times> bool) list" where
  "read_shapes fl cfg backends hash_str keys metadata =
     (if backends = [] then ([], [])
      else if hash_str = None then ([], [])
      else
        let values = read_data backends hash_str keys;
            entry = (\<lambda>key.
              case map_of values key of
                None \<Rightarrow> (None, False)
              | Some None \<Rightarrow> (None, False)
              | Some (Some data) \<Rightarrow>
                  if data = [] then (None, False)
                  else case deserialize_entry fl data of
                    None \<Rightarrow> (None, False)
                  | Some payload \<Rightarrow> (Some (apply_metadata metadata payload), keep_in_memory cfg (length data) True))
        in (map (\<lambda>key. (key, fst (entry key))) keys, map (\<lambda>key. (key, snd (entry key))) keys))"

section \<open>An entry is read back as what was kept of the object\<close>

text \<open>
  The values the cache is given: a lone shape whose payload is one the reader recognises or that has
  metadata in front of it, an assembly, or a list of components.
\<close>

definition json_entry_ok :: "(pyfloat \<Rightarrow> string) \<Rightarrow> (string \<Rightarrow> pyfloat option) \<Rightarrow> pyval \<Rightarrow> bool" where
  "json_entry_ok ft fl v \<longleftrightarrow> wire_ok v \<and> (\<forall>w. encode v = Some w \<longrightarrow> json_ok ft fl w)"

fun entry_ok :: "(pyfloat \<Rightarrow> string) \<Rightarrow> (string \<Rightarrow> pyfloat option) \<Rightarrow> pyval \<Rightarrow> bool" where
  "entry_ok ft fl (PDict d) =
     (if payload_key_of d = None then False
      else if dict_has d KEY_BREP then
        (case map_of d KEY_BREP of
           Some (PBytes b) \<Rightarrow>
             (case metadata_of_dict d of
                None \<Rightarrow> (\<exists>p \<in> set BREP_PREFIXES. starts_with b p)
              | Some m \<Rightarrow> json_ok ft fl (PDict m)
                  \<and> (\<forall>t. json_dumps ft (PDict m) = Some t \<longrightarrow> length t < 2 ^ 32))
         | _ \<Rightarrow> False)
      else json_entry_ok ft fl (PDict (strip_dict d)))"
| "entry_ok ft fl (PList xs) = json_entry_ok ft fl (PList (map strip_metadata xs))"
| "entry_ok ft fl v = False"

lemma div_step: "n div (k * 256) * 256 + n div k mod 256 = (n::nat) div k"
  by (simp add: div_mult2_eq)

lemma bytes4_roundtrip:
  assumes "n < 2 ^ 32"
  shows "\<exists>s. to_bytes4 n = Some s \<and> length s = 4 \<and> from_bytes s = n"
proof -
  have "n div 16777216 < 256" using assms by (simp add: less_mult_imp_div_less)
  moreover have "((n div 16777216 * 256 + n div 65536 mod 256) * 256 + n div 256 mod 256) * 256 + n mod 256 = n"
    using div_step [of n 65536] div_step [of n 256] div_step [of n 1] by simp
  ultimately show ?thesis
    using assms by (simp add: to_bytes4_def from_bytes_def)
qed

lemma magic_not_brep:
  "p \<in> set BREP_PREFIXES \<Longrightarrow> starts_with b p \<Longrightarrow> \<not> starts_with b FRAME_MAGIC"
  by (cases b) (auto simp: BREP_PREFIXES_def FRAME_MAGIC_def ZSTD_MAGIC_def)

lemma json_start_not_binary:
  assumes "c = CHR ''{'' \<or> c = CHR ''[''"
  shows "\<not> starts_with (c # t) FRAME_MAGIC" "p \<in> set BREP_PREFIXES \<Longrightarrow> \<not> starts_with (c # t) p"
  using assms by (auto simp: BREP_PREFIXES_def FRAME_MAGIC_def ZSTD_MAGIC_def)

lemma json_entry_roundtrip:
  assumes "json_entry_ok ft fl v" "is_dict v \<or> is_list v"
    and "\<And>d. v = PDict d \<Longrightarrow> payload_key_of d \<noteq> None"
  shows "\<exists>t. map_option utf8 (Option.bind (encode v) (json_dumps ft)) = Some t \<and> deserialize_entry fl t = Some v"
proof -
  obtain w where w: "encode v = Some w" "decode w = Some v"
    using assms(1) encode_decode by (auto simp: json_entry_ok_def)
  then have ok: "json_ok ft fl w" using assms(1) by (simp add: json_entry_ok_def)
  then obtain t where t: "json_dumps ft w = Some t" using json_dumps_total by blast
  have "\<exists>c t'. (c = CHR ''{'' \<or> c = CHR ''['') \<and> t = c # t'"
  proof (cases v)
    case (PDict d)
    then obtain e where "w = PDict e" using w(1) assms(3) by (auto split: if_splits)
    then show ?thesis using t by auto
  next
    case (PList xs)
    then obtain ys where "w = PList ys" using w(1) by auto
    then show ?thesis using t by auto
  qed (use assms(2) in auto)
  then obtain c t' where c: "c = CHR ''{'' \<or> c = CHR ''[''" "t = c # t'" by blast
  have p: "utf8 t = t" "utf8_decode t = Some t"
    using json_dumps_utf8 [OF ok t] json_dumps_printable [OF ok t] printable_ascii utf8_decode_ascii by auto
  have "deserialize_entry fl t = Some v"
    using p(2) json_roundtrip [OF ok t] w(2) json_start_not_binary [OF c(1), where t = t'] c(2)
    by (auto simp: deserialize_entry_def simp del: utf8_decode.simps)
  then show ?thesis using w(1) t p(1) by auto
qed

lemma strip_dict_brep:
  assumes "map_of d KEY_BREP = Some v"
  shows "strip_dict d = (KEY_BREP, v) # (case metadata_of_dict d of None \<Rightarrow> [] | Some m \<Rightarrow> [(KEY_METADATA, PDict m)])"
  using assms by (auto simp: strip_dict_def payload_key_of_def Let_def split: option.splits)

lemma strip_dict_assembly:
  assumes "map_of d KEY_BREP = None" "map_of d KEY_ASSEMBLY = Some v"
  shows "strip_dict d = (KEY_ASSEMBLY, v) # (case metadata_of_dict d of None \<Rightarrow> [] | Some m \<Rightarrow> [(KEY_METADATA, PDict m)])"
  using assms by (auto simp: strip_dict_def payload_key_of_def Let_def split: option.splits)

lemma frame_roundtrip:
  assumes "json_ok ft fl (PDict m)" "json_dumps ft (PDict m) = Some t" "length t < 2 ^ 32"
  shows "\<exists>size. to_bytes4 (length (utf8 t)) = Some size
     \<and> deserialize_entry fl (FRAME_MAGIC @ size @ utf8 t @ b) = Some (PDict [(KEY_BREP, PBytes b), (KEY_METADATA, PDict m)])"
proof -
  have p: "utf8 t = t" "utf8_decode t = Some t"
    using json_dumps_utf8 [OF assms(1,2)] json_dumps_printable [OF assms(1,2)] printable_ascii utf8_decode_ascii
    by auto
  obtain size where s: "to_bytes4 (length t) = Some size" "length size = 4" "from_bytes size = length t"
    using bytes4_roundtrip [OF assms(3)] by blast
  have l: "length FRAME_MAGIC = 4" by (simp add: FRAME_MAGIC_def)
  show ?thesis
    using p s l json_roundtrip [OF assms(1,2)] by (simp add: deserialize_entry_def FRAME_HEADER_def)
qed

lemma serialize_json:
  "lone_brep (without_metadata (strip_metadata v)) = None \<Longrightarrow>
   serialize_entry ft v = map_option utf8 (Option.bind (encode
     (case metadata_of v of None \<Rightarrow> without_metadata (strip_metadata v)
      | Some m \<Rightarrow> set_metadata m (without_metadata (strip_metadata v)))) (json_dumps ft))"
  by (simp add: serialize_entry_def Let_def)

lemma entry_roundtrip:
  assumes "entry_ok ft fl v"
  shows "\<exists>data. serialize_entry ft v = Some data \<and> deserialize_entry fl data = Some (strip_metadata v)"
proof (cases v)
  case (PDict d)
  show ?thesis
  proof (cases "map_of d KEY_BREP")
    case None
    then obtain a where a: "map_of d KEY_ASSEMBLY = Some a" "json_entry_ok ft fl (PDict (strip_dict d))"
      using assms PDict by (auto simp: payload_key_of_def split: if_splits)
    note sd = strip_dict_assembly [OF None a(1)]
    have geo: "without_metadata (strip_metadata v) = PDict [(KEY_ASSEMBLY, a)]"
      by (auto simp: PDict sd dict_restrict_def split: option.splits)
    have cs: "(case metadata_of v of None \<Rightarrow> PDict [(KEY_ASSEMBLY, a)]
        | Some m \<Rightarrow> set_metadata m (PDict [(KEY_ASSEMBLY, a)])) = PDict (strip_dict d)"
      by (auto simp: PDict sd split: option.splits)
    have "lone_brep (without_metadata (strip_metadata v)) = None"
      by (simp add: geo)
    from serialize_json [OF this, of ft] have ser: "serialize_entry ft v = map_option utf8 (Option.bind (encode (PDict (strip_dict d))) (json_dumps ft))"
      by (simp only: geo cs)
    have "payload_key_of (strip_dict d) \<noteq> None"
      by (simp add: sd payload_key_of_def split: option.splits)
    then show ?thesis
      unfolding ser using json_entry_roundtrip [OF a(2)] PDict by auto
  next
    case (Some b')
    then obtain b where b: "b' = PBytes b"
      using assms PDict by (auto simp: payload_key_of_def split: pyval.splits)
    note sd = strip_dict_brep [OF Some]
    have geo: "lone_brep (without_metadata (PDict (strip_dict d))) = Some (PBytes b)"
      by (auto simp: sd b dict_restrict_def split: option.splits)
    show ?thesis
    proof (cases "metadata_of_dict d")
      case None
      then obtain p where "p \<in> set BREP_PREFIXES" "starts_with b p"
        using assms PDict Some b by (auto simp: payload_key_of_def)
      then have "deserialize_entry fl b = Some (PDict [(KEY_BREP, PBytes b)])"
        using magic_not_brep by (auto simp: deserialize_entry_def)
      then show ?thesis
        using geo None PDict by (simp add: serialize_entry_def sd b)
    next
      case m: (Some m)
      then have ok: "json_ok ft fl (PDict m)"
          "\<forall>t. json_dumps ft (PDict m) = Some t \<longrightarrow> length t < 2 ^ 32"
        using assms PDict Some b by (simp_all add: payload_key_of_def del: json_ok.simps json_dumps.simps)
      obtain t where t: "json_dumps ft (PDict m) = Some t" using json_dumps_total [OF ok(1)] by blast
      then have "length t < 2 ^ 32" using ok(2) by blast
      from frame_roundtrip [OF ok(1) t this, of b] obtain size where
        "to_bytes4 (length (utf8 t)) = Some size"
        "deserialize_entry fl (FRAME_MAGIC @ size @ utf8 t @ b) = Some (PDict [(KEY_BREP, PBytes b), (KEY_METADATA, PDict m)])"
        by blast
      then show ?thesis
        using geo m PDict t by (simp add: serialize_entry_def Let_def sd b del: json_dumps.simps)
    qed
  qed
next
  case (PList xs)
  have "serialize_entry ft v = map_option utf8 (Option.bind (encode (strip_metadata v)) (json_dumps ft))"
    using serialize_json [of v ft] PList by simp
  then show ?thesis
    using json_entry_roundtrip [of ft fl "strip_metadata v"] assms PList by auto
qed (use assms in auto)

text \<open>What is stored for a shape is read back as the payload and its metadata, and nothing else: for
  a lone shape (compressed or not, with metadata or without), an assembly tree or a list of
  components, the bytes that go to a tier decode to the object with its outer layer taken off. The
  three forms an entry can have are told apart by their first bytes.\<close>

theorem cache_entry_roundtrip:
  assumes "entry_ok ft fl v"
  shows "\<exists>data. serialize_entry ft v = Some data \<and> deserialize_entry fl data = Some (strip_metadata v)"
  using assms by (rule entry_roundtrip)

theorem cache_entry_roundtrip_witness:
  "\<exists>data. serialize_entry (\<lambda>_. []) (PDict [(''name'', PStr ''cube''), (''brep'', PBytes ''any''),
        (''metadata'', PDict [(''measurements'', PDict [(''solids'', PInt 1)])])]) = Some data
     \<and> deserialize_entry (\<lambda>_. None) data = Some (strip_metadata (PDict [(''name'', PStr ''cube''),
        (''brep'', PBytes ''any''), (''metadata'', PDict [(''measurements'', PDict [(''solids'', PInt 1)])])]))"
proof (rule cache_entry_roundtrip)
  have "json_dumps (\<lambda>_. []) (PDict [(''measurements'', PDict [(''solids'', PInt 1)])])
      = Some (CHR ''{'' # json_string ''measurements'' @ '': '' @ ''{'' @ json_string ''solids'' @ '': 1}}'')"
    by (simp add: show_int_def) code_simp
  moreover have "length (json_string ''measurements'') < 20 \<and> length (json_string ''solids'') < 20"
    by code_simp
  ultimately show "entry_ok (\<lambda>_. []) (\<lambda>_. None) (PDict [(''name'', PStr ''cube''), (''brep'', PBytes ''any''),
        (''metadata'', PDict [(''measurements'', PDict [(''solids'', PInt 1)])])])"
    by (simp add: envelope_keys payload_key_of_def metadata_of_dict_def del: json_dumps.simps)
qed

lemma deserialize_empty: "deserialize_entry fl [] = None"
  by (auto simp: deserialize_entry_def FRAME_MAGIC_def BREP_PREFIXES_def ZSTD_MAGIC_def json_loads_def skip_space_def)

text \<open>C38: A shape written to the cache by one object serves every object of the same content hash under
  its own identity: reading the key back answers the payload that was written with the reader's own
  outer layer around it. It holds when some working tier accepts the entry's size and the tiers that
  do not accept it hold nothing else under the hash.\<close>

theorem shapes_share_geometry:
  assumes "entry_ok ft fl v" and "serialize_entry ft v = Some data"
    and "h \<noteq> []" and "key \<noteq> ''name''"
    and "\<exists>t \<in> set backends. failing t = None \<and> accepts t key (length data)"
    and "\<forall>t \<in> set backends. failing t = None \<and> \<not> accepts t key (length data) \<longrightarrow>
           stored t (entry_name h key) = None \<or> stored t (entry_name h key) = Some data"
  shows "\<exists>tiers kept. write_shapes ft size_of cfg backends (Some h) nm [(key, v)] = Some (tiers, kept)
     \<and> map_of (fst (read_shapes fl cfg' tiers (Some h) [key] (Some outer))) key
       = Some (Some (apply_metadata (Some outer) (strip_metadata v)))"
proof -
  have ne: "backends \<noteq> []" using assms(5) by auto
  let ?w = "write_data backends (Some h) nm [(key, data)]"
  have des: "deserialize_entry fl data = Some (strip_metadata v)"
    using entry_roundtrip [OF assms(1)] assms(2) by auto
  then have data: "data \<noteq> []" using deserialize_empty by fastforce
  have "map_of (snd ?w) key = Some True"
    using write_data_report [OF ne assms(3), of "[(key, data)]" key nm] assms(4,5)
    by (auto simp: offered_def)
  from saved_is_read_back [OF ne assms(3) _ assms(4) _ this assms(6), of "[key]"]
  have rd: "map_of (read_data (fst ?w) (Some h) [key]) key = Some (Some data)" by simp
  have "fst ?w \<noteq> []" using ne assms(3) by (simp add: write_data_def Let_def)
  then have "map_of (fst (read_shapes fl cfg' (fst ?w) (Some h) [key] (Some outer))) key
      = Some (Some (apply_metadata (Some outer) (strip_metadata v)))"
    using rd des data by (simp add: read_shapes_def Let_def)
  moreover have "\<exists>kept. write_shapes ft size_of cfg backends (Some h) nm [(key, v)] = Some (fst ?w, kept)"
    using ne assms(2) by (simp add: write_shapes_def split: prod.splits)
  ultimately show ?thesis by blast
qed

theorem shapes_share_geometry_witness:
  "\<exists>tiers kept. write_shapes (\<lambda>_. []) (\<lambda>_. 0) \<lparr>cache_memory = False, cache_memory_max_entry_size = 0,
        cache_memory_double_cache_max_entry_size = 0\<rparr> [broken_tier, memory_tier 0 Map.empty] (Some ''h'') ''//a:b''
        [(''part'', PDict [(''name'', PStr ''b''), (''brep'', PBytes ''CASCADE Topology V1'')])] = Some (tiers, kept)
     \<and> map_of (fst (read_shapes (\<lambda>_. None) \<lparr>cache_memory = False, cache_memory_max_entry_size = 0,
        cache_memory_double_cache_max_entry_size = 0\<rparr> tiers (Some ''h'') [''part''] (Some [(''name'', PStr ''c'')]))) ''part''
       = Some (Some (apply_metadata (Some [(''name'', PStr ''c'')])
           (strip_metadata (PDict [(''name'', PStr ''b''), (''brep'', PBytes ''CASCADE Topology V1'')]))))"
proof (rule shapes_share_geometry)
  let ?v = "PDict [(''name'', PStr ''b''), (''brep'', PBytes ''CASCADE Topology V1'')]"
  show "entry_ok (\<lambda>_. []) (\<lambda>_. None) ?v"
    by (simp add: envelope_keys payload_key_of_def metadata_of_dict_def BREP_PREFIXES_def ZSTD_MAGIC_def)
  show "serialize_entry (\<lambda>_. []) ?v = Some ''CASCADE Topology V1''"
    by (simp add: serialize_entry_def strip_dict_def dict_restrict_def envelope_keys payload_key_of_def
        metadata_of_dict_def)
qed (auto simp: broken_tier_def memory_tier_def accepts_def)

end
