(* ===== verification/References.thy ===== *)
theory References
  imports Names
begin

text \<open>
  \<open>src/src/partcad/reference.py\<close>, \<open>src/src/partcad/enrich.py\<close>, \<open>src/src/partcad/shape_config_store.py\<close>
  and the references of \<open>src/src/partcad/project.py\<close>: objects that point at objects. A declaration
  is a dictionary; the objects a context knows are a function from fully qualified names. Log lines
  are not modelled; a name that is not text is a \<open>TypeError\<close>.
\<close>

section \<open>References a package writes\<close>

record package_id =
  package_name :: string
  declared_name :: "string option"

definition relocate :: "package_id \<Rightarrow> string \<Rightarrow> string" where
  "relocate p pattern =
     (case declared_name p of
        None \<Rightarrow> pattern
      | Some declared \<Rightarrow>
          if declared = '''' \<or> declared = package_name p then pattern
          else if pattern = declared \<or> starts_with pattern (declared @ ''/'')
            \<or> starts_with pattern (declared @ '':'')
          then package_name p @ drop (length declared) pattern
          else pattern)"

definition project_resolve :: "package_id \<Rightarrow> string \<Rightarrow> exn + (string \<times> string)" where
  "project_resolve p pattern = resolve_resource_path (package_name p) (relocate p pattern)"

definition project_normalize :: "package_id \<Rightarrow> string \<Rightarrow> exn + string" where
  "project_normalize p pattern = normalize_resource_path (package_name p) (relocate p pattern)"

fun text_of :: "pyval option \<Rightarrow> exn + string" where
  "text_of None = Inl KeyError"
| "text_of (Some (PStr s)) = Inr s"
| "text_of (Some _) = Inl TypeError"

definition source_of :: "package_id \<Rightarrow> string \<Rightarrow> pydict \<Rightarrow> exn + string" where
  "source_of source_project target_project_name config =
     (let packaged = dict_has config ''project'' \<or> dict_has config ''package'' in
      case (if dict_has config ''source'' then text_of (map_of config ''source'')
            else case text_of (map_of config ''name'') of
              Inl e \<Rightarrow> Inl e
            | Inr n \<Rightarrow> if \<not> packaged then Inl (Raised ''Exception'') else Inr n) of
        Inl e \<Rightarrow> Inl e
      | Inr source_name \<Rightarrow>
          if packaged then
            (case text_of (if dict_has config ''project'' then map_of config ''project'' else map_of config ''package'') of
               Inl e \<Rightarrow> Inl e
             | Inr package \<Rightarrow>
                 let package = (if package = ''this'' \<or> package = '''' then package_name source_project
                                else if \<not> starts_with package ''//''
                                then get_child_project_path target_project_name package
                                else package)
                 in Inr (package @ '':'' @ source_name))
          else if CHR '':'' \<notin> set source_name then Inr (package_name source_project @ '':'' @ source_name)
          else project_normalize source_project source_name)"

definition split_reference :: "string \<Rightarrow> string \<times> string" where
  "split_reference source = (let (package, _, object_name) = rpartition1 CHR '':'' source in (package, object_name))"

definition REFERENCE_TYPES :: "string list" where
  "REFERENCE_TYPES = [''alias'', ''enrich'', ''compound'']"

definition describe :: "string \<Rightarrow> string \<Rightarrow> string \<Rightarrow> string" where
  "describe config_type target_project_name source =
     (let (package, object_name) = split_reference source in
      if config_type = ''compound'' then ''Compound of '' @ source
      else if package = target_project_name then ''Alias to '' @ object_name
      else ''Alias to '' @ object_name @ '' from '' @ package)"

section \<open>What an object is bought as\<close>

definition STORE_PROPERTIES :: "string list" where
  "STORE_PROPERTIES = [''vendor'', ''sku'', ''count_per_sku'']"

record store_data =
  vendor :: pyval
  sku :: pyval
  count_per_sku :: pyval

definition get_or :: "pydict \<Rightarrow> string \<Rightarrow> pyval \<Rightarrow> pyval" where
  "get_or d k v = (case map_of d k of None \<Rightarrow> v | Some w \<Rightarrow> w)"

definition store_data_of :: "pydict \<Rightarrow> store_data" where
  "store_data_of final_config =
     \<lparr>vendor = get_or final_config ''vendor'' PNone, sku = get_or final_config ''sku'' PNone,
      count_per_sku = get_or final_config ''count_per_sku'' (PInt 1)\<rparr>"

definition is_purchasable :: "store_data \<Rightarrow> bool" where
  "is_purchasable s \<longleftrightarrow> truthy (vendor s) \<and> truthy (sku s)"

text \<open>\<open>declaration.get(name) is not None\<close>\<close>

definition states :: "pydict \<Rightarrow> string \<Rightarrow> bool" where
  "states d k \<longleftrightarrow> map_of d k \<noteq> None \<and> map_of d k \<noteq> Some PNone"

fun resolve_store_properties :: "pydict \<Rightarrow> pyval \<Rightarrow> pydict" where
  "resolve_store_properties source_config (PDict declaration) =
     (let declared = map (\<lambda>name. (name, the (map_of declaration name))) (filter (states declaration) STORE_PROPERTIES) in
      if declared = [] then source_config
      else
        let resolved = (if states declaration ''vendor'' \<or> states declaration ''sku''
                        then dict_restrict (\<lambda>k. k \<notin> set STORE_PROPERTIES) source_config
                        else source_config)
        in dict_update resolved declared)"
| "resolve_store_properties source_config _ = source_config"

section \<open>Enriched objects\<close>

definition ENRICH_ONLY_PROPERTIES :: "string list" where
  "ENRICH_ONLY_PROPERTIES = [''type'', ''path'', ''orig_name'', ''source'', ''project'', ''package'', ''with'']"

definition SOURCE_ONLY_PROPERTIES :: "string list" where
  "SOURCE_ONLY_PROPERTIES = [''aliases'']"

definition INSTANCE_APPLIED_PROPERTIES :: "string list" where
  "INSTANCE_APPLIED_PROPERTIES = [''offset'', ''scale'']"

definition ENRICH_IGNORED_PROPERTIES :: "string list" where
  "ENRICH_IGNORED_PROPERTIES =
     [''path'', ''fileFrom'', ''fileUrl'', ''fileHash'', ''url'', ''dependencies'', ''requirements'',
      ''pythonRequirements'', ''javascriptRequirements'', ''javascriptVersion'', ''chili3dVersion'',
      ''cwd'', ''showObject'', ''method'', ''patch'', ''sketch'', ''depth'', ''axis'', ''ratio'',
      ''circle'', ''rectangle'', ''square'', ''slot'', ''inner'', ''include'', ''exclude'', ''flip-y'',
      ''ignore-visibility'', ''tolerance'', ''use-faces'', ''use-wires'', ''parameters'']"

text \<open>The names the warning lists.\<close>

definition ignored_properties :: "pydict \<Rightarrow> string list" where
  "ignored_properties config = sort (filter (\<lambda>k. k \<in> set ENRICH_IGNORED_PROPERTIES) (map fst config))"

fun copy_own :: "pydict \<Rightarrow> pydict \<Rightarrow> pydict" where
  "copy_own config [] = config"
| "copy_own config ((prop, v) # own) =
     copy_own (if prop \<in> set ENRICH_ONLY_PROPERTIES \<or> prop \<in> set STORE_PROPERTIES then config
               else AList.update prop v config) own"

definition adopt_source_config :: "pydict \<Rightarrow> string \<Rightarrow> pydict \<Rightarrow> string \<Rightarrow> exn + pydict" where
  "adopt_source_config enrich_config obj_name source_final source_name =
     (let source_config = resolve_store_properties source_final (PDict enrich_config);
          config = dict_restrict (\<lambda>k. k \<notin> set INSTANCE_APPLIED_PROPERTIES \<and> k \<notin> set SOURCE_ONLY_PROPERTIES)
                     source_config;
          config = copy_own config enrich_config;
          config = AList.update ''source'' (PStr source_name) config;
          config = AList.update ''source_resolved'' (PStr source_name) config;
          config = AList.update ''orig_name'' (PStr obj_name) config
      in case map_of enrich_config ''name'' of
           None \<Rightarrow> Inl KeyError
         | Some name \<Rightarrow> Inr (AList.update ''name'' name config))"

text \<open>
  \<open>user_parameters\<close> is what the user's configuration sets for an object, by \<open>package:object\<close>;
  \<open>show\<close> is \<open>str\<close> of a value.
\<close>

definition enriched_source_name ::
  "(pyval \<Rightarrow> string) \<Rightarrow> (string \<Rightarrow> pydict) \<Rightarrow> package_id \<Rightarrow> string \<Rightarrow> pydict \<Rightarrow> exn + string" where
  "enriched_source_name show user_parameters source_project target_name config =
     (case source_of source_project target_name config of
        Inl e \<Rightarrow> Inl e
      | Inr source_name \<Rightarrow>
          (case text_of (map_of config ''name'') of
             Inl e \<Rightarrow> Inl e
           | Inr name \<Rightarrow>
               case (case map_of config ''with'' of
                       None \<Rightarrow> Inr []
                     | Some (PDict w) \<Rightarrow> Inr w
                     | Some v \<Rightarrow> if truthy v then Inl TypeError else Inr []) of
                 Inl e \<Rightarrow> Inl e
               | Inr parameters \<Rightarrow>
                   Inr (format_parameterized_name show source_name
                     (dict_update parameters (user_parameters (target_name @ '':'' @ name))))))"

record enrich_factory =
  factory_source :: string
  source_project_name :: string
  source_object_name :: string

definition resolve_source_again ::
  "(pyval \<Rightarrow> string) \<Rightarrow> (string \<Rightarrow> pydict) \<Rightarrow> package_id \<Rightarrow> string \<Rightarrow> enrich_factory \<Rightarrow> pydict
   \<Rightarrow> exn + (enrich_factory \<times> pydict)" where
  "resolve_source_again show user_parameters project target_name factory declaration =
     (case enriched_source_name show user_parameters project target_name declaration of
        Inl e \<Rightarrow> Inl e
      | Inr source \<Rightarrow>
          if source = factory_source factory then Inr (factory, declaration)
          else
            let (package, _, object_name) = partition1 CHR '':'' source
            in Inr (\<lparr>factory_source = source, source_project_name = package, source_object_name = object_name\<rparr>,
                    AList.update ''source_resolved'' (PStr source) declaration))"

section \<open>Chains of references\<close>

text \<open>
  The objects of a context: one that is declared outright, or a reference to another by its fully
  qualified name. A chain that comes back to itself recurses until Python stops it, which is the
  absence of a result.
\<close>

datatype object_decl =
    Plain pydict
  | Reference string pydict

partial_function (option) final_config ::
  "(string \<Rightarrow> object_decl option) \<Rightarrow> string \<Rightarrow> (exn + pydict) option" where
  "final_config objects name =
     (case objects name of
        None \<Rightarrow> Some (Inl (Raised ''Exception''))
      | Some (Plain config) \<Rightarrow> Some (Inr config)
      | Some (Reference source config) \<Rightarrow>
          Option.bind (final_config objects source) (\<lambda>r.
            case r of
              Inl e \<Rightarrow> Some (Inl e)
            | Inr source_final \<Rightarrow> Some (Inr (resolve_store_properties source_final (PDict config)))))"

section \<open>The purchasing record stays whole\<close>

text \<open>What a dictionary states under a key: a key written as nothing states nothing.\<close>

definition stated :: "pydict \<Rightarrow> string \<Rightarrow> pyval option" where
  "stated d k = (if states d k then map_of d k else None)"

lemma map_of_selected:
  "map_of (map (\<lambda>n. (n, f n)) (filter p ns)) k = (if k \<in> set ns \<and> p k then Some (f k) else None)"
  by (induction ns) auto

lemma map_fst_selected: "map fst (map (\<lambda>n. (n, f n)) ns) = ns"
  by (induction ns) auto

lemma resolve_get:
  "map_of (resolve_store_properties src (PDict d)) k =
     (if k \<in> set STORE_PROPERTIES \<and> states d k then map_of d k
      else if k \<in> set STORE_PROPERTIES \<and> (states d ''vendor'' \<or> states d ''sku'') then None
      else map_of src k)"
proof -
  let ?decl = "map (\<lambda>name. (name, the (map_of d name))) (filter (states d) STORE_PROPERTIES)"
  let ?res = "if states d ''vendor'' \<or> states d ''sku''
                        then dict_restrict (\<lambda>k. k \<notin> set STORE_PROPERTIES) src else src"
  have wf: "wf_dict ?decl"
    by (simp only: map_fst_selected) (simp add: STORE_PROPERTIES_def)
  have decl: "map_of ?decl k = (if k \<in> set STORE_PROPERTIES \<and> states d k then Some (the (map_of d k)) else None)"
    by (rule map_of_selected)
  have some: "states d k \<Longrightarrow> Some (the (map_of d k)) = map_of d k" by (auto simp: states_def)
  show ?thesis
  proof (cases "?decl = []")
    case True
    then have "\<forall>k \<in> set STORE_PROPERTIES. \<not> states d k"
      by (simp add: filter_empty_conv)
    moreover have "''vendor'' \<in> set STORE_PROPERTIES" "''sku'' \<in> set STORE_PROPERTIES"
      by (simp_all add: STORE_PROPERTIES_def)
    ultimately show ?thesis using True by auto
  next
    case False
    then have "resolve_store_properties src (PDict d) = dict_update ?res ?decl"
      by (simp only: resolve_store_properties.simps Let_def if_False)
    then have "map_of (resolve_store_properties src (PDict d)) k
        = (case map_of ?decl k of None \<Rightarrow> map_of ?res k | Some v \<Rightarrow> Some v)"
      by (simp only: map_of_dict_update_wf [OF wf] map_add_def)
    also have "\<dots> = (if k \<in> set STORE_PROPERTIES \<and> states d k then map_of d k else map_of ?res k)"
      unfolding decl using some by (cases "map_of d k") (auto simp: states_def)
    also have "map_of ?res k = (if k \<in> set STORE_PROPERTIES \<and> (states d ''vendor'' \<or> states d ''sku'') then None
        else map_of src k)"
      by (cases "states d ''vendor'' \<or> states d ''sku''") simp_all
    finally show ?thesis by simp
  qed
qed

lemma store_keys: "k \<in> set STORE_PROPERTIES \<longleftrightarrow> k = ''vendor'' \<or> k = ''sku'' \<or> k = ''count_per_sku''"
  by (auto simp: STORE_PROPERTIES_def)

lemma resolve_record:
  "(stated (resolve_store_properties src (PDict d)) ''vendor'' = stated d ''vendor''
    \<and> stated (resolve_store_properties src (PDict d)) ''sku'' = stated d ''sku'')
   \<or> (stated (resolve_store_properties src (PDict d)) ''vendor'' = stated src ''vendor''
    \<and> stated (resolve_store_properties src (PDict d)) ''sku'' = stated src ''sku'')"
  unfolding stated_def states_def resolve_get store_keys by (auto simp: states_def)

lemma resolve_other: "k \<notin> set STORE_PROPERTIES \<Longrightarrow> map_of (resolve_store_properties src (PDict d)) k = map_of src k"
  unfolding resolve_get by auto

inductive behind :: "(string \<Rightarrow> object_decl option) \<Rightarrow> string \<Rightarrow> string \<Rightarrow> bool"
  for objects :: "string \<Rightarrow> object_decl option" where
  behind_refl: "behind objects n n"
| behind_step: "objects n = Some (Reference s c) \<Longrightarrow> behind objects s m \<Longrightarrow> behind objects n m"

fun config_of :: "object_decl \<Rightarrow> pydict" where
  "config_of (Plain c) = c"
| "config_of (Reference s c) = c"

lemma final_config_induct:
  assumes "final_config objects n = Some r"
    and miss: "\<And>n. objects n = None \<Longrightarrow> P n (Inl (Raised ''Exception''))"
    and plain: "\<And>n c. objects n = Some (Plain c) \<Longrightarrow> P n (Inr c)"
    and err: "\<And>n s c e. objects n = Some (Reference s c) \<Longrightarrow> P s (Inl e) \<Longrightarrow> P n (Inl e)"
    and ref: "\<And>n s c src. objects n = Some (Reference s c) \<Longrightarrow> P s (Inr src)
      \<Longrightarrow> P n (Inr (resolve_store_properties src (PDict c)))"
  shows "P n r"
proof -
  have "objects = objects \<longrightarrow> P n r"
    using assms(1)
  proof (rule final_config.raw_induct [where P = "\<lambda>objs n r. objs = objects \<longrightarrow> P n r", rotated])
    fix rec objs name r
    assume IH: "\<And>objs name r. rec objs name = Some r \<Longrightarrow> objs = objects \<longrightarrow> P name r"
      and body: "(case objs name of None \<Rightarrow> Some (Inl (Raised ''Exception''))
        | Some (Plain config) \<Rightarrow> Some (Inr config)
        | Some (Reference source config) \<Rightarrow>
            Option.bind (rec objs source) (\<lambda>r. case r of Inl e \<Rightarrow> Some (Inl e)
              | Inr src \<Rightarrow> Some (Inr (resolve_store_properties src (PDict config))))) = Some r"
    show "objs = objects \<longrightarrow> P name r"
    proof
      assume o: "objs = objects"
      show "P name r"
      proof (cases "objects name")
        case None
        then show ?thesis using body o miss by simp
      next
        case (Some d)
        show ?thesis
        proof (cases d)
          case (Plain c)
          then show ?thesis using body o Some plain by auto
        next
          case (Reference s c)
          then obtain q where q: "rec objects s = Some q"
            "r = (case q of Inl e \<Rightarrow> Inl e | Inr src \<Rightarrow> Inr (resolve_store_properties src (PDict c)))"
            using body o Some
            by (cases "rec objects s")
              (auto split: sum.splits simp del: resolve_store_properties.simps)
          then show ?thesis
            using IH [OF q(1)] err ref Some Reference by (cases q) (simp_all del: resolve_store_properties.simps)
        qed
      qed
    qed
  qed
  then show ?thesis by simp
qed

definition one_record :: "(string \<Rightarrow> object_decl option) \<Rightarrow> string \<Rightarrow> pydict \<Rightarrow> bool" where
  "one_record objects n cfg \<longleftrightarrow> (\<exists>m d. behind objects n m \<and> objects m = Some d
      \<and> stated cfg ''vendor'' = stated (config_of d) ''vendor'' \<and> stated cfg ''sku'' = stated (config_of d) ''sku'')"

definition one_origin :: "(string \<Rightarrow> object_decl option) \<Rightarrow> string \<Rightarrow> pydict \<Rightarrow> bool" where
  "one_origin objects n cfg \<longleftrightarrow> (\<exists>m c. behind objects n m \<and> objects m = Some (Plain c)
      \<and> (\<forall>k. k \<notin> set STORE_PROPERTIES \<longrightarrow> map_of cfg k = map_of c k))"

lemma one_record_step:
  assumes "objects n = Some (Reference s c)" "one_record objects s src"
  shows "one_record objects n (resolve_store_properties src (PDict c))"
proof -
  have "behind objects n n" by (rule behind_refl)
  moreover obtain m d where "behind objects s m" "objects m = Some d"
    "stated src ''vendor'' = stated (config_of d) ''vendor''" "stated src ''sku'' = stated (config_of d) ''sku''"
    using assms(2) by (auto simp: one_record_def)
  moreover from this have "behind objects n m" using behind_step [of objects n s c m] assms(1) by simp
  ultimately show ?thesis
    using resolve_record [of src c] assms(1) unfolding one_record_def
    by (metis config_of.simps(2))
qed

lemma one_origin_step:
  assumes "objects n = Some (Reference s c)" "one_origin objects s src"
  shows "one_origin objects n (resolve_store_properties src (PDict c))"
  using assms behind_step resolve_other unfolding one_origin_def by metis

lemma final_config_record:
  assumes "final_config objects n = Some (Inr cfg)"
  shows "one_record objects n cfg \<and> one_origin objects n cfg"
proof -
  let ?P = "\<lambda>n (r :: exn + pydict). case r of Inl e \<Rightarrow> True | Inr cfg \<Rightarrow> one_record objects n cfg \<and> one_origin objects n cfg"
  have "?P n (Inr cfg)"
    using assms
  proof (rule final_config_induct [where P = ?P])
    show "?P n (Inr c)" if "objects n = Some (Plain c)" for n c
      using that behind_refl [of objects n] by (simp add: one_record_def one_origin_def) (metis config_of.simps(1))
  qed (simp_all add: one_record_step one_origin_step del: resolve_store_properties.simps)
  then show ?thesis by simp
qed

text \<open>C19: What an object is ordered as was written in one place. Through any chain of aliases and
  enriches, the vendor and the SKU that the resolved declaration states are the two that one single
  declaration of the chain states together, never the vendor of one and the SKU of another; and
  everything that is not about buying it is what the object at the end of the chain declares.\<close>

theorem reference_keeps_record_whole:
  assumes "final_config objects n = Some (Inr cfg)"
  shows "(\<exists>m d. behind objects n m \<and> objects m = Some d
      \<and> stated cfg ''vendor'' = stated (config_of d) ''vendor'' \<and> stated cfg ''sku'' = stated (config_of d) ''sku'')
    \<and> (\<exists>m c. behind objects n m \<and> objects m = Some (Plain c)
      \<and> (\<forall>k. k \<notin> set STORE_PROPERTIES \<longrightarrow> map_of cfg k = map_of c k))"
  using final_config_record [OF assms] by (simp only: one_record_def one_origin_def)

definition bolt_objects :: "string \<Rightarrow> object_decl option" where
  "bolt_objects = [''//p:bolt'' \<mapsto> Plain [(''vendor'', PStr ''acme''), (''sku'', PStr ''A1''), (''count_per_sku'', PInt 100)],
     ''//p:other'' \<mapsto> Reference ''//p:bolt'' [(''sku'', PStr ''B7'')]]"

theorem reference_keeps_record_whole_witness:
  "\<exists>cfg. final_config bolt_objects ''//p:other'' = Some (Inr cfg)
     \<and> map_of cfg ''vendor'' = None \<and> map_of cfg ''count_per_sku'' = None
     \<and> (\<exists>m d. behind bolt_objects ''//p:other'' m \<and> bolt_objects m = Some d
          \<and> stated cfg ''sku'' = stated (config_of d) ''sku'')"
proof -
  let ?cfg = "resolve_store_properties [(''vendor'', PStr ''acme''), (''sku'', PStr ''A1''), (''count_per_sku'', PInt 100)]
      (PDict [(''sku'', PStr ''B7'')])"
  have o1: "bolt_objects ''//p:bolt'' = Some (Plain [(''vendor'', PStr ''acme''), (''sku'', PStr ''A1''),
      (''count_per_sku'', PInt 100)])"
    and o2: "bolt_objects ''//p:other'' = Some (Reference ''//p:bolt'' [(''sku'', PStr ''B7'')])"
    by (simp_all add: bolt_objects_def)
  have "final_config bolt_objects ''//p:bolt'' = Some (Inr [(''vendor'', PStr ''acme''), (''sku'', PStr ''A1''),
      (''count_per_sku'', PInt 100)])"
    by (subst final_config.simps) (simp add: o1)
  then have f: "final_config bolt_objects ''//p:other'' = Some (Inr ?cfg)"
    by (subst final_config.simps) (simp add: o2 del: resolve_store_properties.simps)
  have "map_of ?cfg ''vendor'' = None \<and> map_of ?cfg ''count_per_sku'' = None"
    by (simp only: resolve_get) (simp add: states_def STORE_PROPERTIES_def)
  then show ?thesis using f reference_keeps_record_whole [OF f] by blast
qed

lemma final_config_total:
  fixes rank :: "string \<Rightarrow> nat"
  assumes "\<forall>n s c. objects n = Some (Reference s c) \<longrightarrow> rank s < rank n"
  shows "\<exists>r. final_config objects n = Some r"
proof (induction "rank n" arbitrary: n rule: less_induct)
  case less
  show ?case
  proof (cases "objects n")
    case None
    then show ?thesis by (subst final_config.simps) simp
  next
    case (Some d)
    show ?thesis
    proof (cases d)
      case (Plain c)
      then show ?thesis using Some by (subst final_config.simps) simp
    next
      case (Reference s c)
      then obtain r where "final_config objects s = Some r"
        using less assms Some by blast
      then show ?thesis using Some Reference by (subst final_config.simps) (cases r; simp)
    qed
  qed
qed

lemma final_config_self: "objects n = Some (Reference n c) \<Longrightarrow> final_config objects n = None"
proof (rule ccontr)
  assume o: "objects n = Some (Reference n c)" and "final_config objects n \<noteq> None"
  then obtain r where "final_config objects n = Some r" by blast
  then have "n \<noteq> n"
    by (rule final_config_induct [where P = "\<lambda>m r. m \<noteq> n"]) (use o in auto)
  then show False by simp
qed

text \<open>Resolving a reference ends. When no chain of references comes back to itself, every name
  resolves, to the declaration of an object or to the error that a source is not found; and an
  object that names itself never does.\<close>

theorem reference_resolution_ends:
  fixes rank :: "string \<Rightarrow> nat"
  shows "((\<forall>n s c. objects n = Some (Reference s c) \<longrightarrow> rank s < rank n) \<longrightarrow> (\<exists>r. final_config objects n = Some r))
    \<and> (objects m = Some (Reference m c) \<longrightarrow> final_config objects m = None)"
  using final_config_total [of objects rank n] final_config_self [of objects m c] by blast

theorem reference_resolution_ends_witness:
  "\<exists>r. final_config bolt_objects ''//p:other'' = Some r"
proof -
  let ?rank = "\<lambda>n. if n = ''//p:other'' then 1 else 0 :: nat"
  have "\<forall>n s c. bolt_objects n = Some (Reference s c) \<longrightarrow> ?rank s < ?rank n"
    by (auto simp: bolt_objects_def split: if_splits)
  with reference_resolution_ends [where rank = ?rank and objects = bolt_objects and n = "''//p:other''"]
  show ?thesis by (metis (no_types, lifting))
qed

section \<open>What an enrich reports\<close>

lemma copy_own_get:
  "wf_dict own \<Longrightarrow> map_of (copy_own config own) k =
     (if k \<in> set ENRICH_ONLY_PROPERTIES \<or> k \<in> set STORE_PROPERTIES then map_of config k
      else case map_of own k of None \<Rightarrow> map_of config k | Some v \<Rightarrow> Some v)"
proof (induction config own rule: copy_own.induct)
  case (1 config)
  then show ?case by simp
next
  case (2 config pr v own)
  then have "map_of own pr = None" by (simp add: map_of_eq_None_iff)
  with 2 show ?case by (cases "k = pr") (auto split: option.split)
qed

text \<open>What an enrich reports under a key that is not one it writes itself.\<close>

definition reported :: "pydict \<Rightarrow> pydict \<Rightarrow> string \<Rightarrow> pyval option" where
  "reported enrich source k =
     (if k \<in> set STORE_PROPERTIES then map_of (resolve_store_properties source (PDict enrich)) k
      else if k \<notin> set ENRICH_ONLY_PROPERTIES \<and> dict_has enrich k then map_of enrich k
      else if k \<in> set INSTANCE_APPLIED_PROPERTIES \<or> k \<in> set SOURCE_ONLY_PROPERTIES then None
      else map_of source k)"

text \<open>What an enriched object reports. Its own name and the reference it resolved to; what it is
  ordered as, by the rule for references; every other property as the enrich itself declares it; and
  what it does not declare as the object it points at does, except that object's placement, scale
  and aliases, and except the properties that only say which object is enriched, which are never the
  enrich's own.\<close>

theorem enrich_reports:
  assumes "wf_dict enrich" and "map_of enrich ''name'' = Some name"
  shows "\<exists>cfg. adopt_source_config enrich obj_name source source_name = Inr cfg
     \<and> map_of cfg ''name'' = Some name \<and> map_of cfg ''orig_name'' = Some (PStr obj_name)
     \<and> map_of cfg ''source'' = Some (PStr source_name) \<and> map_of cfg ''source_resolved'' = Some (PStr source_name)
     \<and> (\<forall>k. k \<notin> {''name'', ''orig_name'', ''source'', ''source_resolved''} \<longrightarrow> map_of cfg k = reported enrich source k)"
proof -
  let ?res = "resolve_store_properties source (PDict enrich)"
  let ?kept = "dict_restrict (\<lambda>k. k \<notin> set INSTANCE_APPLIED_PROPERTIES \<and> k \<notin> set SOURCE_ONLY_PROPERTIES) ?res"
  let ?own = "copy_own ?kept enrich"
  let ?cfg = "AList.update ''name'' name (AList.update ''orig_name'' (PStr obj_name)
      (AList.update ''source_resolved'' (PStr source_name) (AList.update ''source'' (PStr source_name) ?own)))"
  have r: "adopt_source_config enrich obj_name source source_name = Inr ?cfg"
    using assms(2) by (simp add: adopt_source_config_def Let_def del: resolve_store_properties.simps)
  have own: "map_of ?own k = (if k \<in> set STORE_PROPERTIES then map_of ?res k
           else if k \<notin> set ENRICH_ONLY_PROPERTIES \<and> dict_has enrich k then map_of enrich k
           else if k \<in> set INSTANCE_APPLIED_PROPERTIES \<or> k \<in> set SOURCE_ONLY_PROPERTIES then None
           else map_of source k)" for k
  proof (cases "k \<in> set STORE_PROPERTIES")
    case True
    then have "k \<notin> set INSTANCE_APPLIED_PROPERTIES" "k \<notin> set SOURCE_ONLY_PROPERTIES"
      by (auto simp: STORE_PROPERTIES_def INSTANCE_APPLIED_PROPERTIES_def SOURCE_ONLY_PROPERTIES_def)
    then show ?thesis using True by (simp add: copy_own_get [OF assms(1)] del: resolve_store_properties.simps)
  next
    case False
    then have "map_of ?res k = map_of source k" by (rule resolve_other)
    then show ?thesis
      using False
      by (auto simp: copy_own_get [OF assms(1)] split: option.split simp del: resolve_store_properties.simps)
  qed
  show ?thesis
    by (intro exI [of _ ?cfg] conjI r allI impI)
      (simp_all add: own reported_def del: resolve_store_properties.simps)
qed

theorem enrich_reports_witness:
  "\<exists>cfg. adopt_source_config [(''name'', PStr ''big''), (''type'', PStr ''enrich''), (''desc'', PStr ''mine'')] ''big''
       [(''type'', PStr ''step''), (''desc'', PStr ''theirs''), (''offset'', PInt 1)] ''//p:cube;size=3'' = Inr cfg
     \<and> map_of cfg ''desc'' = Some (PStr ''mine'') \<and> map_of cfg ''type'' = Some (PStr ''step'')
     \<and> map_of cfg ''offset'' = None"
proof -
  have "wf_dict [(''name'', PStr ''big''), (''type'', PStr ''enrich''), (''desc'', PStr ''mine'')]" by simp
  from enrich_reports [OF this, of "PStr ''big''" "''big''"
      "[(''type'', PStr ''step''), (''desc'', PStr ''theirs''), (''offset'', PInt 1)]" "''//p:cube;size=3''"]
  obtain cfg where cfg: "adopt_source_config [(''name'', PStr ''big''), (''type'', PStr ''enrich''), (''desc'', PStr ''mine'')]
      ''big'' [(''type'', PStr ''step''), (''desc'', PStr ''theirs''), (''offset'', PInt 1)] ''//p:cube;size=3'' = Inr cfg"
    and get: "\<forall>k. k \<notin> {''name'', ''orig_name'', ''source'', ''source_resolved''} \<longrightarrow> map_of cfg k
      = reported [(''name'', PStr ''big''), (''type'', PStr ''enrich''), (''desc'', PStr ''mine'')]
          [(''type'', PStr ''step''), (''desc'', PStr ''theirs''), (''offset'', PInt 1)] k"
    by fastforce
  have sets: "''desc'' \<notin> set STORE_PROPERTIES" "''type'' \<notin> set STORE_PROPERTIES" "''offset'' \<notin> set STORE_PROPERTIES"
    "''desc'' \<notin> set ENRICH_ONLY_PROPERTIES" "''type'' \<in> set ENRICH_ONLY_PROPERTIES"
    "''offset'' \<in> set INSTANCE_APPLIED_PROPERTIES" "''type'' \<notin> set INSTANCE_APPLIED_PROPERTIES"
    "''type'' \<notin> set SOURCE_ONLY_PROPERTIES"
    by (simp_all add: STORE_PROPERTIES_def ENRICH_ONLY_PROPERTIES_def INSTANCE_APPLIED_PROPERTIES_def
        SOURCE_ONLY_PROPERTIES_def)
  have "map_of cfg ''desc'' = Some (PStr ''mine'')" by (subst get [rule_format]) (simp_all add: sets reported_def)
  moreover have "map_of cfg ''type'' = Some (PStr ''step'')" by (subst get [rule_format]) (simp_all add: sets reported_def)
  moreover have "map_of cfg ''offset'' = None" by (subst get [rule_format]) (simp_all add: sets reported_def)
  ultimately show ?thesis using cfg by blast
qed

section \<open>Vendored packages\<close>

text \<open>A package that is loaded at another place than it declares finds itself there. A reference
  to one of its own objects by its declared name, or to an object of a package below it, resolves to
  the same object under the place it is loaded at, and a reference to any package that is neither is
  left as it is.\<close>

theorem vendored_package_uses_itself:
  assumes "declared_name p = Some declared" and "declared \<noteq> []"
  shows "relocate p (declared @ '':'' @ item) = package_name p @ '':'' @ item
     \<and> relocate p (declared @ ''/'' @ path) = package_name p @ ''/'' @ path
     \<and> relocate p declared = package_name p
     \<and> (\<forall>pattern. pattern \<noteq> declared \<and> \<not> starts_with pattern (declared @ ''/'')
          \<and> \<not> starts_with pattern (declared @ '':'') \<longrightarrow> relocate p pattern = pattern)
     \<and> (\<forall>pattern. relocate (p\<lparr>declared_name := Some (package_name p)\<rparr>) pattern = pattern)"
  using assms by (auto simp: relocate_def)

theorem vendored_package_uses_itself_witness:
  "relocate \<lparr>package_name = ''//app/vendor/gears'', declared_name = Some ''//pub/gears''\<rparr> ''//pub/gears:spur''
     = ''//app/vendor/gears:spur''
   \<and> relocate \<lparr>package_name = ''//app/vendor/gears'', declared_name = Some ''//pub/gears''\<rparr> ''//pub/gears2:spur''
     = ''//pub/gears2:spur''"
  using vendored_package_uses_itself [of "\<lparr>package_name = ''//app/vendor/gears'', declared_name = Some ''//pub/gears''\<rparr>"
      "''//pub/gears''" "''spur''"]
  by simp

section \<open>The instance an enrich asks for\<close>

lemma format_show:
  "format_parameterized_name show base ps = format_parameterized_name id base (map (\<lambda>(k, v). (k, show v)) ps)"
  by (simp add: format_parameterized_name_def case_prod_beta comp_def)

lemma map_of_show: "map_of (map (\<lambda>(k, v). (k, f v)) ps) k = map_option f (map_of ps k)"
  by (induction ps) auto

lemma map_of_sorted: "wf_dict ps \<Longrightarrow> map_of (sorted_params ps) = map_of ps"
  by (metis map_of_sorted_params)

text \<open>Which instance an enrich resolves to. The name it produces carries, for a source named
  without parameters of its own, exactly the parameters of \<open>with\<close> with the user's configuration laid
  over them, key by key, and reads back as that base and those values.\<close>

theorem enrich_instance_parameters:
  assumes "source_of p target config = Inr base" and "map_of config ''name'' = Some (PStr name)"
    and "map_of config ''with'' = Some (PDict w)" and "wf_dict w"
    and "wf_dict (user (target @ '':'' @ name))"
    and "CHR '';'' \<notin> set base"
    and "readable_params (map (\<lambda>(k, v). (k, show v)) (dict_update w (user (target @ '':'' @ name))))"
  shows "\<exists>instance_name. enriched_source_name show user p target config = Inr instance_name
     \<and> fst (parse_parameterized_name instance_name) = base
     \<and> (\<forall>k. map_of (snd (parse_parameterized_name instance_name)) k =
          map_option show (case map_of (user (target @ '':'' @ name)) k of Some v \<Rightarrow> Some v | None \<Rightarrow> map_of w k))"
proof -
  let ?u = "user (target @ '':'' @ name)"
  let ?ps = "map (\<lambda>(k, v). (k, show v)) (dict_update w ?u)"
  have wf: "wf_dict ?ps" using assms(7) by (simp add: readable_params_def)
  have "enriched_source_name show user p target config = Inr (format_parameterized_name id base ?ps)"
    using assms(1-3) format_show [of "show" base "dict_update w ?u"] by (simp add: enriched_source_name_def)
  moreover have "parse_parameterized_name (format_parameterized_name id base ?ps) = (base, sorted_params ?ps)"
    using names.roundtrip [of "(base, ?ps)"] assms(6,7) by simp
  ultimately show ?thesis
    using map_of_sorted [OF wf] map_of_dict_update_wf [OF assms(5), of w]
    by (simp add: map_of_show map_add_def)
qed

theorem enrich_instance_parameters_witness:
  "\<exists>instance_name. enriched_source_name (py_str (\<lambda>_. [])) (\<lambda>_. [(''width'', PStr ''9'')])
       \<lparr>package_name = ''//p'', declared_name = None\<rparr> ''//p''
       [(''name'', PStr ''big''), (''source'', PStr ''cube''), (''with'', PDict [(''width'', PStr ''20'')])]
       = Inr instance_name
     \<and> map_of (snd (parse_parameterized_name instance_name)) ''width'' = Some ''9''"
proof -
  let ?p = "\<lparr>package_name = ''//p'', declared_name = None\<rparr>"
  let ?c = "[(''name'', PStr ''big''), (''source'', PStr ''cube''), (''with'', PDict [(''width'', PStr ''20'')])]"
  have "source_of ?p ''//p'' ?c = Inr ''//p:cube''" by (simp add: source_of_def Let_def)
  moreover have "readable_params (map (\<lambda>(k, v). (k, py_str (\<lambda>_. []) v))
      (dict_update [(''width'', PStr ''20'')] [(''width'', PStr ''9'')]))"
    by (simp add: readable_params_def readable_param_def)
  ultimately show ?thesis
    using enrich_instance_parameters [of ?p "''//p''" ?c "''//p:cube''" "''big''" "[(''width'', PStr ''20'')]"
        "\<lambda>_. [(''width'', PStr ''9'')]" "py_str (\<lambda>_. [])"]
    by auto
qed

end
