(* ===== verification/Regex.thy ===== *)
theory Regex
  imports Prelude
begin

text \<open>
  Python's \<open>re\<close>: a backtracking matcher over a text and a position, first match wins. A greedy or
  lazy repetition tries its alternatives in Python's order; a repetition that consumed nothing stops.
  Groups are recorded as the text they last matched. \<open>finditer\<close> goes on behind each match.
\<close>

datatype rx =
    Eps
  | Chr "char \<Rightarrow> bool"
  | Seq rx rx
  | Alt rx rx
  | Many rx
  | ManyLazy rx
  | Group nat rx
  | WordBoundary

type_synonym groups = "(nat \<times> string) list"

type_synonym rx_state = "nat \<times> groups"

type_synonym rx_cont = "rx_state \<Rightarrow> rx_state option"

primrec repeat :: "nat \<Rightarrow> bool \<Rightarrow> (rx_state \<Rightarrow> rx_cont \<Rightarrow> rx_state option) \<Rightarrow> rx_state \<Rightarrow> rx_cont \<Rightarrow> rx_state option" where
  "repeat 0 greedy m st k = k st"
| "repeat (Suc n) greedy m st k =
     (let again = m st (\<lambda>st'. if fst st' = fst st then None else repeat n greedy m st' k) in
      if greedy then (case again of Some r \<Rightarrow> Some r | None \<Rightarrow> k st)
      else (case k st of Some r \<Rightarrow> Some r | None \<Rightarrow> m st (\<lambda>st'. if fst st' = fst st then None else repeat n greedy m st' k)))"

definition word_char :: "char \<Rightarrow> bool" where
  "word_char c \<longleftrightarrow> (let n = code c in (48 \<le> n \<and> n \<le> 57) \<or> (65 \<le> n \<and> n \<le> 90) \<or> (97 \<le> n \<and> n \<le> 122) \<or> n = 95)"

definition at_boundary :: "string \<Rightarrow> nat \<Rightarrow> bool" where
  "at_boundary s i \<longleftrightarrow> ((0 < i \<and> i \<le> length s \<and> word_char (s ! (i - 1))) \<noteq> (i < length s \<and> word_char (s ! i)))"

primrec rx_match :: "rx \<Rightarrow> string \<Rightarrow> rx_state \<Rightarrow> rx_cont \<Rightarrow> rx_state option" where
  "rx_match Eps s st k = k st"
| "rx_match (Chr p) s st k =
     (if fst st < length s \<and> p (s ! fst st) then k (Suc (fst st), snd st) else None)"
| "rx_match (Seq a b) s st k = rx_match a s st (\<lambda>st'. rx_match b s st' k)"
| "rx_match (Alt a b) s st k = (case rx_match a s st k of Some r \<Rightarrow> Some r | None \<Rightarrow> rx_match b s st k)"
| "rx_match (Many a) s st k = repeat (length s) True (rx_match a s) st k"
| "rx_match (ManyLazy a) s st k = repeat (length s) False (rx_match a s) st k"
| "rx_match (Group g a) s st k =
     rx_match a s st (\<lambda>st'. k (fst st', AList.update g (take (fst st' - fst st) (drop (fst st) s)) (snd st')))"
| "rx_match WordBoundary s st k = (if at_boundary s (fst st) then k st else None)"

text \<open>\<open>pattern.match(s, i)\<close>: where the match that starts at \<open>i\<close> ends, and its groups.\<close>

definition rx_at :: "rx \<Rightarrow> string \<Rightarrow> nat \<Rightarrow> rx_state option" where
  "rx_at r s i = rx_match r s (i, []) Some"

text \<open>\<open>pattern.finditer(s)\<close> from a position: end and groups of every match. The fuel is the rest.\<close>

fun rx_finditer :: "rx \<Rightarrow> string \<Rightarrow> nat \<Rightarrow> nat \<Rightarrow> rx_state list" where
  "rx_finditer r s 0 i = []"
| "rx_finditer r s (Suc n) i =
     (if i > length s then []
      else case rx_at r s i of
        None \<Rightarrow> rx_finditer r s n (Suc i)
      | Some (j, g) \<Rightarrow> (j, g) # rx_finditer r s n (if j > i then j else Suc i))"

definition finditer :: "rx \<Rightarrow> string \<Rightarrow> rx_state list" where
  "finditer r s = rx_finditer r s (Suc (length s)) 0"

definition group_of :: "groups \<Rightarrow> nat \<Rightarrow> string" where
  "group_of g n = (case map_of g n of None \<Rightarrow> [] | Some s \<Rightarrow> s)"

section \<open>Building blocks\<close>

definition lit :: "string \<Rightarrow> rx" where
  "lit s = foldr (\<lambda>c r. Seq (Chr (\<lambda>x. x = c)) r) s Eps"

fun seqs :: "rx list \<Rightarrow> rx" where
  "seqs [] = Eps"
| "seqs (r # rs) = Seq r (seqs rs)"

definition opt :: "rx \<Rightarrow> rx" where
  "opt r = Alt r Eps"

definition many1 :: "rx \<Rightarrow> rx" where
  "many1 r = Seq r (Many r)"

text \<open>\<open>\s\<close>, \<open>\d\<close> and \<open>[A-Z]\<close> of a bytes pattern.\<close>

definition space_byte :: "char \<Rightarrow> bool" where
  "space_byte c \<longleftrightarrow> (let n = code c in (9 \<le> n \<and> n \<le> 13) \<or> n = 32)"

definition upper_char :: "char \<Rightarrow> bool" where
  "upper_char c \<longleftrightarrow> 65 \<le> code c \<and> code c \<le> 90"

definition spaces :: rx where
  "spaces = Many (Chr space_byte)"

definition digits :: "nat \<Rightarrow> rx" where
  "digits g = Group g (many1 (Chr is_digit))"

section \<open>A match lies in the text\<close>

text \<open>The position of a state, and that a matcher only moves forward, inside the text.\<close>

definition forward :: "string \<Rightarrow> (rx_state \<Rightarrow> rx_cont \<Rightarrow> rx_state option) \<Rightarrow> bool" where
  "forward s m \<longleftrightarrow> (\<forall>st k r. fst st \<le> length s \<longrightarrow> m st k = Some r \<longrightarrow>
     (\<exists>st'. fst st \<le> fst st' \<and> fst st' \<le> length s \<and> k st' = Some r))"

lemma forwardD:
  "forward s m \<Longrightarrow> fst st \<le> length s \<Longrightarrow> m st k = Some r \<Longrightarrow>
   \<exists>st'. fst st \<le> fst st' \<and> fst st' \<le> length s \<and> k st' = Some r"
  unfolding forward_def by blast

lemma forwardI:
  "(\<And>st k r. fst st \<le> length s \<Longrightarrow> m st k = Some r \<Longrightarrow> \<exists>st'. fst st \<le> fst st' \<and> fst st' \<le> length s \<and> k st' = Some r)
   \<Longrightarrow> forward s m"
  unfolding forward_def by blast

lemma forward_repeat:
  assumes "forward s m"
  shows "forward s (repeat n greedy m)"
proof (induction n)
  case 0
  show ?case by (rule forwardI) (metis repeat.simps(1) order_refl)
next
  case (Suc n)
  show ?case
  proof (rule forwardI)
    fix st k r
    assume le: "fst st \<le> length s" and run: "repeat (Suc n) greedy m st k = Some r"
    let ?k = "\<lambda>st'. if fst st' = fst st then None else repeat n greedy m st' k"
    have again: "\<exists>st'. fst st \<le> fst st' \<and> fst st' \<le> length s \<and> k st' = Some r" if "m st ?k = Some r"
    proof -
      from forwardD [OF assms le that] obtain st1 where
        1: "fst st \<le> fst st1" "fst st1 \<le> length s" "repeat n greedy m st1 k = Some r"
        by (auto split: if_splits)
      from forwardD [OF Suc 1(2,3)] show ?thesis using 1(1) by (meson le_trans)
    qed
    from run have "m st ?k = Some r \<or> k st = Some r"
      unfolding repeat.simps Let_def by (simp split: if_splits option.splits)
    then show "\<exists>st'. fst st \<le> fst st' \<and> fst st' \<le> length s \<and> k st' = Some r"
      using again le by blast
  qed
qed

lemma forward_match: "forward s (rx_match r s)"
proof (induction r)
  case (Seq a b)
  show ?case
  proof (rule forwardI)
    fix st k q
    assume le: "fst st \<le> length s" and run: "rx_match (Seq a b) s st k = Some q"
    from forwardD [OF Seq(1) le] run obtain st1 where
      1: "fst st \<le> fst st1" "fst st1 \<le> length s" "rx_match b s st1 k = Some q" by fastforce
    from forwardD [OF Seq(2) 1(2,3)] show "\<exists>st'. fst st \<le> fst st' \<and> fst st' \<le> length s \<and> k st' = Some q"
      using 1(1) by (meson le_trans)
  qed
next
  case (Alt a b)
  show ?case
  proof (rule forwardI)
    fix st k q
    assume le: "fst st \<le> length s" and run: "rx_match (Alt a b) s st k = Some q"
    then have "rx_match a s st k = Some q \<or> rx_match b s st k = Some q"
      by (auto split: option.splits)
    then show "\<exists>st'. fst st \<le> fst st' \<and> fst st' \<le> length s \<and> k st' = Some q"
      using forwardD [OF Alt(1) le] forwardD [OF Alt(2) le] by blast
  qed
next
  case (Many r)
  have "rx_match (Many r) s = repeat (length s) True (rx_match r s)"
    by (intro ext) simp
  then show ?case using forward_repeat [OF Many] by simp
next
  case (ManyLazy r)
  have "rx_match (ManyLazy r) s = repeat (length s) False (rx_match r s)"
    by (intro ext) simp
  then show ?case using forward_repeat [OF ManyLazy] by simp
next
  case (Group g r)
  show ?case
  proof (rule forwardI)
    fix st k q
    assume le: "fst st \<le> length s" and run: "rx_match (Group g r) s st k = Some q"
    from forwardD [OF Group le] run obtain st1 where
      1: "fst st \<le> fst st1" "fst st1 \<le> length s"
        "k (fst st1, AList.update g (take (fst st1 - fst st) (drop (fst st) s)) (snd st1)) = Some q"
      by fastforce
    then show "\<exists>st'. fst st \<le> fst st' \<and> fst st' \<le> length s \<and> k st' = Some q"
      by (metis fst_conv)
  qed
next
  case Eps
  show ?case by (rule forwardI) (metis rx_match.simps(1) order_refl)
next
  case WordBoundary
  show ?case by (rule forwardI) (metis rx_match.simps(8) order_refl option.distinct(1))
next
  case (Chr p)
  show ?case
  proof (rule forwardI)
    fix st k q
    assume "fst st \<le> length s" "rx_match (Chr p) s st k = Some q"
    then show "\<exists>st'. fst st \<le> fst st' \<and> fst st' \<le> length s \<and> k st' = Some q"
      by (intro exI [of _ "(Suc (fst st), snd st)"]) (auto split: if_splits)
  qed
qed

lemma rx_at_range: "rx_at r s i = Some (j, g) \<Longrightarrow> i \<le> length s \<Longrightarrow> i \<le> j \<and> j \<le> length s"
  using forwardD [OF forward_match [of s r], of "(i, [])" Some "(j, g)"] by (auto simp: rx_at_def)

end
