(* ===== verification/StepTolerance.thy ===== *)
theory StepTolerance
  imports Regex
begin

text \<open>
  \<open>src/src/partcad/tolerance_inspect.py\<close>: the manufacturing tolerance a STEP file states, read as a
  scan over blocks of whole records.

  A position in a buffer is modelled by what follows it, with the offset carried along. The number a
  text denotes is the parameter \<open>fl\<close> (\<open>None\<close> is a \<open>ValueError\<close>); arithmetic is exact, where the source
  rounds to binary64. A file is the list of chunks it is read in.
\<close>

section \<open>Searching\<close>

text \<open>\<open>s.find(p)\<close>\<close>

fun find_in :: "string \<Rightarrow> string \<Rightarrow> nat option" where
  "find_in p [] = (if p = [] then Some 0 else None)"
| "find_in p (x # xs) = (if prefix p (x # xs) then Some 0 else map_option Suc (find_in p xs))"

lemma find_in_nonempty: "find_in (c # p) s = Some n \<Longrightarrow> s \<noteq> []"
  by auto

text \<open>Whether a position found comes before another that may not have been.\<close>

fun before :: "nat \<Rightarrow> nat option \<Rightarrow> bool" where
  "before n None = True"
| "before n (Some m) = (n < m)"

text \<open>
  \<open>_end_of_string\<close>, on what follows the opening quote: how much of it the string takes, its closing
  quote included.
\<close>

function end_of_string :: "string \<Rightarrow> nat option" where
  "end_of_string s =
     (case find_in [CHR 0x27] s of
        None \<Rightarrow> None
      | Some q \<Rightarrow>
          (case drop (Suc q) s of
             [] \<Rightarrow> None
           | c # rest \<Rightarrow>
               if c = CHR 0x27 then map_option (\<lambda>n. q + 2 + n) (end_of_string rest) else Some (Suc q)))"
  by pat_completeness auto
termination
proof (relation "measure length")
  fix s q c rest
  assume "drop (Suc q) s = c # rest"
  then have "length (c # rest) \<le> length s" by (metis length_drop diff_le_self)
  then show "(rest, s) \<in> measure length" by simp
qed simp

declare end_of_string.simps [simp del]

lemma end_of_string_le: "end_of_string s = Some n \<Longrightarrow> n < length s"
proof (induction s arbitrary: n rule: end_of_string.induct)
  case (1 s)
  show ?case
  proof (cases "find_in [CHR 0x27] s")
    case None
    then show ?thesis using 1(2) by (subst (asm) end_of_string.simps) simp
  next
    case (Some q)
    then show ?thesis
    proof (cases "drop (Suc q) s")
      case Nil
      then show ?thesis using Some 1(2) by (subst (asm) end_of_string.simps) simp
    next
      case (Cons c rest)
      then have "length (drop (Suc q) s) = Suc (length rest)" by simp
      then have len: "length s = q + 2 + length rest" by simp
      show ?thesis
      proof (cases "c = CHR 0x27")
        case True
        then obtain m where "end_of_string rest = Some m" "n = q + 2 + m"
          using Some Cons 1(2) by (subst (asm) end_of_string.simps) auto
        then show ?thesis using 1(1) [OF Some Cons True] len by simp
      next
        case False
        then show ?thesis using Some Cons 1(2) len by (subst (asm) end_of_string.simps) auto
      qed
    qed
  qed
qed

section \<open>Cutting a buffer at a record\<close>

text \<open>\<open>_boundary\<close>: \<open>s\<close> is the buffer from offset \<open>i\<close> on, \<open>mark\<close> the cut so far.\<close>

function boundary_loop :: "nat \<Rightarrow> nat \<Rightarrow> string \<Rightarrow> nat" where
  "boundary_loop i mark s =
     (if s = [] then mark
      else case find_in '';'' s of
        None \<Rightarrow> mark
      | Some semicolon \<Rightarrow>
          let quote = find_in [CHR 0x27] s; comment = find_in ''/*'' s in
          if (\<exists>q. quote = Some q \<and> q < semicolon \<and> before q comment) then
            (let q = the quote in
             case end_of_string (drop (Suc q) s) of
               None \<Rightarrow> mark
             | Some n \<Rightarrow> boundary_loop (i + (Suc q + n)) mark (drop (Suc q + n) s))
          else if (\<exists>c. comment = Some c \<and> c < semicolon) then
            (let c = the comment in
             case find_in ''*/'' (drop (c + 2) s) of
               None \<Rightarrow> mark
             | Some e \<Rightarrow> boundary_loop (i + (c + 2 + e + 2)) mark (drop (c + 2 + e + 2) s))
          else boundary_loop (i + Suc semicolon) (i + Suc semicolon) (drop (Suc semicolon) s))"
  by pat_completeness auto
termination
  by (relation "measure (\<lambda>(i, mark, s). length s)") auto

declare boundary_loop.simps [simp del]

lemma ex_some_case: "(\<exists>q. x = Some q \<and> P q) = (case x of None \<Rightarrow> False | Some q \<Rightarrow> P q)"
  by (auto split: option.split)

lemmas boundary_loop_code [code] = boundary_loop.simps [unfolded Let_def ex_some_case]

definition boundary :: "string \<Rightarrow> nat" where
  "boundary buffer = boundary_loop 0 0 buffer"

text \<open>\<open>_without_comments\<close>: what is kept of \<open>s\<close>, from a position outside of comments and strings.\<close>

function kept_text :: "string \<Rightarrow> string" where
  "kept_text s =
     (case find_in ''/*'' s of
        None \<Rightarrow> s
      | Some c \<Rightarrow>
          (case find_in [CHR 0x27] s of
             Some q \<Rightarrow>
               if q < c then
                 (case end_of_string (drop (Suc q) s) of
                    None \<Rightarrow> s
                  | Some n \<Rightarrow> take (Suc q + n) s @ kept_text (drop (Suc q + n) s))
               else take c s @ (case find_in ''*/'' (drop (c + 2) s) of
                                  None \<Rightarrow> []
                                | Some e \<Rightarrow> kept_text (drop (c + 2 + e + 2) s))
           | None \<Rightarrow> take c s @ (case find_in ''*/'' (drop (c + 2) s) of
                                  None \<Rightarrow> []
                                | Some e \<Rightarrow> kept_text (drop (c + 2 + e + 2) s))))"
  by pat_completeness auto
termination
  by (relation "measure length") (auto dest!: find_in_nonempty)

declare kept_text.simps [simp del]

definition without_comments :: "string \<Rightarrow> string" where
  "without_comments block = (if find_in ''/*'' block = None then block else kept_text block)"

section \<open>What a block says\<close>

definition KEYWORDS :: "string list" where
  "KEYWORDS = [''TOLERANCE'', ''MEASURE_WITH_UNIT'', ''SI_UNIT'', ''CONVERSION_BASED_UNIT'']"

text \<open>A Part 21 string: \<open>'[^']*(?:''[^']*)*'\<close>\<close>

definition STRING :: rx where
  "STRING = (let q = Chr (\<lambda>c. c = CHR 0x27); nq = Many (Chr (\<lambda>c. c \<noteq> CHR 0x27))
     in seqs [q, nq, Many (seqs [q, q, nq]), q])"

definition record_start :: rx where
  "record_start = seqs [lit ''#'', digits 1, spaces, lit ''='', spaces, ManyLazy (Chr (\<lambda>c. c \<noteq> CHR '';''))]"

definition MEASURE :: rx where
  "MEASURE = seqs [record_start, lit ''MEASURE_WITH_UNIT'', spaces, lit ''('', spaces, opt (lit ''POSITIVE_''),
     lit ''LENGTH_MEASURE'', spaces, lit ''('', spaces,
     Group 2 (ManyLazy (Chr (\<lambda>c. c \<noteq> CHR ''('' \<and> c \<noteq> CHR '')'' \<and> c \<noteq> CHR '',''))), spaces, lit '')'',
     spaces, lit '','', spaces, lit ''#'', digits 3]"

definition SI_UNIT :: rx where
  "SI_UNIT = seqs [record_start, WordBoundary, lit ''SI_UNIT'', spaces, lit ''('', spaces,
     Group 2 (Alt (lit ''$'') (seqs [lit ''.'', many1 (Chr upper_char), lit ''.''])), spaces, lit '','', spaces,
     lit ''.'', Group 3 (many1 (Chr upper_char)), lit ''.'', spaces, lit '')'']"

definition CONVERSION_UNIT :: rx where
  "CONVERSION_UNIT = seqs [record_start, WordBoundary, lit ''CONVERSION_BASED_UNIT'', spaces, lit ''('', spaces,
     STRING, spaces, lit '','', spaces, lit ''#'', digits 2]"

definition TOLERANCE_VALUE :: rx where
  "TOLERANCE_VALUE = seqs [WordBoundary, lit ''TOLERANCE_VALUE'', spaces, lit ''('', spaces, lit ''#'', digits 1,
     spaces, lit '','', spaces, lit ''#'', digits 2, spaces, lit '')'']"

definition GEOMETRIC_TOLERANCE :: rx where
  "GEOMETRIC_TOLERANCE = seqs [WordBoundary, Chr upper_char,
     Many (Chr (\<lambda>c. upper_char c \<or> is_digit c \<or> c = CHR ''_'')), lit ''TOLERANCE'', spaces, lit ''('']"

definition SI_PREFIXES :: "(string option \<times> rat) list" where
  "SI_PREFIXES = [(None, 1), (Some ''KILO'', 1000), (Some ''HECTO'', 100), (Some ''DECA'', 10), (Some ''DECI'', 1 / 10),
     (Some ''CENTI'', 1 / 100), (Some ''MILLI'', 1 / 1000), (Some ''MICRO'', 1 / 1000000), (Some ''NANO'', 1 / 1000000000)]"

definition MM_PER_METRE :: rat where
  "MM_PER_METRE = 1000"

definition EQUAL_WITHIN :: rat where
  "EQUAL_WITHIN = 1 / 1000000000"

datatype unit_def =
    Scale rat
  | MeasuredBy nat

record step_facts =
  measures :: "(nat \<times> (rat \<times> nat)) list"
  units :: "(nat \<times> unit_def) list"
  tolerance_values :: "(nat \<times> nat) list"
  magnitudes :: "nat list"

definition no_facts :: step_facts where
  "no_facts = \<lparr>measures = [], units = [], tolerance_values = [], magnitudes = []\<rparr>"

definition strip_bytes :: "string \<Rightarrow> string" where
  "strip_bytes s = rev (dropWhile space_byte (rev (dropWhile space_byte s)))"

definition is_text_or_omitted :: "string \<Rightarrow> bool" where
  "is_text_or_omitted argument \<longleftrightarrow> argument = ''$'' \<or> starts_with argument [CHR 0x27]"

text \<open>
  \<open>_arguments\<close>: \<open>i\<close> is the position, \<open>b\<close> where the current argument begins; the fuel is what is left of
  the block, every turn goes at least one byte on. \<open>depth\<close> is an integer, as in the source.
\<close>

fun arguments_loop :: "string \<Rightarrow> nat \<Rightarrow> nat \<Rightarrow> nat \<Rightarrow> int \<Rightarrow> string list \<Rightarrow> string list option" where
  "arguments_loop block 0 i b depth args = None"
| "arguments_loop block (Suc n) i b depth args =
     (if i \<ge> length block then None
      else
        let char = block ! i in
        if char = CHR 0x27 then
          (case rx_at STRING block i of
             None \<Rightarrow> None
           | Some (j, _) \<Rightarrow> arguments_loop block n j b depth args)
        else if char = CHR ''('' then arguments_loop block n (Suc i) b (depth + 1) args
        else if char = CHR '')'' then
          (if depth - 1 = 0 then Some (args @ [strip_bytes (take (i - b) (drop b block))])
           else arguments_loop block n (Suc i) b (depth - 1) args)
        else if char = CHR '','' \<and> depth = 1 then
          arguments_loop block n (Suc i) (Suc i) depth (args @ [strip_bytes (take (i - b) (drop b block))])
        else arguments_loop block n (Suc i) b depth args)"

definition arguments_of :: "string \<Rightarrow> nat \<Rightarrow> string list option" where
  "arguments_of block start = arguments_loop block (Suc (length block)) start (start + 1) 0 []"

definition reference_number :: "string \<Rightarrow> nat option" where
  "reference_number argument =
     (case rx_at (seqs [lit ''#'', digits 1]) argument 0 of
        None \<Rightarrow> None
      | Some (j, g) \<Rightarrow> if j = length argument then Some (nat_of_digits (group_of g 1)) else None)"

definition geometric_magnitude :: "string \<Rightarrow> nat \<Rightarrow> nat option" where
  "geometric_magnitude block start =
     (case arguments_of block start of
        None \<Rightarrow> None
      | Some args \<Rightarrow>
          if length args < 4 then None
          else if \<not> is_text_or_omitted (args ! 0) \<or> \<not> is_text_or_omitted (args ! 1) then None
          else reference_number (args ! 2))"

definition number_group :: "groups \<Rightarrow> nat \<Rightarrow> nat" where
  "number_group g n = nat_of_digits (group_of g n)"

definition add_measure :: "(string \<Rightarrow> rat option) \<Rightarrow> groups \<Rightarrow> step_facts \<Rightarrow> step_facts" where
  "add_measure fl g f =
     (case fl (group_of g 2) of
        None \<Rightarrow> f
      | Some v \<Rightarrow> f\<lparr>measures := AList.update (number_group g 1) (v, number_group g 3) (measures f)\<rparr>)"

definition add_si_unit :: "groups \<Rightarrow> step_facts \<Rightarrow> step_facts" where
  "add_si_unit g f =
     (if group_of g 3 \<noteq> ''METRE'' then f
      else
        let p = group_of g 2; dot = (\<lambda>c. c = CHR ''.'');
            p = (if p = ''$'' then None else Some (rev (dropWhile dot (rev (dropWhile dot p)))))
        in case map_of SI_PREFIXES p of
             None \<Rightarrow> f
           | Some factor \<Rightarrow> f\<lparr>units := AList.update (number_group g 1) (Scale (factor * MM_PER_METRE)) (units f)\<rparr>)"

definition read_block :: "(string \<Rightarrow> rat option) \<Rightarrow> string \<Rightarrow> step_facts \<Rightarrow> step_facts" where
  "read_block fl block f =
     (if \<not> (\<exists>k \<in> set KEYWORDS. contains_sub block k) then f
      else
        let block = without_comments block;
            f = foldl (\<lambda>f (_, g). add_measure fl g f) f (finditer MEASURE block);
            f = foldl (\<lambda>f (_, g). add_si_unit g f) f (finditer SI_UNIT block);
            f = foldl (\<lambda>f (_, g). f\<lparr>units := AList.update (number_group g 1) (MeasuredBy (number_group g 2)) (units f)\<rparr>)
                  f (finditer CONVERSION_UNIT block);
            f = f\<lparr>tolerance_values := tolerance_values f @
                  map (\<lambda>(_, g). (number_group g 1, number_group g 2)) (finditer TOLERANCE_VALUE block)\<rparr>
        in f\<lparr>magnitudes := magnitudes f @
               List.map_filter (\<lambda>(j, _). geometric_magnitude block (j - 1)) (finditer GEOMETRIC_TOLERANCE block)\<rparr>)"

section \<open>Lengths\<close>

text \<open>\<open>_unit_mm\<close> with \<open>_length_mm\<close> written into it; \<open>seen\<close> holds the units the chain went through.\<close>

function unit_mm :: "step_facts \<Rightarrow> nat \<Rightarrow> nat list \<Rightarrow> rat option" where
  "unit_mm f unit_id seen =
     (case map_of (units f) unit_id of
        None \<Rightarrow> None
      | Some (Scale v) \<Rightarrow> Some v
      | Some (MeasuredBy m) \<Rightarrow>
          if unit_id \<in> set seen then None
          else case map_of (measures f) m of
            None \<Rightarrow> None
          | Some (v, u) \<Rightarrow> map_option (\<lambda>scale. v * scale) (unit_mm f u (unit_id # seen)))"
  by pat_completeness auto
termination
proof (relation "measure (\<lambda>(f, u, seen). card (set (map fst (units f)) - set seen))")
  fix f :: step_facts and unit_id seen d m x v u
  assume "map_of (units f) unit_id = Some d" and n: "unit_id \<notin> set seen"
  then have "unit_id \<in> set (map fst (units f))" by (metis image_set map_of_eq_None_iff option.distinct(1))
  then have "set (map fst (units f)) - set (unit_id # seen) \<subset> set (map fst (units f)) - set seen"
    using n by auto
  then show "((f, u, unit_id # seen), (f, unit_id, seen)) \<in> measure (\<lambda>(f, u, seen). card (set (map fst (units f)) - set seen))"
    by (simp add: psubset_card_mono)
qed simp

declare unit_mm.simps [simp del]

definition length_mm :: "step_facts \<Rightarrow> nat \<Rightarrow> rat option" where
  "length_mm f measure_id =
     (case map_of (measures f) measure_id of
        None \<Rightarrow> None
      | Some (v, unit_id) \<Rightarrow> map_option (\<lambda>scale. v * scale) (unit_mm f unit_id []))"

definition reduce :: "rat list \<Rightarrow> pyfloat option" where
  "reduce xs =
     (if xs = [] then None
      else
        let smallest = Min (set xs); largest = Max (set xs) in
        if largest - smallest \<le> EQUAL_WITHIN * max 1 \<bar>largest\<bar> then Some (Fin largest) else Some NaN)"

section \<open>The file\<close>

text \<open>The loop of \<open>of_step_file\<close>: the blocks it hands to \<open>_read_block\<close>, one after another.\<close>

fun blocks_of :: "string \<Rightarrow> string list \<Rightarrow> string list" where
  "blocks_of buffer [] = (if buffer = [] then [] else [buffer])"
| "blocks_of buffer (chunk # chunks) =
     (let buffer = buffer @ chunk; mark = boundary buffer in
      if mark = 0 then blocks_of buffer chunks
      else take mark buffer # blocks_of (drop mark buffer) chunks)"

definition of_step_file :: "(string \<Rightarrow> rat option) \<Rightarrow> string list \<Rightarrow> pyfloat option" where
  "of_step_file fl chunks =
     (let f = foldl (\<lambda>f block. read_block fl block f) no_facts (blocks_of [] chunks);
          pairs = List.map_filter (\<lambda>(lower, upper).
            case (length_mm f lower, length_mm f upper) of
              (Some low, Some high) \<Rightarrow> Some (max \<bar>low\<bar> \<bar>high\<bar>)
            | _ \<Rightarrow> None) (tolerance_values f);
          singles = List.map_filter (\<lambda>m. map_option abs (length_mm f m)) (magnitudes f)
      in reduce (pairs @ singles))"

text \<open>
  \<open>of_file\<close>: the one reader there is is for \<open>step\<close>. \<open>fs\<close> says what a path holds, \<open>None\<close> when it is no
  file; a file that cannot be read is \<open>Some None\<close>.
\<close>

definition of_file ::
  "(string \<Rightarrow> rat option) \<Rightarrow> (string \<Rightarrow> string list option option) \<Rightarrow> string option \<Rightarrow> string option \<Rightarrow> pyfloat option" where
  "of_file fl fs file_format path =
     (if file_format \<noteq> Some ''step'' \<or> path = None \<or> path = Some [] then None
      else case fs (the path) of
        None \<Rightarrow> None
      | Some None \<Rightarrow> None
      | Some (Some chunks) \<Rightarrow> of_step_file fl chunks)"

section \<open>Where records end\<close>

text \<open>
  The reference: a reader that takes the text one byte at a time and knows whether it is in a string
  or in a comment. The opening of a comment takes two bytes, and so does its end.
\<close>

datatype lex = Outside | Slash | InString | InComment | StarInComment

fun lex_step :: "lex \<Rightarrow> char \<Rightarrow> lex" where
  "lex_step InString c = (if c = CHR 0x27 then Outside else InString)"
| "lex_step InComment c = (if c = CHR ''*'' then StarInComment else InComment)"
| "lex_step StarInComment c =
     (if c = CHR ''/'' then Outside else if c = CHR ''*'' then StarInComment else InComment)"
| "lex_step Slash c =
     (if c = CHR ''*'' then InComment else if c = CHR 0x27 then InString
      else if c = CHR ''/'' then Slash else Outside)"
| "lex_step Outside c =
     (if c = CHR 0x27 then InString else if c = CHR ''/'' then Slash else Outside)"

definition ends_record :: "lex \<Rightarrow> char \<Rightarrow> bool" where
  "ends_record st c \<longleftrightarrow> (st = Outside \<or> st = Slash) \<and> c = CHR '';''"

type_synonym scanner = "lex \<times> nat \<times> nat"

fun scan_step :: "scanner \<Rightarrow> char \<Rightarrow> scanner" where
  "scan_step (st, i, mark) c = (lex_step st c, Suc i, if ends_record st c then Suc i else mark)"

definition scan :: "scanner \<Rightarrow> string \<Rightarrow> scanner" where
  "scan z s = foldl scan_step z s"

text \<open>Just behind the last byte of the text that ends a record, \<open>0\<close> when no record ends in it.\<close>

definition last_record_end :: "string \<Rightarrow> nat" where
  "last_record_end s = snd (snd (scan (Outside, 0, 0) s))"

lemma scan_append [simp]: "scan z (a @ b) = scan (scan z a) b"
  by (simp add: scan_def)

lemma scan_Nil [simp]: "scan z [] = z"
  by (simp add: scan_def)

lemma scan_one [simp]: "scan z [c] = scan_step z c"
  by (simp add: scan_def)

lemma scan_take_Suc: "n < length s \<Longrightarrow> scan z (take (Suc n) s) = scan_step (scan z (take n s)) (s ! n)"
  by (simp add: take_Suc_conv_app_nth)

lemma scan_split: "n \<le> length s \<Longrightarrow> scan z s = scan (scan z (take n s)) (drop n s)"
  by (metis append_take_drop_id scan_append)

lemma scan_no_semicolon: "CHR '';'' \<notin> set s \<Longrightarrow> snd (snd (scan (st, i, mark) s)) = mark"
proof (induction s arbitrary: st i)
  case Nil
  then show ?case by simp
next
  case (Cons c s)
  then show ?case
    using Cons.IH [of "lex_step st c" "Suc i"] by (auto simp: scan_def ends_record_def)
qed

lemma find_in_some:
  "find_in p s = Some n \<Longrightarrow> n + length p \<le> length s \<and> prefix p (drop n s) \<and> (\<forall>m < n. \<not> prefix p (drop m s))"
proof (induction s arbitrary: n)
  case Nil
  then show ?case by (auto split: if_splits)
next
  case (Cons x xs)
  show ?case
  proof (cases "prefix p (x # xs)")
    case True
    then show ?thesis using Cons.prems by (auto dest: prefix_length_le)
  next
    case False
    then obtain m where m: "find_in p xs = Some m" "n = Suc m" using Cons.prems by auto
    then show ?thesis using Cons.IH [OF m(1)] False by (auto simp: less_Suc_eq_0_disj)
  qed
qed

lemma find_in_none: "find_in p s = None \<Longrightarrow> \<not> prefix p (drop m s)"
proof (induction s arbitrary: m)
  case Nil
  then show ?case by (auto split: if_splits)
next
  case (Cons x xs)
  then show ?case by (cases m) (auto split: if_splits)
qed

lemma prefix_one: "n < length s \<Longrightarrow> prefix [c] (drop n s) \<longleftrightarrow> s ! n = c"
  by (auto simp: Cons_nth_drop_Suc [symmetric])

lemma prefix_two: "Suc n < length s \<Longrightarrow> prefix [c, d] (drop n s) \<longleftrightarrow> s ! n = c \<and> s ! Suc n = d"
  by (auto simp: Cons_nth_drop_Suc [symmetric])

lemma find_char_none: "find_in [c] s = None \<Longrightarrow> c \<notin> set s"
  using find_in_none [of "[c]" s] prefix_one [of _ s c] by (metis in_set_conv_nth)

lemma find_char_some:
  assumes "find_in [c] s = Some n"
  shows "n < length s \<and> s ! n = c \<and> (\<forall>m < n. s ! m \<noteq> c)"
proof -
  note f = find_in_some [OF assms]
  then have n: "n < length s" by simp
  then show ?thesis using f prefix_one [of _ s c] by auto
qed

text \<open>Outside, as long as no quote, semicolon or comment opening comes.\<close>

lemma scan_outside:
  assumes "n \<le> length s" "\<forall>m < n. s ! m \<noteq> CHR 0x27 \<and> s ! m \<noteq> CHR '';'' \<and> \<not> prefix ''/*'' (drop m s)"
  shows "scan (Outside, i, mark) (take n s) = (if 0 < n \<and> s ! (n - 1) = CHR ''/'' then Slash else Outside, i + n, mark)"
  using assms
proof (induction n)
  case 0
  then show ?case by simp
next
  case (Suc n)
  have IH: "scan (Outside, i, mark) (take n s)
      = (if 0 < n \<and> s ! (n - 1) = CHR ''/'' then Slash else Outside, i + n, mark)"
    using Suc by simp
  have n: "n < length s" "s ! n \<noteq> CHR 0x27" "s ! n \<noteq> CHR '';''" using Suc.prems by auto
  have "\<not> (0 < n \<and> s ! (n - 1) = CHR ''/'' \<and> s ! n = CHR ''*'')"
  proof
    assume a: "0 < n \<and> s ! (n - 1) = CHR ''/'' \<and> s ! n = CHR ''*''"
    then have "prefix ''/*'' (drop (n - 1) s)" using n prefix_two [of "n - 1" s] by simp
    moreover have "n - 1 < Suc n" by simp
    ultimately show False using Suc.prems(2) by blast
  qed
  moreover have step: "scan (Outside, i, mark) (take (Suc n) s)
      = scan_step (if 0 < n \<and> s ! (n - 1) = CHR ''/'' then Slash else Outside, i + n, mark) (s ! n)"
    by (simp only: scan_take_Suc [OF n(1)] IH)
  ultimately show ?case
    using n(2,3) by (cases "0 < n \<and> s ! (n - 1) = CHR ''/''") (simp_all add: ends_record_def)
qed

lemma scan_string: "CHR 0x27 \<notin> set s \<Longrightarrow> scan (InString, i, mark) s = (InString, i + length s, mark)"
proof (induction s arbitrary: i)
  case Nil
  then show ?case by simp
next
  case (Cons c s)
  then show ?case using Cons.IH [of "Suc i"] by (auto simp: scan_def ends_record_def)
qed

lemma take_no_char: "\<forall>m < n. s ! m \<noteq> c \<Longrightarrow> n \<le> length s \<Longrightarrow> c \<notin> set (take n s)"
  by (auto simp: in_set_conv_nth)

lemma scan_to_quote:
  assumes "find_in [CHR 0x27] s = Some q"
  shows "scan (InString, i, mark) (take (Suc q) s) = (Outside, i + Suc q, mark)"
proof -
  note q = find_char_some [OF assms]
  have "scan (InString, i, mark) (take q s) = (InString, i + q, mark)"
    using scan_string [OF take_no_char, of q s] q by simp
  then show ?thesis using q by (simp add: scan_take_Suc ends_record_def)
qed

lemma scan_end_of_string:
  "(case end_of_string s of
      Some n \<Rightarrow> scan (InString, i, mark) (take n s) = (Outside, i + n, mark)
    | None \<Rightarrow> snd (snd (scan (InString, i, mark) s)) = mark)"
proof (induction s arbitrary: i rule: end_of_string.induct)
  case (1 s)
  show ?case
  proof (cases "find_in [CHR 0x27] s")
    case None
    then have "end_of_string s = None" by (subst end_of_string.simps) simp
    then show ?thesis using scan_string [OF find_char_none [OF None]] by simp
  next
    case (Some q)
    note q = find_char_some [OF Some]
    note to = scan_to_quote [OF Some, of i mark]
    have whole: "scan (InString, i, mark) s = scan (Outside, i + Suc q, mark) (drop (Suc q) s)"
      using scan_split [of "Suc q" s] q to by simp
    show ?thesis
    proof (cases "drop (Suc q) s")
      case Nil
      then have "end_of_string s = None" using Some by (subst end_of_string.simps) simp
      then show ?thesis using whole Nil by simp
    next
      case (Cons c rest)
      then have "length (drop (Suc q) s) = Suc (length rest)" by simp
      then have len: "length s = q + 2 + length rest" by simp
      show ?thesis
      proof (cases "c = CHR 0x27")
        case False
        then have "end_of_string s = Some (Suc q)" using Some Cons by (subst end_of_string.simps) simp
        then show ?thesis using to by simp
      next
        case True
        have opens: "scan (Outside, j, mark) [c] = (InString, Suc j, mark)" for j
          using True by (simp add: ends_record_def)
        have rest: "scan (Outside, i + Suc q, mark) (c # r) = scan (InString, i + q + 2, mark) r" for r
          using scan_append [of "(Outside, i + Suc q, mark)" "[c]" r] opens [of "i + Suc q"] by simp
        note IH = 1 [OF Some Cons True, of "i + q + 2"]
        show ?thesis
        proof (cases "end_of_string rest")
          case None
          then have "end_of_string s = None" using Some Cons True by (subst end_of_string.simps) simp
          then show ?thesis using IH None whole Cons rest by simp
        next
          case (Some n)
          then have eos: "end_of_string s = Some (q + 2 + n)"
            using \<open>find_in [CHR 0x27] s = Some q\<close> Cons True by (subst end_of_string.simps) simp
          have "take (q + 2 + n) s = take (Suc q) s @ c # take n rest"
            using Cons take_add [of "Suc q" "Suc n" s] by simp
          then show ?thesis using IH Some to rest eos by simp
        qed
      qed
    qed
  qed
qed

lemma scan_comment:
  assumes "n \<le> length s" "\<forall>m < n. \<not> prefix ''*/'' (drop m s)"
  shows "scan (InComment, i, mark) (take n s)
    = (if 0 < n \<and> s ! (n - 1) = CHR ''*'' then StarInComment else InComment, i + n, mark)"
  using assms
proof (induction n)
  case 0
  then show ?case by simp
next
  case (Suc n)
  have IH: "scan (InComment, i, mark) (take n s)
      = (if 0 < n \<and> s ! (n - 1) = CHR ''*'' then StarInComment else InComment, i + n, mark)"
    using Suc by simp
  have n: "n < length s" using Suc.prems by auto
  have "\<not> (0 < n \<and> s ! (n - 1) = CHR ''*'' \<and> s ! n = CHR ''/'')"
  proof
    assume a: "0 < n \<and> s ! (n - 1) = CHR ''*'' \<and> s ! n = CHR ''/''"
    then have "prefix ''*/'' (drop (n - 1) s)" using n prefix_two [of "n - 1" s] by simp
    moreover have "n - 1 < Suc n" by simp
    ultimately show False using Suc.prems(2) by blast
  qed
  moreover have step: "scan (InComment, i, mark) (take (Suc n) s)
      = scan_step (if 0 < n \<and> s ! (n - 1) = CHR ''*'' then StarInComment else InComment, i + n, mark) (s ! n)"
    by (simp only: scan_take_Suc [OF n] IH)
  ultimately show ?case
    by (cases "0 < n \<and> s ! (n - 1) = CHR ''*''") (simp_all add: ends_record_def)
qed

lemma scan_comment_end:
  "(case find_in ''*/'' s of
      Some e \<Rightarrow> scan (InComment, i, mark) (take (e + 2) s) = (Outside, i + e + 2, mark)
    | None \<Rightarrow> snd (snd (scan (InComment, i, mark) s)) = mark)"
proof (cases "find_in ''*/'' s")
  case None
  then show ?thesis using scan_comment [of "length s" s i mark] find_in_none [OF None] by simp
next
  case (Some e)
  note e = find_in_some [OF Some]
  then have c: "s ! e = CHR ''*''" "s ! Suc e = CHR ''/''" "Suc e < length s"
    using prefix_two [of e s] by simp_all
  have "scan (InComment, i, mark) (take e s)
      = (if 0 < e \<and> s ! (e - 1) = CHR ''*'' then StarInComment else InComment, i + e, mark)"
    using scan_comment [of e s i mark] e by simp
  then have "scan (InComment, i, mark) (take (Suc (Suc e)) s) = (Outside, i + e + 2, mark)"
    using c by (simp add: scan_take_Suc ends_record_def)
  then show ?thesis using Some by simp
qed

lemma no_opening_before:
  assumes "find_in p s = x" "before n x" "m < n" "n \<le> length s"
  shows "\<not> prefix p (drop m s)"
  using assms find_in_none [of p s m] find_in_some [of p s] by (cases x) auto

lemma no_char_before:
  assumes "find_in [c] s = x" "before n x" "m < n" "n \<le> length s"
  shows "s ! m \<noteq> c"
  using no_opening_before [OF assms] prefix_one [of m s c] assms(3,4) by simp

lemma boundary_string_step:
  assumes q: "find_in [CHR 0x27] s = Some q" and sc: "find_in '';'' s = Some k" "q < k"
    and co: "before q (find_in ''/*'' s)"
  shows "scan (Outside, i, mark) (take (Suc q) s) = (InString, i + Suc q, mark)"
proof -
  note fq = find_char_some [OF q] and fk = find_char_some [OF sc(1)]
  have "scan (Outside, i, mark) (take q s)
      = (if 0 < q \<and> s ! (q - 1) = CHR ''/'' then Slash else Outside, i + q, mark)"
    using fq fk sc(2) no_opening_before [OF refl co] by (intro scan_outside) auto
  then show ?thesis using fq by (simp add: scan_take_Suc ends_record_def)
qed

lemma boundary_comment_step:
  assumes c: "find_in ''/*'' s = Some c" and sc: "find_in '';'' s = Some k" "c < k"
    and q: "\<not> (\<exists>q. find_in [CHR 0x27] s = Some q \<and> q < k \<and> before q (find_in ''/*'' s))"
  shows "scan (Outside, i, mark) (take (c + 2) s) = (InComment, i + (c + 2), mark)"
proof -
  note fc = find_in_some [OF c] and fk = find_char_some [OF sc(1)]
  have cs: "s ! c = CHR ''/''" "s ! Suc c = CHR ''*''" "Suc c < length s"
    using fc prefix_two [of c s] by simp_all
  have qu: "before c (find_in [CHR 0x27] s)"
  proof (cases "find_in [CHR 0x27] s")
    case None
    then show ?thesis by simp
  next
    case (Some q')
    then have "\<not> q' < c" using q sc(2) c by auto
    moreover have "q' \<noteq> c" using find_char_some [OF Some] cs(1) by auto
    ultimately show ?thesis using Some by simp
  qed
  then have "scan (Outside, i, mark) (take c s)
      = (if 0 < c \<and> s ! (c - 1) = CHR ''/'' then Slash else Outside, i + c, mark)"
    using fc fk sc(2) no_char_before [OF refl qu] by (intro scan_outside) auto
  then have "scan (Outside, i, mark) (take (Suc (Suc c)) s) = (InComment, i + Suc (Suc c), mark)"
    using cs by (simp add: scan_take_Suc ends_record_def)
  then show ?thesis by simp
qed

lemma boundary_record_step:
  assumes sc: "find_in '';'' s = Some k"
    and q: "\<not> (\<exists>q. find_in [CHR 0x27] s = Some q \<and> q < k \<and> before q (find_in ''/*'' s))"
    and c: "\<not> (\<exists>c. find_in ''/*'' s = Some c \<and> c < k)"
  shows "scan (Outside, i, mark) (take (Suc k) s) = (Outside, i + Suc k, i + Suc k)"
proof -
  note fk = find_char_some [OF sc]
  have "k \<noteq> c'" if "find_in ''/*'' s = Some c'" for c'
  proof
    note f = find_in_some [OF that]
    assume "k = c'"
    then have "s ! k = CHR ''/''" using f prefix_two [of c' s] by simp
    then show False using fk by simp
  qed
  then have co: "before k (find_in ''/*'' s)"
    using c by (cases "find_in ''/*'' s") auto
  have "k \<noteq> q'" if "find_in [CHR 0x27] s = Some q'" for q'
    using find_char_some [OF that] fk by auto
  moreover have "\<not> q' < k" if "find_in [CHR 0x27] s = Some q'" for q'
    using q co that by (cases "find_in ''/*'' s") auto
  ultimately have qu: "before k (find_in [CHR 0x27] s)"
    by (cases "find_in [CHR 0x27] s") (auto simp: nat_neq_iff)
  have "scan (Outside, i, mark) (take k s)
      = (if 0 < k \<and> s ! (k - 1) = CHR ''/'' then Slash else Outside, i + k, mark)"
    using fk no_opening_before [OF refl co] no_char_before [OF refl qu] by (intro scan_outside) auto
  then show ?thesis using fk by (simp add: scan_take_Suc ends_record_def)
qed

lemma boundary_loop_scan: "boundary_loop i mark s = snd (snd (scan (Outside, i, mark) s))"
proof (induction "length s" arbitrary: i mark s rule: less_induct)
  case less
  let ?sc = "find_in '';'' s" and ?q = "find_in [CHR 0x27] s" and ?c = "find_in ''/*'' s"
  show ?case
  proof (cases ?sc)
    case None
    then show ?thesis
      using scan_no_semicolon [OF find_char_none [OF None]] by (subst boundary_loop.simps) simp
  next
    case (Some k)
    note fk = find_char_some [OF Some]
    then have ne: "s \<noteq> []" by auto
    show ?thesis
    proof (cases "\<exists>q. ?q = Some q \<and> q < k \<and> before q ?c")
      case True
      then obtain q where q: "?q = Some q" "q < k" "before q ?c" by blast
      note st = boundary_string_step [OF q(1) Some q(2,3), of i mark]
      have split: "scan (Outside, i, mark) s = scan (InString, i + Suc q, mark) (drop (Suc q) s)"
        using scan_split [of "Suc q" s] find_char_some [OF q(1)] st by simp
      note es = scan_end_of_string [where s = "drop (Suc q) s" and i = "i + Suc q" and mark = mark]
      show ?thesis
      proof (cases "end_of_string (drop (Suc q) s)")
        case None
        then show ?thesis using Some q ne es split by (subst boundary_loop.simps) simp
      next
        case n: (Some n)
        have "boundary_loop i mark s = boundary_loop (i + (Suc q + n)) mark (drop (Suc q + n) s)"
          using Some q ne n by (subst boundary_loop.simps) simp
        also have "\<dots> = snd (snd (scan (Outside, i + (Suc q + n), mark) (drop (Suc q + n) s)))"
          using ne by (intro less) simp
        also have "scan (Outside, i + (Suc q + n), mark) (drop (Suc q + n) s) = scan (Outside, i, mark) s"
          using split es n scan_split [of n "drop (Suc q) s" "(InString, i + Suc q, mark)"]
            end_of_string_le [OF n] by (simp add: add.assoc add.commute add.left_commute)
        finally show ?thesis .
      qed
    next
      case nq: False
      show ?thesis
      proof (cases "\<exists>c. ?c = Some c \<and> c < k")
        case True
        then obtain c where c: "?c = Some c" "c < k" by blast
        note st = boundary_comment_step [OF c(1) Some c(2) nq, of i mark]
        have split: "scan (Outside, i, mark) s = scan (InComment, i + (c + 2), mark) (drop (c + 2) s)"
          using scan_split [of "c + 2" s] find_in_some [OF c(1)] st by simp
        note ce = scan_comment_end [where s = "drop (c + 2) s" and i = "i + (c + 2)" and mark = mark]
        show ?thesis
        proof (cases "find_in ''*/'' (drop (c + 2) s)")
          case None
          then show ?thesis using Some c nq ne ce split by (subst boundary_loop.simps) (auto simp: Let_def simp del: before.simps)
        next
          case e: (Some e)
          have "boundary_loop i mark s = boundary_loop (i + (c + 2 + e + 2)) mark (drop (c + 2 + e + 2) s)"
            using Some c nq ne e by (subst boundary_loop.simps) (auto simp: Let_def simp del: before.simps)
          also have "\<dots> = snd (snd (scan (Outside, i + (c + 2 + e + 2), mark) (drop (c + 2 + e + 2) s)))"
            using ne by (intro less) simp
          also have "scan (Outside, i + (c + 2 + e + 2), mark) (drop (c + 2 + e + 2) s) = scan (Outside, i, mark) s"
            using split ce e scan_split [of "e + 2" "drop (c + 2) s" "(InComment, i + (c + 2), mark)"]
              find_in_some [OF e] by (simp add: add.assoc add.commute add.left_commute)
          finally show ?thesis .
        qed
      next
        case nc: False
        have "boundary_loop i mark s = boundary_loop (i + Suc k) (i + Suc k) (drop (Suc k) s)"
          using Some nq nc ne by (subst boundary_loop.simps) (auto simp: Let_def simp del: before.simps)
        also have "\<dots> = snd (snd (scan (Outside, i + Suc k, i + Suc k) (drop (Suc k) s)))"
          using ne by (intro less) simp
        also have "scan (Outside, i + Suc k, i + Suc k) (drop (Suc k) s) = scan (Outside, i, mark) s"
          using scan_split [of "Suc k" s] boundary_record_step [OF Some nq nc] fk by simp
        finally show ?thesis .
      qed
    qed
  qed
qed

lemma boundary_reference: "boundary buffer = last_record_end buffer"
  by (simp add: boundary_def last_record_end_def boundary_loop_scan)

section \<open>Reading in chunks cuts no record\<close>

definition lex_of :: "string \<Rightarrow> lex" where
  "lex_of s = foldl lex_step Outside s"

lemma scan_lex: "fst (scan (st, i, mark) s) = foldl lex_step st s"
  by (induction s rule: rev_induct) (auto simp: scan_def split: prod.splits elim: prod.exhaust, metis fst_conv prod.collapse scan_step.simps)

lemma lex_of_snoc [simp]: "lex_of (s @ [c]) = lex_step (lex_of s) c"
  by (simp add: lex_of_def)

text \<open>The text up to here is whole records: it is empty, or its last byte ends a record.\<close>

definition whole_records :: "string \<Rightarrow> bool" where
  "whole_records t \<longleftrightarrow> t = [] \<or> (\<exists>u c. t = u @ [c] \<and> ends_record (lex_of u) c)"

lemma ends_record_outside: "ends_record st c \<Longrightarrow> lex_step st c = Outside"
  by (auto simp: ends_record_def)

lemma whole_records_outside: "whole_records t \<Longrightarrow> lex_of t = Outside"
  using ends_record_outside by (auto simp: whole_records_def) (simp add: lex_of_def)

lemma whole_records_append: "whole_records a \<Longrightarrow> whole_records b \<Longrightarrow> whole_records (a @ b)"
proof (cases "b = []")
  case False
  assume a: "whole_records a" and "whole_records b"
  then obtain u c where u: "b = u @ [c]" "ends_record (lex_of u) c"
    using False by (auto simp: whole_records_def)
  have "lex_of (a @ u) = lex_of u"
    using whole_records_outside [OF a] by (simp add: lex_of_def)
  then show ?thesis using u unfolding whole_records_def by (metis append_assoc)
qed simp

text \<open>The cut that is found, and that it is the last one there is.\<close>

lemma scan_mark:
  "(case scan (Outside, 0, 0) s of (st, i, mark) \<Rightarrow>
      st = lex_of s \<and> i = length s \<and> mark \<le> length s \<and> whole_records (take mark s)
      \<and> (\<forall>j. mark \<le> j \<and> j < length s \<longrightarrow> \<not> ends_record (lex_of (take j s)) (s ! j)))"
proof (induction s rule: rev_induct)
  case Nil
  show ?case by (simp add: lex_of_def whole_records_def)
next
  case (snoc c s)
  obtain st i mark where z: "scan (Outside, 0, 0) s = (st, i, mark)" by (metis prod_cases3)
  then have IH: "st = lex_of s" "i = length s" "mark \<le> length s" "whole_records (take mark s)"
    "\<And>j. mark \<le> j \<Longrightarrow> j < length s \<Longrightarrow> \<not> ends_record (lex_of (take j s)) (s ! j)"
    using snoc by auto
  show ?case
  proof (cases "ends_record st c")
    case True
    then have "whole_records (s @ [c])" using IH(1) by (auto simp: whole_records_def)
    then show ?thesis using z IH(1,2) True by auto
  next
    case False
    have "\<not> ends_record (lex_of (take j (s @ [c]))) ((s @ [c]) ! j)" if "mark \<le> j" "j < Suc (length s)" for j
      using that IH(1,5) False by (cases "j = length s") (auto simp: nth_append)
    then show ?thesis using z IH(1-4) False by simp
  qed
qed

lemma boundary_facts:
  "boundary b \<le> length b \<and> whole_records (take (boundary b) b)
   \<and> (\<forall>j. boundary b \<le> j \<and> j < length b \<longrightarrow> \<not> ends_record (lex_of (take j b)) (b ! j))"
  using scan_mark [of b] by (auto simp: boundary_reference last_record_end_def split: prod.splits)

lemma concat_blocks: "concat (blocks_of buffer chunks) = buffer @ concat chunks"
proof (induction buffer chunks rule: blocks_of.induct)
  case (1 buffer)
  then show ?case by simp
next
  case (2 buffer chunk chunks)
  then show ?case
    by (cases "boundary (buffer @ chunk) = 0") (simp_all add: Let_def del: take_append drop_append)
qed

lemma blocks_whole:
  "n < length (blocks_of buffer chunks) \<Longrightarrow> whole_records (concat (take n (blocks_of buffer chunks)))"
proof (induction buffer chunks arbitrary: n rule: blocks_of.induct)
  case (1 buffer)
  then show ?case by (auto simp: whole_records_def split: if_splits)
next
  case (2 buffer chunk chunks)
  let ?b = "buffer @ chunk"
  show ?case
  proof (cases "boundary ?b = 0")
    case True
    then show ?thesis using 2 by (simp add: Let_def)
  next
    case False
    show ?thesis
    proof (cases n)
      case 0
      then show ?thesis by (simp add: whole_records_def)
    next
      case (Suc m)
      then have "whole_records (concat (take m (blocks_of (drop (boundary ?b) ?b) chunks)))"
        using 2 False by (simp add: Let_def del: take_append drop_append)
      then show ?thesis
        using whole_records_append [of "take (boundary ?b) ?b"] boundary_facts [of ?b] Suc False
        by (simp add: Let_def del: take_append drop_append)
    qed
  qed
qed

text \<open>C22: Cutting a buffer back to its last whole record. The routine that hops from quote to comment to
  semicolon with byte searches answers what a reader of one byte at a time would: the cut is directly
  behind a semicolon that stands outside of every string and comment (or at the start), and no byte
  behind the cut ends a record. A string or comment that is still open at the end of the buffer never
  hides an earlier cut and never gives a false one.\<close>

theorem boundary_is_last_record_end:
  "boundary b = last_record_end b \<and> boundary b \<le> length b
   \<and> (boundary b = 0 \<or> ends_record (lex_of (take (boundary b - 1) b)) (b ! (boundary b - 1)))
   \<and> (\<forall>j. boundary b \<le> j \<and> j < length b \<longrightarrow> \<not> ends_record (lex_of (take j b)) (b ! j))"
proof -
  note f = boundary_facts [of b]
  have "ends_record (lex_of (take (boundary b - 1) b)) (b ! (boundary b - 1))" if pos: "boundary b \<noteq> 0"
  proof -
    obtain n where n: "boundary b = Suc n" using pos by (cases "boundary b") auto
    then have len: "n < length b" using f by simp
    then have "take (Suc n) b = take n b @ [b ! n]" by (simp add: take_Suc_conv_app_nth)
    then show ?thesis using f n by (auto simp: whole_records_def)
  qed
  then show ?thesis using f boundary_reference by blast
qed

theorem boundary_is_last_record_end_witness:
  "boundary (''#1=A('' @ [CHR 0x27] @ ''x;y'' @ [CHR 0x27] @ '');/*;*/#2='') = 12"
  using boundary_is_last_record_end [of "''#1=A('' @ [CHR 0x27] @ ''x;y'' @ [CHR 0x27] @ '');/*;*/#2=''"]
  by (simp add: last_record_end_def scan_def ends_record_def)

text \<open>Reading a STEP file in chunks loses nothing and cuts no record. However the file arrives, the
  blocks that are examined are the file in order, and every block but the last ends where a record
  ends: with a semicolon outside of every string and comment of the whole file.\<close>

theorem chunks_cut_no_record:
  "concat (blocks_of [] chunks) = concat chunks
   \<and> (\<forall>n < length (blocks_of [] chunks). whole_records (concat (take n (blocks_of [] chunks))))"
  using concat_blocks [of "[]" chunks] blocks_whole by simp

theorem chunks_cut_no_record_witness:
  "whole_records (concat (take 0 (blocks_of [] [''#1=A(;'', '');'']))) \<and> concat (blocks_of [] [''#1=A(;'', '');'']) = ''#1=A(;);''"
proof -
  let ?bs = "blocks_of [] [''#1=A(;'', '');'']"
  note c = chunks_cut_no_record [of "[''#1=A(;'', '');'']"]
  have cc: "concat ?bs = ''#1=A(;);''" using conjunct1 [OF c] by (simp del: blocks_of.simps)
  then have "?bs \<noteq> []" by (metis concat.simps(1) list.distinct(1))
  then have "0 < length ?bs" by (simp only: length_greater_0_conv not_False_eq_True)
  with conjunct2 [OF c] have "whole_records (concat (take 0 ?bs))" by (metis (no_types, lifting))
  with cc show ?thesis by (simp only:)
qed

section \<open>Taking comments out\<close>

text \<open>The reference: byte by byte, outside, in a string and in a comment.\<close>

fun keep_out :: "string \<Rightarrow> string" and keep_string :: "string \<Rightarrow> string" and keep_comment :: "string \<Rightarrow> string" where
  "keep_out [] = []"
| "keep_out (c # s) =
     (if c = CHR 0x27 then c # keep_string s
      else if c = CHR ''/'' \<and> starts_with s ''*'' then keep_comment (drop 1 s)
      else c # keep_out s)"
| "keep_string [] = []"
| "keep_string (c # s) = c # (if c = CHR 0x27 then keep_out s else keep_string s)"
| "keep_comment [] = []"
| "keep_comment (c # s) =
     (if c = CHR ''*'' \<and> starts_with s ''/'' then keep_out (drop 1 s) else keep_comment s)"

lemma keep_no_comment:
  "\<forall>m. \<not> prefix ''/*'' (drop m s) \<Longrightarrow> keep_out s = s \<and> keep_string s = s"
proof (induction s)
  case Nil
  then show ?case by simp
next
  case (Cons c s)
  have "\<not> prefix ''/*'' (drop m s)" for m using Cons.prems [rule_format, of "Suc m"] by simp
  moreover have "\<not> (c = CHR ''/'' \<and> prefix ''*'' s)" using Cons.prems [rule_format, of 0] by simp
  ultimately show ?case using Cons.IH by auto
qed

lemma keep_out_until:
  "n \<le> length s \<Longrightarrow> \<forall>m < n. s ! m \<noteq> CHR 0x27 \<and> \<not> prefix ''/*'' (drop m s) \<Longrightarrow>
   keep_out s = take n s @ keep_out (drop n s)"
proof (induction n arbitrary: s)
  case 0
  then show ?case by simp
next
  case (Suc n)
  then obtain c t where s: "s = c # t" by (cases s) auto
  have "\<forall>m < n. t ! m \<noteq> CHR 0x27 \<and> \<not> prefix ''/*'' (drop m t)"
    using Suc.prems(2) s by fastforce
  moreover have "c \<noteq> CHR 0x27" "\<not> (c = CHR ''/'' \<and> prefix ''*'' t)"
    using Suc.prems(2) [rule_format, of 0] s by auto
  ultimately show ?case using Suc s by auto
qed

lemma keep_string_until:
  "n < length s \<Longrightarrow> \<forall>m < n. s ! m \<noteq> CHR 0x27 \<Longrightarrow> s ! n = CHR 0x27 \<Longrightarrow>
   keep_string s = take (Suc n) s @ keep_out (drop (Suc n) s)"
proof (induction n arbitrary: s)
  case 0
  then show ?case by (cases s) auto
next
  case (Suc n)
  then obtain c t where s: "s = c # t" by (cases s) auto
  then show ?case using Suc by fastforce
qed

lemma keep_string_open: "CHR 0x27 \<notin> set s \<Longrightarrow> keep_string s = s"
  by (induction s) auto

lemma keep_string_end:
  "keep_string s = (case end_of_string s of Some n \<Rightarrow> take n s @ keep_out (drop n s) | None \<Rightarrow> s)"
proof (induction s rule: end_of_string.induct)
  case (1 s)
  show ?case
  proof (cases "find_in [CHR 0x27] s")
    case None
    then have "end_of_string s = None" by (subst end_of_string.simps) simp
    then show ?thesis using keep_string_open [OF find_char_none [OF None]] by simp
  next
    case (Some q)
    then have ks: "keep_string s = take (Suc q) s @ keep_out (drop (Suc q) s)"
      using find_char_some [OF Some] keep_string_until [of q s] by simp
    show ?thesis
    proof (cases "drop (Suc q) s")
      case Nil
      then have "end_of_string s = None" using Some by (subst end_of_string.simps) simp
      then show ?thesis using ks Nil by simp
    next
      case (Cons c rest)
      have s: "s = take (Suc q) s @ c # rest" using Cons by (metis append_take_drop_id)
      show ?thesis
      proof (cases "c = CHR 0x27")
        case False
        then have "end_of_string s = Some (Suc q)" using Some Cons by (subst end_of_string.simps) simp
        then show ?thesis using ks by simp
      next
        case True
        note IH = 1 [OF Some Cons True]
        show ?thesis
        proof (cases "end_of_string rest")
          case None
          then have "end_of_string s = None" using Some Cons True by (subst end_of_string.simps) simp
          then show ?thesis using ks IH None Cons True s by simp
        next
          case n: (Some n)
          then have e: "end_of_string s = Some (q + 2 + n)"
            using Some Cons True by (subst end_of_string.simps) simp
          have "take (q + 2 + n) s = take (Suc q) s @ c # take n rest" "drop (q + 2 + n) s = drop n rest"
            using Cons take_add [of "Suc q" "Suc n" s] drop_drop [of "Suc n" "Suc q" s] by (simp_all add: add.commute)
          then show ?thesis using ks IH n e Cons True by simp
        qed
      qed
    qed
  qed
qed

lemma keep_comment_end:
  "keep_comment s = (case find_in ''*/'' s of Some e \<Rightarrow> keep_out (drop (e + 2) s) | None \<Rightarrow> [])"
proof (induction s)
  case Nil
  then show ?case by simp
next
  case (Cons c s)
  show ?case
  proof (cases "prefix ''*/'' (c # s)")
    case True
    then obtain t where "s = CHR ''/'' # t" "c = CHR ''*''" by (auto simp: prefix_def)
    then show ?thesis by simp
  next
    case False
    then show ?thesis using Cons by (auto split: option.splits)
  qed
qed

lemma kept_text_reference: "kept_text s = keep_out s"
proof (induction s rule: kept_text.induct)
  case (1 s)
  show ?case
  proof (cases "find_in ''/*'' s")
    case None
    then show ?thesis using keep_no_comment find_in_none [OF None] by (subst kept_text.simps) simp
  next
    case (Some c)
    note fc = find_in_some [OF Some]
    have cs: "drop c s = CHR ''/'' # CHR ''*'' # drop (c + 2) s"
    proof -
      obtain t where t: "drop c s = ''/*'' @ t" using fc by (auto simp: prefix_def)
      have "drop (c + 2) s = drop 2 (drop c s)" by (simp add: add.commute)
      then show ?thesis using t by simp
    qed
    have comment: "keep_out s = take c s @ (case find_in ''*/'' (drop (c + 2) s) of
        None \<Rightarrow> [] | Some e \<Rightarrow> kept_text (drop (c + 2 + e + 2) s))"
      if q: "before c (find_in [CHR 0x27] s)" and rec: "\<And>e. find_in ''*/'' (drop (c + 2) s) = Some e \<Longrightarrow>
        kept_text (drop (c + 2 + e + 2) s) = keep_out (drop (c + 2 + e + 2) s)"
    proof -
      have "keep_out s = take c s @ keep_out (drop c s)"
        using fc no_char_before [OF refl q] by (intro keep_out_until) auto
      also have "keep_out (drop c s) = keep_comment (drop (c + 2) s)" by (simp add: cs)
      finally show ?thesis
        using rec keep_comment_end [of "drop (c + 2) s"]
        by (simp add: add.commute add.left_commute split: option.splits)
    qed
    show ?thesis
    proof (cases "find_in [CHR 0x27] s")
      case None
      then show ?thesis using Some comment 1(1) [OF Some None] by (subst kept_text.simps) simp
    next
      case q: (Some q)
      note fq = find_char_some [OF q]
      show ?thesis
      proof (cases "q < c")
        case False
        moreover have "q \<noteq> c" using fq nth_via_drop [OF cs] by auto
        ultimately show ?thesis
          using Some q comment 1(3) [OF Some q False] by (subst kept_text.simps) simp
      next
        case True
        have "keep_out s = take q s @ keep_out (drop q s)"
          using fq fc True by (intro keep_out_until) auto
        also have "keep_out (drop q s) = CHR 0x27 # keep_string (drop (Suc q) s)"
          using fq by (simp add: Cons_nth_drop_Suc [symmetric])
        finally have k: "keep_out s = take (Suc q) s @ keep_string (drop (Suc q) s)"
          using fq by (simp add: take_Suc_conv_app_nth)
        show ?thesis
        proof (cases "end_of_string (drop (Suc q) s)")
          case None
          then show ?thesis
            using Some q True k keep_string_end [of "drop (Suc q) s"] by (subst kept_text.simps) simp
        next
          case n: (Some n)
          have "take (Suc q + n) s = take (Suc q) s @ take n (drop (Suc q) s)" by (rule take_add)
          then show ?thesis
            using Some q True n k keep_string_end [of "drop (Suc q) s"] 1(2) [OF Some q True n]
            by (subst kept_text.simps) (simp add: add.commute)
        qed
      qed
    qed
  qed
qed

text \<open>Taking the comments out of a block is exact: what is kept is what a reader of one byte at a
  time keeps, who drops everything from a comment's opening to its end (or to the end of the block)
  and takes no opening seriously that stands inside a string.\<close>

theorem without_comments_reference: "without_comments block = keep_out block"
proof (cases "find_in ''/*'' block")
  case None
  then show ?thesis using keep_no_comment find_in_none [OF None] by (simp add: without_comments_def)
next
  case (Some c)
  then show ?thesis by (simp add: without_comments_def kept_text_reference)
qed

section \<open>Units and the one tolerance\<close>

text \<open>What a unit is in millimetres by following its definitions, in so many steps.\<close>

inductive resolves :: "step_facts \<Rightarrow> nat \<Rightarrow> nat \<Rightarrow> rat \<Rightarrow> bool" for f :: step_facts where
  resolves_scale: "map_of (units f) u = Some (Scale v) \<Longrightarrow> resolves f u 0 v"
| resolves_measure: "map_of (units f) u = Some (MeasuredBy m) \<Longrightarrow> map_of (measures f) m = Some (v, w)
    \<Longrightarrow> resolves f w k s \<Longrightarrow> resolves f u (Suc k) (v * s)"

inductive_cases resolves_elim: "resolves f u k v"

lemma resolves_unique: "resolves f u k v \<Longrightarrow> resolves f u k' v' \<Longrightarrow> k = k' \<and> v = v'"
proof (induction arbitrary: k' v' rule: resolves.induct)
  case (resolves_scale u v)
  from resolves_scale(2,1) show ?case by (cases rule: resolves.cases) auto
next
  case (resolves_measure u m v w k s)
  from resolves_measure(5,1,2) obtain k2 s2 where "k' = Suc k2" "v' = v * s2" "resolves f w k2 s2"
    by (cases rule: resolves.cases) auto
  then show ?case using resolves_measure(4) by blast
qed

lemma unit_mm_complete:
  "resolves f u k v \<Longrightarrow> \<forall>t \<in> set seen. \<exists>k' v'. resolves f t k' v' \<and> k < k' \<Longrightarrow> unit_mm f u seen = Some v"
proof (induction arbitrary: seen rule: resolves.induct)
  case (resolves_scale u v)
  then show ?case by (subst unit_mm.simps) simp
next
  case (resolves_measure u m v w k s)
  note r = resolves.resolves_measure [OF resolves_measure(1-3)]
  have "u \<notin> set seen"
    using resolves_measure(5) resolves_unique [OF r] by blast
  moreover have "unit_mm f w (u # seen) = Some s"
    using resolves_measure(4,5) r by (metis Suc_lessD lessI set_ConsD)
  ultimately show ?case using resolves_measure(1,2) by (subst unit_mm.simps) simp
qed

lemma unit_mm_sound: "unit_mm f u seen = Some v \<Longrightarrow> \<exists>k. resolves f u k v"
proof (induction f u seen arbitrary: v rule: unit_mm.induct)
  case (1 f u seen)
  show ?case
  proof (cases "map_of (units f) u")
    case None
    then show ?thesis using 1(2) by (subst (asm) unit_mm.simps) simp
  next
    case d: (Some d)
    show ?thesis
    proof (cases d)
      case (Scale c)
      then have "v = c" using 1(2) d by (subst (asm) unit_mm.simps) simp
      then show ?thesis using d Scale resolves_scale by blast
    next
      case (MeasuredBy m)
      then have n: "u \<notin> set seen" using 1(2) d by (subst (asm) unit_mm.simps) (simp split: if_splits)
      obtain x w where xw: "map_of (measures f) m = Some (x, w)"
        using 1(2) d MeasuredBy n by (subst (asm) unit_mm.simps) (auto split: option.splits)
      then obtain s where s: "unit_mm f w (u # seen) = Some s" "v = x * s"
        using 1(2) d MeasuredBy n by (subst (asm) (2) unit_mm.simps) auto
      then show ?thesis
        using 1(1) [OF d MeasuredBy n xw refl s(1)] resolves_measure [OF d [unfolded MeasuredBy] xw] by blast
    qed
  qed
qed

text \<open>Reading a unit ends, and answers what the definitions say. A unit defined as so much of another
  resolves exactly when following the definitions reaches a scale, to the product along the way; a
  unit that is defined in terms of itself, directly or through others, or whose chain breaks off,
  has no length.\<close>

theorem unit_resolution:
  "unit_mm f u [] = Some v \<longleftrightarrow> (\<exists>k. resolves f u k v)"
  using unit_mm_sound unit_mm_complete [of f u _ v "[]"] by auto

lemma reduce_cases:
  assumes "xs \<noteq> []"
  obtains lo hi where "lo \<in> set xs" "hi \<in> set xs" "\<forall>x \<in> set xs. lo \<le> x \<and> x \<le> hi"
    "reduce xs = (if hi - lo \<le> EQUAL_WITHIN * max 1 \<bar>hi\<bar> then Some (Fin hi) else Some NaN)"
proof (rule that [of "Min (set xs)" "Max (set xs)"])
  show "reduce xs = (if Max (set xs) - Min (set xs) \<le> EQUAL_WITHIN * max 1 \<bar>Max (set xs)\<bar>
      then Some (Fin (Max (set xs))) else Some NaN)"
    using assms by (simp add: reduce_def Let_def)
qed (use assms in auto)

text \<open>The one tolerance a file amounts to. Nothing when it states none; a number only when every
  stated value is that number up to the rounding allowance, and it is the largest of them; and
  not-a-number exactly when two of the stated values differ by more than the allowance.\<close>

theorem reduce_meaning:
  "(reduce xs = None \<longleftrightarrow> xs = [])
   \<and> (\<forall>v. reduce xs = Some (Fin v) \<longrightarrow> v \<in> set xs
        \<and> (\<forall>x \<in> set xs. x \<le> v \<and> v - x \<le> EQUAL_WITHIN * max 1 \<bar>v\<bar>))
   \<and> (reduce xs = Some NaN \<longleftrightarrow>
        (\<exists>x \<in> set xs. \<exists>y \<in> set xs. (\<forall>z \<in> set xs. z \<le> y) \<and> y - x > EQUAL_WITHIN * max 1 \<bar>y\<bar>))"
proof (cases "xs = []")
  case True
  then show ?thesis by (simp add: reduce_def)
next
  case False
  then obtain lo hi where e: "lo \<in> set xs" "hi \<in> set xs" "\<forall>x \<in> set xs. lo \<le> x \<and> x \<le> hi"
    and r: "reduce xs = (if hi - lo \<le> EQUAL_WITHIN * max 1 \<bar>hi\<bar> then Some (Fin hi) else Some NaN)"
    by (rule reduce_cases)
  show ?thesis
  proof (cases "hi - lo \<le> EQUAL_WITHIN * max 1 \<bar>hi\<bar>")
    case True
    have near: "v - x \<le> EQUAL_WITHIN * max 1 \<bar>v\<bar>" if "x \<in> set xs" "v \<in> set xs" "\<forall>z \<in> set xs. z \<le> v" for x v
    proof -
      have "v = hi" using that e by (meson order_antisym)
      moreover have "hi - x \<le> hi - lo" using e that by simp
      ultimately show ?thesis using True by (simp only: order_trans)
    qed
    have "reduce xs = Some (Fin hi)" using True r by simp
    moreover have "\<not> (\<exists>x \<in> set xs. \<exists>y \<in> set xs. (\<forall>z \<in> set xs. z \<le> y) \<and> y - x > EQUAL_WITHIN * max 1 \<bar>y\<bar>)"
      using near not_less by blast
    ultimately show ?thesis using e False near by auto
  next
    case far: False
    then have "EQUAL_WITHIN * max 1 \<bar>hi\<bar> < hi - lo" by simp
    with e have "\<exists>x \<in> set xs. \<exists>y \<in> set xs. (\<forall>z \<in> set xs. z \<le> y) \<and> y - x > EQUAL_WITHIN * max 1 \<bar>y\<bar>"
      by blast
    moreover have "reduce xs = Some NaN" using far r by simp
    ultimately show ?thesis using False by simp
  qed
qed

theorem reduce_meaning_witness:
  "reduce [1 / 10, 1 / 10] = Some (Fin (1 / 10)) \<and> reduce [1 / 10, 1 / 5] = Some NaN"
proof
  show "reduce [1 / 10, 1 / 10] = Some (Fin (1 / 10))"
    by (simp add: reduce_def EQUAL_WITHIN_def)
  show "reduce [1 / 10, 1 / 5] = Some NaN"
  proof (rule iffD2 [OF reduce_meaning [THEN conjunct2, THEN conjunct2]])
    show "\<exists>x \<in> set [1 / 10, 1 / 5]. \<exists>y \<in> set [1 / 10, 1 / 5]. (\<forall>z \<in> set [1 / 10, 1 / 5]. z \<le> y)
        \<and> y - x > EQUAL_WITHIN * max 1 \<bar>y :: rat\<bar>"
      by (intro bexI [of _ "1 / 10"] bexI [of _ "1 / 5"]) (simp_all add: EQUAL_WITHIN_def)
  qed
qed

end
