(* ===== verification/SandboxVersions.thy ===== *)
theory SandboxVersions
  imports Prelude
begin

text \<open>
  \<open>partcad/sandbox_versions.py\<close>: what is installed into the sandboxes, the pins of the CAD stack
  and how they override what a part asks for, the comparison of interpreter versions, the names of
  npm packages, and the identity of an environment in the cache keys of the shapes built in it.
  A raised \<open>ValueError\<close> is \<open>None\<close>.
\<close>

section \<open>Pins\<close>

definition CADQUERY_OCP :: string where "CADQUERY_OCP = ''cadquery-ocp==7.9.3.1.1''"
definition OCPSVG :: string where "OCPSVG = ''ocpsvg==0.6.0''"
definition BUILD123D :: string where "BUILD123D = ''build123d==0.11.1''"
definition CADQUERY :: string where "CADQUERY = ''cadquery==2.8.0''"
definition OCP_TESSELLATE :: string where "OCP_TESSELLATE = ''ocp-tessellate==3.4.1''"
definition NLOPT :: string where "NLOPT = ''nlopt>=2.9.1,<=2.11.0''"
definition ZSTD :: string where "ZSTD = ''backports.zstd>=1.6.0''"
definition DEFAULT_PYTHON_VERSION :: string where "DEFAULT_PYTHON_VERSION = ''3.11''"
definition MIN_PYTHON_VERSION_ZSTD_STDLIB :: string where "MIN_PYTHON_VERSION_ZSTD_STDLIB = ''3.14''"
definition MIN_PYTHON_VERSION_FREE_THREADING :: string where "MIN_PYTHON_VERSION_FREE_THREADING = ''3.13''"

definition PINNED_REQUIREMENTS :: "string list" where
  "PINNED_REQUIREMENTS = [CADQUERY_OCP, OCPSVG, BUILD123D, CADQUERY, OCP_TESSELLATE, NLOPT]"

definition name_separator :: "char \<Rightarrow> bool" where
  "name_separator c \<longleftrightarrow> c \<in> set ''-_.''"

text \<open>\<open>re.sub(r"[-_.]+", "-", s)\<close>\<close>

function collapse :: "string \<Rightarrow> string" where
  "collapse [] = []"
| "collapse (c # s) =
     (if name_separator c then CHR ''-'' # collapse (dropWhile name_separator s) else c # collapse s)"
  by pat_completeness auto
termination
  by (relation "measure length") (auto simp: le_imp_less_Suc length_dropWhile_le)

definition requirement_end :: "char \<Rightarrow> bool" where
  "requirement_end c \<longleftrightarrow> c \<in> set ''[=<>!~; @''"

text \<open>Splitting at each separator in turn leaves what precedes the first of any of them.\<close>

definition distribution_name :: "string \<Rightarrow> string" where
  "distribution_name requirement =
     lower (collapse (strip (foldl (\<lambda>name separator. takeWhile (\<lambda>c. c \<noteq> separator) name)
       (strip requirement) ''[=<>!~; @'')))"

definition split_marker :: "string \<Rightarrow> string \<times> string option" where
  "split_marker requirement =
     (let (body, separator, marker) = partition1 (CHR '';'') requirement
      in (strip body, if separator then Some (strip marker) else None))"

definition PINNED_BY_DISTRIBUTION :: "(string \<times> string) list" where
  "PINNED_BY_DISTRIBUTION = map (\<lambda>requirement. (distribution_name requirement, requirement)) PINNED_REQUIREMENTS"

definition reconcile_requirement :: "string \<Rightarrow> string \<times> string option" where
  "reconcile_requirement requirement =
     (let (body, marker) = split_marker requirement
      in case map_of PINNED_BY_DISTRIBUTION (distribution_name body) of
           None \<Rightarrow> (requirement, None)
         | Some pinned \<Rightarrow>
             let reconciled = (case marker of None \<Rightarrow> pinned | Some m \<Rightarrow> pinned @ ''; '' @ m)
             in if reconciled = strip requirement then (requirement, None)
                else (reconciled, Some requirement))"

section \<open>Interpreter versions\<close>

text \<open>\<open>int(s)\<close>: surrounding space, a sign, digits with single underscores between them.\<close>

fun digits_ok :: "string \<Rightarrow> bool" where
  "digits_ok [] = False"
| "digits_ok [c] = is_digit c"
| "digits_ok (c # d # s) = (is_digit c \<and> (if d = CHR ''_'' then digits_ok s else digits_ok (d # s)))"

definition py_int_of :: "string \<Rightarrow> int option" where
  "py_int_of s =
     (let s = strip s;
          negative = (s \<noteq> [] \<and> hd s = CHR ''-'');
          body = (if s \<noteq> [] \<and> hd s \<in> {CHR ''-'', CHR ''+''} then tl s else s)
      in if digits_ok body
         then Some ((if negative then - 1 else 1) * int (nat_of_digits (filter (\<lambda>c. c \<noteq> CHR ''_'') body)))
         else None)"

definition parsed :: "string \<Rightarrow> int list option" where
  "parsed version = those (map py_int_of (split_on (CHR ''.'') version))"

definition major_minor :: "string \<Rightarrow> string option" where
  "major_minor version =
     Option.bind (parsed version) (\<lambda>v. case v of
        major # minor # _ \<Rightarrow> Some (show_int major @ ''.'' @ show_int minor)
      | _ \<Rightarrow> None)"

definition is_at_least :: "string \<Rightarrow> string \<Rightarrow> bool option" where
  "is_at_least python_version minimum =
     Option.bind (parsed python_version) (\<lambda>v. map_option (\<lambda>m. m \<le> v) (parsed minimum))"

definition at_least :: "string \<Rightarrow> string \<Rightarrow> string option" where
  "at_least python_version minimum =
     map_option (\<lambda>b. if b then python_version else minimum) (is_at_least python_version minimum)"

definition at_most :: "string \<Rightarrow> string \<Rightarrow> string option" where
  "at_most python_version maximum =
     map_option (\<lambda>b. if b then python_version else maximum) (is_at_least maximum python_version)"

text \<open>The outer option is the exception, the inner one the \<open>None\<close> the function returns.\<close>

definition zstd_requirement :: "string \<Rightarrow> string option option" where
  "zstd_requirement python_version =
     map_option (\<lambda>b. if b then None else Some ZSTD)
       (is_at_least python_version MIN_PYTHON_VERSION_ZSTD_STDLIB)"

definition python_abi_requirement :: "string \<Rightarrow> bool \<Rightarrow> string option option" where
  "python_abi_requirement python_version exact =
     Option.bind (is_at_least python_version MIN_PYTHON_VERSION_FREE_THREADING) (\<lambda>b.
       if \<not> b then Some None
       else map_option (\<lambda>abi_version.
              Some (''python_abi'' @ (if exact then ''=='' else ''='') @ abi_version @ ''=*_cp''
                    @ filter (\<lambda>c. c \<noteq> CHR ''.'') abi_version))
            (major_minor python_version))"

section \<open>JavaScript packages\<close>

definition DEFAULT_CHILI3D_VERSION :: string where "DEFAULT_CHILI3D_VERSION = ''1.1.2''"
definition CHILI3D :: string where "CHILI3D = ''chili3d@'' @ DEFAULT_CHILI3D_VERSION"

definition NON_REGISTRY_JS_PREFIXES :: "string list" where
  "NON_REGISTRY_JS_PREFIXES =
     [''git+'', ''git:'', ''http:'', ''https:'', ''file:'', ''./'', ''../'', ''/'', ''~/'']"

definition NON_REGISTRY_JS_SUFFIXES :: "string list" where
  "NON_REGISTRY_JS_SUFFIXES = [''.tgz'', ''.tar.gz'', ''.git'']"

definition is_registry_js_requirement :: "string \<Rightarrow> bool" where
  "is_registry_js_requirement requirement =
     (let requirement = strip requirement in
      if contains_sub requirement ''://'' then False
      else if \<exists>p \<in> set NON_REGISTRY_JS_PREFIXES. starts_with requirement p then False
      else \<not> (\<exists>s \<in> set NON_REGISTRY_JS_SUFFIXES. ends_with requirement s))"

definition js_package_name :: "string \<Rightarrow> string" where
  "js_package_name requirement =
     (let requirement = strip requirement in
      if \<not> is_registry_js_requirement requirement then requirement
      else if starts_with requirement ''@'' then
        (let (name, separator, _) = partition1 (CHR ''@'') (tl requirement)
         in if separator then ''@'' @ name else requirement)
      else
        (let name = fst (partition1 (CHR ''@'') requirement)
         in if name = [] then requirement else name))"

definition chili3d_requirement :: "(pyval \<Rightarrow> string) \<Rightarrow> pyval \<Rightarrow> string" where
  "chili3d_requirement repr version =
     (if version = PNone then CHILI3D
      else let v = strip (py_str repr version) in if v = [] then CHILI3D else ''chili3d@'' @ v)"

definition node_major_version :: "string \<Rightarrow> string" where
  "node_major_version version = hd (split_on (CHR ''.'') (dropWhile (\<lambda>c. c = CHR ''v'') version))"

section \<open>The identity of an environment\<close>

definition environment_cache_key ::
  "string \<Rightarrow> string \<Rightarrow> string option list \<Rightarrow> string option \<Rightarrow> string" where
  "environment_cache_key interpreter version requirements img =
     (let unique = sort (remdups (filter (\<lambda>r. r \<noteq> [])
            (map strip (concat (map (\<lambda>r. case r of None \<Rightarrow> [] | Some r \<Rightarrow> [r]) requirements)))));
          key = interpreter @ ''=='' @ version @ '';'' @ join '';'' unique
      in case img of
           None \<Rightarrow> key
         | Some i \<Rightarrow> if i = [] then key else key @ '';image='' @ i)"

section \<open>Lemmas\<close>

named_theorems pins \<open>the pinned requirements\<close>

lemmas [pins] = CADQUERY_OCP_def OCPSVG_def BUILD123D_def CADQUERY_def OCP_TESSELLATE_def NLOPT_def

lemma foldl_takeWhile:
  "foldl (\<lambda>name separator. takeWhile (\<lambda>c. c \<noteq> separator) name) s seps
   = takeWhile (\<lambda>c. c \<notin> set seps) s" for s seps :: string
proof (induction seps arbitrary: s)
  case Nil
  show ?case by (induction s) auto
next
  case (Cons a seps)
  have "takeWhile P (takeWhile Q s) = takeWhile (\<lambda>c. P c \<and> Q c) s" for P Q and s :: string
    by (induction s) auto
  from this [of "\<lambda>c. c \<notin> set seps" "\<lambda>c. c \<noteq> a"] show ?case
    using Cons by (simp add: conj_commute cong: conj_cong)
qed

lemma distribution_name_alt:
  "distribution_name r = lower (collapse (strip (takeWhile (\<lambda>c. \<not> requirement_end c) (strip r))))"
  by (simp only: distribution_name_def foldl_takeWhile requirement_end_def)

text \<open>The requirement a pin names is the one its own distribution is looked up as.\<close>

lemma pinned_lookup:
  "map_of PINNED_BY_DISTRIBUTION d = Some pinned \<Longrightarrow>
   distribution_name pinned = d \<and> pinned \<in> set PINNED_REQUIREMENTS"
  by (auto simp: PINNED_BY_DISTRIBUTION_def dest: map_of_SomeD)

lemma pinned_shape:
  "pinned \<in> set PINNED_REQUIREMENTS \<Longrightarrow>
     strip pinned = pinned \<and> CHR '';'' \<notin> set pinned \<and> pinned \<noteq> []
     \<and> map_of PINNED_BY_DISTRIBUTION (distribution_name pinned) = Some pinned"
proof -
  have "list_all (\<lambda>p. strip p = p \<and> CHR '';'' \<notin> set p \<and> p \<noteq> []
     \<and> map_of PINNED_BY_DISTRIBUTION (distribution_name p) = Some p) PINNED_REQUIREMENTS"
    by code_simp
  then show "pinned \<in> set PINNED_REQUIREMENTS \<Longrightarrow> ?thesis"
    by (auto simp: list_all_iff)
qed

lemma split_marker_strip: "split_marker r = (b, Some m) \<Longrightarrow> strip m = m"
  by (auto simp: split_marker_def Let_def split: prod.splits if_splits)

lemma split_marker_pinned:
  assumes "pinned \<in> set PINNED_REQUIREMENTS" and "strip m = m"
  shows "split_marker pinned = (pinned, None)" and "split_marker (pinned @ ''; '' @ m) = (pinned, Some m)"
proof -
  have "strip (CHR '' '' # m) = m"
    using assms(2) by (simp add: strip_def lstrip_def is_space_def) code_simp
  then show "split_marker pinned = (pinned, None)" "split_marker (pinned @ ''; '' @ m) = (pinned, Some m)"
    using pinned_shape [OF assms(1)] partition1_found [of "CHR '';''" pinned "CHR '' '' # m"]
    by (auto simp: split_marker_def partition1_none)
qed

lemma reconcile_pinned:
  assumes "map_of PINNED_BY_DISTRIBUTION (distribution_name (fst (split_marker r))) = Some pinned"
  shows "fst (reconcile_requirement r) =
           (case snd (split_marker r) of None \<Rightarrow> pinned | Some m \<Rightarrow> pinned @ ''; '' @ m)
       \<or> fst (reconcile_requirement r) = r
         \<and> (case snd (split_marker r) of None \<Rightarrow> pinned | Some m \<Rightarrow> pinned @ ''; '' @ m) = strip r"
  using assms by (auto simp: reconcile_requirement_def Let_def split: prod.splits option.splits)

text \<open>Two spellings of a distribution name: letters up to case, and runs of separators for runs.\<close>

inductive spells :: "string \<Rightarrow> string \<Rightarrow> bool" where
  spells_end: "spells [] []"
| spells_char: "\<not> name_separator c \<Longrightarrow> \<not> name_separator d \<Longrightarrow> lower_char c = lower_char d \<Longrightarrow> spells a b
     \<Longrightarrow> spells (c # a) (d # b)"
| spells_run: "r \<noteq> [] \<Longrightarrow> q \<noteq> [] \<Longrightarrow> list_all name_separator (r @ q) \<Longrightarrow> spells a b
     \<Longrightarrow> (a = [] \<longleftrightarrow> b = []) \<Longrightarrow> (a \<noteq> [] \<longrightarrow> \<not> name_separator (hd a) \<and> \<not> name_separator (hd b))
     \<Longrightarrow> spells (r @ a) (q @ b)"

lemma collapse_run:
  "r \<noteq> [] \<Longrightarrow> \<forall>c \<in> set r. name_separator c \<Longrightarrow> a \<noteq> [] \<longrightarrow> \<not> name_separator (hd a) \<Longrightarrow>
   collapse (r @ a) = CHR ''-'' # collapse a"
proof (cases r)
  case (Cons c r')
  assume "\<forall>c \<in> set r. name_separator c" "a \<noteq> [] \<longrightarrow> \<not> name_separator (hd a)"
  moreover have "\<not> name_separator (hd a) \<or> a = [] \<Longrightarrow> dropWhile name_separator a = a"
    by (cases a) auto
  ultimately show ?thesis
    using Cons by (auto simp: dropWhile_append)
qed simp

lemma spells_same: "spells a b \<Longrightarrow> lower (collapse a) = lower (collapse b)"
proof (induction rule: spells.induct)
  case (spells_run r q a b)
  then have "collapse (r @ a) = CHR ''-'' # collapse a" "collapse (q @ b) = CHR ''-'' # collapse b"
    using collapse_run [of r a] collapse_run [of q b] by (auto simp: list_all_iff)
  with spells_run show ?case by (simp add: lower_def)
qed (auto simp: lower_def)

text \<open>What is neither a space nor an end of the name.\<close>

definition name_word :: "string \<Rightarrow> bool" where
  "name_word n \<longleftrightarrow> n \<noteq> [] \<and> list_all (\<lambda>c. \<not> is_space c \<and> \<not> requirement_end c) n"

lemma pinned_names:
  "list_all (\<lambda>p. name_word (takeWhile (\<lambda>c. \<not> requirement_end c) p)) PINNED_REQUIREMENTS"
  by code_simp

lemma distribution_name_of:
  assumes "name_word n" and "strip (n @ rest) = n @ rest" and "rest = [] \<or> requirement_end (hd rest)"
  shows "distribution_name (n @ rest) = lower (collapse n)"
proof -
  have n: "\<forall>c \<in> set n. \<not> is_space c \<and> \<not> requirement_end c"
    using assms(1) by (auto simp: name_word_def list_all_iff)
  then have "takeWhile (\<lambda>c. \<not> requirement_end c) (n @ rest) = n"
    using assms(3) by (cases rest) (auto simp: takeWhile_append)
  then show ?thesis
    using n assms(2) strip_none [of n] by (simp add: distribution_name_alt)
qed

section \<open>Properties\<close>

text \<open>reconciling twice is reconciling once: what is installed for a requirement is itself
  reconciled to the same, and it is reported as superseded only where an empty marker was written.\<close>

theorem reconcile_idempotent:
  "fst (reconcile_requirement (fst (reconcile_requirement r))) = fst (reconcile_requirement r)
   \<and> (snd (split_marker r) \<noteq> Some [] \<longrightarrow>
        snd (reconcile_requirement (fst (reconcile_requirement r))) = None)"
proof -
  obtain b m where bm: "split_marker r = (b, m)" by force
  show ?thesis
  proof (cases "map_of PINNED_BY_DISTRIBUTION (distribution_name b)")
    case None
    then have "reconcile_requirement r = (r, None)" by (simp add: reconcile_requirement_def bm)
    then show ?thesis by simp
  next
    case (Some pinned)
    then have p: "pinned \<in> set PINNED_REQUIREMENTS" using pinned_lookup by blast
    note shape = pinned_shape [OF p]
    define whole where "whole = (case m of None \<Rightarrow> pinned | Some m \<Rightarrow> pinned @ ''; '' @ m)"
    have r: "reconcile_requirement r = (if whole = strip r then (r, None) else (whole, Some r))"
      using Some by (simp add: reconcile_requirement_def bm whole_def Let_def)
    have m: "m = None \<or> (\<exists>t. m = Some t \<and> strip t = t)"
      using split_marker_strip [of r b] bm by (cases m) auto
    then have "split_marker whole = (pinned, m)"
      using split_marker_pinned [OF p] split_marker_pinned(1) [OF p strip_Nil] by (auto simp: whole_def)
    then have w: "reconcile_requirement whole = (if whole = strip whole then (whole, None) else (whole, Some whole))"
      using shape by (simp add: reconcile_requirement_def Let_def whole_def split: option.splits)
    have "strip whole = whole" if "m \<noteq> Some []"
    proof (cases m)
      case None
      then show ?thesis using shape by (simp add: whole_def)
    next
      case (Some t)
      then have "strip t = t" "t \<noteq> []" using m that by auto
      then have "strip (pinned @ ''; '' @ t) = pinned @ ''; '' @ t"
        using shape by (intro strip_glue) blast+
      then show ?thesis using Some by (simp add: whole_def)
    qed
    then show ?thesis using r w bm by auto
  qed
qed

text \<open>a part cannot slip past the pins by the spelling of a name: whatever case and whatever
  runs of separators it writes, whatever version, extra or marker follows, a requirement that names
  a pinned distribution is installed at the pinned version, under the marker it came with.\<close>

theorem pinned_whatever_the_spelling:
  assumes "pinned \<in> set PINNED_REQUIREMENTS"
    and "spells n (takeWhile (\<lambda>c. \<not> requirement_end c) pinned)" and "name_word n"
    and "split_marker r = (n @ rest, marker)" and "rest = [] \<or> requirement_end (hd rest)"
  shows "strip (fst (reconcile_requirement r)) =
           strip (case marker of None \<Rightarrow> pinned | Some m \<Rightarrow> pinned @ ''; '' @ m)"
proof -
  let ?p = "takeWhile (\<lambda>c. \<not> requirement_end c) pinned"
  note shape = pinned_shape [OF assms(1)]
  have "strip (n @ rest) = n @ rest"
    using assms(4) strip_idem [of "fst (partition1 (CHR '';'') r)"]
    by (auto simp: split_marker_def split: prod.splits simp del: strip_idem)
  then have n: "distribution_name (n @ rest) = lower (collapse n)"
    using assms(3,5) by (intro distribution_name_of)
  have "distribution_name (?p @ dropWhile (\<lambda>c. \<not> requirement_end c) pinned) = lower (collapse ?p)"
    using assms(1) pinned_names shape hd_dropWhile [of "\<lambda>c. \<not> requirement_end c" pinned]
    by (intro distribution_name_of) (auto simp: list_all_iff)
  then have "distribution_name (n @ rest) = distribution_name pinned"
    using n spells_same [OF assms(2)] by simp
  then show ?thesis
    using shape assms(4) by (auto simp: reconcile_requirement_def Let_def split: option.splits)
qed

theorem pinned_whatever_the_spelling_witness:
  "strip (fst (reconcile_requirement ''CadQuery__.OCP==7.7.2; extra''))
   = strip ''cadquery-ocp==7.9.3.1.1; extra''"
proof -
  have run: "spells (''__.'' @ ''OCP'') (''-'' @ ''ocp'')"
  proof (rule spells.spells_run)
    show "spells ''OCP'' ''ocp''"
      by (intro spells.spells_char spells.spells_end) (code_simp+)
    show "list_all name_separator (''__.'' @ ''-'')" by code_simp
    show "''OCP'' \<noteq> [] \<longrightarrow> \<not> name_separator (hd ''OCP'') \<and> \<not> name_separator (hd ''ocp'')"
      by code_simp
  qed auto
  have sp: "spells ''CadQuery__.OCP'' ''cadquery-ocp''"
  proof -
    have "spells (''CadQuery'' @ x) (''cadquery'' @ y)" if "spells x y" for x y
      unfolding append.simps
      by (rule spells.spells_char, code_simp, code_simp, code_simp)+ (rule that)
    from this [OF run] show ?thesis by simp
  qed
  have tw: "takeWhile (\<lambda>c. \<not> requirement_end c) CADQUERY_OCP = ''cadquery-ocp''" by code_simp
  have "strip (fst (reconcile_requirement ''CadQuery__.OCP==7.7.2; extra''))
    = strip (case Some ''extra'' of None \<Rightarrow> CADQUERY_OCP | Some m \<Rightarrow> CADQUERY_OCP @ ''; '' @ m)"
  proof (rule pinned_whatever_the_spelling)
    show "CADQUERY_OCP \<in> set PINNED_REQUIREMENTS" by (simp add: PINNED_REQUIREMENTS_def)
    show "spells ''CadQuery__.OCP'' (takeWhile (\<lambda>c. \<not> requirement_end c) CADQUERY_OCP)"
      using sp tw by simp
    show "name_word ''CadQuery__.OCP''" by code_simp
    show "split_marker ''CadQuery__.OCP==7.7.2; extra'' = (''CadQuery__.OCP'' @ ''==7.7.2'', Some ''extra'')"
      by code_simp
    show "''==7.7.2'' = [] \<or> requirement_end (hd ''==7.7.2'')" by code_simp
  qed
  then show ?thesis by (simp add: CADQUERY_OCP_def)
qed

text \<open>clamping a version between a floor and a ceiling gives a version within both, compared
  component by component as numbers, and leaves alone a version that was within them.\<close>

theorem version_clamped:
  assumes "parsed v = Some a" and "parsed lo = Some l" and "parsed hi = Some h" and "l \<le> h"
  shows "\<exists>w x. Option.bind (at_least v lo) (\<lambda>u. at_most u hi) = Some w \<and> parsed w = Some x
     \<and> l \<le> x \<and> x \<le> h \<and> (l \<le> a \<and> a \<le> h \<longrightarrow> w = v)"
  using assms by (auto simp: at_least_def at_most_def is_at_least_def)

theorem version_clamped_witness:
  "\<exists>w x. Option.bind (at_least ''3.9'' ''3.11'') (\<lambda>u. at_most u ''3.14'') = Some w \<and> parsed w = Some x
     \<and> [3, 11] \<le> x \<and> x \<le> [3, 14] \<and> ([3, 11] \<le> [3, 9::int] \<and> [3, 9] \<le> [3, 14::int] \<longrightarrow> w = ''3.9'')"
proof (rule version_clamped)
  show "parsed ''3.9'' = Some [3, 9]" "parsed ''3.11'' = Some [3, 11]" "parsed ''3.14'' = Some [3, 14]"
    by code_simp+
qed simp

text \<open>the ABI pin is asked for exactly from 3.13 on, and is spelled from the first two
  components alone, so that a patch version asks for an ABI that exists.\<close>

theorem python_abi_of_release:
  assumes "parsed v = Some (3 # int minor # patch)"
  shows "python_abi_requirement v True =
     Some (if 13 \<le> minor then Some (''python_abi==3.'' @ show_nat minor @ ''=*_cp3'' @ show_nat minor) else None)"
proof -
  have d: "\<forall>c \<in> set (show_nat n). c \<noteq> CHR ''.''" for n
    using show_nat_digits [of n] by (auto simp: is_digit_def code_def)
  then have f: "filter (\<lambda>c. c \<noteq> CHR ''.'') (show_nat n) = show_nat n" for n
    by (simp add: filter_id_conv)
  have "show_int 3 = ''3''" by code_simp
  moreover have "show_int (int minor) = show_nat minor" by (simp add: show_int_def)
  ultimately have mm: "major_minor v = Some (''3.'' @ show_nat minor)"
    using assms by (simp add: major_minor_def)
  have "parsed MIN_PYTHON_VERSION_FREE_THREADING = Some [3, 13]" by code_simp
  then have "is_at_least v MIN_PYTHON_VERSION_FREE_THREADING = Some (13 \<le> minor)"
    using assms by (cases patch) (auto simp: is_at_least_def le_less)
  then show ?thesis using mm f by (simp add: python_abi_requirement_def)
qed

theorem python_abi_of_release_witness:
  "python_abi_requirement ''3.14.2'' True = Some (Some (''python_abi==3.14=*_cp314''))"
proof -
  have "parsed ''3.14.2'' = Some (3 # int 14 # [2])" by code_simp
  moreover have "show_nat 14 = ''14''" by code_simp
  ultimately show ?thesis using python_abi_of_release [of "''3.14.2''" 14 "[2]"] by simp
qed

text \<open>The requirements that make up an environment.\<close>

definition requirement_set :: "string option list \<Rightarrow> string set" where
  "requirement_set rs = {strip r | r. Some r \<in> set rs \<and> strip r \<noteq> []}"

text \<open>the key of an environment says what it holds and nothing else: the order, repetition and
  spacing of the requirements do not change it, an empty one counts as none, and two environments
  of one interpreter with different requirements have different keys.\<close>

theorem environment_key_identity:
  assumes "\<forall>r \<in> requirement_set rs \<union> requirement_set rs'. CHR '';'' \<notin> set r"
  shows "environment_cache_key i v rs img = environment_cache_key i v rs' img
     \<longleftrightarrow> requirement_set rs = requirement_set rs'"
proof -
  define u where "u = (\<lambda>rs. sort (remdups (filter (\<lambda>r. r \<noteq> [])
    (map strip (concat (map (\<lambda>r. case r of None \<Rightarrow> [] | Some r \<Rightarrow> [r]) rs))))))"
  have set_u: "set (u rs) = requirement_set rs" for rs
    by (force simp: u_def requirement_set_def split: option.splits)
  have "sorted (u rs) \<and> distinct (u rs)" for rs by (simp add: u_def)
  then have uniq: "u rs = u rs' \<longleftrightarrow> requirement_set rs = requirement_set rs'"
    using set_u by (metis sorted_distinct_set_unique)
  have nonempty: "r \<noteq> []" if "r \<in> set (u rs)" for r rs
    using that by (simp add: u_def)
  have key: "environment_cache_key i v rs img = environment_cache_key i v rs' img
    \<longleftrightarrow> join '';'' (u rs) = join '';'' (u rs')"
    by (simp add: environment_cache_key_def u_def Let_def split: option.splits)
  have split: "split_on (CHR '';'') (join '';'' (u rs)) = (if u rs = [] then [[]] else u rs)"
    if "\<forall>r \<in> requirement_set rs. CHR '';'' \<notin> set r" for rs
    using that set_u [of rs] by (auto intro!: split_on_join)
  have "join '';'' (u rs) = join '';'' (u rs') \<longleftrightarrow> u rs = u rs'"
  proof
    assume "join '';'' (u rs) = join '';'' (u rs')"
    then have "(if u rs = [] then [[]] else u rs) = (if u rs' = [] then [[]] else u rs')"
      using split [of rs] split [of rs'] assms by auto
    then show "u rs = u rs'"
      using nonempty [of "[]" rs] nonempty [of "[]" rs'] by (metis list.set_intros(1))
  qed simp
  then show ?thesis using key uniq by simp
qed

theorem environment_key_identity_witness:
  "environment_cache_key ''python'' ''3.11'' [Some ''b==1'', None, Some '' a''] None
   = environment_cache_key ''python'' ''3.11'' [Some ''a'', Some ''b==1 '', Some ''a'', Some []] None"
proof -
  have strips: "strip ''b==1'' = ''b==1''" "strip '' a'' = ''a''" "strip ''a'' = ''a''" "strip ''b==1 '' = ''b==1''"
    by code_simp+
  have eq: "requirement_set [Some ''b==1'', None, Some '' a''] = {''b==1'', ''a''}"
    "requirement_set [Some ''a'', Some ''b==1 '', Some ''a'', Some []] = {''b==1'', ''a''}"
    unfolding requirement_set_def using strips by (auto; metis list.distinct(1))+
  have "\<forall>r \<in> requirement_set [Some ''b==1'', None, Some '' a'']
      \<union> requirement_set [Some ''a'', Some ''b==1 '', Some ''a'', Some []]. CHR '';'' \<notin> set r"
    unfolding eq by simp
  from environment_key_identity [OF this] show ?thesis unfolding eq by simp
qed

text \<open>the name of an npm requirement: of one from the registry, what precedes the version, the
  leading @ of a scope apart; of a location, the location itself.\<close>

theorem js_package_name_of:
  assumes "CHR ''@'' \<notin> set n" and "n \<noteq> []" and "strip (n @ ''@'' @ v) = n @ ''@'' @ v"
    and "strip (''@'' @ n @ ''@'' @ v) = ''@'' @ n @ ''@'' @ v"
  shows "is_registry_js_requirement (n @ ''@'' @ v) \<Longrightarrow> js_package_name (n @ ''@'' @ v) = n"
    and "is_registry_js_requirement (''@'' @ n @ ''@'' @ v) \<Longrightarrow> js_package_name (''@'' @ n @ ''@'' @ v) = ''@'' @ n"
proof -
  have p: "partition1 (CHR ''@'') (n @ CHR ''@'' # v) = (n, True, v)"
    using assms(1) by (rule partition1_found)
  have "n \<noteq> [] \<and> hd n \<noteq> CHR ''@''" using assms(1,2) by (cases n) auto
  then have "\<not> prefix ''@'' (n @ ''@'' @ v)" by (cases n) auto
  then show "is_registry_js_requirement (n @ ''@'' @ v) \<Longrightarrow> js_package_name (n @ ''@'' @ v) = n"
    using assms(2,3) p by (simp add: js_package_name_def)
  show "is_registry_js_requirement (''@'' @ n @ ''@'' @ v) \<Longrightarrow> js_package_name (''@'' @ n @ ''@'' @ v) = ''@'' @ n"
    using assms(4) p by (simp add: js_package_name_def)
qed

end
