(* ===== verification/Paths.thy ===== *)
theory Paths
  imports Prelude
begin

text \<open>
  The file names the sources compute with: \<open>os.path\<close> of a POSIX system, as the functions of
  \<open>posixpath\<close> are written. No function here looks at a file system; the current directory is a
  parameter where one is needed.
\<close>

section \<open>Functions\<close>

abbreviation is_absolute :: "string \<Rightarrow> bool" where
  "is_absolute p \<equiv> starts_with p ''/''"

fun path_join :: "string \<Rightarrow> string list \<Rightarrow> string" where
  "path_join a [] = a"
| "path_join a (b # bs) =
     path_join (if is_absolute b then b else if a = [] \<or> ends_with a ''/'' then a @ b else a @ ''/'' @ b) bs"

text \<open>The components of a path that name something, \<open>..\<close> resolved against what precedes it.\<close>

fun norm_comps :: "bool \<Rightarrow> string list \<Rightarrow> string list \<Rightarrow> string list" where
  "norm_comps rooted acc [] = rev acc"
| "norm_comps rooted acc (c # cs) =
     (if c = [] \<or> c = ''.'' then norm_comps rooted acc cs
      else if c \<noteq> ''..'' \<or> (\<not> rooted \<and> acc = []) \<or> (acc \<noteq> [] \<and> hd acc = ''..'')
      then norm_comps rooted (c # acc) cs
      else norm_comps rooted (tl acc) cs)"

definition initial_slashes :: "string \<Rightarrow> string" where
  "initial_slashes p =
     (if starts_with p ''//'' \<and> \<not> starts_with p ''///'' then ''//''
      else if is_absolute p then ''/'' else [])"

definition normpath :: "string \<Rightarrow> string" where
  "normpath p =
     (if p = [] then ''.''
      else let r = initial_slashes p @ join ''/'' (norm_comps (is_absolute p) [] (split_on (CHR ''/'') p))
           in if r = [] then ''.'' else r)"

definition abspath :: "string \<Rightarrow> string \<Rightarrow> string" where
  "abspath cwd p = normpath (if is_absolute p then p else path_join cwd [p])"

definition path_comps :: "string \<Rightarrow> string list" where
  "path_comps p = filter (\<lambda>c. c \<noteq> [] \<and> c \<noteq> ''.'') (split_on (CHR ''/'') p)"

text \<open>\<open>commonpath\<close> of two paths; of an absolute and a relative one it raises.\<close>

definition commonpath2 :: "string \<Rightarrow> string \<Rightarrow> string option" where
  "commonpath2 p q =
     (if is_absolute p \<noteq> is_absolute q then None
      else Some ((if is_absolute p then ''/'' else [])
                 @ join ''/'' (longest_common_prefix (path_comps p) (path_comps q))))"

section \<open>Lemmas\<close>

text \<open>A component that stays where it is.\<close>

abbreviation plain :: "string \<Rightarrow> bool" where
  "plain c \<equiv> c \<noteq> [] \<and> c \<noteq> ''.'' \<and> c \<noteq> ''..''"

lemma norm_comps_plain:
  "\<forall>c \<in> set acc. plain c \<Longrightarrow> c \<in> set (norm_comps True acc cs) \<Longrightarrow> plain c"
proof (induction cs arbitrary: acc)
  case (Cons x cs)
  have t: "\<forall>c \<in> set (tl acc). plain c"
    using Cons.prems(1) by (cases acc) simp_all
  have h: "\<not> (acc \<noteq> [] \<and> hd acc = ''..'')"
    using Cons.prems(1) by (cases acc) simp_all
  consider (skip) "x = [] \<or> x = ''.''" | (up) "x = ''..''" | (keep) "plain x" by blast
  then show ?case
  proof cases
    case skip
    then have "norm_comps True acc (x # cs) = norm_comps True acc cs" by simp
    with Cons show ?thesis by metis
  next
    case up
    then have "norm_comps True acc (x # cs) = norm_comps True (tl acc) cs" using h by auto
    with Cons.IH [OF t] Cons.prems(2) show ?thesis by metis
  next
    case keep
    then have "norm_comps True acc (x # cs) = norm_comps True (x # acc) cs" by simp
    with Cons.IH [of "x # acc"] Cons.prems keep show ?thesis by (metis set_ConsD)
  qed
qed simp

lemma norm_comps_id:
  "\<forall>c \<in> set cs. plain c \<Longrightarrow> norm_comps rooted acc cs = rev acc @ cs"
  by (induction cs arbitrary: acc) auto

lemma norm_comps_pieces: "c \<in> set (norm_comps rooted acc cs) \<Longrightarrow> c \<in> set acc \<or> c \<in> set cs"
proof (induction rooted acc cs rule: norm_comps.induct)
  case (2 rooted acc x cs)
  have "set (tl acc) \<subseteq> set acc" by (cases acc) auto
  with 2 show ?case by (auto split: if_splits)
qed auto

lemma path_comps_join:
  assumes "\<forall>c \<in> set cs. plain c \<and> CHR ''/'' \<notin> set c" and "set pre \<subseteq> {CHR ''/''}"
    and "pre \<noteq> [] \<or> cs \<noteq> []"
  shows "path_comps (pre @ join ''/'' cs) = cs"
  using assms(2)
proof (induction pre)
  case Nil
  show ?case
  proof (cases "cs = []")
    case False
    then have "split_on (CHR ''/'') (join ''/'' cs) = cs"
      using assms(1) by (auto intro: split_on_join)
    then show ?thesis using assms(1) by (simp add: path_comps_def filter_id_conv)
  qed (simp add: path_comps_def)
next
  case (Cons a pre)
  then show ?case by (simp add: path_comps_def)
qed

text \<open>What \<open>abspath\<close> returns is rooted, and its components are the normal ones.\<close>

lemma abspath_comps:
  assumes "is_absolute cwd" and "q = (if is_absolute p then p else path_join cwd [p])"
  shows "path_comps (abspath cwd p) = norm_comps True [] (split_on (CHR ''/'') q)"
    and "is_absolute (abspath cwd p)" and "c \<in> set (path_comps (abspath cwd p)) \<Longrightarrow> plain c"
proof -
  let ?cs = "norm_comps True [] (split_on (CHR ''/'') q)"
  have q: "is_absolute q" using assms by auto
  then have i: "initial_slashes q \<noteq> []" "set (initial_slashes q) \<subseteq> {CHR ''/''}" "is_absolute (initial_slashes q @ x)" for x
    by (auto simp: initial_slashes_def)
  have a: "abspath cwd p = initial_slashes q @ join ''/'' ?cs"
    using q i assms(2) by (auto simp: abspath_def normpath_def Let_def)
  have "plain c \<and> CHR ''/'' \<notin> set c" if "c \<in> set ?cs" for c
    using that norm_comps_plain [of "[]"] norm_comps_pieces [of c True "[]"] split_on_pieces by fastforce
  then show cs: "path_comps (abspath cwd p) = ?cs"
    unfolding a using i by (intro path_comps_join) auto
  show "is_absolute (abspath cwd p)" using a i by simp
  show "c \<in> set (path_comps (abspath cwd p)) \<Longrightarrow> plain c"
    unfolding cs using norm_comps_plain [of "[]"] by auto
qed

lemma longest_common_prefix_is_left:
  "longest_common_prefix xs ys = xs \<longleftrightarrow> prefix xs ys"
  by (induction xs ys rule: longest_common_prefix.induct) auto

text \<open>A path whose common path with a directory is that directory is below it.\<close>

lemma commonpath_below:
  assumes "is_absolute cwd" and "commonpath2 (abspath cwd d) (abspath cwd p) = Some (abspath cwd d)"
  shows "prefix (path_comps (abspath cwd d)) (path_comps (abspath cwd p))"
proof -
  let ?l = "longest_common_prefix (path_comps (abspath cwd d)) (path_comps (abspath cwd p))"
  have l: "prefix ?l (path_comps (abspath cwd d))"
    by (rule longest_common_prefix_prefix1)
  have "abspath cwd d = ''/'' @ join ''/'' ?l"
    using assms abspath_comps(2) [OF assms(1) refl] by (simp add: commonpath2_def)
  moreover have "plain c \<and> CHR ''/'' \<notin> set c" if "c \<in> set ?l" for c
  proof -
    have c: "c \<in> set (path_comps (abspath cwd d))" using that l set_mono_prefix by blast
    have "c \<in> set (split_on (CHR ''/'') (abspath cwd d))" using c by (simp add: path_comps_def)
    then show ?thesis
      using abspath_comps(3) [OF assms(1) refl c] split_on_pieces by blast
  qed
  ultimately have "path_comps (abspath cwd d) = ?l"
    using path_comps_join [of ?l "''/''"] by auto
  moreover have "prefix ?l (path_comps (abspath cwd p))"
    by (rule longest_common_prefix_prefix2)
  ultimately show ?thesis by (rule ssubst)
qed

end
