(* ===== verification/OutputFormats.thy ===== *)
theory OutputFormats
  imports Names Codecs Paths SandboxVersions
begin

text \<open>
  \<open>partcad/output.py\<close> and the output half of \<open>partcad/shape.py\<close>: which implementation writes,
  reads, analyses or simulates a file type, with what options, in what sandbox, and where the file
  goes. The configurations of the packages involved are layered, lowest priority first.

  A package is what these functions read of a \<open>Project\<close>; \<open>ctx\<close> is the lookup of a package by
  name. The messages of raised exceptions are not modelled, the kinds are.
\<close>

section \<open>Sections and keys\<close>

definition EXPORT :: string where "EXPORT = ''export''"
definition RENDER :: string where "RENDER = ''render''"
definition CAE :: string where "CAE = ''cae''"
definition CAM :: string where "CAM = ''cam''"
definition SIMULATE :: string where "SIMULATE = ''simulation''"
definition IMPORT :: string where "IMPORT = ''import''"
definition OPEN :: string where "OPEN = ''open''"

definition SECTIONS :: "string list" where "SECTIONS = [EXPORT, RENDER]"

definition BUILTIN_PACKAGES :: "(string \<times> string) list" where
  "BUILTIN_PACKAGES =
     [(EXPORT, ''//builtin/export''), (RENDER, ''//builtin/render''), (IMPORT, ''//builtin/import''),
      (OPEN, ''//builtin/open''), (CAM, ''//builtin/cam'')]"

definition NON_WRAPPER_FORMATS :: "string list" where
  "NON_WRAPPER_FORMATS = [''readme'', ''markdown'', ''pdf'', ''html'']"

definition SECTION_KEYS :: "string list" where "SECTION_KEYS = [''output_dir'']"

definition IMPLEMENTATION_KEYS :: "string list" where
  "IMPLEMENTATION_KEYS =
     [''path'', ''package'', ''pythonRequirements'', ''pythonVersion'', ''dockerImage'', ''decode'', ''container'']"

definition OUTPUT_KEYS :: "string list" where
  "OUTPUT_KEYS = [''extension'', ''prefix'', ''exclude'', ''output_dir'']"

definition RESERVED_KEYS :: "string list" where
  "RESERVED_KEYS = IMPLEMENTATION_KEYS @ OUTPUT_KEYS @ [''desc'']"

definition SIMULATION_KEYS :: "string list" where "SIMULATION_KEYS = [''format'', ''formatOptions'']"
definition IMPORT_KEYS :: "string list" where "IMPORT_KEYS = [''kinds'', ''noun'', ''dropped'']"

definition REPRODUCIBLE_KEY :: string where "REPRODUCIBLE_KEY = ''reproducible''"

abbreviation get_none :: "pydict \<Rightarrow> string \<Rightarrow> pyval" where
  "get_none d k \<equiv> (case map_of d k of None \<Rightarrow> PNone | Some v \<Rightarrow> v)"

abbreviation por :: "pyval \<Rightarrow> pyval \<Rightarrow> pyval" where
  "por a b \<equiv> (if truthy a then a else b)"

fun format_names :: "pyval \<Rightarrow> string list" where
  "format_names (PDict section_obj) = filter (\<lambda>name. name \<notin> set SECTION_KEYS) (map fst section_obj)"
| "format_names _ = []"

definition name_to_path :: "string \<Rightarrow> string \<Rightarrow> string" where
  "name_to_path name sfx =
     (let parts = split_on (CHR ''/'') name;
          directories = butlast parts; stem = List.last parts @ sfx
      in case directories of [] \<Rightarrow> stem | d # ds \<Rightarrow> path_join d (ds @ [stem]))"

definition name_dirs :: "string \<Rightarrow> string" where
  "name_dirs name =
     (case butlast (split_on (CHR ''/'') name) of [] \<Rightarrow> [] | d # ds \<Rightarrow> path_join d ds)"

section \<open>One layer and the next\<close>

fun normalize_format :: "pyval \<Rightarrow> pyval" where
  "normalize_format PNone = PDict []"
| "normalize_format (PStr s) = PDict [(''prefix'', PStr s)]"
| "normalize_format config = config"

text \<open>\<open>normalize(config).get(key)\<close>: what is neither a mapping nor a text has no \<open>get\<close>.\<close>

fun format_get :: "pyval \<Rightarrow> string \<Rightarrow> exn + pyval" where
  "format_get config key =
     (case normalize_format config of PDict d \<Rightarrow> Inr (get_none d key) | _ \<Rightarrow> Inl AttributeError)"

definition is_document_format :: "string \<Rightarrow> pyval \<Rightarrow> exn + bool" where
  "is_document_format format_name section_obj =
     (if format_name \<notin> set NON_WRAPPER_FORMATS then Inr False
      else case section_obj of
        PDict d \<Rightarrow> (case format_get (get_none d format_name) ''path'' of
                      Inl e \<Rightarrow> Inl e | Inr v \<Rightarrow> Inr (\<not> truthy v))
      | _ \<Rightarrow> Inr True)"

definition as_flag :: "pyval \<Rightarrow> exn + bool" where
  "as_flag v =
     (case v of
        PNone \<Rightarrow> Inr False
      | PBool b \<Rightarrow> Inr b
      | PStr s \<Rightarrow>
          (let t = lower (strip s) in
           if t \<in> {''true'', ''yes'', ''on'', ''1''} then Inr True
           else if t \<in> {''false'', ''no'', ''off'', ''0'', []} then Inr False
           else Inl ValueError)
      | _ \<Rightarrow> Inl ValueError)"

fun merge_into :: "pydict \<Rightarrow> pydict \<Rightarrow> pydict" where
  "merge_into result [] = result"
| "merge_into result ((key, v) # overlay) =
     merge_into (AList.update key
       (case v of
          PDict o' \<Rightarrow> (case map_of result key of Some (PDict b) \<Rightarrow> PDict (merge_into b o') | _ \<Rightarrow> v)
        | _ \<Rightarrow> v) result) overlay"

definition stamp :: "pyval \<Rightarrow> string \<Rightarrow> exn + pydict" where
  "stamp config package_name =
     (case config of
        PDict d \<Rightarrow>
          if \<not> truthy (get_none d ''path'') then Inr d
          else if truthy (get_none d ''package'') then Inr d
          else Inr (AList.update ''package'' (PStr package_name) d)
      | _ \<Rightarrow> Inl AttributeError)"

definition config_sections :: "string \<Rightarrow> string list" where
  "config_sections section_name =
     (if section_name \<in> {CAE, CAM, SIMULATE, IMPORT, OPEN} then [section_name]
      else if section_name = EXPORT then [RENDER, EXPORT] else [EXPORT, RENDER])"

definition split_format :: "string \<Rightarrow> pyval \<Rightarrow> exn + (pyval \<times> string option)" where
  "split_format this_project format_name =
     (case format_name of
        PStr s \<Rightarrow>
          if CHR '':'' \<in> set s
          then (case resolve_resource_path this_project s of
                  Inl e \<Rightarrow> Inl e
                | Inr (package, name) \<Rightarrow> Inr (PStr name, Some package))
          else Inr (format_name, None)
      | _ \<Rightarrow> Inr (format_name, None))"

section \<open>Packages\<close>

record package =
  package_name :: string
  config_obj :: pydict
  config_dir :: string
  python_version_declared :: pyval
  docker_image_declared :: pyval

type_synonym registry = "string \<Rightarrow> package option"

definition builtin_project :: "registry \<Rightarrow> string \<Rightarrow> package option" where
  "builtin_project ctx section_name = Option.bind (map_of BUILTIN_PACKAGES section_name) ctx"

definition builtin_formats :: "registry \<Rightarrow> string \<Rightarrow> pydict" where
  "builtin_formats ctx section_name =
     (case builtin_project ctx section_name of
        None \<Rightarrow> []
      | Some p \<Rightarrow> (case get_none (config_obj p) section_name of PDict d \<Rightarrow> d | _ \<Rightarrow> []))"

definition section_of :: "registry \<Rightarrow> string \<Rightarrow> string option" where
  "section_of ctx format_name =
     find (\<lambda>section_name. dict_has (builtin_formats ctx section_name) format_name) SECTIONS"

definition all_formats :: "registry \<Rightarrow> string list" where
  "all_formats ctx =
     foldl (\<lambda>formats section_name. formats @ filter (\<lambda>name. name \<notin> set formats)
              (format_names (PDict (builtin_formats ctx section_name))))
       [] [RENDER, EXPORT]"

section \<open>Implementations\<close>

record implementation =
  impl_section :: string
  impl_format :: string
  impl_config :: pydict
  impl_project :: "package option"
  impl_script :: pyval
  impl_decode :: bool

definition new_implementation :: "string \<Rightarrow> string \<Rightarrow> pydict \<Rightarrow> package option \<Rightarrow> implementation" where
  "new_implementation section_name format_name config project =
     \<lparr>impl_section = section_name, impl_format = format_name, impl_config = config, impl_project = project,
      impl_script = get_none config ''path'',
      impl_decode = (map_of config ''decode'' \<noteq> Some (PBool False))\<rparr>"

definition impl_reproducible :: "implementation \<Rightarrow> exn + bool" where
  "impl_reproducible impl = as_flag (get_none (impl_config impl) REPRODUCIBLE_KEY)"

definition impl_reserved :: "implementation \<Rightarrow> string list" where
  "impl_reserved impl =
     (if impl_section impl = SIMULATE then RESERVED_KEYS @ SIMULATION_KEYS
      else if impl_section impl = IMPORT then RESERVED_KEYS @ IMPORT_KEYS
      else RESERVED_KEYS)"

definition impl_parameters :: "implementation \<Rightarrow> pydict" where
  "impl_parameters impl = dict_restrict (\<lambda>k. k \<notin> set (impl_reserved impl)) (impl_config impl)"

definition impl_extension :: "implementation \<Rightarrow> pyval \<Rightarrow> pyval" where
  "impl_extension impl dflt = por (get_none (impl_config impl) ''extension'') dflt"

fun declared_in :: "pydict \<Rightarrow> string \<Rightarrow> string \<Rightarrow> pyval \<Rightarrow> string list \<Rightarrow> exn + pyval" where
  "declared_in config format_name key v [] = Inr v"
| "declared_in config format_name key v (section_name # sections) =
     (case get_none config section_name of
        PDict section_obj \<Rightarrow>
          (case format_get (get_none section_obj format_name) key of
             Inl e \<Rightarrow> Inl e
           | Inr x \<Rightarrow> declared_in config format_name key (por x v) sections)
      | _ \<Rightarrow> declared_in config format_name key v sections)"

definition impl_declared :: "implementation \<Rightarrow> string \<Rightarrow> exn + pyval" where
  "impl_declared impl key =
     (case impl_project impl of
        None \<Rightarrow> Inr PNone
      | Some p \<Rightarrow> declared_in (config_obj p) (impl_format impl) key PNone (config_sections (impl_section impl)))"


definition impl_python_version :: "implementation \<Rightarrow> exn + pyval" where
  "impl_python_version impl =
     (case impl_declared impl ''pythonVersion'' of
        Inl e \<Rightarrow> Inl e
      | Inr v \<Rightarrow> Inr (por v (por (case impl_project impl of None \<Rightarrow> PNone | Some p \<Rightarrow> python_version_declared p)
                              (PStr DEFAULT_PYTHON_VERSION))))"

definition impl_container :: "implementation \<Rightarrow> exn + pydict option" where
  "impl_container impl =
     (case impl_declared impl ''container'' of
        Inl e \<Rightarrow> Inl e
      | Inr v \<Rightarrow>
          if \<not> truthy v then Inr None
          else (case (case v of PStr s \<Rightarrow> PDict [(''image'', PStr s)] | _ \<Rightarrow> v) of
                  PDict d \<Rightarrow> if truthy (get_none d ''image'') then Inr (Some d) else Inl ValueError
                | _ \<Rightarrow> Inl ValueError))"

definition impl_docker_image :: "(pyval \<Rightarrow> string) \<Rightarrow> implementation \<Rightarrow> exn + string option" where
  "impl_docker_image repr impl =
     (case impl_declared impl ''dockerImage'' of
        Inl e \<Rightarrow> Inl e
      | Inr v \<Rightarrow>
          if truthy v then Inr (Some (py_str repr v))
          else (case impl_project impl of
                  None \<Rightarrow> Inr None
                | Some p \<Rightarrow> if truthy (docker_image_declared p)
                             then Inr (Some (py_str repr (docker_image_declared p))) else Inr None))"

text \<open>\<open>list(v)\<close>\<close>

fun py_list :: "pyval \<Rightarrow> exn + pyval list" where
  "py_list (PList xs) = Inr xs"
| "py_list (PStr s) = Inr (map (\<lambda>c. PStr [c]) s)"
| "py_list (PBytes s) = Inr (map (\<lambda>c. PInt (int (code c))) s)"
| "py_list (PDict d) = Inr (map (\<lambda>kv. PStr (fst kv)) d)"
| "py_list _ = Inl TypeError"

definition impl_python_requirements :: "implementation \<Rightarrow> exn + pyval list" where
  "impl_python_requirements impl =
     (case impl_declared impl ''pythonRequirements'' of Inl e \<Rightarrow> Inl e | Inr v \<Rightarrow> py_list (por v (PList [])))"

section \<open>Who reads a format\<close>

text \<open>The layers that say something of the file type, merged in their order.\<close>

fun import_layers :: "string \<Rightarrow> pydict \<Rightarrow> bool \<Rightarrow> (string \<times> pydict) list \<Rightarrow> exn + (pydict \<times> bool)" where
  "import_layers format_name opts found [] = Inr (opts, found)"
| "import_layers format_name opts found ((layer_package, config) # layers) =
     (case get_none config IMPORT of
        PDict section_obj \<Rightarrow>
          (case map_of section_obj format_name of
             None \<Rightarrow> import_layers format_name opts found layers
           | Some v \<Rightarrow>
               (case stamp (normalize_format v) layer_package of
                  Inl e \<Rightarrow> Inl e
                | Inr layer \<Rightarrow> import_layers format_name (merge_into opts layer) True layers))
      | _ \<Rightarrow> import_layers format_name opts found layers)"

text \<open>\<open>get_project_from\<close> looks a package up on behalf of another that may still be loading.\<close>

definition import_declaration ::
  "registry \<Rightarrow> (package \<Rightarrow> string \<Rightarrow> package option) \<Rightarrow> package \<Rightarrow> pyval \<Rightarrow> exn + implementation option" where
  "import_declaration ctx get_project_from project type_name =
     (case type_name of
        PStr t \<Rightarrow>
          if t = [] then Inr None
          else
            (case (if CHR '':'' \<in> set t
                   then (case resolve_resource_path (package_name project) t of
                           Inl e \<Rightarrow> Inl e
                         | Inr (plugin_package, format_name) \<Rightarrow>
                             (case get_project_from project plugin_package of
                                None \<Rightarrow> Inr None
                              | Some p \<Rightarrow> Inr (Some (format_name, [(package_name p, config_obj p)]))))
                   else Inr (Some (t, (case builtin_project ctx IMPORT of
                                         None \<Rightarrow> [] | Some b \<Rightarrow> [(package_name b, config_obj b)])
                                      @ [(package_name project, config_obj project)]))) of
               Inl e \<Rightarrow> Inl e
             | Inr None \<Rightarrow> Inr None
             | Inr (Some (format_name, layers)) \<Rightarrow>
                 (case import_layers format_name [] False layers of
                    Inl e \<Rightarrow> Inl e
                  | Inr (opts, found) \<Rightarrow>
                      Inr (if found then Some (new_implementation IMPORT format_name opts None) else None)))
      | _ \<Rightarrow> Inr None)"

definition import_kinds :: "(pyval \<Rightarrow> string) \<Rightarrow> implementation \<Rightarrow> string list" where
  "import_kinds repr impl =
     (case (case get_none (impl_config impl) ''kinds'' of PStr s \<Rightarrow> PList [PStr s] | v \<Rightarrow> v) of
        PList (k # ks) \<Rightarrow> map (py_str repr) (k # ks)
      | _ \<Rightarrow> [''assembly'', ''scene''])"

definition resolve_plugin :: "registry \<Rightarrow> string \<Rightarrow> string \<Rightarrow> exn + implementation" where
  "resolve_plugin ctx this_package spec =
     (case resolve_resource_path this_package spec of
        Inl e \<Rightarrow> Inl e
      | Inr (plugin_package, plugin_name) \<Rightarrow>
          (case ctx plugin_package of
             None \<Rightarrow> Inl (Raised ''package not found'')
           | Some project \<Rightarrow>
               (case por (get_none (config_obj project) SIMULATE) (PDict []) of
                  PDict section_obj \<Rightarrow>
                    (case get_none section_obj plugin_name of
                       PNone \<Rightarrow> Inl (Raised ''no such simulation'')
                     | v \<Rightarrow>
                         (case stamp (normalize_format v) plugin_package of
                            Inl e \<Rightarrow> Inl e
                          | Inr config \<Rightarrow> Inr (new_implementation SIMULATE plugin_name config (Some project))))
                | _ \<Rightarrow> Inl AttributeError)))"

section \<open>The script of an implementation\<close>

text \<open>
  The file system and the repository of the package are parameters: whether a path exists, and what
  the repository provides for a file (base64 text or bytes), where the package has a repository at
  all. The result is the path and what was written to it.
\<close>

definition materialize_script ::
  "string \<Rightarrow> (string \<Rightarrow> bool) \<Rightarrow> (string \<Rightarrow> (string \<Rightarrow> (string + string) option) option) \<Rightarrow> registry
   \<Rightarrow> implementation \<Rightarrow> exn + (string \<times> string option)" where
  "materialize_script cwd exists get_data_async ctx impl =
     (let builtin_package = map_of BUILTIN_PACKAGES (impl_section impl) in
      if \<not> truthy (impl_script impl) then Inl (Raised ''no implementation is declared'')
      else
        (case (if truthy (get_none (impl_config impl) ''package'') then get_none (impl_config impl) ''package''
               else case builtin_package of None \<Rightarrow> PNone | Some b \<Rightarrow> PStr b) of
           PStr pkg \<Rightarrow>
             (case ctx pkg of
                None \<Rightarrow> Inl (Raised ''package not found'')
              | Some project \<Rightarrow>
                  (case impl_script impl of
                     PStr script \<Rightarrow>
                       (let dir = abspath cwd (config_dir project);
                            script_abs = abspath cwd (path_join dir [script])
                        in if commonpath2 dir script_abs \<noteq> Some dir then Inl (Raised ''outside its package'')
                           else if exists script_abs then Inr (script_abs, None)
                           else (case get_data_async pkg of
                                   None \<Rightarrow> Inl (Raised ''not found'')
                                 | Some get \<Rightarrow>
                                     (case get (''files/'' @ script) of
                                        None \<Rightarrow> Inl (Raised ''not provided'')
                                      | Some (Inr bytes) \<Rightarrow> Inr (script_abs, Some bytes)
                                      | Some (Inl text) \<Rightarrow>
                                          (case b64decode text of
                                             None \<Rightarrow> Inl ValueError
                                           | Some bytes \<Rightarrow> Inr (script_abs, Some bytes)))))
                   | _ \<Rightarrow> Inl TypeError))
         | PNone \<Rightarrow> Inl (Raised ''no package'')
         | _ \<Rightarrow> Inl TypeError))"

section \<open>Output files of a shape\<close>

definition PART_EXTENSION_MAPPING :: "(string \<times> string) list" where
  "PART_EXTENSION_MAPPING =
     [(''step'', ''step''), (''brep'', ''brep''), (''stl'', ''stl''), (''3mf'', ''3mf''), (''threejs'', ''json''),
      (''obj'', ''obj''), (''iges'', ''iges''), (''gltf'', ''json''), (''urdf'', ''urdf''), (''cadquery'', ''py''),
      (''build123d'', ''py''), (''chili3d'', ''chili''), (''sdf'', ''py''), (''scad'', ''scad'')]"

definition SKETCH_EXTENSION_MAPPING :: "(string \<times> string) list" where
  "SKETCH_EXTENSION_MAPPING =
     [(''svg'', ''svg''), (''dxf'', ''dxf''), (''cadquery'', ''py''), (''build123d'', ''py'')]"

definition RENDER_EXTENSION_MAPPING :: "(string \<times> string) list" where
  "RENDER_EXTENSION_MAPPING = [(''svg'', ''svg''), (''png'', ''png''), (''jpeg'', ''jpg''), (''dxf'', ''dxf'')]"

text \<open>What these functions read of a \<open>Shape\<close>.\<close>

record shape_id =
  shape_name :: string
  shape_project :: string
  shape_config :: pydict

definition output_implementor :: "registry \<Rightarrow> shape_id \<Rightarrow> string \<Rightarrow> exn + (string \<times> package option)" where
  "output_implementor ctx shape format_name =
     (case split_format (shape_project shape) (PStr format_name) of
        Inl e \<Rightarrow> Inl e
      | Inr (PStr name, Some package) \<Rightarrow>
          (case ctx package of None \<Rightarrow> Inl (Raised ''package not found'') | Some p \<Rightarrow> Inr (name, Some p))
      | Inr _ \<Rightarrow> Inr (format_name, None))"

definition section_naming :: "string \<Rightarrow> pydict \<Rightarrow> string option" where
  "section_naming format_name config =
     find (\<lambda>candidate. format_name \<in> set (format_names (get_none config candidate))) SECTIONS"

fun first_some :: "('a \<Rightarrow> 'b option) \<Rightarrow> 'a list \<Rightarrow> 'b option" where
  "first_some f [] = None"
| "first_some f (x # xs) = (case f x of None \<Rightarrow> first_some f xs | Some y \<Rightarrow> Some y)"

abbreviation opt_list :: "'a option \<Rightarrow> 'a list" where
  "opt_list x \<equiv> (case x of None \<Rightarrow> [] | Some y \<Rightarrow> [y])"

definition output_section ::
  "registry \<Rightarrow> shape_id \<Rightarrow> string \<Rightarrow> package option \<Rightarrow> package option \<Rightarrow> package option \<Rightarrow> string" where
  "output_section ctx shape format_name project options_project impl_proj =
     (case first_some (\<lambda>p. section_naming format_name (config_obj p)) (opt_list impl_proj) of
        Some s \<Rightarrow> s
      | None \<Rightarrow>
          (case section_of ctx format_name of
             Some s \<Rightarrow> s
           | None \<Rightarrow>
               (case first_some (section_naming format_name)
                       (shape_config shape # map config_obj (opt_list project @ opt_list options_project)) of
                  Some s \<Rightarrow> s
                | None \<Rightarrow> EXPORT)))"

definition output_layers ::
  "registry \<Rightarrow> shape_id \<Rightarrow> string \<Rightarrow> package option \<Rightarrow> package option \<Rightarrow> package option \<Rightarrow> (string \<times> pydict) list" where
  "output_layers ctx shape section_name project options_project impl_proj =
     map (\<lambda>p. (package_name p, config_obj p))
       (opt_list (builtin_project ctx section_name) @ opt_list impl_proj @ opt_list options_project @ opt_list project)
     @ [(shape_project shape, shape_config shape)]"

text \<open>The two nested loops, one section of one layer at a time.\<close>

fun layer_options ::
  "string \<Rightarrow> pydict \<times> pyval \<Rightarrow> (string \<times> pyval) list \<Rightarrow> exn + (pydict \<times> pyval)" where
  "layer_options format_name acc [] = Inr acc"
| "layer_options format_name (opts, output_dir) ((layer_package, section_obj) # rest) =
     (case section_obj of
        PDict d \<Rightarrow>
          (let output_dir = por (get_none d ''output_dir'') output_dir
           in case map_of d format_name of
                None \<Rightarrow> layer_options format_name (opts, output_dir) rest
              | Some v \<Rightarrow>
                  (case stamp (normalize_format v) layer_package of
                     Inl e \<Rightarrow> Inl e
                   | Inr layer \<Rightarrow> layer_options format_name (merge_into opts layer, output_dir) rest))
      | _ \<Rightarrow> layer_options format_name (opts, output_dir) rest)"

definition output_options ::
  "string \<Rightarrow> string \<Rightarrow> (string \<times> pydict) list \<Rightarrow> exn + (pydict \<times> pyval)" where
  "output_options format_name section_name layers =
     layer_options format_name ([], PNone)
       (concat (map (\<lambda>(layer_package, config).
          map (\<lambda>s. (layer_package, get_none config s)) (config_sections section_name)) layers))"

text \<open>\<open>os.path.splitext(p)[1]\<close>\<close>

definition splitext_ext :: "string \<Rightarrow> string" where
  "splitext_ext p =
     (let base = List.last (split_on (CHR ''/'') p);
          (stem, dot, ext) = rpartition1 (CHR ''.'') base
      in if dot \<and> (\<exists>c \<in> set stem. c \<noteq> CHR ''.'') then ''.'' @ ext else [])"

definition output_filepath ::
  "(string \<Rightarrow> bool) \<Rightarrow> string \<Rightarrow> pydict \<Rightarrow> string option \<Rightarrow> string \<Rightarrow> string option \<Rightarrow> string option \<Rightarrow> string
   \<Rightarrow> exn + string" where
  "output_filepath isdir name opts output_dir extension project_dir filepath stem_suffix =
     (case filepath of
        Some f \<Rightarrow> Inr f
      | None \<Rightarrow>
          (case por (get_none opts ''prefix'') (PStr ''.'') of
             PStr f \<Rightarrow>
               (let f = (if is_absolute f then f
                         else if output_dir \<noteq> None \<and> output_dir \<noteq> Some [] then path_join (the output_dir) [f]
                         else case project_dir of None \<Rightarrow> f | Some d \<Rightarrow> path_join d [f]);
                    f = normpath f
                in Inr (if isdir f \<or> splitext_ext f = []
                        then path_join f [name_to_path name (stem_suffix @ extension)] else f))
           | _ \<Rightarrow> Inl TypeError))"

section \<open>Lemmas\<close>

text \<open>What one key of an overlay does to one key of the base.\<close>

definition overlay_value :: "pyval option \<Rightarrow> pyval \<Rightarrow> pyval" where
  "overlay_value base v =
     (case v of PDict o' \<Rightarrow> (case base of Some (PDict b) \<Rightarrow> PDict (merge_into b o') | _ \<Rightarrow> v) | _ \<Rightarrow> v)"

lemma map_of_merge_into:
  "wf_dict overlay \<Longrightarrow>
   map_of (merge_into base overlay) k =
     (case map_of overlay k of None \<Rightarrow> map_of base k | Some v \<Rightarrow> Some (overlay_value (map_of base k) v))"
proof (induction overlay arbitrary: base)
  case (Cons kv overlay)
  obtain key v where kv: "kv = (key, v)" by force
  then have "map_of overlay key = None" using Cons.prems by (auto simp: map_of_eq_None_iff)
  moreover have "merge_into base (kv # overlay)
      = merge_into (AList.update key (overlay_value (map_of base key) v) base) overlay"
    by (simp add: kv overlay_value_def)
  ultimately show ?case using Cons kv by (auto split: option.splits)
qed simp

lemma overlay_value_other: "\<not> is_dict v \<Longrightarrow> overlay_value b v = v"
  by (cases v) (auto simp: overlay_value_def)

text \<open>The value a path of keys leads to.\<close>

fun value_at :: "pyval \<Rightarrow> string list \<Rightarrow> pyval option" where
  "value_at v [] = Some v"
| "value_at (PDict d) (k # ks) = Option.bind (map_of d k) (\<lambda>v. value_at v ks)"
| "value_at v (k # ks) = None"

fun wf_value :: "pyval \<Rightarrow> bool" where
  "wf_value (PDict d) = (wf_dict d \<and> (\<forall>kv \<in> set d. wf_value (snd kv)))"
| "wf_value (PList xs) = (\<forall>x \<in> set xs. wf_value x)"
| "wf_value _ = True"

text \<open>A value of the overlay in the way of a path: a value that is not a mapping above its end.\<close>

fun blocked :: "pyval \<Rightarrow> string list \<Rightarrow> bool" where
  "blocked v [] = False"
| "blocked (PDict d) (k # ks) = (case map_of d k of None \<Rightarrow> False | Some v \<Rightarrow> blocked v ks)"
| "blocked v (k # ks) = True"

lemma value_at_other: "\<not> is_dict v \<Longrightarrow> value_at v ks = (if ks = [] then Some v else None)"
  by (cases v; cases ks) auto

lemma blocked_other: "\<not> is_dict v \<Longrightarrow> blocked v ks = (ks \<noteq> [])"
  by (cases v; cases ks) auto

lemma merge_leaf:
  assumes "\<not> is_dict x" and "wf_value (PDict overlay)"
  shows "value_at (PDict (merge_into base overlay)) p = Some x \<longleftrightarrow>
     value_at (PDict overlay) p = Some x
     \<or> value_at (PDict base) p = Some x \<and> value_at (PDict overlay) p = None \<and> \<not> blocked (PDict overlay) p"
  using assms(2)
proof (induction p arbitrary: base overlay)
  case Nil
  then show ?case using assms(1) by auto
next
  case (Cons k ks)
  show ?case
  proof (cases "map_of overlay k")
    case None
    then show ?thesis using Cons.prems by (simp add: map_of_merge_into)
  next
    case (Some v)
    then have m: "map_of (merge_into base overlay) k = Some (overlay_value (map_of base k) v)"
      using Cons.prems by (simp add: map_of_merge_into)
    have w: "wf_value v" using Some Cons.prems map_of_SomeD by fastforce
    show ?thesis
    proof (cases "is_dict v")
      case False
      then show ?thesis
        using Some m by (auto simp: overlay_value_other value_at_other blocked_other)
    next
      case True
      then obtain o' where v: "v = PDict o'" by (cases v) auto
      show ?thesis
      proof (cases "\<exists>b. map_of base k = Some (PDict b)")
        case True
        then obtain b where "map_of base k = Some (PDict b)" by blast
        then show ?thesis
          using Cons.IH [of o' b] Some m v w by (simp add: overlay_value_def)
      next
        case False
        then have "overlay_value (map_of base k) v = v"
          by (auto simp: overlay_value_def v split: option.splits pyval.splits)
        moreover have "ks = []" if "value_at (PDict base) (k # ks) = Some x"
        proof -
          from that obtain a where a: "map_of base k = Some a" "value_at a ks = Some x"
            by (cases "map_of base k") auto
          have "\<not> is_dict a" using False a(1) by (cases a) auto
          then show ?thesis using a(2) value_at_other [of a ks] by (auto split: if_splits)
        qed
        ultimately show ?thesis using Some m v assms(1) by auto
      qed
    qed
  qed
qed

text \<open>
  The layers of one file type as they enter the loop: a package, and what its section says of the
  type. A layer is coherent where naming a package comes with naming a script.
\<close>

definition layer_entries :: "string \<Rightarrow> (string \<times> pyval) list \<Rightarrow> (string \<times> pydict) list" where
  "layer_entries format_name layers =
     concat (map (\<lambda>(pkg, section_obj). case section_obj of
        PDict d \<Rightarrow> (case map_of d format_name of
            None \<Rightarrow> []
          | Some v \<Rightarrow> (case normalize_format v of PDict e \<Rightarrow> [(pkg, e)] | _ \<Rightarrow> []))
      | _ \<Rightarrow> []) layers)"

lemma layer_entries_iff:
  "(pkg, e) \<in> set (layer_entries format_name layers) \<longleftrightarrow>
     (\<exists>d v. (pkg, PDict d) \<in> set layers \<and> map_of d format_name = Some v \<and> normalize_format v = PDict e)"
proof -
  have one: "(pkg, e) \<in> set (layer_entries format_name [(p, s)]) \<longleftrightarrow>
      p = pkg \<and> (\<exists>d v. s = PDict d \<and> map_of d format_name = Some v \<and> normalize_format v = PDict e)" for p s
  proof (cases s)
    case (PDict d)
    then show ?thesis
    proof (cases "map_of d format_name")
      case (Some v)
      then show ?thesis using PDict by (cases "normalize_format v") (auto simp: layer_entries_def)
    qed (simp add: layer_entries_def)
  qed (simp_all add: layer_entries_def)
  have "layer_entries format_name (l # ls) = layer_entries format_name [l] @ layer_entries format_name ls" for l ls
    by (simp add: layer_entries_def)
  then show ?thesis
  proof (induction layers)
    case Nil
    then show ?case by (simp add: layer_entries_def)
  next
    case (Cons l ls)
    obtain p s where "l = (p, s)" by force
    then have "(pkg, e) \<in> set (layer_entries format_name (l # ls)) \<longleftrightarrow>
      (pkg, e) \<in> set (layer_entries format_name [(p, s)]) \<or> (pkg, e) \<in> set (layer_entries format_name ls)"
      using Cons.prems [of l ls] by simp
    then show ?case
      unfolding one Cons.IH [OF Cons.prems] using \<open>l = (p, s)\<close> by auto
  qed
qed

definition coherent :: "pydict \<Rightarrow> bool" where
  "coherent e \<longleftrightarrow> wf_dict e
     \<and> \<not> is_dict (get_none e ''path'') \<and> \<not> is_dict (get_none e ''package'')
     \<and> (dict_has e ''package'' \<longrightarrow> truthy (get_none e ''path''))"

text \<open>The script of the options is that of one entry, and so is its package.\<close>

definition script_of_entry :: "pydict \<Rightarrow> (string \<times> pydict) list \<Rightarrow> bool" where
  "script_of_entry opts entries \<longleftrightarrow>
     (truthy (get_none opts ''path'') \<longrightarrow>
       (\<exists>(pkg, e) \<in> set entries. get_none opts ''path'' = get_none e ''path''
          \<and> get_none opts ''package'' = por (get_none e ''package'') (PStr pkg)))"

lemma merge_get:
  assumes "wf_dict layer" and "\<not> is_dict (get_none layer k)"
  shows "get_none (merge_into opts layer) k = (if dict_has layer k then get_none layer k else get_none opts k)"
  using assms by (auto simp: map_of_merge_into overlay_value_other simp del: map_of_eq_Some_iff split: option.splits)

lemma stamp_layer:
  assumes "stamp (PDict e) pkg = Inr layer" and "coherent e"
  shows "wf_dict layer" and "get_none layer ''path'' = get_none e ''path''"
    and "dict_has layer ''path'' = dict_has e ''path''"
    and "dict_has layer ''package'' = truthy (get_none e ''path'')"
    and "truthy (get_none e ''path'') \<Longrightarrow> get_none layer ''package'' = por (get_none e ''package'') (PStr pkg)"
    and "\<not> is_dict (get_none layer ''package'')"
  using assms by (auto simp: stamp_def coherent_def simp del: map_of_eq_Some_iff split: if_splits option.splits)

lemma layer_step:
  assumes "stamp (PDict e) pkg = Inr layer" and "coherent e" and "script_of_entry opts entries"
  shows "script_of_entry (merge_into opts layer) (entries @ [(pkg, e)])"
proof (cases "truthy (get_none (merge_into opts layer) ''path'')")
  case True
  note l = stamp_layer [OF assms(1,2)]
  have np: "\<not> is_dict (get_none layer ''path'')"
    using l(2) assms(2) by (simp add: coherent_def)
  note path = merge_get [OF l(1) np, of opts] and pack = merge_get [OF l(1) l(6), of opts]
  show ?thesis
  proof (cases "dict_has layer ''path''")
    case True
    then have p: "get_none (merge_into opts layer) ''path'' = get_none e ''path''" using path l(2) by simp
    then have t: "truthy (get_none e ''path'')" using \<open>truthy (get_none (merge_into opts layer) ''path'')\<close> by simp
    then have "get_none (merge_into opts layer) ''package'' = por (get_none e ''package'') (PStr pkg)"
      using pack l(4,5) by simp
    then show ?thesis using p by (auto simp: script_of_entry_def)
  next
    case False
    then have e: "\<not> truthy (get_none e ''path'')" using l(3) by auto
    then have "get_none (merge_into opts layer) ''path'' = get_none opts ''path''"
      "get_none (merge_into opts layer) ''package'' = get_none opts ''package''"
      using False path pack l(4) by simp_all
    then show ?thesis using assms(3) by (auto simp: script_of_entry_def)
  qed
qed (simp add: script_of_entry_def)

lemma layer_options_invariant:
  assumes "layer_options format_name (opts, dir) layers = Inr (opts', dir')"
    and "\<forall>(pkg, e) \<in> set (layer_entries format_name layers). coherent e"
    and "script_of_entry opts entries"
  shows "script_of_entry opts' (entries @ layer_entries format_name layers)"
  using assms
proof (induction layers arbitrary: opts dir entries)
  case Nil
  then show ?case by (simp add: layer_entries_def)
next
  case (Cons l layers)
  obtain pkg section_obj where l: "l = (pkg, section_obj)" by force
  show ?case
  proof (cases "\<exists>d v e. section_obj = PDict d \<and> map_of d format_name = Some v \<and> normalize_format v = PDict e")
    case True
    then obtain d v e where d: "section_obj = PDict d" "map_of d format_name = Some v" "normalize_format v = PDict e"
      by blast
    then have en: "layer_entries format_name (l # layers) = (pkg, e) # layer_entries format_name layers"
      by (simp add: layer_entries_def l)
    obtain layer where st: "stamp (PDict e) pkg = Inr layer"
      by (cases "stamp (PDict e) pkg") (auto simp: stamp_def split: if_splits)
    have lo: "layer_options format_name (merge_into opts layer, por (get_none d ''output_dir'') dir) layers = Inr (opts', dir')"
      using Cons.prems(1) d st by (simp add: l Let_def)
    have co: "coherent e" "\<forall>(pkg, e) \<in> set (layer_entries format_name layers). coherent e"
      using Cons.prems(2) en by simp_all
    from Cons.IH [OF lo co(2) layer_step [OF st co(1) Cons.prems(3)]]
    show ?thesis using en by simp
  next
    case False
    then have "layer_entries format_name (l # layers) = layer_entries format_name layers"
      by (auto simp: layer_entries_def l split: pyval.splits option.splits)
    moreover have "\<exists>dir''. layer_options format_name (opts, dir'') layers = Inr (opts', dir')"
      using Cons.prems(1) False
      by (cases section_obj) (auto simp: l Let_def stamp_def split: option.splits sum.splits pyval.splits if_splits)
    ultimately show ?thesis using Cons by metis
  qed
qed

section \<open>Properties\<close>

text \<open>C27: layering one configuration on another, read path by path: a leaf of the overlay is a leaf of
  the result; a leaf of the base survives exactly where the overlay has nothing at its path and
  nothing in the way of it. Lists and texts are leaves: they are replaced, never extended.\<close>

theorem layering_refines_override:
  assumes "\<not> is_dict x" and "wf_value (PDict overlay)"
  shows "value_at (PDict (merge_into base overlay)) p = Some x \<longleftrightarrow>
     value_at (PDict overlay) p = Some x
     \<or> value_at (PDict base) p = Some x \<and> value_at (PDict overlay) p = None \<and> \<not> blocked (PDict overlay) p"
  using assms by (rule merge_leaf)

theorem layering_refines_override_witness:
  "value_at (PDict (merge_into [(''a'', PDict [(''x'', PInt 1), (''y'', PInt 2)])] [(''a'', PDict [(''x'', PInt 3)])]))
     [''a'', ''y''] = Some (PInt 2)"
  using layering_refines_override [of "PInt 2" "[(''a'', PDict [(''x'', PInt 3)])]"
      "[(''a'', PDict [(''x'', PInt 1), (''y'', PInt 2)])]" "[''a'', ''y'']"]
  by simp

text \<open>whichever configurations are layered, the script of a file type and the package it is
  looked up in come from one and the same layer: no package's script is ever sought in another
  package.\<close>

theorem script_and_package_of_one_layer:
  assumes "output_options format_name section_name layers = Inr (opts, dir)"
    and "\<forall>(pkg, config) \<in> set layers. \<forall>s \<in> set (config_sections section_name). \<forall>d v e.
           get_none config s = PDict d \<and> map_of d format_name = Some v \<and> normalize_format v = PDict e \<longrightarrow> coherent e"
    and "truthy (get_none opts ''path'')"
  shows "\<exists>(pkg, config) \<in> set layers. \<exists>s \<in> set (config_sections section_name). \<exists>d v e.
     get_none config s = PDict d \<and> map_of d format_name = Some v \<and> normalize_format v = PDict e
     \<and> get_none opts ''path'' = get_none e ''path''
     \<and> get_none opts ''package'' = por (get_none e ''package'') (PStr pkg)"
proof -
  let ?l = "concat (map (\<lambda>(layer_package, config).
    map (\<lambda>s. (layer_package, get_none config s)) (config_sections section_name)) layers)"
  have inl: "(pkg, x) \<in> set ?l \<longleftrightarrow>
      (\<exists>config s. (pkg, config) \<in> set layers \<and> s \<in> set (config_sections section_name) \<and> get_none config s = x)"
    for pkg x
    by auto
  have entry: "(pkg, e) \<in> set (layer_entries format_name ?l) \<longleftrightarrow>
      (\<exists>config s d v. (pkg, config) \<in> set layers \<and> s \<in> set (config_sections section_name)
         \<and> get_none config s = PDict d \<and> map_of d format_name = Some v \<and> normalize_format v = PDict e)" for pkg e
    unfolding layer_entries_iff inl by blast
  have "script_of_entry opts ([] @ layer_entries format_name ?l)"
  proof (rule layer_options_invariant)
    show "layer_options format_name ([], PNone) ?l = Inr (opts, dir)"
      using assms(1) by (simp add: output_options_def)
    show "\<forall>(pkg, e) \<in> set (layer_entries format_name ?l). coherent e"
    proof (rule ballI, clarify)
      fix pkg e
      assume "(pkg, e) \<in> set (layer_entries format_name ?l)"
      from this [unfolded entry] show "coherent e" using assms(2) by blast
    qed
    show "script_of_entry [] []" by (simp add: script_of_entry_def)
  qed
  then obtain pkg e where e: "(pkg, e) \<in> set (layer_entries format_name ?l)"
    "get_none opts ''path'' = get_none e ''path''" "get_none opts ''package'' = por (get_none e ''package'') (PStr pkg)"
    using assms(3) by (auto simp: script_of_entry_def)
  from e(1) [unfolded entry] obtain config s d v where c: "(pkg, config) \<in> set layers"
    "s \<in> set (config_sections section_name)" "get_none config s = PDict d" "map_of d format_name = Some v"
    "normalize_format v = PDict e"
    by blast
  then have "\<exists>s \<in> set (config_sections section_name). \<exists>d v e.
     get_none config s = PDict d \<and> map_of d format_name = Some v \<and> normalize_format v = PDict e
     \<and> get_none opts ''path'' = get_none e ''path''
     \<and> get_none opts ''package'' = por (get_none e ''package'') (PStr pkg)"
    using e(2,3) by blast
  then show ?thesis using c(1) by (intro bexI [of _ "(pkg, config)"]) simp_all
qed

theorem script_and_package_of_one_layer_witness:
  "\<exists>(pkg, config) \<in> set [(''//builtin/render'', [(''render'', PDict [(''png'', PDict [(''path'', PStr ''render_png.py'')])])]),
       (''//mine'', [(''render'', PDict [(''png'', PDict [(''width'', PInt 512)])])])].
     \<exists>s \<in> set (config_sections RENDER). \<exists>d v e.
     get_none config s = PDict d \<and> map_of d ''png'' = Some v \<and> normalize_format v = PDict e
     \<and> get_none [(''path'', PStr ''render_png.py''), (''package'', PStr ''//builtin/render''), (''width'', PInt 512)] ''path''
         = get_none e ''path''
     \<and> get_none [(''path'', PStr ''render_png.py''), (''package'', PStr ''//builtin/render''), (''width'', PInt 512)] ''package''
         = por (get_none e ''package'') (PStr pkg)"
proof (rule script_and_package_of_one_layer)
  show "output_options ''png'' RENDER
      [(''//builtin/render'', [(''render'', PDict [(''png'', PDict [(''path'', PStr ''render_png.py'')])])]),
       (''//mine'', [(''render'', PDict [(''png'', PDict [(''width'', PInt 512)])])])]
    = Inr ([(''path'', PStr ''render_png.py''), (''package'', PStr ''//builtin/render''), (''width'', PInt 512)], PNone)"
    by (simp add: output_options_def config_sections_def stamp_def RENDER_def EXPORT_def CAE_def CAM_def
        SIMULATE_def IMPORT_def OPEN_def)
qed (auto simp: config_sections_def coherent_def RENDER_def EXPORT_def CAE_def CAM_def
        SIMULATE_def IMPORT_def OPEN_def split: if_splits)

text \<open>the script that is run lies inside the package that implements it, and what is
  written to disk to run it is written there: no \<open>path\<close> of a package's own configuration, with
  \<open>..\<close> or absolute, leads out.\<close>

theorem script_confined_to_package:
  assumes "materialize_script cwd exists get_data_async ctx impl = Inr (script_abs, written)"
    and "is_absolute cwd"
  shows "\<exists>pkg p. ctx pkg = Some p
     \<and> prefix (path_comps (abspath cwd (config_dir p))) (path_comps script_abs)
     \<and> (written = None \<longrightarrow> exists script_abs)"
proof -
  obtain pkg p script where p: "ctx pkg = Some p"
    and c: "commonpath2 (abspath cwd (config_dir p)) script_abs = Some (abspath cwd (config_dir p))"
    and s: "script_abs = abspath cwd (path_join (abspath cwd (config_dir p)) [script])"
    and w: "written = None \<longrightarrow> exists script_abs"
    using assms(1)
    by (auto simp: materialize_script_def Let_def simp del: path_join.simps
        split: if_splits pyval.splits option.splits sum.splits) (metis option.distinct(1))+
  show ?thesis using p w commonpath_below [OF assms(2)] c s by blast
qed

theorem script_confined_to_package_witness:
  "\<exists>pkg p. (if pkg = ''//p'' then Some \<lparr>package_name = ''//p'', config_obj = [], config_dir = ''/p'',
        python_version_declared = PNone, docker_image_declared = PNone\<rparr> else None) = Some p
     \<and> prefix (path_comps (abspath ''/'' (config_dir p))) (path_comps ''/p/a.py'')
     \<and> (None = (None :: string option) \<longrightarrow> True)"
proof (rule script_confined_to_package)
  have ab: "abspath ''/'' ''/p'' = ''/p''" "abspath ''/'' ''/p/a.py'' = ''/p/a.py''"
    "commonpath2 ''/p'' ''/p/a.py'' = Some ''/p''" "path_join ''/p'' [''a.py''] = ''/p/a.py''"
    by code_simp+
  show "materialize_script ''/'' (\<lambda>_. True) (\<lambda>_. None) (\<lambda>pkg. if pkg = ''//p'' then
        Some \<lparr>package_name = ''//p'', config_obj = [], config_dir = ''/p'',
          python_version_declared = PNone, docker_image_declared = PNone\<rparr> else None)
      (new_implementation RENDER ''png'' [(''path'', PStr ''a.py''), (''package'', PStr ''//p'')] None)
    = Inr (''/p/a.py'', None)"
    using ab by (simp add: materialize_script_def new_implementation_def del: path_join.simps)
qed simp

text \<open>the file types that are listed are those of the two built-in packages, each once, the
  rendered ones before those that are only exported.\<close>

theorem all_formats_complete:
  assumes "wf_dict (builtin_formats ctx RENDER)" and "wf_dict (builtin_formats ctx EXPORT)"
  shows "distinct (all_formats ctx)"
    and "f \<in> set (all_formats ctx) \<longleftrightarrow> f \<notin> set SECTION_KEYS
           \<and> (dict_has (builtin_formats ctx RENDER) f \<or> dict_has (builtin_formats ctx EXPORT) f)"
    and "prefix (format_names (PDict (builtin_formats ctx RENDER))) (all_formats ctx)"
proof -
  have k: "f \<in> fst ` set d \<longleftrightarrow> dict_has d f" for d :: pydict
    by (simp add: dom_map_of_conv_image_fst [symmetric] domIff)
  have a: "all_formats ctx = format_names (PDict (builtin_formats ctx RENDER))
      @ filter (\<lambda>name. name \<notin> set (format_names (PDict (builtin_formats ctx RENDER))))
          (format_names (PDict (builtin_formats ctx EXPORT)))"
    by (simp add: all_formats_def)
  show "distinct (all_formats ctx)" unfolding a using assms by auto
  show "prefix (format_names (PDict (builtin_formats ctx RENDER))) (all_formats ctx)"
    unfolding a by simp
  show "f \<in> set (all_formats ctx) \<longleftrightarrow> f \<notin> set SECTION_KEYS
           \<and> (dict_has (builtin_formats ctx RENDER) f \<or> dict_has (builtin_formats ctx EXPORT) f)"
    unfolding a using k [of "builtin_formats ctx RENDER"] k [of "builtin_formats ctx EXPORT"] by auto
qed

end
