(* ===== verification/Cam.thy ===== *)
theory Cam
  imports Names
begin

text \<open>
  \<open>partcad/cam.py\<close>: the job an object declares for a machine that cuts it. Lengths, feeds and
  numbers as they may be written, the section of one object, and the parameters of a route as they
  finally stand. Every refusal of the source is a \<open>CamConfigError\<close>, which is a \<open>ValueError\<close>; the
  sentences are not modelled.

  A decimal number is the rational it denotes; the source rounds it to binary64.
\<close>

definition PROFILE :: string where "PROFILE = ''profile''"
definition OPERATIONS :: "string list" where "OPERATIONS = [PROFILE, ''pocket'', ''engrave'']"
definition DIRECTIONS :: "string list" where "DIRECTIONS = [''climb'', ''conventional'']"
definition LENGTH_KEYS :: "string list" where
  "LENGTH_KEYS = [''diameter'', ''depth'', ''depth_per_pass'', ''safe_z'', ''peck'', ''kerf'']"
definition FEED_KEYS :: "string list" where "FEED_KEYS = [''feed'', ''plunge'']"
definition NUMBER_KEYS :: "string list" where "NUMBER_KEYS = [''speed'', ''stepover'', ''power'']"
definition CAM_KEYS :: "string list" where
  "CAM_KEYS = LENGTH_KEYS @ FEED_KEYS @ NUMBER_KEYS @ [''operation'', ''direction'', ''implementation'', ''desc'']"

definition LENGTH_UNITS :: "(string \<times> rat) list" where
  "LENGTH_UNITS =
     [(''um'', 1 / 1000), ([CHR 0xB5] @ ''m'', 1 / 1000), (''micron'', 1 / 1000), (''mm'', 1), (''cm'', 10),
      (''dm'', 100), (''m'', 1000), (''mil'', 254 / 10000), (''thou'', 254 / 10000), (''in'', 254 / 10),
      (''inch'', 254 / 10), ([CHR 0x22], 254 / 10), (''ft'', 3048 / 10), (''foot'', 3048 / 10), (''feet'', 3048 / 10)]"

text \<open>\<open>sorted(_LENGTH_UNITS, key=len, reverse=True)\<close>: longest first, equally long in the table's order.\<close>

definition LENGTH_NAMES :: "string list" where
  "LENGTH_NAMES = sort_key (\<lambda>u. - int (length u)) (map fst LENGTH_UNITS)"

definition PER_MINUTE :: "(string \<times> rat) list" where
  "PER_MINUTE = [(''min'', 1), (''minute'', 1), (''m'', 1), (''s'', 60), (''sec'', 60), (''second'', 60)]"

section \<open>Numbers\<close>

text \<open>
  \<open>_NUMBER\<close>, \<open>^[+-]?(?:\d+\.?\d*|\.\d+)(?:[eE][+-]?\d+)?$\<close>, and \<open>float\<close> of what it matches: a
  sign, digits, a fraction and an exponent.
\<close>

definition signed :: "string \<Rightarrow> bool \<times> string" where
  "signed s = (case s of
      CHR ''-'' # r \<Rightarrow> (True, r) | CHR ''+'' # r \<Rightarrow> (False, r) | _ \<Rightarrow> (False, s))"

definition exponent_of :: "string \<Rightarrow> int option" where
  "exponent_of s =
     (case s of
        [] \<Rightarrow> Some 0
      | e # r \<Rightarrow>
          (let (negative, digits) = signed r in
           if e \<in> {CHR ''e'', CHR ''E''} \<and> digits \<noteq> [] \<and> list_all is_digit digits
           then Some ((if negative then - 1 else 1) * int (nat_of_digits digits)) else None))"

definition scale10 :: "int \<Rightarrow> rat \<Rightarrow> rat" where
  "scale10 e q = (if 0 \<le> e then q * 10 ^ nat e else q / 10 ^ nat (- e))"

definition number_of :: "string \<Rightarrow> rat option" where
  "number_of s =
     (let (negative, s1) = signed s;
          whole = takeWhile is_digit s1; s2 = dropWhile is_digit s1;
          dot = (s2 \<noteq> [] \<and> hd s2 = CHR ''.''); s3 = (if dot then tl s2 else s2);
          frac = (if dot then takeWhile is_digit s3 else []);
          s4 = (if dot then dropWhile is_digit s3 else s3)
      in if whole = [] \<and> frac = [] then None
         else map_option (\<lambda>e. scale10 (e - int (length frac))
                 ((if negative then - 1 else 1) * rat_of_nat (nat_of_digits (whole @ frac))))
               (exponent_of s4))"

text \<open>\<open>x <= 0\<close> and \<open>x > 1\<close>: a comparison with not-a-number is false.\<close>

fun not_positive :: "pyfloat \<Rightarrow> bool" where
  "not_positive (Fin q) = (q \<le> 0)"
| "not_positive NegInf = True"
| "not_positive _ = False"

fun above_one :: "pyfloat \<Rightarrow> bool" where
  "above_one (Fin q) = (1 < q)"
| "above_one PosInf = True"
| "above_one _ = False"

section \<open>Quantities\<close>

definition spellings :: "string \<Rightarrow> string list" where
  "spellings unit =
     (if \<exists>e \<in> set [''ch'', ''s'', ''sh'', ''x'', ''z'']. ends_with unit e
      then [unit @ ''es'', unit @ ''s'', unit] else [unit @ ''s'', unit])"

text \<open>The loops over the units and their spellings; a text that is not a number is passed over.\<close>

fun scaled_text :: "(string \<times> rat) list \<Rightarrow> string \<Rightarrow> (string \<times> string) list \<Rightarrow> rat option" where
  "scaled_text units text [] = None"
| "scaled_text units text ((unit, spelling) # rest) =
     (if ends_with (lower text) spelling
      then (case number_of (strip (take (length text - length spelling) text)) of
              None \<Rightarrow> scaled_text units text rest
            | Some q \<Rightarrow> Some (q * the (map_of units unit)))
      else scaled_text units text rest)"

definition unit_spellings :: "string list \<Rightarrow> (string \<times> string) list" where
  "unit_spellings names = concat (map (\<lambda>unit. map (Pair unit) (spellings unit)) names)"

definition parse_scaled :: "(string \<times> rat) list \<Rightarrow> string list \<Rightarrow> pyval \<Rightarrow> exn + pyfloat" where
  "parse_scaled units names v =
     (case v of
        PInt i \<Rightarrow> Inr (Fin (of_int i))
      | PFloat f \<Rightarrow> Inr f
      | PStr s \<Rightarrow>
          (let text = strip s in
           if text = [] then Inl ValueError
           else case scaled_text units text (unit_spellings names) of
             Some q \<Rightarrow> Inr (Fin q)
           | None \<Rightarrow> (case number_of text of Some q \<Rightarrow> Inr (Fin q) | None \<Rightarrow> Inl ValueError))
      | _ \<Rightarrow> Inl ValueError)"

definition positive :: "exn + pyfloat \<Rightarrow> exn + pyfloat" where
  "positive r = (case r of Inl e \<Rightarrow> Inl e | Inr f \<Rightarrow> if not_positive f then Inl ValueError else Inr f)"

definition parse_length :: "pyval \<Rightarrow> exn + pyfloat" where
  "parse_length v = positive (parse_scaled LENGTH_UNITS LENGTH_NAMES v)"

fun times :: "rat \<Rightarrow> pyfloat \<Rightarrow> pyfloat" where
  "times k (Fin q) = Fin (q * k)"
| "times k f = f"

definition parse_feed :: "pyval \<Rightarrow> exn + pyfloat" where
  "parse_feed v =
     (case v of
        PInt i \<Rightarrow> positive (Inr (Fin (of_int i)))
      | PFloat f \<Rightarrow> positive (Inr f)
      | PStr s \<Rightarrow>
          (let text = strip s;
               (head, slash, denominator) = rpartition1 (CHR ''/'') text;
               key = rev (dropWhile (\<lambda>c. c = CHR ''.'') (rev (lower (strip denominator))));
               number = (if slash then head else text);
               per_minute = (if slash then map_of PER_MINUTE key else Some 1)
           in case per_minute of
                None \<Rightarrow> Inl ValueError
              | Some k \<Rightarrow>
                  positive (case parse_scaled LENGTH_UNITS LENGTH_NAMES (PStr number) of
                              Inl e \<Rightarrow> Inl e | Inr f \<Rightarrow> Inr (times k f)))
      | _ \<Rightarrow> Inl ValueError)"

definition parse_number :: "pyval \<Rightarrow> exn + pyfloat" where
  "parse_number v =
     (case v of
        PInt i \<Rightarrow> positive (Inr (Fin (of_int i)))
      | PFloat f \<Rightarrow> positive (Inr f)
      | PStr s \<Rightarrow>
          (let text = strip s;
               text = (case find (\<lambda>sfx. ends_with (lower text) sfx) [''rpm'', ''rev/min'', ''r/min''] of
                         None \<Rightarrow> text
                       | Some sfx \<Rightarrow> strip (take (length text - length sfx) text))
           in case number_of text of None \<Rightarrow> Inl ValueError | Some q \<Rightarrow> positive (Inr (Fin q)))
      | _ \<Rightarrow> Inl ValueError)"

definition value_parser :: "string \<Rightarrow> (pyval \<Rightarrow> exn + pyfloat) option" where
  "value_parser key =
     (if key \<in> set LENGTH_KEYS then Some parse_length
      else if key \<in> set FEED_KEYS then Some parse_feed
      else if key \<in> set NUMBER_KEYS then Some parse_number
      else None)"

definition VALUE_KEYS :: "string list" where
  "VALUE_KEYS = LENGTH_KEYS @ FEED_KEYS @ NUMBER_KEYS"

section \<open>The job of one object\<close>

record cam_config =
  operation :: "string option"
  direction :: "string option"
  job_values :: "(string \<times> pyfloat) list"
  cam_implementation :: "string option"
  desc :: "string option"

text \<open>\<open>operation:\<close> and \<open>direction:\<close>, each one of a list of words.\<close>

definition parse_word :: "string list \<Rightarrow> pyval \<Rightarrow> exn + string option" where
  "parse_word words v =
     (case v of
        PNone \<Rightarrow> Inr None
      | PStr s \<Rightarrow> if lower (strip s) \<in> set words then Inr (Some (lower (strip s))) else Inl ValueError
      | _ \<Rightarrow> Inl ValueError)"

definition parse_implementation :: "pyval \<Rightarrow> exn + string option" where
  "parse_implementation v =
     (case v of
        PNone \<Rightarrow> Inr None
      | PStr s \<Rightarrow> if strip s = [] then Inl ValueError else Inr (Some (strip s))
      | _ \<Rightarrow> Inl ValueError)"

definition parse_desc :: "pyval \<Rightarrow> exn + string option" where
  "parse_desc v = (case v of PNone \<Rightarrow> Inr None | PStr s \<Rightarrow> Inr (Some s) | _ \<Rightarrow> Inl ValueError)"

abbreviation entry :: "pydict \<Rightarrow> string \<Rightarrow> pyval" where
  "entry d k \<equiv> (case map_of d k of None \<Rightarrow> PNone | Some v \<Rightarrow> v)"

fun read_values :: "pydict \<Rightarrow> string list \<Rightarrow> exn + (string \<times> pyfloat) list" where
  "read_values config [] = Inr []"
| "read_values config (key # keys) =
     (if entry config key = PNone then read_values config keys
      else case the (value_parser key) (entry config key) of
        Inl e \<Rightarrow> Inl e
      | Inr f \<Rightarrow> (case read_values config keys of Inl e \<Rightarrow> Inl e | Inr vs \<Rightarrow> Inr ((key, f) # vs)))"

definition stepover_ok :: "(string \<times> pyfloat) list \<Rightarrow> bool" where
  "stepover_ok vs = (case map_of vs ''stepover'' of None \<Rightarrow> True | Some f \<Rightarrow> \<not> above_one f)"

definition new_cam_config :: "pyval \<Rightarrow> exn + cam_config" where
  "new_cam_config v =
     (case v of
        PDict config \<Rightarrow>
          if \<exists>key \<in> set (map fst config). key \<notin> set CAM_KEYS then Inl ValueError
          else if config = [] then Inl ValueError
          else
            (case parse_word OPERATIONS (entry config ''operation'') of
               Inl e \<Rightarrow> Inl e
             | Inr opn \<Rightarrow>
            (case parse_word DIRECTIONS (entry config ''direction'') of
               Inl e \<Rightarrow> Inl e
             | Inr dirn \<Rightarrow>
            (case parse_implementation (entry config ''implementation'') of
               Inl e \<Rightarrow> Inl e
             | Inr impl \<Rightarrow>
            (case read_values config VALUE_KEYS of
               Inl e \<Rightarrow> Inl e
             | Inr vs \<Rightarrow>
                 if \<not> stepover_ok vs then Inl ValueError
                 else (case parse_desc (entry config ''desc'') of
                         Inl e \<Rightarrow> Inl e
                       | Inr dsc \<Rightarrow> Inr \<lparr>operation = opn, direction = dirn, job_values = vs,
                                         cam_implementation = impl, desc = dsc\<rparr>)))))
      | _ \<Rightarrow> Inl ValueError)"

definition to_data :: "cam_config \<Rightarrow> pydict" where
  "to_data c =
     map (\<lambda>(k, f). (k, PFloat f)) (job_values c)
     @ (case operation c of None \<Rightarrow> [] | Some t \<Rightarrow> [(''operation'', PStr t)])
     @ (case direction c of None \<Rightarrow> [] | Some t \<Rightarrow> [(''direction'', PStr t)])"

section \<open>The job as it finally stands\<close>

fun normalize_values :: "pydict \<Rightarrow> string list \<Rightarrow> exn + pydict" where
  "normalize_values d [] = Inr d"
| "normalize_values d (key # keys) =
     (if entry d key = PNone then normalize_values d keys
      else case the (value_parser key) (entry d key) of
        Inl e \<Rightarrow> Inl e
      | Inr f \<Rightarrow> normalize_values (AList.update key (PFloat f) d) keys)"

definition normalize_word :: "string \<Rightarrow> string list \<Rightarrow> pydict \<Rightarrow> exn + pydict" where
  "normalize_word key words d =
     (case parse_word words (entry d key) of
        Inl e \<Rightarrow> Inl e
      | Inr None \<Rightarrow> Inr d
      | Inr (Some t) \<Rightarrow> Inr (AList.update key (PStr t) d))"

definition normalize_job :: "pydict \<Rightarrow> exn + pydict" where
  "normalize_job parameters =
     (case normalize_values parameters VALUE_KEYS of
        Inl e \<Rightarrow> Inl e
      | Inr d \<Rightarrow>
          if (case entry d ''stepover'' of PFloat f \<Rightarrow> above_one f | _ \<Rightarrow> False) then Inl ValueError
          else (case normalize_word ''direction'' DIRECTIONS d of
                  Inl e \<Rightarrow> Inl e
                | Inr d' \<Rightarrow> normalize_word ''operation'' OPERATIONS d'))"

section \<open>Lemmas\<close>

text \<open>Where a number ends.\<close>

abbreviation number_end :: "char \<Rightarrow> bool" where
  "number_end c \<equiv> is_digit c \<or> c = CHR ''.''"

lemma exponent_end: "exponent_of s = Some e \<Longrightarrow> s \<noteq> [] \<Longrightarrow> number_end (List.last s)"
proof (cases s)
  case (Cons c r)
  assume "exponent_of s = Some e"
  then have d: "snd (signed r) \<noteq> []" "list_all is_digit (snd (signed r))"
    using Cons by (auto simp: exponent_of_def split: prod.splits if_splits)
  have "suffix (snd (signed r)) r"
    by (auto simp: signed_def suffix_def split: list.splits char.splits bool.splits)
  then obtain zs where "r = zs @ snd (signed r)" by (auto simp: suffix_def)
  then have "List.last s = List.last (snd (signed r))"
    using d(1) Cons by (metis append_is_Nil_conv last_ConsR last_appendR)
  then show ?thesis using d by (simp add: list_all_iff)
qed simp

lemma signed_append: "signed s = (b, t) \<Longrightarrow> \<exists>p. s = p @ t \<and> (p = [] \<or> hd s \<in> {CHR ''-'', CHR ''+''})"
  by (auto simp: signed_def split: list.splits char.splits bool.splits if_splits)

lemma digits_end: "v \<noteq> [] \<Longrightarrow> exponent_of (dropWhile is_digit v) = Some e \<Longrightarrow> number_end (List.last v)"
proof -
  assume v: "v \<noteq> []" and e: "exponent_of (dropWhile is_digit v) = Some e"
  show ?thesis
  proof (cases "dropWhile is_digit v = []")
    case True
    then have "\<forall>c \<in> set v. is_digit c" by (simp add: dropWhile_eq_Nil_conv)
    then show ?thesis using v by simp
  next
    case False
    have "List.last v = List.last (takeWhile is_digit v @ dropWhile is_digit v)" by simp
    also have "\<dots> = List.last (dropWhile is_digit v)" using False by (simp del: takeWhile_dropWhile_id)
    finally show ?thesis using exponent_end [OF e False] by simp
  qed
qed

lemma number_shape:
  assumes "number_of s = Some q"
  shows "s \<noteq> []" and "number_end (List.last s)" and "is_digit (hd s) \<or> hd s \<in> set ''+-.''"
proof -
  obtain b t where sg: "signed s = (b, t)" by force
  then obtain p where p: "s = p @ t" "p = [] \<or> hd s \<in> {CHR ''-'', CHR ''+''}"
    using signed_append by blast
  define u where "u = dropWhile is_digit t"
  have "t \<noteq> [] \<and> number_end (List.last t) \<and> (is_digit (hd t) \<or> hd t = CHR ''.'')"
  proof (cases "u \<noteq> [] \<and> hd u = CHR ''.''")
    case True
    then obtain v where u: "u = CHR ''.'' # v" by (cases u) auto
    then obtain w where t: "t = w @ CHR ''.'' # v" "\<forall>c \<in> set w. is_digit c"
      using takeWhile_dropWhile_id [of is_digit t] set_takeWhileD [of _ is_digit t] by (metis u_def)
    obtain e where "exponent_of (dropWhile is_digit v) = Some e"
      using assms sg u by (auto simp: number_of_def Let_def u_def split: if_splits)
    then have "number_end (List.last t)"
      using t digits_end [of v] by (cases "v = []") auto
    then show ?thesis using t by (cases w) auto
  next
    case False
    then have w: "takeWhile is_digit t \<noteq> []" and e: "\<exists>e. exponent_of u = Some e"
      using assms sg by (auto simp: number_of_def Let_def u_def split: if_splits)
    then have "t \<noteq> [] \<and> is_digit (hd t)" by (cases t) (auto split: if_splits)
    then show ?thesis using digits_end [of t] e by (auto simp: u_def)
  qed
  then show "s \<noteq> []" "number_end (List.last s)" "is_digit (hd s) \<or> hd s \<in> set ''+-.''"
    using p by (auto simp: hd_append)
qed

text \<open>A spelling of a unit has no character a number or the space behind it could end in.\<close>

definition spelling_ok :: "string \<Rightarrow> bool" where
  "spelling_ok sp \<longleftrightarrow> sp \<noteq> [] \<and> list_all (\<lambda>c. \<not> is_digit c \<and> c \<noteq> CHR ''.'' \<and> \<not> is_space c) sp"

lemma spelling_ok_mem: "spelling_ok sp \<Longrightarrow> c \<in> set sp \<Longrightarrow> \<not> number_end c \<and> \<not> is_space c"
  by (simp add: spelling_ok_def list_all_iff)

lemma spellings_ok: "list_all (\<lambda>us. spelling_ok (snd us)) (unit_spellings LENGTH_NAMES)"
  by code_simp

lemma spellings_distinct: "distinct (map snd (unit_spellings LENGTH_NAMES))"
  by code_simp

lemma lower_char_number: "lower_char c = d \<Longrightarrow> number_end c \<or> is_space c \<Longrightarrow> number_end d \<or> is_space d"
proof -
  have p: "code CHR ''.'' = 46" by code_simp
  have "number_end c \<Longrightarrow> lower_char c = c"
    using p by (auto simp: lower_char_def is_digit_def Let_def)
  then show "lower_char c = d \<Longrightarrow> number_end c \<or> is_space c \<Longrightarrow> number_end d \<or> is_space d"
    using is_space_lower [of c] by auto
qed

lemma number_not_space: "is_digit c \<or> c \<in> set ''+-.'' \<Longrightarrow> \<not> is_space c"
proof -
  have "list_all (\<lambda>c. \<not> is_space c) ''+-.''" by code_simp
  then show "is_digit c \<or> c \<in> set ''+-.'' \<Longrightarrow> \<not> is_space c"
    by (auto simp only: list_all_iff is_digit_def is_space_def Let_def)
qed

lemma number_hd: "number_of n = Some q \<Longrightarrow> \<not> is_space (hd n)"
  using number_shape(3) number_not_space by blast

lemma number_last: "number_of n = Some q \<Longrightarrow> \<not> is_space (List.last n)"
  using number_shape(2) [of n q] number_not_space [of "List.last n"] by auto

lemma strip_number:
  assumes "number_of n = Some q" and "\<forall>c \<in> set ws. is_space c"
  shows "strip (n @ ws) = n"
proof -
  note sh = number_shape [OF assms(1)]
  note h = number_hd [OF assms(1)] number_last [OF assms(1)]
  obtain x xs where n: "n = x # xs" using sh(1) by (cases n) auto
  have "lstrip (n @ ws) = n @ ws" using h n by (simp add: lstrip_def)
  moreover have "rstrip (n @ ws) = n"
    using h assms(2) sh(1) by (cases n rule: rev_cases) (auto simp: rstrip_def dropWhile_append)
  ultimately show ?thesis by (simp add: strip_def)
qed

lemma last_in: "xs \<noteq> [] \<Longrightarrow> List.last xs \<in> set xs" by simp

lemma scaled_text_unit:
  assumes "number_of n = Some q" and "\<forall>c \<in> set ws. is_space c" and "lower s = spelling"
    and "(unit, spelling) \<in> set ps" and "list_all (\<lambda>us. spelling_ok (snd us)) ps" and "distinct (map snd ps)"
  shows "scaled_text units (n @ ws @ s) ps = Some (q * the (map_of units unit))"
  using assms(4-6)
proof (induction ps)
  case (Cons p ps)
  obtain u' sp' where p: "p = (u', sp')" by force
  have len: "length s = length spelling" using assms(3) by (auto simp: lower_def)
  have low: "lower (n @ ws @ s) = lower (n @ ws) @ spelling" using assms(3) by simp
  note sh = number_shape [OF assms(1)]
  show ?case
  proof (cases "sp' = spelling")
    case True
    then have "u' = unit" using Cons.prems p by (auto simp: image_iff)
    have "take (length (n @ ws @ s) - length spelling) (n @ ws @ s) = n @ ws"
      using len by simp
    then have "strip (take (length (n @ ws @ s) - length spelling) (n @ ws @ s)) = n"
      using strip_number [OF assms(1,2)] by simp
    then show ?thesis using p True \<open>u' = unit\<close> assms(1) low by (simp add: suffix_def)
  next
    case False
    then have rest: "(unit, spelling) \<in> set ps" using Cons.prems(1) p by auto
    have ok: "spelling_ok sp'" "spelling_ok spelling"
      using Cons.prems(1,2) p by (auto simp: list_all_iff)
    have "number_of (strip (take (length (n @ ws @ s) - length sp') (n @ ws @ s))) = None"
      if suf: "suffix sp' (lower (n @ ws @ s))"
    proof -
      have "suffix spelling (lower (n @ ws @ s))" using low by (simp add: suffix_def)
      with suf consider "suffix sp' spelling" | "suffix spelling sp'" using suffix_same_cases by blast
      then show ?thesis
      proof cases
        case 1
        then obtain x where x: "spelling = x @ sp'" "x \<noteq> []" using False by (auto simp: suffix_def)
        define s1 where "s1 = take (length x) s"
        have "lower s1 = take (length x) (lower s)" by (simp add: s1_def lower_def take_map)
        then have s1: "s1 \<noteq> []" "lower s1 = x" using x assms(3) by (auto simp: lower_def)
        have "length (n @ ws @ s) - length sp' = length (n @ ws) + length x"
          using len x by simp
        then have t: "take (length (n @ ws @ s) - length sp') (n @ ws @ s) = n @ ws @ s1"
          by (simp add: s1_def)
        have lx: "List.last x = lower_char (List.last s1)"
          using s1 by (auto simp: lower_def last_map)
        have "List.last x \<in> set spelling" using x by simp
        then have bad: "\<not> number_end (List.last s1) \<and> \<not> is_space (List.last s1)"
          using spelling_ok_mem [OF ok(2)] lower_char_number [OF lx [symmetric]] by blast
        have hn: "\<not> is_space (hd n)" using number_hd [OF assms(1)] .
        have st: "strip (n @ ws @ s1) = n @ ws @ s1"
          using hn bad s1(1) sh(1) by (intro strip_ends) auto
        show ?thesis
          unfolding t st
        proof (cases "number_of (n @ ws @ s1)")
          case (Some r)
          from number_shape(2) [OF this] bad s1(1) show "number_of (n @ ws @ s1) = None" by simp
        qed simp
      next
        case 2
        then obtain x where x: "sp' = x @ spelling" "x \<noteq> []" using False by (auto simp: suffix_def)
        then have "suffix x (lower (n @ ws))" using suf low by (auto simp: suffix_def)
        then have "List.last x = List.last (lower (n @ ws))" using x(2) by (auto simp: suffix_def)
        also have "\<dots> = lower_char (List.last (n @ ws))"
          using sh(1) last_map [of "n @ ws" lower_char] by (simp add: lower_def)
        finally have lx: "lower_char (List.last (n @ ws)) = List.last x" by simp
        have "number_end (List.last (n @ ws)) \<or> is_space (List.last (n @ ws))"
          using sh(2) assms(2) last_in [of ws] by (cases "ws = []") auto
        then have "number_end (List.last x) \<or> is_space (List.last x)"
          using lower_char_number [OF lx] by blast
        moreover have "List.last x \<in> set sp'" using x by simp
        ultimately show ?thesis using spelling_ok_mem [OF ok(1)] by blast
      qed
    qed
    then show ?thesis
      using Cons.IH [OF rest] Cons.prems(2,3) p by auto
  qed
qed simp

section \<open>Properties\<close>

text \<open>a length is what it says: a number, any space, and any spelling of a unit in any case is that
  many of that unit in millimetres, whichever other unit names the text happens to end in.\<close>

theorem length_means_its_unit:
  assumes "number_of n = Some q" and "0 < q" and "\<forall>c \<in> set ws. is_space c"
    and "(unit, lower s) \<in> set (unit_spellings LENGTH_NAMES)" and "map_of LENGTH_UNITS unit = Some mm" and "0 < mm"
  shows "parse_length (PStr (n @ ws @ s)) = Inr (Fin (q * mm))"
proof -
  note sh = number_shape [OF assms(1)]
  have ok: "spelling_ok (lower s)" using assms(4) spellings_ok by (auto simp: list_all_iff)
  then have s: "s \<noteq> []" by (auto simp: spelling_ok_def lower_def)
  then have "lower_char (List.last s) \<in> set (lower s)" by (simp add: lower_def)
  then have "\<not> is_space (lower_char (List.last s))" using spelling_ok_mem [OF ok] by blast
  then have "\<not> is_space (List.last s)" by simp
  moreover have "\<not> is_space (hd n)" using number_hd [OF assms(1)] .
  ultimately have st: "strip (n @ ws @ s) = n @ ws @ s"
    using s sh(1) by (intro strip_ends) auto
  have "scaled_text LENGTH_UNITS (n @ ws @ s) (unit_spellings LENGTH_NAMES) = Some (q * mm)"
    using scaled_text_unit [OF assms(1,3) refl assms(4) spellings_ok spellings_distinct] assms(5) by simp
  moreover have "\<not> q * mm \<le> 0" using mult_pos_pos [OF assms(2,6)] by simp
  ultimately show ?thesis
    using st sh(1) by (simp add: parse_length_def parse_scaled_def positive_def)
qed

theorem length_means_its_unit_witness:
  "parse_length (PStr (''0.25'' @ '' '' @ ''Inches'')) = Inr (Fin (1 / 4 * (254 / 10)))"
proof (rule length_means_its_unit [where unit = "''inch''"])
  show "number_of ''0.25'' = Some (1 / 4)" by code_simp
  show "\<forall>c \<in> set '' ''. is_space c" by code_simp
  show "(''inch'', lower ''Inches'') \<in> set (unit_spellings LENGTH_NAMES)" by code_simp
  show "map_of LENGTH_UNITS ''inch'' = Some (254 / 10)" by (simp add: LENGTH_UNITS_def)
qed simp_all

text \<open>A value that was accepted is not below or at zero, and what a parser returned, it returns again.\<close>

lemma positive_result: "positive r = Inr f \<Longrightarrow> \<not> not_positive f"
  by (auto simp: positive_def split: sum.splits if_splits)

lemma parse_length_result: "parse_length v = Inr f \<Longrightarrow> \<not> not_positive f"
  unfolding parse_length_def by (rule positive_result)

lemma parse_feed_result: "parse_feed v = Inr f \<Longrightarrow> \<not> not_positive f"
  by (cases v) (auto simp: parse_feed_def Let_def dest: positive_result split: option.splits prod.splits)

lemma parse_number_result: "parse_number v = Inr f \<Longrightarrow> \<not> not_positive f"
  by (cases v) (auto simp: parse_number_def Let_def simp del: find.simps dest: positive_result split: option.splits)

lemma value_parser_result:
  assumes "value_parser key = Some p" and "p v = Inr f"
  shows "\<not> not_positive f" and "p (PFloat f) = Inr f"
proof -
  show np: "\<not> not_positive f"
    using assms parse_length_result parse_feed_result parse_number_result
    by (auto simp: value_parser_def split: if_splits)
  then have "positive (Inr f) = Inr f" by (simp add: positive_def)
  then show "p (PFloat f) = Inr f"
    using assms(1) by (auto simp: value_parser_def parse_length_def parse_feed_def parse_number_def parse_scaled_def
        split: if_splits)
qed

lemma value_parser_keys: "key \<in> set VALUE_KEYS \<Longrightarrow> \<exists>p. value_parser key = Some p"
  by (auto simp: value_parser_def VALUE_KEYS_def)

lemma VALUE_KEYS_facts: "distinct VALUE_KEYS" "''operation'' \<notin> set VALUE_KEYS" "''direction'' \<notin> set VALUE_KEYS"
  "''stepover'' \<in> set VALUE_KEYS"
  by (simp_all add: VALUE_KEYS_def LENGTH_KEYS_def FEED_KEYS_def NUMBER_KEYS_def)

text \<open>The loop over the keys, as one condition on the result.\<close>

lemma normalize_values_get:
  assumes "normalize_values d keys = Inr d'" and "distinct keys"
  shows "map_of d' k =
     (if k \<in> set keys \<and> entry d k \<noteq> PNone
      then (case the (value_parser k) (entry d k) of Inr f \<Rightarrow> Some (PFloat f) | Inl _ \<Rightarrow> None)
      else map_of d k)"
    and "k \<in> set keys \<Longrightarrow> entry d k \<noteq> PNone \<Longrightarrow> \<exists>f. the (value_parser k) (entry d k) = Inr f"
proof -
  have "map_of d' k =
     (if k \<in> set keys \<and> entry d k \<noteq> PNone
      then (case the (value_parser k) (entry d k) of Inr f \<Rightarrow> Some (PFloat f) | Inl _ \<Rightarrow> None)
      else map_of d k) \<and> (k \<in> set keys \<longrightarrow> entry d k \<noteq> PNone \<longrightarrow> (\<exists>f. the (value_parser k) (entry d k) = Inr f))"
    using assms
  proof (induction keys arbitrary: d)
    case (Cons key keys)
    show ?case
    proof (cases "entry d key = PNone")
      case True
      then show ?thesis using Cons by auto
    next
      case False
      then obtain f where f: "the (value_parser key) (entry d key) = Inr f"
        using Cons.prems(1) by (cases "the (value_parser key) (entry d key)") auto
      then have n: "normalize_values (AList.update key (PFloat f) d) keys = Inr d'"
        using Cons.prems(1) False by simp
      show ?thesis
        using Cons.IH [OF n] Cons.prems(2) False f by (cases "k = key") auto
    qed
  qed simp
  then show "map_of d' k =
     (if k \<in> set keys \<and> entry d k \<noteq> PNone
      then (case the (value_parser k) (entry d k) of Inr f \<Rightarrow> Some (PFloat f) | Inl _ \<Rightarrow> None)
      else map_of d k)"
    and "k \<in> set keys \<Longrightarrow> entry d k \<noteq> PNone \<Longrightarrow> \<exists>f. the (value_parser k) (entry d k) = Inr f"
    by auto
qed

text \<open>A job that is already in PartCAD's units.\<close>

definition normal_job :: "pydict \<Rightarrow> bool" where
  "normal_job d \<longleftrightarrow>
     (\<forall>k \<in> set VALUE_KEYS. entry d k = PNone
        \<or> (\<exists>f. map_of d k = Some (PFloat f) \<and> the (value_parser k) (PFloat f) = Inr f \<and> \<not> not_positive f))
     \<and> (\<forall>f. entry d ''stepover'' = PFloat f \<longrightarrow> \<not> above_one f)
     \<and> (entry d ''direction'' = PNone \<or> (\<exists>t \<in> set DIRECTIONS. map_of d ''direction'' = Some (PStr t)))
     \<and> (entry d ''operation'' = PNone \<or> (\<exists>t \<in> set OPERATIONS. map_of d ''operation'' = Some (PStr t)))"

lemma words_normal: "t \<in> set DIRECTIONS \<union> set OPERATIONS \<Longrightarrow> lower (strip t) = t"
proof -
  have "list_all (\<lambda>t. lower (strip t) = t) (DIRECTIONS @ OPERATIONS)" by code_simp
  then show "t \<in> set DIRECTIONS \<union> set OPERATIONS \<Longrightarrow> ?thesis" by (auto simp: list_all_iff)
qed

lemma normalize_values_id:
  "(\<And>k. k \<in> set keys \<Longrightarrow> entry d k = PNone
      \<or> (\<exists>f. map_of d k = Some (PFloat f) \<and> the (value_parser k) (PFloat f) = Inr f)) \<Longrightarrow>
   normalize_values d keys = Inr d"
proof (induction keys)
  case (Cons k keys)
  have "entry d k = PNone \<or> (\<exists>f. map_of d k = Some (PFloat f) \<and> the (value_parser k) (PFloat f) = Inr f)"
    using Cons.prems by simp
  moreover have "normalize_values d keys = Inr d" using Cons by simp
  ultimately show ?case by (auto simp: update_triv)
qed simp

lemma normalize_word_id:
  "entry d key = PNone \<or> (\<exists>t \<in> set words. map_of d key = Some (PStr t) \<and> lower (strip t) = t) \<Longrightarrow>
   normalize_word key words d = Inr d"
  by (auto simp: normalize_word_def parse_word_def update_triv)

lemma normalize_word_result:
  assumes "normalize_word key words d = Inr d'"
  shows "k \<noteq> key \<Longrightarrow> map_of d' k = map_of d k"
    and "entry d' key = PNone \<or> (\<exists>t \<in> set words. map_of d' key = Some (PStr t))"
    and "entry d' key = (case parse_word words (entry d key) of Inr (Some t) \<Rightarrow> PStr t | _ \<Rightarrow> PNone)"
  using assms by (auto simp: normalize_word_def parse_word_def split: pyval.splits if_splits option.splits)

lemma normal_job_id:
  assumes "normal_job d"
  shows "normalize_job d = Inr d"
proof -
  have v: "normalize_values d VALUE_KEYS = Inr d"
    using assms by (intro normalize_values_id) (auto simp: normal_job_def)
  have "normalize_word ''direction'' DIRECTIONS d = Inr d" "normalize_word ''operation'' OPERATIONS d = Inr d"
    using assms words_normal by (auto simp: normal_job_def intro!: normalize_word_id)
  moreover have "\<not> (case entry d ''stepover'' of PFloat f \<Rightarrow> above_one f | _ \<Rightarrow> False)"
    using assms by (auto simp: normal_job_def split: pyval.splits)
  ultimately show ?thesis using v by (simp add: normalize_job_def)
qed

lemma normalize_job_parts:
  assumes "normalize_job d = Inr d'"
  obtains e e' where "normalize_values d VALUE_KEYS = Inr e" and "normalize_word ''direction'' DIRECTIONS e = Inr e'"
    and "normalize_word ''operation'' OPERATIONS e' = Inr d'"
    and "\<not> (case entry e ''stepover'' of PFloat f \<Rightarrow> above_one f | _ \<Rightarrow> False)"
  using assms by (auto simp: normalize_job_def split: sum.splits if_splits)

lemma normalize_job_other:
  assumes "normalize_job d = Inr d'" and "k \<noteq> ''direction''" and "k \<noteq> ''operation''"
  shows "map_of d' k =
     (if k \<in> set VALUE_KEYS \<and> entry d k \<noteq> PNone
      then (case the (value_parser k) (entry d k) of Inr f \<Rightarrow> Some (PFloat f) | Inl _ \<Rightarrow> None)
      else map_of d k)"
proof -
  obtain e e' where e: "normalize_values d VALUE_KEYS = Inr e" "normalize_word ''direction'' DIRECTIONS e = Inr e'"
    "normalize_word ''operation'' OPERATIONS e' = Inr d'"
    using normalize_job_parts [OF assms(1)] by metis
  show ?thesis
    using normalize_values_get(1) [OF e(1) VALUE_KEYS_facts(1), of k]
      normalize_word_result(1) [OF e(2) assms(2)] normalize_word_result(1) [OF e(3) assms(3)]
    by simp
qed

lemma normalize_job_normal:
  assumes "normalize_job d = Inr d'"
  shows "normal_job d'"
proof -
  obtain e e' where e: "normalize_values d VALUE_KEYS = Inr e" "normalize_word ''direction'' DIRECTIONS e = Inr e'"
    "normalize_word ''operation'' OPERATIONS e' = Inr d'"
    and step: "\<not> (case entry e ''stepover'' of PFloat f \<Rightarrow> above_one f | _ \<Rightarrow> False)"
    using normalize_job_parts [OF assms] by metis
  have same: "map_of d' k = map_of e k" if "k \<noteq> ''direction''" "k \<noteq> ''operation''" for k
    using that normalize_word_result(1) [OF e(2)] normalize_word_result(1) [OF e(3)] by simp
  have vals: "entry d' k = PNone
        \<or> (\<exists>f. map_of d' k = Some (PFloat f) \<and> the (value_parser k) (PFloat f) = Inr f \<and> \<not> not_positive f)"
    if k: "k \<in> set VALUE_KEYS" for k
  proof (cases "entry d k = PNone")
    case True
    have "map_of d' k = map_of d k"
      using normalize_job_other [OF assms] k VALUE_KEYS_facts(2,3) True by metis
    then show ?thesis using True by simp
  next
    case False
    obtain p where p: "value_parser k = Some p" using value_parser_keys [OF k] by blast
    obtain f where f: "p (entry d k) = Inr f"
      using normalize_values_get(2) [OF e(1) VALUE_KEYS_facts(1) k False] p by auto
    have "map_of d' k = Some (PFloat f)"
      using normalize_job_other [OF assms, of k] k VALUE_KEYS_facts(2,3) False p f by auto
    then show ?thesis using value_parser_result [OF p f] p by simp
  qed
  have "map_of d' ''direction'' = map_of e' ''direction''"
    using normalize_word_result(1) [OF e(3), of "''direction''"] by simp
  then show ?thesis
    using vals step same [of "''stepover''"] normalize_word_result(2) [OF e(2)] normalize_word_result(2) [OF e(3)]
    by (auto simp: normal_job_def split: pyval.splits)
qed

text \<open>the job as it finally stands is in PartCAD's units: every quantity of it is a number
  that is not zero or below, its stepover at most one, its words among the known ones; reading it
  once more changes nothing; and every key that is no quantity or word travels untouched.\<close>

theorem normalize_job_final:
  assumes "normalize_job d = Inr d'"
  shows "normalize_job d' = Inr d' \<and> normal_job d'
     \<and> (\<forall>k. k \<notin> set VALUE_KEYS \<union> {''direction'', ''operation''} \<longrightarrow> map_of d' k = map_of d k)"
  using assms normalize_job_normal normal_job_id normalize_job_other [OF assms] by auto

theorem normalize_job_final_witness:
  "normalize_job [(''feed'', PFloat (Fin 1200)), (''stepover'', PFloat (Fin (2 / 5))), (''units'', PStr ''mm'')]
   = Inr [(''feed'', PFloat (Fin 1200)), (''stepover'', PFloat (Fin (2 / 5))), (''units'', PStr ''mm'')]"
proof -
  have "normalize_job [(''feed'', PStr ''20 mm/s''), (''stepover'', PFloat (Fin (2 / 5))), (''units'', PStr ''mm'')]
     = Inr [(''feed'', PFloat (Fin 1200)), (''stepover'', PFloat (Fin (2 / 5))), (''units'', PStr ''mm'')]"
    by code_simp
  from normalize_job_final [OF this] show ?thesis by blast
qed

lemma read_values_get:
  assumes "read_values d keys = Inr vs" and "distinct keys"
  shows "map_of vs k =
     (if k \<in> set keys \<and> entry d k \<noteq> PNone
      then (case the (value_parser k) (entry d k) of Inr f \<Rightarrow> Some f | Inl _ \<Rightarrow> None) else None)"
    and "fst ` set vs \<subseteq> set keys"
proof -
  have "map_of vs k =
     (if k \<in> set keys \<and> entry d k \<noteq> PNone
      then (case the (value_parser k) (entry d k) of Inr f \<Rightarrow> Some f | Inl _ \<Rightarrow> None) else None)
    \<and> fst ` set vs \<subseteq> set keys"
    using assms
  proof (induction keys arbitrary: vs)
    case (Cons key keys)
    show ?case
    proof (cases "entry d key = PNone")
      case True
      then show ?thesis using Cons by auto
    next
      case False
      then obtain f ws where f: "the (value_parser key) (entry d key) = Inr f" "read_values d keys = Inr ws"
        "vs = (key, f) # ws"
        using Cons.prems(1) by (auto split: sum.splits)
      show ?thesis using Cons.IH [OF f(2)] Cons.prems(2) False f by (cases "k = key") auto
    qed
  qed simp
  then show "map_of vs k =
     (if k \<in> set keys \<and> entry d k \<noteq> PNone
      then (case the (value_parser k) (entry d k) of Inr f \<Rightarrow> Some f | Inl _ \<Rightarrow> None) else None)"
    and "fst ` set vs \<subseteq> set keys" by auto
qed

lemma values_agree:
  assumes "read_values d keys = Inr vs" and "distinct keys"
  shows "\<exists>e. normalize_values d keys = Inr e"
  using assms
proof (induction keys arbitrary: d vs)
  case (Cons key keys)
  show ?case
  proof (cases "entry d key = PNone")
    case True
    then show ?thesis using Cons by auto
  next
    case False
    then obtain f ws where f: "the (value_parser key) (entry d key) = Inr f" "read_values d keys = Inr ws"
      using Cons.prems(1) by (auto split: sum.splits)
    have "read_values (AList.update key x d) ks = read_values d ks" if "key \<notin> set ks" for x ks
      using that by (induction ks) (auto split: sum.split)
    then have "read_values (AList.update key (PFloat f) d) keys = Inr ws" using f(2) Cons.prems(2) by simp
    then show ?thesis using Cons.IH Cons.prems(2) False f(1) by fastforce
  qed
qed simp

lemma map_of_pfloat: "map_of (map (\<lambda>(k, f). (k, PFloat f)) vs) k = map_option PFloat (map_of vs k)"
  by (induction vs) auto

lemma new_cam_config_parts:
  assumes "new_cam_config (PDict d) = Inr c"
  shows "read_values d VALUE_KEYS = Inr (job_values c)" and "stepover_ok (job_values c)"
    and "parse_word OPERATIONS (entry d ''operation'') = Inr (operation c)"
    and "parse_word DIRECTIONS (entry d ''direction'') = Inr (direction c)"
    and "d \<noteq> []" and "fst ` set d \<subseteq> set CAM_KEYS"
  using assms by (auto simp: new_cam_config_def split: if_splits sum.splits)

text \<open>the two readings of a job agree: what an object's own section is accepted with is what
  the merged parameters are normalised to, on every quantity and word, so a job means the same on
  whichever layer it is written.\<close>

theorem section_and_job_agree:
  assumes "new_cam_config (PDict d) = Inr c"
  shows "\<exists>d'. normalize_job d = Inr d'
     \<and> (\<forall>k \<in> set VALUE_KEYS \<union> {''direction'', ''operation''}. entry (to_data c) k = entry d' k)"
proof -
  note p = new_cam_config_parts [OF assms]
  obtain e where e: "normalize_values d VALUE_KEYS = Inr e"
    using values_agree [OF p(1) VALUE_KEYS_facts(1)] by blast
  note get = normalize_values_get(1) [OF e VALUE_KEYS_facts(1)] and rd = read_values_get [OF p(1) VALUE_KEYS_facts(1)]
  have vals: "entry e k = entry (map (\<lambda>(k, f). (k, PFloat f)) (job_values c)) k" if "k \<in> set VALUE_KEYS" for k
    using that get [of k] rd(1) [of k] normalize_values_get(2) [OF e VALUE_KEYS_facts(1) that]
    by (cases "entry d k = PNone") (auto simp: map_of_pfloat)
  have words: "entry e k = entry d k" if "k \<notin> set VALUE_KEYS" for k
    using that get [of k] by simp
  have "\<not> (case entry e ''stepover'' of PFloat f \<Rightarrow> above_one f | _ \<Rightarrow> False)"
    using p(2) vals [of "''stepover''"] VALUE_KEYS_facts(4)
    by (auto simp: stepover_ok_def map_of_pfloat split: option.splits)
  moreover obtain e' where e': "normalize_word ''direction'' DIRECTIONS e = Inr e'"
    using p(4) words VALUE_KEYS_facts(3) by (cases "direction c") (auto simp: normalize_word_def)
  moreover have "entry e' ''operation'' = entry d ''operation''"
    using normalize_word_result(1) [OF e', of "''operation''"] words VALUE_KEYS_facts(2) by simp
  then obtain d' where d': "normalize_word ''operation'' OPERATIONS e' = Inr d'"
    using p(3) by (cases "operation c") (auto simp: normalize_word_def)
  ultimately have n: "normalize_job d = Inr d'" using e by (simp add: normalize_job_def)
  have td: "entry (to_data c) k = entry (map (\<lambda>(k, f). (k, PFloat f)) (job_values c)) k" if "k \<in> set VALUE_KEYS" for k
    using that VALUE_KEYS_facts(2,3)
    by (auto simp: to_data_def map_add_def split: option.splits)
  have nov: "map_of (job_values c) k = None" if "k \<notin> set VALUE_KEYS" for k
    using that rd(1) by simp
  have tw: "entry (to_data c) ''direction'' = (case direction c of None \<Rightarrow> PNone | Some t \<Rightarrow> PStr t)"
    "entry (to_data c) ''operation'' = (case operation c of None \<Rightarrow> PNone | Some t \<Rightarrow> PStr t)"
    using nov VALUE_KEYS_facts(2,3)
    by (auto simp: to_data_def map_add_def map_of_pfloat split: option.splits)
  have dv: "entry d' k = entry e k" if "k \<in> set VALUE_KEYS" for k
    using that VALUE_KEYS_facts(2,3) normalize_word_result(1) [OF e', of k] normalize_word_result(1) [OF d', of k]
    by metis
  have "entry d' ''direction'' = entry (to_data c) ''direction''"
    using normalize_word_result(1) [OF d', of "''direction''"] normalize_word_result(3) [OF e'] p(4) tw
      words [of "''direction''"] VALUE_KEYS_facts(3) by (auto split: option.splits)
  moreover have "entry d' ''operation'' = entry (to_data c) ''operation''"
    using normalize_word_result(3) [OF d'] p(3) tw \<open>entry e' ''operation'' = entry d ''operation''\<close>
    by (auto split: option.splits)
  ultimately show ?thesis using n td dv vals by auto
qed

theorem section_and_job_agree_witness:
  "\<exists>d'. normalize_job [(''diameter'', PStr ''6 mm''), (''operation'', PStr '' Pocket'')] = Inr d'
     \<and> (\<forall>k \<in> set VALUE_KEYS \<union> {''direction'', ''operation''}.
          entry (to_data \<lparr>operation = Some ''pocket'', direction = None, job_values = [(''diameter'', Fin 6)],
             cam_implementation = None, desc = None\<rparr>) k = entry d' k)"
proof (rule section_and_job_agree)
  show "new_cam_config (PDict [(''diameter'', PStr ''6 mm''), (''operation'', PStr '' Pocket'')])
     = Inr \<lparr>operation = Some ''pocket'', direction = None, job_values = [(''diameter'', Fin 6)],
             cam_implementation = None, desc = None\<rparr>"
    by code_simp
qed

text \<open>not-a-number is taken for a positive quantity: the only test is "not zero or below",
  which every comparison with it passes, so a feed, a tool or a stepover of \<open>.nan\<close> is accepted by
  an object's section and reaches the implementation.\<close>

theorem nan_is_accepted_as_quantity:
  assumes "key \<in> set VALUE_KEYS"
  shows "\<exists>c. new_cam_config (PDict [(key, PFloat NaN)]) = Inr c \<and> to_data c = [(key, PFloat NaN)]"
proof -
  obtain p where p: "value_parser key = Some p" using value_parser_keys [OF assms] by blast
  then have "p (PFloat NaN) = Inr NaN"
    by (auto simp: value_parser_def parse_length_def parse_feed_def parse_number_def parse_scaled_def positive_def
        split: if_splits)
  then have r: "read_values [(key, PFloat NaN)] keys = Inr (if key \<in> set keys then [(key, NaN)] else [])"
    if "distinct keys" for keys
    using that p by (induction keys) auto
  have k: "key \<noteq> ''operation''" "key \<noteq> ''direction''" "key \<noteq> ''implementation''" "key \<noteq> ''desc''" "key \<in> set CAM_KEYS"
    using assms by (auto simp: VALUE_KEYS_def CAM_KEYS_def LENGTH_KEYS_def FEED_KEYS_def NUMBER_KEYS_def)
  then show ?thesis
    using r [OF VALUE_KEYS_facts(1)] assms
    by (simp add: new_cam_config_def parse_word_def parse_implementation_def parse_desc_def stepover_ok_def to_data_def)
qed

theorem nan_is_accepted_as_quantity_witness:
  "\<exists>c. new_cam_config (PDict [(''feed'', PFloat NaN)]) = Inr c \<and> to_data c = [(''feed'', PFloat NaN)]"
  by (rule nan_is_accepted_as_quantity) (simp add: VALUE_KEYS_def FEED_KEYS_def)

end
