(* ===== verification/Manufacturing.thy ===== *)
theory Manufacturing
  imports Cam
begin

text \<open>
  \<open>partcad/part_config_manufacturing.py\<close>, \<open>assembly_config_manufacturing.py\<close> and the reading of a
  shape's job in \<open>partcad/cam.py\<close>: how a part says it is made, on which machines, and what job each
  of them is given.

  \<open>repr\<close> is the text of a value that is no text. A recorded \<open>machine_error\<close> is its presence; the
  sentence is not modelled. What raises while the section is read is \<open>Inl\<close>.
\<close>

section \<open>Tables\<close>

definition METHOD_MAP :: "(string \<times> int) list" where
  "METHOD_MAP = [(''additive'', 100), (''subtractive'', 200), (''forming'', 300), (''sheet_metal'', 400)]"

definition METHOD_SUBTRACTIVE :: int where "METHOD_SUBTRACTIVE = 200"
definition METHOD_SHEET_METAL :: int where "METHOD_SHEET_METAL = 400"

definition SHEET_METAL_REQUIRED :: "string list" where "SHEET_METAL_REQUIRED = [''source'', ''instructions'']"
definition SUBTRACTIVE_REQUIRED :: "string list" where "SUBTRACTIVE_REQUIRED = [''source'']"

definition MACHINE_CNC :: string where "MACHINE_CNC = ''cnc''"
definition MACHINES :: "string list" where "MACHINES = [MACHINE_CNC, ''drill'', ''laser'']"

definition MACHINE_OWN_KEYS :: "string \<Rightarrow> string list" where
  "MACHINE_OWN_KEYS kind = (if kind = ''laser'' then [''toolAxis'', ''kerf''] else [''toolAxis''])"

definition MACHINE_JOB_KEYS :: "string \<Rightarrow> string list" where
  "MACHINE_JOB_KEYS kind =
     (if kind = MACHINE_CNC then [''diameter'', ''depth'', ''depth_per_pass'', ''safe_z'', ''feed'', ''plunge'',
         ''speed'', ''stepover'', ''operation'', ''direction'']
      else if kind = ''laser'' then [''power'', ''feed'', ''direction'']
      else [''diameter'', ''safe_z'', ''peck'', ''plunge'', ''speed''])"

definition MACHINE_ROUTE_KEYS :: "string list" where "MACHINE_ROUTE_KEYS = [''implementation'', ''desc'']"

definition machine_keys :: "string \<Rightarrow> string list" where
  "machine_keys kind = MACHINE_OWN_KEYS kind @ MACHINE_JOB_KEYS kind @ MACHINE_ROUTE_KEYS"

definition SHARED_JOB_KEYS :: "string list" where "SHARED_JOB_KEYS = CAM_KEYS"
definition SECTION_FIELDS :: "string list" where "SECTION_FIELDS = [''method'', ''source'', ''instructions'']"

definition AXES :: "(string \<times> int list) list" where
  "AXES = [(''+x'', [1, 0, 0]), (''-x'', [-1, 0, 0]), (''+y'', [0, 1, 0]), (''-y'', [0, -1, 0]),
           (''+z'', [0, 0, 1]), (''-z'', [0, 0, -1])]"

definition DEFAULT_TOOL_AXIS :: string where "DEFAULT_TOOL_AXIS = ''-Z''"

definition tool_axis_vector :: "string \<Rightarrow> int list option" where
  "tool_axis_vector name =
     (let key = lower (strip name) in
      case map_of AXES key of Some v \<Rightarrow> Some v | None \<Rightarrow> map_of AXES (''+'' @ key))"

section \<open>One machine\<close>

record machine_config =
  kind :: string
  declared :: bool
  options :: pydict
  tool_axis :: string
  vector :: "int list"

text \<open>The quantities of a section, each read by its parser, in the order of the table of parsers.\<close>

definition new_machine_config ::
  "(pyval \<Rightarrow> string) \<Rightarrow> string \<Rightarrow> pydict \<Rightarrow> bool \<Rightarrow> exn + machine_config" where
  "new_machine_config repr knd config dcl =
     (let axis = (if truthy (entry config ''toolAxis'') then py_str repr (entry config ''toolAxis'')
                  else DEFAULT_TOOL_AXIS);
          opts = dict_restrict (\<lambda>k. k \<noteq> ''toolAxis'') config
      in case tool_axis_vector axis of
           None \<Rightarrow> Inl ValueError
         | Some vec \<Rightarrow>
             (case normalize_values opts VALUE_KEYS of
                Inl e \<Rightarrow> Inl e
              | Inr opts' \<Rightarrow>
                  Inr \<lparr>kind = knd, declared = dcl, options = opts', tool_axis = axis, vector = vec\<rparr>))"

definition machine_get :: "machine_config \<Rightarrow> string \<Rightarrow> pyval \<Rightarrow> pyval" where
  "machine_get m key dflt = (if entry (options m) key = PNone then dflt else entry (options m) key)"

definition job_options :: "machine_config \<Rightarrow> pydict" where
  "job_options m =
     filter (\<lambda>(k, v). k \<in> set (MACHINE_JOB_KEYS (kind m) @ MACHINE_ROUTE_KEYS) \<and> v \<noteq> PNone) (options m)"

definition machine_to_data :: "machine_config \<Rightarrow> pydict" where
  "machine_to_data m =
     dict_update [(''machine'', PStr (kind m)), (''tool_axis'', PStr (tool_axis m)),
         (''tool_axis_vector'', PList (map (\<lambda>i. PFloat (Fin (of_int i))) (vector m)))]
       (filter (\<lambda>(k, v). k \<in> set (MACHINE_OWN_KEYS (kind m)) \<and> v \<noteq> PNone) (options m))"

section \<open>The section of a part\<close>

record manufacturing =
  declared_section :: bool
  made_by :: "int option"
  source :: pyval
  instructions :: pyval
  machine_error :: bool
  machines :: "(string \<times> machine_config) list"
  job :: pydict

text \<open>One subsection, checked against what that machine takes; \<open>None\<close> stands for a recorded error.\<close>

definition read_machine :: "(pyval \<Rightarrow> string) \<Rightarrow> string \<Rightarrow> pyval \<Rightarrow> bool \<Rightarrow> machine_config option" where
  "read_machine repr knd config dcl =
     (case (case config of PNone \<Rightarrow> Some [] | PDict d \<Rightarrow> Some d | _ \<Rightarrow> None) of
        None \<Rightarrow> None
      | Some d \<Rightarrow>
          if \<exists>key \<in> set (map fst d). key \<notin> set (machine_keys knd) then None
          else (case new_machine_config repr knd d dcl of Inl _ \<Rightarrow> None | Inr m \<Rightarrow> Some m))"

fun read_named :: "(pyval \<Rightarrow> string) \<Rightarrow> pydict \<Rightarrow> (string \<times> machine_config) list \<Rightarrow> string list
    \<Rightarrow> (string \<times> machine_config) list option" where
  "read_named repr config acc [] = Some acc"
| "read_named repr config acc (knd # kinds) =
     (case read_machine repr knd (entry config knd) True of
        None \<Rightarrow> None
      | Some m \<Rightarrow> read_named repr config (acc @ [(knd, m)]) kinds)"

definition read_machines :: "(pyval \<Rightarrow> string) \<Rightarrow> pydict \<Rightarrow> manufacturing \<Rightarrow> manufacturing" where
  "read_machines repr config data =
     (if made_by data \<noteq> Some METHOD_SUBTRACTIVE \<and> \<not> (declared_section data \<and> made_by data = None)
      then data\<lparr>machine_error :=
             (\<exists>key \<in> set (map fst config). key \<in> set SHARED_JOB_KEYS \<or> key \<in> set MACHINES)\<rparr>
      else if \<exists>key \<in> set (map fst config).
                 key \<notin> set SHARED_JOB_KEYS \<and> key \<notin> set MACHINES \<and> key \<notin> set SECTION_FIELDS
      then data\<lparr>machine_error := True\<rparr>
      else
        let data = data\<lparr>job := dict_restrict (\<lambda>k. k \<in> set SHARED_JOB_KEYS) config\<rparr>;
            named = filter (dict_has config) MACHINES
        in if named = []
           then (case read_machine repr MACHINE_CNC PNone False of
                   None \<Rightarrow> data\<lparr>machine_error := True\<rparr>
                 | Some m \<Rightarrow> data\<lparr>machines := [(MACHINE_CNC, m)]\<rparr>)
           else (case read_named repr config [] named of
                   None \<Rightarrow> data\<lparr>machine_error := True\<rparr>
                 | Some ms \<Rightarrow> data\<lparr>machines := ms\<rparr>))"

text \<open>\<open>_METHOD_MAP.get(method)\<close>: a list or a mapping cannot be looked up.\<close>

fun method_of :: "pyval \<Rightarrow> exn + int option" where
  "method_of (PStr s) = Inr (map_of METHOD_MAP s)"
| "method_of (PList _) = Inl TypeError"
| "method_of (PDict _) = Inl TypeError"
| "method_of _ = Inr None"

definition part_manufacturing :: "(pyval \<Rightarrow> string) \<Rightarrow> pydict \<Rightarrow> exn + manufacturing" where
  "part_manufacturing repr final_config =
     (case (if truthy (entry final_config ''manufacturing'') then entry final_config ''manufacturing'' else PDict []) of
        PDict config \<Rightarrow>
          (case method_of (entry config ''method'') of
             Inl e \<Rightarrow> Inl e
           | Inr m \<Rightarrow>
               Inr (read_machines repr config
                 \<lparr>declared_section = (config \<noteq> []), made_by = m, source = entry config ''source'',
                  instructions = entry config ''instructions'', machine_error = False, machines = [], job = []\<rparr>))
      | _ \<Rightarrow> Inl AttributeError)"

definition the_machine :: "manufacturing \<Rightarrow> machine_config option" where
  "the_machine data = (case machines data of [(_, m)] \<Rightarrow> Some m | _ \<Rightarrow> None)"

definition machine_named :: "manufacturing \<Rightarrow> string \<Rightarrow> machine_config option" where
  "machine_named data knd = map_of (machines data) knd"

definition machine_choices :: "manufacturing \<Rightarrow> string list" where
  "machine_choices data = filter (dict_has (machines data)) MACHINES"

definition missing_fields :: "manufacturing \<Rightarrow> string list" where
  "missing_fields data =
     filter (\<lambda>field. \<not> truthy (if field = ''source'' then source data else instructions data))
       (if made_by data = Some METHOD_SHEET_METAL then SHEET_METAL_REQUIRED
        else if made_by data = Some METHOD_SUBTRACTIVE then SUBTRACTIVE_REQUIRED else [])"

text \<open>An assembly has one method, and \<open>manufacturing: null\<close> is not read as no section.\<close>

definition assembly_manufacturing :: "pydict \<Rightarrow> exn + int option" where
  "assembly_manufacturing final_config =
     (case (case map_of final_config ''manufacturing'' of None \<Rightarrow> PDict [] | Some v \<Rightarrow> v) of
        PDict config \<Rightarrow>
          (case entry config ''method'' of
             PStr s \<Rightarrow> Inr (if s = ''assy'' then Some 1 else None)
           | PList _ \<Rightarrow> Inl TypeError | PDict _ \<Rightarrow> Inl TypeError | _ \<Rightarrow> Inr None)
      | _ \<Rightarrow> Inl AttributeError)"

section \<open>The job a shape declares\<close>

definition declared_config ::
  "(pyval \<Rightarrow> string) \<Rightarrow> pydict \<Rightarrow> string option \<Rightarrow> exn + pydict option" where
  "declared_config repr final_config machine =
     (case part_manufacturing repr final_config of
        Inl e \<Rightarrow> Inl e
      | Inr data \<Rightarrow>
          if machine_error data then Inl ValueError
          else
            (case (case machine of
                     Some knd \<Rightarrow> (case machine_named data knd of None \<Rightarrow> Inl ValueError | Some m \<Rightarrow> Inr (Some m))
                   | None \<Rightarrow> if 1 < length (machines data) then Inl ValueError else Inr (the_machine data)) of
               Inl e \<Rightarrow> Inl e
             | Inr chosen \<Rightarrow>
                 if \<not> (case chosen of None \<Rightarrow> False | Some m \<Rightarrow> declared m) \<and> job data = [] then Inr None
                 else
                   let merged = dict_update (job data) (case chosen of None \<Rightarrow> [] | Some m \<Rightarrow> job_options m)
                   in Inr (if merged = [] then None else Some merged)))"

definition config_of :: "(pyval \<Rightarrow> string) \<Rightarrow> pydict \<Rightarrow> string option \<Rightarrow> exn + cam_config option" where
  "config_of repr final_config machine =
     (case declared_config repr final_config machine of
        Inl e \<Rightarrow> Inl e
      | Inr None \<Rightarrow> Inr None
      | Inr (Some d) \<Rightarrow> (case new_cam_config (PDict d) of Inl e \<Rightarrow> Inl e | Inr c \<Rightarrow> Inr (Some c)))"

definition declares_job :: "(pyval \<Rightarrow> string) \<Rightarrow> pydict \<Rightarrow> bool" where
  "declares_job repr final_config =
     (case part_manufacturing repr final_config of
        Inl _ \<Rightarrow> False
      | Inr data \<Rightarrow> machine_error data \<or> job data \<noteq> [] \<or> (\<exists>km \<in> set (machines data). declared (snd km)))"

text \<open>\<open>Shape._route_machine_data\<close>: what the request says of the machine.\<close>

definition route_machine_data ::
  "(pyval \<Rightarrow> string) \<Rightarrow> pydict \<Rightarrow> string option \<Rightarrow> exn + pydict" where
  "route_machine_data repr final_config machine =
     (case part_manufacturing repr final_config of
        Inl _ \<Rightarrow> Inl ValueError
      | Inr data \<Rightarrow>
          if machine_error data then Inl ValueError
          else (case (if machine = None \<or> machine = Some [] then the_machine data
                      else machine_named data (the machine)) of
                  None \<Rightarrow> Inr []
                | Some m \<Rightarrow> Inr (machine_to_data m)))"

section \<open>Lemmas\<close>

text \<open>What is true of a machine that was read.\<close>

definition wf_machine :: "machine_config \<Rightarrow> bool" where
  "wf_machine m \<longleftrightarrow>
     kind m \<in> set MACHINES
     \<and> (\<exists>axis. (axis, vector m) \<in> set AXES)
     \<and> fst ` set (options m) \<subseteq> set (machine_keys (kind m)) - {''toolAxis''}
     \<and> (\<forall>k \<in> set VALUE_KEYS. entry (options m) k = PNone
          \<or> (\<exists>f. map_of (options m) k = Some (PFloat f) \<and> \<not> not_positive f))"

lemma normalize_values_keys:
  "normalize_values d keys = Inr d' \<Longrightarrow> fst ` set d' = fst ` set d"
proof (induction keys arbitrary: d)
  case (Cons key keys)
  show ?case
  proof (cases "entry d key = PNone")
    case False
    then obtain f where "normalize_values (AList.update key (PFloat f) d) keys = Inr d'"
      using Cons.prems by (auto split: sum.splits)
    moreover have "key \<in> fst ` set d"
      using False by (cases "map_of d key") (auto dest: map_of_SomeD intro: rev_image_eqI)
    ultimately show ?thesis using Cons.IH by (auto simp: fst_set_update)
  qed (use Cons in auto)
qed simp

lemma tool_axis_in: "tool_axis_vector name = Some v \<Longrightarrow> \<exists>axis. (axis, v) \<in> set AXES"
  by (auto simp: tool_axis_vector_def Let_def split: option.splits dest: map_of_SomeD)

lemma new_machine_wf:
  assumes "new_machine_config repr knd config dcl = Inr m" and "knd \<in> set MACHINES"
    and "fst ` set config \<subseteq> set (machine_keys knd)"
  shows "wf_machine m" and "kind m = knd" and "declared m = dcl"
proof -
  let ?o = "dict_restrict (\<lambda>k. k \<noteq> ''toolAxis'') config"
  obtain axis where a: "tool_axis_vector axis = Some (vector m)" and n: "normalize_values ?o VALUE_KEYS = Inr (options m)"
    and k: "kind m = knd" "declared m = dcl"
    using assms(1) by (auto simp: new_machine_config_def Let_def split: option.splits sum.splits)
  have keys: "fst ` set (options m) \<subseteq> set (machine_keys knd) - {''toolAxis''}"
    using normalize_values_keys [OF n] assms(3) by (auto simp: dict_restrict_def)
  have "entry (options m) j = PNone \<or> (\<exists>f. map_of (options m) j = Some (PFloat f) \<and> \<not> not_positive f)"
    if j: "j \<in> set VALUE_KEYS" for j
  proof (cases "entry ?o j = PNone")
    case True
    then show ?thesis using normalize_values_get(1) [OF n VALUE_KEYS_facts(1), of j] by simp
  next
    case False
    obtain p where p: "value_parser j = Some p" using value_parser_keys [OF j] by blast
    obtain f where f: "p (entry ?o j) = Inr f"
      using normalize_values_get(2) [OF n VALUE_KEYS_facts(1) j False] p by auto
    then have "map_of (options m) j = Some (PFloat f)"
      using normalize_values_get(1) [OF n VALUE_KEYS_facts(1), of j] j False p by simp
    then show ?thesis using value_parser_result(1) [OF p f] by simp
  qed
  then show "wf_machine m" "kind m = knd" "declared m = dcl"
    using keys k assms(2) tool_axis_in [OF a] by (auto simp: wf_machine_def)
qed

lemma read_machine_wf:
  assumes "read_machine repr knd config dcl = Some m" and "knd \<in> set MACHINES"
  shows "wf_machine m" and "kind m = knd" and "declared m = dcl"
proof -
  obtain d where d: "new_machine_config repr knd d dcl = Inr m" "fst ` set d \<subseteq> set (machine_keys knd)"
  proof -
    obtain d where d: "\<not> (\<exists>key \<in> set (map fst d). key \<notin> set (machine_keys knd))"
      "(case new_machine_config repr knd d dcl of Inl _ \<Rightarrow> None | Inr m \<Rightarrow> Some m) = Some m"
      using assms(1) by (simp add: read_machine_def split: option.splits if_splits)
    then have "new_machine_config repr knd d dcl = Inr m" by (simp split: sum.splits)
    with d(1) that show thesis by auto
  qed
  show "wf_machine m" "kind m = knd" "declared m = dcl"
    by (rule new_machine_wf [OF d(1) assms(2) d(2)])+
qed

lemma read_named_wf:
  assumes "read_named repr config acc kinds = Some ms" and "set kinds \<subseteq> set MACHINES"
    and "\<forall>(k, m) \<in> set acc. wf_machine m \<and> kind m = k \<and> declared m"
  shows "(\<forall>(k, m) \<in> set ms. wf_machine m \<and> kind m = k \<and> declared m) \<and> map fst ms = map fst acc @ kinds"
  using assms
proof (induction kinds arbitrary: acc)
  case (Cons knd kinds)
  obtain m where m: "read_machine repr knd (entry config knd) True = Some m"
    and r: "read_named repr config (acc @ [(knd, m)]) kinds = Some ms"
    using Cons.prems(1) by (auto split: option.splits)
  have "wf_machine m \<and> kind m = knd \<and> declared m"
    using read_machine_wf [OF m] Cons.prems(2) by simp
  then show ?case using Cons.IH [OF r] Cons.prems(2,3) by auto
qed simp

text \<open>The machines a section names.\<close>

definition named_machines :: "pydict \<Rightarrow> string list" where
  "named_machines config = filter (dict_has config) MACHINES"

definition undeclared_cnc :: "(string \<times> machine_config) list \<Rightarrow> bool" where
  "undeclared_cnc ms \<longleftrightarrow> (\<exists>m. ms = [(MACHINE_CNC, m)] \<and> \<not> declared m \<and> options m = [])"

definition wf_manufacturing :: "pydict \<Rightarrow> manufacturing \<Rightarrow> bool" where
  "wf_manufacturing config data \<longleftrightarrow>
     (\<forall>(k, m) \<in> set (machines data). wf_machine m \<and> kind m = k)
     \<and> (machine_error data \<longrightarrow> machines data = [])
     \<and> (machines data \<noteq> [] \<longrightarrow>
          (if named_machines config = [] then undeclared_cnc (machines data)
           else map fst (machines data) = named_machines config \<and> (\<forall>(k, m) \<in> set (machines data). declared m)))
     \<and> (\<not> machine_error data \<and> machines data = [] \<longrightarrow> named_machines config = [] \<and> job data = [])
     \<and> fst ` set (job data) \<subseteq> set CAM_KEYS"

lemma read_machine_cnc: "read_machine repr MACHINE_CNC PNone False = Some m \<Longrightarrow> options m = []"
proof -
  have v: "entry ([] :: pydict) k = PNone" for k by simp
  have "normalize_values [] ks = Inr []" for ks by (induction ks) auto
  then show "read_machine repr MACHINE_CNC PNone False = Some m \<Longrightarrow> options m = []"
    by (auto simp: read_machine_def new_machine_config_def Let_def dict_restrict_def split: option.splits sum.splits)
qed

lemma read_machines_wf:
  assumes "machines data = []" and "job data = []" and "\<not> machine_error data"
  shows "wf_manufacturing config (read_machines repr config data)"
proof -
  have none: "named_machines config = [] \<or> (\<exists>key \<in> set (map fst config). key \<in> set MACHINES)"
    by (auto simp: named_machines_def filter_empty_conv map_of_eq_None_iff)
  have sub: "set (named_machines config) \<subseteq> set MACHINES" by (auto simp: named_machines_def)
  have cnc: "MACHINE_CNC \<in> set MACHINES" by (simp add: MACHINES_def)
  have jobs: "fst ` set (dict_restrict (\<lambda>k. k \<in> set SHARED_JOB_KEYS) config) \<subseteq> set CAM_KEYS"
    by (auto simp: dict_restrict_def SHARED_JOB_KEYS_def)
  consider (other) "made_by data \<noteq> Some METHOD_SUBTRACTIVE \<and> \<not> (declared_section data \<and> made_by data = None)"
    | (unknown) "\<exists>key \<in> set (map fst config). key \<notin> set SHARED_JOB_KEYS \<and> key \<notin> set MACHINES \<and> key \<notin> set SECTION_FIELDS"
        "\<not> (made_by data \<noteq> Some METHOD_SUBTRACTIVE \<and> \<not> (declared_section data \<and> made_by data = None))"
    | (default) "named_machines config = []"
        "\<not> (\<exists>key \<in> set (map fst config). key \<notin> set SHARED_JOB_KEYS \<and> key \<notin> set MACHINES \<and> key \<notin> set SECTION_FIELDS)"
        "\<not> (made_by data \<noteq> Some METHOD_SUBTRACTIVE \<and> \<not> (declared_section data \<and> made_by data = None))"
    | (named) "named_machines config \<noteq> []"
        "\<not> (\<exists>key \<in> set (map fst config). key \<notin> set SHARED_JOB_KEYS \<and> key \<notin> set MACHINES \<and> key \<notin> set SECTION_FIELDS)"
        "\<not> (made_by data \<noteq> Some METHOD_SUBTRACTIVE \<and> \<not> (declared_section data \<and> made_by data = None))"
    by blast
  then show ?thesis
  proof cases
    case other
    then show ?thesis
      using assms none by (auto simp: read_machines_def wf_manufacturing_def)
  next
    case unknown
    then have "read_machines repr config data = data\<lparr>machine_error := True\<rparr>"
      unfolding read_machines_def by (simp only: simp_thms if_True if_False)
    then show ?thesis
      using assms by (simp add: wf_manufacturing_def)
  next
    case default
    show ?thesis
    proof (cases "read_machine repr MACHINE_CNC PNone False")
      case None
      then show ?thesis
        using default assms jobs
        by (simp add: read_machines_def wf_manufacturing_def named_machines_def Let_def)
    next
      case (Some m)
      then show ?thesis
        using default assms jobs read_machine_wf [OF Some cnc] read_machine_cnc [OF Some]
        by (simp add: read_machines_def wf_manufacturing_def named_machines_def undeclared_cnc_def Let_def)
    qed
  next
    case named
    show ?thesis
    proof (cases "read_named repr config [] (named_machines config)")
      case None
      have "read_machines repr config data
          = data\<lparr>job := dict_restrict (\<lambda>k. k \<in> set SHARED_JOB_KEYS) config, machine_error := True\<rparr>"
        using named None by (auto simp: read_machines_def named_machines_def Let_def)
      then show ?thesis
        using named(1) assms jobs by (simp add: wf_manufacturing_def)
    next
      case (Some ms)
      have w: "(\<forall>(k, m) \<in> set ms. wf_machine m \<and> kind m = k \<and> declared m) \<and> map fst ms = named_machines config"
        using read_named_wf [OF Some sub] by simp
      have r: "read_machines repr config data
          = data\<lparr>job := dict_restrict (\<lambda>k. k \<in> set SHARED_JOB_KEYS) config, machines := ms\<rparr>"
        using named Some by (auto simp: read_machines_def named_machines_def Let_def)
      have "ms \<noteq> []" using w named(1) by auto
      then show ?thesis
        using w named(1) jobs assms unfolding r wf_manufacturing_def by auto
    qed
  qed
qed

text \<open>The section a declaration has, as the constructor reads it.\<close>

definition section_dict :: "pydict \<Rightarrow> pydict" where
  "section_dict final_config =
     (case entry final_config ''manufacturing'' of PDict d \<Rightarrow> d | _ \<Rightarrow> [])"

lemma part_manufacturing_wf:
  assumes "part_manufacturing repr fc = Inr data"
  shows "wf_manufacturing (section_dict fc) data"
proof -
  have "\<exists>d0. data = read_machines repr (section_dict fc) d0
      \<and> machines d0 = [] \<and> job d0 = [] \<and> \<not> machine_error d0"
    using assms
    by (cases "entry fc ''manufacturing''")
      (auto simp: part_manufacturing_def section_dict_def split: if_splits sum.splits)
  then show ?thesis using read_machines_wf by blast
qed

lemma the_machine_Some: "the_machine data = Some m \<longleftrightarrow> (\<exists>k. machines data = [(k, m)])"
  by (auto simp: the_machine_def split: list.splits prod.splits)

lemma job_options_facts:
  "fst ` set (job_options m) \<subseteq> set (MACHINE_JOB_KEYS (kind m) @ MACHINE_ROUTE_KEYS)"
  by (auto simp: job_options_def)

lemma job_keys_cam: "set (MACHINE_JOB_KEYS k @ MACHINE_ROUTE_KEYS) \<subseteq> set CAM_KEYS"
  by (auto simp: MACHINE_JOB_KEYS_def MACHINE_ROUTE_KEYS_def CAM_KEYS_def LENGTH_KEYS_def FEED_KEYS_def NUMBER_KEYS_def)

lemma job_options_own: "wf_dict (options m) \<Longrightarrow>
   map_of (job_options m) k = (if k \<in> set (MACHINE_JOB_KEYS (kind m) @ MACHINE_ROUTE_KEYS) \<and> entry (options m) k \<noteq> PNone
      then map_of (options m) k else None)"
proof -
  have "map_of (filter (\<lambda>(k, v). P k \<and> v \<noteq> PNone) d) k = (if P k \<and> entry d k \<noteq> PNone then map_of d k else None)"
    if "wf_dict d" for P and d :: pydict
    using that by (induction d) (auto simp: map_of_eq_None_iff simp del: map_of_eq_Some_iff split: option.splits)
  then show "wf_dict (options m) \<Longrightarrow> ?thesis" by (simp add: job_options_def)
qed

section \<open>Properties\<close>



text \<open>a part is never routed for a machine it did not name: the machine a request carries is the
  chosen one where one was chosen, is among those the section names, and is the router only where
  the section names that or names none.\<close>

theorem request_carries_named_machine:
  assumes "route_machine_data repr fc machine = Inr d" and "d \<noteq> []"
  shows "\<exists>k. map_of d ''machine'' = Some (PStr k)
     \<and> (k \<in> set (named_machines (section_dict fc)) \<or> k = MACHINE_CNC \<and> named_machines (section_dict fc) = [])
     \<and> (machine = None \<or> machine = Some [] \<or> machine = Some k)"
proof -
  obtain data m where p: "part_manufacturing repr fc = Inr data"
    and c: "(if machine = None \<or> machine = Some [] then the_machine data else machine_named data (the machine)) = Some m"
    and d: "d = machine_to_data m"
    using assms by (auto simp: route_machine_data_def split: sum.splits if_splits option.splits)
  note wf = part_manufacturing_wf [OF p]
  have "\<exists>k. (k, m) \<in> set (machines data) \<and> (machine = None \<or> machine = Some [] \<or> machine = Some k)"
    using c by (auto simp: the_machine_Some machine_named_def split: if_splits dest: map_of_SomeD)
  then obtain k where k: "(k, m) \<in> set (machines data)" "machine = None \<or> machine = Some [] \<or> machine = Some k"
    by blast
  then have kind: "kind m = k" using wf by (auto simp: wf_manufacturing_def)
  have kin: "k \<in> set (map fst (machines data))" using k(1) by force
  then have "machines data \<noteq> []" by auto
  then have "k \<in> set (named_machines (section_dict fc)) \<or> k = MACHINE_CNC \<and> named_machines (section_dict fc) = []"
    using wf kin by (cases "named_machines (section_dict fc) = []")
      (fastforce simp: wf_manufacturing_def undeclared_cnc_def, metis wf_manufacturing_def)
  moreover have "map_of d ''machine'' = Some (PStr k)"
  proof -
    have "''machine'' \<notin> set (MACHINE_OWN_KEYS (kind m))" by (simp add: MACHINE_OWN_KEYS_def)
    then have "map_of (rev (filter (\<lambda>(k, v). k \<in> set (MACHINE_OWN_KEYS (kind m)) \<and> v \<noteq> PNone) (options m))) ''machine'' = None"
      by (auto simp: map_of_eq_None_iff)
    then show ?thesis using kind by (simp add: d machine_to_data_def map_of_dict_update)
  qed
  ultimately show ?thesis using k(2) by blast
qed

theorem request_carries_named_machine_witness:
  "\<exists>k. map_of [(''machine'', PStr ''drill''), (''tool_axis'', PStr ''-Z''),
        (''tool_axis_vector'', PList [PFloat (Fin 0), PFloat (Fin 0), PFloat (Fin (-1))])] ''machine'' = Some (PStr k)
     \<and> (k \<in> set (named_machines (section_dict [(''manufacturing'', PDict [(''method'', PStr ''subtractive''),
          (''drill'', PDict []), (''laser'', PDict [])])]))
        \<or> k = MACHINE_CNC \<and> named_machines (section_dict [(''manufacturing'', PDict [(''method'', PStr ''subtractive''),
          (''drill'', PDict []), (''laser'', PDict [])])]) = [])
     \<and> (Some ''drill'' = None \<or> Some ''drill'' = Some [] \<or> Some ''drill'' = Some k)"
proof (rule request_carries_named_machine)
  show "route_machine_data (\<lambda>_. []) [(''manufacturing'', PDict [(''method'', PStr ''subtractive''),
          (''drill'', PDict []), (''laser'', PDict [])])] (Some ''drill'')
    = Inr [(''machine'', PStr ''drill''), (''tool_axis'', PStr ''-Z''),
        (''tool_axis_vector'', PList [PFloat (Fin 0), PFloat (Fin 0), PFloat (Fin (-1))])]"
    by code_simp
qed simp

lemma dict_update_keys: "fst ` set (dict_update d e) = fst ` set d \<union> fst ` set e"
  by (induction d e rule: dict_update.induct) (auto simp: fst_set_update)

lemma declared_config_cases:
  assumes "declared_config repr fc machine = Inr r"
  obtains data chosen where "part_manufacturing repr fc = Inr data" and "\<not> machine_error data"
    and "chosen = None \<and> machine = None \<and> the_machine data = None
         \<or> (\<exists>k m. chosen = Some m \<and> (k, m) \<in> set (machines data))"
    and "r = (let merged = dict_update (job data) (case chosen of None \<Rightarrow> [] | Some m \<Rightarrow> job_options m)
              in if \<not> (case chosen of None \<Rightarrow> False | Some m \<Rightarrow> declared m) \<and> job data = [] then None
                 else if merged = [] then None else Some merged)"
    and "length (machines data) \<le> 1 \<or> machine \<noteq> None"
proof -
  obtain data where p: "part_manufacturing repr fc = Inr data" "\<not> machine_error data"
    using assms by (auto simp: declared_config_def split: sum.splits if_splits)
  define ch where "ch = (case machine of
      Some knd \<Rightarrow> (case machine_named data knd of None \<Rightarrow> Inl ValueError | Some m \<Rightarrow> Inr (Some m))
    | None \<Rightarrow> if 1 < length (machines data) then Inl ValueError else Inr (the_machine data))"
  obtain chosen where c: "ch = Inr chosen"
    using assms p by (cases ch) (auto simp: declared_config_def ch_def)
  have "declared_config repr fc machine = (case ch of
               Inl e \<Rightarrow> Inl e
             | Inr chosen \<Rightarrow>
                 if \<not> (case chosen of None \<Rightarrow> False | Some m \<Rightarrow> declared m) \<and> job data = [] then Inr None
                 else
                   let merged = dict_update (job data) (case chosen of None \<Rightarrow> [] | Some m \<Rightarrow> job_options m)
                   in Inr (if merged = [] then None else Some merged))"
    using p by (simp add: declared_config_def ch_def)
  then have r: "r = (let merged = dict_update (job data) (case chosen of None \<Rightarrow> [] | Some m \<Rightarrow> job_options m)
              in if \<not> (case chosen of None \<Rightarrow> False | Some m \<Rightarrow> declared m) \<and> job data = [] then None
                 else if merged = [] then None else Some merged)"
    using assms c by (cases "\<not> (case chosen of None \<Rightarrow> False | Some m \<Rightarrow> declared m) \<and> job data = []")
      (simp_all add: Let_def)
  have "chosen = None \<and> machine = None \<and> the_machine data = None
         \<or> (\<exists>k m. chosen = Some m \<and> (k, m) \<in> set (machines data))"
    using c by (cases chosen) (auto simp: ch_def the_machine_Some machine_named_def split: option.splits if_splits dest: map_of_SomeD)
  moreover have "length (machines data) \<le> 1 \<or> machine \<noteq> None"
    using c by (auto simp: ch_def split: option.splits if_splits)
  ultimately show thesis using that p r by blast
qed

text \<open>a run over a package visits every object it can route: an object whose job is read as one,
  on whichever machine, declares a job, what is read holds known keys only, and an object that
  declares none is passed over without an error.\<close>

theorem visited_covers_routed:
  "(\<forall>d. declared_config repr fc machine = Inr (Some d) \<longrightarrow>
      declares_job repr fc \<and> d \<noteq> [] \<and> fst ` set d \<subseteq> set CAM_KEYS)
   \<and> (\<not> declares_job repr fc \<longrightarrow> machine = None \<longrightarrow>
        (\<exists>e. part_manufacturing repr fc = Inl e) \<or> declared_config repr fc machine = Inr None)"
proof (intro conjI allI impI)
  fix d
  assume a: "declared_config repr fc machine = Inr (Some d)"
  obtain data chosen where p: "part_manufacturing repr fc = Inr data"
    and ch: "chosen = None \<and> machine = None \<and> the_machine data = None
         \<or> (\<exists>k m. chosen = Some m \<and> (k, m) \<in> set (machines data))"
    and r: "Some d = (let merged = dict_update (job data) (case chosen of None \<Rightarrow> [] | Some m \<Rightarrow> job_options m)
              in if \<not> (case chosen of None \<Rightarrow> False | Some m \<Rightarrow> declared m) \<and> job data = [] then None
                 else if merged = [] then None else Some merged)"
    by (rule declared_config_cases [OF a]) blast
  have d: "d = dict_update (job data) (case chosen of None \<Rightarrow> [] | Some m \<Rightarrow> job_options m)" "d \<noteq> []"
    and some: "(case chosen of None \<Rightarrow> False | Some m \<Rightarrow> declared m) \<or> job data \<noteq> []"
    using r by (auto simp: Let_def split: if_splits)
  note wf = part_manufacturing_wf [OF p]
  show "declares_job repr fc"
  proof (cases "job data = []")
    case True
    then obtain k m where "chosen = Some m" "(k, m) \<in> set (machines data)" "declared m"
      using some ch by (cases chosen) auto
    then have "\<exists>km \<in> set (machines data). declared (snd km)" by force
    then show ?thesis using p by (simp add: declares_job_def)
  qed (simp add: declares_job_def p)
  show "d \<noteq> []" by (rule d(2))
  show "fst ` set d \<subseteq> set CAM_KEYS"
  proof -
    have "fst ` set (case chosen of None \<Rightarrow> [] | Some m \<Rightarrow> job_options m) \<subseteq> set CAM_KEYS"
      using subset_trans [OF job_options_facts job_keys_cam] by (cases chosen) simp_all
    moreover have "fst ` set (job data) \<subseteq> set CAM_KEYS" using wf by (simp add: wf_manufacturing_def)
    ultimately show ?thesis unfolding d(1) dict_update_keys by (rule Un_least [rotated])
  qed
next
  assume n: "\<not> declares_job repr fc" and m: "machine = None"
  show "(\<exists>e. part_manufacturing repr fc = Inl e) \<or> declared_config repr fc machine = Inr None"
  proof (cases "part_manufacturing repr fc")
    case (Inr data)
    then have data: "\<not> machine_error data" "job data = []" "\<forall>km \<in> set (machines data). \<not> declared (snd km)"
      using n by (auto simp: declares_job_def)
    have "length (machines data) \<le> 1"
    proof (cases "named_machines (section_dict fc) = []")
      case True
      then show ?thesis
        using part_manufacturing_wf [OF Inr] by (cases "machines data = []") (auto simp: wf_manufacturing_def undeclared_cnc_def)
    next
      case False
      then have "machines data \<noteq> [] \<Longrightarrow> \<exists>km \<in> set (machines data). declared (snd km)"
        using part_manufacturing_wf [OF Inr] by (cases "machines data") (auto simp: wf_manufacturing_def)
      then have "machines data = []" using data(3) by blast
      then show ?thesis by simp
    qed
    moreover have "\<not> (case the_machine data of None \<Rightarrow> False | Some m \<Rightarrow> declared m)"
      using data(3) by (auto simp: the_machine_Some split: option.splits)
    ultimately show ?thesis using Inr data m by (simp add: declared_config_def)
  qed simp
qed

theorem visited_covers_routed_witness:
  "declares_job (\<lambda>_. []) [(''manufacturing'', PDict [(''method'', PStr ''subtractive''), (''feed'', PInt 1200)])]"
proof -
  have "declared_config (\<lambda>_. []) [(''manufacturing'', PDict [(''method'', PStr ''subtractive''), (''feed'', PInt 1200)])] None
    = Inr (Some [(''feed'', PInt 1200)])"
    by code_simp
  with visited_covers_routed show ?thesis by blast
qed

text \<open>naming a machine is not enough to be routed: a part that names a machine and says nothing of
  the cut, not even with a \<open>kerf\<close>, is visited and then found to say nothing about being cut.\<close>

theorem named_machine_without_job:
  assumes "knd \<in> set MACHINES"
  shows "declares_job repr [(''manufacturing'', PDict [(''method'', PStr ''subtractive''), (knd, PNone)])]
     \<and> config_of repr [(''manufacturing'', PDict [(''method'', PStr ''subtractive''), (knd, PNone)])] None = Inr None"
proof -
  let ?c = "[(''method'', PStr ''subtractive''), (knd, PNone)]"
  have k: "knd \<in> {''cnc'', ''drill'', ''laser''}" using assms by (simp add: MACHINES_def MACHINE_CNC_def)
  have axis: "tool_axis_vector DEFAULT_TOOL_AXIS = Some [0, 0, -1]" by code_simp
  have nv: "normalize_values [] ks = Inr []" for ks by (induction ks) auto
  define m where "m = \<lparr>kind = knd, declared = True, options = [], tool_axis = DEFAULT_TOOL_AXIS, vector = [0, 0, -1]\<rparr>"
  have rm: "read_machine repr knd PNone True = Some m"
    using axis nv by (simp add: read_machine_def new_machine_config_def dict_restrict_def m_def)
  have named: "filter (dict_has ?c) MACHINES = [knd]"
    using k by (auto simp: MACHINES_def MACHINE_CNC_def)
  have job: "dict_restrict (\<lambda>k. k \<in> set SHARED_JOB_KEYS) ?c = []"
    using k by (auto simp: dict_restrict_def SHARED_JOB_KEYS_def CAM_KEYS_def LENGTH_KEYS_def FEED_KEYS_def NUMBER_KEYS_def)
  have known: "\<not> (\<exists>key \<in> set (map fst ?c). key \<notin> set SHARED_JOB_KEYS \<and> key \<notin> set MACHINES \<and> key \<notin> set SECTION_FIELDS)"
    using assms by (simp add: SECTION_FIELDS_def)
  have ent: "entry ?c knd = PNone" using k by auto
  have "part_manufacturing repr [(''manufacturing'', PDict ?c)] = Inr \<lparr>declared_section = True, made_by = Some 200,
      source = PNone, instructions = PNone, machine_error = False, machines = [(knd, m)], job = []\<rparr>"
    using named job known rm ent k
    by (auto simp: part_manufacturing_def read_machines_def METHOD_MAP_def METHOD_SUBTRACTIVE_def)
  then show ?thesis
    by (simp add: declares_job_def config_of_def declared_config_def the_machine_def m_def job_options_def)
qed

theorem named_machine_without_job_witness:
  "declares_job (\<lambda>_. []) [(''manufacturing'', PDict [(''method'', PStr ''subtractive''), (''laser'', PNone)])]"
  using named_machine_without_job [of "''laser''" "\<lambda>_. []"] by (simp add: MACHINES_def)

end
