(* ===== verification/ShapeConfig.thy ===== *)
theory ShapeConfig
  imports StepTolerance References Manufacturing
begin

text \<open>
  \<open>partcad/shape_config.py\<close>, the declaration checks of \<open>partcad/part_factory.py\<close> and the part half
  of \<open>partcad/test/manufacturability.py\<close>: what an object says of itself beyond its geometry, above
  all how precisely it is to be made, and what \<open>pc test\<close> makes of the answer.

  \<open>to_float\<close> is \<open>float\<close> of a text. Reading a file goes through the scan of \<open>StepTolerance\<close>; \<open>fs\<close>
  says what the files hold once the object is prepared.
\<close>

section \<open>Values\<close>

text \<open>\<open>isinstance(value, (int, float))\<close>, finite and not negative; a boolean is not a length.\<close>

fun is_a_length :: "pyval \<Rightarrow> bool" where
  "is_a_length (PInt i) = (0 \<le> i)"
| "is_a_length (PFloat (Fin q)) = (0 \<le> q)"
| "is_a_length _ = False"

definition as_list :: "pyval \<Rightarrow> pyval list" where
  "as_list v =
     (case v of
        PNone \<Rightarrow> []
      | PStr s \<Rightarrow> map PStr (filter (\<lambda>item. item \<noteq> []) (map strip (split_on (CHR '','') s)))
      | PList xs \<Rightarrow> filter (\<lambda>item. item \<noteq> PNone \<and> item \<noteq> PStr []) xs
      | v \<Rightarrow> [v])"

text \<open>\<open>float(value)\<close> of what is no boolean; \<open>None\<close> is a \<open>TypeError\<close> or a \<open>ValueError\<close>.\<close>

fun py_float :: "(string \<Rightarrow> pyfloat option) \<Rightarrow> pyval \<Rightarrow> pyfloat option" where
  "py_float to_float (PInt i) = Some (Fin (of_int i))"
| "py_float to_float (PFloat f) = Some f"
| "py_float to_float (PStr s) = to_float s"
| "py_float to_float (PBytes s) = to_float s"
| "py_float to_float (PBool b) = Some (Fin (if b then 1 else 0))"
| "py_float to_float _ = None"

section \<open>Object-type parameters\<close>

text \<open>An accepted parameter maps to its default, \<open>None\<close> for the sentinel \<open>NO_DEFAULT\<close>.\<close>

type_synonym accepted_parameters = "(string \<times> pyval option) list"

definition object_type_parameter ::
  "(string \<Rightarrow> pyfloat option) \<Rightarrow> pydict \<Rightarrow> accepted_parameters \<Rightarrow> string \<Rightarrow> pyval" where
  "object_type_parameter to_float config accepted name =
     (case map_of accepted name of
        None \<Rightarrow> PNone
      | Some dflt \<Rightarrow>
          (let fallback = (case dflt of None \<Rightarrow> PNone | Some v \<Rightarrow> v);
               parameters = (if truthy (entry config ''parameters'') then entry config ''parameters'' else PDict []);
               declared = (case parameters of PDict p \<Rightarrow> entry p name | _ \<Rightarrow> PNone)
           in case declared of
                PDict d \<Rightarrow>
                  (case map_of d ''default'' of
                     None \<Rightarrow> fallback
                   | Some v \<Rightarrow>
                       (case dflt of
                          Some (PFloat _) \<Rightarrow>
                            (case v of
                               PBool _ \<Rightarrow> fallback
                             | _ \<Rightarrow> (case py_float to_float v of None \<Rightarrow> fallback | Some f \<Rightarrow> PFloat f))
                        | Some (PList _) \<Rightarrow> PList (as_list v)
                        | _ \<Rightarrow> v))
              | _ \<Rightarrow> fallback))"

section \<open>A shape\<close>

text \<open>\<open>tolerance_from_file\<close> is \<open>None\<close> until the file has been read, then what it stated.\<close>

record shape =
  config :: pydict
  final :: pydict
  object_type_parameters :: accepted_parameters
  tolerance :: "pyfloat option"
  tolerance_field_accepted :: bool
  tolerance_file_format :: "string option"
  tolerance_from_file :: "pyfloat option option"
  shape_path :: "string option"

definition normalize_shape :: "string \<Rightarrow> pydict option \<Rightarrow> pydict" where
  "normalize_shape name cfg =
     (let cfg = (case cfg of None \<Rightarrow> [] | Some c \<Rightarrow> c)
      in AList.update ''orig_name'' (PStr name) (AList.update ''name'' (PStr name) cfg))"

definition is_manufacturable :: "pydict \<Rightarrow> bool" where
  "is_manufacturable cfg = truthy (case map_of cfg ''manufacturable'' of None \<Rightarrow> PBool True | Some v \<Rightarrow> v)"

text \<open>\<open>key in value\<close> and \<open>value[key]\<close> for a text \<open>key\<close>.\<close>

fun py_in :: "string \<Rightarrow> pyval \<Rightarrow> exn + bool" where
  "py_in key (PDict d) = Inr (dict_has d key)"
| "py_in key (PList xs) = Inr (PStr key \<in> set xs)"
| "py_in key (PStr s) = Inr (contains_sub s key)"
| "py_in key _ = Inl TypeError"

fun py_item :: "pyval \<Rightarrow> string \<Rightarrow> exn + pyval" where
  "py_item (PDict d) key = (case map_of d key of None \<Rightarrow> Inl KeyError | Some v \<Rightarrow> Inr v)"
| "py_item _ key = Inl TypeError"

text \<open>Material, color, finish, texture of an object.\<close>

definition get_mcftt :: "shape \<Rightarrow> string \<Rightarrow> exn + pyval" where
  "get_mcftt s property =
     (case (case map_of (config s) ''parameters'' of None \<Rightarrow> Inr False | Some p \<Rightarrow> py_in property p) of
        Inl e \<Rightarrow> Inl e
      | Inr False \<Rightarrow>
          if is_purchasable (store_data_of (final s)) then Inr PNone
          else Inr (if property = ''finish'' then PStr ''none'' else PNone)
      | Inr True \<Rightarrow>
          (case py_item (the (map_of (config s) ''parameters'')) property of
             Inl e \<Rightarrow> Inl e
           | Inr d \<Rightarrow>
               (case py_in ''default'' d of
                  Inl e \<Rightarrow> Inl e
                | Inr False \<Rightarrow> Inr PNone
                | Inr True \<Rightarrow> py_item d ''default'')))"

definition get_object_type_parameter :: "(string \<Rightarrow> pyfloat option) \<Rightarrow> shape \<Rightarrow> string \<Rightarrow> pyval" where
  "get_object_type_parameter to_float s name =
     object_type_parameter to_float (config s) (object_type_parameters s) name"

definition get_file_tolerance ::
  "(string \<Rightarrow> rat option) \<Rightarrow> (string \<Rightarrow> string list option option) \<Rightarrow> shape \<Rightarrow> pyfloat option \<times> shape" where
  "get_file_tolerance fl fs s =
     (case tolerance_file_format s of
        None \<Rightarrow> (None, s)
      | Some _ \<Rightarrow>
          (case tolerance_from_file s of
             Some found \<Rightarrow> (found, s)
           | None \<Rightarrow>
               (let v = of_file fl fs (tolerance_file_format s) (shape_path s)
                in (v, if v \<noteq> None \<or> (case shape_path s of None \<Rightarrow> False | Some p \<Rightarrow> p \<noteq> [] \<and> fs p \<noteq> None)
                       then s\<lparr>tolerance_from_file := Some v\<rparr> else s))))"

definition get_tolerance ::
  "(string \<Rightarrow> rat option) \<Rightarrow> (string \<Rightarrow> pyfloat option) \<Rightarrow> (string \<Rightarrow> string list option option) \<Rightarrow> shape
   \<Rightarrow> pyval \<times> shape" where
  "get_tolerance fl to_float fs s =
     (case tolerance s of
        Some f \<Rightarrow> (PFloat f, s)
      | None \<Rightarrow>
          (case get_file_tolerance fl fs s of
             (Some f, s') \<Rightarrow> (PFloat f, s')
           | (None, s') \<Rightarrow>
               (let declared = get_object_type_parameter to_float s' ''tolerance''
                in (if declared \<noteq> PNone
                    then if is_a_length declared then declared else PFloat (Fin 0)
                    else if tolerance_field_accepted s' then PFloat (Fin 0) else PNone, s'))))"

section \<open>The factory of a part\<close>

definition POLICED_OBJECT_TYPE_PARAMETERS :: "string list" where
  "POLICED_OBJECT_TYPE_PARAMETERS = [''material'', ''color'', ''tolerance'']"

record part_type =
  accepted_object_type_parameters :: accepted_parameters
  accepts_tolerance_field :: bool
  file_format :: "string option"

text \<open>The two checks of the constructor: the name of the parameter or field that is refused.\<close>

definition refused_parameter :: "part_type \<Rightarrow> pydict \<Rightarrow> string option" where
  "refused_parameter t cfg =
     (case (if truthy (entry cfg ''parameters'') then entry cfg ''parameters'' else PDict []) of
        PDict p \<Rightarrow>
          find (\<lambda>name. name \<in> set POLICED_OBJECT_TYPE_PARAMETERS \<and> \<not> dict_has (accepted_object_type_parameters t) name)
            (sort (map fst p))
      | _ \<Rightarrow> None)"

definition refused_tolerance_field :: "part_type \<Rightarrow> pydict \<Rightarrow> bool" where
  "refused_tolerance_field t cfg \<longleftrightarrow>
     dict_has cfg ''tolerance'' \<and> \<not> accepts_tolerance_field t
     \<and> entry cfg ''type'' \<notin> {PStr ''alias'', PStr ''enrich''}"

definition declared_tolerance :: "(string \<Rightarrow> pyfloat option) \<Rightarrow> pydict \<Rightarrow> pyfloat option" where
  "declared_tolerance to_float cfg =
     (case entry cfg ''tolerance'' of
        PNone \<Rightarrow> None
      | PBool _ \<Rightarrow> None
      | v \<Rightarrow> (case py_float to_float v of
                None \<Rightarrow> None
              | Some f \<Rightarrow> if is_a_length (PFloat f) then Some f else None))"

definition object_type_parameter_names :: "part_type \<Rightarrow> string list" where
  "object_type_parameter_names t = sort (map fst (accepted_object_type_parameters t))"

text \<open>The one parameter that is also a property, \<open>material\<close>.\<close>

definition record_object_type_properties :: "part_type \<Rightarrow> pydict \<Rightarrow> pydict" where
  "record_object_type_properties t cfg =
     (case map_of cfg ''parameters'' of
        Some (PDict p) \<Rightarrow>
          if \<not> dict_has (accepted_object_type_parameters t) ''material'' then cfg
          else (case map_of p ''material'' of
            Some (PDict d) \<Rightarrow>
              (case entry d ''default'' of
                 PStr m \<Rightarrow>
                   if m = [] then cfg
                   else
                     let properties = (case map_of cfg ''properties'' of Some (PDict q) \<Rightarrow> q | _ \<Rightarrow> [])
                     in AList.update ''properties''
                          (PDict (if dict_has properties ''material'' then properties
                                  else AList.update ''material'' (PStr m) properties)) cfg
               | _ \<Rightarrow> cfg)
          | _ \<Rightarrow> cfg)
      | _ \<Rightarrow> cfg)"

text \<open>\<open>PartFactory.__init__\<close> and \<open>_create_part\<close>; \<open>fin\<close> is what the configuration resolves to.\<close>

definition create_part ::
  "(string \<Rightarrow> pyfloat option) \<Rightarrow> part_type \<Rightarrow> pydict \<Rightarrow> pydict \<Rightarrow> string option \<Rightarrow> exn + shape" where
  "create_part to_float t cfg fin path =
     (if refused_parameter t cfg \<noteq> None \<or> refused_tolerance_field t cfg
      then Inl (Raised ''ObjectTypeParameterException'')
      else
        let cfg' = record_object_type_properties t cfg
        in Inr \<lparr>config = cfg', final = fin, object_type_parameters = accepted_object_type_parameters t,
                tolerance = (if accepts_tolerance_field t then declared_tolerance to_float cfg' else None),
                tolerance_field_accepted = accepts_tolerance_field t, tolerance_file_format = file_format t,
                tolerance_from_file = None, shape_path = path\<rparr>)"

section \<open>The verdict of a test\<close>

text \<open>\<open>ManufacturabilityTest.tolerance_failure\<close>: why a tolerance is unusable, or nothing.\<close>

definition tolerance_failure :: "pyval \<Rightarrow> string option" where
  "tolerance_failure v =
     (if v = PNone then Some ''not accepted''
      else if v = PFloat NaN then None
      else if v = PFloat (Fin 0) \<or> v = PInt 0 then Some ''not specified''
      else None)"

text \<open>\<open>test_part\<close>; whether its software and its supply hold up is asked of others.\<close>

definition test_part ::
  "(string \<Rightarrow> rat option) \<Rightarrow> (string \<Rightarrow> pyfloat option) \<Rightarrow> (string \<Rightarrow> string list option option)
   \<Rightarrow> (pyval \<Rightarrow> string) \<Rightarrow> (shape \<Rightarrow> string option) \<Rightarrow> (shape \<Rightarrow> string option) \<Rightarrow> shape \<Rightarrow> exn + bool" where
  "test_part fl to_float fs repr software_failure supply_failure part =
     (let can_be_purchased = is_purchasable (store_data_of (final part))
      in case part_manufacturing repr (final part) of
           Inl e \<Rightarrow> Inl e
         | Inr data \<Rightarrow>
             let can_be_manufactured = (made_by data \<noteq> None);
                 (t, part') = get_tolerance fl to_float fs part
             in if \<not> can_be_purchased \<and> \<not> can_be_manufactured then Inr False
                else if \<not> can_be_purchased \<and> tolerance_failure t \<noteq> None then Inr False
                else if software_failure part' \<noteq> None then Inr False
                else if supply_failure part' \<noteq> None then Inr False
                else Inr True)"

section \<open>Lemmas\<close>

lemma get_file_tolerance_value:
  "tolerance_from_file s = None \<Longrightarrow>
   fst (get_file_tolerance fl fs s) = (if tolerance_file_format s = None then None
      else of_file fl fs (tolerance_file_format s) (shape_path s))"
  by (auto simp: get_file_tolerance_def Let_def split: option.splits)

lemma get_file_tolerance_same:
  "config (snd (get_file_tolerance fl fs s)) = config s
   \<and> object_type_parameters (snd (get_file_tolerance fl fs s)) = object_type_parameters s
   \<and> tolerance_field_accepted (snd (get_file_tolerance fl fs s)) = tolerance_field_accepted s
   \<and> tolerance (snd (get_file_tolerance fl fs s)) = tolerance s"
  by (auto simp: get_file_tolerance_def Let_def split: option.splits)

lemma get_tolerance_value:
  assumes "tolerance_from_file s = None"
  shows "fst (get_tolerance fl to_float fs s) =
     (case tolerance s of Some f \<Rightarrow> PFloat f
      | None \<Rightarrow>
          (case (if tolerance_file_format s = None then None
                 else of_file fl fs (tolerance_file_format s) (shape_path s)) of
             Some f \<Rightarrow> PFloat f
           | None \<Rightarrow>
               (let d = get_object_type_parameter to_float s ''tolerance''
                in if d \<noteq> PNone then if is_a_length d then d else PFloat (Fin 0)
                   else if tolerance_field_accepted s then PFloat (Fin 0) else PNone)))"
proof -
  obtain w s' where g: "get_file_tolerance fl fs s = (w, s')" by force
  then have "w = (if tolerance_file_format s = None then None
      else of_file fl fs (tolerance_file_format s) (shape_path s))"
    using get_file_tolerance_value [OF assms, of fl fs] by simp
  moreover have "config s' = config s" "object_type_parameters s' = object_type_parameters s"
    "tolerance_field_accepted s' = tolerance_field_accepted s"
    using get_file_tolerance_same [of fl fs s] g by auto
  ultimately show ?thesis
    using g by (simp add: get_tolerance_def get_object_type_parameter_def Let_def split: option.split)
qed

lemma declared_tolerance_length: "declared_tolerance to_float cfg = Some f \<Longrightarrow> is_a_length (PFloat f)"
  by (auto simp: declared_tolerance_def split: pyval.splits option.splits if_splits)

lemma create_part_facts:
  assumes "create_part to_float t cfg fin path = Inr s"
  shows "tolerance_from_file s = None" and "final s = fin"
    and "tolerance s = Some f \<Longrightarrow> is_a_length (PFloat f)"
  using assms declared_tolerance_length by (auto simp: create_part_def Let_def split: if_splits)

section \<open>Properties\<close>



text \<open>a part that is made and passes is one somebody can be asked to make: its tolerance is a
  finite length above zero, or what the file it is read from states; no declaration, whether a
  boolean, an infinity, a negative number or \<open>.nan\<close>, makes its way past the check.\<close>

theorem made_part_has_tolerance:
  assumes "create_part to_float t cfg fin path = Inr s"
    and "test_part fl to_float fs repr software_failure supply_failure s = Inr True"
    and "\<not> is_purchasable (store_data_of fin)"
  shows "\<exists>v. fst (get_tolerance fl to_float fs s) = v \<and> v \<noteq> PNone \<and> v \<noteq> PFloat (Fin 0) \<and> v \<noteq> PInt 0
     \<and> (is_a_length v
        \<or> (\<exists>f. v = PFloat f \<and> tolerance s = None
              \<and> of_file fl fs (tolerance_file_format s) (shape_path s) = Some f))"
proof -
  note c = create_part_facts [OF assms(1)]
  obtain v where v: "fst (get_tolerance fl to_float fs s) = v" by blast
  have ok: "tolerance_failure v = None"
    using assms(2,3) v c(2)
    by (auto simp: test_part_def Let_def split: sum.splits prod.splits if_splits)
  note val = get_tolerance_value [OF c(1), of fl to_float fs, unfolded v]
  have "is_a_length v \<or> v = PNone \<or> v = PFloat (Fin 0)
      \<or> (\<exists>f. v = PFloat f \<and> tolerance s = None \<and> of_file fl fs (tolerance_file_format s) (shape_path s) = Some f)"
    using val c(3) by (auto simp: Let_def split: option.splits if_splits)
  then show ?thesis
    using v ok by (auto simp: tolerance_failure_def split: if_splits)
qed

theorem made_part_has_tolerance_witness:
  "\<exists>v. fst (get_tolerance (\<lambda>_. None) (\<lambda>_. None) (\<lambda>_. None)
        \<lparr>config = [(''tolerance'', PFloat (Fin (1 / 10)))], final = [(''manufacturing'', PDict [(''method'', PStr ''additive'')])],
          object_type_parameters = [], tolerance = Some (Fin (1 / 10)), tolerance_field_accepted = True,
          tolerance_file_format = Some ''step'', tolerance_from_file = None, shape_path = None\<rparr>) = v
     \<and> v \<noteq> PNone \<and> v \<noteq> PFloat (Fin 0) \<and> v \<noteq> PInt 0
     \<and> (is_a_length v
        \<or> (\<exists>f. v = PFloat f \<and> Some (Fin (1 / 10 :: rat)) = None \<and> of_file (\<lambda>_. None) (\<lambda>_. None) (Some ''step'') None = Some f))"
proof -
  let ?t = "\<lparr>accepted_object_type_parameters = [], accepts_tolerance_field = True, file_format = Some ''step''\<rparr>"
  let ?c = "[(''tolerance'', PFloat (Fin (1 / 10)))]"
  let ?f = "[(''manufacturing'', PDict [(''method'', PStr ''additive'')])]"
  let ?s = "\<lparr>config = ?c, final = ?f, object_type_parameters = [], tolerance = Some (Fin (1 / 10)),
     tolerance_field_accepted = True, tolerance_file_format = Some ''step'', tolerance_from_file = None, shape_path = None\<rparr>"
  have "create_part (\<lambda>_. None) ?t ?c ?f None = Inr ?s" by code_simp
  moreover have "test_part (\<lambda>_. None) (\<lambda>_. None) (\<lambda>_. None) (\<lambda>_. []) (\<lambda>_. None) (\<lambda>_. None) ?s = Inr True"
    by code_simp
  moreover have "\<not> is_purchasable (store_data_of ?f)" by code_simp
  ultimately show ?thesis using made_part_has_tolerance by fastforce
qed

text \<open>the three places a tolerance can come from, in their order: the declaration outranks the
  file, the file the parameter; and an object has no answer exactly where none of the three can
  give one.\<close>

theorem tolerance_precedence:
  assumes "tolerance_from_file s = None"
  shows "(\<forall>f. tolerance s = Some f \<longrightarrow> fst (get_tolerance fl to_float fs s) = PFloat f)
     \<and> (\<forall>f. tolerance s = None \<and> tolerance_file_format s \<noteq> None
           \<and> of_file fl fs (tolerance_file_format s) (shape_path s) = Some f
           \<longrightarrow> fst (get_tolerance fl to_float fs s) = PFloat f)
     \<and> (fst (get_tolerance fl to_float fs s) = PNone \<longleftrightarrow>
          tolerance s = None
          \<and> (tolerance_file_format s = None \<or> of_file fl fs (tolerance_file_format s) (shape_path s) = None)
          \<and> get_object_type_parameter to_float s ''tolerance'' = PNone \<and> \<not> tolerance_field_accepted s)"
  unfolding get_tolerance_value [OF assms]
  by (auto simp: Let_def split: option.splits)

theorem tolerance_precedence_witness:
  "fst (get_tolerance (\<lambda>_. None) (\<lambda>_. None) (\<lambda>_. None)
     \<lparr>config = [], final = [], object_type_parameters = [(''tolerance'', Some (PFloat (Fin 0)))],
      tolerance = Some (Fin 1), tolerance_field_accepted = True, tolerance_file_format = Some ''step'',
      tolerance_from_file = None, shape_path = None\<rparr>) = PFloat (Fin 1)"
  using tolerance_precedence by fastforce

text \<open>a file that was there is read once: after the first answer, whatever becomes of the files,
  the same answer is given again and nothing is read.\<close>

theorem file_tolerance_read_once:
  assumes "get_tolerance fl to_float fs s = (v, s')" and "shape_path s = Some p" and "p \<noteq> []" and "fs p \<noteq> None"
  shows "get_tolerance fl' to_float fs' s' = (v, s')"
proof (cases "tolerance s")
  case None
  obtain w s1 where g: "get_file_tolerance fl fs s = (w, s1)" by force
  have "s1 = s'" using assms(1) None g by (auto simp: get_tolerance_def Let_def split: option.splits)
  moreover have "get_file_tolerance fl' fs' s1 = (w, s1)"
    using g assms(2-4) by (auto simp: get_file_tolerance_def Let_def split: option.splits if_splits)
  moreover have "tolerance s' = None"
    using get_file_tolerance_same [of fl fs s] None g \<open>s1 = s'\<close> by simp
  ultimately show ?thesis
    using assms(1) None g by (auto simp: get_tolerance_def Let_def split: option.splits)
qed (use assms in \<open>auto simp: get_tolerance_def\<close>)

theorem file_tolerance_read_once_witness:
  "get_tolerance (\<lambda>_. None) (\<lambda>_. None) (\<lambda>_. None)
     \<lparr>config = [], final = [], object_type_parameters = [], tolerance = None, tolerance_field_accepted = True,
      tolerance_file_format = Some ''step'', tolerance_from_file = Some None, shape_path = Some ''a.step''\<rparr>
   = (PFloat (Fin 0), \<lparr>config = [], final = [], object_type_parameters = [], tolerance = None,
      tolerance_field_accepted = True, tolerance_file_format = Some ''step'', tolerance_from_file = Some None,
      shape_path = Some ''a.step''\<rparr>)"
proof (rule file_tolerance_read_once)
  show "get_tolerance (\<lambda>_. None) (\<lambda>_. None) (\<lambda>p. if p = ''a.step'' then Some (Some []) else None)
     \<lparr>config = [], final = [], object_type_parameters = [], tolerance = None, tolerance_field_accepted = True,
      tolerance_file_format = Some ''step'', tolerance_from_file = None, shape_path = Some ''a.step''\<rparr>
   = (PFloat (Fin 0), \<lparr>config = [], final = [], object_type_parameters = [], tolerance = None,
      tolerance_field_accepted = True, tolerance_file_format = Some ''step'', tolerance_from_file = Some None,
      shape_path = Some ''a.step''\<rparr>)"
    by code_simp
qed simp_all

end
