(* ===== verification/ConnectHow.thy ===== *)
theory ConnectHow
  imports Names
begin

text \<open>
  \<open>partcad/assembly_connect.py\<close>: the \<open>how\<close> section of a connection in an assembly. What it declares,
  what it takes over from the objects and interfaces it connects, the ranges of force, and the
  stages of a list of connections.

  What is reported to the log is not modelled, the problems recorded for \<open>pc test\<close> are. The derived
  push distance and direction (measurements and quaternions) are left out. Text of a number that is
  no integer is \<open>repr\<close>.
\<close>

section \<open>Defaults and fields\<close>

definition DEFAULT_PUSH_FORCE_MAX :: pyfloat where "DEFAULT_PUSH_FORCE_MAX = Fin 5"
definition DEFAULT_TURN_DIRECTION :: string where "DEFAULT_TURN_DIRECTION = ''cw''"
definition DEFAULT_TURN_TORQUE_MAX :: pyfloat where "DEFAULT_TURN_TORQUE_MAX = Fin 0"
definition DEFAULT_THREAD_STEP :: pyfloat where "DEFAULT_THREAD_STEP = Fin 0"
definition DEFAULT_HOLD_FORCE_MIN :: pyfloat where "DEFAULT_HOLD_FORCE_MIN = Fin 3"
definition DEFAULT_HOLD_FORCE_MAX :: pyfloat where "DEFAULT_HOLD_FORCE_MAX = Fin 7"
definition TURN_DIRECTIONS :: "string list" where "TURN_DIRECTIONS = [''cw'', ''ccw'']"

definition HOW_FIELDS_DEPRECATED :: "(string \<times> string) list" where
  "HOW_FIELDS_DEPRECATED = [(''pushTorqueMax'', ''pushForceMax'')]"

abbreviation get :: "pydict \<Rightarrow> string \<Rightarrow> pyval" where
  "get d k \<equiv> (case map_of d k of None \<Rightarrow> PNone | Some v \<Rightarrow> v)"

text \<open>\<open>a > b\<close> and \<open>value < 0\<close>; every comparison with not-a-number is false.\<close>

fun float_less :: "pyfloat \<Rightarrow> pyfloat \<Rightarrow> bool" where
  "float_less (Fin a) (Fin b) = (a < b)"
| "float_less NaN _ = False"
| "float_less _ NaN = False"
| "float_less NegInf b = (b \<noteq> NegInf)"
| "float_less a NegInf = False"
| "float_less a PosInf = (a \<noteq> PosInf)"
| "float_less PosInf b = False"

definition as_number :: "pyval \<Rightarrow> pyfloat option" where
  "as_number v =
     (case v of
        PInt i \<Rightarrow> if i < 0 then None else Some (Fin (of_int i))
      | PFloat f \<Rightarrow> if float_less f (Fin 0) then None else Some f
      | _ \<Rightarrow> None)"

definition value_list :: "pyval \<Rightarrow> pyval list" where
  "value_list v = (case v of PNone \<Rightarrow> [] | PList xs \<Rightarrow> filter (\<lambda>x. x \<noteq> PNone) xs | v \<Rightarrow> [v])"

section \<open>The declared section\<close>

datatype problem = ThreadStepDisagrees | HoldForceInverted string

record how =
  specified :: bool
  stage :: "string option"
  push_force_max :: pyfloat
  turn_direction :: string
  turn_torque_max :: pyfloat
  snap_in :: bool
  snap_in_specified :: bool
  self_screw :: bool
  self_screw_specified :: bool
  thread_step :: pyfloat
  thread_step_specified :: bool
  push_distance :: "pyfloat option"
  spec :: pydict
  hold_with :: "(pyval \<times> pyval) list"
  hold_to :: "(pyval \<times> pyval) list"
  hold_with_force :: "pyfloat \<times> pyfloat"
  hold_to_force :: "pyfloat \<times> pyfloat"
  hold_force_specified :: bool
  problems :: "problem list"

fun read_flag :: "pyval \<Rightarrow> bool \<times> bool" where
  "read_flag (PBool b) = (b, True)"
| "read_flag _ = (False, False)"

definition read_number :: "pydict \<Rightarrow> string \<Rightarrow> pyfloat option \<Rightarrow> pyfloat option" where
  "read_number config field dflt =
     (if get config field = PNone then dflt
      else case as_number (get config field) of None \<Rightarrow> dflt | Some f \<Rightarrow> Some f)"

definition read_stage :: "(pyval \<Rightarrow> string) \<Rightarrow> pyval \<Rightarrow> string option" where
  "read_stage repr v =
     (case v of
        PStr s \<Rightarrow> if s = [] then None else Some s
      | PInt i \<Rightarrow> Some (show_int i)
      | PFloat f \<Rightarrow> Some (repr v)
      | _ \<Rightarrow> None)"

definition read_turn_direction :: "pyval \<Rightarrow> string" where
  "read_turn_direction v =
     (case v of
        PStr s \<Rightarrow> if lower s \<in> set TURN_DIRECTIONS then lower s else DEFAULT_TURN_DIRECTION
      | _ \<Rightarrow> DEFAULT_TURN_DIRECTION)"

text \<open>\<open>config.setdefault(new, config.pop(old))\<close>\<close>

fun rename_fields :: "(string \<times> string) list \<Rightarrow> pydict \<Rightarrow> pydict" where
  "rename_fields [] config = config"
| "rename_fields ((old, new) # rest) config =
     rename_fields rest
       (case map_of config old of
          None \<Rightarrow> config
        | Some v \<Rightarrow>
            (let config = dict_restrict (\<lambda>k. k \<noteq> old) config
             in if dict_has config new then config else config @ [(new, v)]))"

definition new_how :: "(pyval \<Rightarrow> string) \<Rightarrow> pyval \<Rightarrow> how" where
  "new_how repr v =
     (let config = rename_fields HOW_FIELDS_DEPRECATED (case v of PDict d \<Rightarrow> d | _ \<Rightarrow> []);
          step = read_number config ''threadStep'' None
      in \<lparr>specified = (v \<noteq> PNone),
          stage = read_stage repr (get config ''stage''),
          push_force_max = the (read_number config ''pushForceMax'' (Some DEFAULT_PUSH_FORCE_MAX)),
          turn_direction = read_turn_direction (get config ''turnDirection''),
          turn_torque_max = the (read_number config ''turnTorqueMax'' (Some DEFAULT_TURN_TORQUE_MAX)),
          snap_in = fst (read_flag (get config ''snapIn'')), snap_in_specified = snd (read_flag (get config ''snapIn'')),
          self_screw = fst (read_flag (get config ''selfScrew'')),
          self_screw_specified = snd (read_flag (get config ''selfScrew'')),
          thread_step = (case step of None \<Rightarrow> DEFAULT_THREAD_STEP | Some f \<Rightarrow> f),
          thread_step_specified = (step \<noteq> None),
          push_distance = read_number config ''pushDistance'' None,
          spec = config, hold_with = [], hold_to = [],
          hold_with_force = (DEFAULT_HOLD_FORCE_MIN, DEFAULT_HOLD_FORCE_MAX),
          hold_to_force = (DEFAULT_HOLD_FORCE_MIN, DEFAULT_HOLD_FORCE_MAX),
          hold_force_specified = False, problems = []\<rparr>)"

section \<open>Holds\<close>

text \<open>An object of the connection: its declaration, its package, the instances of its interfaces.\<close>

record item =
  item_config :: pyval
  project_name :: "string option"
  interfaces :: "(string \<times> string list) list"

definition connect_config :: "item option \<Rightarrow> pydict" where
  "connect_config it =
     (case it of
        None \<Rightarrow> []
      | Some i \<Rightarrow>
          (case item_config i of
             PDict d \<Rightarrow> (case get d ''connect'' of PDict s \<Rightarrow> s | _ \<Rightarrow> [])
           | _ \<Rightarrow> []))"

record hold_defaults =
  default_interfaces :: "pyval list"
  by_interface :: "(pyval \<times> pyval) list"
  fallback :: pyval

definition hold_defaults_of :: "item option \<Rightarrow> hold_defaults" where
  "hold_defaults_of it =
     (let ifs = value_list (get (connect_config it) ''hold'');
          instances = value_list (get (connect_config it) ''holdInstance'')
      in \<lparr>default_interfaces = ifs, by_interface = dict_update [] (zip ifs instances),
          fallback = (if instances \<noteq> [] \<and> ifs = [] then hd instances else PNone)\<rparr>)"

definition short_name :: "pyval \<Rightarrow> pyval" where
  "short_name v = (case v of PStr s \<Rightarrow> PStr (snd (snd (rpartition1 (CHR '':'') s))) | _ \<Rightarrow> v)"

definition same_interface :: "pyval \<Rightarrow> pyval \<Rightarrow> bool" where
  "same_interface one other \<longleftrightarrow> one = other \<or> short_name one = short_name other"

definition instance_for :: "hold_defaults \<Rightarrow> pyval \<Rightarrow> pyval" where
  "instance_for defaults interface =
     (case find (\<lambda>(candidate, _). same_interface candidate interface) (by_interface defaults) of
        Some (_, i) \<Rightarrow> i | None \<Rightarrow> fallback defaults)"

text \<open>The qualified name of an interface; the name of one that is no text is its \<open>repr\<close>.\<close>

definition match_interface ::
  "(pyval \<Rightarrow> string) \<Rightarrow> pyval \<Rightarrow> (string \<times> string list) list \<Rightarrow> string option \<Rightarrow> pyval option" where
  "match_interface repr interface available prj =
     (let names = map fst available;
          matched = filter (\<lambda>c. same_interface (PStr c) interface) names
      in if available = [] then None
         else if interface \<in> PStr ` set names then Some interface
         else case prj of
           Some p \<Rightarrow>
             if p @ '':'' @ py_str repr interface \<in> set names then Some (PStr (p @ '':'' @ py_str repr interface))
             else (case matched of [c] \<Rightarrow> Some (PStr c) | _ \<Rightarrow> None)
         | None \<Rightarrow> (case matched of [c] \<Rightarrow> Some (PStr c) | _ \<Rightarrow> None))"

definition instances_of :: "(string \<times> string list) list \<Rightarrow> pyval \<Rightarrow> pyval list" where
  "instances_of available interface =
     (case interface of
        PStr s \<Rightarrow> (case map_of available s of None \<Rightarrow> [] | Some is \<Rightarrow> map PStr is)
      | _ \<Rightarrow> [])"

definition resolve_instance ::
  "pyval \<Rightarrow> pyval \<Rightarrow> hold_defaults \<Rightarrow> (string \<times> string list) list \<Rightarrow> pyval" where
  "resolve_instance interface requested defaults available =
     (let instances = instances_of available interface;
          dflt = instance_for defaults interface
      in if requested \<noteq> PNone \<and> (instances = [] \<or> requested \<in> set instances) then requested
         else if dflt \<noteq> PNone \<and> (instances = [] \<or> dflt \<in> set instances) then dflt
         else if instances \<noteq> [] then hd instances
         else PNone)"

text \<open>A list or a mapping cannot be looked up, so an interface that is one raises \<open>TypeError\<close>.\<close>

fun hashable :: "pyval \<Rightarrow> bool" where
  "hashable (PList _) = False"
| "hashable (PDict _) = False"
| "hashable _ = True"

definition resolve_holds ::
  "(pyval \<Rightarrow> string) \<Rightarrow> pyval list \<Rightarrow> pyval list \<Rightarrow> item option \<Rightarrow> exn + (pyval \<times> pyval) list" where
  "resolve_holds repr interfaces_spec instances_spec it =
     (let defaults = hold_defaults_of it;
          available = (case it of None \<Rightarrow> [] | Some i \<Rightarrow> interfaces i);
          prj = (case it of None \<Rightarrow> None | Some i \<Rightarrow> project_name i);
          used = (if interfaces_spec = [] then default_interfaces defaults else interfaces_spec)
      in if \<not> list_all (\<lambda>kv. hashable (fst kv)) (by_interface defaults) \<or> \<not> list_all hashable used then Inl TypeError
         else Inr (map (\<lambda>(interface, index).
           let resolved = (case match_interface repr interface available prj of None \<Rightarrow> interface | Some r \<Rightarrow> r);
               requested = (if index < length instances_spec then instances_spec ! index else PNone)
           in (resolved, resolve_instance resolved requested defaults available))
           (zip used [0..<length used])))"

section \<open>Forces\<close>

fun first_number :: "pyval list \<Rightarrow> pyfloat \<Rightarrow> pyfloat \<times> bool" where
  "first_number [] dflt = (dflt, False)"
| "first_number (v # vs) dflt =
     (if v = PNone then first_number vs dflt
      else case as_number v of Some f \<Rightarrow> (f, True) | None \<Rightarrow> first_number vs dflt)"

definition hold_force :: "how \<Rightarrow> string \<Rightarrow> item option \<Rightarrow> (pyfloat \<times> pyfloat) \<times> bool \<times> problem list" where
  "hold_force h side it =
     (let config = connect_config it;
          how_both = get (spec h) (side @ ''Force'');
          object_both = get config ''holdForce'';
          (mn, min_specified) = first_number
            [get (spec h) (side @ ''ForceMin''), how_both, get config ''holdForceMin'', object_both] DEFAULT_HOLD_FORCE_MIN;
          (mx, max_specified) = first_number
            [get (spec h) (side @ ''ForceMax''), how_both, get config ''holdForceMax'', object_both] DEFAULT_HOLD_FORCE_MAX
      in if float_less mx mn
         then ((DEFAULT_HOLD_FORCE_MIN, DEFAULT_HOLD_FORCE_MAX), False, [HoldForceInverted side])
         else ((mn, mx), min_specified \<or> max_specified, []))"

section \<open>What the interfaces and their mating say\<close>

text \<open>What an interface answers, and what a mating declares.\<close>

record interface_end =
  full_name :: "string option"
  compatible_with :: "string set"
  end_thread_step :: "pyfloat option"
  end_self_screw :: bool

record mating =
  mating_self_screw :: bool
  mating_snap_in :: bool

definition ends_of :: "interface_end option \<Rightarrow> string set" where
  "ends_of i = (case i of None \<Rightarrow> {} | Some e \<Rightarrow> set_option (full_name e) \<union> compatible_with e)"

text \<open>
  \<open>_mating_between\<close> takes the first mating it meets; the names are walked as sets, in no order, so
  any of the matings declared between the two may be the one it returns.
\<close>

definition is_mating_between ::
  "(string \<Rightarrow> string \<Rightarrow> mating option) \<Rightarrow> interface_end option \<Rightarrow> interface_end option \<Rightarrow> mating option \<Rightarrow> bool" where
  "is_mating_between get_mate src tgt r \<longleftrightarrow>
     (case r of
        None \<Rightarrow> \<forall>s \<in> ends_of src. \<forall>t \<in> ends_of tgt. get_mate s t = None
      | Some m \<Rightarrow> \<exists>s \<in> ends_of src. \<exists>t \<in> ends_of tgt. get_mate s t = Some m)"

definition resolve_snap_in :: "mating option \<Rightarrow> how \<Rightarrow> how" where
  "resolve_snap_in m h =
     (if snap_in_specified h then h
      else h\<lparr>snap_in := (case m of None \<Rightarrow> False | Some x \<Rightarrow> mating_snap_in x)\<rparr>)"

text \<open>More than one value in a set of floats; not-a-number equals nothing, itself included.\<close>

definition disagree :: "pyfloat list \<Rightarrow> bool" where
  "disagree steps \<longleftrightarrow> (case steps of [a, b] \<Rightarrow> a \<noteq> b \<or> a = NaN | _ \<Rightarrow> False)"

definition resolve_thread_step :: "mating option \<Rightarrow> interface_end option \<Rightarrow> interface_end option \<Rightarrow> how \<Rightarrow> how" where
  "resolve_thread_step m src tgt h =
     (let ends = concat (map (\<lambda>e. case e of None \<Rightarrow> [] | Some i \<Rightarrow> [(end_thread_step i, end_self_screw i)]) [src, tgt]);
          declared = concat (map (\<lambda>(s, _). case s of None \<Rightarrow> [] | Some f \<Rightarrow> [f]) ends);
          cuts_its_own = ((\<exists>e \<in> set ends. snd e) \<or> (case m of None \<Rightarrow> False | Some x \<Rightarrow> mating_self_screw x));
          h = (if self_screw_specified h then h else h\<lparr>self_screw := cuts_its_own\<rparr>)
      in if disagree declared \<and> \<not> self_screw h then h\<lparr>problems := problems h @ [ThreadStepDisagrees]\<rparr>
         else if thread_step_specified h then h
         else
           let matched = concat (map (\<lambda>(s, own). case s of None \<Rightarrow> [] | Some f \<Rightarrow> if own then [] else [f]) ends)
           in case (if matched \<noteq> [] then matched else declared) of
                [] \<Rightarrow> h
              | f # _ \<Rightarrow> h\<lparr>thread_step := f\<rparr>)"

section \<open>Resolution\<close>

definition resolve ::
  "(pyval \<Rightarrow> string) \<Rightarrow> mating option \<Rightarrow> item option \<Rightarrow> item option \<Rightarrow> interface_end option \<Rightarrow> interface_end option
   \<Rightarrow> how \<Rightarrow> exn + how" where
  "resolve repr m source_item target_item source_interface target_interface h =
     (let h = h\<lparr>problems := []\<rparr>;
          h = resolve_thread_step m source_interface target_interface h;
          h = resolve_snap_in m h
      in case resolve_holds repr (value_list (get (spec h) ''holdWith'')) (value_list (get (spec h) ''holdWithInstance'')) source_item of
           Inl e \<Rightarrow> Inl e
         | Inr hw \<Rightarrow>
        (case resolve_holds repr (value_list (get (spec h) ''holdTo'')) (value_list (get (spec h) ''holdToInstance'')) target_item of
           Inl e \<Rightarrow> Inl e
         | Inr ht \<Rightarrow>
             let (fw, sw, pw) = hold_force h ''holdWith'' source_item;
                 (ft, st, pt) = hold_force h ''holdTo'' target_item
             in Inr (h\<lparr>hold_with := hw, hold_to := ht, hold_with_force := fw, hold_to_force := ft,
                       hold_force_specified := (sw \<or> st), problems := problems h @ pw @ pt\<rparr>)))"

definition is_default :: "how \<Rightarrow> bool" where
  "is_default h \<longleftrightarrow> \<not> specified h \<and> hold_with h = [] \<and> hold_to h = [] \<and> \<not> hold_force_specified h"

definition hold_info :: "pyval \<times> pyval \<Rightarrow> pyval" where
  "hold_info hold = PDict [(''interface'', fst hold), (''instance'', snd hold)]"

definition how_info :: "how \<Rightarrow> pydict" where
  "how_info h =
     [(''pushForceMax'', PFloat (push_force_max h)),
      (''pushDistance'', (case push_distance h of None \<Rightarrow> PNone | Some f \<Rightarrow> PFloat f)),
      (''pushDirection'', PNone), (''turnDirection'', PStr (turn_direction h)),
      (''turnTorqueMax'', PFloat (turn_torque_max h)), (''threadStep'', PFloat (thread_step h)),
      (''holdWithForceMin'', PFloat (fst (hold_with_force h))), (''holdWithForceMax'', PFloat (snd (hold_with_force h))),
      (''holdToForceMin'', PFloat (fst (hold_to_force h))), (''holdToForceMax'', PFloat (snd (hold_to_force h)))]
     @ (case stage h of None \<Rightarrow> [] | Some s \<Rightarrow> [(''stage'', PStr s)])
     @ (if hold_with h = [] then [] else [(''holdWith'', PList (map hold_info (hold_with h)))])
     @ (if hold_to h = [] then [] else [(''holdTo'', PList (map hold_info (hold_to h)))])"

section \<open>Stages\<close>

text \<open>The stage of one node of the list; what is no mapping is not a node.\<close>

definition node_stage :: "pyval \<Rightarrow> pyval option" where
  "node_stage node =
     (case node of
        PDict d \<Rightarrow>
          (case (if truthy (get d ''connect'') then get d ''connect'' else get d ''connectPorts'') of
             PDict c \<Rightarrow> (case get c ''how'' of PDict h \<Rightarrow> Some (get h ''stage'') | _ \<Rightarrow> Some PNone)
           | _ \<Rightarrow> Some PNone)
      | _ \<Rightarrow> None)"

text \<open>The walk over the nodes: the stages it reports.\<close>

fun stage_walk :: "pyval set \<Rightarrow> pyval \<Rightarrow> pyval list \<Rightarrow> pyval list" where
  "stage_walk seen previous [] = []"
| "stage_walk seen previous (s # stages) =
     (if s \<noteq> previous
      then (if s \<noteq> PNone \<and> s \<in> seen then [s] else [])
           @ stage_walk (if s \<noteq> PNone then insert s seen else seen) s stages
      else stage_walk seen previous stages)"

definition check_stage_sequence :: "pyval list \<Rightarrow> pyval list" where
  "check_stage_sequence node_list = stage_walk {} PNone (concat (map (\<lambda>n. case node_stage n of None \<Rightarrow> [] | Some s \<Rightarrow> [s]) node_list))"

section \<open>Lemmas\<close>

lemma first_number_nonneg:
  "\<not> float_less dflt (Fin 0) \<Longrightarrow> \<not> float_less (fst (first_number vs dflt)) (Fin 0)"
  by (induction vs dflt rule: first_number.induct)
    (auto simp: as_number_def split: pyval.splits if_splits)

lemma resolve_instance_in:
  "instances_of available interface \<noteq> [] \<Longrightarrow>
   resolve_instance interface requested defaults available \<in> set (instances_of available interface)"
  by (auto simp: resolve_instance_def Let_def)

lemma resolve_holds_entries:
  assumes "resolve_holds repr ispec inst (Some it) = Inr holds" and "(i, n) \<in> set holds"
    and "instances_of (interfaces it) i \<noteq> []"
  shows "n \<in> set (instances_of (interfaces it) i)"
  using assms resolve_instance_in by (auto simp: resolve_holds_def Let_def split: if_splits)

lemma hold_force_range:
  assumes "hold_force h side it = (f, s, p)"
  shows "\<not> float_less (snd f) (fst f)" and "\<not> float_less (fst f) (Fin 0)" and "\<not> float_less (snd f) (Fin 0)"
    and "p \<noteq> [] \<Longrightarrow> f = (DEFAULT_HOLD_FORCE_MIN, DEFAULT_HOLD_FORCE_MAX) \<and> \<not> s"
    and "set p \<subseteq> {HoldForceInverted side}"
proof -
  have d: "\<not> float_less DEFAULT_HOLD_FORCE_MIN (Fin 0)" "\<not> float_less DEFAULT_HOLD_FORCE_MAX (Fin 0)"
    "\<not> float_less DEFAULT_HOLD_FORCE_MAX DEFAULT_HOLD_FORCE_MIN"
    by (simp_all add: DEFAULT_HOLD_FORCE_MIN_def DEFAULT_HOLD_FORCE_MAX_def)
  obtain vs ws a sa b sb where n: "first_number vs DEFAULT_HOLD_FORCE_MIN = (a, sa)"
    "first_number ws DEFAULT_HOLD_FORCE_MAX = (b, sb)"
    and hf: "(if float_less b a
         then ((DEFAULT_HOLD_FORCE_MIN, DEFAULT_HOLD_FORCE_MAX), False, [HoldForceInverted side])
         else ((a, b), sa \<or> sb, [])) = (f, s, p)"
    using assms by (auto simp: hold_force_def Let_def simp del: first_number.simps split: prod.splits)
  have ab: "\<not> float_less a (Fin 0)" "\<not> float_less b (Fin 0)"
    using first_number_nonneg [OF d(1), of vs] first_number_nonneg [OF d(2), of ws] n by simp_all
  show "\<not> float_less (snd f) (fst f)" "\<not> float_less (fst f) (Fin 0)" "\<not> float_less (snd f) (Fin 0)"
    "p \<noteq> [] \<Longrightarrow> f = (DEFAULT_HOLD_FORCE_MIN, DEFAULT_HOLD_FORCE_MAX) \<and> \<not> s"
    "set p \<subseteq> {HoldForceInverted side}"
    using hf d ab by (auto split: if_splits)
qed

lemma resolve_parts:
  assumes "resolve repr m si ti se te h = Inr r"
  obtains h' hw ht fw sw pw ft st pt where
    "h' = resolve_snap_in m (resolve_thread_step m se te (h\<lparr>problems := []\<rparr>))"
    and "resolve_holds repr (value_list (get (spec h') ''holdWith'')) (value_list (get (spec h') ''holdWithInstance'')) si = Inr hw"
    and "resolve_holds repr (value_list (get (spec h') ''holdTo'')) (value_list (get (spec h') ''holdToInstance'')) ti = Inr ht"
    and "hold_force h' ''holdWith'' si = (fw, sw, pw)" and "hold_force h' ''holdTo'' ti = (ft, st, pt)"
    and "r = h'\<lparr>hold_with := hw, hold_to := ht, hold_with_force := fw, hold_to_force := ft,
                       hold_force_specified := (sw \<or> st), problems := problems h' @ pw @ pt\<rparr>"
  using assms by (auto simp: resolve_def Let_def split: sum.splits prod.splits)

lemma resolve_thread_step_keeps:
  "spec (resolve_thread_step m se te h) = spec h \<and> stage (resolve_thread_step m se te h) = stage h
   \<and> snap_in_specified (resolve_thread_step m se te h) = snap_in_specified h
   \<and> snap_in (resolve_thread_step m se te h) = snap_in h
   \<and> push_force_max (resolve_thread_step m se te h) = push_force_max h
   \<and> turn_direction (resolve_thread_step m se te h) = turn_direction h
   \<and> push_distance (resolve_thread_step m se te h) = push_distance h
   \<and> (self_screw_specified h \<longrightarrow> self_screw (resolve_thread_step m se te h) = self_screw h)
   \<and> (thread_step_specified h \<longrightarrow> thread_step (resolve_thread_step m se te h) = thread_step h)"
  by (auto simp: resolve_thread_step_def Let_def split: list.split)

text \<open>The reference for the stages: where a stage comes back after another one came between.\<close>

definition interrupted :: "pyval list \<Rightarrow> bool" where
  "interrupted xs \<longleftrightarrow>
     (\<exists>i j k. i < j \<and> j < k \<and> k < length xs \<and> xs ! i = xs ! k \<and> xs ! i \<noteq> PNone \<and> xs ! j \<noteq> xs ! k)"

lemma stage_walk_none:
  assumes "previous \<noteq> PNone \<Longrightarrow> previous \<in> seen"
  shows "stage_walk seen previous xs = [] \<longleftrightarrow>
     \<not> interrupted xs
     \<and> (\<forall>k < length xs. xs ! k \<in> seen \<and> xs ! k \<noteq> PNone \<longrightarrow> xs ! k = previous \<and> (\<forall>j < k. xs ! j = previous))"
  using assms
proof (induction xs arbitrary: seen previous)
  case Nil
  then show ?case by (simp add: interrupted_def)
next
  case (Cons x xs)
  have int: "interrupted (x # xs) \<longleftrightarrow> interrupted xs
      \<or> (x \<noteq> PNone \<and> (\<exists>k < length xs. xs ! k = x \<and> (\<exists>j < k. xs ! j \<noteq> x)))"
  proof
    assume "interrupted (x # xs)"
    then obtain i j k where ijk: "i < j" "j < k" "k < length (x # xs)" "(x # xs) ! i = (x # xs) ! k"
      "(x # xs) ! i \<noteq> PNone" "(x # xs) ! j \<noteq> (x # xs) ! k"
      unfolding interrupted_def by blast
    then obtain j' k' where jk: "j = Suc j'" "k = Suc k'" by (metis Suc_less_eq2 less_nat_zero_code not0_implies_Suc)
    show "interrupted xs \<or> (x \<noteq> PNone \<and> (\<exists>k < length xs. xs ! k = x \<and> (\<exists>j < k. xs ! j \<noteq> x)))"
    proof (cases i)
      case 0
      then show ?thesis using ijk jk by auto
    next
      case (Suc i')
      then have "interrupted xs" unfolding interrupted_def using ijk jk
        by (intro exI [of _ i'] exI [of _ j'] exI [of _ k']) auto
      then show ?thesis by simp
    qed
  next
    assume "interrupted xs \<or> (x \<noteq> PNone \<and> (\<exists>k < length xs. xs ! k = x \<and> (\<exists>j < k. xs ! j \<noteq> x)))"
    then show "interrupted (x # xs)"
    proof
      assume "interrupted xs"
      then obtain i j k where "i < j" "j < k" "k < length xs" "xs ! i = xs ! k" "xs ! i \<noteq> PNone" "xs ! j \<noteq> xs ! k"
        unfolding interrupted_def by blast
      then show ?thesis unfolding interrupted_def
        by (intro exI [of _ "Suc i"] exI [of _ "Suc j"] exI [of _ "Suc k"]) auto
    next
      assume "x \<noteq> PNone \<and> (\<exists>k < length xs. xs ! k = x \<and> (\<exists>j < k. xs ! j \<noteq> x))"
      then obtain k j where "x \<noteq> PNone" "k < length xs" "xs ! k = x" "j < k" "xs ! j \<noteq> x" by blast
      then show ?thesis unfolding interrupted_def
        by (intro exI [of _ 0] exI [of _ "Suc j"] exI [of _ "Suc k"]) auto
    qed
  qed
  have all_Suc: "(\<forall>k < length (x # xs). P k) \<longleftrightarrow> P 0 \<and> (\<forall>k < length xs. P (Suc k))" for P
    by (auto simp: less_Suc_eq_0_disj)
  have below_Suc: "(\<forall>j < Suc k. (x # xs) ! j = previous) \<longleftrightarrow> x = previous \<and> (\<forall>j < k. xs ! j = previous)" for k
    by (auto simp: less_Suc_eq_0_disj)
  show ?case
  proof (cases "x = previous")
    case True
    have ih: "stage_walk seen previous xs = [] \<longleftrightarrow> \<not> interrupted xs
        \<and> (\<forall>k < length xs. xs ! k \<in> seen \<and> xs ! k \<noteq> PNone \<longrightarrow> xs ! k = previous \<and> (\<forall>j < k. xs ! j = previous))"
      by (rule Cons.IH) (rule Cons.prems)
    have walk: "stage_walk seen previous (x # xs) = stage_walk seen previous xs" using True by simp
    have once: "\<not> (x \<noteq> PNone \<and> (\<exists>k < length xs. xs ! k = x \<and> (\<exists>j < k. xs ! j \<noteq> x)))"
      if "\<forall>k < length xs. xs ! k \<in> seen \<and> xs ! k \<noteq> PNone \<longrightarrow> xs ! k = previous \<and> (\<forall>j < k. xs ! j = previous)"
      using that Cons.prems True by metis
    have first: "((x # xs) ! 0 \<in> seen \<and> (x # xs) ! 0 \<noteq> PNone \<longrightarrow>
        (x # xs) ! 0 = previous \<and> (\<forall>j < 0. (x # xs) ! j = previous)) \<longleftrightarrow> True"
      using True by simp
    have rest: "(\<forall>k < length xs. xs ! k \<in> seen \<and> xs ! k \<noteq> PNone \<longrightarrow>
        xs ! k = previous \<and> x = previous \<and> (\<forall>j < k. xs ! j = previous))
      \<longleftrightarrow> (\<forall>k < length xs. xs ! k \<in> seen \<and> xs ! k \<noteq> PNone \<longrightarrow> xs ! k = previous \<and> (\<forall>j < k. xs ! j = previous))"
      using True by simp
    show ?thesis
      unfolding all_Suc below_Suc nth_Cons_Suc rest first walk ih int using once by blast
  next
    case False
    define seen' where "seen' = (if x \<noteq> PNone then insert x seen else seen)"
    have walk: "stage_walk seen previous (x # xs) = []
        \<longleftrightarrow> \<not> (x \<noteq> PNone \<and> x \<in> seen) \<and> stage_walk seen' x xs = []"
      using False by (simp add: seen'_def)
    have IH: "stage_walk seen' x xs = [] \<longleftrightarrow> \<not> interrupted xs
        \<and> (\<forall>k < length xs. xs ! k \<in> seen' \<and> xs ! k \<noteq> PNone \<longrightarrow> xs ! k = x \<and> (\<forall>j < k. xs ! j = x))"
      by (rule Cons.IH) (simp add: seen'_def)
    have third: "(\<forall>k < length xs. xs ! k \<in> seen' \<and> xs ! k \<noteq> PNone \<longrightarrow> xs ! k = x \<and> (\<forall>j < k. xs ! j = x))
      \<longleftrightarrow> (\<forall>k < length xs. \<not> (xs ! k \<in> seen \<and> xs ! k \<noteq> PNone))
         \<and> \<not> (x \<noteq> PNone \<and> (\<exists>k < length xs. xs ! k = x \<and> (\<exists>j < k. xs ! j \<noteq> x)))" (is "?l \<longleftrightarrow> ?s \<and> ?a")
      if out: "\<not> (x \<noteq> PNone \<and> x \<in> seen)"
    proof
      assume l: ?l
      have ?s
      proof (intro allI impI notI)
        fix k
        assume k: "k < length xs" "xs ! k \<in> seen \<and> xs ! k \<noteq> PNone"
        then have "xs ! k \<in> seen'" by (simp add: seen'_def)
        then have "xs ! k = x" using l k by blast
        then show False using k out by metis
      qed
      moreover have ?a
      proof
        assume "x \<noteq> PNone \<and> (\<exists>k < length xs. xs ! k = x \<and> (\<exists>j < k. xs ! j \<noteq> x))"
        then obtain k j where k: "x \<noteq> PNone" "k < length xs" "xs ! k = x" "j < k" "xs ! j \<noteq> x" by blast
        then have "xs ! k \<in> seen' \<and> xs ! k \<noteq> PNone" by (simp add: seen'_def)
        then show False using l k by blast
      qed
      ultimately show "?s \<and> ?a" by blast
    next
      assume sa: "?s \<and> ?a"
      show ?l
      proof (intro allI impI)
        fix k
        assume k: "k < length xs" "xs ! k \<in> seen' \<and> xs ! k \<noteq> PNone"
        then have "xs ! k = x" using sa by (auto simp: seen'_def split: if_splits)
        then show "xs ! k = x \<and> (\<forall>j < k. xs ! j = x)" using sa k by blast
      qed
    qed
    have "(\<forall>k < length xs. xs ! k \<in> seen \<and> xs ! k \<noteq> PNone \<longrightarrow>
        xs ! k = previous \<and> x = previous \<and> (\<forall>j < k. xs ! j = previous))
      \<longleftrightarrow> (\<forall>k < length xs. \<not> (xs ! k \<in> seen \<and> xs ! k \<noteq> PNone))"
      using False by blast
    moreover have "((x # xs) ! 0 \<in> seen \<and> (x # xs) ! 0 \<noteq> PNone \<longrightarrow>
        (x # xs) ! 0 = previous \<and> (\<forall>j < 0. (x # xs) ! j = previous)) \<longleftrightarrow> \<not> (x \<noteq> PNone \<and> x \<in> seen)"
      using False by auto
    ultimately show ?thesis
      unfolding walk IH int all_Suc below_Suc nth_Cons_Suc using third by blast
  qed
qed

section \<open>Properties\<close>

text \<open>a list of connections is passed without a word exactly where every stage of it is one
  uninterrupted run: the walk with its set of stages seen agrees with the definition by positions.\<close>

theorem stages_reported_iff_interrupted:
  "check_stage_sequence nodes = [] \<longleftrightarrow>
     \<not> interrupted (concat (map (\<lambda>n. case node_stage n of None \<Rightarrow> [] | Some s \<Rightarrow> [s]) nodes))"
  using stage_walk_none [where previous = PNone and seen = "{}"] by (simp add: check_stage_sequence_def)

text \<open>whatever was declared where, the force to hold each end with is a range: neither bound is
  below zero and the upper one is not below the lower; a declaration that says otherwise is
  recorded as a problem and replaced by the default range.\<close>

theorem hold_forces_ordered:
  assumes "resolve repr m si ti se te h = Inr r"
  shows "(\<forall>f \<in> {hold_with_force r, hold_to_force r}.
            \<not> float_less (snd f) (fst f) \<and> \<not> float_less (fst f) (Fin 0) \<and> \<not> float_less (snd f) (Fin 0))
     \<and> (HoldForceInverted ''holdTo'' \<in> set (problems r) \<longrightarrow>
           hold_to_force r = (DEFAULT_HOLD_FORCE_MIN, DEFAULT_HOLD_FORCE_MAX))"
proof -
  obtain h' hw ht fw sw pw ft st pt where h': "h' = resolve_snap_in m (resolve_thread_step m se te (h\<lparr>problems := []\<rparr>))"
    and fw: "hold_force h' ''holdWith'' si = (fw, sw, pw)" and ft: "hold_force h' ''holdTo'' ti = (ft, st, pt)"
    and r: "r = h'\<lparr>hold_with := hw, hold_to := ht, hold_with_force := fw, hold_to_force := ft,
                       hold_force_specified := (sw \<or> st), problems := problems h' @ pw @ pt\<rparr>"
    by (rule resolve_parts [OF assms])
  note w = hold_force_range [OF fw] and t = hold_force_range [OF ft]
  have range: "\<forall>f \<in> {hold_with_force r, hold_to_force r}.
      \<not> float_less (snd f) (fst f) \<and> \<not> float_less (fst f) (Fin 0) \<and> \<not> float_less (snd f) (Fin 0)"
    using r w(1-3) t(1-3) by auto
  have "set (problems (resolve_thread_step m se te (h\<lparr>problems := []\<rparr>))) \<subseteq> {ThreadStepDisagrees}"
    by (auto simp: resolve_thread_step_def Let_def split: list.splits)
  then have ps: "set (problems h') \<subseteq> {ThreadStepDisagrees}" "set pw \<subseteq> {HoldForceInverted ''holdWith''}"
    using w(5) by (auto simp: h' resolve_snap_in_def)
  then have "HoldForceInverted ''holdTo'' \<in> set (problems r) \<Longrightarrow> pt \<noteq> []"
    using r by auto
  then have "HoldForceInverted ''holdTo'' \<in> set (problems r) \<longrightarrow>
           hold_to_force r = (DEFAULT_HOLD_FORCE_MIN, DEFAULT_HOLD_FORCE_MAX)"
    using t(4) r by auto
  with range show ?thesis by blast
qed

theorem hold_forces_ordered_witness:
  "\<exists>r. resolve (\<lambda>_. []) None None None None None
        (new_how (\<lambda>_. []) (PDict [(''holdToForceMin'', PInt 9), (''holdToForceMax'', PInt 2)])) = Inr r
     \<and> hold_to_force r = (DEFAULT_HOLD_FORCE_MIN, DEFAULT_HOLD_FORCE_MAX)"
proof -
  let ?h = "new_how (\<lambda>_. []) (PDict [(''holdToForceMin'', PInt 9), (''holdToForceMax'', PInt 2)])"
  have e: "\<not> isl (resolve (\<lambda>_. []) None None None None None ?h)" by code_simp
  have p: "problems (projr (resolve (\<lambda>_. []) None None None None None ?h)) = [HoldForceInverted ''holdTo'']"
    by code_simp
  from e obtain r where r: "resolve (\<lambda>_. []) None None None None None ?h = Inr r"
    by (cases "resolve (\<lambda>_. []) None None None None None ?h") simp_all
  then have "HoldForceInverted ''holdTo'' \<in> set (problems r)" using p by simp
  with hold_forces_ordered [OF r] r show ?thesis by blast
qed

text \<open>what the assembly file says of one connection wins: a stage, a force, a direction, a
  distance, and a stated thread step, self-screwing or snap-in survive the resolution against any
  objects, interfaces and mating.\<close>

theorem declared_how_wins:
  assumes "resolve repr m si ti se te h = Inr r"
  shows "stage r = stage h \<and> push_force_max r = push_force_max h \<and> turn_direction r = turn_direction h
     \<and> push_distance r = push_distance h
     \<and> (thread_step_specified h \<longrightarrow> thread_step r = thread_step h)
     \<and> (self_screw_specified h \<longrightarrow> self_screw r = self_screw h)
     \<and> (snap_in_specified h \<longrightarrow> snap_in r = snap_in h)"
proof -
  obtain h' hw ht fw sw pw ft st pt where h': "h' = resolve_snap_in m (resolve_thread_step m se te (h\<lparr>problems := []\<rparr>))"
    and r: "r = h'\<lparr>hold_with := hw, hold_to := ht, hold_with_force := fw, hold_to_force := ft,
                       hold_force_specified := (sw \<or> st), problems := problems h' @ pw @ pt\<rparr>"
    by (rule resolve_parts [OF assms])
  show ?thesis
    using resolve_thread_step_keeps [of m se te "h\<lparr>problems := []\<rparr>"]
    by (auto simp: r h' resolve_snap_in_def)
qed

theorem declared_how_wins_witness:
  "\<exists>r. resolve (\<lambda>_. []) (Some \<lparr>mating_self_screw = True, mating_snap_in = True\<rparr>) None None None None
        (new_how (\<lambda>_. []) (PDict [(''snapIn'', PBool False)])) = Inr r \<and> snap_in r = False"
proof -
  let ?h = "new_how (\<lambda>_. []) (PDict [(''snapIn'', PBool False)])"
  have "\<not> isl (resolve (\<lambda>_. []) (Some \<lparr>mating_self_screw = True, mating_snap_in = True\<rparr>) None None None None ?h)"
    by code_simp
  then obtain r where r: "resolve (\<lambda>_. []) (Some \<lparr>mating_self_screw = True, mating_snap_in = True\<rparr>) None None None None ?h = Inr r"
    by (cases "resolve (\<lambda>_. []) (Some \<lparr>mating_self_screw = True, mating_snap_in = True\<rparr>) None None None None ?h") simp_all
  have "snap_in_specified ?h" "snap_in ?h = False"
    by (simp_all add: new_how_def HOW_FIELDS_DEPRECATED_def Let_def)
  with declared_how_wins [OF r] r show ?thesis by blast
qed

text \<open>an object is held by an instance that exists: where the interface it is held by has
  instances, the one chosen is one of them, whatever was requested or defaulted.\<close>

theorem held_by_existing_instance:
  assumes "resolve repr m (Some it) ti se te h = Inr r" and "(i, n) \<in> set (hold_with r)"
    and "instances_of (interfaces it) i \<noteq> []"
  shows "n \<in> set (instances_of (interfaces it) i)"
proof -
  obtain h' hw ht fw sw pw ft st pt where
    hw: "resolve_holds repr (value_list (get (spec h') ''holdWith'')) (value_list (get (spec h') ''holdWithInstance'')) (Some it) = Inr hw"
    and r: "r = h'\<lparr>hold_with := hw, hold_to := ht, hold_with_force := fw, hold_to_force := ft,
                       hold_force_specified := (sw \<or> st), problems := problems h' @ pw @ pt\<rparr>"
    by (rule resolve_parts [OF assms(1)])
  then have "(i, n) \<in> set hw" using assms(2) by simp
  then show ?thesis using resolve_holds_entries [OF hw] assms(3) by blast
qed

text \<open>which of several matings governs a pair is not determined: between the same two
  interfaces one walk of their names finds a mating that cuts its own thread and another one that
  does not, and the connection is in error for the one and not for the other.\<close>

theorem several_matings_disagree:
  "\<exists>get_mate src tgt m m' h.
     is_mating_between get_mate (Some src) (Some tgt) (Some m) \<and> is_mating_between get_mate (Some src) (Some tgt) (Some m')
     \<and> problems (resolve_thread_step (Some m) (Some src) (Some tgt) h) = []
     \<and> problems (resolve_thread_step (Some m') (Some src) (Some tgt) h) = [ThreadStepDisagrees]"
proof -
  define get_mate where "get_mate = (\<lambda>s t :: string. if s = ''a'' then Some \<lparr>mating_self_screw = True, mating_snap_in = False\<rparr>
    else Some \<lparr>mating_self_screw = False, mating_snap_in = False\<rparr>)"
  define src where "src = \<lparr>full_name = Some ''a'', compatible_with = {''b''}, end_thread_step = Some (Fin 1), end_self_screw = False\<rparr>"
  define tgt where "tgt = \<lparr>full_name = Some ''c'', compatible_with = {}, end_thread_step = Some (Fin 2), end_self_screw = False\<rparr>"
  have "is_mating_between get_mate (Some src) (Some tgt) (Some \<lparr>mating_self_screw = True, mating_snap_in = False\<rparr>)"
    "is_mating_between get_mate (Some src) (Some tgt) (Some \<lparr>mating_self_screw = False, mating_snap_in = False\<rparr>)"
    by (auto simp: is_mating_between_def ends_of_def get_mate_def src_def tgt_def)
  moreover have "problems (resolve_thread_step (Some \<lparr>mating_self_screw = True, mating_snap_in = False\<rparr>) (Some src) (Some tgt)
      (new_how (\<lambda>_. []) PNone)) = []"
    "problems (resolve_thread_step (Some \<lparr>mating_self_screw = False, mating_snap_in = False\<rparr>) (Some src) (Some tgt)
      (new_how (\<lambda>_. []) PNone)) = [ThreadStepDisagrees]"
    by (simp_all add: resolve_thread_step_def src_def tgt_def new_how_def HOW_FIELDS_DEPRECATED_def read_number_def disagree_def)
  ultimately show ?thesis by blast
qed

end
