(* ===== verification/Geometry.thy ===== *)
theory Geometry
  imports Prelude
begin

text \<open>
  Rigid placements, from \<open>partcad/geom.py\<close>. A \<open>Location\<close> is a quaternion and a translation, and every
  operation on it is the polynomial the source spells out. Numbers are reals: a placement computed in
  binary64 is the real one up to rounding, and the laws below are what the code is written to satisfy
  up to that rounding. The conversions from and to OCCT objects are not modelled.
\<close>

type_synonym vec3 = "real \<times> real \<times> real"
type_synonym quat = "real \<times> real \<times> real \<times> real"

record location =
  loc_q :: quat
  loc_t :: vec3

section \<open>Quaternions\<close>

definition IDENTITY_Q :: quat where "IDENTITY_Q = (1, 0, 0, 0)"
definition IDENTITY_T :: vec3 where "IDENTITY_T = (0, 0, 0)"

text \<open>A zero axis is refused with a \<open>ValueError\<close>, here \<open>None\<close>.\<close>

definition axis_angle_to_quat :: "vec3 \<Rightarrow> real \<Rightarrow> quat option" where
  "axis_angle_to_quat ax angle_deg =
     (let (x, y, z) = ax; nrm = sqrt (x * x + y * y + z * z)
      in if nrm = 0 then None
         else (let x = x / nrm; y = y / nrm; z = z / nrm;
                   half = (angle_deg * pi / 180) / 2; s = sin half
               in Some (cos half, x * s, y * s, z * s)))"

fun quat_mul :: "quat \<Rightarrow> quat \<Rightarrow> quat" where
  "quat_mul (aw, ax, ay, az) (bw, bx, by', bz) =
     (aw * bw - ax * bx - ay * by' - az * bz,
      aw * bx + ax * bw + ay * bz - az * by',
      aw * by' - ax * bz + ay * bw + az * bx,
      aw * bz + ax * by' - ay * bx + az * bw)"

fun quat_conj :: "quat \<Rightarrow> quat" where
  "quat_conj (w, x, y, z) = (w, - x, - y, - z)"

fun rotate_vec :: "quat \<Rightarrow> vec3 \<Rightarrow> vec3" where
  "rotate_vec (w, x, y, z) (vx, vy, vz) =
     ((1 - 2 * (y * y + z * z)) * vx + 2 * (x * y - w * z) * vy + 2 * (x * z + w * y) * vz,
      2 * (x * y + w * z) * vx + (1 - 2 * (x * x + z * z)) * vy + 2 * (y * z - w * x) * vz,
      2 * (x * z - w * y) * vx + 2 * (y * z + w * x) * vy + (1 - 2 * (x * x + y * y)) * vz)"

fun quat_to_axis_angle :: "quat \<Rightarrow> vec3 \<times> real" where
  "quat_to_axis_angle (q0, q1, q2, q3) =
     (let w = max (-1) (min 1 q0); s = sqrt (max 0 (1 - w * w))
      in if s < 1 / 10 ^ 12 then ((0, 0, 1), 0)
         else ((q1 / s, q2 / s, q3 / s), 2 * arccos w * 180 / pi))"

section \<open>Locations\<close>

definition identity_location :: location where
  "identity_location = \<lparr>loc_q = IDENTITY_Q, loc_t = IDENTITY_T\<rparr>"

text \<open>The packed form a declaration writes, \<open>[t, axis, angle]\<close>.\<close>

definition packed_location :: "vec3 \<times> vec3 \<times> real \<Rightarrow> location option" where
  "packed_location arg =
     (case arg of (t, ax, angle) \<Rightarrow>
        (case axis_angle_to_quat ax angle of
           None \<Rightarrow> None
         | Some q \<Rightarrow> Some \<lparr>loc_q = q, loc_t = t\<rparr>))"

definition as_packed :: "location \<Rightarrow> vec3 \<times> vec3 \<times> real" where
  "as_packed l = (case quat_to_axis_angle (loc_q l) of (ax, angle) \<Rightarrow> (loc_t l, ax, angle))"

fun vec_add :: "vec3 \<Rightarrow> vec3 \<Rightarrow> vec3" where
  "vec_add (a, b, c) (x, y, z) = (a + x, b + y, c + z)"

fun vec_neg :: "vec3 \<Rightarrow> vec3" where
  "vec_neg (a, b, c) = (- a, - b, - c)"

definition transform_point :: "location \<Rightarrow> vec3 \<Rightarrow> vec3" where
  "transform_point l p = vec_add (rotate_vec (loc_q l) p) (loc_t l)"

definition rotate_vector :: "location \<Rightarrow> vec3 \<Rightarrow> vec3" where
  "rotate_vector l v = rotate_vec (loc_q l) v"

definition inverse_location :: "location \<Rightarrow> location" where
  "inverse_location l =
     (let q_inv = quat_conj (loc_q l) in \<lparr>loc_q = q_inv, loc_t = vec_neg (rotate_vec q_inv (loc_t l))\<rparr>)"

definition mul_location :: "location \<Rightarrow> location \<Rightarrow> location" where
  "mul_location a b =
     \<lparr>loc_q = quat_mul (loc_q a) (loc_q b), loc_t = vec_add (rotate_vec (loc_q a) (loc_t b)) (loc_t a)\<rparr>"

section \<open>Unit quaternions\<close>

text \<open>What every constructor establishes and every operation keeps: the quaternion has length one.\<close>

fun quat_norm2 :: "quat \<Rightarrow> real" where
  "quat_norm2 (w, x, y, z) = w * w + x * x + y * y + z * z"

definition rigid :: "location \<Rightarrow> bool" where
  "rigid l = (quat_norm2 (loc_q l) = 1)"

lemma quat_mul_assoc: "quat_mul (quat_mul a b) c = quat_mul a (quat_mul b c)"
  by (cases a; cases b; cases c) (simp add: algebra_simps)

lemma quat_mul_one [simp]: "quat_mul IDENTITY_Q q = q" "quat_mul q IDENTITY_Q = q"
  by (cases q; simp add: IDENTITY_Q_def)+

lemma quat_norm2_mul: "quat_norm2 (quat_mul a b) = quat_norm2 a * quat_norm2 b"
  by (cases a; cases b) (simp add: algebra_simps)

lemma quat_norm2_conj [simp]: "quat_norm2 (quat_conj q) = quat_norm2 q"
  by (cases q) simp

lemma quat_conj_inverse:
  "quat_norm2 q = 1 \<Longrightarrow> quat_mul q (quat_conj q) = IDENTITY_Q"
  "quat_norm2 q = 1 \<Longrightarrow> quat_mul (quat_conj q) q = IDENTITY_Q"
  by (cases q; simp add: IDENTITY_Q_def algebra_simps)+

text \<open>The rotation matrix in the homogeneous form, which is multiplicative for every quaternion.\<close>

fun rotate_hom :: "quat \<Rightarrow> vec3 \<Rightarrow> vec3" where
  "rotate_hom (w, x, y, z) (vx, vy, vz) =
     ((w * w + x * x - y * y - z * z) * vx + 2 * (x * y - w * z) * vy + 2 * (x * z + w * y) * vz,
      2 * (x * y + w * z) * vx + (w * w - x * x + y * y - z * z) * vy + 2 * (y * z - w * x) * vz,
      2 * (x * z - w * y) * vx + 2 * (y * z + w * x) * vy + (w * w - x * x - y * y + z * z) * vz)"

lemma rotate_hom_mul: "rotate_hom (quat_mul a b) v = rotate_hom a (rotate_hom b v)"
  by (cases a; cases b; cases v) (simp add: algebra_simps)

lemma rotate_vec_hom: "quat_norm2 q = 1 \<Longrightarrow> rotate_vec q v = rotate_hom q v"
proof (cases q, cases v)
  fix w x y z vx vy vz
  assume n: "quat_norm2 q = 1" and q: "q = (w, x, y, z)" and v: "v = (vx, vy, vz)"
  have one: "w * w + x * x + y * y + z * z = 1" using n q by simp
  have "1 - 2 * (y * y + z * z) = w * w + x * x - y * y - z * z"
    "1 - 2 * (x * x + z * z) = w * w - x * x + y * y - z * z"
    "1 - 2 * (x * x + y * y) = w * w - x * x - y * y + z * z"
    using one by (simp_all add: algebra_simps)
  then show "rotate_vec q v = rotate_hom q v" by (simp add: q v)
qed

lemma rotate_vec_mul:
  assumes "quat_norm2 a = 1" "quat_norm2 b = 1"
  shows "rotate_vec (quat_mul a b) v = rotate_vec a (rotate_vec b v)"
  using assms by (simp add: rotate_vec_hom quat_norm2_mul rotate_hom_mul)

lemma rotate_vec_one [simp]: "rotate_vec IDENTITY_Q v = v"
  by (cases v) (simp add: IDENTITY_Q_def)

lemma rotate_vec_add: "rotate_vec q (vec_add u v) = vec_add (rotate_vec q u) (rotate_vec q v)"
  by (cases q; cases u; cases v) (simp add: algebra_simps)

lemma rotate_vec_neg: "rotate_vec q (vec_neg v) = vec_neg (rotate_vec q v)"
  by (cases q; cases v) (simp add: algebra_simps)

lemma vec_add_facts:
  "vec_add (vec_add u v) t = vec_add u (vec_add v t)" "vec_add IDENTITY_T v = v" "vec_add v IDENTITY_T = v"
  "vec_add v (vec_neg v) = IDENTITY_T" "vec_add (vec_neg v) v = IDENTITY_T" "rotate_vec q IDENTITY_T = IDENTITY_T"
  by (cases u; cases v; cases t; cases q; simp add: IDENTITY_T_def)+


section \<open>The group of placements\<close>

text \<open>
  What the placement of parts relies on: placements compose, undo each other and act on points. The
  lemmas are the ones the placement of a connected part needs; \<open>pulled_back\<close> is the step it ends with.
\<close>

locale placements =
  fixes valid :: "'a \<Rightarrow> bool"
    and one :: 'a
    and mul :: "'a \<Rightarrow> 'a \<Rightarrow> 'a"
    and inv :: "'a \<Rightarrow> 'a"
    and act :: "'a \<Rightarrow> 'p \<Rightarrow> 'p"
  assumes one_valid: "valid one"
    and mul_valid: "valid a \<Longrightarrow> valid b \<Longrightarrow> valid (mul a b)"
    and inv_valid: "valid a \<Longrightarrow> valid (inv a)"
    and mul_assoc: "valid a \<Longrightarrow> valid b \<Longrightarrow> mul (mul a b) c = mul a (mul b c)"
    and mul_one: "mul a one = a" "mul one a = a"
    and inv_mul: "valid a \<Longrightarrow> mul (inv a) a = one"
    and mul_inv: "valid a \<Longrightarrow> mul a (inv a) = one"
    and act_one: "act one p = p"
    and act_mul: "valid a \<Longrightarrow> valid b \<Longrightarrow> act (mul a b) p = act a (act b p)"
begin

lemma pulled_back: "valid f \<Longrightarrow> valid p \<Longrightarrow> mul (mul f (inv p)) p = f"
  by (simp add: mul_assoc inv_valid inv_mul mul_one)

lemma cancel_left: "valid a \<Longrightarrow> valid b \<Longrightarrow> valid c \<Longrightarrow> mul a b = mul a c \<Longrightarrow> b = c"
  by (metis inv_mul inv_valid mul_assoc mul_one(2))

lemma cancel_right: "valid a \<Longrightarrow> valid b \<Longrightarrow> valid c \<Longrightarrow> mul b a = mul c a \<Longrightarrow> b = c"
  by (metis mul_inv mul_assoc mul_one(1))

lemma inv_unique: "valid a \<Longrightarrow> valid b \<Longrightarrow> mul b a = one \<Longrightarrow> b = inv a"
  by (metis cancel_right inv_mul inv_valid)

lemma inv_inv: "valid a \<Longrightarrow> inv (inv a) = a"
  by (metis inv_unique inv_valid mul_inv)

lemma inv_of_mul: "valid a \<Longrightarrow> valid b \<Longrightarrow> inv (mul a b) = mul (inv b) (inv a)"
proof -
  assume a: "valid a" and b: "valid b"
  have "mul (mul (inv b) (inv a)) (mul a b) = mul (inv b) (mul (mul (inv a) a) b)"
    using a b by (simp add: mul_assoc inv_valid mul_valid)
  also have "\<dots> = one" using a b by (simp add: inv_mul mul_one)
  finally show ?thesis using inv_unique [of "mul a b" "mul (inv b) (inv a)"] a b by (simp add: mul_valid inv_valid)
qed

lemma act_inv: "valid a \<Longrightarrow> act (inv a) (act a p) = p"
  by (metis act_mul act_one inv_mul inv_valid)

lemma fold_valid: "valid a \<Longrightarrow> (\<And>o'. o' \<in> set os \<Longrightarrow> valid o') \<Longrightarrow> valid (foldl mul a os)"
  by (induction os arbitrary: a) (auto intro: mul_valid)

end

interpretation placed: placements rigid identity_location mul_location inverse_location transform_point
proof
  show "rigid identity_location" by (simp add: rigid_def identity_location_def IDENTITY_Q_def)
  show "rigid (mul_location a b)" if "rigid a" "rigid b" for a b
    using that by (simp add: rigid_def mul_location_def quat_norm2_mul)
  show "rigid (inverse_location a)" if "rigid a" for a
    using that by (simp add: rigid_def inverse_location_def Let_def)
  show "mul_location (mul_location a b) c = mul_location a (mul_location b c)" if "rigid a" "rigid b" for a b c
    using that by (simp add: mul_location_def rigid_def quat_mul_assoc rotate_vec_mul rotate_vec_add vec_add_facts)
  show "mul_location a identity_location = a" "mul_location identity_location a = a" for a
    by (simp_all add: mul_location_def identity_location_def vec_add_facts)
  show "mul_location (inverse_location a) a = identity_location" if "rigid a" for a
    using that by (simp add: mul_location_def inverse_location_def identity_location_def Let_def rigid_def
        quat_conj_inverse rotate_vec_neg vec_add_facts)
  show "mul_location a (inverse_location a) = identity_location" if "rigid a" for a
    using that by (simp add: mul_location_def inverse_location_def identity_location_def Let_def rigid_def
        quat_conj_inverse rotate_vec_neg vec_add_facts rotate_vec_mul [symmetric])
  show "transform_point identity_location p = p" for p
    by (simp add: transform_point_def identity_location_def vec_add_facts)
  show "transform_point (mul_location a b) p = transform_point a (transform_point b p)" if "rigid a" "rigid b" for a b p
    using that by (simp add: transform_point_def mul_location_def rigid_def rotate_vec_mul rotate_vec_add vec_add_facts)
qed

section \<open>The packed form\<close>

lemma axis_angle_rigid:
  assumes "axis_angle_to_quat ax angle = Some q"
  shows "quat_norm2 q = 1"
proof (cases ax)
  case (fields x y z)
  define n where "n = sqrt (x * x + y * y + z * z)"
  define h where "h = (angle * pi / 180) / 2"
  have n: "n \<noteq> 0" and q: "q = (cos h, x / n * sin h, y / n * sin h, z / n * sin h)"
    using assms by (auto simp: axis_angle_to_quat_def fields n_def h_def Let_def split: if_splits)
  have "n * n = x * x + y * y + z * z" by (simp add: n_def add_nonneg_nonneg)
  moreover have "(x / n) * (x / n) + (y / n) * (y / n) + (z / n) * (z / n) = (x * x + y * y + z * z) / (n * n)"
    by (simp add: add_divide_distrib)
  ultimately have "(x / n) * (x / n) + (y / n) * (y / n) + (z / n) * (z / n) = 1"
    using n by (metis divide_self_if mult_eq_0_iff)
  moreover have "quat_norm2 q = cos h * cos h + ((x / n) * (x / n) + (y / n) * (y / n) + (z / n) * (z / n)) * (sin h * sin h)"
    by (simp add: q algebra_simps)
  ultimately show ?thesis using sin_cos_squared_add3 [of h] by (simp add: algebra_simps)
qed

lemma packed_rigid: "packed_location arg = Some l \<Longrightarrow> rigid l"
  by (auto simp: packed_location_def rigid_def intro: axis_angle_rigid split: prod.splits option.splits)


text \<open>
  A placement written in the packed form and read back is the same placement, as long as its rotation
  is not so small (or so close to a full turn) that \<open>as_packed\<close> writes no rotation at all.
\<close>

theorem packed_roundtrip:
  assumes "rigid l" and "1 / 10 ^ 12 \<le> sqrt (1 - fst (loc_q l) * fst (loc_q l))"
  shows "packed_location (as_packed l) = Some l"
proof -
  obtain w x y z where q: "loc_q l = (w, x, y, z)" by (cases "loc_q l") auto
  define s where "s = sqrt (1 - w * w)"
  have unit: "w * w + x * x + y * y + z * z = 1" using assms(1) by (simp add: rigid_def q)
  have xyz: "x * x + y * y + z * z = 1 - w * w" "0 \<le> x * x + y * y + z * z"
    using unit by (simp_all add: algebra_simps add_nonneg_nonneg)
  have w1: "w * w \<le> 1" using xyz by simp
  have s1: "1 / 10 ^ 12 \<le> s" using assms(2) by (simp add: s_def q)
  then have s0: "0 < s" by (rule less_le_trans [rotated]) simp
  have s: "1 / 10 ^ 12 \<le> s" "0 < s" "s * s = 1 - w * w"
    using s1 s0 w1 by (auto simp: s_def)
  have "\<bar>w\<bar> \<le> 1" using w1 by (simp add: abs_square_le_1 [symmetric] power2_eq_square)
  then have w: "- 1 \<le> w" "w \<le> 1" by linarith+
  have clamp: "max (- 1) (min 1 w) = w" using w by simp
  have root: "sqrt (max 0 (1 - w * w)) = s" using w1 by (simp add: s_def)
  have packed: "as_packed l = (loc_t l, (x / s, y / s, z / s), 2 * arccos w * 180 / pi)"
    using s(1) by (simp add: as_packed_def q clamp root Let_def)
  have "x / s * (x / s) + y / s * (y / s) + z / s * (z / s) = (x * x + y * y + z * z) / (s * s)"
    by (simp add: add_divide_distrib)
  then have one: "x / s * (x / s) + y / s * (y / s) + z / s * (z / s) = 1"
    using xyz(1) s(2,3) by (metis divide_self_if less_numeral_extra(3) mult_eq_0_iff)
  have half: "2 * arccos w * 180 / pi * pi / 180 / 2 = arccos w" by simp
  have sin: "sin (arccos w) = s" using w by (simp add: sin_arccos s_def power2_eq_square)
  have "axis_angle_to_quat (x / s, y / s, z / s) (2 * arccos w * 180 / pi) = Some (w, x, y, z)"
    unfolding axis_angle_to_quat_def Let_def prod.case one half sin
    using s w by simp
  then show ?thesis by (simp add: packed packed_location_def q [symmetric])
qed

lemma packed_roundtrip_witness:
  "packed_location (as_packed \<lparr>loc_q = (0, 0, 0, 1), loc_t = (1, 2, 3)\<rparr>) = Some \<lparr>loc_q = (0, 0, 0, 1), loc_t = (1, 2, 3)\<rparr>"
  using packed_roundtrip [of "\<lparr>loc_q = (0, 0, 0, 1), loc_t = (1, 2, 3)\<rparr>"] by (simp add: rigid_def)

end
