(* ===== verification/Parameters.thy ===== *)
theory Parameters
  imports Expr Geometry
begin

text \<open>
  The two kinds of parameters. \<open>partcad/config.py\<close> expands, overrides, coerces and canonicalizes the values an
  object is built from; \<open>partcad/interface_config.py\<close> tells them from the freedom of movement an interface
  declares in the same section; \<open>InterfaceParameter\<close> of \<open>partcad/interface.py\<close> is the second kind.
  The texts of numbers are the standard library's: \<open>float(text)\<close> and \<open>decimal.Decimal(text)\<close> are
  arguments, \<open>None\<close> where they raise.
\<close>

section \<open>Declarations\<close>

definition long_form :: "string \<Rightarrow> pyval \<Rightarrow> pyval" where
  "long_form type_name v = PDict [(''type'', PStr type_name), (''default'', v)]"

fun expand_parameter :: "pyval \<Rightarrow> pyval" where
  "expand_parameter (PStr s) = long_form ''string'' (PStr s)"
| "expand_parameter (PBool b) = long_form ''bool'' (PBool b)"
| "expand_parameter (PFloat f) = long_form ''float'' (PFloat f)"
| "expand_parameter (PInt i) = long_form ''int'' (PInt i)"
| "expand_parameter (PList xs) = long_form ''array'' (PList xs)"
| "expand_parameter (PDict d) = (if dict_has d ''type'' then PDict d else PDict (d @ [(''type'', PStr ''float'')]))"
| "expand_parameter v = v"

definition normalize_parameters :: "pydict \<Rightarrow> pydict" where
  "normalize_parameters parameters = map (\<lambda>(k, v). (k, expand_parameter v)) parameters"

text \<open>
  What the user's own configuration says about the object, assigned to the defaults one parameter
  after another. A parameter that is not declared is passed over; a declaration that was never
  expanded does not support the assignment.
\<close>

fun override_defaults :: "pydict \<Rightarrow> pydict \<Rightarrow> exn + pydict" where
  "override_defaults section_obj [] = Inr section_obj"
| "override_defaults section_obj ((param_name, v) # parameter_config) =
     (case map_of section_obj param_name of
        None \<Rightarrow> override_defaults section_obj parameter_config
      | Some (PDict d) \<Rightarrow>
          override_defaults (AList.update param_name (PDict (AList.update ''default'' v d)) section_obj) parameter_config
      | Some _ \<Rightarrow> Inl TypeError)"

definition apply_user_parameter_overrides :: "(string \<times> pydict) list \<Rightarrow> pydict \<Rightarrow> string \<Rightarrow> exn + pydict" where
  "apply_user_parameter_overrides config_parameters section_obj object_name =
     (case map_of config_parameters object_name of
        None \<Rightarrow> Inr section_obj
      | Some parameter_config \<Rightarrow>
          if section_obj = [] then Inr section_obj else override_defaults section_obj parameter_config)"

section \<open>Values\<close>

text \<open>\<open>str(x).lower() == "true"\<close> is asked of a string only; anything else has a truth value.\<close>

definition coerce_parameter_value ::
  "(pyval \<Rightarrow> string) \<Rightarrow> (string \<Rightarrow> pyfloat option) \<Rightarrow> (string \<Rightarrow> pyfloat option) \<Rightarrow> pyval \<Rightarrow> pyval \<Rightarrow> exn + pyval" where
  "coerce_parameter_value repr to_decimal to_float param_type param_value =
     (if param_type = PStr ''string'' then Inr (PStr (Prelude.py_str repr param_value))
      else if param_type = PStr ''int'' then
        (case to_decimal (Prelude.py_str repr param_value) of
           Some (Fin r) \<Rightarrow> if of_int \<lfloor>r\<rfloor> = r then Inr (PInt \<lfloor>r\<rfloor>) else Inl ValueError
         | Some NaN \<Rightarrow> Inl ValueError
         | Some _ \<Rightarrow> Inl (Raised ''OverflowError'')
         | None \<Rightarrow> Inl (Raised ''InvalidOperation''))
      else if param_type = PStr ''float'' then
        (case param_value of
           PInt i \<Rightarrow> Inr (PFloat (Fin (of_int i)))
         | PFloat f \<Rightarrow> Inr (PFloat f)
         | PBool b \<Rightarrow> Inr (PFloat (Fin (if b then 1 else 0)))
         | PStr s \<Rightarrow> (case to_float s of None \<Rightarrow> Inl ValueError | Some f \<Rightarrow> Inr (PFloat f))
         | PBytes s \<Rightarrow> (case to_float s of None \<Rightarrow> Inl ValueError | Some f \<Rightarrow> Inr (PFloat f))
         | _ \<Rightarrow> Inl TypeError)
      else if param_type = PStr ''bool'' then
        Inr (PBool (case param_value of PStr s \<Rightarrow> lower s = ''true'' | v \<Rightarrow> truthy v))
      else Inr param_value)"

text \<open>The values a reference names become the defaults; the declared section is updated in place.\<close>

fun apply_parameter_values ::
  "(pyval \<Rightarrow> pyval \<Rightarrow> exn + pyval) \<Rightarrow> pydict \<Rightarrow> pydict \<Rightarrow> exn + pydict" where
  "apply_parameter_values coerce parameters [] = Inr parameters"
| "apply_parameter_values coerce parameters ((param_name, param_value) # values') =
     (case map_of parameters param_name of
        None \<Rightarrow> Inl ValueError
      | Some PNone \<Rightarrow> Inl ValueError
      | Some (PDict d) \<Rightarrow>
          (case coerce (case map_of d ''type'' of None \<Rightarrow> PNone | Some t \<Rightarrow> t) param_value of
             Inl e \<Rightarrow> Inl e
           | Inr v \<Rightarrow> apply_parameter_values coerce
                        (AList.update param_name (PDict (AList.update ''default'' v d)) parameters) values')
      | Some _ \<Rightarrow> Inl AttributeError)"

fun declared_parameter_type :: "pyval \<Rightarrow> pyval" where
  "declared_parameter_type (PDict d) = (case map_of d ''type'' of None \<Rightarrow> PStr ''float'' | Some t \<Rightarrow> t)"
| "declared_parameter_type (PBool _) = PStr ''bool''"
| "declared_parameter_type (PStr _) = PStr ''string''"
| "declared_parameter_type (PFloat _) = PStr ''float''"
| "declared_parameter_type (PInt _) = PStr ''int''"
| "declared_parameter_type (PList _) = PStr ''array''"
| "declared_parameter_type _ = PNone"

text \<open>What cannot be read as its declared type is handed back untouched.\<close>

definition canonical_value :: "(pyval \<Rightarrow> string) \<Rightarrow> (pyval \<Rightarrow> pyval \<Rightarrow> exn + pyval) \<Rightarrow> pyval option \<Rightarrow> pyval \<Rightarrow> pyval" where
  "canonical_value repr coerce declaration param_value =
     (case declaration of
        None \<Rightarrow> param_value
      | Some PNone \<Rightarrow> param_value
      | Some decl \<Rightarrow>
          (case coerce (declared_parameter_type decl) param_value of
             Inl _ \<Rightarrow> param_value
           | Inr v \<Rightarrow> PStr (format_value repr v)))"

definition canonical_parameter_values ::
  "(pyval \<Rightarrow> string) \<Rightarrow> (pyval \<Rightarrow> pyval \<Rightarrow> exn + pyval) \<Rightarrow> pydict \<Rightarrow> pydict \<Rightarrow> pydict" where
  "canonical_parameter_values repr coerce parameters values' =
     map (\<lambda>(param_name, param_value).
       (param_name, canonical_value repr coerce (map_of parameters param_name) param_value)) values'"

fun parameter_value :: "pyval \<Rightarrow> pyval option" where
  "parameter_value (PDict d) = map_of d ''default''"
| "parameter_value v = Some v"

definition parameter_values :: "pydict \<Rightarrow> pydict" where
  "parameter_values parameters = List.map_filter (\<lambda>(k, v). map_option (Pair k) (parameter_value v)) parameters"

section \<open>Freedom of movement\<close>

definition MOVEMENT_PARAMETER_NAMES :: "string list" where
  "MOVEMENT_PARAMETER_NAMES =
     [''moveX'', ''moveY'', ''moveZ'', ''turnX'', ''turnY'', ''turnZ'',
      ''move-x'', ''move-y'', ''move-z'', ''turn-x'', ''turn-y'', ''turn-z'']"

definition MOVEMENT_PARAMETER_KEYS :: "string list" where
  "MOVEMENT_PARAMETER_KEYS = [''min'', ''max'', ''dir'']"

definition MOVEMENT_PARAMETER_TYPES :: "pyval list" where
  "MOVEMENT_PARAMETER_TYPES = [PStr ''move'', PStr ''turn'']"

definition is_movement_parameter :: "string \<Rightarrow> pyval \<Rightarrow> bool" where
  "is_movement_parameter name declaration =
     (if name \<in> set MOVEMENT_PARAMETER_NAMES then True
      else case declaration of
          PList _ \<Rightarrow> True
        | PDict d \<Rightarrow>
            (\<exists>k \<in> set MOVEMENT_PARAMETER_KEYS. dict_has d k)
            \<or> (case map_of d ''type'' of None \<Rightarrow> False | Some t \<Rightarrow> t \<in> set MOVEMENT_PARAMETER_TYPES)
        | _ \<Rightarrow> False)"

definition split_parameters :: "pydict \<Rightarrow> pydict \<times> pydict" where
  "split_parameters parameters =
     (filter (\<lambda>(k, v). is_movement_parameter k v) parameters,
      filter (\<lambda>(k, v). \<not> is_movement_parameter k v) parameters)"

definition movement_parameters :: "pydict \<Rightarrow> pydict" where
  "movement_parameters parameters = fst (split_parameters parameters)"

definition construction_parameters :: "pydict \<Rightarrow> pydict" where
  "construction_parameters parameters = snd (split_parameters parameters)"

text \<open>
  The names of the short list form are the keys of the section; a name that is no text is an error
  here (Python refuses only the unhashable ones). The user's
  overrides reach the construction half only. A section that is neither a list nor a dictionary ends
  in an \<open>AttributeError\<close> unless it is falsy.
\<close>

definition normalize_interface ::
  "(string \<times> pydict) list \<Rightarrow> string \<Rightarrow> pyval \<Rightarrow> string \<Rightarrow> exn + pydict" where
  "normalize_interface config_parameters name config object_name =
     (case (case config of PNone \<Rightarrow> Inr [] | PStr s \<Rightarrow> Inr [(''alias'', PStr s)] | PDict d \<Rightarrow> Inr d
            | _ \<Rightarrow> Inl TypeError) of
        Inl e \<Rightarrow> Inl e
      | Inr d \<Rightarrow>
         (let c = AList.update ''name'' (PStr name) d;
              c = (if dict_has c ''orig_name'' then c else AList.update ''orig_name'' (PStr name) c)
          in case (case map_of c ''parameters'' of
                     Some (PList xs) \<Rightarrow>
                       if list_all is_str xs
                       then Inr (dict_update [] (map (\<lambda>x. (case x of PStr s \<Rightarrow> s | _ \<Rightarrow> [], PDict [])) xs))
                       else Inl TypeError
                   | Some (PDict p) \<Rightarrow> Inr p
                   | None \<Rightarrow> Inr []
                   | Some v \<Rightarrow> if truthy v then Inl AttributeError else Inr []) of
               Inl e \<Rightarrow> Inl e
             | Inr declared \<Rightarrow>
                 (case (case construction_parameters declared of
                          [] \<Rightarrow> Inr declared
                        | construction \<Rightarrow>
                            map_sum id (dict_update (dict_update declared (normalize_parameters construction)))
                              (apply_user_parameter_overrides config_parameters (normalize_parameters construction) object_name)) of
                    Inl e \<Rightarrow> Inl e
                  | Inr declared \<Rightarrow>
                      Inr (case map_of c ''parameters'' of
                             Some (PList _) \<Rightarrow> AList.update ''parameters'' (PDict declared) c
                           | Some (PDict _) \<Rightarrow> AList.update ''parameters'' (PDict declared) c
                           | _ \<Rightarrow> c))))"

section \<open>Arithmetic on Python numbers\<close>

fun num_of :: "pyval \<Rightarrow> pyfloat option" where
  "num_of (PInt i) = Some (Fin (of_int i))"
| "num_of (PBool b) = Some (Fin (if b then 1 else 0))"
| "num_of (PFloat f) = Some f"
| "num_of _ = None"

fun float_sgn :: "pyfloat \<Rightarrow> rat" where
  "float_sgn (Fin r) = sgn r"
| "float_sgn PosInf = 1"
| "float_sgn NegInf = -1"
| "float_sgn NaN = 0"

fun float_mul :: "pyfloat \<Rightarrow> pyfloat \<Rightarrow> pyfloat" where
  "float_mul (Fin a) (Fin b) = Fin (a * b)"
| "float_mul a b =
     (if a = NaN \<or> b = NaN \<or> float_sgn a * float_sgn b = 0 then NaN
      else if float_sgn a * float_sgn b > 0 then PosInf else NegInf)"

fun float_add :: "pyfloat \<Rightarrow> pyfloat \<Rightarrow> pyfloat" where
  "float_add (Fin a) (Fin b) = Fin (a + b)"
| "float_add (Fin _) b = b"
| "float_add a (Fin _) = a"
| "float_add a b = (if a = b then a else NaN)"

fun float_le :: "pyfloat \<Rightarrow> pyfloat \<Rightarrow> bool" where
  "float_le (Fin a) (Fin b) = (a \<le> b)"
| "float_le NegInf b = (b \<noteq> NaN)"
| "float_le a PosInf = (a \<noteq> NaN)"
| "float_le _ _ = False"

fun float_half :: "pyfloat \<Rightarrow> pyfloat" where
  "float_half (Fin a) = Fin (a / 2)"
| "float_half f = f"

abbreviation ZERO :: pyval where "ZERO \<equiv> PFloat (Fin 0)"

section \<open>A movement parameter\<close>

definition movement_default :: "pyval \<Rightarrow> pyval \<Rightarrow> exn + pyval" where
  "movement_default lo hi =
     (case (num_of lo, num_of hi) of
        (Some a, Some b) \<Rightarrow>
          Inr (if float_le (float_mul a b) (Fin 0) then ZERO else PFloat (float_half (float_add a b)))
      | _ \<Rightarrow> Inl TypeError)"

definition movement_dict :: "pyval \<Rightarrow> exn + pydict" where
  "movement_dict config =
     (case config of
        PInt _ \<Rightarrow> Inr [(''min'', config), (''max'', config), (''default'', config)]
      | PBool _ \<Rightarrow> Inr [(''min'', config), (''max'', config), (''default'', config)]
      | PFloat _ \<Rightarrow> Inr [(''min'', config), (''max'', config), (''default'', config)]
      | PList [] \<Rightarrow> Inl IndexError
      | PList [a] \<Rightarrow> Inr [(''min'', a)]
      | PList [a, b] \<Rightarrow> Inr [(''min'', a), (''max'', b)]
      | PList (a # b # c # _) \<Rightarrow> Inr [(''min'', a), (''max'', b), (''default'', c)]
      | PDict d \<Rightarrow> Inr d
      | _ \<Rightarrow> Inl (Raised ''Invalid parameter configuration''))"

definition set_missing :: "string \<Rightarrow> pyval \<Rightarrow> pydict \<Rightarrow> pydict" where
  "set_missing k v d = (if dict_has d k then d else AList.update k v d)"

definition config_normalize :: "pyval \<Rightarrow> exn + pydict" where
  "config_normalize config =
     (case movement_dict config of
        Inl e \<Rightarrow> Inl e
      | Inr d \<Rightarrow>
          (case map_of d ''default'' of
             Some v \<Rightarrow> Inr (set_missing ''max'' v (set_missing ''min'' v d))
           | None \<Rightarrow>
               (let d = set_missing ''max'' ZERO (set_missing ''min'' ZERO d)
                in case movement_default (the (map_of d ''min'')) (the (map_of d ''max'')) of
                     Inl e \<Rightarrow> Inl e
                   | Inr v \<Rightarrow> Inr (AList.update ''default'' v d))))"

definition axis_of :: "string \<Rightarrow> (string \<times> rat list) option" where
  "axis_of name =
     (if name = ''moveX'' then Some (''move'', [1, 0, 0])
      else if name = ''moveY'' then Some (''move'', [0, 1, 0])
      else if name = ''moveZ'' then Some (''move'', [0, 0, 1])
      else if name = ''turnX'' then Some (''turn'', [1, 0, 0])
      else if name = ''turnY'' then Some (''turn'', [0, 1, 0])
      else if name = ''turnZ'' then Some (''turn'', [0, 0, 1])
      else None)"

definition config_finalize :: "pydict \<Rightarrow> pydict" where
  "config_finalize config =
     (let c = (case map_of config ''name'' of
                 Some (PStr name) \<Rightarrow>
                   (case axis_of name of
                      Some (ty, dir) \<Rightarrow>
                        AList.update ''dir'' (PList (map (\<lambda>r. PFloat (Fin r)) dir)) (AList.update ''type'' (PStr ty) config)
                    | None \<Rightarrow> config)
               | _ \<Rightarrow> config)
      in set_missing ''type'' (PStr ''move'') c)"

text \<open>
  \<open>float(x)\<close>, with the number of a text as an argument. What cannot be read as a number ends the
  check; a default that cannot be read raises.
\<close>

definition py_float_of :: "(string \<Rightarrow> pyfloat option) \<Rightarrow> pyval \<Rightarrow> pyfloat option" where
  "py_float_of to_float v = (case v of PStr s \<Rightarrow> to_float s | PBytes s \<Rightarrow> to_float s | _ \<Rightarrow> num_of v)"

definition check_movement_range :: "(string \<Rightarrow> pyfloat option) \<Rightarrow> pydict \<Rightarrow> exn + pydict" where
  "check_movement_range to_float c =
     (case (map_of c ''min'', map_of c ''max'') of
        (Some lo, Some hi) \<Rightarrow>
          (case (py_float_of to_float lo, py_float_of to_float hi) of
             (Some low, Some high) \<Rightarrow>
               if float_le low high then Inr c
               else (let c = AList.update ''max'' lo c
                     in case (case map_of c ''default'' of None \<Rightarrow> Some low | Some v \<Rightarrow> py_float_of to_float v) of
                          None \<Rightarrow> Inl (case map_of c ''default'' of Some (PStr _) \<Rightarrow> ValueError | Some (PBytes _) \<Rightarrow> ValueError
                                      | _ \<Rightarrow> TypeError)
                        | Some f \<Rightarrow> Inr (if f \<noteq> NaN \<and> low \<noteq> NaN \<and> \<not> float_le f low
                                          then AList.update ''default'' lo c else c))
           | _ \<Rightarrow> Inr c)
      | _ \<Rightarrow> Inl KeyError)"

text \<open>One entry of the movement half, as \<open>Interface.__init__\<close> reads it.\<close>

definition movement_parameter :: "(string \<Rightarrow> pyfloat option) \<Rightarrow> string \<Rightarrow> pyval \<Rightarrow> exn + pydict" where
  "movement_parameter to_float param_name param_config =
     (case config_normalize param_config of
        Inl e \<Rightarrow> Inl e
      | Inr c \<Rightarrow> check_movement_range to_float (config_finalize (AList.update ''name'' (PStr param_name) c)))"

text \<open>\<open>InterfaceParameter\<close>: the axis is only looked at when an offset is asked for.\<close>

record interface_parameter =
  p_name :: pyval
  p_type :: pyval
  p_dir :: pyval
  p_min :: pyval
  p_max :: pyval
  p_default :: pyval

definition get_default :: "pydict \<Rightarrow> string \<Rightarrow> pyval \<Rightarrow> pyval" where
  "get_default d k v = (case map_of d k of None \<Rightarrow> v | Some x \<Rightarrow> x)"

definition new_interface_parameter :: "pydict \<Rightarrow> interface_parameter" where
  "new_interface_parameter c =
     \<lparr>p_name = get_default c ''name'' (PStr ''param''), p_type = get_default c ''type'' (PStr ''move''),
      p_dir = get_default c ''dir'' (PList [PFloat (Fin 1), ZERO, ZERO]),
      p_min = get_default c ''min'' ZERO, p_max = get_default c ''max'' ZERO,
      p_default = get_default c ''default'' ZERO\<rparr>"

text \<open>The axis as numbers; \<open>None\<close> stands for what \<open>self.dir[i] * value\<close> cannot make a location of.\<close>

definition axis_numbers :: "pyval \<Rightarrow> (rat \<times> rat \<times> rat) option" where
  "axis_numbers v =
     (case v of
        PList (a # b # c # _) \<Rightarrow>
          (case (num_of a, num_of b, num_of c) of
             (Some (Fin x), Some (Fin y), Some (Fin z)) \<Rightarrow> Some (x, y, z)
           | _ \<Rightarrow> None)
      | _ \<Rightarrow> None)"

definition get_offsets :: "interface_parameter \<Rightarrow> rat \<Rightarrow> exn + location list" where
  "get_offsets p v =
     (if (p_type p = PStr ''move'' \<or> p_type p = PStr ''turn'') \<and> v \<noteq> 0 then
        (case axis_numbers (p_dir p) of
           None \<Rightarrow> Inl TypeError
         | Some (x, y, z) \<Rightarrow>
             (case (if p_type p = PStr ''move''
                    then packed_location ((of_rat (x * v), of_rat (y * v), of_rat (z * v)), (0, 0, 1), 0)
                    else packed_location ((0, 0, 0), (of_rat x, of_rat y, of_rat z), of_rat v)) of
                None \<Rightarrow> Inl ValueError
              | Some l \<Rightarrow> Inr [l]))
      else Inr [])"

section \<open>Facts about dictionaries of parameters\<close>

lemma map_of_map_value: "map_of (map (\<lambda>(k, v). (k, f k v)) d) k = map_option (f k) (map_of d k)"
  by (induction d) auto

lemma map_of_normalize_parameters: "map_of (normalize_parameters d) k = map_option expand_parameter (map_of d k)"
  by (simp add: normalize_parameters_def map_of_map_value)

lemma map_of_filter_entry:
  "wf_dict d \<Longrightarrow> map_of (filter (\<lambda>(k, v). P k v) d) k = (case map_of d k of Some v \<Rightarrow> if P k v then Some v else None | None \<Rightarrow> None)"
proof (induction d)
  case (Cons e d)
  obtain a v where e: "e = (a, v)" by force
  have "map_of (filter (\<lambda>(k, v). P k v) d) k = None" if "a = k"
    using Cons.prems that e by (auto simp: map_of_eq_None_iff image_iff)
  then show ?case using Cons e by auto
qed simp

lemma set_missing_get: "map_of (set_missing k v d) j = (if j = k \<and> map_of d k = None then Some v else map_of d j)"
  by (auto simp: set_missing_def)

lemma override_defaults_other:
  "override_defaults d p = Inr d' \<Longrightarrow> map_of d k = None \<Longrightarrow> map_of d' k = None"
proof (induction d p rule: override_defaults.induct)
  case (2 section_obj param_name v parameter_config)
  then show ?case by (cases "param_name = k") (auto split: option.splits pyval.splits)
qed simp

section \<open>Properties\<close>

lemma config_normalize_range:
  assumes "config_normalize cfg = Inr c"
  shows "\<exists>lo hi d. map_of c ''min'' = Some lo \<and> map_of c ''max'' = Some hi \<and> map_of c ''default'' = Some d"
  using assms unfolding config_normalize_def
  by (cases "movement_dict cfg")
    (auto simp: set_missing_get Let_def split: option.splits sum.splits if_splits)

lemma config_finalize_get:
  "k \<noteq> ''dir'' \<Longrightarrow> k \<noteq> ''type'' \<Longrightarrow> map_of (config_finalize c) k = map_of c k"
  unfolding config_finalize_def
  by (auto simp: set_missing_get Let_def split: option.splits pyval.splits)

lemma float_le_refl: "f \<noteq> NaN \<Longrightarrow> float_le f f"
  by (cases f) auto

text \<open>
  a freedom of movement never runs backwards once it has been read: where both bounds are numbers, the
  upper one is at least the lower one.
\<close>

theorem movement_never_backwards:
  assumes "movement_parameter to_float nm cfg = Inr c"
    and "map_of c ''min'' = Some lo" and "map_of c ''max'' = Some hi"
    and "py_float_of to_float lo = Some low" and "py_float_of to_float hi = Some high"
    and "low \<noteq> NaN" and "high \<noteq> NaN"
  shows "float_le low high"
proof -
  obtain d where n: "config_normalize cfg = Inr d"
    and k: "check_movement_range to_float (config_finalize (AList.update ''name'' (PStr nm) d)) = Inr c"
    using assms(1) by (auto simp: movement_parameter_def split: sum.splits)
  show ?thesis
    using k assms(2-7)
    by (auto simp: check_movement_range_def Let_def float_le_refl split: option.splits if_splits)
qed

theorem movement_never_backwards_witness:
  "movement_parameter (\<lambda>_. None) ''depth'' (PList [PInt 5, PInt 2])
     = Inr [(''min'', PInt 5), (''max'', PInt 5), (''default'', PFloat (Fin (7 / 2))), (''name'', PStr ''depth''), (''type'', PStr ''move'')]
   \<and> float_le (Fin 5) (Fin 5)"
proof -
  have r: "movement_parameter (\<lambda>_. None) ''depth'' (PList [PInt 5, PInt 2])
     = Inr [(''min'', PInt 5), (''max'', PInt 5), (''default'', PFloat (Fin (7 / 2))), (''name'', PStr ''depth''), (''type'', PStr ''move'')]"
    by code_simp
  show ?thesis using r movement_never_backwards [OF r, of "PInt 5" "PInt 5" "Fin 5" "Fin 5"]
    by (simp add: py_float_of_def)
qed

text \<open>
  where a declaration states a range and no default, the default chosen for it lies in the range,
  whatever the sign of the bounds and whether or not they are finite.
\<close>

theorem movement_default_in_range:
  assumes "num_of lo = Some low" and "num_of hi = Some high" and "float_le low high"
  shows "\<exists>v. config_normalize (PList [lo, hi]) = Inr [(''min'', lo), (''max'', hi), (''default'', PFloat v)]
              \<and> float_le low v \<and> float_le v high"
proof -
  let ?v = "if float_le (float_mul low high) (Fin 0) then Fin 0 else float_half (float_add low high)"
  have c: "config_normalize (PList [lo, hi]) = Inr [(''min'', lo), (''max'', hi), (''default'', PFloat ?v)]"
    using assms(1,2) by (simp add: config_normalize_def movement_dict_def set_missing_def movement_default_def Let_def)
  have "float_le low ?v \<and> float_le ?v high"
    using assms(3)
    by (cases low; cases high) (auto simp: mult_le_0_iff not_le zero_less_mult_iff sgn_if split: if_splits)
  then show ?thesis using c by blast
qed

theorem movement_default_in_range_witness:
  "\<exists>v. config_normalize (PList [PInt 2, PInt 5]) = Inr [(''min'', PInt 2), (''max'', PInt 5), (''default'', PFloat v)]
        \<and> float_le (Fin 2) v \<and> float_le v (Fin 5)"
  using movement_default_in_range [of "PInt 2" "Fin 2" "PInt 5" "Fin 5"] by simp

text \<open>
  a single bound in the list form makes a range that runs backwards: it is read as no movement, at the
  bound, while the default stays at zero, outside of it.
\<close>

theorem lone_bound_default_outside:
  assumes "0 < n"
  shows "\<exists>c. movement_parameter to_float ''depth'' (PList [PInt n]) = Inr c
            \<and> map_of c ''min'' = Some (PInt n) \<and> map_of c ''max'' = Some (PInt n) \<and> map_of c ''default'' = Some ZERO"
  using assms
  by (simp add: movement_parameter_def config_normalize_def movement_dict_def set_missing_def movement_default_def
      Let_def config_finalize_def axis_of_def check_movement_range_def py_float_of_def)

theorem lone_bound_default_outside_witness:
  "\<exists>c. movement_parameter (\<lambda>_. None) ''depth'' (PList [PInt 5]) = Inr c
        \<and> map_of c ''min'' = Some (PInt 5) \<and> map_of c ''max'' = Some (PInt 5) \<and> map_of c ''default'' = Some ZERO"
  by (rule lone_bound_default_outside) simp

text \<open>
  the hyphenated names of the movement parameters are accepted as such, but their axis is not read:
  a declared turn about an axis is a move along the first one.
\<close>

theorem hyphenated_turn_is_a_move:
  "is_movement_parameter ''turn-z'' (PList [PInt 0, PInt 90])
   \<and> map_sum id (\<lambda>c. (p_type (new_interface_parameter c), axis_numbers (p_dir (new_interface_parameter c))))
       (movement_parameter to_float ''turn-z'' (PList [PInt 0, PInt 90]))
     = Inr (PStr ''move'', Some (1, 0, 0))"
  by (simp add: is_movement_parameter_def MOVEMENT_PARAMETER_NAMES_def movement_parameter_def config_normalize_def
      movement_dict_def set_missing_def movement_default_def Let_def config_finalize_def axis_of_def
      check_movement_range_def py_float_of_def new_interface_parameter_def get_default_def axis_numbers_def)

text \<open>
  what the user configures for an object changes the values it is built from and never its freedom of
  movement: every movement parameter of the section is what was declared.
\<close>

theorem overrides_spare_movement:
  assumes "normalize_interface user name (PDict d) object_name = Inr c"
    and "map_of d ''parameters'' = Some (PDict p)" and "wf_dict p"
    and "map_of p k = Some v" and "is_movement_parameter k v"
  shows "\<exists>p'. map_of c ''parameters'' = Some (PDict p') \<and> map_of p' k = Some v"
proof -
  have none: "map_of (construction_parameters p) k = None"
    using assms(3-5) by (simp add: construction_parameters_def split_parameters_def map_of_filter_entry)
  then have norm: "map_of (normalize_parameters (construction_parameters p)) k = None"
    by (simp add: map_of_normalize_parameters)
  have keep: "map_of (dict_update (dict_update p (normalize_parameters (construction_parameters p))) o') k = Some v"
    if "apply_user_parameter_overrides user (normalize_parameters (construction_parameters p)) object_name = Inr o'" for o'
  proof -
    have "map_of o' k = None"
      using that norm by (auto simp: apply_user_parameter_overrides_def override_defaults_other split: option.splits if_splits)
    then have "map_of (rev o') k = None" by (simp add: map_of_eq_None_iff)
    moreover have "map_of (rev (normalize_parameters (construction_parameters p))) k = None"
      using norm by (simp add: map_of_eq_None_iff)
    ultimately show ?thesis using assms(4) by (simp add: map_of_dict_update)
  qed
  have made: "map_of x k = Some v"
    if "map_sum id (dict_update (dict_update p (normalize_parameters (construction_parameters p))))
          (apply_user_parameter_overrides user (normalize_parameters (construction_parameters p)) object_name) = Inr x" for x
    using that keep
    by (cases "apply_user_parameter_overrides user (normalize_parameters (construction_parameters p)) object_name") auto
  show ?thesis
    using assms(1,2,4) made
    by (auto simp: normalize_interface_def Let_def split: sum.splits list.splits if_splits)
qed

theorem overrides_spare_movement_witness:
  "\<exists>p'. map_of [(''parameters'', PDict [(''moveZ'', PList [PInt 0, PInt 5]),
                    (''size'', PDict [(''type'', PStr ''int''), (''default'', PInt 8)])]),
                 (''name'', PStr ''m''), (''orig_name'', PStr ''m'')] ''parameters'' = Some (PDict p')
        \<and> map_of p' ''moveZ'' = Some (PList [PInt 0, PInt 5])"
proof -
  have r: "normalize_interface [(''p:m'', [(''size'', PInt 8), (''moveZ'', PInt 1)])] ''m''
      (PDict [(''parameters'', PDict [(''moveZ'', PList [PInt 0, PInt 5]), (''size'', PInt 3)])]) ''p:m''
    = Inr [(''parameters'', PDict [(''moveZ'', PList [PInt 0, PInt 5]),
                    (''size'', PDict [(''type'', PStr ''int''), (''default'', PInt 8)])]),
                 (''name'', PStr ''m''), (''orig_name'', PStr ''m'')]"
    by code_simp
  show ?thesis
    by (rule overrides_spare_movement [OF r, of "[(''moveZ'', PList [PInt 0, PInt 5]), (''size'', PInt 3)]"])
      (simp_all add: is_movement_parameter_def MOVEMENT_PARAMETER_NAMES_def)
qed

section \<open>Canonical values\<close>

lemma coerce_canonical:
  assumes repr_float: "\<And>f. to_float (repr (PFloat f)) = Some f"
    and int_float: "\<And>i. to_float (show_int i) = Some (Fin (of_int i))"
    and int_decimal: "\<And>i. to_decimal (show_int i) = Some (Fin (of_int i))"
    and coerce: "coerce_parameter_value repr to_decimal to_float t (PStr s) = Inr v"
  shows "coerce_parameter_value repr to_decimal to_float t (PStr (format_value repr v)) = Inr v"
proof -
  consider (string) "t = PStr ''string''" | (int) "t = PStr ''int''" | (float) "t = PStr ''float''"
    | (bool) "t = PStr ''bool''"
    | (other) "t \<noteq> PStr ''string'' \<and> t \<noteq> PStr ''int'' \<and> t \<noteq> PStr ''float'' \<and> t \<noteq> PStr ''bool''"
    by blast
  then show ?thesis
  proof cases
    case string
    then show ?thesis using coerce by (auto simp: coerce_parameter_value_def format_value_def)
  next
    case int
    then show ?thesis using coerce int_decimal
      by (auto simp: coerce_parameter_value_def format_value_def split: option.splits pyfloat.splits if_splits)
  next
    case float
    then obtain f where f: "v = PFloat f" "to_float s = Some f"
      using coerce by (auto simp: coerce_parameter_value_def split: option.splits)
    have "to_float (format_value repr v) = Some f"
      using repr_float [of f] int_float f by (cases f) (auto simp: format_value_def)
    then show ?thesis using float f by (simp add: coerce_parameter_value_def)
  next
    case bool
    then have v: "v = PBool (lower s = ''true'')" using coerce by (simp add: coerce_parameter_value_def)
    have "lower ''true'' = ''true''" "lower ''false'' \<noteq> ''true''" by code_simp+
    then show ?thesis using bool v by (simp add: coerce_parameter_value_def format_value_def)
  next
    case other
    then show ?thesis using coerce by (auto simp: coerce_parameter_value_def format_value_def)
  qed
qed

text \<open>How a declaration answers for its type: the assignment of a default leaves it alone.\<close>

fun declared_kind :: "pyval \<Rightarrow> pyval option + bool" where
  "declared_kind (PDict d) = Inl (map_of d ''type'')"
| "declared_kind v = Inr (v = PNone)"

definition same_kinds :: "pydict \<Rightarrow> pydict \<Rightarrow> bool" where
  "same_kinds p q = (\<forall>k. map_option declared_kind (map_of p k) = map_option declared_kind (map_of q k))"

definition typed_section :: "pydict \<Rightarrow> bool" where
  "typed_section p = (\<forall>k d. map_of p k = Some (PDict d) \<longrightarrow> dict_has d ''type'')"

lemma same_kinds_update:
  "same_kinds p q \<Longrightarrow> map_of q k = Some (PDict d) \<Longrightarrow> same_kinds p (AList.update k (PDict (AList.update ''default'' v d)) q)"
  by (auto simp: same_kinds_def)

lemma apply_canonical:
  assumes again: "\<And>t s v. coerce t (PStr s) = Inr v \<Longrightarrow> coerce t (PStr (format_value repr v)) = Inr v"
    and typed: "typed_section p" and texts: "\<forall>kv \<in> set vs. is_str (snd kv)"
    and same: "same_kinds p q"
  shows "apply_parameter_values coerce q (canonical_parameter_values repr coerce p vs) = apply_parameter_values coerce q vs"
  using texts same
proof (induction vs arbitrary: q)
  case (Cons kv vs)
  obtain k s where kv: "kv = (k, PStr s)" using Cons.prems(1) by (cases kv; cases "snd kv") auto
  let ?c = "canonical_value repr coerce (map_of p k) (PStr s)"
  have IH: "apply_parameter_values coerce q' (canonical_parameter_values repr coerce p vs) = apply_parameter_values coerce q' vs"
    if "same_kinds p q'" for q' using Cons.IH that Cons.prems(1) by simp
  show ?case
  proof (cases "map_of q k")
    case None
    then show ?thesis by (simp add: kv canonical_parameter_values_def)
  next
    case (Some x)
    have kind: "map_option declared_kind (map_of p k) = Some (declared_kind x)"
      using Cons.prems(2) Some by (simp add: same_kinds_def)
    show ?thesis
    proof (cases x)
      case (PDict d)
      obtain y where y: "map_of p k = Some y" "declared_kind y = Inl (map_of d ''type'')"
        using kind PDict by auto
      then obtain d' where d': "y = PDict d'" "map_of d' ''type'' = map_of d ''type''" by (cases y) auto
      then obtain t where t: "map_of d' ''type'' = Some t" "map_of d ''type'' = Some t"
        using typed y(1) by (fastforce simp: typed_section_def)
      have same: "coerce t ?c = coerce t (PStr s)"
        using again [of t s] by (auto simp: canonical_value_def y(1) d'(1) t(1) split: sum.splits)
      show ?thesis
        using same IH same_kinds_update [OF Cons.prems(2)] Some PDict t
        by (simp add: kv canonical_parameter_values_def split: sum.splits)
    qed (use Some in \<open>simp_all add: kv canonical_parameter_values_def\<close>)
  qed
qed (simp add: canonical_parameter_values_def)

text \<open>C29: 
  the values of a reference, spelled canonically, build the same instance: for the texts a reference
  holds, applying the canonical values to an expanded section gives what applying the values as they
  were written gives, errors included. Of the standard library it relies on \<open>float\<close> and \<open>Decimal\<close>
  reading back what \<open>repr\<close> and \<open>str\<close> wrote.
\<close>

theorem canonical_values_same_instance:
  assumes "\<And>f. to_float (repr (PFloat f)) = Some f"
    and "\<And>i. to_float (show_int i) = Some (Fin (of_int i))"
    and "\<And>i. to_decimal (show_int i) = Some (Fin (of_int i))"
    and "\<forall>kv \<in> set vs. is_str (snd kv)"
  shows "apply_parameter_values (coerce_parameter_value repr to_decimal to_float) (normalize_parameters p)
           (canonical_parameter_values repr (coerce_parameter_value repr to_decimal to_float) (normalize_parameters p) vs)
       = apply_parameter_values (coerce_parameter_value repr to_decimal to_float) (normalize_parameters p) vs"
proof (rule apply_canonical)
  show "typed_section (normalize_parameters p)"
    unfolding typed_section_def
  proof (intro allI impI)
    fix k d
    assume "map_of (normalize_parameters p) k = Some (PDict d)"
    then obtain v where "expand_parameter v = PDict d" by (auto simp: map_of_normalize_parameters)
    then show "dict_has d ''type''" by (cases v) (auto simp: long_form_def map_add_def split: if_splits)
  qed
  show "same_kinds (normalize_parameters p) (normalize_parameters p)" by (simp add: same_kinds_def)
qed (use assms coerce_canonical in \<open>blast+\<close>)

text \<open>A reader and a writer of numbers that meet the documented behaviour, as an instance of it.\<close>

definition sample_int :: "string \<Rightarrow> int" where
  "sample_int s = (case s of [] \<Rightarrow> 0 | c # r \<Rightarrow> if c = CHR ''-'' then - int (nat_of_digits r) else int (nat_of_digits s))"

definition sample_repr :: "pyval \<Rightarrow> string" where
  "sample_repr v =
     (case v of
        PFloat (Fin r) \<Rightarrow> show_int (fst (quotient_of r)) @ ''/'' @ show_int (snd (quotient_of r))
      | PFloat NaN \<Rightarrow> ''nan'' | PFloat PosInf \<Rightarrow> ''inf'' | PFloat NegInf \<Rightarrow> ''-inf''
      | _ \<Rightarrow> [])"

definition sample_float :: "string \<Rightarrow> pyfloat option" where
  "sample_float s =
     (if s = ''nan'' then Some NaN else if s = ''inf'' then Some PosInf else if s = ''-inf'' then Some NegInf
      else (case partition1 (CHR ''/'') s of
              (a, found, b) \<Rightarrow> Some (Fin (if found then of_int (sample_int a) / of_int (sample_int b) else of_int (sample_int a)))))"

lemma sample_int_show: "sample_int (show_int i) = i"
proof -
  have pos: "sample_int (show_nat n) = int n" for n
  proof -
    obtain c r where s: "show_nat n = c # r" using show_nat_nonempty [of n] by (cases "show_nat n") auto
    then have "is_digit c" using show_nat_digits [of n] by simp
    then have "c \<noteq> CHR ''-''" by (auto simp: is_digit_def code_def)
    then have "sample_int (c # r) = int (nat_of_digits (c # r))" by (simp add: sample_int_def)
    then show ?thesis unfolding s [symmetric] by simp
  qed
  show ?thesis by (simp add: show_int_def pos) (simp add: sample_int_def)
qed

lemma show_int_chars: "c \<in> set (show_int i) \<Longrightarrow> c = CHR ''-'' \<or> is_digit c"
  using show_nat_digits by (auto simp: show_int_def split: if_splits)

lemma not_a_number:
  assumes "CHR ''n'' \<in> set s" and "CHR ''n'' \<notin> set r"
  shows "s \<noteq> show_int i @ r"
  using assms show_int_chars [of "CHR ''n''" i] by (auto simp: is_digit_def code_def)

lemma sample_float_int: "sample_float (show_int i) = Some (Fin (of_int i))"
proof -
  have "CHR ''/'' \<notin> set (show_int i)" using show_int_chars [of "CHR ''/''" i] by (auto simp: is_digit_def code_def)
  moreover have "show_int i \<notin> {''nan'', ''inf'', ''-inf''}"
    using not_a_number [of "''nan''" "[]" i] not_a_number [of "''inf''" "[]" i] not_a_number [of "''-inf''" "[]" i] by auto
  ultimately show ?thesis by (simp add: sample_float_def partition1_none sample_int_show)
qed

lemma sample_float_repr: "sample_float (sample_repr (PFloat f)) = Some f"
proof (cases f)
  case (Fin r)
  let ?a = "show_int (fst (quotient_of r))" and ?b = "show_int (snd (quotient_of r))"
  have s: "CHR ''/'' \<notin> set ?a" using show_int_chars [of "CHR ''/''"] by (auto simp: is_digit_def code_def)
  have "CHR ''n'' \<notin> set ?b" using show_int_chars [of "CHR ''n''"] by (auto simp: is_digit_def code_def)
  then have n: "?a @ ''/'' @ ?b \<notin> {''nan'', ''inf'', ''-inf''}"
    using not_a_number [of "''nan''" "''/'' @ ?b" "fst (quotient_of r)"] not_a_number [of "''inf''" "''/'' @ ?b" "fst (quotient_of r)"]
      not_a_number [of "''-inf''" "''/'' @ ?b" "fst (quotient_of r)"] by auto
  have "of_int (fst (quotient_of r)) / of_int (snd (quotient_of r)) = r" by (metis quotient_of_div prod.collapse)
  then show ?thesis using n partition1_found [OF s, of ?b]
    by (simp add: Fin sample_repr_def sample_float_def sample_int_show)
qed (simp_all add: sample_repr_def sample_float_def)

theorem canonical_values_same_instance_witness:
  "apply_parameter_values (coerce_parameter_value sample_repr sample_float sample_float) (normalize_parameters [(''size'', PFloat (Fin 3))])
     (canonical_parameter_values sample_repr (coerce_parameter_value sample_repr sample_float sample_float)
        (normalize_parameters [(''size'', PFloat (Fin 3))]) [(''size'', PStr ''8/2'')])
   = Inr [(''size'', PDict [(''type'', PStr ''float''), (''default'', PFloat (Fin 4))])]"
proof -
  have "apply_parameter_values (coerce_parameter_value sample_repr sample_float sample_float)
      (normalize_parameters [(''size'', PFloat (Fin 3))]) [(''size'', PStr ''8/2'')]
    = Inr [(''size'', PDict [(''type'', PStr ''float''), (''default'', PFloat (Fin 4))])]"
    by code_simp
  then show ?thesis
    by (subst canonical_values_same_instance) (auto simp: sample_float_repr sample_float_int)
qed

end
