(* ===== verification/Interfaces.thy ===== *)
theory Interfaces
  imports Parameters References
begin

text \<open>
  Interfaces and their ports, from \<open>partcad/interface.py\<close>, \<open>partcad/interface_inherit.py\<close> and
  \<open>Project.get_interface\<close>. An interface declares ports, inherits those of other interfaces at one or
  more places and may be another name for one. An interface another package answers with is the
  object that package built; the sketches of ports come from the project and the context as arguments.
  Log lines and the locks around the construction of an interface are not modelled.
\<close>

section \<open>Ports\<close>

record 'sk port =
  port_name :: string
  port_at :: "location option"
  port_sketch :: "'sk option"
  port_params :: pydict

text \<open>What the package at hand answers with. A sketch is asked for with its parameters or with none.\<close>

record 'sk project_env =
  e_id :: package_id
  e_float :: "string \<Rightarrow> pyfloat option"
  e_expr :: expr_env
  e_own_sketch :: "string \<Rightarrow> pydict option \<Rightarrow> 'sk option"
  e_context_sketch :: "string \<Rightarrow> pydict option \<Rightarrow> 'sk option"

definition port_location :: "'sk port \<Rightarrow> location" where
  "port_location p = (case port_at p of None \<Rightarrow> identity_location | Some l \<Rightarrow> l)"

text \<open>
  \<open>Location\<close> of what a declaration holds: three numbers, an axis, an angle. A number that is not finite
  has no place in the model and is refused with the malformed ones.
\<close>

definition real_of_py :: "pyfloat option \<Rightarrow> real option" where
  "real_of_py f = (case f of Some (Fin r) \<Rightarrow> Some (of_rat r) | _ \<Rightarrow> None)"

definition vector_of :: "(pyval \<Rightarrow> pyfloat option) \<Rightarrow> pyval \<Rightarrow> exn + vec3" where
  "vector_of number v =
     (case v of
        PList (a # b # c # _) \<Rightarrow>
          (case (real_of_py (number a), real_of_py (number b), real_of_py (number c)) of
             (Some x, Some y, Some z) \<Rightarrow> Inr (x, y, z)
           | _ \<Rightarrow> Inl TypeError)
      | PList _ \<Rightarrow> Inl IndexError
      | _ \<Rightarrow> Inl TypeError)"

definition location_of :: "(string \<Rightarrow> pyfloat option) \<Rightarrow> pyval \<Rightarrow> exn + location" where
  "location_of to_float v =
     (case v of
        PList [t, ax, angle] \<Rightarrow>
          (case vector_of (py_float_of to_float) t of
             Inl e \<Rightarrow> Inl e
           | Inr t \<Rightarrow>
               (case vector_of (py_float_of to_float) ax of
                  Inl e \<Rightarrow> Inl e
                | Inr ax \<Rightarrow>
                    (case real_of_py (num_of angle) of
                       None \<Rightarrow> Inl TypeError
                     | Some angle \<Rightarrow>
                         (case packed_location (t, ax, angle) of None \<Rightarrow> Inl ValueError | Some l \<Rightarrow> Inr l))))
      | _ \<Rightarrow> Inl ValueError)"

text \<open>
  The sketch a port's declaration names. The package written beside a sketch is looked at only where
  the reference to the sketch names one as well.
\<close>

definition declared_params :: "expr_env \<Rightarrow> pyval \<Rightarrow> exn + pydict" where
  "declared_params env v =
     (case v of
        PDict d \<Rightarrow> Inr (map (\<lambda>(k, x). (k, PStr (format_value (x_repr env) x))) d)
      | _ \<Rightarrow> if truthy v then Inl AttributeError else Inr [])"

definition port_sketch_of :: "'sk project_env \<Rightarrow> pydict \<Rightarrow> pydict \<Rightarrow> exn + ('sk option \<times> pydict)" where
  "port_sketch_of env config sketch_params =
     (case declared_params (e_expr env) (get_default config ''params'' PNone) of
        Inl e \<Rightarrow> Inl e
      | Inr declared \<Rightarrow>
         (let sketch_params = dict_update sketch_params declared;
              asked = (if sketch_params = [] then None else Some sketch_params);
              own = package_name (e_id env)
          in case (map_of config ''project'', map_of config ''sketch'') of
               (Some p, Some (PStr sketch)) \<Rightarrow>
                 (case p of
                    PStr project \<Rightarrow>
                      if CHR '':'' \<in> set sketch
                      then (case resolve_resource_path
                                   (if project = ''this'' \<or> project = [] then own else relocate (e_id env) project)
                                   (relocate (e_id env) sketch) of
                              Inl e \<Rightarrow> Inl e
                            | Inr (pkg, nm) \<Rightarrow> Inr (e_context_sketch env (pkg @ '':'' @ nm) asked, sketch_params))
                      else Inr (e_own_sketch env sketch asked, sketch_params)
                  | _ \<Rightarrow> Inl AttributeError)
             | (None, Some (PStr sketch)) \<Rightarrow>
                 if CHR '':'' \<in> set sketch
                 then (case resolve_resource_path own (relocate (e_id env) sketch) of
                         Inl e \<Rightarrow> Inl e
                       | Inr (pkg, nm) \<Rightarrow> Inr (e_context_sketch env (pkg @ '':'' @ nm) asked, sketch_params))
                 else Inr (e_own_sketch env sketch asked, sketch_params)
             | _ \<Rightarrow> Inl TypeError))"

definition new_port ::
  "'sk project_env \<Rightarrow> string \<Rightarrow> pydict \<Rightarrow> 'sk option \<Rightarrow> location option \<Rightarrow> pydict \<Rightarrow> exn + 'sk port" where
  "new_port env name config sketch place sketch_params =
     (case (case place of
              Some l \<Rightarrow> Inr (Some l)
            | None \<Rightarrow>
                (case map_of config ''location'' of
                   None \<Rightarrow> Inr None
                 | Some PNone \<Rightarrow> Inr None
                 | Some v \<Rightarrow> map_sum id Some (location_of (e_float env) v))) of
        Inl e \<Rightarrow> Inl e
      | Inr place \<Rightarrow>
          (case (case sketch of
                   Some s \<Rightarrow> Inr (Some s, sketch_params)
                 | None \<Rightarrow> if dict_has config ''sketch'' then port_sketch_of env config sketch_params
                           else Inr (None, sketch_params)) of
             Inl e \<Rightarrow> Inl e
           | Inr (sk, params) \<Rightarrow>
               Inr \<lparr>port_name = name, port_at = place, port_sketch = sk, port_params = params\<rparr>))"

text \<open>The ports an object's own section declares, over those it has from elsewhere.\<close>

fun add_declared_ports ::
  "'sk project_env \<Rightarrow> (string \<times> pyval) list \<Rightarrow> (string \<times> 'sk port) list \<Rightarrow> exn + (string \<times> 'sk port) list" where
  "add_declared_ports env [] ports = Inr ports"
| "add_declared_ports env ((name, config) # rest) ports =
     (case (case config of
              PNone \<Rightarrow> Inr []
            | PList xs \<Rightarrow> Inr [(''location'', PList xs)]
            | PDict d \<Rightarrow> Inr d
            | _ \<Rightarrow> Inl AttributeError) of
        Inl e \<Rightarrow> Inl e
      | Inr d \<Rightarrow>
          (case new_port env name d None None [] of
             Inl e \<Rightarrow> Inl e
           | Inr p \<Rightarrow> add_declared_ports env rest (AList.update name p ports)))"

text \<open>A list of names, one name, or a section; the entries of a list are texts here.\<close>

definition named_section :: "pyval \<Rightarrow> exn + (string \<times> pyval) list" where
  "named_section v =
     (case v of
        PList xs \<Rightarrow>
          if list_all is_str xs then Inr (dict_update [] (map (\<lambda>x. (case x of PStr s \<Rightarrow> s | _ \<Rightarrow> [], PDict [])) xs))
          else Inl TypeError
      | PStr s \<Rightarrow> Inr [(s, PDict [])]
      | PDict d \<Rightarrow> Inr d
      | _ \<Rightarrow> Inl (Raised ''Invalid section''))"

definition instantiate_declared_ports ::
  "'sk project_env \<Rightarrow> pydict \<Rightarrow> (string \<times> 'sk port) list \<Rightarrow> exn + (string \<times> 'sk port) list" where
  "instantiate_declared_ports env config ports =
     (case map_of config ''ports'' of
        None \<Rightarrow> Inr ports
      | Some PNone \<Rightarrow> Inr ports
      | Some v \<Rightarrow>
          (case named_section v of Inl e \<Rightarrow> Inl e | Inr entries \<Rightarrow> add_declared_ports env entries ports))"

section \<open>Inherited interfaces\<close>

text \<open>
  What one entry of \<open>inherits\<close> or \<open>implements\<close> points at (\<open>in_target\<close> is the full name of the interface
  found under \<open>in_name\<close>), and what an interface is once its own
  declaration has been read: the values it states (\<open>None\<close> where it is silent), and what it has
  taken over so far.
\<close>

record inherit =
  in_name :: string
  in_target :: string
  in_instances :: "(string \<times> location) list"
  in_sketches :: "(string \<times> pyval) list"

record 'sk interface =
  if_name :: string
  if_alias :: "string option"
  if_abstract :: bool
  if_lead_port :: pyval
  if_motion :: pyval
  if_physics :: pyval
  if_thread_step :: "pyfloat option"
  if_self_screw :: bool
  if_multi_connect :: "bool option"
  if_ports :: "(string \<times> 'sk port) list"
  if_params :: "(string \<times> interface_parameter) list"
  if_inherits :: "(string \<times> inherit) list"
  if_compatible :: "string list"

text \<open>The name an entry stands for, spelled canonically.\<close>

definition inherit_name :: "package_id \<Rightarrow> string \<Rightarrow> exn + (string \<times> string)" where
  "inherit_name p name =
     map_sum id (\<lambda>(pkg, nm). (case parse_parameterized_name nm of (base, params) \<Rightarrow>
         (pkg, format_parameterized_name id base params)))
       (if CHR '':'' \<in> set name then project_resolve p name else Inr (package_name p, name))"

definition is_vector :: "pyval \<Rightarrow> bool" where
  "is_vector v = (case v of PList [_, _, _] \<Rightarrow> True | _ \<Rightarrow> False)"

definition is_placed :: "pyval list \<Rightarrow> bool" where
  "is_placed xs =
     (case xs of
        [t, ax, angle] \<Rightarrow>
          is_vector t \<and> is_vector ax \<and> (case angle of PInt _ \<Rightarrow> True | PFloat _ \<Rightarrow> True | PBool _ \<Rightarrow> True | _ \<Rightarrow> False)
      | _ \<Rightarrow> False)"

definition instance_entries :: "pyval \<Rightarrow> exn + (string \<times> pyval) list" where
  "instance_entries config =
     (case config of
        PNone \<Rightarrow> Inr [([], PNone)]
      | PStr s \<Rightarrow> Inr [(s, PNone)]
      | PList xs \<Rightarrow>
          if is_placed xs then Inr [([], config)]
          else if list_all is_str xs then Inr (dict_update [] (map (\<lambda>x. (case x of PStr s \<Rightarrow> s | _ \<Rightarrow> [], PNone)) xs))
          else Inl TypeError
      | PDict d \<Rightarrow> Inr d
      | _ \<Rightarrow> Inl (Raised ''Invalid section''))"

text \<open>
  The values an instance sets on the freedom of movement of the interface: the offsets are computed,
  so that a bad value raises, and then not applied.
\<close>

fun check_offsets :: "(string \<times> interface_parameter) list \<Rightarrow> pydict \<Rightarrow> exn + unit" where
  "check_offsets ps [] = Inr ()"
| "check_offsets ps ((k, v) # rest) =
     (case map_of ps k of
        None \<Rightarrow> check_offsets ps rest
      | Some p \<Rightarrow>
          (case num_of v of
             Some (Fin r) \<Rightarrow> (case get_offsets p r of Inl e \<Rightarrow> Inl e | Inr _ \<Rightarrow> check_offsets ps rest)
           | _ \<Rightarrow> Inl TypeError))"

definition instance_location ::
  "(string \<Rightarrow> pyfloat option) \<Rightarrow> (string \<times> 'sk port) list \<Rightarrow> (string \<times> interface_parameter) list \<Rightarrow> pyval
     \<Rightarrow> exn + location" where
  "instance_location to_float owner_ports ps instance_config =
     (let at_value = (\<lambda>v. (case v of None \<Rightarrow> Inr identity_location | Some PNone \<Rightarrow> Inr identity_location
                         | Some v \<Rightarrow> location_of to_float v))
      in case instance_config of
           PDict d \<Rightarrow>
             (case (case map_of d ''params'' of
                      None \<Rightarrow> Inr () | Some (PDict vs) \<Rightarrow> check_offsets ps vs | Some _ \<Rightarrow> Inl AttributeError) of
                Inl e \<Rightarrow> Inl e
              | Inr _ \<Rightarrow>
                  (case map_of d ''port'' of
                     None \<Rightarrow> at_value (map_of d ''location'')
                   | Some PNone \<Rightarrow> at_value (map_of d ''location'')
                   | Some (PStr p) \<Rightarrow>
                       Inr (case map_of owner_ports p of None \<Rightarrow> identity_location | Some prt \<Rightarrow> port_location prt)
                   | Some _ \<Rightarrow> Inr identity_location))
         | v \<Rightarrow> at_value (Some v))"

fun read_instances ::
  "(string \<Rightarrow> pyfloat option) \<Rightarrow> (string \<times> 'sk port) list \<Rightarrow> (string \<times> interface_parameter) list
     \<Rightarrow> (string \<times> pyval) list \<Rightarrow> inherit \<Rightarrow> exn + inherit" where
  "read_instances to_float owner_ports ps [] inh = Inr inh"
| "read_instances to_float owner_ports ps ((instance_name, instance_config) # rest) inh =
     (case instance_location to_float owner_ports ps instance_config of
        Inl e \<Rightarrow> Inl e
      | Inr l \<Rightarrow>
          read_instances to_float owner_ports ps rest
            (inh\<lparr>in_instances := AList.update instance_name l (in_instances inh),
                 in_sketches := (case instance_config of
                     PDict d \<Rightarrow> (case map_of d ''sketch'' of
                         None \<Rightarrow> in_sketches inh | Some PNone \<Rightarrow> in_sketches inh
                       | Some s \<Rightarrow> AList.update instance_name s (in_sketches inh))
                   | _ \<Rightarrow> in_sketches inh)\<rparr>))"

text \<open>\<open>InterfaceInherits.__init__\<close>; \<open>interface_at\<close> is \<open>get_interface\<close> of the package the name is in.\<close>

definition new_inherit ::
  "'sk project_env \<Rightarrow> (string \<Rightarrow> string \<Rightarrow> 'sk interface option) \<Rightarrow> (string \<times> 'sk port) list \<Rightarrow> string \<Rightarrow> pyval
     \<Rightarrow> exn + inherit" where
  "new_inherit env interface_at owner_ports name config =
     (case inherit_name (e_id env) name of
        Inl e \<Rightarrow> Inl e
      | Inr (pkg, nm) \<Rightarrow>
          (case interface_at pkg nm of
             None \<Rightarrow> Inl (Raised ''Failed to find the interface to inherit'')
           | Some i \<Rightarrow>
               (case instance_entries config of
                  Inl e \<Rightarrow> Inl e
                | Inr entries \<Rightarrow>
                    read_instances (e_float env) owner_ports (if_params i) entries
                      \<lparr>in_name = pkg @ '':'' @ nm, in_target = if_name i, in_instances = [], in_sketches = []\<rparr>)))"

section \<open>Taking an interface over\<close>

text \<open>
  \<open>adopt_inherit\<close>. The instances of an interface named twice are merged, the first of a name staying;
  the ports are created for every instance of the entry at hand, each at the place of the instance
  composed with its own.
\<close>

definition full_port_name :: "string \<Rightarrow> string \<Rightarrow> string" where
  "full_port_name instance_name port = (if instance_name \<noteq> [] then instance_name @ ''-'' @ port else port)"

fun merge_instances :: "inherit \<Rightarrow> (string \<times> location) list \<Rightarrow> inherit \<Rightarrow> inherit" where
  "merge_instances new [] existing = existing"
| "merge_instances new ((instance_name, l) # rest) existing =
     (if dict_has (in_instances existing) instance_name then merge_instances new rest existing
      else merge_instances new rest
             (existing\<lparr>in_instances := AList.update instance_name l (in_instances existing),
                in_sketches := (case map_of (in_sketches new) instance_name of
                    None \<Rightarrow> in_sketches existing
                  | Some s \<Rightarrow> AList.update instance_name s (in_sketches existing))\<rparr>))"

definition inherited_port ::
  "'sk project_env \<Rightarrow> inherit \<Rightarrow> string \<Rightarrow> location \<Rightarrow> string \<Rightarrow> 'sk port \<Rightarrow> exn + 'sk port" where
  "inherited_port env inh instance_name instance_at nm p =
     (let full = full_port_name instance_name nm;
          l = (case port_at p of None \<Rightarrow> instance_at | Some own \<Rightarrow> mul_location instance_at own)
      in case (case map_of (in_sketches inh) instance_name of
                 None \<Rightarrow> Inr (port_sketch p, port_params p)
               | Some restated \<Rightarrow>
                   map_sum id (\<lambda>r. (port_sketch r, port_params r)) (new_port env full [(''sketch'', restated)] None None [])) of
           Inl e \<Rightarrow> Inl e
         | Inr (sk, params) \<Rightarrow> new_port env full [] sk (Some l) params)"

fun add_inherited_ports ::
  "'sk project_env \<Rightarrow> inherit \<Rightarrow> string \<Rightarrow> location \<Rightarrow> (string \<times> 'sk port) list \<Rightarrow> (string \<times> 'sk port) list
     \<Rightarrow> exn + (string \<times> 'sk port) list" where
  "add_inherited_ports env inh instance_name instance_at [] ports = Inr ports"
| "add_inherited_ports env inh instance_name instance_at ((nm, p) # rest) ports =
     (case inherited_port env inh instance_name instance_at nm p of
        Inl e \<Rightarrow> Inl e
      | Inr q \<Rightarrow> add_inherited_ports env inh instance_name instance_at rest (AList.update (full_port_name instance_name nm) q ports))"

text \<open>The freedom of movement of the parent, except for what the object declares itself.\<close>

fun merge_params ::
  "string list \<Rightarrow> (string \<times> interface_parameter) list \<Rightarrow> (string \<times> interface_parameter) list
     \<Rightarrow> (string \<times> interface_parameter) list" where
  "merge_params own [] ps = ps"
| "merge_params own ((k, p) # rest) ps =
     merge_params own rest (if k \<in> set own then ps else AList.update k p ps)"

fun adopt_instances ::
  "'sk project_env \<Rightarrow> string list \<Rightarrow> 'sk interface \<Rightarrow> inherit \<Rightarrow> (string \<times> location) list \<Rightarrow> 'sk interface
     \<Rightarrow> exn + 'sk interface" where
  "adopt_instances env own parent inh [] i = Inr i"
| "adopt_instances env own parent inh ((instance_name, l) # rest) i =
     (case add_inherited_ports env inh instance_name l (if_ports parent) (if_ports i) of
        Inl e \<Rightarrow> Inl e
      | Inr ports \<Rightarrow>
          adopt_instances env own parent inh rest
            (i\<lparr>if_ports := ports, if_params := merge_params own (if_params parent) (if_params i)\<rparr>))"

definition record_inherit :: "inherit \<Rightarrow> 'sk interface \<Rightarrow> 'sk interface" where
  "record_inherit inh i =
     i\<lparr>if_inherits := AList.update (in_name inh)
         (case map_of (if_inherits i) (in_name inh) of
            None \<Rightarrow> inh
          | Some existing \<Rightarrow> merge_instances inh (in_instances inh) existing) (if_inherits i)\<rparr>"

definition adopt_inherit ::
  "'sk project_env \<Rightarrow> string list \<Rightarrow> 'sk interface \<Rightarrow> inherit \<Rightarrow> 'sk interface \<Rightarrow> exn + 'sk interface" where
  "adopt_inherit env own parent inh i =
     adopt_instances env own parent inh (in_instances inh) (record_inherit inh i)"

section \<open>An interface is instantiated\<close>

text \<open>
  \<open>Interface.instantiate\<close> up to the \<open>mates\<close> section. \<open>interface_at\<close> answers with the parent, its own
  ports and parents resolved, as \<open>get_ports\<close> resolves them before they are read. The names in the
  section may be expressions.
\<close>

definition is_only_instance :: "pyval list \<Rightarrow> bool" where
  "is_only_instance vs =
     (case vs of
        [only] \<Rightarrow> (case only of PNone \<Rightarrow> True | PStr _ \<Rightarrow> True | PList xs \<Rightarrow> length xs = 1 | PDict d \<Rightarrow> length d = 1 | _ \<Rightarrow> False)
      | _ \<Rightarrow> False)"

fun inherit_entries ::
  "'sk project_env \<Rightarrow> (string \<Rightarrow> string \<Rightarrow> 'sk interface option) \<Rightarrow> (string \<Rightarrow> pyval) \<Rightarrow> string list \<Rightarrow> bool
     \<Rightarrow> (string \<times> pyval) list \<Rightarrow> 'sk interface \<Rightarrow> exn + 'sk interface" where
  "inherit_entries env interface_at resolve_name own drop_in [] i = Inr i"
| "inherit_entries env interface_at resolve_name own drop_in ((name, config) # rest) i =
     (case resolve_name name of
        PStr name \<Rightarrow>
          (case new_inherit env interface_at (if_ports i) name config of
             Inl e \<Rightarrow> Inl e
           | Inr inh \<Rightarrow>
               (case inherit_name (e_id env) name of
                  Inl e \<Rightarrow> Inl e
                | Inr (pkg, nm) \<Rightarrow>
                    (case interface_at pkg nm of
                       None \<Rightarrow> Inl (Raised ''Failed to find the interface to inherit'')
                     | Some parent \<Rightarrow>
                         (case adopt_inherit env own parent inh
                                 (if drop_in then i\<lparr>if_compatible := List.insert (in_name inh) (if_compatible i)\<rparr> else i) of
                            Inl e \<Rightarrow> Inl e
                          | Inr i \<Rightarrow> inherit_entries env interface_at resolve_name own drop_in rest i))))
      | _ \<Rightarrow> Inl TypeError)"

text \<open>What an alias does not state it takes from the first interface it inherits.\<close>

definition adopt_alias_target :: "(string \<Rightarrow> 'sk interface option) \<Rightarrow> bool \<Rightarrow> 'sk interface \<Rightarrow> 'sk interface" where
  "adopt_alias_target interface_named states_abstract i =
     (case if_inherits i of
        [] \<Rightarrow> i
      | (_, inh) # _ \<Rightarrow>
          (case interface_named (in_target inh) of
             None \<Rightarrow> i
           | Some target \<Rightarrow>
               i\<lparr>if_lead_port := (if if_lead_port i = PNone then if_lead_port target else if_lead_port i),
                 if_abstract := (if states_abstract then if_abstract i else if_abstract target),
                 if_motion := (if if_motion i = PNone then if_motion target else if_motion i),
                 if_physics := (if if_physics i = PNone then if_physics target else if_physics i)\<rparr>))"

definition inherits_section :: "'sk interface \<Rightarrow> pydict \<Rightarrow> string \<Rightarrow> exn + (string \<times> pyval) list option" where
  "inherits_section i config config_section =
     (case (if_alias i, map_of config config_section) of
        (Some target, None) \<Rightarrow> Inr (Some [(target, PNone)])
      | (Some target, Some PNone) \<Rightarrow> Inr (Some [(target, PNone)])
      | (None, None) \<Rightarrow> Inr None
      | (None, Some PNone) \<Rightarrow> Inr None
      | (_, Some (PStr s)) \<Rightarrow> Inr (Some [(s, PStr [])])
      | (_, Some (PDict d)) \<Rightarrow> Inr (Some d)
      | _ \<Rightarrow> Inl AttributeError)"

text \<open>What is inherited or implemented is read over the ports and parameters there are by then.\<close>

definition instantiate_inherits ::
  "'sk project_env \<Rightarrow> (string \<Rightarrow> string \<Rightarrow> 'sk interface option) \<Rightarrow> (string \<Rightarrow> 'sk interface option) \<Rightarrow> pydict \<Rightarrow> pydict
     \<Rightarrow> string \<Rightarrow> string list \<Rightarrow> 'sk interface \<Rightarrow> exn + 'sk interface" where
  "instantiate_inherits env interface_at interface_named values' config config_section own i =
     (let names = dict_update (map (\<lambda>(k, p). (k, p_default p)) (if_params i)) values'
      in case inherits_section i config config_section of
           Inl e \<Rightarrow> Inl e
         | Inr section_obj \<Rightarrow>
             map_sum id (\<lambda>i. if if_alias i \<noteq> None
                             then adopt_alias_target interface_named (dict_has config ''abstract'') i else i)
               (case section_obj of
                  None \<Rightarrow> Inr i
                | Some entries \<Rightarrow>
                    inherit_entries env interface_at (\<lambda>n. Expr.resolve (e_expr env) names (PStr n)) own
                      (is_only_instance (map snd entries)) entries i))"

definition instantiate ::
  "'sk project_env \<Rightarrow> (string \<Rightarrow> string \<Rightarrow> 'sk interface option) \<Rightarrow> (string \<Rightarrow> 'sk interface option) \<Rightarrow> pydict \<Rightarrow> pydict
     \<Rightarrow> string \<Rightarrow> 'sk interface \<Rightarrow> exn + 'sk interface" where
  "instantiate env interface_at interface_named values' config config_section i0 =
     (case instantiate_declared_ports env config (if_ports i0) of
        Inl e \<Rightarrow> Inl e
      | Inr ports \<Rightarrow>
          instantiate_inherits env interface_at interface_named values' config config_section (map fst (if_params i0))
            (i0\<lparr>if_ports := ports\<rparr>))"

section \<open>An interface is built\<close>

text \<open>
  \<open>Interface.__init__\<close>: the sections named here are read with the expressions in them resolved over
  the values the interface is built from.
\<close>

definition EXPRESSION_SECTIONS :: "string list" where
  "EXPRESSION_SECTIONS =
     [''desc'', ''ports'', ''inherits'', ''implements'', ''mates'', ''parameters'', ''alias'', ''leadPort'',
      ''threadStep'', ''selfScrew'', ''multiConnect'', ''motion'']"

definition section_dict :: "pydict \<Rightarrow> exn + pydict" where
  "section_dict config =
     (case map_of config ''parameters'' of
        None \<Rightarrow> Inr []
      | Some (PDict p) \<Rightarrow> Inr p
      | Some v \<Rightarrow> if truthy v then Inl AttributeError else Inr [])"

definition resolve_section :: "expr_env \<Rightarrow> pydict \<Rightarrow> string \<Rightarrow> pyval \<Rightarrow> pyval" where
  "resolve_section env values' key v =
     (if key = ''parameters'' then
        (case v of
           PDict declared \<Rightarrow>
             (case Expr.resolve env values' (PDict (movement_parameters declared)) of
                PDict movement \<Rightarrow> PDict (dict_update (construction_parameters declared) movement)
              | w \<Rightarrow> w)
         | _ \<Rightarrow> PDict [])
      else Expr.resolve env values' v)"

definition resolve_expressions :: "expr_env \<Rightarrow> pydict \<Rightarrow> pydict \<Rightarrow> pydict" where
  "resolve_expressions env values' config =
     (if values' = [] then config
      else map (\<lambda>(key, v). (key, if key \<in> set EXPRESSION_SECTIONS then resolve_section env values' key v else v)) config)"

fun read_movement ::
  "(string \<Rightarrow> pyfloat option) \<Rightarrow> pydict \<Rightarrow> (string \<times> interface_parameter) list
     \<Rightarrow> exn + (string \<times> interface_parameter) list" where
  "read_movement to_float [] ps = Inr ps"
| "read_movement to_float ((name, config) # rest) ps =
     (case movement_parameter to_float name config of
        Inl e \<Rightarrow> Inl e
      | Inr c \<Rightarrow> read_movement to_float rest (AList.update name (new_interface_parameter c) ps))"

text \<open>\<open>threadStep\<close>: anything but a number that is not negative is as if nothing was written.\<close>

definition read_thread_step :: "pyval \<Rightarrow> pyfloat option" where
  "read_thread_step v =
     (case v of
        PInt i \<Rightarrow> if i < 0 then None else Some (Fin (of_int i))
      | PFloat f \<Rightarrow> if f \<noteq> NaN \<and> \<not> float_le (Fin 0) f then None else Some f
      | _ \<Rightarrow> None)"

definition new_interface :: "'sk project_env \<Rightarrow> string \<Rightarrow> pydict \<Rightarrow> exn + 'sk interface" where
  "new_interface env name config =
     (case section_dict config of
        Inl e \<Rightarrow> Inl e
      | Inr p \<Rightarrow>
         (let values' = parameter_values (construction_parameters p);
              c = resolve_expressions (e_expr env) values' config
          in case section_dict c of
               Inl e \<Rightarrow> Inl e
             | Inr p \<Rightarrow>
                 (case read_movement (e_float env) (movement_parameters p) [] of
                    Inl e \<Rightarrow> Inl e
                  | Inr ps \<Rightarrow>
                      Inr \<lparr>if_name = package_name (e_id env) @ '':'' @ name,
                           if_alias = (case map_of c ''alias'' of Some (PStr s) \<Rightarrow> Some s | _ \<Rightarrow> None),
                           if_abstract = truthy (get_default c ''abstract'' (PBool False)),
                           if_lead_port = get_default c ''leadPort'' PNone,
                           if_motion = get_default c ''motion'' PNone,
                           if_physics = get_default c ''physics'' PNone,
                           if_thread_step = read_thread_step (get_default c ''threadStep'' PNone),
                           if_self_screw = truthy (get_default c ''selfScrew'' (PBool False)),
                           if_multi_connect = map_option truthy (map_of c ''multiConnect''),
                           if_ports = [], if_params = ps, if_inherits = [], if_compatible = []\<rparr>)))"

section \<open>The interfaces of a package\<close>

text \<open>
  What a package holds of its interfaces: those built so far under their canonical names, the
  declarations, and the names of what could not be built.
\<close>

record 'sk interface_store =
  built :: "(string \<times> 'sk interface) list"
  declared_interfaces :: "(string \<times> pyval) list"
  broken :: "string list"

definition normalized_interface_config ::
  "(string \<times> pydict) list \<Rightarrow> string \<Rightarrow> string \<Rightarrow> 'sk interface_store \<Rightarrow> exn + (pydict \<times> 'sk interface_store)" where
  "normalized_interface_config user package interface_name st =
     (let config = (case map_of (declared_interfaces st) interface_name of None \<Rightarrow> PNone | Some v \<Rightarrow> v)
      in case normalize_interface user interface_name config (package @ '':'' @ interface_name) of
           Inl e \<Rightarrow> Inl e
         | Inr c \<Rightarrow>
             Inr (c, case config of
                 PDict _ \<Rightarrow> st\<lparr>declared_interfaces := AList.update interface_name (PDict c) (declared_interfaces st)\<rparr>
               | _ \<Rightarrow> st))"

definition init_interface_by_config ::
  "'sk project_env \<Rightarrow> string \<Rightarrow> pydict \<Rightarrow> 'sk interface_store \<Rightarrow> 'sk interface_store \<times> 'sk interface option" where
  "init_interface_by_config env name config st =
     (case new_interface env name config of
        Inl _ \<Rightarrow> (st\<lparr>broken := broken st @ [name]\<rparr>, None)
      | Inr i \<Rightarrow> (st\<lparr>built := AList.update name i (built st)\<rparr>, Some i))"

text \<open>The name an interface is registered under, from a reference and the values that come with it.\<close>

definition canonical_reference ::
  "'sk project_env \<Rightarrow> (pyval \<Rightarrow> pyval \<Rightarrow> exn + pyval) \<Rightarrow> 'sk interface_store \<Rightarrow> string \<Rightarrow> pydict
     \<Rightarrow> exn + (string \<times> pydict \<times> string)" where
  "canonical_reference env coerce st interface_name func_params =
     (let (base_name, params) = parse_parameterized_name interface_name;
          params = dict_update (map (\<lambda>(k, v). (k, PStr v)) params) func_params;
          repr = x_repr (e_expr env)
      in if params = [] then Inr (base_name, [], format_parameterized_name (Prelude.py_str repr) base_name [])
         else (case (case map_of (declared_interfaces st) base_name of
                       Some (PDict d) \<Rightarrow> map_sum id construction_parameters (section_dict d)
                     | _ \<Rightarrow> Inr []) of
                 Inl e \<Rightarrow> Inl e
               | Inr declared \<Rightarrow>
                   (let params = canonical_parameter_values repr coerce declared params
                    in Inr (base_name, params, format_parameterized_name (Prelude.py_str repr) base_name params))))"

definition build_interface ::
  "'sk project_env \<Rightarrow> (pyval \<Rightarrow> pyval \<Rightarrow> exn + pyval) \<Rightarrow> (string \<times> pydict) list \<Rightarrow> string \<Rightarrow> pydict \<Rightarrow> string
     \<Rightarrow> 'sk interface_store \<Rightarrow> exn + ('sk interface_store \<times> 'sk interface option)" where
  "build_interface env coerce user base_name params result_name st =
     (let package = package_name (e_id env)
      in if params = [] then
           (case normalized_interface_config user package base_name st of
              Inl _ \<Rightarrow> Inr (st\<lparr>broken := broken st @ [base_name]\<rparr>, None)
            | Inr (c, st) \<Rightarrow> Inr (init_interface_by_config env base_name c st))
         else
           (case normalized_interface_config user package base_name st of
              Inl e \<Rightarrow> Inl e
            | Inr (c, st) \<Rightarrow>
                (case normalize_interface user result_name (PDict c) (package @ '':'' @ result_name) of
                   Inl e \<Rightarrow> Inl e
                 | Inr c \<Rightarrow>
                    (let c = AList.update ''orig_name'' (PStr base_name) c
                     in case section_dict c of
                          Inl e \<Rightarrow> Inl e
                        | Inr declared \<Rightarrow>
                            if construction_parameters declared = [] then Inr (st, None)
                            else (case apply_parameter_values coerce (construction_parameters declared) params of
                                    Inl _ \<Rightarrow> Inr (st\<lparr>broken := broken st @ [result_name]\<rparr>, None)
                                  | Inr construction \<Rightarrow>
                                      Inr (init_interface_by_config env result_name
                                             (AList.update ''parameters'' (PDict (dict_update declared construction)) c) st))))))"

definition get_interface ::
  "'sk project_env \<Rightarrow> (pyval \<Rightarrow> pyval \<Rightarrow> exn + pyval) \<Rightarrow> (string \<times> pydict) list \<Rightarrow> 'sk interface_store \<Rightarrow> string \<Rightarrow> pydict
     \<Rightarrow> exn + ('sk interface_store \<times> 'sk interface option)" where
  "get_interface env coerce user st interface_name func_params =
     (case canonical_reference env coerce st interface_name func_params of
        Inl e \<Rightarrow> Inl e
      | Inr (base_name, params, result_name) \<Rightarrow>
          (case map_of (built st) result_name of
             Some i \<Rightarrow> Inr (st, Some i)
           | None \<Rightarrow>
               if \<not> dict_has (declared_interfaces st) base_name then Inr (st, None)
               else build_interface env coerce user base_name params result_name st))"

section \<open>Ports of an adopted interface\<close>

lemma new_port_placed:
  "new_port env name [] sk (Some l) params = Inr \<lparr>port_name = name, port_at = Some l, port_sketch = sk, port_params = params\<rparr>"
  by (cases sk) (simp_all add: new_port_def)

lemma inherited_port_place:
  "inherited_port env inh n l nm p = Inr q \<Longrightarrow> port_location q = mul_location l (port_location p)"
  by (auto simp: inherited_port_def Let_def new_port_placed port_location_def placed.mul_one split: sum.splits option.splits)

lemma add_inherited_ports_get:
  assumes "add_inherited_ports env inh n l ps ports = Inr ports'"
  shows "(k \<notin> (\<lambda>(nm, _). full_port_name n nm) ` set ps \<longrightarrow> map_of ports' k = map_of ports k)
       \<and> (distinct (map (\<lambda>(nm, _). full_port_name n nm) ps) \<longrightarrow> (nm, p) \<in> set ps \<longrightarrow>
          (\<exists>q. map_of ports' (full_port_name n nm) = Some q \<and> port_location q = mul_location l (port_location p)))"
  using assms
proof (induction ps arbitrary: ports k nm p)
  case (Cons e ps)
  obtain a r where e: "e = (a, r)" by force
  obtain q where q: "inherited_port env inh n l a r = Inr q"
    and rest: "add_inherited_ports env inh n l ps (AList.update (full_port_name n a) q ports) = Inr ports'"
    using Cons.prems e by (auto split: sum.splits)
  note IH = Cons.IH [OF rest]
  show ?case
  proof (intro conjI impI)
    assume "k \<notin> (\<lambda>(nm, _). full_port_name n nm) ` set (e # ps)"
    then show "map_of ports' k = map_of ports k" using IH e by (auto simp: update_conv)
  next
    assume d: "distinct (map (\<lambda>(nm, _). full_port_name n nm) (e # ps))" and m: "(nm, p) \<in> set (e # ps)"
    show "\<exists>q. map_of ports' (full_port_name n nm) = Some q \<and> port_location q = mul_location l (port_location p)"
    proof (cases "(nm, p) \<in> set ps")
      case True
      then show ?thesis using IH d by auto
    next
      case False
      then have "nm = a" "p = r" using m e by auto
      then show ?thesis using IH d e inherited_port_place [OF q] by (auto simp: update_conv image_iff)
    qed
  qed
qed simp

lemma add_inherited_ports_has:
  "add_inherited_ports env inh n l ps ports = Inr ports' \<Longrightarrow>
     dom (map_of ports') = dom (map_of ports) \<union> (\<lambda>(nm, _). full_port_name n nm) ` set ps"
proof (induction ps arbitrary: ports)
  case (Cons e ps)
  obtain a r where e: "e = (a, r)" by force
  obtain q where "add_inherited_ports env inh n l ps (AList.update (full_port_name n a) q ports) = Inr ports'"
    using Cons.prems e by (auto split: sum.splits)
  from Cons.IH [OF this] have "dom (map_of ports') = insert (full_port_name n a) (dom (map_of ports)) \<union> (\<lambda>(nm, _). full_port_name n nm) ` set ps"
    by (simp only: map_of_update dom_fun_upd) simp
  then show ?case by (simp add: e Un_assoc)
qed simp

text \<open>The full names an adopted entry creates ports under.\<close>

definition adopted_names :: "(string \<times> location) list \<Rightarrow> (string \<times> 'sk port) list \<Rightarrow> string list" where
  "adopted_names instances ports =
     concat (map (\<lambda>(n, _). map (\<lambda>(nm, _). full_port_name n nm) ports) instances)"

lemma adopted_names_Cons:
  "adopted_names ((n, l) # xs) ports = map (\<lambda>(nm, _). full_port_name n nm) ports @ adopted_names xs ports"
  by (simp add: adopted_names_def)

lemma adopt_instances_facts:
  "adopt_instances env own parent inh xs i = Inr i' \<Longrightarrow>
     if_inherits i' = if_inherits i \<and> if_compatible i' = if_compatible i \<and> if_name i' = if_name i \<and>
     dom (map_of (if_ports i')) = dom (map_of (if_ports i)) \<union> set (adopted_names xs (if_ports parent))"
proof (induction xs arbitrary: i)
  case (Cons e xs)
  obtain n l where e: "e = (n, l)" by force
  obtain ports where a: "add_inherited_ports env inh n l (if_ports parent) (if_ports i) = Inr ports"
    and r: "adopt_instances env own parent inh xs
       (i\<lparr>if_ports := ports, if_params := merge_params own (if_params parent) (if_params i)\<rparr>) = Inr i'"
    using Cons.prems by (auto simp: e split: sum.splits)
  show ?case using Cons.IH [OF r] add_inherited_ports_has [OF a]
    by (simp add: e adopted_names_Cons Un_assoc)
qed (simp add: adopted_names_def)

lemma adopt_instances_other:
  "adopt_instances env own parent inh xs i = Inr i' \<Longrightarrow> k \<notin> set (adopted_names xs (if_ports parent)) \<Longrightarrow>
     map_of (if_ports i') k = map_of (if_ports i) k"
proof (induction xs arbitrary: i)
  case (Cons e xs)
  obtain n l where e: "e = (n, l)" by force
  obtain ports where a: "add_inherited_ports env inh n l (if_ports parent) (if_ports i) = Inr ports"
    and r: "adopt_instances env own parent inh xs
       (i\<lparr>if_ports := ports, if_params := merge_params own (if_params parent) (if_params i)\<rparr>) = Inr i'"
    using Cons.prems(1) by (auto simp: e split: sum.splits)
  have "map_of (if_ports i') k = map_of ports k" using Cons.IH [OF r] Cons.prems(2) by (simp add: e adopted_names_Cons)
  also have "\<dots> = map_of (if_ports i) k"
    using add_inherited_ports_get [OF a] Cons.prems(2) by (auto simp: e adopted_names_Cons)
  finally show ?case .
qed simp

lemma adopt_instances_placed:
  "adopt_instances env own parent inh xs i = Inr i' \<Longrightarrow> distinct (adopted_names xs (if_ports parent)) \<Longrightarrow>
     (n, l) \<in> set xs \<Longrightarrow> (nm, p) \<in> set (if_ports parent) \<Longrightarrow>
     \<exists>q. map_of (if_ports i') (full_port_name n nm) = Some q \<and> port_location q = mul_location l (port_location p)"
proof (induction xs arbitrary: i)
  case (Cons e xs)
  obtain m r where e: "e = (m, r)" by force
  obtain ports where a: "add_inherited_ports env inh m r (if_ports parent) (if_ports i) = Inr ports"
    and rest: "adopt_instances env own parent inh xs
       (i\<lparr>if_ports := ports, if_params := merge_params own (if_params parent) (if_params i)\<rparr>) = Inr i'"
    using Cons.prems(1) by (auto simp: e split: sum.splits)
  have d: "distinct (adopted_names xs (if_ports parent))" "distinct (map (\<lambda>(nm, _). full_port_name m nm) (if_ports parent))"
    "\<And>k. k \<in> (\<lambda>(nm, _). full_port_name m nm) ` set (if_ports parent) \<Longrightarrow> k \<notin> set (adopted_names xs (if_ports parent))"
    using Cons.prems(2) by (auto simp: e adopted_names_Cons)
  show ?case
  proof (cases "(n, l) \<in> set xs")
    case True
    then show ?thesis using Cons.IH [OF rest d(1)] Cons.prems(4) by blast
  next
    case False
    then have n: "n = m" "l = r" using Cons.prems(3) e by auto
    have "full_port_name n nm \<notin> set (adopted_names xs (if_ports parent))"
      using d(3) [of "full_port_name n nm"] Cons.prems(4) n by (force simp: image_iff)
    then have "map_of (if_ports i') (full_port_name n nm) = map_of ports (full_port_name n nm)"
      using adopt_instances_other [OF rest] by simp
    then show ?thesis using add_inherited_ports_get [OF a, of _ nm p] d(2) Cons.prems(4) n by auto
  qed
qed simp

text \<open>C21: 
  an inherited port is where the instance puts it: each instance of an adopted interface gives the
  object one port for every port of that interface, named after the instance, at the place of the
  instance composed with the place of the port, so that a point of the port's frame is the point of
  the interface moved by the instance.
\<close>

theorem adopted_ports_are_placed:
  assumes "adopt_inherit env own parent inh i = Inr i'"
    and "distinct (adopted_names (in_instances inh) (if_ports parent))"
    and "(n, l) \<in> set (in_instances inh)" and "(nm, p) \<in> set (if_ports parent)"
    and "rigid l" and "rigid (port_location p)"
  shows "\<exists>q. map_of (if_ports i') (full_port_name n nm) = Some q
            \<and> rigid (port_location q)
            \<and> (\<forall>x. transform_point (port_location q) x = transform_point l (transform_point (port_location p) x))"
proof -
  obtain q where q: "map_of (if_ports i') (full_port_name n nm) = Some q"
    "port_location q = mul_location l (port_location p)"
    using adopt_instances_placed [OF _ assms(2-4), of env own inh "record_inherit inh i" i'] assms(1)
    by (auto simp: adopt_inherit_def)
  show ?thesis using q assms(5,6) by (auto simp: placed.act_mul intro: placed.mul_valid)
qed

definition sample_number :: "string \<Rightarrow> pyfloat option" where
  "sample_number s = (if s = ''4'' \<or> s = ''4.0'' then Some (Fin 4) else None)"

definition sample_project :: "unit project_env" where
  "sample_project =
     \<lparr>e_id = \<lparr>package_name = ''//p'', declared_name = None\<rparr>, e_float = sample_number,
      e_expr = \<lparr>x_parse = \<lambda>_. None, x_runtime = undefined, x_repr = sample_repr\<rparr>,
      e_own_sketch = \<lambda>_ _. None, e_context_sketch = \<lambda>_ _. None\<rparr>"

definition plain_port :: "string \<Rightarrow> location option \<Rightarrow> unit port" where
  "plain_port nm l = \<lparr>port_name = nm, port_at = l, port_sketch = None, port_params = []\<rparr>"

definition blank_interface :: "string \<Rightarrow> 'sk interface" where
  "blank_interface n =
     \<lparr>if_name = n, if_alias = None, if_abstract = False, if_lead_port = PNone, if_motion = PNone, if_physics = PNone,
      if_thread_step = None, if_self_screw = False, if_multi_connect = None, if_ports = [], if_params = [],
      if_inherits = [], if_compatible = []\<rparr>"

lemma blank_interface_sel [simp]:
  "if_name (blank_interface n) = n" "if_thread_step (blank_interface n) = None" "if_self_screw (blank_interface n) = False"
  "if_multi_connect (blank_interface n) = None" "if_ports (blank_interface n) = []" "if_params (blank_interface n) = []"
  "if_inherits (blank_interface n) = []" "if_compatible (blank_interface n) = []" "if_abstract (blank_interface n) = False"
  "if_lead_port (blank_interface n) = PNone"
  by (simp_all add: blank_interface_def)

lemma rigid_identity_at: "rigid \<lparr>loc_q = IDENTITY_Q, loc_t = t\<rparr>"
  by (simp add: rigid_def IDENTITY_Q_def)

theorem adopted_ports_are_placed_witness:
  "\<exists>i' q. adopt_inherit sample_project [] ((blank_interface ''p:m'')\<lparr>if_ports := [(''grip'', plain_port ''grip'' None)]\<rparr>)
            \<lparr>in_name = ''p:m'', in_target = ''p:m'', in_instances = [(''left'', \<lparr>loc_q = IDENTITY_Q, loc_t = (1, 2, 3)\<rparr>)], in_sketches = []\<rparr>
            (blank_interface ''p:o'') = Inr i'
     \<and> map_of (if_ports i') ''left-grip'' = Some q \<and> transform_point (port_location q) (0, 0, 1) = (1, 2, 4)"
proof -
  let ?parent = "(blank_interface ''p:m'')\<lparr>if_ports := [(''grip'', plain_port ''grip'' None)]\<rparr>"
  let ?l = "\<lparr>loc_q = IDENTITY_Q, loc_t = (1, 2, 3)\<rparr>"
  let ?inh = "\<lparr>in_name = ''p:m'', in_target = ''p:m'', in_instances = [(''left'', ?l)], in_sketches = []\<rparr>"
  obtain i' where a: "adopt_inherit sample_project [] ?parent ?inh (blank_interface ''p:o'') = Inr i'"
    by (auto simp: adopt_inherit_def inherited_port_def new_port_placed plain_port_def Let_def)
  have "rigid (port_location (plain_port ''grip'' None))"
    by (simp add: port_location_def plain_port_def placed.one_valid)
  then obtain q where "map_of (if_ports i') (full_port_name ''left'' ''grip'') = Some q"
    "\<forall>x. transform_point (port_location q) x = transform_point ?l (transform_point (port_location (plain_port ''grip'' None)) x)"
    using adopted_ports_are_placed [OF a, of "''left''" ?l "''grip''" "plain_port ''grip'' None"]
    by (auto simp: adopted_names_def rigid_identity_at)
  moreover have "transform_point ?l (transform_point (port_location (plain_port ''grip'' None)) (0, 0, 1)) = (1, 2, 4)"
    by (simp add: port_location_def plain_port_def placed.act_one) (simp add: transform_point_def)
  ultimately show ?thesis using a by (auto simp: full_port_name_def)
qed

text \<open>
  an instance declared more than once: the list of instances keeps the place that came first, and the
  ports are moved to the place that came second, so that the two disagree about where the instance is.
\<close>

theorem duplicate_instance_moves_ports:
  assumes "map_of (if_inherits i) (in_name inh) = Some existing" and "map_of (in_instances existing) n = Some l"
    and "in_instances inh = [(n, l')]" and "if_ports parent = [(nm, p)]"
    and "adopt_inherit env own parent inh i = Inr i'"
  shows "map_of (if_inherits i') (in_name inh) = Some existing
       \<and> map_option port_location (map_of (if_ports i') (full_port_name n nm)) = Some (mul_location l' (port_location p))"
proof -
  have a: "adopt_instances env own parent inh (in_instances inh) (record_inherit inh i) = Inr i'"
    using assms(5) by (simp add: adopt_inherit_def)
  have "merge_instances inh (in_instances inh) existing = existing" using assms(2,3) by simp
  then have "map_of (if_inherits i') (in_name inh) = Some existing"
    using adopt_instances_facts [OF a] assms(1) by (simp add: record_inherit_def)
  moreover have "\<exists>q. map_of (if_ports i') (full_port_name n nm) = Some q \<and> port_location q = mul_location l' (port_location p)"
    using adopt_instances_placed [OF a, of n l' nm p] assms(3,4) by (simp add: adopted_names_def)
  ultimately show ?thesis by auto
qed

theorem duplicate_instance_moves_ports_witness:
  "\<exists>i'. adopt_inherit env [] ((blank_interface ''p:m'')\<lparr>if_ports := [(''grip'', plain_port ''grip'' None)]\<rparr>)
            \<lparr>in_name = ''p:m'', in_target = ''p:m'', in_instances = [([], \<lparr>loc_q = IDENTITY_Q, loc_t = (9, 0, 0)\<rparr>)], in_sketches = []\<rparr>
            ((blank_interface ''p:o'')\<lparr>if_inherits :=
                [(''p:m'', \<lparr>in_name = ''p:m'', in_target = ''p:m'', in_instances = [([], identity_location)], in_sketches = []\<rparr>)]\<rparr>) = Inr i'
     \<and> map_of (if_inherits i') ''p:m'' = Some \<lparr>in_name = ''p:m'', in_target = ''p:m'', in_instances = [([], identity_location)], in_sketches = []\<rparr>
     \<and> map_option port_location (map_of (if_ports i') ''grip'') = Some \<lparr>loc_q = IDENTITY_Q, loc_t = (9, 0, 0)\<rparr>"
proof -
  let ?parent = "(blank_interface ''p:m'')\<lparr>if_ports := [(''grip'', plain_port ''grip'' None)]\<rparr>"
  let ?old = "\<lparr>in_name = ''p:m'', in_target = ''p:m'', in_instances = [([], identity_location)], in_sketches = []\<rparr>"
  let ?l = "\<lparr>loc_q = IDENTITY_Q, loc_t = (9, 0, 0)\<rparr>"
  let ?inh = "\<lparr>in_name = ''p:m'', in_target = ''p:m'', in_instances = [([], ?l)], in_sketches = []\<rparr>"
  let ?i = "(blank_interface ''p:o'')\<lparr>if_inherits := [(''p:m'', ?old)]\<rparr>"
  obtain i' where a: "adopt_inherit env [] ?parent ?inh ?i = Inr i'"
    by (auto simp: adopt_inherit_def inherited_port_def new_port_placed plain_port_def Let_def)
  have "mul_location ?l (port_location (plain_port ''grip'' None)) = ?l"
    by (simp add: port_location_def plain_port_def placed.mul_one)
  then show ?thesis
    using a duplicate_instance_moves_ports [of ?i ?inh ?old "[]" identity_location ?l ?parent "''grip''"
        "plain_port ''grip'' None" env "[]" i']
    by (auto simp: full_port_name_def)
qed

text \<open>
  the package written beside a sketch is not read: unless the reference to the sketch names a package
  itself, the port's sketch comes from the package of the port.
\<close>

theorem package_beside_sketch_ignored:
  assumes "CHR '':'' \<notin> set sketch"
  shows "port_sketch_of env [(''project'', PStr project), (''sketch'', PStr sketch)] []
       = Inr (e_own_sketch env sketch None, [])"
  using assms by (simp add: port_sketch_of_def declared_params_def get_default_def Let_def)

theorem package_beside_sketch_ignored_witness:
  "port_sketch_of env [(''project'', PStr ''//pub/std''), (''sketch'', PStr ''hole'')] [] = Inr (e_own_sketch env ''hole'' None, [])"
  by (rule package_beside_sketch_ignored) simp

section \<open>One interface per canonical name\<close>

text \<open>Everything a package has built is registered under the name it answers to.\<close>

definition store_ok :: "'sk project_env \<Rightarrow> 'sk interface_store \<Rightarrow> bool" where
  "store_ok env st = (\<forall>n i. map_of (built st) n = Some i \<longrightarrow> if_name i = package_name (e_id env) @ '':'' @ n)"

lemma new_interface_name: "new_interface env name c = Inr i \<Longrightarrow> if_name i = package_name (e_id env) @ '':'' @ name"
  by (auto simp: new_interface_def Let_def split: sum.splits)

lemma normalized_config_built:
  "normalized_interface_config user package n st = Inr (c, st') \<Longrightarrow> built st' = built st"
  by (auto simp: normalized_interface_config_def Let_def split: sum.splits pyval.splits)

lemma init_interface_cases:
  "init_interface_by_config env name c st = (st', r) \<Longrightarrow>
     (r = None \<and> built st' = built st)
     \<or> (\<exists>i. r = Some i \<and> built st' = AList.update name i (built st) \<and> if_name i = package_name (e_id env) @ '':'' @ name)"
  by (auto simp: init_interface_by_config_def split: sum.splits dest: new_interface_name)

lemma build_interface_cases:
  assumes "build_interface env coerce user base params result st = Inr (st', r)" and "params = [] \<Longrightarrow> result = base"
  shows "(r = None \<and> built st' = built st)
     \<or> (\<exists>i. r = Some i \<and> built st' = AList.update result i (built st) \<and> if_name i = package_name (e_id env) @ '':'' @ result)"
  using assms
  by (auto simp: build_interface_def Let_def normalized_config_built
      split: sum.splits if_splits dest!: init_interface_cases normalized_config_built)

lemma format_no_params: "format_parameterized_name show base [] = result \<Longrightarrow> CHR '';'' \<notin> set base \<Longrightarrow> result = base"
  by (simp add: format_parameterized_name_def parse_plain)

lemma parsed_base_plain: "parse_parameterized_name name = (base, ps) \<Longrightarrow> CHR '';'' \<notin> set base"
  by (auto simp: parse_parameterized_name_def partition1_def Let_def split: prod.splits if_splits dest: set_takeWhileD)

lemma canonical_reference_plain:
  "canonical_reference env coerce st name func = Inr (base, [], result) \<Longrightarrow> result = base"
  by (auto simp: canonical_reference_def Let_def canonical_parameter_values_def
      split: prod.splits sum.splits if_splits dest: parsed_base_plain intro!: format_no_params [OF refl])

text \<open>
  a package keeps one interface per canonical name, registered under the name it answers to; a
  reference that spells the same name finds the interface that was built, and builds nothing.
\<close>

theorem one_interface_per_name:
  assumes "store_ok env st" and "get_interface env coerce user st name func = Inr (st', Some i)"
    and "canonical_reference env coerce st name func = Inr (base, params, result)"
    and "canonical_reference env coerce st' name' func' = Inr (base', params', result)"
  shows "store_ok env st' \<and> if_name i = package_name (e_id env) @ '':'' @ result
       \<and> get_interface env coerce user st' name' func' = Inr (st', Some i)"
proof -
  have "(st' = st \<and> map_of (built st) result = Some i)
      \<or> (built st' = AList.update result i (built st) \<and> if_name i = package_name (e_id env) @ '':'' @ result)"
  proof (cases "map_of (built st) result")
    case None
    then have "build_interface env coerce user base params result st = Inr (st', Some i)"
      using assms(2,3) by (auto simp: get_interface_def split: if_splits)
    from build_interface_cases [OF this] show ?thesis
      using canonical_reference_plain [of env coerce st name func base result] assms(3) by auto
  qed (use assms(2,3) in \<open>simp add: get_interface_def\<close>)
  then have b: "map_of (built st') result = Some i" "if_name i = package_name (e_id env) @ '':'' @ result" "store_ok env st'"
    using assms(1) by (auto simp: store_ok_def split: if_splits)
  then show ?thesis using assms(4) by (simp add: get_interface_def)
qed

lemma small_expr_facts:
  "parse_parameterized_name ''m;size=4'' = (''m'', [(''size'', ''4'')])"
  "parse_parameterized_name ''m;size=4.0'' = (''m'', [(''size'', ''4.0'')])"
  by code_simp+

text \<open>A package \<open>//p\<close> that declares the parametric interface \<open>m\<close>, and numbers for the texts it is asked with.\<close>

definition sample_store :: "unit interface_store" where
  "sample_store = \<lparr>built = [], declared_interfaces = [(''m'', PDict [(''parameters'', PDict [(''size'', PFloat (Fin 3))])])], broken = []\<rparr>"

abbreviation sample_get :: "unit interface_store \<Rightarrow> string \<Rightarrow> exn + unit interface_store \<times> unit interface option" where
  "sample_get st name \<equiv>
     get_interface sample_project (coerce_parameter_value sample_repr sample_number sample_number) [] st name []"

theorem one_interface_per_name_witness:
  "\<exists>st i. sample_get sample_store ''m;size=4'' = Inr (st, Some i) \<and> if_name i = ''//p:m;size=4''
        \<and> sample_get st ''m;size=4.0'' = Inr (st, Some i)"
proof -
  let ?c = "coerce_parameter_value sample_repr sample_number sample_number"
  let ?st = "\<lparr>built = [(''m;size=4'', (blank_interface ''//p:m;size=4''))],
    declared_interfaces = [(''m'', PDict [(''parameters'', PDict [(''size'', PDict [(''type'', PStr ''float''), (''default'', PFloat (Fin 3))])]),
      (''name'', PStr ''m''), (''orig_name'', PStr ''m'')])], broken = []\<rparr> :: unit interface_store"
  have g: "sample_get sample_store ''m;size=4'' = Inr (?st, Some (blank_interface ''//p:m;size=4''))"
    by code_simp
  have r: "canonical_reference sample_project ?c sample_store ''m;size=4'' [] = Inr (''m'', [(''size'', PStr ''4'')], ''m;size=4'')"
    by code_simp
  have r': "canonical_reference sample_project ?c ?st ''m;size=4.0'' [] = Inr (''m'', [(''size'', PStr ''4'')], ''m;size=4'')"
    by code_simp
  have "store_ok sample_project sample_store" by (simp add: store_ok_def sample_store_def)
  from one_interface_per_name [OF this g r r'] g show ?thesis by (auto simp: blank_interface_def)
qed

text \<open>
  the name an inherited interface is recorded under is not canonical in its values: a reference that
  writes \<open>4.0\<close> finds the interface \<open>m;size=4\<close> and records it as \<open>m;size=4.0\<close>.
\<close>

theorem inherit_name_keeps_spelling:
  "inherit_name (e_id sample_project) ''m;size=4.0'' = Inr (''//p'', ''m;size=4.0'')
   \<and> canonical_reference sample_project (coerce_parameter_value sample_repr sample_number sample_number) sample_store
       ''m;size=4.0'' [] = Inr (''m'', [(''size'', PStr ''4'')], ''m;size=4'')"
proof -
  have "inherit_name (e_id sample_project) ''m;size=4.0'' = Inr (''//p'', ''m;size=4.0'')" by code_simp
  moreover have "canonical_reference sample_project (coerce_parameter_value sample_repr sample_number sample_number) sample_store
       ''m;size=4.0'' [] = Inr (''m'', [(''size'', PStr ''4'')], ''m;size=4'')" by code_simp
  ultimately show ?thesis by blast
qed

end
