(* ===== verification/Walks.thy ===== *)
theory Walks
  imports Prelude
begin

text \<open>
  The shape of the walks over a hierarchy that the sources write as a recursion with a shared set of
  nodes already seen: the order of the walk, and that it reaches exactly what is reachable. The nodes
  of a hierarchy are the finitely many objects there are.
\<close>

function walk :: "('a \<Rightarrow> 'a list) \<Rightarrow> 'a list \<Rightarrow> 'a list \<Rightarrow> 'a list \<Rightarrow> 'a list" where
  "walk succ nodes [] seen = seen"
| "walk succ nodes (x # xs) seen =
     (if x \<in> set seen \<or> x \<notin> set nodes then walk succ nodes xs seen
      else walk succ nodes xs (walk succ nodes (succ x) (x # seen)))"
  by pat_completeness auto

lemma walk_keeps: "walk_dom (succ, nodes, xs, seen) \<Longrightarrow> set seen \<subseteq> set (walk succ nodes xs seen)"
  by (induction succ nodes xs seen rule: walk.pinduct) (auto simp: walk.psimps)

termination walk
proof (relation "inv_image (finite_psubset <*lex*> less_than) (\<lambda>(succ, nodes, xs, seen). (set nodes - set seen, length xs))")
  fix succ :: "'a \<Rightarrow> 'a list" and nodes x xs seen
  assume new: "\<not> (x \<in> set seen \<or> x \<notin> set nodes)" and d: "walk_dom (succ, nodes, succ x, x # seen)"
  have "set (x # seen) \<subseteq> set (walk succ nodes (succ x) (x # seen))" using walk_keeps [OF d] .
  then have "set nodes - set (walk succ nodes (succ x) (x # seen)) \<subset> set nodes - set seen" using new by auto
  then show "((succ, nodes, xs, walk succ nodes (succ x) (x # seen)), (succ, nodes, x # xs, seen))
      \<in> inv_image (finite_psubset <*lex*> less_than) (\<lambda>(succ, nodes, xs, seen). (set nodes - set seen, length xs))"
    by (simp add: finite_psubset_def)
qed (auto simp: finite_psubset_def intro: wf_finite_psubset [unfolded finite_psubset_def])

text \<open>The nodes a walk may step to.\<close>

definition steps :: "('a \<Rightarrow> 'a list) \<Rightarrow> 'a list \<Rightarrow> ('a \<times> 'a) set" where
  "steps succ nodes = {(x, y). x \<in> set nodes \<and> y \<in> set (succ x) \<and> y \<in> set nodes}"

lemma walk_seen: "set seen \<subseteq> set (walk succ nodes xs seen)"
  by (induction succ nodes xs seen rule: walk.induct) auto

lemma walk_starts: "set xs \<inter> set nodes \<subseteq> set (walk succ nodes xs seen)"
proof (induction succ nodes xs seen rule: walk.induct)
  case (2 succ nodes x xs seen)
  have "x \<in> set (walk succ nodes (x # xs) seen)" if "x \<in> set nodes"
    using that walk_seen [of seen succ nodes xs] walk_seen [of "x # seen" succ nodes "succ x"]
      walk_seen [of "walk succ nodes (succ x) (x # seen)" succ nodes xs] by auto
  then show ?case using 2 by auto
qed simp

lemma walk_closed:
  "z \<in> set (walk succ nodes xs seen) - set seen \<Longrightarrow> set (succ z) \<inter> set nodes \<subseteq> set (walk succ nodes xs seen)"
proof (induction succ nodes xs seen rule: walk.induct)
  case (2 succ nodes x xs seen)
  show ?case
  proof (cases "x \<in> set seen \<or> x \<notin> set nodes")
    case False
    let ?w = "walk succ nodes (succ x) (x # seen)"
    have w: "walk succ nodes (x # xs) seen = walk succ nodes xs ?w" using False by simp
    have sub: "set ?w \<subseteq> set (walk succ nodes xs ?w)" by (rule walk_seen)
    show ?thesis
    proof (cases "z \<in> set ?w")
      case True
      consider "z = x" | "z \<in> set ?w - set (x # seen)" using True 2(4) by auto
      then have "set (succ z) \<inter> set nodes \<subseteq> set ?w"
        by cases (use walk_starts [of "succ x" nodes succ "x # seen"] 2(2) [OF False] in auto)
      then show ?thesis using sub w by auto
    next
      case outside: False
      then have "z \<in> set (walk succ nodes xs ?w) - set ?w" using 2(4) w by simp
      from 2(3) [OF False this] show ?thesis by (simp only: w)
    qed
  qed (use 2 in auto)
qed simp

lemma walk_reaches:
  "z \<in> set (walk succ nodes xs seen) - set seen \<Longrightarrow> \<exists>x \<in> set xs \<inter> set nodes. (x, z) \<in> (steps succ nodes)\<^sup>*"
proof (induction succ nodes xs seen rule: walk.induct)
  case (2 succ nodes x xs seen)
  show ?case
  proof (cases "x \<in> set seen \<or> x \<notin> set nodes")
    case False
    let ?w = "walk succ nodes (succ x) (x # seen)"
    consider "z = x" | "z \<in> set ?w - set (x # seen)" | "z \<in> set (walk succ nodes xs ?w) - set ?w"
      using 2(4) False by auto
    then show ?thesis
    proof cases
      case 2
      from "2.IH"(2) [OF False this] obtain y where y: "y \<in> set (succ x) \<inter> set nodes" "(y, z) \<in> (steps succ nodes)\<^sup>*" by blast
      then have "(x, y) \<in> steps succ nodes" using False by (auto simp: steps_def)
      with y(2) have "(x, z) \<in> (steps succ nodes)\<^sup>*" by (rule converse_rtrancl_into_rtrancl [rotated])
      then show ?thesis using False by auto
    qed (use 2 False in auto)
  qed (use 2 in auto)
qed simp

theorem walk_reachable:
  "set (walk succ nodes xs []) = {z. \<exists>x \<in> set xs \<inter> set nodes. (x, z) \<in> (steps succ nodes)\<^sup>*}"
proof (intro equalityI subsetI)
  fix z
  assume "z \<in> {z. \<exists>x \<in> set xs \<inter> set nodes. (x, z) \<in> (steps succ nodes)\<^sup>*}"
  then obtain x where x: "x \<in> set xs \<inter> set nodes" "(x, z) \<in> (steps succ nodes)\<^sup>*" by blast
  from x(2,1) show "z \<in> set (walk succ nodes xs [])"
  proof (induction rule: rtrancl_induct)
    case base
    then show ?case using walk_starts [of xs nodes succ "[]"] by auto
  next
    case (step y z)
    then show ?case using walk_closed [of y succ nodes xs "[]"] by (auto simp: steps_def)
  qed
qed (use walk_reaches in fastforce)

end
