(* ===== verification/Matings.thy ===== *)
theory Matings
  imports Interfaces Walks
begin

text \<open>
  What interfaces are to each other: the hierarchy they inherit in (\<open>partcad/interface.py\<close>), the matings between
  them (\<open>partcad/mating.py\<close>, \<open>Interface.add_mates\<close>, \<open>Context.add_mate\<close>), the interfaces two shapes can be
  connected through (\<open>Context.find_mating_interfaces\<close>) and the interfaces a shape carries with the ports of
  each (\<open>partcad/port.py\<close>). The instantiated interfaces of a context are a list under their full names.
\<close>

type_synonym 'sk hierarchy = "(string \<times> 'sk interface) list"

section \<open>What an interface is compatible with\<close>

definition compatible_parents :: "'sk interface \<Rightarrow> string list" where
  "compatible_parents i = List.map_filter (\<lambda>n. map_option in_target (map_of (if_inherits i) n)) (if_compatible i)"

definition parents :: "'sk interface \<Rightarrow> string list" where
  "parents i = map (in_target \<circ> snd) (if_inherits i)"

definition successors :: "('sk interface \<Rightarrow> string list) \<Rightarrow> 'sk hierarchy \<Rightarrow> string \<Rightarrow> string list" where
  "successors f h x = (case map_of h x of None \<Rightarrow> [] | Some i \<Rightarrow> f i)"

lemma in_hierarchy: "map_of h x = Some i \<Longrightarrow> x \<in> fst ` set h"
  by (metis map_of_eq_None_iff option.distinct(1))

lemma fewer_unseen:
  "x \<in> fst ` set h \<Longrightarrow> x \<notin> set seen \<Longrightarrow> set (x # seen) \<subseteq> set seen' \<Longrightarrow>
     (fst ` set h - set seen', fst ` set h - set seen) \<in> finite_psubset"
  by (auto simp: finite_psubset_def)

text \<open>
  \<open>_compatible_closure\<close>: the names an interface states itself and those of its compatible parents, one
  parent after another, with one set of interfaces already asked.
\<close>

function closures :: "'sk hierarchy \<Rightarrow> string list \<Rightarrow> string list \<Rightarrow> string set \<times> string list" where
  "closures h [] seen = ({}, seen)"
| "closures h (x # xs) seen =
     (case map_of h x of
        None \<Rightarrow> closures h xs seen
      | Some i \<Rightarrow>
          if x \<in> set seen then closures h xs seen
          else (case closures h (compatible_parents i) (x # seen) of
                  (c, seen1) \<Rightarrow> (case closures h xs seen1 of
                     (c', seen2) \<Rightarrow> (set (if_compatible i) \<union> c \<union> c', seen2))))"
  by pat_completeness auto

lemma closures_keep: "closures_dom (h, xs, seen) \<Longrightarrow> set seen \<subseteq> set (snd (closures h xs seen))"
proof (induction h xs seen rule: closures.pinduct)
  case (2 h x xs seen)
  show ?case
  proof (cases "map_of h x = None \<or> x \<in> set seen")
    case True
    then show ?thesis using 2 by (auto simp: closures.psimps split: option.splits)
  next
    case False
    then obtain i where i: "map_of h x = Some i" "x \<notin> set seen" by auto
    obtain c s where c: "closures h (compatible_parents i) (x # seen) = (c, s)" by force
    obtain c' s' where c': "closures h xs s = (c', s')" by force
    have "set (x # seen) \<subseteq> set s" using "2.IH"(3) [OF i] by (simp add: c)
    moreover have "set s \<subseteq> set s'" using "2.IH"(4) [OF i c [symmetric]] by (simp add: c')
    ultimately show ?thesis using 2(1) i by (auto simp: closures.psimps c c')
  qed
qed (simp add: closures.psimps)

termination closures
proof (relation "inv_image (finite_psubset <*lex*> less_than) (\<lambda>(h, xs, seen). (fst ` set h - set seen, length xs))", goal_cases)
  case (4 h x xs seen i)
  then show ?case by (auto dest: in_hierarchy simp: finite_psubset_def)
next
  case (5 h x xs seen i c s)
  have "set (x # seen) \<subseteq> set s" using closures_keep [OF 5(4)] 5(3) by (metis snd_conv)
  then show ?case using fewer_unseen [OF in_hierarchy [OF 5(1)] 5(2)] by simp
qed (auto intro: wf_finite_psubset)

definition compatible_with :: "'sk hierarchy \<Rightarrow> string \<Rightarrow> string set" where
  "compatible_with h x = fst (closures h [x] [])"

section \<open>What an interface inherits\<close>

text \<open>
  \<open>_inherited\<close>: what the interface states itself or else the first of its parents to answer; \<open>attr\<close> is
  \<open>None\<close> where a stored value means that nothing was declared.
\<close>

function inherited_values ::
  "('sk interface \<Rightarrow> 'v option) \<Rightarrow> 'sk hierarchy \<Rightarrow> string list \<Rightarrow> string list \<Rightarrow> 'v option \<times> string list" where
  "inherited_values attr h [] seen = (None, seen)"
| "inherited_values attr h (x # xs) seen =
     (case map_of h x of
        None \<Rightarrow> inherited_values attr h xs seen
      | Some i \<Rightarrow>
          (case attr i of
             Some v \<Rightarrow> (Some v, seen)
           | None \<Rightarrow>
               if x \<in> set seen then inherited_values attr h xs seen
               else (case inherited_values attr h (parents i) (x # seen) of
                       (Some v, seen1) \<Rightarrow> (Some v, seen1)
                     | (None, seen1) \<Rightarrow> inherited_values attr h xs seen1)))"
  by pat_completeness auto

lemma inherited_keep: "inherited_values_dom (attr, h, xs, seen) \<Longrightarrow> set seen \<subseteq> set (snd (inherited_values attr h xs seen))"
proof (induction attr h xs seen rule: inherited_values.pinduct)
  case (2 attr h x xs seen)
  show ?case
  proof (cases "map_of h x")
    case None
    then show ?thesis using 2(1,2) by (simp add: inherited_values.psimps)
  next
    case (Some i)
    show ?thesis
    proof (cases "attr i \<noteq> None \<or> x \<in> set seen")
      case True
      then show ?thesis using 2(1,3) Some by (auto simp: inherited_values.psimps split: option.splits)
    next
      case False
      obtain v s where p: "inherited_values attr h (parents i) (x # seen) = (v, s)" by force
      have "set (x # seen) \<subseteq> set s" using "2.IH"(3) [OF Some] False by (simp add: p)
      moreover have "set s \<subseteq> set (snd (inherited_values attr h xs s))" if "v = None"
        using "2.IH"(4) [OF Some] False that p by auto
      ultimately show ?thesis using 2(1) Some False by (cases v) (auto simp: inherited_values.psimps p)
    qed
  qed
qed (simp add: inherited_values.psimps)

termination inherited_values
proof (relation "inv_image (finite_psubset <*lex*> less_than)
      (\<lambda>(attr, h, xs, seen). (fst ` set h - set seen, length xs))", goal_cases)
  case (4 attr h x xs seen i)
  then show ?case by (auto dest: in_hierarchy simp: finite_psubset_def)
next
  case (5 attr h x xs seen i v s)
  have "set (x # seen) \<subseteq> set s" using inherited_keep [OF 5(6)] 5(4) by (metis snd_conv)
  then show ?case using fewer_unseen [OF in_hierarchy [OF 5(1)] 5(3)] by simp
qed (auto intro: wf_finite_psubset)

text \<open>A stored zero or false counts as silence for an attribute that keeps no difference.\<close>

definition stated_thread_step :: "'sk interface \<Rightarrow> pyfloat option" where
  "stated_thread_step i = (if if_thread_step i = Some (Fin 0) then None else if_thread_step i)"

definition stated_self_screw :: "'sk interface \<Rightarrow> bool option" where
  "stated_self_screw i = (if if_self_screw i then Some True else None)"

definition get_thread_step :: "'sk hierarchy \<Rightarrow> string \<Rightarrow> pyfloat option" where
  "get_thread_step h x =
     (case fst (inherited_values stated_thread_step h [x] []) of
        Some v \<Rightarrow> Some v | None \<Rightarrow> (case map_of h x of None \<Rightarrow> None | Some i \<Rightarrow> if_thread_step i))"

definition get_self_screw :: "'sk hierarchy \<Rightarrow> string \<Rightarrow> bool" where
  "get_self_screw h x = (fst (inherited_values stated_self_screw h [x] []) = Some True)"

definition get_multi_connect :: "'sk hierarchy \<Rightarrow> string \<Rightarrow> bool" where
  "get_multi_connect h x = (fst (inherited_values if_multi_connect h [x] []) = Some True)"

section \<open>The walks reach what is reachable\<close>

lemma in_successors: "n \<in> set (successors f h y) \<longleftrightarrow> (\<exists>i. map_of h y = Some i \<and> n \<in> set (f i))"
  by (cases "map_of h y") (auto simp: successors_def)

abbreviation ancestors :: "'sk hierarchy \<Rightarrow> ('sk interface \<Rightarrow> string list) \<Rightarrow> (string \<times> string) set" where
  "ancestors h f \<equiv> (steps (successors f h) (map fst h))\<^sup>*"

lemma walk_unknown:
  "map_of h x = None \<Longrightarrow> walk (successors f h) (map fst h) (x # xs) seen = walk (successors f h) (map fst h) xs seen"
  by (auto simp: map_of_eq_None_iff)

lemma walk_known:
  "map_of h x = Some i \<Longrightarrow> x \<notin> set seen \<Longrightarrow>
     walk (successors f h) (map fst h) (x # xs) seen
     = walk (successors f h) (map fst h) xs (walk (successors f h) (map fst h) (f i) (x # seen))"
  by (auto simp: successors_def dest: in_hierarchy)

lemma closures_walk:
  "snd (closures h xs seen) = walk (successors compatible_parents h) (map fst h) xs seen
   \<and> fst (closures h xs seen) =
       (\<Union>y \<in> set (walk (successors compatible_parents h) (map fst h) xs seen) - set seen. set (successors if_compatible h y))"
proof (induction h xs seen rule: closures.induct)
  case (2 h x xs seen)
  let ?w = "walk (successors compatible_parents h) (map fst h)"
  show ?case
  proof (cases "map_of h x")
    case None
    then show ?thesis using 2(1) by (simp add: walk_unknown del: walk.simps)
  next
    case (Some i)
    show ?thesis
    proof (cases "x \<in> set seen")
      case True
      then show ?thesis using 2(2) [OF Some] Some by simp
    next
      case False
      obtain c s where c: "closures h (compatible_parents i) (x # seen) = (c, s)" by force
      obtain c' s' where c': "closures h xs s = (c', s')" by force
      have s: "s = ?w (compatible_parents i) (x # seen)" "c = (\<Union>y \<in> set s - set (x # seen). set (successors if_compatible h y))"
        using 2(3) [OF Some False] by (simp_all add: c)
      have s': "s' = ?w xs s" "c' = (\<Union>y \<in> set s' - set s. set (successors if_compatible h y))"
        using 2(4) [OF Some False c [symmetric]] by (simp_all add: c')
      have sub: "set (x # seen) \<subseteq> set s" "set s \<subseteq> set s'" using s(1) s'(1) by (metis walk_seen)+
      have own: "set (if_compatible i) = set (successors if_compatible h x)" using Some by (simp add: successors_def)
      have "fst (closures h (x # xs) seen) = (\<Union>y \<in> set s' - set seen. set (successors if_compatible h y))"
        using sub False own by (auto simp: Some c c' s(2) s'(2))
      moreover have "?w (x # xs) seen = s'" using Some False by (simp add: walk_known s s' del: walk.simps)
      ultimately show ?thesis using Some False by (simp add: c c' del: walk.simps)
    qed
  qed
qed simp

text \<open>C14: 
  an interface is a drop-in for exactly the interfaces that it, or an interface it is transitively a
  drop-in for, states compatibility with, however the hierarchy is shaped: parents reached twice, a
  cycle included, change nothing and the walk ends.
\<close>

theorem compatible_is_transitive:
  assumes "x \<in> fst ` set h"
  shows "compatible_with h x =
    {n. \<exists>y i. (x, y) \<in> ancestors h compatible_parents \<and> map_of h y = Some i \<and> n \<in> set (if_compatible i)}"
proof -
  have "compatible_with h x =
      (\<Union>y \<in> {z. (x, z) \<in> ancestors h compatible_parents}. set (successors if_compatible h y))"
    using assms by (simp add: compatible_with_def closures_walk walk_reachable del: closures.simps walk.simps)
  also have "\<dots> = {n. \<exists>y i. (x, y) \<in> ancestors h compatible_parents \<and> map_of h y = Some i \<and> n \<in> set (if_compatible i)}"
    by (auto simp: in_successors)
  finally show ?thesis .
qed

theorem compatible_is_transitive_witness:
  "compatible_with
     [(''p:a'', (blank_interface ''p:a'')\<lparr>if_compatible := [''p:b''],
         if_inherits := [(''p:b'', \<lparr>in_name = ''p:b'', in_target = ''p:b'', in_instances = [], in_sketches = []\<rparr>)]\<rparr>),
      (''p:b'', (blank_interface ''p:b'')\<lparr>if_compatible := [''p:c'']\<rparr>)] ''p:a'' = {''p:b'', ''p:c''}"
     (is "compatible_with ?h _ = ?r")
proof -
  let ?A = "ancestors ?h compatible_parents"
  have edge: "(''p:a'', ''p:b'') \<in> steps (successors compatible_parents ?h) (map fst ?h)"
    by (simp add: steps_def successors_def compatible_parents_def List.map_filter_simps)
  have only: "y \<in> {''p:a'', ''p:b''}" if "(''p:a'', y) \<in> ?A" for y
    using that by (induction rule: rtrancl_induct) (auto simp: steps_def)
  have "compatible_with ?h ''p:a'' = {n. \<exists>y i. (''p:a'', y) \<in> ?A \<and> map_of ?h y = Some i \<and> n \<in> set (if_compatible i)}"
    by (rule compatible_is_transitive) simp
  also have "\<dots> = ?r"
  proof (intro equalityI subsetI)
    fix n
    assume "n \<in> {n. \<exists>y i. (''p:a'', y) \<in> ?A \<and> map_of ?h y = Some i \<and> n \<in> set (if_compatible i)}"
    then show "n \<in> ?r" using only by (auto split: if_splits)
  next
    fix n
    assume "n \<in> ?r"
    then show "n \<in> {n. \<exists>y i. (''p:a'', y) \<in> ?A \<and> map_of ?h y = Some i \<and> n \<in> set (if_compatible i)}"
      using r_into_rtrancl [OF edge] by (auto intro: exI [of _ "''p:a''"] exI [of _ "''p:b''"])
  qed
  finally show ?thesis .
qed

lemma inherited_walk:
  assumes "inherited_values attr h xs seen = (r, s)"
  shows "(\<forall>v. r = Some v \<longrightarrow>
            (\<exists>x y i. x \<in> set xs \<and> (x, y) \<in> ancestors h parents \<and> map_of h y = Some i \<and> attr i = Some v))
       \<and> (r = None \<longrightarrow> s = walk (successors parents h) (map fst h) xs seen
            \<and> (\<forall>y i. y \<in> set s - set seen \<longrightarrow> map_of h y = Some i \<longrightarrow> attr i = None))"
  using assms
proof (induction attr h xs seen arbitrary: r s rule: inherited_values.induct)
  case (2 attr h x xs seen)
  let ?w = "walk (successors parents h) (map fst h)"
  show ?case
  proof (cases "map_of h x")
    case None
    then have "inherited_values attr h xs seen = (r, s)" using 2(5) by simp
    note IH = "2.IH"(1) [OF None this]
    have w: "?w (x # xs) seen = ?w xs seen" using None by (simp only: walk_unknown)
    show ?thesis using IH unfolding w by fastforce
  next
    case (Some i)
    show ?thesis
    proof (cases "attr i")
      case (Some v)
      then have "r = Some v" using 2(5) \<open>map_of h x = Some i\<close> by simp
      then show ?thesis using Some \<open>map_of h x = Some i\<close> by (auto intro: exI [of _ x])
    next
      case none: None
      show ?thesis
      proof (cases "x \<in> set seen")
        case True
        then have r: "inherited_values attr h xs seen = (r, s)" using 2(5) Some none by simp
        have w: "?w (x # xs) seen = ?w xs seen" using True by simp
        show ?thesis using "2.IH"(2) [OF Some none True r] unfolding w by fastforce
      next
        case False
        obtain v s1 where p: "inherited_values attr h (parents i) (x # seen) = (v, s1)" by force
        note IH = "2.IH"(3) [OF Some none False p]
        show ?thesis
        proof (cases v)
          case v: (Some u)
          then have r: "r = Some u" using 2(5) Some none False p by simp
          obtain z y j where z: "z \<in> set (parents i)" "(z, y) \<in> ancestors h parents" "map_of h y = Some j" "attr j = Some u"
            using IH v by blast
          have "z \<in> fst ` set h"
            using z(2,3) by (cases rule: converse_rtranclE) (auto simp: steps_def dest: in_hierarchy)
          then have "(x, z) \<in> steps (successors parents h) (map fst h)"
            using z(1) Some by (auto simp: steps_def successors_def dest: in_hierarchy)
          then have "(x, y) \<in> ancestors h parents" using z(2) by (rule converse_rtrancl_into_rtrancl)
          then show ?thesis using r z(3,4) by auto
        next
          case v: None
          then have rest: "inherited_values attr h xs s1 = (r, s)" using 2(5) Some none False p by simp
          note IH' = "2.IH"(4) [OF Some none False p [symmetric] v rest]
          have s1: "s1 = ?w (parents i) (x # seen)" using IH v by simp
          have w: "?w (x # xs) seen = ?w xs s1" using Some False s1 by (simp add: walk_known del: walk.simps)
          have old: "attr j = None" if "y \<in> set s1 - set seen" "map_of h y = Some j" for y j
            using IH v that Some none by (cases "y = x") auto
          show ?thesis
          proof (intro conjI impI allI)
            fix u
            assume "r = Some u"
            then show "\<exists>z y j. z \<in> set (x # xs) \<and> (z, y) \<in> ancestors h parents \<and> map_of h y = Some j \<and> attr j = Some u"
              using IH' by (metis list.set_intros(2))
          next
            assume "r = None"
            then show "s = ?w (x # xs) seen" using IH' w by simp
          next
            fix y j
            assume "r = None" "y \<in> set s - set seen" "map_of h y = Some j"
            then show "attr j = None" using IH' old by blast
          qed
        qed
      qed
    qed
  qed
qed simp

text \<open>
  what an interface answers for an inherited attribute is what it or one of its ancestors states, and it
  answers nothing only when none of them states anything.
\<close>

theorem inherited_from_an_ancestor:
  assumes "x \<in> fst ` set h"
  shows "(\<forall>v. fst (inherited_values attr h [x] []) = Some v \<longrightarrow>
            (\<exists>y i. (x, y) \<in> ancestors h parents \<and> map_of h y = Some i \<and> attr i = Some v))
       \<and> (fst (inherited_values attr h [x] []) = None \<longleftrightarrow>
            (\<forall>y i. (x, y) \<in> ancestors h parents \<longrightarrow> map_of h y = Some i \<longrightarrow> attr i = None))"
proof -
  obtain r s where p: "inherited_values attr h [x] [] = (r, s)" by force
  have none: "attr i = None" if "r = None" "(x, y) \<in> ancestors h parents" "map_of h y = Some i" for y i
  proof -
    have "y \<in> set (walk (successors parents h) (map fst h) [x] [])"
      unfolding walk_reachable using that(2) assms by auto
    then show ?thesis using inherited_walk [OF p] that(1,3) by auto
  qed
  have f: "fst (inherited_values attr h [x] []) = r" by (simp only: p fst_conv)
  have some: "\<exists>y i. (x, y) \<in> ancestors h parents \<and> map_of h y = Some i \<and> attr i = Some v" if "r = Some v" for v
    using inherited_walk [OF p] that by auto
  show ?thesis unfolding f using some none by (metis option.exhaust option.distinct(1))
qed

theorem inherited_from_an_ancestor_witness:
  "get_thread_step
     ([(''p:a'', (blank_interface ''p:a'')\<lparr>if_thread_step := Some (Fin 0),
         if_inherits := [(''p:b'', \<lparr>in_name = ''p:b'', in_target = ''p:b'', in_instances = [], in_sketches = []\<rparr>)]\<rparr>),
      (''p:b'', (blank_interface ''p:b'')\<lparr>if_thread_step := Some (Fin (1 / 2))\<rparr>)] :: unit hierarchy) ''p:a'' = Some (Fin (1 / 2))
   \<and> (\<exists>y i. map_of
     ([(''p:a'', (blank_interface ''p:a'')\<lparr>if_thread_step := Some (Fin 0),
         if_inherits := [(''p:b'', \<lparr>in_name = ''p:b'', in_target = ''p:b'', in_instances = [], in_sketches = []\<rparr>)]\<rparr>),
      (''p:b'', (blank_interface ''p:b'')\<lparr>if_thread_step := Some (Fin (1 / 2))\<rparr>)] :: unit hierarchy) y = Some i
      \<and> stated_thread_step i = Some (Fin (1 / 2)))" (is "get_thread_step ?h _ = _ \<and> ?e")
proof -
  have v: "fst (inherited_values stated_thread_step ?h [''p:a''] []) = Some (Fin (1 / 2))"
    by (simp add: stated_thread_step_def parents_def)
  have m: "''p:a'' \<in> fst ` set ?h" by simp
  have ?e using conjunct1 [OF inherited_from_an_ancestor [OF m, of stated_thread_step], rule_format, OF v] by blast
  then show ?thesis unfolding get_thread_step_def v option.case by blast
qed

text \<open>
  a thread step of zero is not believed: an interface that declares one and inherits another answers
  with the inherited step.
\<close>

theorem zero_thread_step_overridden:
  assumes "map_of h x = Some i" and "if_thread_step i = Some (Fin 0)" and "parents i = [y]" and "y \<noteq> x"
    and "map_of h y = Some j" and "if_thread_step j = Some (Fin s)" and "s \<noteq> 0"
  shows "get_thread_step h x = Some (Fin s)"
  using assms by (simp add: get_thread_step_def stated_thread_step_def)

theorem zero_thread_step_overridden_witness:
  "get_thread_step
     ([(''p:a'', (blank_interface ''p:a'')\<lparr>if_thread_step := Some (Fin 0),
         if_inherits := [(''p:b'', \<lparr>in_name = ''p:b'', in_target = ''p:b'', in_instances = [], in_sketches = []\<rparr>)]\<rparr>),
      (''p:b'', (blank_interface ''p:b'')\<lparr>if_thread_step := Some (Fin 2)\<rparr>)] :: unit hierarchy) ''p:a'' = Some (Fin 2)"
  by (rule zero_thread_step_overridden [where y = "''p:b''"]) (simp add: parents_def)+

section \<open>Matings\<close>

text \<open>
  \<open>Mating.__init__\<close>. A selector is \<open>None\<close> where the attribute is never assigned, and \<open>Some PNone\<close> where
  it is assigned no value.
\<close>

record mating =
  mt_desc :: pyval
  mt_self_screw :: bool
  mt_snap_in :: bool
  mt_source_selector :: "pyval option"
  mt_target_selector :: "pyval option"

definition mating_config :: "pyval \<Rightarrow> exn + pydict" where
  "mating_config config =
     (case config of
        PNone \<Rightarrow> Inr []
      | PStr s \<Rightarrow> Inr [(s, PNone)]
      | PList xs \<Rightarrow>
          if list_all is_str xs then Inr (dict_update [] (map (\<lambda>x. (case x of PStr s \<Rightarrow> s | _ \<Rightarrow> [], PNone)) xs))
          else Inl TypeError
      | PDict d \<Rightarrow> Inr d
      | _ \<Rightarrow> Inl ValueError)"

definition new_mating :: "pyval \<Rightarrow> bool \<Rightarrow> exn + mating" where
  "new_mating config reverse =
     map_sum id (\<lambda>d.
       let s = map_of d ''sourcePortSelector''; t = map_of d ''targetPortSelector'';
           source = (if s \<noteq> None then (if reverse then None else s) else Some PNone);
           target = (if s \<noteq> None \<and> reverse then s else None)
       in \<lparr>mt_desc = get_default d ''desc'' (PStr []),
           mt_self_screw = truthy (get_default d ''selfScrew'' (PBool False)),
           mt_snap_in = truthy (get_default d ''snapIn'' (PBool False)),
           mt_source_selector = (if t \<noteq> None \<and> reverse then t else source),
           mt_target_selector = (if t \<noteq> None then (if reverse then target else t) else Some PNone)\<rparr>)
     (mating_config config)"

type_synonym mates = "(string \<times> (string \<times> mating) list) list"

definition mates_of :: "mates \<Rightarrow> string \<Rightarrow> (string \<times> mating) list" where
  "mates_of m s = (case map_of m s of None \<Rightarrow> [] | Some row \<Rightarrow> row)"

definition get_mate :: "mates \<Rightarrow> string \<Rightarrow> string \<Rightarrow> mating option" where
  "get_mate m s t = map_of (mates_of m s) t"

definition add_mate_row :: "mates \<Rightarrow> string \<Rightarrow> string \<Rightarrow> pyval \<Rightarrow> bool \<Rightarrow> exn + mates" where
  "add_mate_row m s t config reverse =
     (if dict_has (mates_of m s) t then Inr m
      else map_sum id (\<lambda>mt. AList.update s (AList.update t mt (mates_of m s)) m) (new_mating config reverse))"

definition add_mate :: "mates \<Rightarrow> string \<Rightarrow> string \<Rightarrow> pyval \<Rightarrow> exn + mates" where
  "add_mate m s t config =
     (case add_mate_row m s t config False of
        Inl e \<Rightarrow> Inl e
      | Inr m \<Rightarrow> if t \<noteq> s then add_mate_row m t s config True else Inr m)"

text \<open>A target that is not there or is abstract is reported and passed over.\<close>

fun add_mates ::
  "package_id \<Rightarrow> (string \<Rightarrow> string \<Rightarrow> 'sk interface option) \<Rightarrow> string \<Rightarrow> (string \<times> pyval) list \<Rightarrow> mates \<Rightarrow> exn + mates" where
  "add_mates p interface_at self [] m = Inr m"
| "add_mates p interface_at self ((name, config) # rest) m =
     (case project_resolve p (if CHR '':'' \<in> set name then name else package_name p @ '':'' @ name) of
        Inl e \<Rightarrow> Inl e
      | Inr (pkg, nm) \<Rightarrow>
          (case interface_at pkg nm of
             None \<Rightarrow> add_mates p interface_at self rest m
           | Some target \<Rightarrow>
               if if_abstract target then add_mates p interface_at self rest m
               else (case add_mate m self (if_name target) config of
                       Inl e \<Rightarrow> Inl e
                     | Inr m \<Rightarrow> add_mates p interface_at self rest m)))"

section \<open>The interfaces two shapes mate through\<close>

text \<open>
  \<open>real\<close> leads from a compatible interface to the interfaces of the shape that are compatible with it; a
  name without an entry would be a \<open>KeyError\<close>.
\<close>

definition with_compatible :: "(string \<Rightarrow> string set) \<Rightarrow> string set \<Rightarrow> string set" where
  "with_compatible drop_in ifs = ifs \<union> (\<Union>i \<in> ifs. drop_in i)"

definition real_interfaces :: "(string \<Rightarrow> string set) \<Rightarrow> string set \<Rightarrow> string \<Rightarrow> string set option" where
  "real_interfaces drop_in ifs c =
     (if c \<in> with_compatible drop_in ifs then Some {i \<in> ifs. i = c \<or> c \<in> drop_in i} else None)"

definition mates_set :: "mates \<Rightarrow> string set \<Rightarrow> string set" where
  "mates_set m ifs = (\<Union>i \<in> ifs. fst ` set (mates_of m i))"

definition real_candidates :: "(string \<Rightarrow> string set) \<Rightarrow> string set \<Rightarrow> string set \<Rightarrow> exn + string set" where
  "real_candidates drop_in ifs cands =
     (if \<exists>c \<in> cands. real_interfaces drop_in ifs c = None then Inl KeyError
      else Inr (\<Union>c \<in> cands. the (real_interfaces drop_in ifs c)))"

definition find_mating_interfaces ::
  "mates \<Rightarrow> (string \<Rightarrow> string set) \<Rightarrow> string set \<Rightarrow> string set \<Rightarrow> exn + (string set \<times> string set)" where
  "find_mating_interfaces m drop_in source target =
     (let sources = with_compatible drop_in source; targets = with_compatible drop_in target
      in case real_candidates drop_in source (sources \<inter> mates_set m targets) of
           Inl e \<Rightarrow> Inl e
         | Inr s \<Rightarrow> map_sum id (Pair s) (real_candidates drop_in target (targets \<inter> mates_set m sources)))"

subsection \<open>Matings go both ways\<close>

definition mated :: "mates \<Rightarrow> string \<Rightarrow> string \<Rightarrow> bool" where
  "mated m s t = (t \<in> fst ` set (mates_of m s))"

definition symmetric_mates :: "mates \<Rightarrow> bool" where
  "symmetric_mates m = (\<forall>s t. mated m s t \<longleftrightarrow> mated m t s)"

lemma mated_get: "mated m s t \<longleftrightarrow> get_mate m s t \<noteq> None"
  by (simp add: mated_def get_mate_def map_of_eq_None_iff)

lemma add_mate_row_mated:
  "add_mate_row m s t config reverse = Inr m' \<Longrightarrow> mated m' a b \<longleftrightarrow> mated m a b \<or> (a = s \<and> b = t)"
  by (cases "new_mating config reverse")
    (auto simp: add_mate_row_def mated_get get_mate_def mates_of_def split: if_splits option.splits)

lemma add_mate_mated:
  "add_mate m s t config = Inr m' \<Longrightarrow> mated m' a b \<longleftrightarrow> mated m a b \<or> (a = s \<and> b = t) \<or> (a = t \<and> b = s)"
  by (auto simp: add_mate_def add_mate_row_mated split: sum.splits if_splits)

text \<open>The matings of a context as they are declared, one after another in any order.\<close>

definition declare_mating :: "mates \<Rightarrow> mates \<Rightarrow> bool" where
  "declare_mating m m' = (\<exists>s t config. add_mate m s t config = Inr m')"

interpretation matings: step_system "\<lambda>m. m = []" declare_mating symmetric_mates
proof unfold_locales
  fix m :: mates
  assume "m = []"
  then show "symmetric_mates m" by (simp add: symmetric_mates_def mated_def mates_of_def)
next
  fix m m' :: mates
  assume "declare_mating m m'" and sym: "symmetric_mates m"
  then obtain s t config where "add_mate m s t config = Inr m'" by (auto simp: declare_mating_def)
  note step = add_mate_mated [OF this]
  show "symmetric_mates m'" using sym unfolding symmetric_mates_def step by blast
qed

lemma real_candidates_ok:
  "cands \<subseteq> with_compatible drop_in ifs \<Longrightarrow>
     real_candidates drop_in ifs cands = Inr {i \<in> ifs. \<exists>c \<in> cands. i = c \<or> c \<in> drop_in i}"
  by (fastforce simp: real_candidates_def real_interfaces_def)

lemma find_mating_sets:
  "find_mating_interfaces m drop_in source target =
     Inr ({i \<in> source. \<exists>c \<in> with_compatible drop_in source \<inter> mates_set m (with_compatible drop_in target). i = c \<or> c \<in> drop_in i},
          {i \<in> target. \<exists>c \<in> with_compatible drop_in target \<inter> mates_set m (with_compatible drop_in source). i = c \<or> c \<in> drop_in i})"
  by (simp add: find_mating_interfaces_def Let_def real_candidates_ok)

lemma candidate_iff:
  assumes "symmetric_mates m" and "i \<in> source"
  shows "(\<exists>c \<in> with_compatible drop_in source \<inter> mates_set m (with_compatible drop_in target). i = c \<or> c \<in> drop_in i)
     \<longleftrightarrow> (\<exists>c d j. (c = i \<or> c \<in> drop_in i) \<and> j \<in> target \<and> (d = j \<or> d \<in> drop_in j) \<and> mated m c d)"
proof -
  have "mates_set m (with_compatible drop_in target) = {c. \<exists>d j. j \<in> target \<and> (d = j \<or> d \<in> drop_in j) \<and> mated m d c}"
    by (auto simp: mates_set_def with_compatible_def mated_def)
  also have "\<dots> = {c. \<exists>d j. j \<in> target \<and> (d = j \<or> d \<in> drop_in j) \<and> mated m c d}"
    using assms(1) by (simp add: symmetric_mates_def)
  finally have other: "mates_set m (with_compatible drop_in target) = \<dots>" .
  have mem: "c \<in> with_compatible drop_in source" if "c = i \<or> c \<in> drop_in i" for c
    using that assms(2) by (auto simp: with_compatible_def)
  have "(\<exists>c \<in> with_compatible drop_in source \<inter> M. i = c \<or> c \<in> drop_in i) \<longleftrightarrow> (\<exists>c. (c = i \<or> c \<in> drop_in i) \<and> c \<in> M)" for M
    using mem by auto
  from this [of "{c. \<exists>d j. j \<in> target \<and> (d = j \<or> d \<in> drop_in j) \<and> mated m c d}"]
  show ?thesis unfolding other mem_Collect_eq by blast
qed

text \<open>C26: 
  the interfaces two shapes can be connected through: in any context reached by declaring matings, an
  interface of one shape is a candidate exactly when it, or something it is a drop-in for, mates with
  an interface of the other shape or something that one is a drop-in for; no lookup fails on the way.
\<close>

theorem mating_candidates:
  assumes "declare_mating\<^sup>*\<^sup>* [] m"
  shows "find_mating_interfaces m drop_in source target =
    Inr ({i \<in> source. \<exists>c d j. (c = i \<or> c \<in> drop_in i) \<and> j \<in> target \<and> (d = j \<or> d \<in> drop_in j) \<and> mated m c d},
         {j \<in> target. \<exists>c d i. (d = j \<or> d \<in> drop_in j) \<and> i \<in> source \<and> (c = i \<or> c \<in> drop_in i) \<and> mated m c d})"
proof -
  have sym: "symmetric_mates m" using matings.run_inv [OF assms] by simp
  have flip: "mated m d c \<longleftrightarrow> mated m c d" for c d using sym by (auto simp: symmetric_mates_def)
  have one: "{i \<in> A. \<exists>c \<in> with_compatible drop_in A \<inter> mates_set m (with_compatible drop_in B). i = c \<or> c \<in> drop_in i}
      = {i \<in> A. \<exists>c d j. (c = i \<or> c \<in> drop_in i) \<and> j \<in> B \<and> (d = j \<or> d \<in> drop_in j) \<and> mated m c d}" for A B
    by (intro Collect_cong conj_cong refl candidate_iff [OF sym])
  have two: "{i \<in> target. \<exists>c d j. (c = i \<or> c \<in> drop_in i) \<and> j \<in> source \<and> (d = j \<or> d \<in> drop_in j) \<and> mated m c d}
      = {j \<in> target. \<exists>c d i. (d = j \<or> d \<in> drop_in j) \<and> i \<in> source \<and> (c = i \<or> c \<in> drop_in i) \<and> mated m c d}"
    using flip by blast
  show ?thesis unfolding find_mating_sets one two ..
qed

theorem mating_candidates_witness:
  "\<exists>m. add_mate [] ''p:screw'' ''p:hole'' PNone = Inr m
     \<and> find_mating_interfaces m (\<lambda>n. if n = ''p:screw-12'' then {''p:screw''} else {}) {''p:screw-12''} {''p:hole''}
       = Inr ({''p:screw-12''}, {''p:hole''})"
proof -
  obtain m where m: "add_mate [] ''p:screw'' ''p:hole'' PNone = Inr m"
    by (simp add: add_mate_def add_mate_row_def new_mating_def mating_config_def mates_of_def)
  then have "declare_mating [] m" unfolding declare_mating_def by blast
  then have run: "declare_mating\<^sup>*\<^sup>* [] m" by blast
  have mt: "mated m ''p:screw'' ''p:hole''"
    using add_mate_mated [OF m, of "''p:screw''" "''p:hole''"] by simp
  let ?drop_in = "\<lambda>n. if n = ''p:screw-12'' then {''p:screw''} else {}"
  have s: "\<exists>c d j. (c = ''p:screw-12'' \<or> c \<in> ?drop_in ''p:screw-12'') \<and> j \<in> {''p:hole''} \<and> (d = j \<or> d \<in> ?drop_in j) \<and> mated m c d"
    by (rule exI [of _ "''p:screw''"], rule exI [of _ "''p:hole''"], rule exI [of _ "''p:hole''"]) (simp add: mt)
  have t: "\<exists>c d i. (d = ''p:hole'' \<or> d \<in> ?drop_in ''p:hole'') \<and> i \<in> {''p:screw-12''} \<and> (c = i \<or> c \<in> ?drop_in i) \<and> mated m c d"
    by (rule exI [of _ "''p:screw''"], rule exI [of _ "''p:hole''"], rule exI [of _ "''p:screw-12''"]) (simp add: mt)
  have one: "P x \<Longrightarrow> {i \<in> {x}. P i} = {x}" for P and x :: string by auto
  have "find_mating_interfaces m ?drop_in {''p:screw-12''} {''p:hole''} = Inr ({''p:screw-12''}, {''p:hole''})"
    unfolding mating_candidates [OF run]
    by (rule arg_cong2 [where f = "\<lambda>a b. Inr (a, b)"], rule one, rule s, rule one, rule t)
  then show ?thesis using m by blast
qed

end
