(* ===== verification/ShapePorts.thy ===== *)
theory ShapePorts
  imports Matings
begin

text \<open>
  The ports a shape offers: the interfaces it carries, instance by instance, with the port of the shape
  behind each of their ports (\<open>partcad/port.py\<close>), what is listed of them (\<open>partcad/shape_ports.py\<close>) and the
  ports an assembly externalizes of what it is made of (\<open>partcad/assembly_ports.py\<close>).
\<close>

section \<open>The interfaces of a shape\<close>

text \<open>Interface, then instance, then port of the interface, to the port of the shape.\<close>

type_synonym carried = "(string \<times> (string \<times> (string \<times> string) list) list) list"

definition join_names :: "string \<Rightarrow> string \<Rightarrow> string" where
  "join_names outer inner =
     (if inner \<noteq> [] \<and> outer \<noteq> [] then outer @ ''-'' @ inner else if inner \<noteq> [] then inner else outer)"

fun carry_ports :: "string \<Rightarrow> string \<Rightarrow> string list \<Rightarrow> carried \<Rightarrow> exn + carried" where
  "carry_ports iface inst [] c = Inr c"
| "carry_ports iface inst (port # rest) c =
     (case map_of c iface of
        None \<Rightarrow> Inl KeyError
      | Some insts \<Rightarrow>
          (case map_of insts inst of
             None \<Rightarrow> Inl KeyError
           | Some ps \<Rightarrow>
               carry_ports iface inst rest
                 (AList.update iface (AList.update inst (AList.update port (join_names inst port) ps) insts) c)))"

text \<open>
  The instances of one inherited interface. An entry for the instance is created when the name the
  declaration gives the instance is not there yet; \<open>descend\<close> goes on with what the interface inherits.
\<close>

definition open_instance :: "string \<Rightarrow> string \<Rightarrow> string \<Rightarrow> carried \<Rightarrow> carried" where
  "open_instance iface instance_name full c =
     (let insts = (case map_of c iface of None \<Rightarrow> [] | Some i \<Rightarrow> i)
      in if dict_has insts instance_name then c else AList.update iface (AList.update full [] insts) c)"

fun carry_instances ::
  "bool \<Rightarrow> string \<Rightarrow> string list \<Rightarrow> string \<Rightarrow> (string \<Rightarrow> carried \<Rightarrow> exn + carried) \<Rightarrow> string list \<Rightarrow> carried
     \<Rightarrow> exn + carried" where
  "carry_instances drop_in iface ports state descend [] c = Inr c"
| "carry_instances drop_in iface ports state descend (instance_name # rest) c =
     (let full = join_names state instance_name in
      case (if drop_in then Inr c else carry_ports iface full ports (open_instance iface instance_name full c)) of
        Inl e \<Rightarrow> Inl e
      | Inr c \<Rightarrow>
          (case descend full c of
             Inl e \<Rightarrow> Inl e
           | Inr c \<Rightarrow> carry_instances drop_in iface ports state descend rest c))"

definition qualified_name :: "string \<Rightarrow> string \<Rightarrow> string" where
  "qualified_name package name = (if CHR '':'' \<in> set name then name else package @ '':'' @ name)"

definition open_interface :: "bool \<Rightarrow> string \<Rightarrow> carried \<Rightarrow> carried" where
  "open_interface drop_in iface c = (if \<not> drop_in \<and> \<not> dict_has c iface then AList.update iface [] c else c)"

fun carry_inherits ::
  "'sk hierarchy \<Rightarrow> string \<Rightarrow> bool \<Rightarrow> string \<Rightarrow> ('sk interface \<Rightarrow> string \<Rightarrow> carried \<Rightarrow> exn + carried)
     \<Rightarrow> (string \<times> inherit) list \<Rightarrow> carried \<Rightarrow> exn + carried" where
  "carry_inherits h package drop_in state descend [] c = Inr c"
| "carry_inherits h package drop_in state descend ((name, inh) # rest) c =
     (case map_of h (in_target inh) of
        None \<Rightarrow> Inl AttributeError
      | Some i \<Rightarrow>
          if if_abstract i then carry_inherits h package drop_in state descend rest c
          else
            (case carry_instances drop_in (qualified_name package name) (map fst (if_ports i)) state (descend i)
                    (map fst (in_instances inh)) (open_interface drop_in (qualified_name package name) c) of
               Inl e \<Rightarrow> Inl e
             | Inr c \<Rightarrow> carry_inherits h package drop_in state descend rest c))"

text \<open>
  \<open>merge_inherits\<close>. The first argument is how deep the interpreter recurses before it raises; below the
  top, an interface inherited alone and once is no interface of the shape in its own right.
\<close>

fun merge_inherits ::
  "nat \<Rightarrow> 'sk hierarchy \<Rightarrow> string \<Rightarrow> (string \<times> inherit) list \<Rightarrow> string \<Rightarrow> bool \<Rightarrow> carried \<Rightarrow> exn + carried" where
  "merge_inherits 0 h package inherits state top_level c = Inl (Raised ''RecursionError'')"
| "merge_inherits (Suc k) h package inherits state top_level c =
     carry_inherits h package
       (\<not> top_level \<and> (case inherits of [(_, inh)] \<Rightarrow> length (in_instances inh) = 1 | _ \<Rightarrow> False)) state
       (\<lambda>i full c. merge_inherits k h package (if_inherits i) full False c) inherits c"

definition instantiate_interfaces :: "nat \<Rightarrow> 'sk hierarchy \<Rightarrow> string \<Rightarrow> 'sk interface \<Rightarrow> exn + carried" where
  "instantiate_interfaces recursion_limit h package shape =
     merge_inherits recursion_limit h package (if_inherits shape) [] True []"

subsection \<open>Every port that is listed is a port of the shape\<close>

text \<open>
  What \<open>adopt_inherit\<close> establishes for an object and every interface it inherits: a port for each port
  of each instance.
\<close>

definition ports_adopted :: "'sk hierarchy \<Rightarrow> 'sk interface \<Rightarrow> bool" where
  "ports_adopted h i =
     (\<forall>e \<in> set (if_inherits i). \<forall>p. map_of h (in_target (snd e)) = Some p \<longrightarrow>
        (\<forall>n \<in> fst ` set (in_instances (snd e)). \<forall>nm \<in> fst ` set (if_ports p). full_port_name n nm \<in> fst ` set (if_ports i)))"

definition named_ports :: "'sk interface \<Rightarrow> bool" where
  "named_ports i = ([] \<notin> fst ` set (if_ports i))"

definition ports_in :: "(string \<times> (string \<times> string) list) list \<Rightarrow> string set" where
  "ports_in insts = (\<Union>e \<in> set insts. snd ` set (snd e))"

definition listed :: "carried \<Rightarrow> string set" where
  "listed c = (\<Union>e \<in> set c. ports_in (snd e))"

lemma ports_adoptedD:
  "ports_adopted h i \<Longrightarrow> e \<in> set (if_inherits i) \<Longrightarrow> map_of h (in_target (snd e)) = Some p \<Longrightarrow>
     n \<in> fst ` set (in_instances (snd e)) \<Longrightarrow> nm \<in> fst ` set (if_ports p) \<Longrightarrow> full_port_name n nm \<in> fst ` set (if_ports i)"
  unfolding ports_adopted_def by blast

lemma join_full: "nm \<noteq> [] \<Longrightarrow> join_names s (full_port_name n nm) = join_names (join_names s n) nm"
  by (simp add: join_names_def full_port_name_def)

lemma join_full_outer: "nm \<noteq> [] \<Longrightarrow> join_names n nm = full_port_name n nm"
  by (simp add: join_names_def full_port_name_def)

lemma union_update: "(\<Union>e \<in> set (AList.update k v d). f (snd e)) \<subseteq> f v \<union> (\<Union>e \<in> set d. f (snd e))"
  by (induction d) auto

lemma union_get: "map_of d k = Some v \<Longrightarrow> f v \<subseteq> (\<Union>e \<in> set d. f (snd e))"
  by (auto dest!: map_of_SomeD)

lemma image_update: "snd ` set (AList.update k v d) \<subseteq> insert v (snd ` set d)"
  by (induction d) auto

lemma listed_update: "ports_in insts \<subseteq> P \<Longrightarrow> listed c \<subseteq> P \<Longrightarrow> listed (AList.update iface insts c) \<subseteq> P"
  unfolding listed_def by (rule order_trans [OF union_update [where f = ports_in]]) simp

lemma ports_in_update: "snd ` set ps \<subseteq> P \<Longrightarrow> ports_in insts \<subseteq> P \<Longrightarrow> ports_in (AList.update inst ps insts) \<subseteq> P"
  unfolding ports_in_def by (rule order_trans [OF union_update [where f = "\<lambda>ps. snd ` set ps"]]) simp

lemma listed_get: "map_of c iface = Some insts \<Longrightarrow> listed c \<subseteq> P \<Longrightarrow> ports_in insts \<subseteq> P"
  unfolding listed_def using union_get [of c iface insts ports_in] by blast

lemma ports_in_get: "map_of insts inst = Some ps \<Longrightarrow> ports_in insts \<subseteq> P \<Longrightarrow> snd ` set ps \<subseteq> P"
  unfolding ports_in_def using union_get [of insts inst ps "\<lambda>ps. snd ` set ps"] by blast

lemma carry_ports_listed:
  "carry_ports iface inst ports c = Inr c' \<Longrightarrow> listed c \<subseteq> P \<Longrightarrow> join_names inst ` set ports \<subseteq> P \<Longrightarrow> listed c' \<subseteq> P"
proof (induction ports arbitrary: c)
  case (Cons port rest)
  obtain insts ps where i: "map_of c iface = Some insts" "map_of insts inst = Some ps"
    and r: "carry_ports iface inst rest
        (AList.update iface (AList.update inst (AList.update port (join_names inst port) ps) insts) c) = Inr c'"
    using Cons.prems(1) by (auto split: option.splits)
  have insts: "ports_in insts \<subseteq> P" using i(1) Cons.prems(2) by (rule listed_get)
  have "snd ` set (AList.update port (join_names inst port) ps) \<subseteq> P"
    by (rule order_trans [OF image_update]) (use ports_in_get [OF i(2) insts] Cons.prems(3) in simp)
  from listed_update [OF ports_in_update [OF this insts] Cons.prems(2)] Cons.IH [OF r] Cons.prems(3)
  show ?case by auto
qed simp

lemma open_instance_listed: "listed c \<subseteq> P \<Longrightarrow> listed (open_instance iface n full c) \<subseteq> P"
proof (cases "map_of c iface")
  case None
  moreover assume "listed c \<subseteq> P"
  ultimately show ?thesis by (simp add: open_instance_def listed_update ports_in_def)
next
  case (Some insts)
  moreover assume "listed c \<subseteq> P"
  ultimately show ?thesis using listed_get [OF Some, of P] by (simp add: open_instance_def listed_update ports_in_update)
qed

definition keeps :: "string set \<Rightarrow> (carried \<Rightarrow> exn + carried) \<Rightarrow> bool" where
  "keeps P f = (\<forall>c c'. f c = Inr c' \<longrightarrow> listed c \<subseteq> P \<longrightarrow> listed c' \<subseteq> P)"

lemma keepsD: "keeps P f \<Longrightarrow> f c = Inr c' \<Longrightarrow> listed c \<subseteq> P \<Longrightarrow> listed c' \<subseteq> P"
  by (simp add: keeps_def)

lemma carry_instances_listed:
  assumes "\<forall>n \<in> set instances. keeps P (descend (join_names state n))"
    and "\<forall>n \<in> set instances. join_names (join_names state n) ` set ports \<subseteq> P"
  shows "carry_instances drop_in iface ports state descend instances c = Inr c' \<Longrightarrow> listed c \<subseteq> P \<Longrightarrow> listed c' \<subseteq> P"
  using assms
proof (induction instances arbitrary: c)
  case (Cons n rest)
  let ?full = "join_names state n"
  obtain c2 c3 where a: "(if drop_in then Inr c else carry_ports iface ?full ports (open_instance iface n ?full c)) = Inr c2"
    and d: "descend ?full c2 = Inr c3" and r: "carry_instances drop_in iface ports state descend rest c3 = Inr c'"
    using Cons.prems(1) by (auto simp: Let_def split: sum.splits)
  have "listed (open_instance iface n ?full c) \<subseteq> P" by (rule open_instance_listed [OF Cons.prems(2)])
  then have "listed c2 \<subseteq> P"
    using a Cons.prems(2,4) carry_ports_listed [of iface ?full ports "open_instance iface n ?full c" c2 P]
    by (auto split: if_splits)
  then have "listed c3 \<subseteq> P" using keepsD [where f = "descend ?full", OF _ d] Cons.prems(3) by simp
  then show ?case using Cons.IH [OF r] Cons.prems(3,4) by simp
qed simp

text \<open>An entry of the walk is good for \<open>P\<close> when the ports it will list are in \<open>P\<close>.\<close>

definition entry_in :: "'sk hierarchy \<Rightarrow> string set \<Rightarrow> string \<Rightarrow> string \<times> inherit \<Rightarrow> bool" where
  "entry_in h P s e =
     (\<forall>i. map_of h (in_target (snd e)) = Some i \<longrightarrow>
        (\<forall>n \<in> fst ` set (in_instances (snd e)). join_names (join_names s n) ` fst ` set (if_ports i) \<subseteq> P))"

lemma carry_inherits_listed:
  assumes "\<forall>e \<in> set inherits. \<forall>i. map_of h (in_target (snd e)) = Some i \<longrightarrow>
        (\<forall>n \<in> fst ` set (in_instances (snd e)). keeps P (descend i (join_names s n)))"
    and "\<forall>e \<in> set inherits. entry_in h P s e"
  shows "carry_inherits h package drop_in s descend inherits c = Inr c' \<Longrightarrow> listed c \<subseteq> P \<Longrightarrow> listed c' \<subseteq> P"
  using assms
proof (induction inherits arbitrary: c)
  case (Cons e rest)
  obtain name inh where e: "e = (name, inh)" by force
  obtain i where i: "map_of h (in_target inh) = Some i" using Cons.prems(1) e by (auto split: option.splits)
  have IH: "listed c0 \<subseteq> P \<Longrightarrow> carry_inherits h package drop_in s descend rest c0 = Inr c' \<Longrightarrow> listed c' \<subseteq> P" for c0
    using Cons.IH Cons.prems(3,4) by simp
  show ?case
  proof (cases "if_abstract i")
    case True
    then show ?thesis using Cons.prems(1,2) IH e i by simp
  next
    case False
    obtain c2 where a: "carry_instances drop_in (qualified_name package name) (map fst (if_ports i)) s (descend i)
        (map fst (in_instances inh)) (open_interface drop_in (qualified_name package name) c) = Inr c2"
      and r: "carry_inherits h package drop_in s descend rest c2 = Inr c'"
      using Cons.prems(1) False i by (auto simp: e split: sum.splits)
    have c1: "listed (open_interface drop_in (qualified_name package name) c) \<subseteq> P"
      using Cons.prems(2) by (simp add: open_interface_def listed_update ports_in_def)
    have "listed c2 \<subseteq> P"
    proof (rule carry_instances_listed [OF _ _ a c1])
      show "\<forall>n \<in> set (map fst (in_instances inh)). keeps P (descend i (join_names s n))"
        using Cons.prems(3) e i by simp
      show "\<forall>n \<in> set (map fst (in_instances inh)). join_names (join_names s n) ` set (map fst (if_ports i)) \<subseteq> P"
        using Cons.prems(4) e i by (simp add: entry_in_def)
    qed
    then show ?thesis using IH r by blast
  qed
qed simp

lemma merge_inherits_listed:
  assumes adopted: "\<And>x i. map_of h x = Some i \<Longrightarrow> ports_adopted h i \<and> named_ports i"
  shows "\<forall>e \<in> set inherits. entry_in h P s e \<Longrightarrow> keeps P (merge_inherits k h package inherits s tl0)"
proof (induction k arbitrary: inherits s tl0)
  case 0
  show ?case by (simp add: keeps_def)
next
  case (Suc k)
  have below: "\<forall>e \<in> set inherits. \<forall>i. map_of h (in_target (snd e)) = Some i \<longrightarrow> (\<forall>n \<in> fst ` set (in_instances (snd e)).
      keeps P (merge_inherits k h package (if_inherits i) (join_names s n) False))"
  proof (intro ballI allI impI)
    fix e i n
    assume e: "e \<in> set inherits" and i: "map_of h (in_target (snd e)) = Some i" and n: "n \<in> fst ` set (in_instances (snd e))"
    have here: "join_names (join_names s n) ` fst ` set (if_ports i) \<subseteq> P"
      using Suc.prems e i n unfolding entry_in_def by blast
    show "keeps P (merge_inherits k h package (if_inherits i) (join_names s n) False)"
    proof (rule Suc.IH, rule ballI)
      fix e'
      assume e': "e' \<in> set (if_inherits i)"
      show "entry_in h P (join_names s n) e'"
        unfolding entry_in_def
      proof (intro allI impI ballI subsetI)
        fix j n' p
        assume j: "map_of h (in_target (snd e')) = Some j" and n': "n' \<in> fst ` set (in_instances (snd e'))"
          and "p \<in> join_names (join_names (join_names s n) n') ` fst ` set (if_ports j)"
        then obtain nm where nm: "nm \<in> fst ` set (if_ports j)" "p = join_names (join_names (join_names s n) n') nm" by blast
        have ne: "nm \<noteq> []" using adopted [OF j] nm(1) by (metis named_ports_def)
        have "full_port_name n' nm \<in> fst ` set (if_ports i)"
          using ports_adoptedD [OF _ e' j n' nm(1)] adopted [OF i] by blast
        then have "join_names (join_names s n) (full_port_name n' nm) \<in> P" using here by blast
        then show "p \<in> P" using nm(2) ne by (simp add: join_full)
      qed
    qed
  qed
  show ?case
    unfolding keeps_def merge_inherits.simps using carry_inherits_listed [OF below Suc.prems] by blast
qed

text \<open>The interfaces a package builds have that property: every port of every instance was created.\<close>

lemma dom_fst: "dom (map_of d) = fst ` set d"
  by (rule dom_map_of_conv_image_fst)

lemma set_update_sub: "set (AList.update k v d) \<subseteq> insert (k, v) (set d)"
  by (induction d) auto

lemma merge_instances_sub:
  "fst ` set (in_instances (merge_instances new xs existing)) \<subseteq> fst ` set (in_instances existing) \<union> fst ` set xs
   \<and> in_target (merge_instances new xs existing) = in_target existing"
proof (induction new xs existing rule: merge_instances.induct)
  case (2 new n l rest existing)
  then show ?case by (auto simp: fst_set_update split: option.splits)
qed simp

lemma adopt_keeps_adopted:
  assumes a: "adopt_inherit env own parent inh i = Inr i'" and p: "map_of h (in_target inh) = Some parent"
    and old: "ports_adopted h i"
    and same: "\<And>x. map_of (if_inherits i) (in_name inh) = Some x \<Longrightarrow> in_target x = in_target inh"
  shows "ports_adopted h i'"
proof -
  let ?r = "record_inherit inh i"
  note facts = adopt_instances_facts [OF a [unfolded adopt_inherit_def]]
  have ports: "fst ` set (if_ports i') = fst ` set (if_ports i) \<union> set (adopted_names (in_instances inh) (if_ports parent))"
    using facts by (simp add: dom_fst record_inherit_def)
  show ?thesis
    unfolding ports_adopted_def
  proof (intro ballI allI impI)
    fix e q n nm
    assume e: "e \<in> set (if_inherits i')" and q: "map_of h (in_target (snd e)) = Some q"
      and n: "n \<in> fst ` set (in_instances (snd e))" and nm: "nm \<in> fst ` set (if_ports q)"
    have new: "full_port_name n nm \<in> fst ` set (if_ports i')" if "n \<in> fst ` set (in_instances inh)" "q = parent"
      unfolding ports using that nm by (force simp: adopted_names_def)
    show "full_port_name n nm \<in> fst ` set (if_ports i')"
    proof (cases "e \<in> set (if_inherits i)")
      case True
      then show ?thesis using ports_adoptedD [OF old True q n nm] ports by blast
    next
      case False
      then have e': "e = (in_name inh, case map_of (if_inherits i) (in_name inh) of
          None \<Rightarrow> inh | Some existing \<Rightarrow> merge_instances inh (in_instances inh) existing)"
        using e facts set_update_sub by (fastforce simp: record_inherit_def)
      show ?thesis
      proof (cases "map_of (if_inherits i) (in_name inh)")
        case None
        then show ?thesis using new n q p e' by simp
      next
        case (Some x)
        then have t: "in_target (snd e) = in_target x" "fst ` set (in_instances (snd e)) \<subseteq> fst ` set (in_instances x) \<union> fst ` set (in_instances inh)"
          using e' merge_instances_sub [of inh "in_instances inh" x] by auto
        have "q = parent" using q t(1) same [OF Some] p by simp
        moreover have "full_port_name n nm \<in> fst ` set (if_ports i)" if "n \<in> fst ` set (in_instances x)"
          using ports_adoptedD [OF old map_of_SomeD [OF Some], of q n nm] q t(1) that nm by simp
        ultimately show ?thesis using new n t(2) ports by blast
      qed
    qed
  qed
qed

lemma new_inherit_facts:
  "new_inherit env interface_at ports name config = Inr inh \<Longrightarrow> inherit_name (e_id env) name = Inr (pkg, nm) \<Longrightarrow>
     interface_at pkg nm = Some p \<Longrightarrow> in_name inh = pkg @ '':'' @ nm \<and> in_target inh = if_name p"
proof -
  have keep: "read_instances f ps params entries x = Inr inh \<Longrightarrow> in_name inh = in_name x \<and> in_target inh = in_target x" for f ps params entries x
    by (induction f ps params entries x rule: read_instances.induct) (auto split: sum.splits)
  assume "new_inherit env interface_at ports name config = Inr inh" "inherit_name (e_id env) name = Inr (pkg, nm)"
    "interface_at pkg nm = Some p"
  then show ?thesis by (auto simp: new_inherit_def split: sum.splits dest!: keep)
qed

text \<open>What the packages answer with is the interface registered under its own name.\<close>

definition answers :: "(string \<Rightarrow> 'sk interface option) \<Rightarrow> 'sk hierarchy \<Rightarrow> bool" where
  "answers lookup h = (\<forall>n p. lookup n = Some p \<longrightarrow> map_of h (if_name p) = Some p)"

definition known_targets :: "(string \<Rightarrow> 'sk interface option) \<Rightarrow> 'sk interface \<Rightarrow> bool" where
  "known_targets lookup i =
     (\<forall>k inh. map_of (if_inherits i) k = Some inh \<longrightarrow> (\<exists>p. lookup k = Some p \<and> in_target inh = if_name p))"

lemma inherit_entries_adopted:
  assumes "answers lookup h"
  shows "inherit_entries env (\<lambda>pkg nm. lookup (pkg @ '':'' @ nm)) resolve_name own drop_in entries i = Inr i' \<Longrightarrow>
     ports_adopted h i \<Longrightarrow> known_targets lookup i \<Longrightarrow> ports_adopted h i'"
proof (induction entries arbitrary: i)
  case (Cons e rest)
  obtain name config where e: "e = (name, config)" by force
  define i1 where "i1 inh = (if drop_in then i\<lparr>if_compatible := List.insert (in_name inh) (if_compatible i)\<rparr> else i)" for inh :: inherit
  obtain nm0 inh pkg nm parent i2 where s: "resolve_name name = PStr nm0"
    "new_inherit env (\<lambda>pkg nm. lookup (pkg @ '':'' @ nm)) (if_ports i) nm0 config = Inr inh"
    "inherit_name (e_id env) nm0 = Inr (pkg, nm)" "lookup (pkg @ '':'' @ nm) = Some parent"
    and a: "adopt_inherit env own parent inh (i1 inh) = Inr i2"
    and r: "inherit_entries env (\<lambda>pkg nm. lookup (pkg @ '':'' @ nm)) resolve_name own drop_in rest i2 = Inr i'"
    using Cons.prems(1) by (auto simp: e i1_def split: pyval.splits sum.splits option.splits)
  have inh: "in_name inh = pkg @ '':'' @ nm" "in_target inh = if_name parent"
    using new_inherit_facts [OF s(2,3) s(4)] by auto
  have eq: "if_inherits (i1 inh) = if_inherits i" "if_ports (i1 inh) = if_ports i" by (simp_all add: i1_def)
  have pa: "ports_adopted h (i1 inh)" using Cons.prems(2) by (simp add: ports_adopted_def eq)
  have known: "known_targets lookup (i1 inh)" using Cons.prems(3) by (simp add: known_targets_def eq)
  have same: "in_target x = in_target inh" if x: "map_of (if_inherits (i1 inh)) (in_name inh) = Some x" for x
  proof -
    obtain p where "lookup (in_name inh) = Some p" "in_target x = if_name p"
      using known x unfolding known_targets_def by blast
    then show ?thesis using s(4) inh by simp
  qed
  have "map_of h (in_target inh) = Some parent" using assms s(4) inh(2) by (simp add: answers_def)
  from adopt_keeps_adopted [OF a this pa same] have pa2: "ports_adopted h i2" .
  have "known_targets lookup i2"
    unfolding known_targets_def
  proof (intro allI impI)
    fix k x
    assume x: "map_of (if_inherits i2) k = Some x"
    show "\<exists>p. lookup k = Some p \<and> in_target x = if_name p"
    proof (cases "k = in_name inh")
      case True
      have "if_inherits i2 = if_inherits (record_inherit inh (i1 inh))"
        using adopt_instances_facts [OF a [unfolded adopt_inherit_def]] by simp
      then have "in_target x = in_target inh"
        using x True same merge_instances_sub by (auto simp: record_inherit_def split: option.splits)
      then show ?thesis using True inh s(4) by simp
    next
      case False
      then have "map_of (if_inherits (i1 inh)) k = Some x"
        using x adopt_instances_facts [OF a [unfolded adopt_inherit_def]] by (simp add: record_inherit_def)
      then show ?thesis using known by (simp add: known_targets_def)
    qed
  qed
  from Cons.IH [OF r pa2 this] show ?case .
qed simp

definition instantiated :: "(string \<Rightarrow> 'sk interface option) \<Rightarrow> 'sk hierarchy \<Rightarrow> 'sk interface \<Rightarrow> bool" where
  "instantiated lookup h i =
     (\<exists>env values' config config_section i0. if_inherits i0 = [] \<and>
        instantiate env (\<lambda>pkg nm. lookup (pkg @ '':'' @ nm)) (map_of h) values' config config_section i0 = Inr i)"

lemma instantiated_adopted: "answers lookup h \<Longrightarrow> instantiated lookup h i \<Longrightarrow> ports_adopted h i"
proof -
  assume ans: "answers lookup h" and "instantiated lookup h i"
  then obtain env vals config sec i0 where i0: "if_inherits i0 = []"
    and r: "instantiate env (\<lambda>pkg nm. lookup (pkg @ '':'' @ nm)) (map_of h) vals config sec i0 = Inr i"
    unfolding instantiated_def by blast
  have alias_keeps: "ports_adopted h (adopt_alias_target f b x) = ports_adopted h x" for f b x
    by (auto simp: adopt_alias_target_def ports_adopted_def split: list.splits option.splits)
  have start: "ports_adopted h (i0\<lparr>if_ports := ps\<rparr>)" "known_targets lookup (i0\<lparr>if_ports := ps\<rparr>)" for ps
    by (simp_all add: ports_adopted_def known_targets_def i0)
  have made: "ports_adopted h (if if_alias x \<noteq> None then adopt_alias_target f b x else x)" if "ports_adopted h x" for f b x
    using that alias_keeps by simp
  obtain ps section_obj where ps: "instantiate_declared_ports env config (if_ports i0) = Inr ps"
    and sec: "inherits_section (i0\<lparr>if_ports := ps\<rparr>) config sec = Inr section_obj"
    using r by (auto simp: instantiate_def instantiate_inherits_def Let_def split: sum.splits)
  show ?thesis
  proof (cases section_obj)
    case None
    then have i: "i = (if if_alias (i0\<lparr>if_ports := ps\<rparr>) \<noteq> None
        then adopt_alias_target (map_of h) (dict_has config ''abstract'') (i0\<lparr>if_ports := ps\<rparr>) else i0\<lparr>if_ports := ps\<rparr>)"
      using r ps sec by (simp add: instantiate_def instantiate_inherits_def Let_def)
    show ?thesis unfolding i by (rule made [OF start(1)])
  next
    case (Some entries)
    then obtain x where e: "inherit_entries env (\<lambda>pkg nm. lookup (pkg @ '':'' @ nm))
        (\<lambda>n. Expr.resolve (e_expr env) (dict_update (map (\<lambda>(k, p). (k, p_default p)) (if_params i0)) vals) (PStr n))
        (map fst (if_params i0)) (is_only_instance (map snd entries)) entries (i0\<lparr>if_ports := ps\<rparr>) = Inr x"
      and i: "i = (if if_alias x \<noteq> None then adopt_alias_target (map_of h) (dict_has config ''abstract'') x else x)"
      using r ps sec by (simp add: instantiate_def instantiate_inherits_def Let_def map_sum_Inr) blast
    show ?thesis unfolding i by (rule made [OF inherit_entries_adopted [OF ans e start]])
  qed
qed


text \<open>An interface with one port, and a shape that implements it once, as instance \<open>left\<close>.\<close>

definition grip_interface :: "unit interface" where
  "grip_interface = (blank_interface ''//p:m'')\<lparr>if_ports := [(''grip'', plain_port ''grip'' None)]\<rparr>"

definition grip_lookup :: "string \<Rightarrow> unit interface option" where
  "grip_lookup n = (if n = ''//p:m'' then Some grip_interface else None)"

definition grip_shape :: "unit interface" where
  "grip_shape = (blank_interface ''//p:o'')\<lparr>
     if_ports := [(''left-grip'', plain_port ''left-grip'' (Some identity_location))],
     if_inherits := [(''//p:m'', \<lparr>in_name = ''//p:m'', in_target = ''//p:m'', in_instances = [(''left'', identity_location)], in_sketches = []\<rparr>)],
     if_compatible := [''//p:m'']\<rparr>"

lemma grip_instantiated:
  "instantiated grip_lookup [(''//p:m'', grip_interface)] grip_interface"
  "instantiated grip_lookup [(''//p:m'', grip_interface)] grip_shape"
proof -
  have name: "inherit_name (e_id sample_project) ''m'' = Inr (''//p'', ''m'')" by code_simp
  have plain: "Expr.resolve (e_expr sample_project) [] (PStr ''m'') = PStr ''m''" by code_simp
  have "instantiate sample_project (\<lambda>pkg nm. grip_lookup (pkg @ '':'' @ nm)) (map_of [(''//p:m'', grip_interface)]) []
      [(''ports'', PList [PStr ''grip''])] ''inherits'' (blank_interface ''//p:m'') = Inr grip_interface"
    by (simp add: instantiate_def instantiate_inherits_def instantiate_declared_ports_def named_section_def new_port_def inherits_section_def
        blank_interface_def grip_interface_def plain_port_def)
  then show "instantiated grip_lookup [(''//p:m'', grip_interface)] grip_interface"
    unfolding instantiated_def by (metis blank_interface_sel(7))
  have "instantiate sample_project (\<lambda>pkg nm. grip_lookup (pkg @ '':'' @ nm)) (map_of [(''//p:m'', grip_interface)]) []
      [(''implements'', PDict [(''m'', PStr ''left'')])] ''implements'' (blank_interface ''//p:o'') = Inr grip_shape"
    using name plain
    by (simp add: instantiate_def instantiate_inherits_def instantiate_declared_ports_def inherits_section_def new_inherit_def instance_entries_def
        instance_location_def adopt_inherit_def record_inherit_def inherited_port_def new_port_def full_port_name_def
        is_only_instance_def blank_interface_def grip_interface_def grip_shape_def grip_lookup_def plain_port_def Let_def)
  then show "instantiated grip_lookup [(''//p:m'', grip_interface)] grip_shape"
    unfolding instantiated_def by (metis blank_interface_sel(7))
qed


section \<open>When the walk ends\<close>

text \<open>
  Nothing stops the walk over inherited interfaces but the depth of the hierarchy: where every
  interface inherits only interfaces of a smaller rank, a recursion limit above the rank of the shape
  is enough.
\<close>

definition shallow :: "'sk hierarchy \<Rightarrow> (string \<Rightarrow> nat) \<Rightarrow> nat \<Rightarrow> (string \<times> inherit) list \<Rightarrow> bool" where
  "shallow h rank k inherits = (\<forall>e \<in> set inherits. in_target (snd e) \<in> fst ` set h \<longrightarrow> rank (in_target (snd e)) < k)"

definition not_too_deep :: "exn + 'a \<Rightarrow> bool" where
  "not_too_deep r = (r \<noteq> Inl (Raised ''RecursionError''))"

lemma carry_ports_shallow: "not_too_deep (carry_ports iface inst ports c)"
  by (induction ports arbitrary: c) (auto simp: not_too_deep_def split: option.splits)

lemma carry_instances_shallow:
  "(\<And>full c. not_too_deep (descend full c)) \<Longrightarrow> not_too_deep (carry_instances drop_in iface ports state descend instances c)"
proof (induction instances arbitrary: c)
  case (Cons n rest)
  show ?case
    using Cons carry_ports_shallow [of iface "join_names state n" ports]
    by (auto simp: not_too_deep_def Let_def split: sum.splits)
qed (simp add: not_too_deep_def)

lemma carry_inherits_shallow:
  assumes "\<forall>e \<in> set inherits. \<forall>i full c. map_of h (in_target (snd e)) = Some i \<longrightarrow> not_too_deep (descend i full c)"
  shows "not_too_deep (carry_inherits h package drop_in s descend inherits c)"
  using assms
proof (induction inherits arbitrary: c)
  case (Cons e rest)
  obtain name inh where e: "e = (name, inh)" by force
  have rest: "not_too_deep (carry_inherits h package drop_in s descend rest c)" for c using Cons by simp
  show ?case
  proof (cases "map_of h (in_target inh)")
    case (Some i)
    have inst: "not_too_deep (carry_instances drop_in nm ports s (descend i) is c')" for nm ports "is" c'
      by (rule carry_instances_shallow) (use Cons.prems e Some in simp)
    show ?thesis
    proof (cases "if_abstract i")
      case False
      then show ?thesis
        using rest inst [of "qualified_name package name" "map fst (if_ports i)" "map fst (in_instances inh)"
            "open_interface drop_in (qualified_name package name) c"] e Some
        by (auto simp add: not_too_deep_def split: sum.splits)
    qed (use rest e Some in simp)
  qed (simp add: e not_too_deep_def)
qed (simp add: not_too_deep_def)

definition ranked :: "'sk hierarchy \<Rightarrow> (string \<Rightarrow> nat) \<Rightarrow> bool" where
  "ranked h rank = (\<forall>x i. map_of h x = Some i \<longrightarrow> shallow h rank (rank x) (if_inherits i))"

lemma merge_inherits_shallow:
  assumes "ranked h rank"
  shows "shallow h rank k inherits \<Longrightarrow> not_too_deep (merge_inherits (Suc k) h package inherits s tl0 c)"
proof (induction k arbitrary: inherits s tl0 c rule: less_induct)
  case (less k)
  have "not_too_deep (merge_inherits k h package (if_inherits i) full False c)"
    if e: "e \<in> set inherits" and i: "map_of h (in_target (snd e)) = Some i" for e i full c
  proof -
    have lt: "rank (in_target (snd e)) < k"
      using less.prems e i unfolding shallow_def by (metis domI dom_map_of_conv_image_fst)
    then obtain j where k: "k = Suc j" by (cases k) auto
    have "shallow h rank (rank (in_target (snd e))) (if_inherits i)" using assms i by (simp add: ranked_def)
    then have "shallow h rank j (if_inherits i)" using lt k by (fastforce simp: shallow_def)
    then show ?thesis using less.IH [of j "if_inherits i" full False c] k by (simp del: merge_inherits.simps)
  qed
  then show ?case
    by (subst merge_inherits.simps) (rule carry_inherits_shallow, blast)
qed



text \<open>
  an interface carried directly and again below an interface that has several of it: the entry for the
  second instance is tested for under the wrong name, is not created, and the walk ends in a \<open>KeyError\<close>.
\<close>

definition entry_of :: "string \<Rightarrow> string list \<Rightarrow> string \<times> inherit" where
  "entry_of n instances = (n, \<lparr>in_name = n, in_target = n, in_instances = map (\<lambda>k. (k, identity_location)) instances, in_sketches = []\<rparr>)"

definition pair_hierarchy :: "unit hierarchy" where
  "pair_hierarchy =
     [(''p:m'', (blank_interface ''p:m'')\<lparr>if_ports := [(''grip'', plain_port ''grip'' None)]\<rparr>),
      (''p:n'', blank_interface ''p:n''),
      (''p:pair'', (blank_interface ''p:pair'')\<lparr>if_inherits := [entry_of ''p:m'' [[]], entry_of ''p:n'' [[]]]\<rparr>)]"

theorem nested_instance_is_a_key_error:
  "instantiate_interfaces 10 pair_hierarchy ''p''
     ((blank_interface ''p:o'')\<lparr>if_inherits := [entry_of ''p:m'' [[]], entry_of ''p:pair'' [''left'']]\<rparr>) = Inl KeyError"
  by (simp add: instantiate_interfaces_def numeral_eq_Suc pair_hierarchy_def entry_of_def open_interface_def
      qualified_name_def open_instance_def join_names_def)

end
