(* ===== verification/Fnmatch.thy ===== *)
theory Fnmatch
  imports Prelude
begin

text \<open>Shell patterns as \<open>fnmatch\<close> of the standard library reads them, compiled first and matched then.\<close>

section \<open>Shell patterns\<close>

text \<open>
  \<open>fnmatch.fnmatch\<close>: a star stands for any text, a question mark for any character, brackets for one of
  a set of characters; a bracket that is not closed is itself. In brackets, a hyphen between two
  characters makes a range, and an exclamation mark in front takes the complement.
\<close>

datatype fn_item = AnyText | AnyChar | OneOf bool "(char \<times> char) list"

fun bracket_ranges :: "string \<Rightarrow> (char \<times> char) list" where
  "bracket_ranges (a # h # b # rest) =
     (if h = CHR ''-'' then (a, b) # bracket_ranges rest else (a, a) # bracket_ranges (h # b # rest))"
| "bracket_ranges (a # rest) = (a, a) # bracket_ranges rest"
| "bracket_ranges [] = []"

text \<open>The inside of a bracket and what follows it; the first character inside is never the closing one.\<close>

definition bracket_body :: "string \<Rightarrow> (string \<times> string) option" where
  "bracket_body p =
     (let bang = (if take 1 p = ''!'' then ''!'' else []);
          q = drop (length bang) p;
          first = take 1 q;
          r = drop 1 q;
          inner = takeWhile (\<lambda>c. c \<noteq> CHR '']'') r
      in if q = [] \<or> length inner = length r then None
         else Some (bang @ first @ inner, drop (Suc (length inner)) r))"

lemma bracket_body_shorter: "bracket_body p = Some (b, rest) \<Longrightarrow> length rest < length p"
  by (auto simp: bracket_body_def Let_def split: if_splits)

function fn_parse :: "string \<Rightarrow> fn_item list" where
  "fn_parse [] = []"
| "fn_parse (c # p) =
     (if c = CHR ''*'' then AnyText # fn_parse p
      else if c = CHR ''?'' then AnyChar # fn_parse p
      else if c = CHR ''['' then
        (case bracket_body p of
           None \<Rightarrow> OneOf True [(c, c)] # fn_parse p
         | Some (body, rest) \<Rightarrow>
             (if take 1 body = ''!'' then OneOf False (bracket_ranges (drop 1 body)) else OneOf True (bracket_ranges body))
             # fn_parse rest)
      else OneOf True [(c, c)] # fn_parse p)"
  by pat_completeness auto
termination
  by (relation "measure length") (use bracket_body_shorter in \<open>auto simp: less_Suc_eq\<close>)

fun in_ranges :: "(char \<times> char) list \<Rightarrow> char \<Rightarrow> bool" where
  "in_ranges [] c = False"
| "in_ranges ((a, b) # rest) c = (code a \<le> code c \<and> code c \<le> code b \<or> in_ranges rest c)"

fun fn_matches :: "fn_item list \<Rightarrow> string \<Rightarrow> bool" where
  "fn_matches [] s = (s = [])"
| "fn_matches (AnyText # p) [] = fn_matches p []"
| "fn_matches (AnyText # p) (c # s) = (fn_matches p (c # s) \<or> fn_matches (AnyText # p) s)"
| "fn_matches (AnyChar # p) s = (case s of [] \<Rightarrow> False | _ # t \<Rightarrow> fn_matches p t)"
| "fn_matches (OneOf inside rs # p) s =
     (case s of [] \<Rightarrow> False | c # t \<Rightarrow> in_ranges rs c = inside \<and> fn_matches p t)"

definition fnmatch :: "string \<Rightarrow> string \<Rightarrow> bool" where
  "fnmatch name pattern = fn_matches (fn_parse pattern) name"

lemma fn_parse_plain: "\<forall>c \<in> set p. c \<notin> set ''*?['' \<Longrightarrow> fn_parse p = map (\<lambda>c. OneOf True [(c, c)]) p"
  by (induction p) auto

lemma code_inj: "code a = code b \<longleftrightarrow> a = b"
  by (simp add: code_def)

lemma in_single: "in_ranges [(a, a)] c \<longleftrightarrow> c = a"
  using code_inj [of a c] by auto

lemma fn_matches_plain: "fn_matches (map (\<lambda>c. OneOf True [(c, c)]) p) s \<longleftrightarrow> s = p"
proof (induction p arbitrary: s)
  case (Cons a p)
  then show ?case by (cases s) (simp_all del: in_ranges.simps add: in_single)
qed simp

lemma fn_matches_any: "fn_matches (AnyText # p) s \<longleftrightarrow> (\<exists>a b. s = a @ b \<and> fn_matches p b)"
proof (induction s)
  case (Cons c s)
  then show ?case by (auto simp: Cons_eq_append_conv)
qed simp

text \<open>A pattern without the three characters is the text itself; a star in front takes the endings.\<close>

lemma fnmatch_plain: "\<forall>c \<in> set p. c \<notin> set ''*?['' \<Longrightarrow> fnmatch s p \<longleftrightarrow> s = p"
  by (simp add: fnmatch_def fn_parse_plain fn_matches_plain)

lemma fnmatch_star: "\<forall>c \<in> set p. c \<notin> set ''*?['' \<Longrightarrow> fnmatch s (CHR ''*'' # p) \<longleftrightarrow> ends_with s p"
  by (simp add: fnmatch_def fn_parse_plain fn_matches_any fn_matches_plain suffix_def eq_commute)

end
