(* ===== verification/AssemblyConnect.thy ===== *)
theory AssemblyConnect
  imports ConnectHow ShapePorts Fnmatch
begin

text \<open>
  What an ASSY file says about the placement of its items (\<open>partcad/assembly_factory_assy.py\<close>): the
  object a node names, the interface, the instance and the port a connection uses on each of its two
  ends, where the item ends up, and what is recorded of the connection. The objects, the interfaces and
  the matings are those of the context; the file is given as parsed. An object is taken with its
  \<open>map:\<close> resolved. Names that are no texts are refused where they are read.
\<close>

section \<open>Nodes of a file\<close>

text \<open>
  What a connection is worked out from at either end: the declaration of an object, its package and its
  ports. A container of an ASSY file has none.
\<close>

record 'sk with_ports =
  w_ports :: "(string \<times> 'sk port) list"
  w_interfaces :: carried
  w_loose :: bool

record 'sk placed_item =
  pi_config :: pyval
  pi_project :: "string option"
  pi_with_ports :: "'sk with_ports option"

record connection =
  cn_target :: pyval
  cn_with_port :: "string option"
  cn_to_port :: "string option"
  cn_with_interface :: "string option"
  cn_to_interface :: "string option"
  cn_exploded :: "pyfloat option"
  cn_interferes :: "string list"
  cn_point :: "(vec3 \<times> vec3) option"

text \<open>\<open>AssemblyChild\<close>: an item and where the assembly put it.\<close>

datatype 'i child =
  Child (ch_item: 'i) (ch_name: pyval) (ch_location: "location option") (ch_comment: pyval)
    (ch_how: "how option") (ch_connection: "connection option") (ch_description: "string option") (ch_located: bool)

datatype 'sk built = Object "'sk placed_item" | Container string "string option" "'sk built child list"



text \<open>The context an assembly is read in; \<open>a_mating\<close> is the mating the code finds between two ends.\<close>

record 'sk assembly_env =
  a_name :: string
  a_project :: package_id
  a_float :: "string \<Rightarrow> pyfloat option"
  a_repr :: "pyval \<Rightarrow> string"
  a_get_assembly :: "string \<Rightarrow> pydict \<Rightarrow> 'sk placed_item option"
  a_get_part :: "string \<Rightarrow> pydict \<Rightarrow> 'sk placed_item option"
  a_hierarchy :: "'sk hierarchy"
  a_mates :: mates
  a_mating :: "interface_end option \<Rightarrow> interface_end option \<Rightarrow> ConnectHow.mating option"

definition as_names :: "(pyval \<Rightarrow> string) \<Rightarrow> pyval \<Rightarrow> string list" where
  "as_names repr v =
     (case v of PStr s \<Rightarrow> [s] | PList xs \<Rightarrow> map (py_str repr) xs | _ \<Rightarrow> [])"

definition node_object_name :: "package_id \<Rightarrow> pydict \<Rightarrow> string \<Rightarrow> exn + string" where
  "node_object_name project node kind =
     (case text_of (map_of node kind) of
        Inl e \<Rightarrow> Inl e
      | Inr name \<Rightarrow>
          (if dict_has node ''package'' then
             (case text_of (map_of node ''package'') of
                Inl e \<Rightarrow> Inl e
              | Inr package \<Rightarrow> project_normalize project (package @ '':'' @ name))
           else project_normalize project (if CHR '':'' \<in> set name then name else '':'' @ name)))"

definition node_description :: "(pyval \<Rightarrow> string) \<Rightarrow> pyval \<Rightarrow> string option" where
  "node_description repr node =
     (case node of
        PDict d \<Rightarrow>
          (case map_of d ''description'' of
             None \<Rightarrow> None
           | Some PNone \<Rightarrow> None
           | Some v \<Rightarrow> (let s = strip (py_str repr v) in if s = [] then None else Some s))
      | _ \<Rightarrow> None)"

definition node_params :: "pydict \<Rightarrow> exn + pydict" where
  "node_params node =
     (case map_of node ''params'' of
        None \<Rightarrow> Inr []
      | Some (PDict d) \<Rightarrow> Inr d
      | Some (PList []) \<Rightarrow> Inr []
      | Some (PStr []) \<Rightarrow> Inr []
      | Some _ \<Rightarrow> Inl TypeError)"

text \<open>\<open>collect_subassemblies\<close>: the assemblies a file links to, the containers walked into.\<close>

fun collect_subassemblies :: "'sk assembly_env \<Rightarrow> pyval \<Rightarrow> exn + 'sk placed_item list"
  and collect_from_list :: "'sk assembly_env \<Rightarrow> pyval list \<Rightarrow> exn + 'sk placed_item list"
  and collect_from_links :: "'sk assembly_env \<Rightarrow> (string \<times> pyval) list \<Rightarrow> (exn + 'sk placed_item list) option" where
  "collect_subassemblies env (PList nodes) = collect_from_list env nodes"
| "collect_subassemblies env (PDict node) =
     (case collect_from_links env node of
        Some r \<Rightarrow> r
      | None \<Rightarrow>
          (if \<not> dict_has node ''assembly'' then Inr []
           else
             (case node_object_name (a_project env) node ''assembly'' of
                Inl e \<Rightarrow> Inl e
              | Inr name \<Rightarrow>
                  map_sum id (\<lambda>params. case a_get_assembly env name params of None \<Rightarrow> [] | Some a \<Rightarrow> [a]) (node_params node))))"
| "collect_subassemblies env _ = Inr []"
| "collect_from_list env [] = Inr []"
| "collect_from_list env (node # rest) =
     (case collect_subassemblies env node of
        Inl e \<Rightarrow> Inl e
      | Inr found \<Rightarrow> map_sum id ((@) found) (collect_from_list env rest))"
| "collect_from_links env [] = None"
| "collect_from_links env ((k, v) # node) =
     (if k = ''links'' then (if v = PNone then None else Some (collect_subassemblies env v))
      else collect_from_links env node)"

section \<open>The two ends of a connection\<close>

record conn_end =
  en_iface :: "string option"
  en_params :: pyval
  en_instance :: "string option"
  en_instance_pattern :: "string option"
  en_port :: "string option"
  en_port_pattern :: "string option"

definition text_or_none :: "pyval \<Rightarrow> exn + string option" where
  "text_or_none v = (case v of PNone \<Rightarrow> Inr None | PStr s \<Rightarrow> Inr (Some s) | _ \<Rightarrow> Inl TypeError)"

definition item_or_none :: "pydict \<Rightarrow> string \<Rightarrow> pyval" where
  "item_or_none d k = (case map_of d k of None \<Rightarrow> PNone | Some v \<Rightarrow> v)"

text \<open>A name with a star in it is a pattern.\<close>

definition split_pattern :: "string option \<Rightarrow> string option \<times> string option" where
  "split_pattern v =
     (case v of None \<Rightarrow> (None, None) | Some s \<Rightarrow> if CHR ''*'' \<in> set s then (None, Some s) else (Some s, None))"

definition full_interface_name :: "package_id \<Rightarrow> string option \<Rightarrow> string option" where
  "full_interface_name project name =
     map_option (\<lambda>s. if CHR '':'' \<in> set s then s else package_name project @ '':'' @ s) name"

text \<open>
  One end of a \<open>connect:\<close>, read from the keys that name its interface, its parameters, its instance and
  its port; \<open>connectPorts:\<close> states the ports only.
\<close>

definition read_end :: "package_id \<Rightarrow> pydict \<Rightarrow> string \<Rightarrow> string \<Rightarrow> string \<Rightarrow> string \<Rightarrow> exn + conn_end" where
  "read_end project connect iface_key params_key instance_key port_key =
     (case text_or_none (item_or_none connect iface_key) of
        Inl e \<Rightarrow> Inl e
      | Inr iface \<Rightarrow>
     (case text_or_none (item_or_none connect instance_key) of
        Inl e \<Rightarrow> Inl e
      | Inr inst \<Rightarrow>
     (case text_or_none (item_or_none connect port_key) of
        Inl e \<Rightarrow> Inl e
      | Inr port \<Rightarrow>
          Inr \<lparr>en_iface = full_interface_name project iface, en_params = item_or_none connect params_key,
               en_instance = fst (split_pattern inst), en_instance_pattern = snd (split_pattern inst),
               en_port = fst (split_pattern port), en_port_pattern = snd (split_pattern port)\<rparr>)))"

definition read_port_end :: "pydict \<Rightarrow> string \<Rightarrow> exn + conn_end" where
  "read_port_end connect port_key =
     (case text_or_none (item_or_none connect port_key) of
        Inl e \<Rightarrow> Inl e
      | Inr port \<Rightarrow>
          Inr \<lparr>en_iface = None, en_params = PNone, en_instance = None, en_instance_pattern = None,
               en_port = fst (split_pattern port), en_port_pattern = snd (split_pattern port)\<rparr>)"

text \<open>The only interface and the only port of an object need not be named.\<close>

definition only_interface :: "'sk with_ports \<Rightarrow> conn_end \<Rightarrow> conn_end" where
  "only_interface w e =
     (case w_interfaces w of
        [(name, _)] \<Rightarrow> if en_iface e = None \<and> \<not> w_loose w then e\<lparr>en_iface := Some name\<rparr> else e
      | _ \<Rightarrow> e)"

text \<open>
  A pattern over the ports of the source is matched against the ports themselves rather than their
  names, which \<open>fnmatch\<close> refuses; over those of the target, against their names.
\<close>

definition only_port :: "bool \<Rightarrow> 'sk with_ports \<Rightarrow> conn_end \<Rightarrow> exn + conn_end" where
  "only_port source w e =
     (if en_port e \<noteq> None then Inr e
      else
        (case (w_ports w, en_port_pattern e) of
           ([(name, _)], _) \<Rightarrow> Inr (e\<lparr>en_port := Some name\<rparr>)
         | (ports, Some pattern) \<Rightarrow>
             (if source then (if ports = [] then Inr e else Inl TypeError)
              else
                (case filter (\<lambda>p. fnmatch p pattern) (map fst ports) of
                   [p] \<Rightarrow> Inr (e\<lparr>en_port := Some p\<rparr>)
                 | _ \<Rightarrow> Inr e))
         | _ \<Rightarrow> Inr e))"

definition known_port :: "'sk with_ports \<Rightarrow> conn_end \<Rightarrow> exn + 'sk port option" where
  "known_port w e =
     (case en_port e of
        None \<Rightarrow> Inr None
      | Some name \<Rightarrow> (case map_of (w_ports w) name of None \<Rightarrow> Inl KeyError | Some p \<Rightarrow> Inr (Some p)))"

text \<open>Where an end has neither, its interface is the only one that mates with the other object.\<close>

definition undetermined :: "conn_end \<Rightarrow> bool" where
  "undetermined e = (en_port e = None \<and> en_iface e = None)"

definition the_candidate :: "string set \<Rightarrow> conn_end \<Rightarrow> conn_end" where
  "the_candidate candidates e =
     (if undetermined e \<and> card candidates = 1 then e\<lparr>en_iface := Some (the_elem candidates)\<rparr> else e)"

definition by_mating ::
  "'sk assembly_env \<Rightarrow> 'sk with_ports \<Rightarrow> 'sk with_ports \<Rightarrow> conn_end \<Rightarrow> conn_end \<Rightarrow> exn + (conn_end \<times> conn_end)" where
  "by_mating env ws wt s t =
     (if undetermined s \<or> undetermined t then
        map_sum id (\<lambda>(sc, tc). (the_candidate sc s, the_candidate tc t))
          (find_mating_interfaces (a_mates env) (Matings.compatible_with (a_hierarchy env))
             (fst ` set (w_interfaces ws)) (fst ` set (w_interfaces wt)))
      else Inr (s, t))"

text \<open>\<open>WithPorts.get_interface\<close>: the instances an object has of an interface; one slash in front is the old spelling of two.\<close>

definition carried_interface ::
  "'sk with_ports \<Rightarrow> string \<Rightarrow> exn + (string \<times> (string \<times> string) list) list" where
  "carried_interface w name =
     (let n = (if take 1 name = ''/'' \<and> take 2 name \<noteq> ''//'' then ''/'' @ name else name)
      in case map_of (w_interfaces w) n of None \<Rightarrow> Inl KeyError | Some insts \<Rightarrow> Inr insts)"

text \<open>
  The instance a connection uses. The source's pattern is matched against what the instances hold, which
  \<open>fnmatch\<close> refuses.
\<close>

definition pick_instance ::
  "bool \<Rightarrow> (string \<times> (string \<times> string) list) list \<Rightarrow> conn_end \<Rightarrow> exn + (string \<times> string) list option" where
  "pick_instance source insts e =
     (let only = (case insts of [(_, ps)] \<Rightarrow> Some ps | _ \<Rightarrow> None)
      in case en_instance_pattern e of
           Some pattern \<Rightarrow>
             (if source then (if insts = [] then Inr None else Inl TypeError)
              else
                (case filter (\<lambda>n. fnmatch n pattern) (map fst insts) of
                   [n] \<Rightarrow> Inr (map_of insts n)
                 | _ \<Rightarrow> Inr only))
         | None \<Rightarrow> (case en_instance e of Some n \<Rightarrow> Inr (map_of insts n) | None \<Rightarrow> Inr only))"

text \<open>The port of that instance: the only one, the one the pattern names, or the lead port of the interface.\<close>

definition pick_port :: "pyval \<Rightarrow> string option \<Rightarrow> (string \<times> string) list \<Rightarrow> exn + string option" where
  "pick_port lead pattern ps =
     (case ps of
        [(_, p)] \<Rightarrow> Inr (Some p)
      | _ \<Rightarrow>
          (case pattern of
             Some pat \<Rightarrow> (case filter (\<lambda>p. fnmatch p pat) (map snd ps) of [p] \<Rightarrow> Inr (Some p) | _ \<Rightarrow> Inr None)
           | None \<Rightarrow>
               (case lead of
                  PNone \<Rightarrow> Inr None
                | PStr l \<Rightarrow> Inr (find (\<lambda>p. fnmatch p (''*'' @ l)) (map snd ps))
                | _ \<Rightarrow> if ps = [] then Inr None else Inl TypeError)))"

text \<open>The interface of an end: the instances the object has of it, and the interface itself.\<close>

definition resolve_interface ::
  "'sk assembly_env \<Rightarrow> 'sk with_ports \<Rightarrow> conn_end \<Rightarrow> exn + ((string \<times> (string \<times> string) list) list \<times> 'sk interface option)" where
  "resolve_interface env w e =
     (case en_iface e of
        None \<Rightarrow> Inr ([], None)
      | Some name \<Rightarrow> map_sum id (\<lambda>insts. (insts, map_of (a_hierarchy env) name)) (carried_interface w name))"

definition select_port ::
  "bool \<Rightarrow> (string \<times> (string \<times> string) list) list \<times> 'sk interface option \<Rightarrow> conn_end
     \<Rightarrow> exn + (conn_end \<times> (string \<times> string) list option)" where
  "select_port source iface e =
     (case (en_port e, iface) of
        (None, insts, Some i) \<Rightarrow>
          (case pick_instance source insts e of
             Inl x \<Rightarrow> Inl x
           | Inr None \<Rightarrow> Inr (e, None)
           | Inr (Some ps) \<Rightarrow>
               map_sum id (\<lambda>p. (e\<lparr>en_port := p\<rparr>, Some ps)) (pick_port (if_lead_port i) (en_port_pattern e) ps))
      | _ \<Rightarrow> Inr (e, None))"

text \<open>
  Two instances with several ports each: the ports of the same name where the two name theirs the same,
  and otherwise the first port a pattern names on one end with the port at the same place on the other.
\<close>

fun first_index :: "(string \<Rightarrow> bool) \<Rightarrow> string list \<Rightarrow> nat option" where
  "first_index P [] = None"
| "first_index P (x # xs) = (if P x then Some 0 else map_option Suc (first_index P xs))"

definition pattern_index :: "string option \<Rightarrow> string list \<Rightarrow> nat option \<Rightarrow> nat option" where
  "pattern_index pattern names default_index =
     (case pattern of
        None \<Rightarrow> default_index
      | Some p \<Rightarrow> (case first_index (\<lambda>n. fnmatch n p) names of None \<Rightarrow> default_index | Some i \<Rightarrow> Some i))"

definition port_indices ::
  "string option \<Rightarrow> string option \<Rightarrow> string list \<Rightarrow> string list \<Rightarrow> nat option \<times> nat option" where
  "port_indices with_pattern to_pattern sources targets =
     (if length sources = 1 then (None, None)
      else
        (let same = (length sources = length targets);
             first = (if with_pattern = None \<and> to_pattern = None \<and> same then Some 0 else None);
             w = pattern_index with_pattern sources first;
             t = pattern_index to_pattern targets first;
             t' = (if same \<and> w \<noteq> None \<and> t = None then w else t);
             w' = (if same \<and> w = None \<and> t' \<noteq> None then t' else w)
         in (w', t')))"

definition port_at_index :: "(string \<times> string) list \<Rightarrow> string list \<Rightarrow> nat option \<Rightarrow> string option" where
  "port_at_index inst names i = (case i of None \<Rightarrow> None | Some k \<Rightarrow> map_of inst (names ! k))"

definition match_ports ::
  "(string \<times> string) list option \<Rightarrow> (string \<times> string) list option \<Rightarrow> conn_end \<Rightarrow> conn_end \<Rightarrow> exn + (conn_end \<times> conn_end)" where
  "match_ports si ti s t =
     (case (si, ti) of
        (Some sp, Some tp) \<Rightarrow>
          (if en_port s \<noteq> None \<or> en_port t \<noteq> None then Inr (s, t)
           else
             (let sources = sort (map fst sp); targets = sort (map fst tp) in
              if sources = targets then
                (case sources of
                   [] \<Rightarrow> Inl IndexError
                 | name # _ \<Rightarrow> Inr (s\<lparr>en_port := map_of sp name\<rparr>, t\<lparr>en_port := map_of tp name\<rparr>))
              else
                (let (i, j) = port_indices (en_port_pattern s) (en_port_pattern t) sources targets
                 in Inr (s\<lparr>en_port := port_at_index sp sources i\<rparr>, t\<lparr>en_port := port_at_index tp targets j\<rparr>))))
      | _ \<Rightarrow> Inr (s, t))"

text \<open>
  The whole selection: both ends with the ports that were found, the interfaces they are of. Each end is
  asked for its port as soon as its name is known; a name that is no port of the object is an error.
\<close>

record 'sk resolved_end =
  re_end :: conn_end
  re_port :: "'sk port option"
  re_interface :: "'sk interface option"

definition resolved :: "'sk with_ports \<Rightarrow> conn_end \<Rightarrow> 'sk interface option \<Rightarrow> exn + 'sk resolved_end" where
  "resolved w e i = map_sum id (\<lambda>p. \<lparr>re_end = e, re_port = p, re_interface = i\<rparr>) (known_port w e)"

definition resolve_ends ::
  "'sk assembly_env \<Rightarrow> 'sk with_ports \<Rightarrow> 'sk with_ports option \<Rightarrow> conn_end \<Rightarrow> conn_end
     \<Rightarrow> exn + ('sk resolved_end \<times> 'sk resolved_end)" where
  "resolve_ends env ws target_ports s t =
     (case only_port True ws (only_interface ws s) of
        Inl x \<Rightarrow> Inl x
      | Inr s \<Rightarrow>
     (case known_port ws s of
        Inl x \<Rightarrow> Inl x
      | Inr _ \<Rightarrow>
     (case target_ports of
        None \<Rightarrow> Inl AttributeError
      | Some wt \<Rightarrow>
     (case only_port False wt (only_interface wt t) of
        Inl x \<Rightarrow> Inl x
      | Inr t \<Rightarrow>
     (case known_port wt t of
        Inl x \<Rightarrow> Inl x
      | Inr _ \<Rightarrow>
     (case by_mating env ws wt s t of
        Inl x \<Rightarrow> Inl x
      | Inr (s, t) \<Rightarrow>
     (case resolve_interface env ws s of
        Inl x \<Rightarrow> Inl x
      | Inr si \<Rightarrow>
     (case resolve_interface env wt t of
        Inl x \<Rightarrow> Inl x
      | Inr ti \<Rightarrow>
     (case select_port True si s of
        Inl x \<Rightarrow> Inl x
      | Inr (s, sp) \<Rightarrow>
     (case select_port False ti t of
        Inl x \<Rightarrow> Inl x
      | Inr (t, tp) \<Rightarrow>
     (case match_ports sp tp s t of
        Inl x \<Rightarrow> Inl x
      | Inr (s, t) \<Rightarrow>
     (case resolved ws s (snd si) of
        Inl x \<Rightarrow> Inl x
      | Inr s \<Rightarrow> map_sum id (Pair s) (resolved wt t (snd ti))))))))))))))"

section \<open>Where the item ends up\<close>

definition axis_location :: "vec3 \<Rightarrow> vec3 \<Rightarrow> real \<Rightarrow> location" where
  "axis_location t ax angle = (case packed_location (t, ax, angle) of None \<Rightarrow> identity_location | Some l \<Rightarrow> l)"

text \<open>Two ports meet face to face: the frame of one is turned about the diagonal of its x and y axes.\<close>

definition turn_around :: location where
  "turn_around = axis_location (0, 0, 0) (71 / 100, 71 / 100, 0) 180"

fun offsets_of :: "(string \<times> interface_parameter) list \<Rightarrow> (string \<times> pyval) list \<Rightarrow> exn + location list" where
  "offsets_of params [] = Inr []"
| "offsets_of params ((name, v) # rest) =
     (case map_of params name of
        None \<Rightarrow> offsets_of params rest
      | Some p \<Rightarrow>
          (case num_of v of
             Some (Fin r) \<Rightarrow>
               (case get_offsets p r of
                  Inl e \<Rightarrow> Inl e
                | Inr os \<Rightarrow> map_sum id ((@) os) (offsets_of params rest))
           | _ \<Rightarrow> Inl TypeError))"

definition end_offsets :: "'sk resolved_end \<Rightarrow> exn + location list" where
  "end_offsets e =
     (case (re_interface e, en_params (re_end e)) of
        (None, _) \<Rightarrow> Inr []
      | (_, PNone) \<Rightarrow> Inr []
      | (Some i, PDict d) \<Rightarrow> offsets_of (if_params i) d
      | _ \<Rightarrow> Inl AttributeError)"

text \<open>
  The placement: the target and its port, turned around, moved by the freedom of movement of either
  end, and pulled back by the port of the source. An end without a port is taken at its origin, without
  offsets where it is the end that has them.
\<close>

definition connected_location ::
  "location \<Rightarrow> 'sk port option \<Rightarrow> location list \<Rightarrow> 'sk port option \<Rightarrow> location list \<Rightarrow> location" where
  "connected_location at_target target target_offsets source source_offsets =
     (let base = (case target of None \<Rightarrow> at_target | Some p \<Rightarrow> mul_location at_target (port_location p));
          turned = mul_location base turn_around;
          moved = (case target of None \<Rightarrow> turned | Some _ \<Rightarrow> foldl mul_location turned target_offsets)
      in case source of
           None \<Rightarrow> moved
         | Some p \<Rightarrow> mul_location (foldl mul_location moved source_offsets) (inverse_location (port_location p)))"

text \<open>A gap to show in the exploded view, in millimeters; what is no number is dropped.\<close>

definition exploded_distance :: "(string \<Rightarrow> pyfloat option) \<Rightarrow> pyval \<Rightarrow> pyfloat option" where
  "exploded_distance to_float v = (case v of PNone \<Rightarrow> None | PBool _ \<Rightarrow> None | _ \<Rightarrow> py_float_of to_float v)"

definition connection_info ::
  "'sk assembly_env \<Rightarrow> pydict \<Rightarrow> pyval \<Rightarrow> 'sk resolved_end \<Rightarrow> 'sk resolved_end \<Rightarrow> location \<Rightarrow> connection" where
  "connection_info env connect target s t at_target =
     \<lparr>cn_target = target, cn_with_port = en_port (re_end s), cn_to_port = en_port (re_end t),
      cn_with_interface = en_iface (re_end s), cn_to_interface = en_iface (re_end t),
      cn_exploded = exploded_distance (a_float env) (item_or_none connect ''exploded''),
      cn_interferes = as_names (a_repr env) (item_or_none connect ''interferes''),
      cn_point = map_option (\<lambda>p. let frame = mul_location at_target (port_location p)
                              in (loc_t frame, rotate_vector frame (0, 0, 1))) (re_port t)\<rparr>"

section \<open>A node, a list of nodes, a file\<close>

definition node_location :: "(string \<Rightarrow> pyfloat option) \<Rightarrow> pyval \<Rightarrow> exn + location" where
  "node_location to_float v =
     (case v of
        PList (t # ax # angle # _) \<Rightarrow> location_of to_float (PList [t, ax, angle])
      | PList _ \<Rightarrow> Inl IndexError
      | _ \<Rightarrow> Inl TypeError)"

text \<open>How a node says where its item is: at a location, or by what it is connected to.\<close>

datatype placing = At location | Connected pydict conn_end conn_end

definition read_connect :: "package_id \<Rightarrow> pyval \<Rightarrow> exn + placing" where
  "read_connect project v =
     (case v of
        PDict c \<Rightarrow>
          (case read_end project c ''with'' ''withParams'' ''withInstance'' ''withPort'' of
             Inl e \<Rightarrow> Inl e
           | Inr s \<Rightarrow> map_sum id (Connected c s) (read_end project c ''to'' ''toParams'' ''toInstance'' ''toPort''))
      | _ \<Rightarrow> Inl AttributeError)"

definition read_connect_ports :: "pyval \<Rightarrow> exn + placing" where
  "read_connect_ports v =
     (case v of
        PDict c \<Rightarrow>
          (case read_port_end c ''with'' of
             Inl e \<Rightarrow> Inl e
           | Inr s \<Rightarrow> map_sum id (Connected c s) (read_port_end c ''to''))
      | _ \<Rightarrow> Inl AttributeError)"

definition read_placing :: "'sk assembly_env \<Rightarrow> pydict \<Rightarrow> exn + placing" where
  "read_placing env node =
     (case map_of node ''location'' of
        Some v \<Rightarrow> map_sum id At (node_location (a_float env) v)
      | None \<Rightarrow>
          (case map_of node ''connect'' of
             Some v \<Rightarrow> read_connect (a_project env) v
           | None \<Rightarrow>
               (case map_of node ''connectPorts'' of
                  Some v \<Rightarrow> read_connect_ports v
                | None \<Rightarrow> Inr (At (axis_location (0, 0, 0) (0, 0, 1) 0)))))"

fun comment_of :: "placing \<Rightarrow> pyval" where
  "comment_of (At _) = PNone"
| "comment_of (Connected c _ _) = item_or_none c ''comment''"

fun how_of :: "(pyval \<Rightarrow> string) \<Rightarrow> placing \<Rightarrow> how option" where
  "how_of repr (At _) = None"
| "how_of repr (Connected c _ _) = Some (new_how repr (item_or_none c ''how''))"

fun location_if_at :: "placing \<Rightarrow> location option" where
  "location_if_at (At l) = Some l"
| "location_if_at (Connected _ _ _) = None"

fun with_ports_of :: "'sk built \<Rightarrow> 'sk with_ports option" where
  "with_ports_of (Object it) = pi_with_ports it"
| "with_ports_of (Container _ _ _) = None"

definition hold_item :: "'sk placed_item \<Rightarrow> ConnectHow.item" where
  "hold_item it =
     \<lparr>item_config = pi_config it, project_name = pi_project it,
      interfaces = (case pi_with_ports it of
                      None \<Rightarrow> []
                    | Some w \<Rightarrow> map (\<lambda>(n, insts). (n, map fst insts)) (w_interfaces w))\<rparr>"

fun target_item :: "'sk built \<Rightarrow> ConnectHow.item option" where
  "target_item (Object it) = Some (hold_item it)"
| "target_item (Container _ _ _) = None"

definition mated_end :: "'sk hierarchy \<Rightarrow> 'sk interface \<Rightarrow> interface_end" where
  "mated_end h i =
     \<lparr>full_name = Some (if_name i), compatible_with = Matings.compatible_with h (if_name i),
      end_thread_step = get_thread_step h (if_name i), end_self_screw = get_self_screw h (if_name i)\<rparr>"

definition resolve_how ::
  "'sk assembly_env \<Rightarrow> 'sk placed_item option \<Rightarrow> ConnectHow.item option \<Rightarrow> 'sk interface option \<Rightarrow> 'sk interface option
     \<Rightarrow> how \<Rightarrow> exn + how" where
  "resolve_how env it target si ti h =
     (let s = map_option (mated_end (a_hierarchy env)) si; t = map_option (mated_end (a_hierarchy env)) ti
      in ConnectHow.resolve (a_repr env) (a_mating env s t) (map_option hold_item it) target s t h)"

text \<open>
  Connecting an item to the first of the items before it that has the name. Where there is none, the
  item stays without a placement.
\<close>

definition connect_item ::
  "'sk assembly_env \<Rightarrow> 'sk built child list \<Rightarrow> 'sk placed_item option \<Rightarrow> pydict \<Rightarrow> conn_end \<Rightarrow> conn_end \<Rightarrow> how
     \<Rightarrow> exn + (location option \<times> connection option \<times> how)" where
  "connect_item env children it connect s t h =
     (let name = item_or_none connect ''name'' in
      case find (\<lambda>c. ch_name c = name) children of
        None \<Rightarrow> map_sum id (\<lambda>h. (None, None, h)) (resolve_how env it None None None h)
      | Some c \<Rightarrow>
     (case Option.bind it pi_with_ports of
        None \<Rightarrow> Inl AttributeError
      | Some ws \<Rightarrow>
     (case resolve_ends env ws (with_ports_of (ch_item c)) s t of
        Inl e \<Rightarrow> Inl e
      | Inr (s, t) \<Rightarrow>
     (case end_offsets s of
        Inl e \<Rightarrow> Inl e
      | Inr so \<Rightarrow>
     (case end_offsets t of
        Inl e \<Rightarrow> Inl e
      | Inr to \<Rightarrow>
     (case ch_location c of
        None \<Rightarrow> Inl TypeError
      | Some at_target \<Rightarrow>
          map_sum id
            (\<lambda>h. (Some (connected_location at_target (re_port t) to (re_port s) so),
                  Some (connection_info env connect name s t at_target), h))
            (resolve_how env it (target_item (ch_item c)) (re_interface s) (re_interface t) h)))))))"

text \<open>The object a node names, and the name it goes by.\<close>

definition object_of_node :: "'sk assembly_env \<Rightarrow> pydict \<Rightarrow> exn + (pyval \<times> 'sk placed_item) option" where
  "object_of_node env node =
     (let name = item_or_none node ''name'';
          find_object = (\<lambda>kind lookup missing params.
            case node_object_name (a_project env) node kind of
              Inl e \<Rightarrow> Inl e
            | Inr n \<Rightarrow>
                (case lookup n params of
                   None \<Rightarrow> Inl (Raised missing)
                 | Some it \<Rightarrow> Inr (Some (if name = PNone then item_or_none node kind else name, it))))
      in case node_params node of
           Inl e \<Rightarrow> Inl e
         | Inr params \<Rightarrow>
             (if dict_has node ''assembly'' then find_object ''assembly'' (a_get_assembly env) ''Assembly not found'' params
              else if dict_has node ''part'' then find_object ''part'' (a_get_part env) ''Part not found'' params
              else Inr None))"

definition handle_object ::
  "'sk assembly_env \<Rightarrow> 'sk built child list \<Rightarrow> pydict \<Rightarrow> placing \<Rightarrow> exn + 'sk built child option" where
  "handle_object env children node p =
     (case object_of_node env node of
        Inl e \<Rightarrow> Inl e
      | Inr found \<Rightarrow>
          (case (case p of
                   At l \<Rightarrow> Inr (Some l, None, None)
                 | Connected c s t \<Rightarrow>
                     map_sum id (\<lambda>(l, i, h). (l, i, Some h))
                       (connect_item env children (map_option snd found) c s t (new_how (a_repr env) (item_or_none c ''how''))))
           of
             Inl e \<Rightarrow> Inl e
           | Inr (l, i, h) \<Rightarrow>
               Inr (map_option (\<lambda>(name, it).
                      Child (Object it) name l (comment_of p) h i (node_description (a_repr env) (PDict node))
                        (dict_has node ''location'')) found)))"

definition container_name :: "'sk assembly_env \<Rightarrow> pydict \<Rightarrow> string" where
  "container_name env node =
     (let name = item_or_none node ''name''
      in a_name env @ '':'' @ (if truthy name then py_str (a_repr env) name else ''links''))"

definition handle_container ::
  "'sk assembly_env \<Rightarrow> pydict \<Rightarrow> placing \<Rightarrow> 'sk built child list \<Rightarrow> 'sk built child" where
  "handle_container env node p contents =
     (let description = node_description (a_repr env) (PDict node)
      in Child (Container (container_name env node) description contents) (item_or_none node ''name'') (location_if_at p)
           (comment_of p) (how_of (a_repr env) p) None description (dict_has node ''location''))"

text \<open>A node that is no mapping is passed over, unless one of the keys asked for is found in it.\<close>

definition NODE_KEYS :: "string list" where
  "NODE_KEYS = [''name'', ''location'', ''connect'', ''connectPorts'', ''links'', ''params'', ''assembly'', ''part'']"

definition other_node :: "pyval \<Rightarrow> exn + 'i child option" where
  "other_node v =
     (case v of
        PList xs \<Rightarrow> if \<exists>k \<in> set NODE_KEYS. PStr k \<in> set xs then Inl TypeError else Inr None
      | PStr s \<Rightarrow> if \<exists>k \<in> set NODE_KEYS. contains_sub s k then Inl TypeError else Inr None
      | _ \<Rightarrow> Inl TypeError)"

text \<open>Links that are no list: the keys of a mapping and the characters of a text are its nodes.\<close>

definition other_links :: "pyval \<Rightarrow> exn + 'i child list" where
  "other_links v =
     (case v of
        PDict d \<Rightarrow> if \<exists>k \<in> set NODE_KEYS. \<exists>n \<in> fst ` set d. contains_sub n k then Inl TypeError else Inr []
      | PStr s \<Rightarrow> Inr []
      | _ \<Rightarrow> Inl TypeError)"

fun handle_node :: "'sk assembly_env \<Rightarrow> 'sk built child list \<Rightarrow> pyval \<Rightarrow> exn + 'sk built child option"
  and handle_nodes :: "'sk assembly_env \<Rightarrow> 'sk built child list \<Rightarrow> pyval list \<Rightarrow> exn + 'sk built child list"
  and handle_links :: "'sk assembly_env \<Rightarrow> (string \<times> pyval) list \<Rightarrow> (exn + 'sk built child list) option" where
  "handle_node env children (PDict node) =
     (case read_placing env node of
        Inl e \<Rightarrow> Inl e
      | Inr p \<Rightarrow>
          (case handle_links env node of
             None \<Rightarrow> handle_object env children node p
           | Some r \<Rightarrow> map_sum id (\<lambda>contents. Some (handle_container env node p contents)) r))"
| "handle_node env children v = other_node v"
| "handle_nodes env children [] = Inr children"
| "handle_nodes env children (node # rest) =
     (case handle_node env children node of
        Inl e \<Rightarrow> Inl e
      | Inr c \<Rightarrow> handle_nodes env (children @ (case c of None \<Rightarrow> [] | Some x \<Rightarrow> [x])) rest)"
| "handle_links env [] = None"
| "handle_links env ((k, v) # node) =
     (if k = ''links'' then
        (case v of PNone \<Rightarrow> None | PList nodes \<Rightarrow> Some (handle_nodes env [] nodes) | _ \<Rightarrow> Some (other_links v))
      else handle_links env node)"

definition moved_child :: "location \<Rightarrow> 'i child \<Rightarrow> 'i child" where
  "moved_child placement c =
     Child (ch_item c) (ch_name c)
       (Some (case ch_location c of None \<Rightarrow> placement | Some l \<Rightarrow> mul_location placement l))
       (ch_comment c) (ch_how c) (ch_connection c) (ch_description c) (ch_located c)"

definition apply_root_placement ::
  "'sk assembly_env \<Rightarrow> pydict \<Rightarrow> 'sk built child list \<Rightarrow> exn + 'sk built child list" where
  "apply_root_placement env node children =
     (case item_or_none node ''location'' of
        PNone \<Rightarrow> Inr children
      | v \<Rightarrow>
          map_sum id (\<lambda>placement. map (moved_child placement) children) (location_of (a_float env) v))"

text \<open>\<open>instantiate_async\<close>: the root of a file that has links is the assembly itself.\<close>

definition instantiate_file :: "'sk assembly_env \<Rightarrow> pyval \<Rightarrow> exn + 'sk built child list" where
  "instantiate_file env parsed =
     (let assy = (if parsed = PNone then PDict [] else parsed) in
      case (case assy of PDict node \<Rightarrow> (case handle_links env node of None \<Rightarrow> None | Some r \<Rightarrow> Some (node, r)) | _ \<Rightarrow> None) of
        Some (node, r) \<Rightarrow> (case r of Inl e \<Rightarrow> Inl e | Inr children \<Rightarrow> apply_root_placement env node children)
      | None \<Rightarrow> map_sum id (\<lambda>c. case c of None \<Rightarrow> [] | Some x \<Rightarrow> [x]) (handle_node env [] assy))"

end
