(* ===== verification/AssemblyPlacement.thy ===== *)
theory AssemblyPlacement
  imports AssemblyConnect
begin

text \<open>
  What the connections of an assembly come out to: connected items meet, also after the whole assembly
  is moved; what need not be named in a connection and what cannot be named; and what is built before
  an assembly is what it is made of.
\<close>

section \<open>Connected items meet\<close>

lemma axis_location_rigid [simp]: "rigid (axis_location t ax angle)"
  by (auto simp: axis_location_def placed.one_valid packed_rigid split: option.splits)

lemma turn_around_rigid [simp]: "rigid turn_around"
  by (simp add: turn_around_def)

lemma location_of_rigid: "location_of f v = Inr l \<Longrightarrow> rigid l"
  by (auto simp: location_of_def packed_rigid split: pyval.splits list.splits sum.splits option.splits prod.splits)

lemma get_offsets_rigid: "get_offsets p r = Inr os \<Longrightarrow> o' \<in> set os \<Longrightarrow> rigid o'"
  by (auto simp: get_offsets_def packed_rigid split: if_splits option.splits prod.splits)

text \<open>The moves a connection may make: what the freedom of movement of some interface comes out to.\<close>

definition movements :: "'sk hierarchy \<Rightarrow> location set" where
  "movements h =
     {l. \<exists>x i n p r os. map_of h x = Some i \<and> map_of (if_params i) n = Some p \<and> get_offsets p r = Inr os \<and> l \<in> set os}"

lemma movements_rigid: "l \<in> movements h \<Longrightarrow> rigid l"
  by (auto simp: movements_def dest: get_offsets_rigid)

lemma offsets_of_moves:
  "offsets_of params d = Inr os \<Longrightarrow> l \<in> set os \<Longrightarrow>
     \<exists>n p r os'. map_of params n = Some p \<and> get_offsets p r = Inr os' \<and> l \<in> set os'"
proof (induction params d arbitrary: os rule: offsets_of.induct)
  case (2 params name v rest)
  then show ?case
    by (cases "map_of params name") (fastforce simp: map_sum_Inr split: option.splits pyfloat.splits sum.splits)+
qed simp

definition of_hierarchy :: "'sk hierarchy \<Rightarrow> 'sk resolved_end \<Rightarrow> bool" where
  "of_hierarchy h e = (\<forall>i. re_interface e = Some i \<longrightarrow> (\<exists>x. map_of h x = Some i))"

lemma end_offsets_moves:
  assumes "end_offsets e = Inr os" and "of_hierarchy h e"
  shows "set os \<subseteq> movements h"
proof
  fix l assume l: "l \<in> set os"
  then obtain i d where i: "re_interface e = Some i" and os: "offsets_of (if_params i) d = Inr os"
    using assms(1) by (auto simp: end_offsets_def split: option.splits pyval.splits)
  obtain x where "map_of h x = Some i" using assms(2) i by (auto simp: of_hierarchy_def)
  then show "l \<in> movements h" using offsets_of_moves [OF os l] unfolding movements_def by blast
qed

lemma resolve_ends_facts:
  assumes "resolve_ends env ws tp s t = Inr (s', t')"
  shows "\<exists>wt. tp = Some wt \<and> known_port ws (re_end s') = Inr (re_port s') \<and> known_port wt (re_end t') = Inr (re_port t')
       \<and> of_hierarchy (a_hierarchy env) s' \<and> of_hierarchy (a_hierarchy env) t'"
  using assms
  by (auto simp: resolve_ends_def resolved_def map_sum_Inr of_hierarchy_def resolve_interface_def
      split: sum.splits option.splits prod.splits)

text \<open>Objects whose ports are at rigid placements, which is what reading a placement gives.\<close>

definition sound_ports :: "'sk with_ports \<Rightarrow> bool" where
  "sound_ports w = (\<forall>n p. map_of (w_ports w) n = Some p \<longrightarrow> rigid (port_location p))"

definition sound_built :: "'sk built \<Rightarrow> bool" where
  "sound_built b = (\<forall>w. with_ports_of b = Some w \<longrightarrow> sound_ports w)"

definition sound_child :: "'sk built child \<Rightarrow> bool" where
  "sound_child c = (sound_built (ch_item c) \<and> (\<forall>l. ch_location c = Some l \<longrightarrow> rigid l))"

definition sound_env :: "'sk assembly_env \<Rightarrow> bool" where
  "sound_env env =
     (\<forall>n ps it. a_get_part env n ps = Some it \<or> a_get_assembly env n ps = Some it \<longrightarrow> sound_built (Object it))"

text \<open>
  What a connection promises: the port of the item is where the port of its target is, turned around, up
  to the freedom of movement of the interfaces. The target is the first item before it of that name.
\<close>

definition meets ::
  "'sk hierarchy \<Rightarrow> 'sk built child list \<Rightarrow> 'sk placed_item \<Rightarrow> location \<Rightarrow> connection \<Rightarrow> bool" where
  "meets h prev it l cn =
     (\<forall>p q. cn_with_port cn = Some p \<longrightarrow> cn_to_port cn = Some q \<longrightarrow>
        (\<exists>d w sp w' tp at_target os.
           find (\<lambda>c. ch_name c = cn_target cn) prev = Some d \<and> ch_location d = Some at_target
         \<and> pi_with_ports it = Some w \<and> map_of (w_ports w) p = Some sp
         \<and> with_ports_of (ch_item d) = Some w' \<and> map_of (w_ports w') q = Some tp \<and> set os \<subseteq> movements h
         \<and> mul_location l (port_location sp)
           = foldl mul_location (mul_location (mul_location at_target (port_location tp)) turn_around) os))"

definition child_meets :: "'sk hierarchy \<Rightarrow> 'sk built child list \<Rightarrow> 'sk built child \<Rightarrow> bool" where
  "child_meets h prev c =
     (\<forall>it cn. ch_item c = Object it \<longrightarrow> ch_connection c = Some cn \<longrightarrow>
        (\<exists>l. ch_location c = Some l \<and> meets h prev it l cn))"

definition all_meet :: "'sk hierarchy \<Rightarrow> 'sk built child list \<Rightarrow> bool" where
  "all_meet h cs = (\<forall>k < length cs. child_meets h (take k cs) (cs ! k))"

lemma connected_location_facts:
  assumes "rigid at_target" and "\<And>p. target = Some p \<Longrightarrow> rigid (port_location p)"
    and "\<And>p. source = Some p \<Longrightarrow> rigid (port_location p)"
    and "set to \<subseteq> movements h" and "set so \<subseteq> movements h"
  shows "rigid (connected_location at_target target to source so)"
    and "target = Some tp \<Longrightarrow> source = Some sp \<Longrightarrow>
      mul_location (connected_location at_target target to source so) (port_location sp)
      = foldl mul_location (mul_location (mul_location at_target (port_location tp)) turn_around) (to @ so)"
proof -
  have r: "rigid l" if "l \<in> set to \<union> set so" for l using that assms(4,5) movements_rigid by blast
  show "rigid (connected_location at_target target to source so)"
    using assms(1-3) r
    by (auto simp: connected_location_def Let_def placed.mul_valid placed.inv_valid placed.fold_valid split: option.splits)
  assume t: "target = Some tp" and s: "source = Some sp"
  have "rigid (foldl mul_location (mul_location (mul_location at_target (port_location tp)) turn_around) (to @ so))"
    using assms(1,2) t r by (intro placed.fold_valid) (auto simp: placed.mul_valid)
  then show "mul_location (connected_location at_target target to source so) (port_location sp)
      = foldl mul_location (mul_location (mul_location at_target (port_location tp)) turn_around) (to @ so)"
    using placed.pulled_back assms(3) [OF s] by (simp add: connected_location_def Let_def t s)
qed

lemma known_port_sound: "known_port w e = Inr (Some p) \<Longrightarrow> sound_ports w \<Longrightarrow> rigid (port_location p)"
  by (auto simp: known_port_def sound_ports_def split: option.splits)

lemma known_port_named: "known_port w e = Inr r \<Longrightarrow> en_port e = Some n \<Longrightarrow> \<exists>p. r = Some p \<and> map_of (w_ports w) n = Some p"
  by (cases "map_of (w_ports w) n") (auto simp: known_port_def)

lemma connect_item_meets:
  assumes c: "connect_item env children (Some it) connect s t hw = Inr (l, cn, hw')"
    and kids: "\<forall>c \<in> set children. sound_child c" and it: "sound_built (Object it)"
  shows "(\<forall>l'. l = Some l' \<longrightarrow> rigid l') \<and> (\<forall>cn'. cn = Some cn' \<longrightarrow> (\<exists>l'. l = Some l' \<and> meets (a_hierarchy env) children it l' cn'))"
proof (cases "find (\<lambda>c. ch_name c = item_or_none connect ''name'') children")
  case None
  then show ?thesis using c by (auto simp: connect_item_def Let_def map_sum_Inr)
next
  case (Some d)
  let ?h = "a_hierarchy env"
  obtain ws s' t' so to at_target where ws: "pi_with_ports it = Some ws"
    and ends: "resolve_ends env ws (with_ports_of (ch_item d)) s t = Inr (s', t')"
    and so: "end_offsets s' = Inr so" and to: "end_offsets t' = Inr to" and at_d: "ch_location d = Some at_target"
    and l: "l = Some (connected_location at_target (re_port t') to (re_port s') so)"
    and cn: "cn = Some (connection_info env connect (item_or_none connect ''name'') s' t' at_target)"
    using c Some by (auto simp: connect_item_def Let_def map_sum_Inr split: option.splits sum.splits)
  obtain wt where wt: "with_ports_of (ch_item d) = Some wt" and ks: "known_port ws (re_end s') = Inr (re_port s')"
    and kt: "known_port wt (re_end t') = Inr (re_port t')" and h: "of_hierarchy ?h s'" "of_hierarchy ?h t'"
    using resolve_ends_facts [OF ends] by blast
  have d: "sound_child d" using Some kids by (auto dest: find_Some_iff [THEN iffD1])
  have "rigid at_target" using d at_d by (simp add: sound_child_def)
  moreover have "rigid (port_location p)" if "re_port t' = Some p" for p
    using d kt wt that known_port_sound by (auto simp: sound_child_def sound_built_def)
  moreover have "rigid (port_location p)" if "re_port s' = Some p" for p
    using it ks ws that known_port_sound by (auto simp: sound_built_def)
  moreover note end_offsets_moves [OF to h(2)] end_offsets_moves [OF so h(1)]
  ultimately have facts: "rigid (connected_location at_target (re_port t') to (re_port s') so)"
    "\<And>tp sp. re_port t' = Some tp \<Longrightarrow> re_port s' = Some sp \<Longrightarrow>
      mul_location (connected_location at_target (re_port t') to (re_port s') so) (port_location sp)
      = foldl mul_location (mul_location (mul_location at_target (port_location tp)) turn_around) (to @ so)"
    and moves: "set (to @ so) \<subseteq> movements ?h"
    using connected_location_facts [of at_target "re_port t'" "re_port s'" to ?h so] by auto
  have "meets ?h children it (connected_location at_target (re_port t') to (re_port s') so)
      (connection_info env connect (item_or_none connect ''name'') s' t' at_target)"
    unfolding meets_def
  proof (intro allI impI)
    fix p q
    assume "cn_with_port (connection_info env connect (item_or_none connect ''name'') s' t' at_target) = Some p"
      and "cn_to_port (connection_info env connect (item_or_none connect ''name'') s' t' at_target) = Some q"
    then have "en_port (re_end s') = Some p" "en_port (re_end t') = Some q" by (simp_all add: connection_info_def)
    then obtain sp tp where "re_port s' = Some sp" "map_of (w_ports ws) p = Some sp"
      "re_port t' = Some tp" "map_of (w_ports wt) q = Some tp"
      using known_port_named ks kt by blast
    moreover have "cn_target (connection_info env connect (item_or_none connect ''name'') s' t' at_target) = item_or_none connect ''name''"
      by (simp add: connection_info_def)
    ultimately show "\<exists>d w sp w' tp at_t os.
         find (\<lambda>c. ch_name c = cn_target (connection_info env connect (item_or_none connect ''name'') s' t' at_target)) children = Some d
       \<and> ch_location d = Some at_t \<and> pi_with_ports it = Some w \<and> map_of (w_ports w) p = Some sp
       \<and> with_ports_of (ch_item d) = Some w' \<and> map_of (w_ports w') q = Some tp \<and> set os \<subseteq> movements ?h
       \<and> mul_location (connected_location at_target (re_port t') to (re_port s') so) (port_location sp)
         = foldl mul_location (mul_location (mul_location at_t (port_location tp)) turn_around) os"
      using Some ws wt at_d moves facts(2) by metis
  qed
  then show ?thesis using facts(1) l cn by simp
qed

lemma read_placing_rigid: "read_placing env node = Inr (At l) \<Longrightarrow> rigid l"
  by (auto simp: read_placing_def node_location_def read_connect_def read_connect_ports_def map_sum_Inr
      split: option.splits pyval.splits list.splits sum.splits dest: location_of_rigid)

lemma object_of_node_sound: "sound_env env \<Longrightarrow> object_of_node env node = Inr (Some (n, it)) \<Longrightarrow> sound_built (Object it)"
  by (auto simp: object_of_node_def sound_env_def Let_def split: sum.splits if_splits option.splits)

lemma handle_object_meets:
  assumes h: "handle_object env children node p = Inr (Some c)" and p: "read_placing env node = Inr p"
    and kids: "\<forall>c \<in> set children. sound_child c" and env: "sound_env env"
  shows "sound_child c \<and> child_meets (a_hierarchy env) children c"
proof -
  obtain n it l i hw where o: "object_of_node env node = Inr (Some (n, it))"
    and c: "c = Child (Object it) n l (comment_of p) hw i (node_description (a_repr env) (PDict node)) (dict_has node ''location'')"
    and r: "(case p of At l \<Rightarrow> Inr (Some l, None, None)
        | Connected c s t \<Rightarrow> map_sum id (\<lambda>(l, i, h). (l, i, Some h))
            (connect_item env children (map_option snd (Some (n, it))) c s t (new_how (a_repr env) (item_or_none c ''how'')))) = Inr (l, i, hw)"
    using h by (auto simp: handle_object_def map_option_case split: sum.splits option.splits)
  have it: "sound_built (Object it)" by (rule object_of_node_sound [OF env o])
  show ?thesis
  proof (cases p)
    case (At at_l)
    then show ?thesis using r it p read_placing_rigid by (auto simp: c sound_child_def child_meets_def)
  next
    case (Connected cc s t)
    then obtain hw' where "connect_item env children (Some it) cc s t (new_how (a_repr env) (item_or_none cc ''how'')) = Inr (l, i, hw')"
      using r by (auto simp: map_sum_Inr)
    from connect_item_meets [OF this kids it] show ?thesis
      using it by (auto simp: c sound_child_def child_meets_def)
  qed
qed

lemma handle_node_meets:
  assumes "handle_node env children v = Inr (Some c)" and "\<forall>c \<in> set children. sound_child c" and "sound_env env"
  shows "sound_child c \<and> child_meets (a_hierarchy env) children c"
proof (cases v)
  case (PDict node)
  then obtain p where p: "read_placing env node = Inr p"
    and r: "(case handle_links env node of None \<Rightarrow> handle_object env children node p
           | Some r \<Rightarrow> map_sum id (\<lambda>contents. Some (handle_container env node p contents)) r) = Inr (Some c)"
    using assms(1) by (auto split: sum.splits)
  show ?thesis
  proof (cases "handle_links env node")
    case None
    then show ?thesis using handle_object_meets [OF _ p assms(2,3)] r by simp
  next
    case (Some x)
    then obtain cs where "c = handle_container env node p cs" using r by (auto simp: map_sum_Inr)
    moreover have "rigid l" if "location_if_at p = Some l" for l
      using that p read_placing_rigid by (cases p) auto
    ultimately show ?thesis by (auto simp: handle_container_def sound_child_def sound_built_def child_meets_def Let_def)
  qed
qed (use assms(1) in \<open>auto simp: other_node_def split: if_splits\<close>)

lemma all_meet_snoc: "all_meet h cs \<Longrightarrow> child_meets h cs c \<Longrightarrow> all_meet h (cs @ [c])"
  by (auto simp: all_meet_def nth_append less_Suc_eq)

lemma handle_nodes_meet:
  assumes "sound_env env"
  shows "handle_nodes env children nodes = Inr cs \<Longrightarrow> all_meet (a_hierarchy env) children \<Longrightarrow> \<forall>c \<in> set children. sound_child c \<Longrightarrow>
     all_meet (a_hierarchy env) cs \<and> (\<forall>c \<in> set cs. sound_child c)"
proof (induction nodes arbitrary: children)
  case (Cons v rest)
  obtain r where r: "handle_node env children v = Inr r"
    and n: "handle_nodes env (children @ (case r of None \<Rightarrow> [] | Some x \<Rightarrow> [x])) rest = Inr cs"
    using Cons.prems(1) by (auto split: sum.splits)
  show ?case
  proof (cases r)
    case None
    then show ?thesis using Cons.IH n Cons.prems by simp
  next
    case (Some c)
    have "sound_child c \<and> child_meets (a_hierarchy env) children c"
      using handle_node_meets [OF _ Cons.prems(3) assms] r Some by simp
    then show ?thesis
      using Cons.IH [OF n] Cons.prems(2,3) Some all_meet_snoc by auto
  qed
qed simp

text \<open>Moving all items together keeps what meets.\<close>

lemma mul_foldl:
  "rigid g \<Longrightarrow> rigid a \<Longrightarrow> \<forall>l \<in> set os. rigid l \<Longrightarrow> mul_location g (foldl mul_location a os) = foldl mul_location (mul_location g a) os"
  by (induction os arbitrary: a) (simp_all add: placed.mul_assoc placed.mul_valid)

lemma find_moved:
  "find (\<lambda>c. ch_name c = n) (map (moved_child g) cs) = map_option (moved_child g) (find (\<lambda>c. ch_name c = n) cs)"
  by (induction cs) (simp_all add: moved_child_def)

lemma sound_moved: "rigid g \<Longrightarrow> sound_child c \<Longrightarrow> sound_child (moved_child g c)"
  by (auto simp: sound_child_def moved_child_def placed.mul_valid split: option.splits)

lemma meets_moved:
  assumes g: "rigid g" and l: "rigid l" and it: "sound_built (Object it)" and prev: "\<forall>c \<in> set prev. sound_child c"
    and m: "meets h prev it l cn"
  shows "meets h (map (moved_child g) prev) it (mul_location g l) cn"
  unfolding meets_def
proof (intro allI impI)
  fix p q assume "cn_with_port cn = Some p" "cn_to_port cn = Some q"
  then obtain d w sp w' tp at_t os where d: "find (\<lambda>c. ch_name c = cn_target cn) prev = Some d" "ch_location d = Some at_t"
    and w: "pi_with_ports it = Some w" "map_of (w_ports w) p = Some sp"
    and w': "with_ports_of (ch_item d) = Some w'" "map_of (w_ports w') q = Some tp" and os: "set os \<subseteq> movements h"
    and eq: "mul_location l (port_location sp)
        = foldl mul_location (mul_location (mul_location at_t (port_location tp)) turn_around) os"
    using m unfolding meets_def by blast
  have "sound_child d" using d(1) prev by (auto dest: find_Some_iff [THEN iffD1])
  then have r: "rigid at_t" "rigid (port_location tp)"
    using d(2) w' by (auto simp: sound_child_def sound_built_def sound_ports_def)
  have moves: "\<forall>x \<in> set os. rigid x" using os movements_rigid by blast
  have base: "rigid (mul_location (mul_location at_t (port_location tp)) turn_around)" using r by (simp add: placed.mul_valid)
  have "mul_location (mul_location g l) (port_location sp)
      = foldl mul_location (mul_location g (mul_location (mul_location at_t (port_location tp)) turn_around)) os"
    by (simp add: placed.mul_assoc [OF g l] eq mul_foldl [OF g base moves])
  also have "mul_location g (mul_location (mul_location at_t (port_location tp)) turn_around)
      = mul_location (mul_location (mul_location g at_t) (port_location tp)) turn_around"
    using g r by (simp add: placed.mul_assoc placed.mul_valid)
  finally have "mul_location (mul_location g l) (port_location sp)
      = foldl mul_location (mul_location (mul_location (mul_location g at_t) (port_location tp)) turn_around) os" .
  moreover have "find (\<lambda>c. ch_name c = cn_target cn) (map (moved_child g) prev) = Some (moved_child g d)"
    by (simp add: find_moved d(1))
  moreover have "ch_location (moved_child g d) = Some (mul_location g at_t)" "ch_item (moved_child g d) = ch_item d"
    by (simp_all add: moved_child_def d(2))
  ultimately show "\<exists>d w sp w' tp at_t os.
           find (\<lambda>c. ch_name c = cn_target cn) (map (moved_child g) prev) = Some d \<and> ch_location d = Some at_t
         \<and> pi_with_ports it = Some w \<and> map_of (w_ports w) p = Some sp
         \<and> with_ports_of (ch_item d) = Some w' \<and> map_of (w_ports w') q = Some tp \<and> set os \<subseteq> movements h
         \<and> mul_location (mul_location g l) (port_location sp)
           = foldl mul_location (mul_location (mul_location at_t (port_location tp)) turn_around) os"
    using w w' os by metis
qed

lemma all_meet_moved:
  assumes g: "rigid g" and m: "all_meet h cs" and s: "\<forall>c \<in> set cs. sound_child c"
  shows "all_meet h (map (moved_child g) cs)"
  unfolding all_meet_def
proof (intro allI impI)
  fix k assume k: "k < length (map (moved_child g) cs)"
  then have c: "child_meets h (take k cs) (cs ! k)" "sound_child (cs ! k)" "\<forall>c \<in> set (take k cs). sound_child c"
    using m s by (auto simp: all_meet_def dest: in_set_takeD)
  show "child_meets h (take k (map (moved_child g) cs)) (map (moved_child g) cs ! k)"
    unfolding child_meets_def
  proof (intro allI impI)
    fix it cn assume "ch_item (map (moved_child g) cs ! k) = Object it" "ch_connection (map (moved_child g) cs ! k) = Some cn"
    then have it: "ch_item (cs ! k) = Object it" "ch_connection (cs ! k) = Some cn" using k by (simp_all add: moved_child_def)
    then obtain l where l: "ch_location (cs ! k) = Some l" "meets h (take k cs) it l cn"
      using c(1) by (auto simp: child_meets_def)
    have "rigid l" "sound_built (Object it)" using c(2) l(1) it(1) by (auto simp: sound_child_def)
    from meets_moved [OF g this c(3) l(2)]
    show "\<exists>l. ch_location (map (moved_child g) cs ! k) = Some l \<and> meets h (take k (map (moved_child g) cs)) it l cn"
      using k l(1) by (simp add: moved_child_def take_map)
  qed
qed

lemma handle_links_meet:
  assumes "sound_env env"
  shows "handle_links env node = Some (Inr cs) \<Longrightarrow> all_meet (a_hierarchy env) cs \<and> (\<forall>c \<in> set cs. sound_child c)"
proof (induction node)
  case (Cons e node)
  have n: "all_meet (a_hierarchy env) cs \<and> (\<forall>c \<in> set cs. sound_child c)" if "handle_nodes env [] nodes = Inr cs" for nodes
    using handle_nodes_meet [OF assms that] by (simp add: all_meet_def)
  have o: "cs = []" if "other_links v = Inr cs" for v
    using that by (auto simp: other_links_def split: pyval.splits if_splits)
  obtain k v where e: "e = (k, v)" by force
  show ?case
  proof (cases "k = ''links''")
    case True
    then have "(\<exists>nodes. handle_nodes env [] nodes = Inr cs) \<or> other_links v = Inr cs"
      using Cons.prems e by (cases v) auto
    then show ?thesis using n o [of v] by (auto simp: all_meet_def)
  next
    case False
    then show ?thesis using Cons e by simp
  qed
qed simp

text \<open>C6: 
  In an assembly read from a file, every item placed by a connection of two ports meets its target: the
  frame of its port is the frame of the target's port turned around, up to moves that the interfaces
  allow; the target is the first item before it of the name the connection states. A placement stated
  on the root of the file moves all of them and keeps that.
\<close>

theorem file_connections_meet:
  assumes "instantiate_file env assy = Inr children" and "sound_env env"
  shows "all_meet (a_hierarchy env) children"
proof (cases "\<exists>node r. (case (if assy = PNone then PDict [] else assy) of PDict node \<Rightarrow> (case handle_links env node of None \<Rightarrow> None | Some r \<Rightarrow> Some (node, r)) | _ \<Rightarrow> None) = Some (node, r)")
  case True
  then obtain node r where r: "handle_links env node = Some r"
    and root: "(case r of Inl e \<Rightarrow> Inl e | Inr children \<Rightarrow> apply_root_placement env node children) = Inr children"
    using assms(1) by (auto simp: instantiate_file_def Let_def split: pyval.splits option.splits if_splits)
  then obtain cs where cs: "handle_links env node = Some (Inr cs)" "apply_root_placement env node cs = Inr children"
    by (cases r) auto
  note m = handle_links_meet [OF assms(2) cs(1)]
  show ?thesis
  proof (cases "item_or_none node ''location'' = PNone")
    case True
    then show ?thesis using m cs(2) by (simp add: apply_root_placement_def)
  next
    case False
    then obtain g where "location_of (a_float env) (item_or_none node ''location'') = Inr g" "children = map (moved_child g) cs"
      using cs(2) by (auto simp: apply_root_placement_def map_sum_Inr split: pyval.splits)
    then show ?thesis using all_meet_moved m location_of_rigid by blast
  qed
next
  case False
  then obtain c where c: "handle_node env [] (if assy = PNone then PDict [] else assy) = Inr c"
    and children: "children = (case c of None \<Rightarrow> [] | Some x \<Rightarrow> [x])"
    using assms(1) by (auto simp: instantiate_file_def Let_def map_sum_Inr split: option.splits)
  show ?thesis
  proof (cases c)
    case (Some x)
    then have "child_meets (a_hierarchy env) [] x" using handle_node_meets [OF _ _ assms(2)] c by auto
    then show ?thesis by (simp add: children Some all_meet_def)
  qed (simp add: children all_meet_def)
qed

definition peg_ports :: "string \<Rightarrow> unit with_ports" where
  "peg_ports name = \<lparr>w_ports = [(name, plain_port name None)], w_interfaces = [], w_loose = True\<rparr>"

definition peg_item :: "string \<Rightarrow> unit placed_item" where
  "peg_item name = \<lparr>pi_config = PDict [], pi_project = Some ''//p'', pi_with_ports = Some (peg_ports name)\<rparr>"

definition peg_env :: "unit assembly_env" where
  "peg_env = \<lparr>a_name = ''asm'', a_project = \<lparr>package_name = ''//p'', declared_name = None\<rparr>, a_float = (\<lambda>_. None),
     a_repr = (\<lambda>_. []), a_get_assembly = (\<lambda>_ _. None), a_get_part = (\<lambda>n _. Some (peg_item n)),
     a_hierarchy = [], a_mates = [], a_mating = (\<lambda>_ _. None)\<rparr>"

definition peg_file :: pyval where
  "peg_file = PDict [(''links'', PList
     [PDict [(''part'', PStr ''hole'')],
      PDict [(''part'', PStr ''peg''), (''connectPorts'', PDict [(''name'', PStr ''hole'')])]])]"

lemma peg_sound: "sound_env peg_env"
  by (simp add: sound_env_def sound_built_def sound_ports_def peg_env_def peg_item_def peg_ports_def plain_port_def
      port_location_def placed.one_valid)

lemma peg_names:
  "node_object_name \<lparr>package_name = ''//p'', declared_name = None\<rparr> [(''part'', PStr ''hole'')] ''part'' = Inr ''//p:hole''"
  "node_object_name \<lparr>package_name = ''//p'', declared_name = None\<rparr>
     [(''part'', PStr ''peg''), (''connectPorts'', PDict [(''name'', PStr ''hole'')])] ''part'' = Inr ''//p:peg''"
  by code_simp+

lemma plain_holds: "connect_config it = [] \<Longrightarrow> resolve_holds repr [] [] it = Inr []"
  by (simp add: resolve_holds_def hold_defaults_of_def Let_def value_list_def)



lemma plain_how:
  assumes "connect_config (map_option hold_item it) = []" and "connect_config target = []"
  shows "\<exists>h. resolve_how env it target si ti (new_how (a_repr env) PNone) = Inr h"
proof -
  have "spec (resolve_snap_in m (resolve_thread_step m s t (new_how r PNone\<lparr>problems := []\<rparr>))) = []" for m s t r
    by (simp add: resolve_snap_in_def resolve_thread_step_keeps) (simp add: new_how_def Let_def HOW_FIELDS_DEPRECATED_def)
  then show ?thesis
    using plain_holds assms by (simp add: resolve_how_def ConnectHow.resolve_def Let_def value_list_def split: prod.splits)
qed

lemma peg_hole: "handle_node peg_env [] (PDict [(''part'', PStr ''hole'')]) =
    Inr (Some (Child (Object (peg_item ''//p:hole'')) (PStr ''hole'') (Some (axis_location (0, 0, 0) (0, 0, 1) 0)) PNone None None None False))"
  using peg_names(1)
  by (simp add: read_placing_def handle_object_def object_of_node_def node_params_def item_or_none_def Let_def
      node_description_def peg_env_def)

lemma peg_ends:
  "resolve_ends peg_env (peg_ports p) (Some (peg_ports q))
      \<lparr>en_iface = None, en_params = PNone, en_instance = None, en_instance_pattern = None, en_port = None, en_port_pattern = None\<rparr>
      \<lparr>en_iface = None, en_params = PNone, en_instance = None, en_instance_pattern = None, en_port = None, en_port_pattern = None\<rparr>
    = Inr (\<lparr>re_end = \<lparr>en_iface = None, en_params = PNone, en_instance = None, en_instance_pattern = None, en_port = Some p, en_port_pattern = None\<rparr>,
             re_port = Some (plain_port p None), re_interface = None\<rparr>,
           \<lparr>re_end = \<lparr>en_iface = None, en_params = PNone, en_instance = None, en_instance_pattern = None, en_port = Some q, en_port_pattern = None\<rparr>,
             re_port = Some (plain_port q None), re_interface = None\<rparr>)"
  by (simp add: resolve_ends_def only_interface_def only_port_def known_port_def by_mating_def undetermined_def
      resolve_interface_def select_port_def match_ports_def resolved_def peg_ports_def)


lemma peg_connected:
  "\<exists>l i h. connect_item peg_env [Child (Object (peg_item a)) (PStr ''hole'') (Some l0) cm hw cn d b] (Some (peg_item p))
     [(''name'', PStr ''hole'')]
      \<lparr>en_iface = None, en_params = PNone, en_instance = None, en_instance_pattern = None, en_port = None, en_port_pattern = None\<rparr>
      \<lparr>en_iface = None, en_params = PNone, en_instance = None, en_instance_pattern = None, en_port = None, en_port_pattern = None\<rparr>
      (new_how (a_repr peg_env) PNone) = Inr (l, Some i, h)"
proof -
  have c: "connect_config (Some (hold_item (peg_item n))) = []" for n
    by (simp add: connect_config_def hold_item_def peg_item_def)
  obtain h where "resolve_how peg_env (Some (peg_item p)) (Some (hold_item (peg_item a))) None None (new_how (a_repr peg_env) PNone) = Inr h"
    using plain_how [of "Some (peg_item p)" "Some (hold_item (peg_item a))" peg_env None None] c by auto
  then show ?thesis
    using peg_ends [of p a]
    by (simp add: connect_item_def item_or_none_def end_offsets_def Let_def) (simp add: peg_item_def end_offsets_def)
qed

theorem file_connections_meet_witness:
  "\<exists>a b. instantiate_file peg_env peg_file = Inr [a, b] \<and> ch_connection b \<noteq> None \<and> all_meet (a_hierarchy peg_env) [a, b]"
proof -
  let ?a = "Child (Object (peg_item ''//p:hole'')) (PStr ''hole'') (Some (axis_location (0, 0, 0) (0, 0, 1) 0)) PNone None None None False"
  obtain l i h where "connect_item peg_env [?a] (Some (peg_item ''//p:peg'')) [(''name'', PStr ''hole'')]
      \<lparr>en_iface = None, en_params = PNone, en_instance = None, en_instance_pattern = None, en_port = None, en_port_pattern = None\<rparr>
      \<lparr>en_iface = None, en_params = PNone, en_instance = None, en_instance_pattern = None, en_port = None, en_port_pattern = None\<rparr>
      (new_how (a_repr peg_env) PNone) = Inr (l, Some i, h)"
    using peg_connected by metis
  then obtain b where b: "handle_node peg_env [?a] (PDict [(''part'', PStr ''peg''), (''connectPorts'', PDict [(''name'', PStr ''hole'')])])
      = Inr (Some b)" and c: "ch_connection b = Some i"
    using peg_names(2)
    by (simp add: read_placing_def read_connect_ports_def read_port_end_def text_or_none_def split_pattern_def
        handle_object_def object_of_node_def node_params_def item_or_none_def peg_env_def Let_def)
  have "instantiate_file peg_env peg_file = Inr [?a, b]"
    using b peg_hole by (simp add: instantiate_file_def peg_file_def apply_root_placement_def item_or_none_def del: handle_node.simps)
  then show ?thesis using c file_connections_meet [OF _ peg_sound] by blast
qed

section \<open>Face to face\<close>

lemma turn_around_point: "transform_point turn_around (x, y, z) = (y, x, - z)"
proof -
  define n :: real where "n = sqrt (71 / 100 * (71 / 100) + 71 / 100 * (71 / 100) + 0 * 0)"
  have n: "n \<noteq> 0" "n * n = 2 * (71 / 100 * (71 / 100))" by (simp_all add: n_def)
  have n': "sqrt (5041 / 5000) = n" by (simp add: n_def)
  define s where "s = 71 / 100 / n"
  have "s * s = (71 / 100 * (71 / 100)) / (n * n)" by (simp add: s_def)
  then have s: "s * s = 1 / 2" by (simp add: n(2))
  have "packed_location ((0, 0, 0), (71 / 100, 71 / 100, 0), 180) = Some \<lparr>loc_q = (0, s, s, 0), loc_t = (0, 0, 0)\<rparr>"
    using n(1) n' by (simp add: packed_location_def axis_angle_to_quat_def Let_def s_def)
  then have "transform_point turn_around (x, y, z) = vec_add (rotate_vec (0, s, s, 0) (x, y, z)) (0, 0, 0)"
    by (simp add: turn_around_def axis_location_def transform_point_def)
  also have "\<dots> = (y, x, - z)" by (simp add: s algebra_simps)
  finally show ?thesis .
qed

text \<open>
  Without offsets, the two ports of a connection are face to face: a point of the source port's frame is
  where the point of the target port's frame with its x and y exchanged and its z turned over is.
\<close>

theorem ports_face_to_face:
  assumes "rigid at_target" and "rigid (port_location tp)" and "rigid (port_location sp)"
  shows "transform_point (connected_location at_target (Some tp) [] (Some sp) []) (transform_point (port_location sp) (x, y, z))
       = transform_point at_target (transform_point (port_location tp) (y, x, - z))"
proof -
  let ?l = "connected_location at_target (Some tp) [] (Some sp) []"
  note f = connected_location_facts [of at_target "Some tp" "Some sp" "[]" "[]" "[]"]
  have l: "rigid ?l" and eq: "mul_location ?l (port_location sp) = mul_location (mul_location at_target (port_location tp)) turn_around"
    using f assms by simp_all
  have "transform_point ?l (transform_point (port_location sp) (x, y, z))
      = transform_point (mul_location (mul_location at_target (port_location tp)) turn_around) (x, y, z)"
    by (simp add: placed.act_mul [OF l assms(3), symmetric] eq)
  also have "\<dots> = transform_point at_target (transform_point (port_location tp) (y, x, - z))"
    using assms(1,2) by (simp add: placed.act_mul placed.mul_valid turn_around_point)
  finally show ?thesis .
qed

theorem ports_face_to_face_witness:
  "transform_point (connected_location \<lparr>loc_q = IDENTITY_Q, loc_t = (0, 0, 5)\<rparr> (Some (plain_port ''hole'' None)) []
       (Some (plain_port ''peg'' (Some \<lparr>loc_q = IDENTITY_Q, loc_t = (0, 0, 2)\<rparr>))) []) (0, 0, 3) = (0, 0, 4)"
proof -
  let ?at = "\<lparr>loc_q = IDENTITY_Q, loc_t = (0, 0, 5)\<rparr>" and ?p = "\<lparr>loc_q = IDENTITY_Q, loc_t = (0, 0, 2)\<rparr>"
  have "rigid ?at" "rigid ?p" "rigid identity_location" by (simp_all add: rigid_identity_at placed.one_valid)
  then have "transform_point (connected_location ?at (Some (plain_port ''hole'' None)) [] (Some (plain_port ''peg'' (Some ?p))) [])
      (transform_point ?p (0, 0, 1)) = transform_point ?at (transform_point identity_location (0, 0, - 1))"
    using ports_face_to_face [of ?at "plain_port ''hole'' None" "plain_port ''peg'' (Some ?p)" 0 0 1]
    by (simp add: port_location_def plain_port_def)
  then show ?thesis by (simp add: transform_point_def identity_location_def IDENTITY_Q_def IDENTITY_T_def)
qed

section \<open>What need not be named, and what cannot be\<close>

text \<open>
  Two objects with one port each are connected without naming anything: the ports are found whatever
  interfaces they belong to, as long as the interface an end is of, if any, is one the object carries.
\<close>

theorem only_ports_need_no_name:
  assumes "w_ports ws = [(p, sp)]" and "w_ports wt = [(q, tp)]"
    and "en_port s = None" and "en_port t = None" and "en_iface s = None" and "en_iface t = None"
    and "\<forall>n \<in> fst ` set (w_interfaces ws) \<union> fst ` set (w_interfaces wt). take 1 n \<noteq> ''/'' \<or> take 2 n = ''//''"
  shows "\<exists>s' t'. resolve_ends env ws (Some wt) s t = Inr (s', t') \<and> re_port s' = Some sp \<and> re_port t' = Some tp
       \<and> en_port (re_end s') = Some p \<and> en_port (re_end t') = Some q"
proof -
  have iface: "\<exists>i. resolve_interface env w (only_interface w e\<lparr>en_port := Some n\<rparr>) = Inr i"
    if "en_iface e = None" "\<forall>n \<in> fst ` set (w_interfaces w). take 1 n \<noteq> ''/'' \<or> take 2 n = ''//''" for w and e n
  proof (cases "w_interfaces w")
    case (Cons f rest)
    then show ?thesis using that by (cases f; cases rest) (auto simp: only_interface_def resolve_interface_def carried_interface_def)
  qed (use that in \<open>simp add: only_interface_def resolve_interface_def\<close>)
  have s: "en_port (only_interface ws s) = None" and t: "en_port (only_interface wt t) = None"
    using assms(3,4) by (auto simp: only_interface_def split: list.splits)
  obtain i j where "resolve_interface env ws (only_interface ws s\<lparr>en_port := Some p\<rparr>) = Inr i"
    "resolve_interface env wt (only_interface wt t\<lparr>en_port := Some q\<rparr>) = Inr j"
    using iface assms(5-7) by (metis UnCI)
  then show ?thesis using assms(1,2) s t
    by (cases i; cases j) (simp add: resolve_ends_def only_port_def known_port_def by_mating_def undetermined_def select_port_def
        match_ports_def resolved_def)
qed

theorem only_ports_need_no_name_witness:
  "\<exists>s' t'. resolve_ends peg_env (peg_ports ''peg'') (Some (peg_ports ''hole''))
      \<lparr>en_iface = None, en_params = PNone, en_instance = None, en_instance_pattern = None, en_port = None, en_port_pattern = None\<rparr>
      \<lparr>en_iface = None, en_params = PNone, en_instance = None, en_instance_pattern = None, en_port = None, en_port_pattern = None\<rparr>
      = Inr (s', t') \<and> re_port s' = Some (plain_port ''peg'' None) \<and> re_port t' = Some (plain_port ''hole'' None)
       \<and> en_port (re_end s') = Some ''peg'' \<and> en_port (re_end t') = Some ''hole''"
  by (rule only_ports_need_no_name) (simp_all add: peg_ports_def)

lemma filter_one_in: "filter P xs = [x] \<Longrightarrow> x \<in> set xs"
  by (metis filter_is_subset list.set_intros(1) subsetD)

lemma find_in: "find P xs = Some x \<Longrightarrow> x \<in> set xs"
  by (auto simp: find_Some_iff)

lemma pick_port_in: "pick_port lead pattern ps = Inr (Some p) \<Longrightarrow> p \<in> set (map snd ps)"
  unfolding pick_port_def
  by (auto split: list.splits option.splits pyval.splits if_splits dest: filter_one_in find_in simp del: set_map list.set_map)

text \<open>
  A port found through the interface of an end is a port of the object, so asking the object for it does
  not fail, as long as the object lists no ports of interfaces it does not have.
\<close>

theorem found_port_exists:
  assumes "listed (w_interfaces w) \<subseteq> fst ` set (w_ports w)" and "resolve_interface env w e = Inr iface"
    and "select_port source iface e = Inr (e', ps)" and "en_port e = None" and "en_port e' = Some p"
  shows "\<exists>port. known_port w e' = Inr (Some port)"
proof -
  obtain insts i where iface: "iface = (insts, i)" by force
  then obtain ifc inst where i: "i = Some ifc" and inst: "pick_instance source insts e = Inr (Some inst)"
    and p: "pick_port (if_lead_port ifc) (en_port_pattern e) inst = Inr (Some p)"
    using assms(3-5) by (auto simp: select_port_def map_sum_Inr split: option.splits sum.splits)
  obtain n m where n: "en_iface e = Some n" "map_of (w_interfaces w) m = Some insts"
    using assms(2) iface i by (auto simp: resolve_interface_def carried_interface_def map_sum_Inr Let_def split: option.splits if_splits)
  have "p \<in> snd ` set inst" using pick_port_in [OF p] by simp
  moreover have "\<exists>k. (k, inst) \<in> set insts"
    using inst
    by (auto simp: pick_instance_def Let_def split: option.splits list.splits if_splits dest: map_of_SomeD)
  moreover have "(m, insts) \<in> set (w_interfaces w)" using n(2) by (rule map_of_SomeD)
  ultimately have "p \<in> listed (w_interfaces w)" unfolding listed_def ports_in_def by force
  then obtain port where "map_of (w_ports w) p = Some port"
    using assms(1) by (metis (no_types) domD dom_map_of_conv_image_fst subsetD)
  then show ?thesis by (simp add: known_port_def assms(5))
qed


text \<open>
  A node with links of its own that also states a connection is not connected: it is placed nowhere in
  particular, and nothing is reported.
\<close>

theorem container_connection_ignored:
  assumes "handle_node env children (PDict [(''links'', PList nodes), (''connect'', connect)]) = Inr (Some c)"
  shows "ch_location c = None \<and> ch_connection c = None"
  using assms
  by (auto simp: read_placing_def read_connect_def map_sum_Inr handle_container_def Let_def
      split: sum.splits pyval.splits option.splits)

section \<open>What is built first\<close>

text \<open>A file as its schema has it: every node a mapping, links a list of nodes.\<close>

fun plain_node :: "pyval \<Rightarrow> bool" and plain_nodes :: "pyval list \<Rightarrow> bool"
  and plain_links :: "(string \<times> pyval) list \<Rightarrow> bool" where
  "plain_node (PDict d) = plain_links d"
| "plain_node _ = False"
| "plain_nodes [] = True"
| "plain_nodes (v # vs) = (plain_node v \<and> plain_nodes vs)"
| "plain_links [] = True"
| "plain_links ((k, v) # d) =
     (if k = ''links'' then (case v of PNone \<Rightarrow> True | PList vs \<Rightarrow> plain_nodes vs | _ \<Rightarrow> False) else plain_links d)"

primrec objects_of :: "'sk built \<Rightarrow> 'sk placed_item list" where
  "objects_of (Object it) = [it]"
| "objects_of (Container n d cs) = concat (map ch_item (map (map_child objects_of) cs))"

definition objects_in :: "'sk built child list \<Rightarrow> 'sk placed_item list" where
  "objects_in cs = concat (map (\<lambda>c. objects_of (ch_item c)) cs)"

lemma objects_in_simps [simp]:
  "objects_in [] = []" "objects_in (c # cs) = objects_of (ch_item c) @ objects_in cs"
  "objects_in (cs @ ds) = objects_in cs @ objects_in ds"
  "objects_of (Container n d cs) = objects_in cs"
  by (simp_all add: objects_in_def child.map_sel o_def)

declare objects_of.simps(2) [simp del]

definition agrees :: "'sk assembly_env \<Rightarrow> exn + 'sk placed_item list \<Rightarrow> 'sk placed_item list \<Rightarrow> bool" where
  "agrees env r objs =
     (\<exists>found. r = Inr found \<and> set found \<subseteq> set objs \<and> set objs \<subseteq> set found \<union> {it. \<exists>n ps. a_get_part env n ps = Some it})"

lemma agrees_append:
  "agrees env r xs \<Longrightarrow> agrees env s ys \<Longrightarrow>
     agrees env (case r of Inl e \<Rightarrow> Inl e | Inr found \<Rightarrow> map_sum id ((@) found) s) (xs @ ys)"
  by (auto simp: agrees_def)

lemma object_agrees:
  assumes "object_of_node env node = Inr found" and "collect_from_links env node = None"
  shows "agrees env (collect_subassemblies env (PDict node)) (case found of None \<Rightarrow> [] | Some (n, it) \<Rightarrow> [it])"
  using assms
  by (auto simp: object_of_node_def agrees_def Let_def map_sum_Inr split: sum.splits option.splits if_splits)

lemma collect_agrees:
  fixes env :: "'sk assembly_env"
  shows "plain_node v \<Longrightarrow> handle_node env children v = Inr r \<Longrightarrow>
      agrees env (collect_subassemblies env v) (case r of None \<Rightarrow> [] | Some c \<Rightarrow> objects_of (ch_item c))"
    and "plain_nodes vs \<Longrightarrow> handle_nodes env children vs = Inr cs \<Longrightarrow>
      \<exists>new. cs = children @ new \<and> agrees env (collect_from_list env vs) (objects_in new)"
    and "plain_links node \<Longrightarrow>
      (handle_links env node = None \<longleftrightarrow> collect_from_links env node = None) \<and>
      (\<forall>ds. handle_links env node = Some (Inr ds) \<longrightarrow>
         (\<exists>x. collect_from_links env node = Some x \<and> agrees env x (objects_in ds)))"
proof (induction env children v and env children vs and env node arbitrary: r and cs
    rule: handle_node_handle_nodes_handle_links.induct)
  case (1 env children node)
  obtain p where p: "read_placing env node = Inr p"
    and h: "(case handle_links env node of None \<Rightarrow> handle_object env children node p
           | Some x \<Rightarrow> map_sum id (\<lambda>contents. Some (handle_container env node p contents)) x) = Inr r"
    using "1.prems"(2) by (auto split: sum.splits)
  note links = "1.IH" [OF p] "1.prems"(1)
  show ?case
  proof (cases "handle_links env node")
    case None
    then have none: "collect_from_links env node = None" using links by simp
    obtain found where o: "object_of_node env node = Inr found" using h None by (auto simp: handle_object_def split: sum.splits)
    have "(case r of None \<Rightarrow> [] | Some c \<Rightarrow> objects_of (ch_item c)) = (case found of None \<Rightarrow> [] | Some (n, it) \<Rightarrow> [it])"
      using h None o by (auto simp: handle_object_def split: sum.splits option.splits)
    then show ?thesis using object_agrees [OF o none] by simp
  next
    case (Some x)
    then obtain ds where ds: "x = Inr ds" "r = Some (handle_container env node p ds)" using h by (auto simp: map_sum_Inr)
    then obtain y where "collect_from_links env node = Some y" "agrees env y (objects_in ds)" using links Some by auto
    then show ?thesis using ds by (simp add: handle_container_def Let_def)
  qed
next
  case (4 env children node rest)
  obtain c where c: "handle_node env children node = Inr c"
    and n: "handle_nodes env (children @ (case c of None \<Rightarrow> [] | Some x \<Rightarrow> [x])) rest = Inr cs"
    using "4.prems"(2) by (auto split: sum.splits)
  let ?c = "case c of None \<Rightarrow> [] | Some x \<Rightarrow> [x]"
  have "agrees env (collect_subassemblies env node) (objects_in ?c)"
    using "4.IH"(1) [OF _ c] "4.prems"(1) by (cases c) auto
  moreover obtain new where new: "cs = (children @ ?c) @ new" "agrees env (collect_from_list env rest) (objects_in new)"
    using "4.IH"(2) [OF c _ n] "4.prems"(1) by auto
  ultimately show ?case using agrees_append by (intro exI [of _ "?c @ new"]) simp
next
  case (6 env k v node)
  then show ?case by (cases v) auto
qed (auto simp: agrees_def)

lemma objects_moved [simp]: "objects_in (map (moved_child g) cs) = objects_in cs"
  by (induction cs) (simp_all add: moved_child_def)

text \<open>C34: 
  What is built before an assembly is what the assembly is made of: in a file that is as its schema has
  it, \<open>collect_subassemblies\<close> finds objects the file places, and every object it places that it does not
  find is a part.
\<close>

theorem subassemblies_are_placed:
  assumes "plain_node (PDict node)" and "instantiate_file env (PDict node) = Inr children"
  shows "\<exists>found. collect_subassemblies env (PDict node) = Inr found \<and> set found \<subseteq> set (objects_in children)
       \<and> (\<forall>it \<in> set (objects_in children) - set found. \<exists>n ps. a_get_part env n ps = Some it)"
proof -
  have links: "plain_links node" using assms(1) by simp
  have "agrees env (collect_subassemblies env (PDict node)) (objects_in children)"
  proof (cases "handle_links env node")
    case None
    then obtain c where "handle_node env [] (PDict node) = Inr c" "children = (case c of None \<Rightarrow> [] | Some x \<Rightarrow> [x])"
      using assms(2) by (auto simp: instantiate_file_def map_sum_Inr simp del: handle_node.simps)
    then show ?thesis using collect_agrees(1) [OF assms(1), of env "[]" c] by (cases c) auto
  next
    case (Some r)
    then obtain cs where cs: "handle_links env node = Some (Inr cs)" "apply_root_placement env node cs = Inr children"
      using assms(2) by (cases r) (auto simp: instantiate_file_def)
    then have "objects_in children = objects_in cs"
      by (auto simp: apply_root_placement_def map_sum_Inr split: pyval.splits)
    moreover obtain x where "collect_from_links env node = Some x" "agrees env x (objects_in cs)"
      using collect_agrees(3) [OF links, of env] cs(1) by blast
    ultimately show ?thesis by simp
  qed
  then show ?thesis unfolding agrees_def by blast
qed

definition sub_env :: "unit assembly_env" where
  "sub_env = peg_env\<lparr>a_get_assembly := \<lambda>n _. Some (peg_item n)\<rparr>"

theorem subassemblies_are_placed_witness:
  "\<exists>children found. instantiate_file sub_env (PDict [(''links'', PList [PDict [(''assembly'', PStr ''frame'')]])]) = Inr children
     \<and> collect_subassemblies sub_env (PDict [(''links'', PList [PDict [(''assembly'', PStr ''frame'')]])]) = Inr found
     \<and> peg_item ''//p:frame'' \<in> set found \<and> set found \<subseteq> set (objects_in children)"
proof -
  let ?f = "[(''links'', PList [PDict [(''assembly'', PStr ''frame'')]])]"
  have n: "node_object_name \<lparr>package_name = ''//p'', declared_name = None\<rparr> [(''assembly'', PStr ''frame'')] ''assembly'' = Inr ''//p:frame''"
    by code_simp
  obtain children where c: "instantiate_file sub_env (PDict ?f) = Inr children"
    using n by (simp add: instantiate_file_def sub_env_def peg_env_def read_placing_def handle_object_def object_of_node_def
        node_params_def item_or_none_def apply_root_placement_def Let_def)
  have f: "collect_subassemblies sub_env (PDict ?f) = Inr [peg_item ''//p:frame'']"
    using n by (simp add: sub_env_def peg_env_def node_params_def)
  have p: "plain_node (PDict ?f)" by simp
  show ?thesis using subassemblies_are_placed [OF p c] c f by auto
qed

section \<open>Witnesses\<close>

definition two_ports :: "unit with_ports" where
  "two_ports = \<lparr>w_ports = [(''left-grip'', plain_port ''left-grip'' None), (''right-grip'', plain_port ''right-grip'' None)],
     w_interfaces = [(''//p:m'', [(''left'', [(''grip'', ''left-grip'')]), (''right'', [(''grip'', ''right-grip'')])])], w_loose = False\<rparr>"

definition two_end :: "string option \<Rightarrow> conn_end" where
  "two_end pattern = \<lparr>en_iface = Some ''//p:m'', en_params = PNone, en_instance = None, en_instance_pattern = pattern,
     en_port = None, en_port_pattern = None\<rparr>"

definition two_env :: "unit assembly_env" where
  "two_env = peg_env\<lparr>a_hierarchy := [(''//p:m'', grip_interface)]\<rparr>"

theorem found_port_exists_witness:
  "select_port False ([(''left'', [(''grip'', ''left-grip'')]), (''right'', [(''grip'', ''right-grip'')])], Some grip_interface) (two_end (Some ''r*''))
     = Inr ((two_end (Some ''r*''))\<lparr>en_port := Some ''right-grip''\<rparr>, Some [(''grip'', ''right-grip'')])
   \<and> (\<exists>port. known_port two_ports ((two_end (Some ''r*''))\<lparr>en_port := Some ''right-grip''\<rparr>) = Inr (Some port))"
proof -
  let ?i = "([(''left'', [(''grip'', ''left-grip'')]), (''right'', [(''grip'', ''right-grip'')])], Some grip_interface)"
  have f: "fnmatch ''right'' ''r*''" "\<not> fnmatch ''left'' ''r*''" by code_simp+
  have r: "resolve_interface two_env two_ports (two_end (Some ''r*'')) = Inr ?i"
    by (simp add: resolve_interface_def two_end_def two_env_def two_ports_def carried_interface_def)
  have s: "select_port False ?i (two_end (Some ''r*''))
      = Inr ((two_end (Some ''r*''))\<lparr>en_port := Some ''right-grip''\<rparr>, Some [(''grip'', ''right-grip'')])"
    using f by (simp add: select_port_def two_end_def pick_instance_def pick_port_def)
  have l: "listed (w_interfaces two_ports) \<subseteq> fst ` set (w_ports two_ports)"
    by (simp add: listed_def ports_in_def two_ports_def)
  show ?thesis using s found_port_exists [OF l r s] by (simp add: two_end_def)
qed


end
