(* ===== verification/Bom.thy ===== *)
theory Bom
  imports References
begin

text \<open>
  Bills of materials of an assembly (\<open>partcad/assembly.py\<close>, the references to software of
  \<open>software.py\<close>): flat, for procurement, grouped by package, and detailed. An assembly is what it declares
  and what it is made of; the answers of suppliers and the software a reference resolves to are the
  context's.
\<close>

section \<open>What a bill is made of\<close>

record bom_object =
  bo_project :: string
  bo_name :: string
  bo_desc :: pyval
  bo_config :: pyval
  bo_store :: store_data
  bo_child :: bool

datatype product = Part_of bom_object | Assembly_of bom_object "product list"

definition object_name :: "bom_object \<Rightarrow> string" where
  "object_name x = bo_project x @ '':'' @ bo_name x"

definition is_declared_purchasable :: "bom_object \<Rightarrow> bool" where
  "is_declared_purchasable x = (\<not> bo_child x \<and> is_purchasable (bo_store x))"

section \<open>The flat bill and the one for procurement\<close>

type_synonym bom = "(string \<times> nat) list"

definition account_for :: "string \<Rightarrow> nat \<Rightarrow> bom \<Rightarrow> bom" where
  "account_for name count b = AList.update name (case map_of b name of None \<Rightarrow> count | Some k \<Rightarrow> k + count) b"

fun account_all :: "bom \<Rightarrow> bom \<Rightarrow> bom" where
  "account_all b [] = b"
| "account_all b ((name, count) # rest) = account_all (account_for name count b) rest"

fun bom_walk :: "product list \<Rightarrow> bom \<Rightarrow> bom" where
  "bom_walk [] b = b"
| "bom_walk (Part_of x # rest) b = bom_walk rest (account_for (object_name x) 1 b)"
| "bom_walk (Assembly_of x cs # rest) b = bom_walk rest (account_all b (bom_walk cs []))"

definition get_bom :: "product list \<Rightarrow> bom" where
  "get_bom children = bom_walk children []"

fun supply_walk :: "product list \<Rightarrow> bom \<Rightarrow> bom" where
  "supply_walk [] b = b"
| "supply_walk (Part_of x # rest) b = supply_walk rest (account_for (object_name x) 1 b)"
| "supply_walk (Assembly_of x cs # rest) b =
     supply_walk rest
       (if is_declared_purchasable x then account_for (object_name x) 1 b else account_all b (supply_walk cs []))"

definition get_supply_bom :: "product list \<Rightarrow> bom" where
  "get_supply_bom children = supply_walk children []"

section \<open>Software\<close>

record software =
  sw_project :: string
  sw_name :: string
  sw_desc :: pyval
  sw_revision :: pyval
  sw_type :: pyval
  sw_version :: pyval
  sw_hash :: pyval

text \<open>
  The references an object declares, in full, each once. A list holds anything YAML can; what is no text,
  or a blank one, is passed over.
\<close>

fun add_refs :: "string \<Rightarrow> pyval list \<Rightarrow> string list \<Rightarrow> exn + string list" where
  "add_refs project [] found = Inr found"
| "add_refs project (PStr ref # rest) found =
     (if strip ref = [] then add_refs project rest found
      else
        (case normalize_resource_path project (strip ref) of
           Inl e \<Rightarrow> Inl e
         | Inr n \<Rightarrow> add_refs project rest (if n \<in> set found then found else found @ [n])))"
| "add_refs project (_ # rest) found = add_refs project rest found"

definition declared_software_refs :: "string \<Rightarrow> pyval \<Rightarrow> exn + string list" where
  "declared_software_refs project config =
     (case config of
        PDict d \<Rightarrow>
          (case map_of d ''software'' of
             None \<Rightarrow> Inr []
           | Some v \<Rightarrow>
               (if \<not> truthy v then Inr []
                else
                  (case v of
                     PStr s \<Rightarrow> add_refs project [v] []
                   | PList vs \<Rightarrow> add_refs project vs []
                   | PDict e \<Rightarrow> add_refs project (map (\<lambda>(k, _). PStr k) e) []
                   | PBytes _ \<Rightarrow> Inr []
                   | _ \<Rightarrow> Inl TypeError)))
      | _ \<Rightarrow> Inr [])"

text \<open>What the factory resolved, a list of texts, before what the declaration says.\<close>

definition resolved_software_refs :: "string \<Rightarrow> pyval \<Rightarrow> exn + string list" where
  "resolved_software_refs project config =
     (case config of
        PDict d \<Rightarrow>
          (case map_of d ''software_resolved'' of
             Some (PList (v # vs)) \<Rightarrow> Inr (concat (map (\<lambda>x. case x of PStr s \<Rightarrow> [s] | _ \<Rightarrow> []) (v # vs)))
           | _ \<Rightarrow> declared_software_refs project config)
      | _ \<Rightarrow> declared_software_refs project config)"

record bom_env =
  be_context :: bool
  be_software :: "string \<Rightarrow> software option"
  be_suppliers :: "string \<Rightarrow> bool"
  be_available :: "bom_object \<Rightarrow> bool"

definition software_of :: "bom_env \<Rightarrow> bom_object \<Rightarrow> exn + (string \<times> software) list" where
  "software_of env x =
     (if \<not> be_context env then Inr []
      else map_sum id (List.map_filter (\<lambda>ref. map_option (Pair ref) (be_software env ref)))
             (resolved_software_refs (bo_project x) (bo_config x)))"

section \<open>The grouped bill\<close>

record entry =
  et_count :: nat
  et_desc :: pyval
  et_software :: "(pyval \<times> pyval \<times> pyval) option"

type_synonym bom_section = "(string \<times> (string \<times> entry) list) list"

record grouped =
  g_parts :: bom_section
  g_assemblies :: bom_section
  g_software :: bom_section

definition dict_default :: "('k \<times> 'v) list \<Rightarrow> 'k \<Rightarrow> 'v \<Rightarrow> 'v" where
  "dict_default d k v = (case map_of d k of None \<Rightarrow> v | Some x \<Rightarrow> x)"

definition grouped_add :: "string \<Rightarrow> string \<Rightarrow> entry \<Rightarrow> bom_section \<Rightarrow> bom_section" where
  "grouped_add package name fresh sec =
     (let entries = dict_default sec package []; e = dict_default entries name fresh
      in AList.update package (AList.update name (e\<lparr>et_count := et_count e + 1\<rparr>) entries) sec)"

definition bom_grouped_add :: "bom_object \<Rightarrow> bom_section \<Rightarrow> bom_section" where
  "bom_grouped_add x = grouped_add (bo_project x) (bo_name x) \<lparr>et_count = 0, et_desc = bo_desc x, et_software = None\<rparr>"

definition or_none :: "pyval \<Rightarrow> pyval" where
  "or_none v = (if truthy v then v else PNone)"

definition software_entry :: "string \<times> software \<Rightarrow> bom_section \<Rightarrow> bom_section" where
  "software_entry rs =
     (let s = snd rs
      in grouped_add (sw_project s) (sw_name s)
           \<lparr>et_count = 0, et_desc = or_none (sw_desc s), et_software = Some (sw_revision s, sw_version s, sw_hash s)\<rparr>)"

definition bom_grouped_add_software :: "bom_env \<Rightarrow> bom_object \<Rightarrow> bom_section \<Rightarrow> exn + bom_section" where
  "bom_grouped_add_software env x sec = map_sum id (\<lambda>found. fold software_entry found sec) (software_of env x)"

fun merge_entries :: "(string \<times> entry) list \<Rightarrow> (string \<times> entry) list \<Rightarrow> (string \<times> entry) list" where
  "merge_entries target [] = target"
| "merge_entries target ((name, e) # rest) =
     merge_entries
       (AList.update name (case map_of target name of None \<Rightarrow> e | Some t \<Rightarrow> t\<lparr>et_count := et_count t + et_count e\<rparr>) target) rest"

fun merge_section :: "bom_section \<Rightarrow> bom_section \<Rightarrow> bom_section" where
  "merge_section sec [] = sec"
| "merge_section sec ((package, entries) # rest) =
     merge_section (AList.update package (merge_entries (dict_default sec package []) entries) sec) rest"

definition bom_grouped_merge :: "grouped \<Rightarrow> grouped \<Rightarrow> grouped" where
  "bom_grouped_merge g h =
     \<lparr>g_parts = merge_section (g_parts g) (g_parts h), g_assemblies = merge_section (g_assemblies g) (g_assemblies h),
      g_software = merge_section (g_software g) (g_software h)\<rparr>"

definition empty_grouped :: grouped where
  "empty_grouped = \<lparr>g_parts = [], g_assemblies = [], g_software = []\<rparr>"

definition own_software :: "bom_env \<Rightarrow> bom_object \<Rightarrow> grouped \<Rightarrow> exn + grouped" where
  "own_software env x g = map_sum id (\<lambda>s. g\<lparr>g_software := s\<rparr>) (bom_grouped_add_software env x (g_software g))"

fun grouped_walk :: "bom_env \<Rightarrow> product list \<Rightarrow> grouped \<Rightarrow> exn + grouped" where
  "grouped_walk env [] g = Inr g"
| "grouped_walk env (Part_of x # rest) g =
     (case own_software env x (g\<lparr>g_parts := bom_grouped_add x (g_parts g)\<rparr>) of
        Inl e \<Rightarrow> Inl e
      | Inr g \<Rightarrow> grouped_walk env rest g)"
| "grouped_walk env (Assembly_of x cs # rest) g =
     (let g = (if bo_child x then g else g\<lparr>g_assemblies := bom_grouped_add x (g_assemblies g)\<rparr>) in
      case own_software env x empty_grouped of
        Inl e \<Rightarrow> Inl e
      | Inr own \<Rightarrow>
          (case grouped_walk env cs own of
             Inl e \<Rightarrow> Inl e
           | Inr inner \<Rightarrow> grouped_walk env rest (bom_grouped_merge g inner)))"

definition get_bom_grouped :: "bom_env \<Rightarrow> bom_object \<Rightarrow> product list \<Rightarrow> exn + grouped" where
  "get_bom_grouped env x children =
     (case own_software env x empty_grouped of Inl e \<Rightarrow> Inl e | Inr g \<Rightarrow> grouped_walk env children g)"

section \<open>The detailed bill\<close>

record line =
  ln_kind :: string
  ln_count :: nat
  ln_desc :: pyval
  ln_store :: store_data
  ln_software :: "software option"

type_synonym detailed = "(string \<times> line) list"

definition count_line :: "string \<Rightarrow> line \<Rightarrow> detailed \<Rightarrow> detailed" where
  "count_line name fresh b =
     (let l = dict_default b name fresh in AList.update name (l\<lparr>ln_count := ln_count l + 1\<rparr>) b)"

definition bom_detailed_add :: "bom_object \<Rightarrow> string \<Rightarrow> detailed \<Rightarrow> detailed" where
  "bom_detailed_add x kind =
     count_line (object_name x)
       \<lparr>ln_kind = kind, ln_count = 0, ln_desc = bo_desc x, ln_store = bo_store x, ln_software = None\<rparr>"

definition software_line :: "string \<times> software \<Rightarrow> detailed \<Rightarrow> detailed" where
  "software_line rs =
     count_line (fst rs)
       \<lparr>ln_kind = ''software'', ln_count = 0, ln_desc = or_none (sw_desc (snd rs)),
        ln_store = \<lparr>vendor = PNone, sku = PNone, count_per_sku = PInt 1\<rparr>, ln_software = Some (snd rs)\<rparr>"

definition bom_detailed_add_software :: "bom_env \<Rightarrow> bom_object \<Rightarrow> detailed \<Rightarrow> exn + detailed" where
  "bom_detailed_add_software env x b = map_sum id (\<lambda>found. fold software_line found b) (software_of env x)"

fun bom_detailed_merge :: "detailed \<Rightarrow> detailed \<Rightarrow> detailed" where
  "bom_detailed_merge b [] = b"
| "bom_detailed_merge b ((name, l) # rest) =
     bom_detailed_merge
       (AList.update name (case map_of b name of None \<Rightarrow> l | Some k \<Rightarrow> k\<lparr>ln_count := ln_count k + ln_count l\<rparr>) b) rest"

text \<open>\<open>_is_available_to_buy\<close>: the answer, and the cache it is kept in.\<close>

definition is_available_to_buy ::
  "bom_env \<Rightarrow> bom_object \<Rightarrow> (string \<times> bool) list \<Rightarrow> bool \<times> (string \<times> bool) list" where
  "is_available_to_buy env x cache =
     (if \<not> be_context env then (False, cache)
      else
        (case map_of cache (object_name x) of
           Some v \<Rightarrow> (v, cache)
         | None \<Rightarrow>
             (let v = (if \<not> is_declared_purchasable x then False
                       else if \<not> be_suppliers env (bo_project x) then False
                       else be_available env x)
              in (v, AList.update (object_name x) v cache))))"

fun detailed_walk ::
  "bom_env \<Rightarrow> bool \<Rightarrow> product list \<Rightarrow> detailed \<times> (string \<times> bool) list \<Rightarrow> exn + (detailed \<times> (string \<times> bool) list)" where
  "detailed_walk env stop [] st = Inr st"
| "detailed_walk env stop (Part_of x # rest) st =
     (case bom_detailed_add_software env x (bom_detailed_add x ''part'' (fst st)) of
        Inl e \<Rightarrow> Inl e
      | Inr b \<Rightarrow> detailed_walk env stop rest (b, snd st))"
| "detailed_walk env stop (Assembly_of x cs # rest) st =
     (let (buy, cache) = (if stop then is_available_to_buy env x (snd st) else (False, snd st)) in
      if buy then detailed_walk env stop rest (bom_detailed_add x ''assembly'' (fst st), cache)
      else
        (case bom_detailed_add_software env x [] of
           Inl e \<Rightarrow> Inl e
         | Inr own \<Rightarrow>
             (case detailed_walk env stop cs (own, cache) of
                Inl e \<Rightarrow> Inl e
              | Inr (inner, cache) \<Rightarrow> detailed_walk env stop rest (bom_detailed_merge (fst st) inner, cache))))"

definition get_bom_detailed :: "bom_env \<Rightarrow> bool \<Rightarrow> bom_object \<Rightarrow> product list \<Rightarrow> exn + detailed" where
  "get_bom_detailed env stop x children =
     (case bom_detailed_add_software env x [] of
        Inl e \<Rightarrow> Inl e
      | Inr b \<Rightarrow> map_sum id fst (detailed_walk env stop children (b, [])))"

section \<open>Dictionaries that count\<close>

text \<open>
  The three bills merge dictionaries whose entries carry a count. What they share is an interface: an
  entry of the one is merged into the other by an entry whose count is the sum.
\<close>

definition count_of :: "('e \<Rightarrow> nat) \<Rightarrow> (string \<times> 'e) list \<Rightarrow> string \<Rightarrow> nat" where
  "count_of cnt b n = (case map_of b n of None \<Rightarrow> 0 | Some e \<Rightarrow> cnt e)"

lemma count_of_Nil [simp]: "count_of cnt [] n = 0"
  by (simp add: count_of_def)

lemma count_of_update [simp]: "count_of cnt (AList.update m x b) n = (if n = m then cnt x else count_of cnt b n)"
  by (auto simp: count_of_def)

lemma count_of_Cons:
  assumes "n \<notin> fst ` set d"
  shows "count_of cnt ((n, e) # d) m = (if m = n then cnt e else 0) + count_of cnt d m"
proof -
  have "map_of d n = None" using assms by (simp add: map_of_eq_None_iff)
  then show ?thesis by (simp add: count_of_def)
qed

locale counted =
  fixes cnt :: "'e \<Rightarrow> nat"
    and merge :: "(string \<times> 'e) list \<Rightarrow> (string \<times> 'e) list \<Rightarrow> (string \<times> 'e) list"
  assumes merge_Nil: "merge b [] = b"
    and merge_step: "\<exists>x. merge b ((n, e) # rest) = merge (AList.update n x b) rest \<and> cnt x = count_of cnt b n + cnt e"
begin

lemma merge_count: "wf_dict d \<Longrightarrow> count_of cnt (merge b d) n = count_of cnt b n + count_of cnt d n"
proof (induction d arbitrary: b)
  case (Cons e d)
  obtain m x where e: "e = (m, x)" by force
  obtain y where y: "merge b ((m, x) # d) = merge (AList.update m y b) d" "cnt y = count_of cnt b m + cnt x"
    using merge_step by blast
  have m: "m \<notin> fst ` set d" "wf_dict d" using Cons.prems e by auto
  show ?case using Cons.IH [OF m(2)] y by (simp add: e count_of_Cons [OF m(1)])
qed (simp add: merge_Nil)

lemma merge_wf: "wf_dict b \<Longrightarrow> wf_dict (merge b d)"
proof (induction d arbitrary: b)
  case (Cons e d)
  obtain m x where e: "e = (m, x)" by force
  obtain y where "merge b ((m, x) # d) = merge (AList.update m y b) d" using merge_step by blast
  then show ?case using Cons by (simp add: e)
qed (simp add: merge_Nil)

end

lemma bump_count: "cnt (case map_of b n of None \<Rightarrow> e | Some k \<Rightarrow> f k) = count_of cnt b n + cnt e" if "\<And>k. cnt (f k) = cnt k + cnt e"
  using that by (auto simp: count_of_def split: option.splits)

abbreviation bom_count :: "bom \<Rightarrow> string \<Rightarrow> nat" where
  "bom_count \<equiv> count_of (\<lambda>k. k)"

interpretation flat: counted "\<lambda>k. k" account_all
proof
  show "account_all b [] = b" for b by simp
  show "\<exists>x. account_all b ((n, e) # rest) = account_all (AList.update n x b) rest \<and> x = bom_count b n + e" for b n e rest
    by (auto simp: account_for_def count_of_def split: option.splits)
qed

interpretation lines: counted ln_count bom_detailed_merge
proof
  show "bom_detailed_merge b [] = b" for b by simp
  show "\<exists>x. bom_detailed_merge b ((n, e) # rest) = bom_detailed_merge (AList.update n x b) rest
      \<and> ln_count x = count_of ln_count b n + ln_count e" for b n e rest
    using bump_count [of ln_count _ e b n] by auto
qed

interpretation entries: counted et_count merge_entries
proof
  show "merge_entries b [] = b" for b by simp
  show "\<exists>x. merge_entries b ((n, e) # rest) = merge_entries (AList.update n x b) rest
      \<and> et_count x = count_of et_count b n + et_count e" for b n e rest
    using bump_count [of et_count _ e b n] by auto
qed

section \<open>The flat bill counts the parts\<close>

fun parts_in :: "product list \<Rightarrow> bom_object list" where
  "parts_in [] = []"
| "parts_in (Part_of x # rest) = x # parts_in rest"
| "parts_in (Assembly_of x cs # rest) = parts_in cs @ parts_in rest"

definition no_zero :: "bom \<Rightarrow> bool" where
  "no_zero b = (\<forall>n. map_of b n \<noteq> Some 0)"

lemma account_for_count: "bom_count (account_for m k b) n = bom_count b n + (if n = m then k else 0)"
  by (auto simp: account_for_def count_of_def split: option.splits)

lemma account_for_wf: "wf_dict b \<Longrightarrow> wf_dict (account_for m k b)"
  by (simp add: account_for_def)

lemma account_for_no_zero: "no_zero b \<Longrightarrow> 0 < k \<Longrightarrow> no_zero (account_for m k b)"
  by (auto simp: no_zero_def account_for_def split: option.splits)

lemma account_all_no_zero: "no_zero b \<Longrightarrow> wf_dict c \<Longrightarrow> no_zero c \<Longrightarrow> no_zero (account_all b c)"
proof (induction b c rule: account_all.induct)
  case (2 b name count rest)
  have nz: "map_of ((name, count) # rest) n \<noteq> Some 0" for n using "2.prems"(3) unfolding no_zero_def by blast
  have none: "map_of rest name = None" using "2.prems"(2) by (simp add: map_of_eq_None_iff)
  have "0 < count" using nz [of name] by simp
  moreover have "no_zero rest" unfolding no_zero_def
  proof
    show "map_of rest n \<noteq> Some 0" for n using nz [of n] none by (cases "n = name") simp_all
  qed
  ultimately show ?case using 2 by (simp add: account_for_no_zero)
qed simp

lemma account_all_wf: "wf_dict b \<Longrightarrow> wf_dict (account_all b c)"
  by (rule flat.merge_wf)

lemma bom_walk_facts:
  "wf_dict b \<Longrightarrow> no_zero b \<Longrightarrow> wf_dict (bom_walk cs b) \<and> no_zero (bom_walk cs b)
     \<and> (\<forall>n. bom_count (bom_walk cs b) n = bom_count b n + count_list (map object_name (parts_in cs)) n)"
proof (induction cs b rule: bom_walk.induct)
  case (3 x cs rest b)
  have inner: "wf_dict (bom_walk cs []) \<and> no_zero (bom_walk cs [])
     \<and> (\<forall>n. bom_count (bom_walk cs []) n = count_list (map object_name (parts_in cs)) n)"
    using "3.IH"(1) by (simp add: no_zero_def)
  have "wf_dict (account_all b (bom_walk cs []))" "no_zero (account_all b (bom_walk cs []))"
    using "3.prems" inner account_all_wf account_all_no_zero by blast+
  then show ?case using "3.IH"(2) inner flat.merge_count [of "bom_walk cs []" b] by simp
qed (simp_all add: account_for_wf account_for_no_zero account_for_count)

lemma count_of_no_zero: "no_zero b \<Longrightarrow> map_of b n = (if bom_count b n = 0 then None else Some (bom_count b n))"
  by (auto simp: count_of_def no_zero_def dest: spec [of _ n] split: option.splits)

text \<open>
  The flat bill of an assembly lists exactly the parts that occur in it, at any depth, each with the number
  of times it occurs.
\<close>

theorem bom_counts_parts:
  "map_of (get_bom children) n =
     (let k = count_list (map object_name (parts_in children)) n in if k = 0 then None else Some k)"
  using bom_walk_facts [of "[]" children] count_of_no_zero [of "bom_walk children []" n]
  by (simp add: get_bom_def no_zero_def Let_def)

section \<open>Procurement expands to the flat bill\<close>

text \<open>What is procured: parts, and assemblies the model declares as ordered whole, not looked into.\<close>

fun supplied :: "product list \<Rightarrow> product list" where
  "supplied [] = []"
| "supplied (Part_of x # rest) = Part_of x # supplied rest"
| "supplied (Assembly_of x cs # rest) = (if is_declared_purchasable x then [Assembly_of x cs] else supplied cs) @ supplied rest"

fun product_object :: "product \<Rightarrow> bom_object" where
  "product_object (Part_of x) = x"
| "product_object (Assembly_of x cs) = x"

definition supplied_names :: "product list \<Rightarrow> string list" where
  "supplied_names cs = map (\<lambda>p. object_name (product_object p)) (supplied cs)"

lemma supply_walk_facts:
  "wf_dict b \<Longrightarrow> no_zero b \<Longrightarrow> wf_dict (supply_walk cs b) \<and> no_zero (supply_walk cs b)
     \<and> (\<forall>n. bom_count (supply_walk cs b) n = bom_count b n + count_list (supplied_names cs) n)"
proof (induction cs b rule: supply_walk.induct)
  case (3 x cs rest b)
  show ?case
  proof (cases "is_declared_purchasable x")
    case True
    then show ?thesis using "3.IH"(2) "3.prems"
      by (simp add: account_for_wf account_for_no_zero account_for_count supplied_names_def)
  next
    case False
    have inner: "wf_dict (supply_walk cs []) \<and> no_zero (supply_walk cs [])
       \<and> (\<forall>n. bom_count (supply_walk cs []) n = count_list (supplied_names cs) n)"
      using "3.IH"(1) [OF False] by (simp add: no_zero_def)
    have "wf_dict (account_all b (supply_walk cs []))" "no_zero (account_all b (supply_walk cs []))"
      using "3.prems" inner account_all_wf account_all_no_zero by blast+
    then show ?thesis using "3.IH"(2) False inner flat.merge_count [of "supply_walk cs []" b] by (simp add: supplied_names_def)
  qed
qed (simp_all add: account_for_wf account_for_no_zero account_for_count supplied_names_def)

lemma parts_in_append: "parts_in (cs @ ds) = parts_in cs @ parts_in ds"
  by (induction cs rule: parts_in.induct) simp_all

lemma parts_supplied: "parts_in (supplied cs) = parts_in cs"
  by (induction cs rule: supplied.induct) (simp_all add: parts_in_append)

text \<open>C16: 
  The bill for procurement lists exactly what is supplied, each with the number of times it occurs, and
  nothing is lost by it: opening everything it lists gives the flat bill of the whole assembly.
\<close>

theorem supply_bom_expands:
  "map_of (get_supply_bom children) n =
     (let k = count_list (supplied_names children) n in if k = 0 then None else Some k)
   \<and> map_of (get_bom (supplied children)) n = map_of (get_bom children) n"
  using supply_walk_facts [of "[]" children] count_of_no_zero [of "supply_walk children []" n]
    bom_walk_facts [of "[]" children] bom_walk_facts [of "[]" "supplied children"]
    count_of_no_zero [of "bom_walk children []" n] count_of_no_zero [of "bom_walk (supplied children) []" n]
  by (simp add: get_supply_bom_def get_bom_def no_zero_def Let_def parts_supplied)

section \<open>The detailed bill\<close>

text \<open>
  The answer about an assembly without the cache, and the lines of a bill: one per part, per assembly that
  is bought whole, and per reference to software that resolves.
\<close>

definition buyable :: "bom_env \<Rightarrow> bom_object \<Rightarrow> bool" where
  "buyable env x = (be_context env \<and> is_declared_purchasable x \<and> be_suppliers env (bo_project x) \<and> be_available env x)"

fun assemblies_in :: "product list \<Rightarrow> bom_object list" where
  "assemblies_in [] = []"
| "assemblies_in (Part_of x # rest) = assemblies_in rest"
| "assemblies_in (Assembly_of x cs # rest) = x # assemblies_in cs @ assemblies_in rest"

definition refs_of :: "bom_env \<Rightarrow> bom_object \<Rightarrow> string list" where
  "refs_of env x = (case software_of env x of Inl _ \<Rightarrow> [] | Inr found \<Rightarrow> map fst found)"

fun lines_of :: "bom_env \<Rightarrow> bool \<Rightarrow> product list \<Rightarrow> string list" where
  "lines_of env stop [] = []"
| "lines_of env stop (Part_of x # rest) = object_name x # refs_of env x @ lines_of env stop rest"
| "lines_of env stop (Assembly_of x cs # rest) =
     (if stop \<and> buyable env x then [object_name x] else refs_of env x @ lines_of env stop cs) @ lines_of env stop rest"

text \<open>A cache that only holds right answers about the assemblies of a set.\<close>

definition right_answers :: "bom_env \<Rightarrow> bom_object set \<Rightarrow> (string \<times> bool) list \<Rightarrow> bool" where
  "right_answers env X cache = (\<forall>x \<in> X. \<forall>v. map_of cache (object_name x) = Some v \<longrightarrow> v = buyable env x)"

definition one_answer :: "bom_env \<Rightarrow> bom_object set \<Rightarrow> bool" where
  "one_answer env X = (\<forall>x \<in> X. \<forall>y \<in> X. object_name x = object_name y \<longrightarrow> buyable env x = buyable env y)"

lemma available_answer:
  assumes "is_available_to_buy env x cache = (v, cache')" and "x \<in> X" and "one_answer env X" and "right_answers env X cache"
  shows "v = buyable env x \<and> right_answers env X cache'"
proof (cases "be_context env \<and> map_of cache (object_name x) = None")
  case False
  then show ?thesis
    using assms by (auto simp: is_available_to_buy_def right_answers_def buyable_def split: option.splits if_splits)
next
  case True
  have v: "v = buyable env x" and c: "cache' = AList.update (object_name x) v cache"
    using assms(1) True by (auto simp: is_available_to_buy_def buyable_def Let_def split: if_split_asm)
  have "w = buyable env y" if "y \<in> X" "map_of cache' (object_name y) = Some w" for y w
  proof (cases "object_name y = object_name x")
    case True
    have "buyable env x = buyable env y" using assms(2,3) that(1) True unfolding one_answer_def by metis
    then show ?thesis using that(2) v c True by simp
  next
    case False
    then have "map_of cache (object_name y) = Some w" using that(2) c by simp
    then show ?thesis using that(1) assms(4) by (simp add: right_answers_def)
  qed
  then show ?thesis using v by (simp add: right_answers_def)
qed

abbreviation line_count :: "detailed \<Rightarrow> string \<Rightarrow> nat" where
  "line_count \<equiv> count_of ln_count"

lemma count_line_count:
  "ln_count fresh = 0 \<Longrightarrow> line_count (count_line m fresh b) n = line_count b n + (if n = m then 1 else 0)"
  by (auto simp: count_line_def dict_default_def count_of_def Let_def split: option.splits)

lemma count_line_wf: "wf_dict b \<Longrightarrow> wf_dict (count_line m fresh b)"
  by (simp add: count_line_def Let_def)

lemma detailed_add_count: "line_count (bom_detailed_add x kind b) n = line_count b n + (if n = object_name x then 1 else 0)"
  by (simp add: bom_detailed_add_def count_line_count)

lemma detailed_add_wf: "wf_dict b \<Longrightarrow> wf_dict (bom_detailed_add x kind b)"
  by (simp add: bom_detailed_add_def count_line_wf)

lemma software_lines:
  assumes "bom_detailed_add_software env x b = Inr b'"
  shows "line_count b' n = line_count b n + count_list (refs_of env x) n \<and> (wf_dict b \<longrightarrow> wf_dict b')"
proof -
  obtain found where f: "software_of env x = Inr found" using assms by (cases "software_of env x") (auto simp: bom_detailed_add_software_def)
  have "line_count (fold software_line xs c) n = line_count c n + count_list (map fst xs) n" for xs c
    by (induction xs arbitrary: c) (simp_all add: software_line_def count_line_count)
  moreover have "wf_dict c \<Longrightarrow> wf_dict (fold software_line xs c)" for xs c
    by (induction xs arbitrary: c) (simp_all add: software_line_def count_line_wf)
  moreover have "b' = fold software_line found b" using assms f by (simp add: bom_detailed_add_software_def)
  ultimately show ?thesis by (simp add: refs_of_def f)
qed

lemma detailed_walk_facts:
  "detailed_walk env stop cs st = Inr st' \<Longrightarrow> set (assemblies_in cs) \<subseteq> X \<Longrightarrow> wf_dict (fst st) \<Longrightarrow> right_answers env X (snd st) \<Longrightarrow> one_answer env X \<Longrightarrow>
     wf_dict (fst st') \<and> right_answers env X (snd st')
     \<and> (\<forall>n. line_count (fst st') n = line_count (fst st) n + count_list (lines_of env stop cs) n)"
proof (induction env stop cs st arbitrary: st' rule: detailed_walk.induct)
  case (2 env stop x rest st)
  obtain b where b: "bom_detailed_add_software env x (bom_detailed_add x ''part'' (fst st)) = Inr b"
    and r: "detailed_walk env stop rest (b, snd st) = Inr st'"
    using "2.prems"(1) by (auto split: sum.splits)
  show ?case
    using "2.IH" [OF b r] "2.prems"(2-5) software_lines [OF b] by (auto simp: detailed_add_count detailed_add_wf)
next
  case (3 env stop x cs rest st)
  obtain buy cache where q: "(if stop then is_available_to_buy env x (snd st) else (False, snd st)) = (buy, cache)" by force
  have cache: "right_answers env X cache \<and> buy = (stop \<and> buyable env x)"
  proof (cases stop)
    case True
    then have "is_available_to_buy env x (snd st) = (buy, cache)" using q by simp
    from available_answer [OF this _ "3.prems"(5,4)] show ?thesis using True "3.prems"(2) by simp
  qed (use q "3.prems"(4) in simp)
  show ?case
  proof (cases buy)
    case True
    then have r: "detailed_walk env stop rest (bom_detailed_add x ''assembly'' (fst st), cache) = Inr st'"
      using "3.prems"(1) q by (simp split: prod.splits)
    show ?thesis
      using "3.IH"(1) [OF refl q [symmetric] True r] "3.prems"(2,3,5) cache True by (auto simp: detailed_add_count detailed_add_wf)
  next
    case False
    then obtain own inner cache' where own: "bom_detailed_add_software env x [] = Inr own"
      and i: "detailed_walk env stop cs (own, cache) = Inr (inner, cache')"
      and r: "detailed_walk env stop rest (bom_detailed_merge (fst st) inner, cache') = Inr st'"
      using "3.prems"(1) q by (auto split: prod.splits sum.splits)
    have si: "wf_dict inner \<and> right_answers env X cache'
        \<and> (\<forall>n. line_count inner n = count_list (refs_of env x) n + count_list (lines_of env stop cs) n)"
      using "3.IH"(2) [OF refl q [symmetric] False own i] "3.prems"(2,5) cache software_lines [OF own] by simp
    show ?thesis
      using "3.IH"(3) [OF refl q [symmetric] False own i refl r] "3.prems"(2,3,5) si lines.merge_wf lines.merge_count cache False by auto
  qed
qed simp

text \<open>C24: 
  The detailed bill counts, for every name, the lines of that name: the parts and the references to
  software at every depth, and the assemblies bought whole instead of what is inside them. The cache of
  the answers of suppliers changes nothing of it, as long as assemblies of one name get one answer.
\<close>

theorem detailed_counts_lines:
  assumes "get_bom_detailed env stop x children = Inr b" and "one_answer env (set (assemblies_in children))"
  shows "line_count b n = count_list (refs_of env x @ lines_of env stop children) n"
proof -
  obtain own st where own: "bom_detailed_add_software env x [] = Inr own"
    and w: "detailed_walk env stop children (own, []) = Inr st" and b: "b = fst st"
    using assms(1) by (auto simp: get_bom_detailed_def map_sum_def split: sum.splits)
  show ?thesis
    using detailed_walk_facts [OF w subset_refl _ _ assms(2)] software_lines [OF own] b by (simp add: right_answers_def)
qed

lemma lines_without_software:
  "\<forall>y. refs_of env y = [] \<Longrightarrow> lines_of env False cs = map object_name (parts_in cs)"
  "\<forall>y. refs_of env y = [] \<Longrightarrow> \<forall>y \<in> set (assemblies_in cs). buyable env y = is_declared_purchasable y \<Longrightarrow>
     lines_of env True cs = supplied_names cs"
  by (induction cs rule: parts_in.induct) (auto simp: supplied_names_def)

text \<open>
  Where suppliers have everything the model declares as ordered whole, and nothing ships with software,
  the detailed bill that stops at what can be bought counts what the bill for procurement counts.
\<close>

theorem detailed_is_supply_bom:
  assumes "get_bom_detailed env True x children = Inr b" and "\<forall>y. refs_of env y = []"
    and "\<forall>y \<in> set (assemblies_in children). buyable env y = is_declared_purchasable y"
    and "one_answer env (set (assemblies_in children))"
  shows "line_count b n = bom_count (get_supply_bom children) n"
  using detailed_counts_lines [OF assms(1,4)] lines_without_software(2) [OF assms(2,3)] assms(2)
    supply_walk_facts [of "[]" children]
  by (simp add: get_supply_bom_def no_zero_def)

section \<open>The grouped bill\<close>

definition section_count :: "bom_section \<Rightarrow> string \<Rightarrow> string \<Rightarrow> nat" where
  "section_count sec package name = count_of et_count (dict_default sec package []) name"

definition section_wf :: "bom_section \<Rightarrow> bool" where
  "section_wf sec = (wf_dict sec \<and> (\<forall>p. wf_dict (dict_default sec p [])))"

lemma default_update [simp]: "dict_default (AList.update k v d) m x = (if m = k then v else dict_default d m x)"
  by (simp add: dict_default_def)

lemma default_Nil [simp]: "dict_default [] k x = x"
  by (simp add: dict_default_def)

lemma section_empty [simp]: "section_wf []" "section_count [] p n = 0"
  by (simp_all add: section_wf_def section_count_def)

lemma grouped_add_facts:
  assumes "section_wf sec" and "et_count fresh = 0"
  shows "section_wf (grouped_add package name fresh sec)"
    and "section_count (grouped_add package name fresh sec) p n = section_count sec p n + (if p = package \<and> n = name then 1 else 0)"
  using assms by (auto simp: grouped_add_def section_wf_def section_count_def Let_def count_of_def dict_default_def split: option.splits)

lemma merge_section_facts:
  "section_wf sec \<Longrightarrow> section_wf other \<Longrightarrow>
     section_wf (merge_section sec other) \<and> section_count (merge_section sec other) p n = section_count sec p n + section_count other p n"
proof (induction sec other rule: merge_section.induct)
  case (2 sec package entries rest)
  have d: "map_of rest package = None" "wf_dict rest"
    using "2.prems"(2) by (auto simp: section_wf_def map_of_eq_None_iff)
  have all: "wf_dict (dict_default ((package, entries) # rest) q [])" for q
    using "2.prems"(2) unfolding section_wf_def by blast
  have e: "wf_dict entries" using all [of package] by (simp add: dict_default_def)
  have r: "wf_dict (dict_default rest q [])" for q
    using all [of q] d(1) by (cases "q = package") (simp_all add: dict_default_def)
  let ?sec = "AList.update package (merge_entries (dict_default sec package []) entries) sec"
  have "section_wf ?sec" using "2.prems"(1) entries.merge_wf by (simp add: section_wf_def)
  moreover have "section_wf rest" using d r by (simp add: section_wf_def)
  moreover have "section_count ?sec p n = section_count sec p n + (if p = package then count_of et_count entries n else 0)"
    using entries.merge_count [OF e] by (simp add: section_count_def)
  moreover have "section_count ((package, entries) # rest) p n = (if p = package then count_of et_count entries n else 0) + section_count rest p n"
    using d(1) by (simp add: section_count_def dict_default_def)
  ultimately show ?case using "2.IH" by simp
qed simp

definition place_of :: "bom_object \<Rightarrow> string \<times> string" where
  "place_of x = (bo_project x, bo_name x)"

definition shipped :: "bom_env \<Rightarrow> bom_object \<Rightarrow> (string \<times> string) list" where
  "shipped env x = (case software_of env x of Inl _ \<Rightarrow> [] | Inr found \<Rightarrow> map (\<lambda>rs. (sw_project (snd rs), sw_name (snd rs))) found)"

definition named_assemblies :: "product list \<Rightarrow> bom_object list" where
  "named_assemblies cs = filter (\<lambda>x. \<not> bo_child x) (assemblies_in cs)"

fun objects_within :: "product list \<Rightarrow> bom_object list" where
  "objects_within [] = []"
| "objects_within (Part_of x # rest) = x # objects_within rest"
| "objects_within (Assembly_of x cs # rest) = x # objects_within cs @ objects_within rest"

text \<open>A grouped bill that holds these parts, these assemblies and this software.\<close>

definition holds :: "grouped \<Rightarrow> (string \<times> string) list \<Rightarrow> (string \<times> string) list \<Rightarrow> (string \<times> string) list \<Rightarrow> bool" where
  "holds g ps as sw =
     (section_wf (g_parts g) \<and> section_wf (g_assemblies g) \<and> section_wf (g_software g)
    \<and> (\<forall>p n. section_count (g_parts g) p n = count_list ps (p, n))
    \<and> (\<forall>p n. section_count (g_assemblies g) p n = count_list as (p, n))
    \<and> (\<forall>p n. section_count (g_software g) p n = count_list sw (p, n)))"

lemma holds_empty: "holds empty_grouped [] [] []"
  by (simp add: holds_def empty_grouped_def)

lemma add_facts:
  assumes "section_wf sec"
  shows "section_wf (bom_grouped_add x sec)"
    and "section_count (bom_grouped_add x sec) p n = section_count sec p n + (if (p, n) = place_of x then 1 else 0)"
  using grouped_add_facts [OF assms, of "\<lparr>et_count = 0, et_desc = bo_desc x, et_software = None\<rparr>"]
  by (simp_all add: bom_grouped_add_def place_of_def)

lemma holds_part: "holds g ps as sw \<Longrightarrow> holds (g\<lparr>g_parts := bom_grouped_add x (g_parts g)\<rparr>) (ps @ [place_of x]) as sw"
  using add_facts [of "g_parts g" x] by (simp add: holds_def)

lemma holds_assembly:
  "holds g ps as sw \<Longrightarrow> holds (g\<lparr>g_assemblies := bom_grouped_add x (g_assemblies g)\<rparr>) ps (as @ [place_of x]) sw"
  using add_facts [of "g_assemblies g" x] by (simp add: holds_def)

lemma software_entry_facts:
  "section_wf sec \<Longrightarrow> section_wf (fold software_entry found sec)
     \<and> section_count (fold software_entry found sec) p n
       = section_count sec p n + count_list (map (\<lambda>rs. (sw_project (snd rs), sw_name (snd rs))) found) (p, n)"
proof (induction found arbitrary: sec)
  case (Cons rs found)
  have e: "section_wf (software_entry rs sec)"
    "section_count (software_entry rs sec) p n
       = section_count sec p n + (if p = sw_project (snd rs) \<and> n = sw_name (snd rs) then 1 else 0)"
    using grouped_add_facts [OF Cons.prems] by (simp_all add: software_entry_def Let_def)
  show ?case using Cons.IH [OF e(1)] e(2) by simp
qed simp

lemma own_software_holds:
  assumes "own_software env x g = Inr g'" and "holds g ps as sw"
  shows "holds g' ps as (sw @ shipped env x)"
proof -
  obtain found where f: "software_of env x = Inr found" and g': "g' = g\<lparr>g_software := fold software_entry found (g_software g)\<rparr>"
    using assms(1) by (cases "software_of env x") (auto simp: own_software_def bom_grouped_add_software_def)
  show ?thesis using assms(2) software_entry_facts [of "g_software g" found] by (simp add: holds_def g' shipped_def f)
qed

lemma merge_holds:
  "holds g ps as sw \<Longrightarrow> holds h ps' as' sw' \<Longrightarrow> holds (bom_grouped_merge g h) (ps @ ps') (as @ as') (sw @ sw')"
  using merge_section_facts by (simp add: holds_def bom_grouped_merge_def)

lemma grouped_walk_holds:
  "grouped_walk env cs g = Inr g' \<Longrightarrow> holds g ps as sw \<Longrightarrow>
     holds g' (ps @ map place_of (parts_in cs)) (as @ map place_of (named_assemblies cs))
       (sw @ concat (map (shipped env) (objects_within cs)))"
proof (induction env cs g arbitrary: g' ps as sw rule: grouped_walk.induct)
  case (2 env x rest g)
  then obtain h where h: "own_software env x (g\<lparr>g_parts := bom_grouped_add x (g_parts g)\<rparr>) = Inr h" "grouped_walk env rest h = Inr g'"
    by (auto split: sum.splits)
  from "2.IH" [OF h own_software_holds [OF h(1) holds_part [OF "2.prems"(2)]]] show ?case
    by (simp add: named_assemblies_def)
next
  case (3 env x cs rest g)
  let ?g = "if bo_child x then g else g\<lparr>g_assemblies := bom_grouped_add x (g_assemblies g)\<rparr>"
  obtain own inner where own: "own_software env x empty_grouped = Inr own" and i: "grouped_walk env cs own = Inr inner"
    and r: "grouped_walk env rest (bom_grouped_merge ?g inner) = Inr g'"
    using "3.prems"(1) by (auto simp: Let_def split: sum.splits)
  have "holds ?g ps (as @ (if bo_child x then [] else [place_of x])) sw"
    using "3.prems"(2) holds_assembly by simp
  from merge_holds [OF this "3.IH"(1) [OF refl own i own_software_holds [OF own holds_empty]]]
  have "holds (bom_grouped_merge ?g inner) (ps @ map place_of (parts_in cs))
      ((as @ (if bo_child x then [] else [place_of x])) @ map place_of (named_assemblies cs))
      (sw @ shipped env x @ concat (map (shipped env) (objects_within cs)))" by simp
  from "3.IH"(2) [OF refl own i r this] show ?case by (cases "bo_child x") (simp_all add: named_assemblies_def)
qed (simp add: named_assemblies_def)

text \<open>
  The grouped bill counts, for every package and name, the parts, the assemblies that are objects of a
  package, and the software of the assembly and of everything in it, at any depth.
\<close>

theorem grouped_counts:
  assumes "get_bom_grouped env x children = Inr g"
  shows "section_count (g_parts g) p n = count_list (map place_of (parts_in children)) (p, n)
       \<and> section_count (g_assemblies g) p n = count_list (map place_of (named_assemblies children)) (p, n)
       \<and> section_count (g_software g) p n = count_list (concat (map (shipped env) (x # objects_within children))) (p, n)"
proof -
  obtain own where own: "own_software env x empty_grouped = Inr own" and w: "grouped_walk env children own = Inr g"
    using assms by (auto simp: get_bom_grouped_def split: sum.splits)
  from grouped_walk_holds [OF w own_software_holds [OF own holds_empty]] show ?thesis by (simp add: holds_def)
qed

section \<open>A small product\<close>

text \<open>A kit \<open>//p:kit\<close> with two screws and a board ordered whole, which has a chip and ships with software.\<close>

definition kit_object :: "string \<Rightarrow> bool \<Rightarrow> pydict \<Rightarrow> bom_object" where
  "kit_object name sold config =
     \<lparr>bo_project = ''//p'', bo_name = name, bo_desc = PNone, bo_config = PDict config,
      bo_store = \<lparr>vendor = (if sold then PStr ''v'' else PNone), sku = (if sold then PStr ''1'' else PNone), count_per_sku = PInt 1\<rparr>,
      bo_child = False\<rparr>"

definition kit :: "pydict \<Rightarrow> product list" where
  "kit config =
     [Part_of (kit_object ''screw'' False []), Assembly_of (kit_object ''board'' True config) [Part_of (kit_object ''chip'' False [])],
      Part_of (kit_object ''screw'' False [])]"

definition kit_env :: bom_env where
  "kit_env = \<lparr>be_context = True,
     be_software = (\<lambda>ref. Some \<lparr>sw_project = ''//p'', sw_name = ''chip'', sw_desc = PNone, sw_revision = PNone, sw_type = PNone,
                           sw_version = PNone, sw_hash = PNone\<rparr>),
     be_suppliers = (\<lambda>_. True), be_available = (\<lambda>_. True)\<rparr>"

lemma kit_boms: "get_bom (kit []) = [(''//p:screw'', 2), (''//p:chip'', 1)]"
  "get_supply_bom (kit []) = [(''//p:screw'', 2), (''//p:board'', 1)]"
  by code_simp+

lemma kit_one_answer: "one_answer kit_env (set (assemblies_in (kit c)))"
  by (simp add: one_answer_def kit_def)

theorem detailed_counts_lines_witness:
  "\<exists>b. get_bom_detailed kit_env True (kit_object ''kit'' False []) (kit []) = Inr b \<and> line_count b ''//p:screw'' = 2 \<and> line_count b ''//p:chip'' = 0"
proof -
  obtain b where b: "get_bom_detailed kit_env True (kit_object ''kit'' False []) (kit []) = Inr b"
    by (simp add: get_bom_detailed_def kit_def kit_object_def kit_env_def bom_detailed_add_software_def software_of_def
        resolved_software_refs_def declared_software_refs_def is_available_to_buy_def is_declared_purchasable_def is_purchasable_def Let_def map_filter_simps)
  have "lines_of kit_env True (kit []) = [''//p:screw'', ''//p:board'', ''//p:screw'']" "refs_of kit_env (kit_object ''kit'' False []) = []"
    by code_simp+
  then show ?thesis using detailed_counts_lines [OF b kit_one_answer] b by simp
qed

lemma no_software: "refs_of (kit_env\<lparr>be_software := \<lambda>_. None\<rparr>) y = []"
proof -
  have "List.map_filter (\<lambda>ref. map_option (Pair ref) None) rs = []" for rs :: "string list"
    by (induction rs) (simp_all add: map_filter_simps)
  then show ?thesis
    by (cases "resolved_software_refs (bo_project y) (bo_config y)") (simp_all add: refs_of_def software_of_def kit_env_def)
qed

theorem detailed_is_supply_bom_witness:
  "\<exists>b. get_bom_detailed (kit_env\<lparr>be_software := \<lambda>_. None\<rparr>) True (kit_object ''kit'' False []) (kit []) = Inr b
     \<and> line_count b ''//p:board'' = 1"
proof -
  let ?env = "kit_env\<lparr>be_software := \<lambda>_. None\<rparr>"
  have "case get_bom_detailed ?env True (kit_object ''kit'' False []) (kit []) of Inl _ \<Rightarrow> False | Inr _ \<Rightarrow> True" by code_simp
  then obtain b where b: "get_bom_detailed ?env True (kit_object ''kit'' False []) (kit []) = Inr b" by (auto split: sum.splits)
  have o: "one_answer ?env (set (assemblies_in (kit [])))" by (simp add: one_answer_def kit_def)
  have s: "\<forall>y \<in> set (assemblies_in (kit [])). buyable ?env y = is_declared_purchasable y"
    by (simp add: kit_def buyable_def kit_env_def)
  have "line_count b ''//p:board'' = bom_count (get_supply_bom (kit [])) ''//p:board''"
    by (rule detailed_is_supply_bom [OF b _ s o]) (simp add: no_software)
  then show ?thesis using b by (simp add: kit_boms count_of_def)
qed

theorem grouped_counts_witness:
  "\<exists>g. get_bom_grouped kit_env (kit_object ''kit'' False []) (kit [(''software'', PStr ''fw'')]) = Inr g
     \<and> section_count (g_software g) ''//p'' ''chip'' = 1 \<and> section_count (g_parts g) ''//p'' ''chip'' = 1"
proof -
  have "case get_bom_grouped kit_env (kit_object ''kit'' False []) (kit [(''software'', PStr ''fw'')]) of Inl _ \<Rightarrow> False | Inr _ \<Rightarrow> True"
    by code_simp
  then obtain g where g: "get_bom_grouped kit_env (kit_object ''kit'' False []) (kit [(''software'', PStr ''fw'')]) = Inr g"
    by (auto split: sum.splits)
  have "map place_of (parts_in (kit [(''software'', PStr ''fw'')])) = [(''//p'', ''screw''), (''//p'', ''chip''), (''//p'', ''screw'')]"
    "concat (map (shipped kit_env) (kit_object ''kit'' False [] # objects_within (kit [(''software'', PStr ''fw'')]))) = [(''//p'', ''chip'')]"
    by code_simp+
  then show ?thesis using grouped_counts [OF g, of "''//p''" "''chip''"] g by simp
qed

text \<open>
  A part and the software of the same name in the same package share one line of the detailed bill: the
  board ships with the software \<open>//p:chip\<close> and holds the part \<open>//p:chip\<close>, and the bill has one line of the
  name, of the kind that came first, that counts both.
\<close>

theorem part_and_software_share_a_line:
  "map_sum id (map (\<lambda>(n, l). (n, ln_kind l, ln_count l)))
     (get_bom_detailed kit_env False (kit_object ''kit'' False []) (kit [(''software'', PStr ''chip'')]))
   = Inr [(''//p:screw'', ''part'', 2), (''//p:chip'', ''software'', 2)]"
  by code_simp

end
