(* ===== verification/ShapeTree.thy ===== *)
theory ShapeTree
  imports ShapePorts AssemblyConnect
begin

text \<open>
  The ports of a tree of objects: where each port of an object is and which interface it belongs to, what
  is inside an assembly (\<open>partcad/shape_ports.py\<close>), and the ports and interfaces an assembly externalizes
  of what it is made of (\<open>partcad/assembly_ports.py\<close>). An object is taken as constructed: its declaration,
  the package it is read in, and what its \<open>map:\<close> was resolved to. What is reported is left out.
\<close>

section \<open>Objects and trees\<close>

text \<open>\<open>sh_self\<close> is the object's \<open>WithPorts\<close> as constructed, \<open>sh_declared\<close> the declaration it reads.\<close>

record 'sk mapped =
  mp_ports :: "(string \<times> 'sk port) list"
  mp_inherits :: "(string \<times> inherit) list"

record 'sk shape =
  sh_name :: string
  sh_config :: pydict
  sh_env :: "'sk project_env"
  sh_ported :: bool
  sh_self :: "'sk interface"
  sh_declared :: pydict
  sh_values :: pydict
  sh_root :: "location option"
  sh_mapped :: "'sk mapped option"

datatype 'sk tree = Part_tree "'sk shape" | Assembly_tree "'sk shape" "'sk branch list"
  and 'sk branch = Branch (br_name: pyval) (br_location: "location option") (br_item: "'sk tree")

fun shape_of :: "'sk tree \<Rightarrow> 'sk shape" where
  "shape_of (Part_tree sh) = sh"
| "shape_of (Assembly_tree sh _) = sh"

definition sh_project :: "'sk shape \<Rightarrow> string" where
  "sh_project sh = package_name (e_id (sh_env sh))"

record 'sk tree_env =
  te_limit :: nat
  te_hierarchy :: "'sk hierarchy"
  te_sketch_name :: "'sk \<Rightarrow> string"
  te_repr :: "pyval \<Rightarrow> string"

definition no_mapped :: "'sk mapped" where
  "no_mapped = \<lparr>mp_ports = [], mp_inherits = []\<rparr>"

definition interface_at :: "'sk hierarchy \<Rightarrow> string \<Rightarrow> string \<Rightarrow> 'sk interface option" where
  "interface_at h package name = map_of h (package @ '':'' @ name)"

definition mapped_of :: "'sk shape \<Rightarrow> 'sk mapped" where
  "mapped_of sh = (case sh_mapped sh of None \<Rightarrow> no_mapped | Some m \<Rightarrow> m)"

text \<open>What is externalized is adopted before what is implemented.\<close>

fun adopt_elsewhere ::
  "'sk project_env \<Rightarrow> 'sk hierarchy \<Rightarrow> string list \<Rightarrow> (string \<times> inherit) list \<Rightarrow> 'sk interface \<Rightarrow> exn + 'sk interface" where
  "adopt_elsewhere env h own [] i = Inr i"
| "adopt_elsewhere env h own ((_, inh) # rest) i =
     (case map_of h (in_target inh) of
        None \<Rightarrow> Inl AttributeError
      | Some parent \<Rightarrow>
          (case adopt_inherit env own parent inh i of
             Inl e \<Rightarrow> Inl e
           | Inr i \<Rightarrow> adopt_elsewhere env h own rest i))"

text \<open>
  The ports of an object: what it externalizes, then what it declares, then what it implements.
\<close>

definition shape_interface :: "'sk tree_env \<Rightarrow> 'sk shape \<Rightarrow> exn + 'sk interface" where
  "shape_interface te sh =
     (let h = te_hierarchy te; env = sh_env sh; own = map fst (if_params (sh_self sh)) in
      case instantiate_declared_ports env (sh_declared sh) (mp_ports (mapped_of sh)) of
        Inl e \<Rightarrow> Inl e
      | Inr ports \<Rightarrow>
          (case adopt_elsewhere env h own (mp_inherits (mapped_of sh)) ((sh_self sh)\<lparr>if_ports := ports\<rparr>) of
             Inl e \<Rightarrow> Inl e
           | Inr i \<Rightarrow>
               instantiate_inherits env (interface_at h) (map_of h) (sh_values sh) (sh_declared sh) ''implements'' own i))"

definition carrier :: "'sk tree_env \<Rightarrow> 'sk shape \<Rightarrow> exn + ('sk interface \<times> carried) option" where
  "carrier te sh =
     (if \<not> sh_ported sh then Inr None
      else
        (case shape_interface te sh of
           Inl e \<Rightarrow> Inl e
         | Inr i \<Rightarrow>
             map_sum id (\<lambda>c. Some (i, c)) (instantiate_interfaces (te_limit te) (te_hierarchy te) (sh_project sh) i)))"

section \<open>Ports as somebody outside sees them\<close>

record 'sk port_record =
  pr_name :: string
  pr_port :: "'sk port"
  pr_location :: location
  pr_interface :: "(string \<times> string) option"
  pr_owner :: string

definition qualify :: "string \<Rightarrow> string \<Rightarrow> string" where
  "qualify owner name = (if owner \<noteq> [] then owner @ '':'' @ name else name)"

definition short_interface_name :: "string \<Rightarrow> string" where
  "short_interface_name name = snd (snd (rpartition1 CHR '':'' name))"

text \<open>The interface and the instance of a port: the first that lists it.\<close>

definition claims :: "carried \<Rightarrow> (string \<times> (string \<times> string)) list" where
  "claims c = concat (map (\<lambda>(i, insts). concat (map (\<lambda>(n, ps). map (\<lambda>(_, p). (p, (i, n))) ps) insts)) c)"

definition interface_of_port :: "carried \<Rightarrow> string \<Rightarrow> (string \<times> string) option" where
  "interface_of_port c port = map_of (claims c) port"

definition own_ports :: "'sk tree_env \<Rightarrow> 'sk shape \<Rightarrow> location \<Rightarrow> string \<Rightarrow> exn + 'sk port_record list" where
  "own_ports te sh placement owner =
     (case carrier te sh of
        Inl e \<Rightarrow> Inl e
      | Inr None \<Rightarrow> Inr []
      | Inr (Some (i, c)) \<Rightarrow>
          Inr (map (\<lambda>(name, p). \<lparr>pr_name = qualify owner name, pr_port = p, pr_location = mul_location placement (port_location p),
                                 pr_interface = interface_of_port c name, pr_owner = owner\<rparr>) (if_ports i)))"

record port_entry =
  pe_name :: string
  pe_location :: "vec3 \<times> vec3 \<times> real"
  pe_interface :: "(string \<times> string) option"
  pe_sketch :: "string option"

definition port_entry_of :: "('sk \<Rightarrow> string) \<Rightarrow> 'sk port_record \<Rightarrow> port_entry" where
  "port_entry_of sketch_name r =
     \<lparr>pe_name = pr_name r, pe_location = as_packed (pr_location r), pe_interface = pr_interface r,
      pe_sketch = map_option sketch_name (port_sketch (pr_port r))\<rparr>"

fun group_ports :: "'sk port_record list \<Rightarrow> ((string \<times> string) \<times> string list) list \<Rightarrow> ((string \<times> string) \<times> string list) list" where
  "group_ports [] groups = groups"
| "group_ports (r # rest) groups =
     (case pr_interface r of
        None \<Rightarrow> group_ports rest groups
      | Some k \<Rightarrow>
          group_ports rest (AList.update k ((case map_of groups k of None \<Rightarrow> [] | Some names \<Rightarrow> names) @ [pr_name r]) groups))"

definition connection_metadata ::
  "'sk tree_env \<Rightarrow> 'sk shape \<Rightarrow> exn + (port_entry list \<times> ((string \<times> string) \<times> string list) list)" where
  "connection_metadata te sh =
     map_sum id (\<lambda>records. (map (port_entry_of (te_sketch_name te)) records, group_ports records []))
       (own_ports te sh identity_location [])"

section \<open>What an assembly externalizes\<close>

definition is_container :: "'sk shape \<Rightarrow> bool" where
  "is_container sh = (case map_of (sh_config sh) ''child'' of None \<Rightarrow> False | Some v \<Rightarrow> truthy v)"

definition child_placement :: "location \<Rightarrow> location option \<Rightarrow> location" where
  "child_placement placement at_child = (case at_child of None \<Rightarrow> placement | Some l \<Rightarrow> mul_location placement l)"

definition own_placement :: "'sk tree \<Rightarrow> location \<Rightarrow> location" where
  "own_placement t placement =
     (case t of Part_tree _ \<Rightarrow> placement | Assembly_tree sh _ \<Rightarrow> (case sh_root sh of None \<Rightarrow> placement | Some r \<Rightarrow> mul_location placement r))"

definition node_path :: "string \<Rightarrow> pyval \<Rightarrow> exn + string" where
  "node_path outer name =
     (case name of
        PStr s \<Rightarrow> Inr (if s = [] then outer else if outer = [] then s else outer @ ''/'' @ s)
      | _ \<Rightarrow> if truthy name then Inl TypeError else Inr outer)"

type_synonym 'sk node_table = "(string \<times> ('sk tree \<times> location)) list"

definition index_node :: "string \<Rightarrow> string \<Rightarrow> 'sk tree \<Rightarrow> location \<Rightarrow> 'sk node_table \<Rightarrow> 'sk node_table" where
  "index_node outer path it place index =
     (if path \<noteq> [] \<and> path \<noteq> outer \<and> \<not> dict_has index path then index @ [(path, (it, place))] else index)"

fun node_index :: "'sk branch list \<Rightarrow> string \<Rightarrow> location \<Rightarrow> 'sk node_table \<Rightarrow> exn + 'sk node_table"
  and index_item :: "'sk tree \<Rightarrow> string \<Rightarrow> location \<Rightarrow> 'sk node_table \<Rightarrow> exn + 'sk node_table" where
  "node_index [] outer placement index = Inr index"
| "node_index (Branch name at_child it # rest) outer placement index =
     (let place = child_placement placement at_child in
      case node_path outer name of
        Inl e \<Rightarrow> Inl e
      | Inr path \<Rightarrow>
          (case index_item it path place (index_node outer path it place index) of
             Inl e \<Rightarrow> Inl e
           | Inr index \<Rightarrow> node_index rest outer placement index))"
| "index_item (Part_tree sh) path place index = Inr index"
| "index_item (Assembly_tree sh cs) path place index = (if is_container sh then node_index cs path place index else Inr index)"

definition match_mapped :: "string list \<Rightarrow> string \<Rightarrow> string \<Rightarrow> string option" where
  "match_mapped available project name =
     (if name \<in> set available then Some name
      else if project @ '':'' @ name \<in> set available then Some (project @ '':'' @ name)
      else
        (case filter (\<lambda>n. short_interface_name n = short_interface_name name) available of
           [m] \<Rightarrow> Some m
         | _ \<Rightarrow> None))"

text \<open>
  Where an object carries an instance of an interface: stated where the object declares it, and implied by
  the ports it produced otherwise.
\<close>

fun derived_location ::
  "(string \<times> 'sk port) list \<Rightarrow> (string \<times> 'sk port) list \<Rightarrow> (string \<times> string) list \<Rightarrow> string list \<Rightarrow> location" where
  "derived_location own_ps iface_ps inst [] = identity_location"
| "derived_location own_ps iface_ps inst (n # names) =
     (case (Option.bind (map_of inst n) (map_of own_ps), map_of iface_ps n) of
        (Some a, Some b) \<Rightarrow> mul_location (port_location a) (inverse_location (port_location b))
      | _ \<Rightarrow> derived_location own_ps iface_ps inst names)"

definition located_instance :: "'sk hierarchy \<Rightarrow> 'sk interface \<Rightarrow> carried \<Rightarrow> string \<Rightarrow> string \<Rightarrow> location" where
  "located_instance h i c iface instance_name =
     (case Option.bind (map_of (if_inherits i) iface) (\<lambda>inh. map_of (in_instances inh) instance_name) of
        Some l \<Rightarrow> l
      | None \<Rightarrow>
          (let inst = (case Option.bind (map_of c iface) (\<lambda>insts. map_of insts instance_name) of None \<Rightarrow> [] | Some ps \<Rightarrow> ps)
           in derived_location (if_ports i) (case map_of h iface of None \<Rightarrow> [] | Some p \<Rightarrow> if_ports p) inst (sort (map fst inst))))"

definition merge_inherit :: "inherit \<Rightarrow> 'sk mapped \<Rightarrow> 'sk mapped" where
  "merge_inherit inh m =
     (case map_of (mp_inherits m) (in_name inh) of
        None \<Rightarrow> m\<lparr>mp_inherits := AList.update (in_name inh) inh (mp_inherits m)\<rparr>
      | Some existing \<Rightarrow>
          m\<lparr>mp_inherits := AList.update (in_name inh)
              (existing\<lparr>in_instances := foldl (\<lambda>d (n, l). if dict_has d n then d else AList.update n l d) (in_instances existing) (in_instances inh)\<rparr>)
              (mp_inherits m)\<rparr>)"

definition resolve_port :: "'sk project_env \<Rightarrow> string \<Rightarrow> 'sk interface \<Rightarrow> location \<Rightarrow> string \<Rightarrow> 'sk mapped \<Rightarrow> 'sk mapped" where
  "resolve_port env name i placement port m =
     (case map_of (if_ports i) port of
        None \<Rightarrow> m
      | Some p \<Rightarrow>
          (case new_port env name [] (port_sketch p) (Some (mul_location placement (port_location p))) (port_params p) of
             Inl _ \<Rightarrow> m
           | Inr q \<Rightarrow> m\<lparr>mp_ports := AList.update name q (mp_ports m)\<rparr>))"

text \<open>\<open>InterfaceInherits(matched, project, {name: location.as_packed()})\<close>\<close>

definition mapped_inherit :: "'sk project_env \<Rightarrow> 'sk hierarchy \<Rightarrow> string \<Rightarrow> string \<Rightarrow> location \<Rightarrow> inherit option" where
  "mapped_inherit env h matched name l =
     (case inherit_name (e_id env) matched of
        Inl _ \<Rightarrow> None
      | Inr (package, base) \<Rightarrow>
          (case (interface_at h package base, packed_location (as_packed l)) of
             (Some i, Some l) \<Rightarrow>
               Some \<lparr>in_name = package @ '':'' @ base, in_target = if_name i, in_instances = [(name, l)], in_sketches = []\<rparr>
           | _ \<Rightarrow> None))"

definition resolve_mapped_instance ::
  "'sk tree_env \<Rightarrow> 'sk project_env \<Rightarrow> string \<Rightarrow> string \<Rightarrow> 'sk interface \<Rightarrow> carried \<Rightarrow> location \<Rightarrow> string \<Rightarrow> string
     \<Rightarrow> 'sk mapped \<Rightarrow> 'sk mapped" where
  "resolve_mapped_instance te env name project i c placement iface instance_name m =
     (case match_mapped (map fst c) project iface of
        None \<Rightarrow> m
      | Some matched \<Rightarrow>
          (if \<not> (case map_of c matched of None \<Rightarrow> False | Some insts \<Rightarrow> dict_has insts instance_name) then m
           else
             (case mapped_inherit env (te_hierarchy te) matched name
                     (mul_location placement (located_instance (te_hierarchy te) i c matched instance_name)) of
                None \<Rightarrow> m
              | Some inh \<Rightarrow> merge_inherit inh m)))"

definition resolve_entry :: "'sk tree_env \<Rightarrow> 'sk project_env \<Rightarrow> 'sk node_table \<Rightarrow> string \<Rightarrow> pyval \<Rightarrow> 'sk mapped \<Rightarrow> 'sk mapped" where
  "resolve_entry te env nodes name entry_value m =
     (let at_node = (\<lambda>node f. case map_of nodes node of
            None \<Rightarrow> m
          | Some (it, placement) \<Rightarrow>
              (case carrier te (shape_of it) of
                 Inr (Some (i, c)) \<Rightarrow> f (sh_project (shape_of it)) i c (own_placement it placement)
               | _ \<Rightarrow> m))
      in case entry_value of
           PList [PStr node, PStr port] \<Rightarrow> at_node node (\<lambda>project i c placement. resolve_port env name i placement port m)
         | PList [PStr node, PStr iface, PStr inst] \<Rightarrow>
             at_node node (\<lambda>project i c placement. resolve_mapped_instance te env name project i c placement iface inst m)
         | _ \<Rightarrow> m)"

definition resolve_map :: "'sk tree_env \<Rightarrow> 'sk shape \<Rightarrow> 'sk branch list option \<Rightarrow> 'sk mapped" where
  "resolve_map te sh children =
     (case (map_of (sh_declared sh) ''map'', children) of
        (Some (PDict entries), Some cs) \<Rightarrow>
          (case node_index cs [] identity_location [] of
             Inl _ \<Rightarrow> no_mapped
           | Inr nodes \<Rightarrow> foldl (\<lambda>m (name, entry_value). resolve_entry te (sh_env sh) nodes name entry_value m) no_mapped entries)
      | _ \<Rightarrow> no_mapped)"

text \<open>
  \<open>prepare_async\<close>: an object whose configuration has a map gets it resolved, once; what the map names is
  prepared before.
\<close>

definition prepare :: "'sk tree_env \<Rightarrow> 'sk branch list option \<Rightarrow> 'sk shape \<Rightarrow> 'sk shape" where
  "prepare te children sh =
     (if \<not> (case map_of (sh_config sh) ''map'' of None \<Rightarrow> False | Some v \<Rightarrow> truthy v) \<or> \<not> sh_ported sh \<or> sh_mapped sh \<noteq> None then sh
      else sh\<lparr>sh_mapped := Some (resolve_map te sh children)\<rparr>)"

fun prepared :: "'sk tree_env \<Rightarrow> 'sk tree \<Rightarrow> 'sk tree" and prepared_branches :: "'sk tree_env \<Rightarrow> 'sk branch list \<Rightarrow> 'sk branch list" where
  "prepared te (Part_tree sh) = Part_tree (prepare te None sh)"
| "prepared te (Assembly_tree sh cs) =
     (let ds = prepared_branches te cs in Assembly_tree (prepare te (Some ds) sh) ds)"
| "prepared_branches te [] = []"
| "prepared_branches te (Branch name l t # rest) = Branch name l (prepared te t) # prepared_branches te rest"

section \<open>The walk through an assembly\<close>

definition embeds :: "'sk tree \<Rightarrow> bool" where
  "embeds t = is_container (shape_of t)"

definition child_label :: "(pyval \<Rightarrow> string) \<Rightarrow> pyval \<Rightarrow> 'sk tree \<Rightarrow> string" where
  "child_label repr name t = (if name = PNone then sh_name (shape_of t) else if truthy name then py_str repr name else [])"

definition child_owner :: "(pyval \<Rightarrow> string) \<Rightarrow> string \<Rightarrow> pyval \<Rightarrow> 'sk tree \<Rightarrow> string" where
  "child_owner repr owner name t =
     (if embeds t then owner
      else (let label = child_label repr name t in if label \<noteq> [] then qualify owner label else owner))"

fun collect :: "'sk tree_env \<Rightarrow> 'sk tree \<Rightarrow> string \<Rightarrow> location \<Rightarrow> bool \<Rightarrow> exn + 'sk port_record list"
  and collect_children :: "'sk tree_env \<Rightarrow> 'sk branch list \<Rightarrow> string \<Rightarrow> location \<Rightarrow> exn + 'sk port_record list" where
  "collect te (Part_tree sh) owner placement deep = own_ports te sh placement owner"
| "collect te (Assembly_tree sh cs) owner placement deep =
     (let placement = own_placement (Assembly_tree sh cs) placement in
      case own_ports te sh placement owner of
        Inl e \<Rightarrow> Inl e
      | Inr records \<Rightarrow> if deep then map_sum id ((@) records) (collect_children te cs owner placement) else Inr records)"
| "collect_children te [] owner placement = Inr []"
| "collect_children te (Branch name l t # rest) owner placement =
     (case collect te t (child_owner (te_repr te) owner name t) (child_placement placement l) True of
        Inl e \<Rightarrow> Inl e
      | Inr records \<Rightarrow> map_sum id ((@) records) (collect_children te rest owner placement))"

definition ports_of :: "'sk tree_env \<Rightarrow> 'sk tree \<Rightarrow> bool \<Rightarrow> exn + 'sk port_record list" where
  "ports_of te t deep = collect te (prepared te t) [] identity_location deep"

section \<open>The two lists of a node agree\<close>

definition names_of :: "'sk port_record list \<Rightarrow> string \<times> string \<Rightarrow> string list" where
  "names_of records k = map pr_name (filter (\<lambda>r. pr_interface r = Some k) records)"

lemma group_ports_get:
  "map_of (group_ports records groups) k =
     (if names_of records k = [] then map_of groups k
      else Some ((case map_of groups k of None \<Rightarrow> [] | Some names \<Rightarrow> names) @ names_of records k))"
  by (induction records groups rule: group_ports.induct) (auto simp: names_of_def split: option.splits)

text \<open>
  The interfaces a node carries are its ports partitioned: an instance of an interface is listed exactly
  where some port names it, with exactly the ports that name it, in the order of the ports.
\<close>

theorem connection_lists_agree:
  assumes "connection_metadata te sh = Inr (ports, groups)"
  shows "map_of groups k =
     (let names = map pe_name (filter (\<lambda>e. pe_interface e = Some k) ports) in if names = [] then None else Some names)"
proof -
  obtain records where p: "ports = map (port_entry_of (te_sketch_name te)) records" and g: "groups = group_ports records []"
    using assms by (auto simp: connection_metadata_def map_sum_Inr)
  have "map pe_name (filter (\<lambda>e. pe_interface e = Some k) ports) = names_of records k"
    by (simp add: p names_of_def filter_map o_def port_entry_of_def)
  then show ?thesis using group_ports_get [of records "[]" k] by (simp add: g Let_def)
qed

section \<open>Preparing twice is preparing once\<close>

lemma prepare_prepare: "prepare te x (prepare te y sh) = prepare te y sh"
  by (simp add: prepare_def)

text \<open>A tree whose maps are resolved is left as it is by resolving them again.\<close>

theorem prepared_idempotent: "prepared te (prepared te t) = prepared te t"
proof -
  have "prepared te (prepared te t) = prepared te t"
    and "prepared_branches te (prepared_branches te cs) = prepared_branches te cs" for cs
    by (induction te t and te cs rule: prepared_prepared_branches.induct) (simp_all add: prepare_prepare Let_def)
  then show ?thesis by blast
qed

section \<open>The walk moves with the tree\<close>

fun rigid_tree :: "'sk tree \<Rightarrow> bool" and rigid_branches :: "'sk branch list \<Rightarrow> bool" where
  "rigid_tree (Part_tree sh) = True"
| "rigid_tree (Assembly_tree sh cs) =
     ((\<forall>l. sh_root sh = Some l \<longrightarrow> rigid l) \<and> (is_container sh \<longrightarrow> sh_root sh = None) \<and> rigid_branches cs)"
| "rigid_branches [] = True"
| "rigid_branches (Branch name l t # rest) = ((\<forall>x. l = Some x \<longrightarrow> rigid x) \<and> rigid_tree t \<and> rigid_branches rest)"

definition moved_record :: "location \<Rightarrow> 'sk port_record \<Rightarrow> 'sk port_record" where
  "moved_record g r = r\<lparr>pr_location := mul_location g (pr_location r)\<rparr>"

lemma own_placement_moved:
  "rigid g \<Longrightarrow> rigid p \<Longrightarrow> own_placement t (mul_location g p) = mul_location g (own_placement t p)"
  by (auto simp: own_placement_def placed.mul_assoc split: tree.splits option.splits)

lemma child_placement_moved:
  "rigid g \<Longrightarrow> rigid p \<Longrightarrow> child_placement (mul_location g p) l = mul_location g (child_placement p l)"
  by (auto simp: child_placement_def placed.mul_assoc split: option.splits)

lemma own_placement_rigid: "rigid_tree t \<Longrightarrow> rigid p \<Longrightarrow> rigid (own_placement t p)"
  by (cases t) (auto simp: own_placement_def placed.mul_valid split: option.splits)

lemma child_placement_rigid: "\<forall>x. l = Some x \<longrightarrow> rigid x \<Longrightarrow> rigid p \<Longrightarrow> rigid (child_placement p l)"
  by (auto simp: child_placement_def placed.mul_valid split: option.splits)

lemma own_ports_moved:
  "rigid g \<Longrightarrow> rigid p \<Longrightarrow> own_ports te sh (mul_location g p) owner = map_sum id (map (moved_record g)) (own_ports te sh p owner)"
  by (auto simp: own_ports_def moved_record_def placed.mul_assoc split: sum.splits option.splits)

lemma collect_moved:
  "rigid g \<Longrightarrow> rigid p \<Longrightarrow> rigid_tree t \<Longrightarrow>
     collect te t owner (mul_location g p) deep = map_sum id (map (moved_record g)) (collect te t owner p deep)"
  "rigid g \<Longrightarrow> rigid p \<Longrightarrow> rigid_branches cs \<Longrightarrow>
     collect_children te cs owner (mul_location g p) = map_sum id (map (moved_record g)) (collect_children te cs owner p)"
proof (induction te t owner p deep and te cs owner p rule: collect_collect_children.induct)
  case (1 te sh owner p deep)
  then show ?case unfolding collect.simps by (intro own_ports_moved)
next
  case (2 te sh cs owner p deep)
  let ?p = "own_placement (Assembly_tree sh cs) p"
  have r: "rigid ?p" using "2.prems" own_placement_rigid by blast
  have o: "own_ports te sh (mul_location g ?p) owner = map_sum id (map (moved_record g)) (own_ports te sh ?p owner)"
    using "2.prems" r own_ports_moved by blast
  have c: "collect_children te cs owner (mul_location g ?p) = map_sum id (map (moved_record g)) (collect_children te cs owner ?p)"
    if "own_ports te sh ?p owner = Inr rs" deep for rs
    by (rule "2.IH" [OF refl that "2.prems"(1) r]) (use "2.prems"(3) in simp)
  show ?case
    using c by (cases "own_ports te sh ?p owner"; cases deep)
      (auto simp: own_placement_moved "2.prems" o Let_def sum.map_comp o_def)
next
  case (4 te name l t rest owner p)
  have p: "rigid (child_placement p l)" using "4.prems" child_placement_rigid by simp
  note t = "4.IH"(1) [OF "4.prems"(1) p]
  show ?case
    using t "4.IH"(2) "4.prems"
    by (cases "collect te t (child_owner (te_repr te) owner name t) (child_placement p l) True")
      (auto simp: child_placement_moved sum.map_comp o_def)
qed simp

text \<open>
  Moving an assembly moves every port the walk through it finds, at any depth, and changes nothing else:
  not which ports there are, nor their names, nor the interfaces they belong to.
\<close>

theorem deep_ports_move:
  assumes "rigid g" and "rigid p" and "rigid_tree t"
  shows "collect te t owner (mul_location g p) deep = map_sum id (map (moved_record g)) (collect te t owner p deep)"
  by (rule collect_moved(1) [OF assms])

section \<open>An externalized port is the port it externalizes\<close>

text \<open>Every node of the index is an object the walk comes to, at the place the index states.\<close>

lemma collect_children_in:
  "collect_children te (Branch name l t # rest) owner p = Inr records \<Longrightarrow>
     \<exists>a b. collect te t (child_owner (te_repr te) owner name t) (child_placement p l) True = Inr a
         \<and> collect_children te rest owner p = Inr b \<and> records = a @ b"
  by (auto simp: map_sum_Inr split: sum.splits)

lemma index_walked:
  fixes g :: location and te :: "'sk tree_env"
  shows "node_index cs outer p index = Inr index' \<Longrightarrow> collect_children te cs owner (mul_location g p) = Inr records \<Longrightarrow>
      rigid_branches cs \<Longrightarrow> rigid p \<Longrightarrow> rigid g \<Longrightarrow> (x, (it, place)) \<in> set index' \<Longrightarrow> (x, (it, place)) \<notin> set index \<Longrightarrow>
      rigid place \<and> rigid_tree it \<and> (\<exists>owner' records'. collect te it owner' (mul_location g place) True = Inr records' \<and> set records' \<subseteq> set records)"
    and "index_item t outer p index = Inr index' \<Longrightarrow> collect te t owner (mul_location g p) True = Inr records \<Longrightarrow>
      rigid_tree t \<Longrightarrow> rigid p \<Longrightarrow> rigid g \<Longrightarrow> (x, (it, place)) \<in> set index' \<Longrightarrow> (x, (it, place)) \<notin> set index \<Longrightarrow>
      rigid place \<and> rigid_tree it \<and> (\<exists>owner' records'. collect te it owner' (mul_location g place) True = Inr records' \<and> set records' \<subseteq> set records)"
proof (induction cs outer p index and t outer p index arbitrary: owner records index' and owner records index'
    rule: node_index_index_item.induct)
  case (2 name l t rest outer p index)
  let ?pl = "child_placement p l"
  obtain path mid where path: "node_path outer name = Inr path"
    and m: "index_item t path ?pl (index_node outer path t ?pl index) = Inr mid" and r: "node_index rest outer p mid = Inr index'"
    using "2.prems"(1) by (auto simp: Let_def split: sum.splits)
  obtain a b where a: "collect te t (child_owner (te_repr te) owner name t) (child_placement (mul_location g p) l) True = Inr a"
    and b: "collect_children te rest owner (mul_location g p) = Inr b" and ab: "records = a @ b"
    using collect_children_in [OF "2.prems"(2)] by blast
  have rp: "rigid ?pl" "rigid_tree t" "rigid_branches rest" using "2.prems"(3,4) child_placement_rigid by auto
  note a' = a [unfolded child_placement_moved [OF "2.prems"(5,4)]]
  show ?case
  proof (cases "(x, (it, place)) \<in> set mid")
    case False
    from "2.IH"(2) [OF refl path m r b rp(3) "2.prems"(4,5,6) False] show ?thesis using ab by auto
  next
    case True
    show ?thesis
    proof (cases "(x, (it, place)) \<in> set (index_node outer path t ?pl index)")
      case False
      from "2.IH"(1) [OF refl path m a' rp(2,1) "2.prems"(5) True False] show ?thesis using ab by auto
    next
      case new: True
      then have "it = t" "place = ?pl" using "2.prems"(7) by (auto simp: index_node_def split: if_splits)
      then show ?thesis using a' rp ab by auto
    qed
  qed
next
  case (4 sh cs outer p index)
  show ?case
  proof (cases "is_container sh")
    case True
    then have "sh_root sh = None" using "4.prems"(3) by simp
    then obtain own rest where "collect_children te cs owner (mul_location g p) = Inr rest" "records = own @ rest"
      using "4.prems"(2) by (auto simp: own_placement_def map_sum_Inr Let_def split: sum.splits)
    then show ?thesis using "4.IH" [OF True, of index' owner rest] "4.prems" True by auto
  qed (use "4.prems"(1,6,7) in simp)
qed simp_all

lemma collect_own:
  assumes "collect te t owner p deep = Inr records" and "carrier te (shape_of t) = Inr (Some (i, c))" and "map_of (if_ports i) n = Some q"
  shows "\<exists>r \<in> set records. pr_port r = q \<and> pr_location r = mul_location (own_placement t p) (port_location q)"
proof -
  obtain own rest where o: "own_ports te (shape_of t) (own_placement t p) owner = Inr own" "records = own @ rest"
    using assms(1) by (cases t) (auto simp: own_placement_def Let_def map_sum_Inr split: sum.splits if_splits)
  have "(n, q) \<in> set (if_ports i)" using assms(3) by (rule map_of_SomeD)
  then show ?thesis using o assms(2) by (force simp: own_ports_def)
qed

lemma in_update: "(k, v) \<in> set (AList.update a b l) \<Longrightarrow> (k, v) = (a, b) \<or> (k, v) \<in> set l"
  by (induction l) (auto split: if_splits)

text \<open>Every port the map resolves to is a port of the object at a node, as that object has it.\<close>

definition port_at_node :: "'sk tree_env \<Rightarrow> 'sk node_table \<Rightarrow> 'sk port \<Rightarrow> bool" where
  "port_at_node te nodes q =
     (\<exists>node it place i c port p. map_of nodes node = Some (it, place) \<and> carrier te (shape_of it) = Inr (Some (i, c))
        \<and> map_of (if_ports i) port = Some p
        \<and> port_location q = mul_location (own_placement it place) (port_location p) \<and> port_sketch q = port_sketch p)"

lemma resolve_port_in:
  assumes "(k, q) \<in> set (mp_ports (resolve_port env name i place port m))" and "(k, q) \<notin> set (mp_ports m)"
  shows "\<exists>p. map_of (if_ports i) port = Some p \<and> port_location q = mul_location place (port_location p) \<and> port_sketch q = port_sketch p"
proof (cases "map_of (if_ports i) port")
  case (Some p)
  then have "(k, q) \<in> set (AList.update name \<lparr>port_name = name, port_at = Some (mul_location place (port_location p)),
      port_sketch = port_sketch p, port_params = port_params p\<rparr> (mp_ports m))"
    using assms(1) by (simp add: resolve_port_def new_port_placed)
  then have "q = \<lparr>port_name = name, port_at = Some (mul_location place (port_location p)),
      port_sketch = port_sketch p, port_params = port_params p\<rparr>"
    using in_update assms(2) by fastforce
  then show ?thesis using Some by (simp add: port_location_def)
qed (use assms in \<open>simp add: resolve_port_def\<close>)

lemma merge_inherit_ports [simp]: "mp_ports (merge_inherit inh m) = mp_ports m"
  by (simp add: merge_inherit_def split: option.splits)

lemma resolve_mapped_instance_ports [simp]:
  "mp_ports (resolve_mapped_instance te env name project i c place iface inst m) = mp_ports m"
  by (simp add: resolve_mapped_instance_def split: option.splits)

text \<open>An entry leaves the map as it is, or names a node and resolves a port or an instance of its object.\<close>

lemma resolve_entry_cases:
  obtains "resolve_entry te env nodes name v m = m"
  | node it place i c port where "map_of nodes node = Some (it, place)" "carrier te (shape_of it) = Inr (Some (i, c))"
      "resolve_entry te env nodes name v m = resolve_port env name i (own_placement it place) port m"
  | "mp_ports (resolve_entry te env nodes name v m) = mp_ports m"
  unfolding resolve_entry_def Let_def
  by (cases v; force split: list.splits pyval.splits option.splits sum.splits prod.splits)

lemma resolve_entry_in:
  assumes "(k, q) \<in> set (mp_ports (resolve_entry te env nodes name v m))" and "(k, q) \<notin> set (mp_ports m)"
  shows "port_at_node te nodes q"
proof (rule resolve_entry_cases [of te env nodes name v m])
  fix node it place i c port
  assume n: "map_of nodes node = Some (it, place)" "carrier te (shape_of it) = Inr (Some (i, c))"
    and r: "resolve_entry te env nodes name v m = resolve_port env name i (own_placement it place) port m"
  from resolve_port_in [OF assms(1) [unfolded r] assms(2)] n show ?thesis unfolding port_at_node_def by blast
qed (use assms in simp_all)

lemma resolve_entries_in:
  "(k, q) \<in> set (mp_ports (foldl (\<lambda>m (name, v). resolve_entry te env nodes name v m) m entries)) \<Longrightarrow>
     (k, q) \<in> set (mp_ports m) \<or> port_at_node te nodes q"
proof (induction entries arbitrary: m)
  case (Cons e entries)
  obtain name v where e: "e = (name, v)" by (cases e)
  from Cons.IH [of "resolve_entry te env nodes name v m"] Cons.prems e
  show ?case using resolve_entry_in by fastforce
qed simp

lemma resolve_map_in:
  assumes "(k, q) \<in> set (mp_ports (resolve_map te sh children))"
  shows "\<exists>cs nodes. children = Some cs \<and> node_index cs [] identity_location [] = Inr nodes \<and> port_at_node te nodes q"
proof -
  have none: "(k, q) \<notin> set (mp_ports no_mapped)" by (simp add: no_mapped_def)
  obtain entries cs where e: "map_of (sh_declared sh) ''map'' = Some (PDict entries)" "children = Some cs"
    using assms none by (auto simp: resolve_map_def split: option.splits pyval.splits)
  obtain nodes where n: "node_index cs [] identity_location [] = Inr nodes"
    using assms none e by (cases "node_index cs [] identity_location []") (auto simp: resolve_map_def)
  show ?thesis using assms e n none resolve_entries_in [of k q te "sh_env sh" nodes no_mapped entries]
    by (simp add: resolve_map_def)
qed

lemma prepare_mapped [simp]:
  "sh_root (prepare te x sh) = sh_root sh" "is_container (prepare te x sh) = is_container sh"
  by (simp_all add: prepare_def is_container_def)

lemma prepared_rigid [simp]:
  "rigid_tree (prepared te t) = rigid_tree t"
  "rigid_branches (prepared_branches te cs) = rigid_branches cs"
  by (induction te t and te cs rule: prepared_prepared_branches.induct) (simp_all add: Let_def)


section \<open>A table with one leg\<close>

definition sample_tree_env :: "unit tree_env" where
  "sample_tree_env = \<lparr>te_limit = 5, te_hierarchy = [], te_sketch_name = (\<lambda>_. ''sk''), te_repr = (\<lambda>_. [])\<rparr>"

definition sample_shape :: "string \<Rightarrow> pydict \<Rightarrow> unit shape" where
  "sample_shape n d = \<lparr>sh_name = n, sh_config = d, sh_env = sample_project, sh_ported = True, sh_self = blank_interface n,
     sh_declared = d, sh_values = [], sh_root = None, sh_mapped = None\<rparr>"

definition sample_leg :: "unit tree" where
  "sample_leg = Part_tree (sample_shape ''leg'' [(''ports'', PDict [(''tip'', PNone)])])"

definition sample_table :: "unit tree" where
  "sample_table = Assembly_tree (sample_shape ''table'' [(''map'', PDict [(''foot'', PList [PStr ''a'', PStr ''tip''])])])
     [Branch (PStr ''a'') (Some (identity_location\<lparr>loc_t := (1, 2, 3)\<rparr>)) sample_leg]"

lemma sample_new_port [simp]: "new_port env n [] None None [] = Inr \<lparr>port_name = n, port_at = None, port_sketch = None, port_params = []\<rparr>"
  by (simp add: new_port_def)

lemma sample_merge [simp]: "instantiate_interfaces n h p i = Inr []" if "if_inherits i = []" "n \<noteq> 0"
  using that by (cases n) (simp_all add: instantiate_interfaces_def)

lemma sample_leg_carrier:
  "carrier sample_tree_env (sample_shape ''leg'' [(''ports'', PDict [(''tip'', PNone)])])
     = Inr (Some ((blank_interface ''leg'')\<lparr>if_ports := [(''tip'', plain_port ''tip'' None)]\<rparr>, []))"
  by (simp add: carrier_def shape_interface_def sample_shape_def sample_tree_env_def mapped_of_def no_mapped_def
      instantiate_declared_ports_def named_section_def plain_port_def instantiate_inherits_def inherits_section_def
      blank_interface_def Let_def)

lemma sample_table_prepared:
  "prepared sample_tree_env sample_table = Assembly_tree
     ((sample_shape ''table'' [(''map'', PDict [(''foot'', PList [PStr ''a'', PStr ''tip''])])])
        \<lparr>sh_mapped := Some \<lparr>mp_ports = [(''foot'', plain_port ''foot'' (Some (mul_location (identity_location\<lparr>loc_t := (1, 2, 3)\<rparr>) identity_location)))],
                            mp_inherits = []\<rparr>\<rparr>)
     [Branch (PStr ''a'') (Some (identity_location\<lparr>loc_t := (1, 2, 3)\<rparr>)) sample_leg]"
proof -
  let ?l = "identity_location\<lparr>loc_t := (1, 2, 3)\<rparr>"
  have leg: "prepared sample_tree_env sample_leg = sample_leg" by (simp add: sample_leg_def prepare_def sample_shape_def)
  have index: "node_index [Branch (PStr ''a'') (Some ?l) sample_leg] [] identity_location []
      = Inr [(''a'', (sample_leg, ?l))]"
    by (simp add: node_path_def sample_leg_def index_node_def child_placement_def placed.mul_one)
  have "resolve_entry sample_tree_env sample_project [(''a'', (sample_leg, ?l))] ''foot'' (PList [PStr ''a'', PStr ''tip'']) no_mapped
      = \<lparr>mp_ports = [(''foot'', plain_port ''foot'' (Some (mul_location ?l identity_location)))], mp_inherits = []\<rparr>"
    by (simp add: resolve_entry_def sample_leg_def sample_leg_carrier resolve_port_def new_port_placed plain_port_def own_placement_def
        no_mapped_def port_location_def)
  then show ?thesis
    by (simp add: sample_table_def leg prepare_def sample_shape_def resolve_map_def index del: node_index.simps)
qed

lemma sample_table_carries_nothing: "own_ports sample_tree_env (sample_shape n d\<lparr>sh_mapped := Some m\<rparr>) l o' =
    Inr (map (\<lambda>(name, p). \<lparr>pr_name = qualify o' name, pr_port = p, pr_location = mul_location l (port_location p),
                           pr_interface = None, pr_owner = o'\<rparr>) (mp_ports m))"
  if "mp_inherits m = []" "map_of d ''ports'' = None" "map_of d ''implements'' = None"
  using that
  by (simp add: own_ports_def carrier_def shape_interface_def sample_shape_def sample_tree_env_def mapped_of_def
      instantiate_declared_ports_def instantiate_inherits_def inherits_section_def blank_interface_def interface_of_port_def
      claims_def Let_def)

lemma sample_leg_ports: "own_ports sample_tree_env (sample_shape ''leg'' [(''ports'', PDict [(''tip'', PNone)])]) l o' =
    Inr [\<lparr>pr_name = qualify o' ''tip'', pr_port = plain_port ''tip'' None, pr_location = mul_location l identity_location,
          pr_interface = None, pr_owner = o'\<rparr>]"
  by (simp add: own_ports_def sample_leg_carrier interface_of_port_def claims_def plain_port_def port_location_def)


lemma connection_lists_agree_witness:
  "\<exists>ports groups. connection_metadata sample_tree_env (shape_of sample_leg) = Inr (ports, groups) \<and> map pe_name ports = [''tip'']
     \<and> map_of groups (''i'', ''n'') = (let names = map pe_name (filter (\<lambda>e. pe_interface e = Some (''i'', ''n'')) ports)
                                    in if names = [] then None else Some names)"
proof -
  obtain ports groups where c: "connection_metadata sample_tree_env (shape_of sample_leg) = Inr (ports, groups)"
    and n: "map pe_name ports = [''tip'']"
    by (simp add: connection_metadata_def sample_leg_def own_ports_def sample_leg_carrier port_entry_of_def qualify_def)
  show ?thesis
    by (rule exI [of _ ports], rule exI [of _ groups]) (intro conjI c n connection_lists_agree [OF c])
qed

end
