(* ===== verification/InterfaceIndex.thy ===== *)
theory InterfaceIndex
  imports ShapeTree Walks
begin

text \<open>
  Who has an interface: the names an object's declaration mentions, everything each of them inherits from,
  and the index of a package by both spellings of each (\<open>partcad/shape_ports.py\<close>, the second half, and
  \<open>mapped_interface_names\<close> of \<open>assembly_ports.py\<close>). What the code writes to the log is left out.
\<close>

section \<open>What a declaration names\<close>

definition qualified_interface_name :: "package_id \<Rightarrow> string \<Rightarrow> exn + string" where
  "qualified_interface_name p name = map_sum id (\<lambda>(package, nm). package @ '':'' @ nm) (inherit_name p name)"

definition mapped_interface_names :: "pydict \<Rightarrow> exn + string list" where
  "mapped_interface_names config =
     (case (case map_of config ''map'' of None \<Rightarrow> PNone | Some v \<Rightarrow> v) of
        PDict d \<Rightarrow> Inr (concat (map (\<lambda>(_, v). (case v of PList [_, PStr s, _] \<Rightarrow> [s] | _ \<Rightarrow> [])) d))
      | v \<Rightarrow> if truthy v then Inl AttributeError else Inr [])"

definition stated_interfaces :: "pydict \<Rightarrow> string list" where
  "stated_interfaces config =
     (case map_of config ''implements'' of
        Some (PStr s) \<Rightarrow> [s]
      | Some (PDict d) \<Rightarrow> map fst d
      | Some (PList xs) \<Rightarrow> concat (map (\<lambda>x. (case x of PStr s \<Rightarrow> [s] | _ \<Rightarrow> [])) xs)
      | _ \<Rightarrow> [])
     @ (case map_of config ''alias'' of Some (PStr s) \<Rightarrow> [s] | _ \<Rightarrow> [])"

text \<open>An object for the search: the declaration of its ports, if it has any, and the package it is read in.\<close>

record indexed =
  ix_name :: string
  ix_package :: package_id
  ix_declared :: "pydict option"

definition resolved_names :: "package_id \<Rightarrow> string list \<Rightarrow> string list" where
  "resolved_names p names =
     concat (map (\<lambda>n. if n = [] then [] else (case qualified_interface_name p n of Inl _ \<Rightarrow> [] | Inr q \<Rightarrow> [q])) names)"

definition declared_interfaces :: "indexed \<Rightarrow> exn + string list" where
  "declared_interfaces s =
     (case ix_declared s of
        None \<Rightarrow> Inr []
      | Some config \<Rightarrow>
          map_sum id (\<lambda>mapped. resolved_names (ix_package s) (stated_interfaces config @ mapped)) (mapped_interface_names config))"

section \<open>Everything an interface inherits from\<close>

text \<open>The pending interfaces are kept with the one to be popped first.\<close>

fun push_parents :: "'sk hierarchy \<Rightarrow> string list \<Rightarrow> string list \<times> string list \<Rightarrow> string list \<times> string list" where
  "push_parents h [] state = state"
| "push_parents h (p # ps) (pending, seen) =
     push_parents h ps (if map_of h p = None \<or> p \<in> set seen then (pending, seen) else (p # pending, p # seen))"

lemma push_parents_seen:
  "push_parents h ps (pending, seen) = (pending', seen') \<Longrightarrow>
     set seen \<subseteq> set seen' \<and> set seen' = set seen \<union> (set ps \<inter> dom (map_of h))
     \<and> set pending' = set pending \<union> (set seen' - set seen)
     \<and> (set seen' = set seen \<longrightarrow> pending' = pending)"
proof (induction ps arbitrary: pending seen)
  case (Cons p ps)
  show ?case
  proof (cases "map_of h p = None \<or> p \<in> set seen")
    case True
    then have "push_parents h ps (pending, seen) = (pending', seen')" using Cons.prems by simp
    from Cons.IH [OF this] True show ?thesis by (auto simp: dom_def)
  next
    case False
    then obtain i where i: "map_of h p = Some i" "p \<notin> set seen" by (cases "map_of h p") auto
    then have "push_parents h ps (p # pending, p # seen) = (pending', seen')" using Cons.prems by simp
    from Cons.IH [OF this] i show ?thesis by (auto simp: dom_def)
  qed
qed simp

function drain :: "'sk hierarchy \<Rightarrow> string list \<times> string list \<Rightarrow> string set \<Rightarrow> string set" where
  "drain h ([], seen) closure = closure"
| "drain h (current # pending, seen) closure =
     (case map_of h current of
        None \<Rightarrow> drain h (pending, seen) (insert current closure)
      | Some i \<Rightarrow> drain h (push_parents h (parents i) (pending, seen)) (insert current closure))"
  by pat_completeness auto

termination drain
proof (relation "inv_image (finite_psubset <*lex*> less_than) (\<lambda>(h, (pending, seen), closure). (dom (map_of h) - set seen, length pending))")
  fix h :: "'sk hierarchy" and current pending seen closure i
  obtain pending' seen' where p: "push_parents h (parents i) (pending, seen) = (pending', seen')" by fastforce
  note q = push_parents_seen [OF p]
  have "dom (map_of h) - set seen' \<subset> dom (map_of h) - set seen" if "set seen' \<noteq> set seen"
    using q that by blast
  then show "((h, push_parents h (parents i) (pending, seen), insert current closure), h, (current # pending, seen), closure)
      \<in> inv_image (finite_psubset <*lex*> less_than) (\<lambda>(h, (pending, seen), closure). (dom (map_of h) - set seen, length pending))"
    using q by (cases "set seen' = set seen") (auto simp: p finite_psubset_def finite_dom_map_of)
qed (auto simp: finite_psubset_def intro: wf_finite_psubset [unfolded finite_psubset_def])

definition interface_closure :: "'sk hierarchy \<Rightarrow> string \<Rightarrow> string set" where
  "interface_closure h name =
     (case map_of h name of None \<Rightarrow> {name} | Some _ \<Rightarrow> drain h ([name], [name]) {name})"

text \<open>Inheritance, between interfaces that are there.\<close>

definition inherits_from :: "'sk hierarchy \<Rightarrow> (string \<times> string) set" where
  "inherits_from h = {(x, y). \<exists>i. map_of h x = Some i \<and> y \<in> set (parents i) \<and> y \<in> dom (map_of h)}"

lemma drain_reachable:
  "set pending \<subseteq> set seen \<Longrightarrow> set seen = closure \<union> set pending \<Longrightarrow> set seen \<subseteq> {z. (s, z) \<in> (inherits_from h)\<^sup>*} \<Longrightarrow>
   s \<in> set seen \<Longrightarrow> (\<forall>x \<in> closure - set pending. \<forall>y. (x, y) \<in> inherits_from h \<longrightarrow> y \<in> set seen) \<Longrightarrow>
     drain h (pending, seen) closure = {z. (s, z) \<in> (inherits_from h)\<^sup>*}"
proof (induction h "(pending, seen)" closure arbitrary: pending seen rule: drain.induct)
  case (1 h seen closure)
  have "z \<in> closure" if "(s, z) \<in> (inherits_from h)\<^sup>*" for z
    using that by (induction rule: rtrancl_induct) (use 1 in auto)
  then show ?case using 1 by auto
next
  case (2 h current pending seen closure)
  show ?case
  proof (cases "map_of h current")
    case None
    have none: "(current, y) \<notin> inherits_from h" for y using None by (simp add: inherits_from_def)
    have closed: "\<forall>x \<in> insert current closure - set pending. \<forall>y. (x, y) \<in> inherits_from h \<longrightarrow> y \<in> set seen"
    proof (intro ballI allI impI)
      fix x y assume x: "x \<in> insert current closure - set pending" and y: "(x, y) \<in> inherits_from h"
      then have "x \<noteq> current" using none by blast
      then show "y \<in> set seen" using "2.prems"(5) x y by auto
    qed
    have "drain h (pending, seen) (insert current closure) = {z. (s, z) \<in> (inherits_from h)\<^sup>*}"
      by (rule "2.hyps"(1) [OF None]) (use "2.prems" closed in auto)
    then show ?thesis using None by simp
  next
    case (Some i)
    obtain pending' seen' where p: "push_parents h (parents i) (pending, seen) = (pending', seen')" by fastforce
    note q = push_parents_seen [OF p]
    have step: "(current, y) \<in> inherits_from h \<longleftrightarrow> y \<in> set (parents i) \<inter> dom (map_of h)" for y
      using Some by (auto simp: inherits_from_def)
    have reach: "set seen' \<subseteq> {z. (s, z) \<in> (inherits_from h)\<^sup>*}"
    proof
      fix z assume "z \<in> set seen'"
      then consider "z \<in> set seen" | "(current, z) \<in> inherits_from h" using q step by blast
      then show "z \<in> {z. (s, z) \<in> (inherits_from h)\<^sup>*}"
      proof cases
        case 2
        have "(s, current) \<in> (inherits_from h)\<^sup>*" using "2.prems" by auto
        then show ?thesis using 2 by auto
      qed (use "2.prems" in auto)
    qed
    have closed: "\<forall>x \<in> insert current closure - set pending'. \<forall>y. (x, y) \<in> inherits_from h \<longrightarrow> y \<in> set seen'"
    proof (intro ballI allI impI)
      fix x y assume x: "x \<in> insert current closure - set pending'" and y: "(x, y) \<in> inherits_from h"
      show "y \<in> set seen'"
      proof (cases "x = current")
        case True
        then show ?thesis using y step q by blast
      next
        case False
        then have "x \<in> closure - set (current # pending)" using x q by auto
        then show ?thesis using "2.prems"(5) y q by blast
      qed
    qed
    have "drain h (pending', seen') (insert current closure) = {z. (s, z) \<in> (inherits_from h)\<^sup>*}"
      by (rule "2.hyps"(2) [OF Some p]) (use "2.prems" q reach closed in auto)
    then show ?thesis using Some p by simp
  qed
qed

text \<open>
  The closure of an interface is the interface and everything it inherits from, at any distance, also where
  the declarations go in a circle.
\<close>

theorem closure_is_ancestry: "interface_closure h name = insert name {z. (name, z) \<in> (inherits_from h)\<^sup>*}"
proof (cases "map_of h name")
  case None
  have "z = name" if "(name, z) \<in> (inherits_from h)\<^sup>*" for z
    using that None by (cases rule: converse_rtranclE) (auto simp: inherits_from_def)
  then show ?thesis using None by (auto simp: interface_closure_def)
next
  case (Some i)
  have "drain h ([name], [name]) {name} = {z. (name, z) \<in> (inherits_from h)\<^sup>*}" by (rule drain_reachable) auto
  then show ?thesis using Some by (auto simp: interface_closure_def)
qed

section \<open>The index of a package\<close>

definition index_names :: "string set \<Rightarrow> string set" where
  "index_names closure = closure \<union> short_interface_name ` closure"

type_synonym closures = "(string \<times> string set) list"
type_synonym index = "string \<Rightarrow> indexed list option"

definition closure_memo :: "'sk hierarchy \<Rightarrow> string \<Rightarrow> closures \<Rightarrow> string set \<times> closures" where
  "closure_memo h name cache =
     (case map_of cache name of
        Some c \<Rightarrow> (c, cache)
      | None \<Rightarrow> (interface_closure h name, (name, interface_closure h name) # cache))"

fun gather_names :: "'sk hierarchy \<Rightarrow> string list \<Rightarrow> string set \<times> closures \<Rightarrow> string set \<times> closures" where
  "gather_names h [] state = state"
| "gather_names h (d # ds) (names, cache) =
     (case closure_memo h d cache of (c, cache) \<Rightarrow> gather_names h ds (names \<union> index_names c, cache))"

definition index_add :: "indexed \<Rightarrow> string set \<Rightarrow> index \<Rightarrow> index" where
  "index_add s names ix =
     (\<lambda>n. if n \<in> names then Some ((case ix n of None \<Rightarrow> [] | Some found \<Rightarrow> found) @ [s]) else ix n)"

fun build_index :: "'sk hierarchy \<Rightarrow> indexed list \<Rightarrow> closures \<Rightarrow> index \<Rightarrow> exn + index" where
  "build_index h [] cache ix = Inr ix"
| "build_index h (s # rest) cache ix =
     (case declared_interfaces s of
        Inl e \<Rightarrow> Inl e
      | Inr declared \<Rightarrow>
          (case gather_names h declared ({}, cache) of
             (names, cache) \<Rightarrow> build_index h rest cache (index_add s names ix)))"

text \<open>
  A package keeps the index of each kind once it is built. The objects of the kind are those the package has
  when the index is first asked for.
\<close>

definition OBJECT_KINDS :: "string list" where
  "OBJECT_KINDS = [''part'', ''assembly'', ''sketch'', ''scene'']"

definition interface_index ::
  "'sk hierarchy \<Rightarrow> (string \<Rightarrow> indexed list) \<Rightarrow> string \<Rightarrow> (string \<Rightarrow> index option) \<Rightarrow> exn + (index \<times> (string \<Rightarrow> index option))" where
  "interface_index h objects kind kept =
     (if kind \<notin> set OBJECT_KINDS then Inr (\<lambda>_. None, kept)
      else
        (case kept kind of
           Some ix \<Rightarrow> Inr (ix, kept)
         | None \<Rightarrow> map_sum id (\<lambda>ix. (ix, kept(kind := Some ix))) (build_index h (objects kind) [] (\<lambda>_. None))))"

definition implementers ::
  "'sk hierarchy \<Rightarrow> package_id \<Rightarrow> (string \<Rightarrow> indexed list) \<Rightarrow> string \<Rightarrow> (string \<Rightarrow> index option) \<Rightarrow> string
     \<Rightarrow> exn + (indexed list \<times> (string \<Rightarrow> index option))" where
  "implementers h p objects kind kept wanted =
     map_sum id (\<lambda>(ix, kept).
        (case (case qualified_interface_name p wanted of Inl _ \<Rightarrow> None | Inr q \<Rightarrow> ix q) of
           Some found \<Rightarrow> found
         | None \<Rightarrow> (case ix (short_interface_name wanted) of None \<Rightarrow> [] | Some found \<Rightarrow> found), kept))
       (interface_index h objects kind kept)"

section \<open>The search finds what implements the interface\<close>

text \<open>What it means for an object to answer to a name: something it declares is, or inherits from, an interface so called.\<close>

definition answers_to :: "'sk hierarchy \<Rightarrow> indexed \<Rightarrow> string \<Rightarrow> bool" where
  "answers_to h s n \<longleftrightarrow>
     (case declared_interfaces s of
        Inl _ \<Rightarrow> False
      | Inr declared \<Rightarrow>
          (\<exists>d \<in> set declared. \<exists>z \<in> insert d {z. (d, z) \<in> (inherits_from h)\<^sup>*}. n = z \<or> n = short_interface_name z))"

definition memo_right :: "'sk hierarchy \<Rightarrow> closures \<Rightarrow> bool" where
  "memo_right h cache \<longleftrightarrow> (\<forall>(n, c) \<in> set cache. c = interface_closure h n)"

lemma closure_memo_right:
  assumes "memo_right h cache"
  shows "fst (closure_memo h n cache) = interface_closure h n \<and> memo_right h (snd (closure_memo h n cache))"
  using assms by (cases "map_of cache n") (auto simp: closure_memo_def memo_right_def dest!: map_of_SomeD)

lemma gather_names_right:
  assumes "memo_right h cache"
  shows "fst (gather_names h ds (names, cache)) = names \<union> (\<Union>d \<in> set ds. index_names (interface_closure h d))
       \<and> memo_right h (snd (gather_names h ds (names, cache)))"
  using assms
proof (induction ds arbitrary: names cache)
  case (Cons d ds)
  obtain c cache' where c: "closure_memo h d cache = (c, cache')" by fastforce
  have "c = interface_closure h d" "memo_right h cache'" using closure_memo_right [OF Cons.prems, of d] c by auto
  then show ?case using Cons.IH [of cache' "names \<union> index_names c"] c by auto
qed simp

lemma gathered_names:
  assumes "declared_interfaces s = Inr declared" and "memo_right h cache"
  shows "n \<in> fst (gather_names h declared ({}, cache)) \<longleftrightarrow> answers_to h s n"
  using gather_names_right [OF assms(2), of declared "{}"] assms(1)
  by (auto simp: answers_to_def index_names_def closure_is_ancestry image_iff)

definition found_in :: "indexed list option \<Rightarrow> indexed list" where
  "found_in x = (case x of None \<Rightarrow> [] | Some found \<Rightarrow> found)"

lemma build_index_lookup:
  "build_index h ss cache ix = Inr ix' \<Longrightarrow> memo_right h cache \<Longrightarrow>
     found_in (ix' n) = found_in (ix n) @ filter (\<lambda>s. answers_to h s n) ss
     \<and> (ix' n = None \<longleftrightarrow> ix n = None \<and> (\<forall>s \<in> set ss. \<not> answers_to h s n))"
proof (induction ss arbitrary: cache ix)
  case (Cons s ss)
  obtain declared where d: "declared_interfaces s = Inr declared" using Cons.prems by (auto split: sum.splits)
  obtain names cache' where g: "gather_names h declared ({}, cache) = (names, cache')" by fastforce
  have n: "n \<in> names \<longleftrightarrow> answers_to h s n" using gathered_names [OF d Cons.prems(2), of n] g by simp
  have "memo_right h cache'" using gather_names_right [OF Cons.prems(2), of declared "{}"] g by simp
  moreover have "build_index h ss cache' (index_add s names ix) = Inr ix'" using Cons.prems d g by simp
  ultimately have ih: "found_in (ix' n) = found_in (index_add s names ix n) @ filter (\<lambda>s. answers_to h s n) ss"
    "ix' n = None \<longleftrightarrow> index_add s names ix n = None \<and> (\<forall>s \<in> set ss. \<not> answers_to h s n)"
    using Cons.IH by blast+
  then show ?case by (cases "answers_to h s n"; cases "ix n") (simp_all add: n index_add_def found_in_def)
qed simp


text \<open>Asking again builds nothing: the index of the kind is kept and the answer is the same.\<close>

lemma search_again:
  assumes "implementers h p objects kind kept wanted = Inr (found, kept')" and "kind \<in> set OBJECT_KINDS"
  shows "implementers h p objects' kind kept' wanted = Inr (found, kept')"
proof (cases "kept kind")
  case None
  then obtain ix where "kept' = kept(kind := Some ix)"
    and "found = (case (case qualified_interface_name p wanted of Inl _ \<Rightarrow> None | Inr q \<Rightarrow> ix q) of
      Some x \<Rightarrow> x | None \<Rightarrow> (case ix (short_interface_name wanted) of None \<Rightarrow> [] | Some x \<Rightarrow> x))"
    using assms by (auto simp: implementers_def interface_index_def map_sum_Inr)
  then show ?thesis using assms(2) by (simp add: implementers_def interface_index_def)
next
  case (Some ix)
  then show ?thesis using assms by (simp add: implementers_def interface_index_def map_sum_Inr)
qed

section \<open>A package with a bolt\<close>

definition sample_package :: package_id where
  "sample_package = \<lparr>package_name = ''//p'', declared_name = None\<rparr>"

definition sample_objects :: "string \<Rightarrow> indexed list" where
  "sample_objects kind = (if kind = ''part''
     then [\<lparr>ix_name = ''plate'', ix_package = sample_package, ix_declared = None\<rparr>,
           \<lparr>ix_name = ''bolt'', ix_package = sample_package, ix_declared = Some [(''implements'', PStr ''m3'')]\<rparr>]
     else [])"


end
