(* ===== verification/Gcode.thy ===== *)
theory Gcode
  imports Cam
begin

text \<open>
  \<open>partcad/builtin/cam/cam_gcode.py\<close>: the program a machine runs to cut an object, for a router, a laser and a
  drilling machine. The kernel that sections and offsets the object is a record of functions. Lengths are real
  numbers; a quantity that is not finite has no place in the model and is refused where it is read.
  \<open>repr\<close> is the text of a value that is neither a text nor a number.
\<close>

section \<open>Numbers\<close>

text \<open>\<open>float(v)\<close> and \<open>int(v)\<close>\<close>

fun py_float :: "pyval \<Rightarrow> exn + real" where
  "py_float (PBool b) = Inr (if b then 1 else 0)"
| "py_float (PInt i) = Inr (of_int i)"
| "py_float (PFloat (Fin q)) = Inr (of_rat q)"
| "py_float (PFloat _) = Inl (Raised ''not a finite number'')"
| "py_float (PStr s) = (case number_of (strip s) of None \<Rightarrow> Inl ValueError | Some q \<Rightarrow> Inr (of_rat q))"
| "py_float _ = Inl TypeError"

definition truncated :: "real \<Rightarrow> int" where
  "truncated x = (if 0 \<le> x then floor x else ceiling x)"

fun py_int :: "pyval \<Rightarrow> exn + int" where
  "py_int (PStr s) =
     (let (negative, ds) = signed (strip s) in
      if ds \<noteq> [] \<and> list_all is_digit ds then Inr ((if negative then - 1 else 1) * int (nat_of_digits ds)) else Inl ValueError)"
| "py_int v = map_sum id truncated (py_float v)"

text \<open>\<open>round(x, p)\<close> goes to the even neighbour on a tie.\<close>

definition round_half_even :: "real \<Rightarrow> int" where
  "round_half_even x =
     (let n = floor x; d = x - of_int n in
      if d < 1 / 2 then n else if d > 1 / 2 then n + 1 else if even n then n else n + 1)"

definition rounded :: "int \<Rightarrow> real \<Rightarrow> real" where
  "rounded p x =
     (if 0 \<le> p then of_int (round_half_even (x * 10 ^ nat p)) / 10 ^ nat p
      else of_int (round_half_even (x / 10 ^ nat (- p))) * 10 ^ nat (- p))"

text \<open>\<open>"%.*f" % (p, x)\<close>\<close>

definition padded :: "nat \<Rightarrow> string \<Rightarrow> string" where
  "padded n s = replicate (n - length s) (CHR ''0'') @ s"

definition fixed :: "nat \<Rightarrow> real \<Rightarrow> string" where
  "fixed p x =
     (let n = nat \<bar>round_half_even (x * 10 ^ p)\<bar> in
      (if x < 0 then ''-'' else []) @ show_nat (n div 10 ^ p)
      @ (if p = 0 then [] else ''.'' @ padded p (show_nat (n mod 10 ^ p))))"

definition or_default :: "pyval \<Rightarrow> pyval \<Rightarrow> pyval" where
  "or_default v d = (if truthy v then v else d)"

definition MM_PER_INCH :: real where "MM_PER_INCH = 25.4"
definition TOLERANCE :: real where "TOLERANCE = 1 / 10 ^ 6"
definition PRISMATIC_TOLERANCE :: real where "PRISMATIC_TOLERANCE = 1 / 100"
definition SECTION_INSET :: real where "SECTION_INSET = 1 / 1000"
definition POCKET_RING_LIMIT :: real where "POCKET_RING_LIMIT = 4"

section \<open>The kernel\<close>

type_synonym point = "real \<times> real"

definition distance :: "point \<Rightarrow> point \<Rightarrow> real" where
  "distance a b = sqrt ((fst a - fst b)\<^sup>2 + (snd a - snd b)\<^sup>2)"

text \<open>
  An edge is straight or not, has two ends, and is sampled within a tolerance; no samples is the sampler not
  done. An offset or a length that raises is \<open>None\<close>, and a section that raises has no faces.
\<close>

record edge =
  e_line :: bool
  e_start :: point
  e_end :: point
  e_samples :: "real \<Rightarrow> point list"

text \<open>
  A cylindrical face: its axis and radius, the heights it spans, and its surface normal with the point it is
  taken at, over the two parameters, where they are finite and the normal is defined.
\<close>

record cylinder =
  c_axis_z :: real
  c_at :: point
  c_radius :: real
  c_top :: real
  c_bottom :: real
  c_bounds :: "((real \<times> real) \<times> (real \<times> real)) option"
  c_reversed :: bool
  c_normal :: "real \<Rightarrow> real \<Rightarrow> (point \<times> point) option"

record ('o, 'f, 'w) kernel =
  k_top :: "'o \<Rightarrow> real"
  k_bottom :: "'o \<Rightarrow> real"
  k_section :: "'o \<Rightarrow> real \<Rightarrow> 'f list"
  k_faces :: "'o \<Rightarrow> 'f list"
  k_area :: "'f \<Rightarrow> real"
  k_inner :: "'f \<Rightarrow> 'w list"
  k_outer :: "'f \<Rightarrow> 'w"
  k_extent :: "'f \<Rightarrow> real \<times> real"
  k_offset :: "'w \<Rightarrow> real \<Rightarrow> 'w option"
  k_length :: "'w \<Rightarrow> real option"
  k_edges :: "'w \<Rightarrow> edge list"
  k_cylinder :: "'f \<Rightarrow> cylinder option"
  k_rotate :: "real \<times> real \<times> real \<Rightarrow> 'o \<Rightarrow> 'o"

definition planar_faces :: "('o, 'f, 'w) kernel \<Rightarrow> 'o \<Rightarrow> 'f list" where
  "planar_faces K obj = filter (\<lambda>f. k_area K f > 0) (k_faces K obj)"

section \<open>Contours\<close>

definition edge_points :: "edge \<Rightarrow> real \<Rightarrow> point list" where
  "edge_points e tol =
     (if e_line e then [e_start e, e_end e]
      else
        (let samples = e_samples e tol in
         if length samples < 2 then [e_start e, e_end e]
         else if distance (hd samples) (e_start e) > distance (List.last samples) (e_start e) then rev samples
         else samples))"

definition add_segment :: "point list \<Rightarrow> point list \<Rightarrow> point list" where
  "add_segment points segment =
     (if points \<noteq> [] \<and> distance (List.last points) (hd segment) \<le> TOLERANCE then points @ tl segment else points @ segment)"

definition closed_contour :: "point list \<Rightarrow> point list" where
  "closed_contour points =
     (let points = (if length points > 1 \<and> distance (hd points) (List.last points) \<le> TOLERANCE then butlast points else points)
      in if length points < 2 then [] else points @ [hd points])"

definition wire_points :: "('o, 'f, 'w) kernel \<Rightarrow> 'w \<Rightarrow> real \<Rightarrow> point list" where
  "wire_points K wire tol = closed_contour (foldl add_segment [] (map (\<lambda>e. edge_points e tol) (k_edges K wire)))"

fun signed_area :: "point list \<Rightarrow> real" where
  "signed_area (a # b # ps) = fst a * snd b - fst b * snd a + signed_area (b # ps)"
| "signed_area _ = 0"

definition oriented :: "point list \<Rightarrow> bool \<Rightarrow> point list" where
  "oriented points clockwise = (if (signed_area points < 0) = clockwise then points else rev points)"

definition offset :: "('o, 'f, 'w) kernel \<Rightarrow> 'w \<Rightarrow> real \<Rightarrow> real \<Rightarrow> 'w option" where
  "offset K wire amount tol =
     (if \<bar>amount\<bar> \<le> TOLERANCE then Some wire
      else
        (case k_offset K wire amount of
           None \<Rightarrow> None
         | Some w \<Rightarrow> (case k_length K w of None \<Rightarrow> None | Some l \<Rightarrow> if l \<le> tol then None else Some w)))"

type_synonym 'w path = "'w \<times> bool \<times> nat"

fun hole_paths :: "('o, 'f, 'w) kernel \<Rightarrow> real \<Rightarrow> real \<Rightarrow> 'w list \<Rightarrow> exn + 'w path list" where
  "hole_paths K radius tol [] = Inr []"
| "hole_paths K radius tol (wire # wires) =
     (case offset K wire (- radius) tol of
        None \<Rightarrow> Inl (Raised ''no path around the inside of a hole'')
      | Some w \<Rightarrow> map_sum id ((#) (w, True, 0)) (hole_paths K radius tol wires))"

fun profile_paths :: "('o, 'f, 'w) kernel \<Rightarrow> 'f list \<Rightarrow> real \<Rightarrow> real \<Rightarrow> exn + 'w path list" where
  "profile_paths K [] radius tol = Inr []"
| "profile_paths K (face # faces) radius tol =
     and_then (hole_paths K radius tol (k_inner K face)) (\<lambda>holes.
       (case offset K (k_outer K face) radius tol of
          None \<Rightarrow> Inl (Raised ''the outline could not be offset'')
        | Some w \<Rightarrow> map_sum id (\<lambda>rest. holes @ (w, False, 1) # rest) (profile_paths K faces radius tol)))"

text \<open>The rings of a pocket, the one against the wall first, until nothing is left or the bound is met.\<close>

fun pocket_rings :: "('o, 'f, 'w) kernel \<Rightarrow> 'w \<Rightarrow> real \<Rightarrow> real \<Rightarrow> real \<Rightarrow> nat \<Rightarrow> 'w list" where
  "pocket_rings K outer tol advance amount 0 = []"
| "pocket_rings K outer tol advance amount (Suc n) =
     (case offset K outer (- amount) tol of
        None \<Rightarrow> []
      | Some w \<Rightarrow> w # pocket_rings K outer tol advance (amount + advance) n)"

definition ring_limit :: "real \<times> real \<Rightarrow> real \<Rightarrow> nat" where
  "ring_limit extent advance = nat (truncated (POCKET_RING_LIMIT * (max (fst extent) (snd extent) / advance + 1)))"

fun pocket_paths :: "('o, 'f, 'w) kernel \<Rightarrow> 'f list \<Rightarrow> real \<Rightarrow> real \<Rightarrow> real \<Rightarrow> exn + 'w path list" where
  "pocket_paths K [] radius stepover tol = Inr []"
| "pocket_paths K (face # faces) radius stepover tol =
     (if k_inner K face \<noteq> [] then Inl (Raised ''an island in the middle of the pocket'')
      else
        (let advance = max stepover tol in
         if advance = 0 then Inl (Raised ''ZeroDivisionError'')
         else
           (let rings = pocket_rings K (k_outer K face) tol advance radius (ring_limit (k_extent K face) advance) in
            if rings = [] then Inl (Raised ''nothing can be cleared'')
            else map_sum id ((@) (map (\<lambda>(index, ring). (ring, True, index)) (enumerate 0 (rev rings))))
                   (pocket_paths K faces radius stepover tol))))"

definition engrave_paths :: "('o, 'f, 'w) kernel \<Rightarrow> 'f list \<Rightarrow> 'w path list" where
  "engrave_paths K faces = concat (map (\<lambda>f. map (\<lambda>w. (w, True, 0)) (k_inner K f) @ [(k_outer K f, False, 1)]) faces)"

text \<open>The key is compared component by component.\<close>

type_synonym contour = "point list \<times> bool \<times> nat"

definition path_key :: "contour \<Rightarrow> nat \<times> real \<times> real" where
  "path_key c = (case c of (points, inside, grp) \<Rightarrow>
     (grp, rounded 6 (Min (fst ` set points)), rounded 6 (Min (snd ` set points))))"

fun key_less :: "nat \<times> real \<times> real \<Rightarrow> nat \<times> real \<times> real \<Rightarrow> bool" where
  "key_less (g, x, y) (g', x', y') = (g < g' \<or> g = g' \<and> (x < x' \<or> x = x' \<and> y < y'))"

text \<open>A stable sort by that key.\<close>

fun insert_path :: "contour \<Rightarrow> contour list \<Rightarrow> contour list" where
  "insert_path c [] = [c]"
| "insert_path c (d # ds) = (if key_less (path_key d) (path_key c) then d # insert_path c ds else c # d # ds)"

definition sorted_paths :: "contour list \<Rightarrow> contour list" where
  "sorted_paths paths = foldr insert_path paths []"

section \<open>The program\<close>

text \<open>
  A line is kept with the lengths and the rates it is written from; \<open>line_text\<close> is what the file has of it.
  \<open>Spindle\<close> is \<open>M3\<close>, with the value of \<open>S\<close> if there is one.
\<close>

datatype gline =
    Comment string
  | Word string
  | Spindle "int option"
  | Spindle_off
  | Rapid_z real
  | Rapid_xy point
  | Plunge real real
  | Cut_to point "real option"

record program =
  g_lines :: "gline list"
  g_scale :: real
  g_precision :: int
  g_comments :: bool
  g_cut_length :: real
  g_where :: "point option"

definition new_program :: "string \<Rightarrow> int \<Rightarrow> bool \<Rightarrow> program" where
  "new_program units precision comments =
     \<lparr>g_lines = [], g_scale = (if units = ''in'' then 1 / MM_PER_INCH else 1), g_precision = precision, g_comments = comments,
      g_cut_length = 0, g_where = None\<rparr>"

definition number :: "program \<Rightarrow> real \<Rightarrow> string" where
  "number p x = fixed (nat (g_precision p)) (rounded (g_precision p) (x * g_scale p))"

definition feed_text :: "program \<Rightarrow> real \<Rightarrow> string" where
  "feed_text p x = (let t = fixed 1 (x * g_scale p) in if ends_with t ''.0'' then take (length t - 2) t else t)"

definition brackets :: "string \<Rightarrow> string" where
  "brackets t = map (\<lambda>c. if c = CHR ''('' then CHR ''['' else if c = CHR '')'' then CHR '']'' else c) t"

definition code_line :: "gline \<Rightarrow> program \<Rightarrow> program" where
  "code_line l p = p\<lparr>g_lines := g_lines p @ [l]\<rparr>"

definition comment :: "string \<Rightarrow> program \<Rightarrow> program" where
  "comment t p = (if g_comments p then code_line (Comment (brackets t)) p else p)"

definition rapid_z :: "real \<Rightarrow> program \<Rightarrow> program" where
  "rapid_z z p = (code_line (Rapid_z z) p)\<lparr>g_where := None\<rparr>"

definition rapid_xy :: "point \<Rightarrow> program \<Rightarrow> program" where
  "rapid_xy q p = (code_line (Rapid_xy q) p)\<lparr>g_where := Some q\<rparr>"

definition plunge :: "real \<Rightarrow> real \<Rightarrow> program \<Rightarrow> program" where
  "plunge z rate p = code_line (Plunge z rate) p"

text \<open>Whether the move was written, and the program.\<close>

definition cut_to :: "point \<Rightarrow> real option \<Rightarrow> program \<Rightarrow> bool \<times> program" where
  "cut_to q rate p =
     (case g_where p of
        None \<Rightarrow> (True, (code_line (Cut_to q rate) p)\<lparr>g_where := Some q\<rparr>)
      | Some w \<Rightarrow>
          if distance w q \<le> TOLERANCE then (False, p)
          else (True, (code_line (Cut_to q rate) p)\<lparr>g_where := Some q, g_cut_length := g_cut_length p + distance w q\<rparr>))"

fun line_text :: "program \<Rightarrow> gline \<Rightarrow> string" where
  "line_text p (Comment t) = ''('' @ t @ '')''"
| "line_text p (Word w) = w"
| "line_text p (Spindle s) = (case s of None \<Rightarrow> ''M3'' | Some n \<Rightarrow> ''M3 S'' @ show_int n)"
| "line_text p Spindle_off = ''M5''"
| "line_text p (Rapid_z z) = ''G0 Z'' @ number p z"
| "line_text p (Rapid_xy q) = ''G0 X'' @ number p (fst q) @ '' Y'' @ number p (snd q)"
| "line_text p (Plunge z rate) = ''G1 Z'' @ number p z @ '' F'' @ feed_text p rate"
| "line_text p (Cut_to q rate) =
     ''G1 X'' @ number p (fst q) @ '' Y'' @ number p (snd q) @ (case rate of None \<Rightarrow> [] | Some f \<Rightarrow> '' F'' @ feed_text p f)"

definition program_text :: "program \<Rightarrow> string" where
  "program_text p = join [CHR 0x0A] (map (line_text p) (g_lines p)) @ [CHR 0x0A]"

section \<open>A contour at a series of depths\<close>

fun cut_points :: "real \<Rightarrow> bool \<Rightarrow> point list \<Rightarrow> program \<Rightarrow> program" where
  "cut_points rate first_move [] p = p"
| "cut_points rate first_move (q # qs) p =
     (case cut_to q (if first_move then Some rate else None) p of
        (written, p) \<Rightarrow> cut_points rate (first_move \<and> \<not> written) qs p)"

fun cut_passes :: "real \<Rightarrow> real \<Rightarrow> point list \<Rightarrow> real list \<Rightarrow> program \<Rightarrow> program" where
  "cut_passes rate plunge_rate points [] p = p"
| "cut_passes rate plunge_rate points (z # zs) p =
     cut_passes rate plunge_rate points zs (cut_points rate True (tl points) (plunge z plunge_rate p))"

fun cut_contours :: "real \<Rightarrow> real \<Rightarrow> real \<Rightarrow> real list \<Rightarrow> contour list \<Rightarrow> program \<Rightarrow> program" where
  "cut_contours rate plunge_rate safe zs [] p = p"
| "cut_contours rate plunge_rate safe zs ((points, inside, grp) # cs) p =
     cut_contours rate plunge_rate safe zs cs (rapid_z safe (cut_passes rate plunge_rate points zs (rapid_xy (hd points) p)))"

section \<open>The job\<close>

definition required :: "pydict \<Rightarrow> string \<Rightarrow> exn + real" where
  "required request key =
     (if entry request key = PNone then Inl (Raised ''not configured'') else py_float (entry request key))"

definition word_of :: "(pyval \<Rightarrow> string) \<Rightarrow> pydict \<Rightarrow> string \<Rightarrow> string \<Rightarrow> string" where
  "word_of repr request key dflt = lower (py_str repr (or_default (entry request key) (PStr dflt)))"

definition direction_of :: "(pyval \<Rightarrow> string) \<Rightarrow> pydict \<Rightarrow> exn + string" where
  "direction_of repr request =
     (let d = word_of repr request ''direction'' ''climb'' in
      if d \<in> {''climb'', ''conventional''} then Inr d else Inl (Raised ''direction''))"

definition object_comment :: "(pyval \<Rightarrow> string) \<Rightarrow> pydict \<Rightarrow> program \<Rightarrow> program" where
  "object_comment repr request p =
     (let name = entry request ''shape_name''; package = entry request ''package_name'' in
      if truthy name
      then comment (''object: '' @ (if truthy package then py_str repr package @ '':'' @ py_str repr name else py_str repr name)) p
      else p)"

definition units_comment :: "string \<Rightarrow> program \<Rightarrow> program" where
  "units_comment units p = comment (''units: '' @ (if units = ''mm'' then ''millimeters'' else ''inches'')) p"

definition preamble :: "string \<Rightarrow> program \<Rightarrow> program" where
  "preamble units p =
     code_line (Word ''G94'') (code_line (Word ''G17'') (code_line (Word ''G90'') (code_line (Word (if units = ''mm'' then ''G21'' else ''G20'')) p)))"

definition program_for :: "pydict \<Rightarrow> string \<Rightarrow> exn + program" where
  "program_for request units =
     map_sum id (\<lambda>n. new_program units n (if entry request ''comments'' = PNone then True else truthy (entry request ''comments'')))
       (py_int (or_default (entry request ''precision'') (PInt 3)))"

text \<open>The speed of a spindle, where one is stated: read where it is written out.\<close>

definition spindle_speed :: "pyval \<Rightarrow> exn + int option" where
  "spindle_speed v = (if truthy v then map_sum id (\<lambda>x. Some (truncated x)) (py_float v) else Inr None)"

definition spindle_on :: "int option \<Rightarrow> program \<Rightarrow> program" where
  "spindle_on speed p = (case speed of None \<Rightarrow> p | Some n \<Rightarrow> code_line (Spindle (Some n)) p)"

definition spindle_off :: "int option \<Rightarrow> program \<Rightarrow> program" where
  "spindle_off speed p = (case speed of None \<Rightarrow> p | Some _ \<Rightarrow> code_line Spindle_off p)"

definition contours_of :: "('o, 'f, 'w) kernel \<Rightarrow> string \<Rightarrow> real \<Rightarrow> 'w path list \<Rightarrow> contour list" where
  "contours_of K dir tol wires =
     concat (map (\<lambda>(wire, inside, grp).
       (let points = wire_points K wire tol in
        if length points < 3 then []
        else [(oriented points ((dir = ''climb'') \<noteq> inside), inside, grp)])) wires)"

definition areas_differ :: "real \<Rightarrow> real \<Rightarrow> bool" where
  "areas_differ a b = (max a b > 0 \<and> \<bar>b - a\<bar> / max a b > PRISMATIC_TOLERANCE)"

record stats =
  s_machine :: string
  s_operation :: string
  s_paths :: nat
  s_passes :: nat
  s_depth :: real
  s_cut_length :: real

text \<open>How deep the cut goes, and the warning that it goes past the bottom.\<close>

definition depth_of :: "pydict \<Rightarrow> real \<Rightarrow> exn + real" where
  "depth_of request height =
     (if entry request ''depth'' = PNone
      then (if height \<le> TOLERANCE then Inl (Raised ''flat: no thickness to cut through'') else Inr height)
      else py_float (entry request ''depth''))"

definition depth_warnings :: "real \<Rightarrow> real \<Rightarrow> string list" where
  "depth_warnings depth height =
     (if depth > height + TOLERANCE \<and> height > TOLERANCE
      then [''the cut is '' @ fixed 3 depth @ '' mm deep and the object is '' @ fixed 3 height @ '' mm thick, so it goes ''
            @ fixed 3 (depth - height) @ '' mm past the bottom of it'']
      else [])"

text \<open>The outline that is cut, and the warning that it is not the outline further up.\<close>

definition cnc_faces :: "('o, 'f, 'w) kernel \<Rightarrow> 'o \<Rightarrow> real \<Rightarrow> 'f list \<times> string list" where
  "cnc_faces K obj depth =
     (let height = k_top K obj - k_bottom K obj in
      if height \<le> TOLERANCE then (planar_faces K obj, [])
      else
        (let inset = max (depth * SECTION_INSET) TOLERANCE;
             faces = k_section K obj (max (k_top K obj - depth + inset) (k_bottom K obj + inset));
             top_faces = k_section K obj (k_top K obj - inset);
             bottom_area = sum_list (map (k_area K) faces);
             top_area = sum_list (map (k_area K) top_faces)
         in (faces,
             if faces \<noteq> [] \<and> top_faces \<noteq> [] \<and> areas_differ bottom_area top_area
             then [''the outline changes over the depth of the cut ('' @ fixed 1 top_area @ '' mm2 at the top, '' @ fixed 1 bottom_area
                   @ '' mm2 at the bottom); this route follows the one at the bottom'']
             else [])))"

definition pass_count :: "real \<Rightarrow> real \<Rightarrow> nat" where
  "pass_count depth depth_per_pass = nat (max 1 (ceiling (depth / depth_per_pass - 1 / 10 ^ 9)))"

definition pass_depths :: "real \<Rightarrow> real \<Rightarrow> real \<Rightarrow> real list" where
  "pass_depths zmax depth depth_per_pass =
     map (\<lambda>index. zmax - min depth (depth_per_pass * real (index + 1))) [0..<pass_count depth depth_per_pass]"

definition cnc_wires :: "('o, 'f, 'w) kernel \<Rightarrow> string \<Rightarrow> 'f list \<Rightarrow> real \<Rightarrow> real \<Rightarrow> real \<Rightarrow> exn + 'w path list" where
  "cnc_wires K oper faces radius stepover tol =
     (if oper = ''profile'' then profile_paths K faces radius tol
      else if oper = ''pocket'' then pocket_paths K faces radius stepover tol
      else Inr (engrave_paths K faces))"

definition cnc_program ::
  "(pyval \<Rightarrow> string) \<Rightarrow> pydict \<Rightarrow> string \<Rightarrow> string \<Rightarrow> string \<Rightarrow> real \<Rightarrow> real \<Rightarrow> real list \<Rightarrow> int option \<Rightarrow> real \<Rightarrow> real \<Rightarrow> real
     \<Rightarrow> contour list \<Rightarrow> program \<Rightarrow> program" where
  "cnc_program repr request units oper dir tool depth zs speed safe rate plunge_rate paths p =
     code_line (Word ''M30'') (spindle_off speed
       (cut_contours rate plunge_rate safe zs (sorted_paths paths)
         (rapid_z safe (spindle_on speed (preamble units (units_comment units
           (comment (''operation: '' @ oper @ '' '' @ dir @ '', tool '' @ number p tool @ '', depth '' @ number p depth
                     @ '' in '' @ show_nat (length zs) @ '' passes'')
             (object_comment repr request (comment ''PartCAD route'' p)))))))))"

definition cnc ::
  "('o, 'f, 'w) kernel \<Rightarrow> (pyval \<Rightarrow> string) \<Rightarrow> pydict \<Rightarrow> 'o \<Rightarrow> string \<Rightarrow> exn + program \<times> string list \<times> stats" where
  "cnc K repr request obj units =
     (let oper = word_of repr request ''operation'' ''profile'' in
      and_then (require_that (oper \<in> {''profile'', ''pocket'', ''engrave''}) (Raised ''operation'')) (\<lambda>_.
      and_then (direction_of repr request) (\<lambda>dir.
      and_then (required request ''diameter'') (\<lambda>tool.
      and_then (required request ''feed'') (\<lambda>rate.
      and_then (if truthy (entry request ''plunge'') then py_float (entry request ''plunge'') else Inr rate) (\<lambda>plunge_rate.
      and_then (required request ''safe_z'') (\<lambda>clearance.
      and_then (required request ''depth_per_pass'') (\<lambda>depth_per_pass.
      and_then (py_float (or_default (entry request ''stepover'') (PFloat (Fin (1 / 2))))) (\<lambda>stepover.
      and_then (py_float (or_default (entry request ''tolerance'') (PFloat (Fin (1 / 100))))) (\<lambda>tol.
      and_then (depth_of request (k_top K obj - k_bottom K obj)) (\<lambda>depth.
        (let zmax = k_top K obj; (faces, warning) = cnc_faces K obj depth in
         and_then (require_that (faces \<noteq> []) (Raised ''no outline to cut'')) (\<lambda>_.
         and_then (cnc_wires K oper faces (tool / 2) (stepover * tool) tol) (\<lambda>wires.
           (let paths = contours_of K dir tol wires in
            and_then (require_that (paths \<noteq> []) (Raised ''no cutting path'')) (\<lambda>_.
            and_then (require_that (depth_per_pass \<noteq> 0) (Raised ''ZeroDivisionError'')) (\<lambda>_.
              (let zs = pass_depths zmax depth depth_per_pass in
               and_then (program_for request units) (\<lambda>p.
               and_then (spindle_speed (entry request ''speed'')) (\<lambda>speed.
                 (let p = cnc_program repr request units oper dir tool depth zs speed (zmax + clearance) rate plunge_rate paths p in
                  Inr (p, depth_warnings depth (zmax - k_bottom K obj) @ warning,
                       \<lparr>s_machine = ''cnc'', s_operation = oper, s_paths = length paths, s_passes = length zs, s_depth = depth,
                        s_cut_length = g_cut_length p\<rparr>))))))))))))))))))))))"

section \<open>The laser\<close>

fun laser_contours :: "real \<Rightarrow> int option \<Rightarrow> contour list \<Rightarrow> program \<Rightarrow> program" where
  "laser_contours rate beam [] p = p"
| "laser_contours rate beam ((points, inside, grp) # cs) p =
     laser_contours rate beam cs
       (code_line Spindle_off (cut_points rate True (tl points) (code_line (Spindle beam) (rapid_xy (hd points) p))))"

definition laser_faces :: "('o, 'f, 'w) kernel \<Rightarrow> 'o \<Rightarrow> 'f list \<times> string list" where
  "laser_faces K obj =
     (let height = k_top K obj - k_bottom K obj in
      if height \<le> TOLERANCE then (planar_faces K obj, [])
      else
        (let faces = k_section K obj (k_top K obj - height / 2);
             top_faces = k_section K obj (k_top K obj - max (height * SECTION_INSET) TOLERANCE);
             middle_area = sum_list (map (k_area K) faces);
             top_area = sum_list (map (k_area K) top_faces)
         in (faces,
             if faces \<noteq> [] \<and> top_faces \<noteq> [] \<and> areas_differ middle_area top_area
             then [''the outline changes over the thickness ('' @ fixed 1 top_area @ '' mm2 at the top, '' @ fixed 1 middle_area
                   @ '' mm2 halfway down); a laser cuts one section through, so this route follows the middle one'']
             else [])))"

definition laser_program ::
  "(pyval \<Rightarrow> string) \<Rightarrow> pydict \<Rightarrow> string \<Rightarrow> real \<Rightarrow> real \<Rightarrow> real \<Rightarrow> int option \<Rightarrow> contour list \<Rightarrow> program \<Rightarrow> program" where
  "laser_program repr request units kerf height rate beam paths p =
     code_line (Word ''M30'') (laser_contours rate beam (sorted_paths paths)
       (preamble units (units_comment units
         (comment (''machine: laser, kerf '' @ number p kerf @ '', through '' @ number p height)
           (object_comment repr request (comment ''PartCAD route'' p))))))"

definition laser ::
  "('o, 'f, 'w) kernel \<Rightarrow> (pyval \<Rightarrow> string) \<Rightarrow> pydict \<Rightarrow> 'o \<Rightarrow> string \<Rightarrow> exn + program \<times> string list \<times> stats" where
  "laser K repr request obj units =
     and_then (py_float (or_default (entry request ''tolerance'') (PFloat (Fin (1 / 100))))) (\<lambda>tol.
     and_then (required request ''feed'') (\<lambda>rate.
     and_then (py_float (or_default (entry request ''kerf'') (PFloat (Fin 0)))) (\<lambda>kerf.
     and_then (require_that (\<not> kerf < 0) (Raised ''kerf'')) (\<lambda>_.
       (let height = k_top K obj - k_bottom K obj; (faces, warning) = laser_faces K obj in
        and_then (require_that (faces \<noteq> []) (Raised ''no outline to cut'')) (\<lambda>_.
        and_then (profile_paths K faces (kerf / 2) tol) (\<lambda>wires.
        and_then (direction_of repr request) (\<lambda>dir.
          (let paths = contours_of K dir tol wires in
           and_then (require_that (paths \<noteq> []) (Raised ''no cutting path'')) (\<lambda>_.
           and_then (program_for request units) (\<lambda>p.
           and_then (spindle_speed (entry request ''power'')) (\<lambda>beam.
             (let p = laser_program repr request units kerf height rate beam paths p in
              Inr (p, warning,
                   \<lparr>s_machine = ''laser'', s_operation = ''cut'', s_paths = length paths, s_passes = 1, s_depth = height,
                    s_cut_length = g_cut_length p\<rparr>))))))))))))))"

section \<open>The drilling machine\<close>

text \<open>Which side of a cylindrical face the material is on, by the majority of a grid of samples.\<close>

definition along_radius :: "cylinder \<Rightarrow> point \<times> point \<Rightarrow> real" where
  "along_radius c s = (case s of (normal, q) \<Rightarrow>
     (if c_reversed c then - 1 else 1)
     * (fst normal * (fst q - fst (c_at c)) + snd normal * (snd q - snd (c_at c))) / distance q (c_at c))"

definition grid_samples :: "cylinder \<Rightarrow> (point \<times> point) list" where
  "grid_samples c =
     (case c_bounds c of
        None \<Rightarrow> []
      | Some ((u0, u1), (v0, v1)) \<Rightarrow>
          concat (map (\<lambda>i. concat (map (\<lambda>j.
            (case c_normal c (u0 + (u1 - u0) * (real i + 1 / 2) / 3) (v0 + (v1 - v0) * (real j + 1 / 2) / 3) of
               None \<Rightarrow> []
             | Some s \<Rightarrow> if distance (snd s) (c_at c) \<le> 1 / 10 ^ 9 then [] else [s])) [0..<3])) [0..<3]))"

definition encloses_material :: "cylinder \<Rightarrow> bool" where
  "encloses_material c =
     (length (filter (\<lambda>s. along_radius c s < 0) (grid_samples c)) > length (filter (\<lambda>s. \<not> along_radius c s < 0) (grid_samples c)))"

text \<open>A hole: where, how wide, from which height to which.\<close>

record hole =
  h_at :: point
  h_diameter :: real
  h_top :: real
  h_bottom :: real

type_synonym hole_id = "int \<times> int \<times> int"

definition hole_key :: "real \<Rightarrow> cylinder \<Rightarrow> hole_id" where
  "hole_key tol c =
     (let unit_length = max tol (1 / 10 ^ 6) in
      (round_half_even (fst (c_at c) / unit_length), round_half_even (snd (c_at c) / unit_length),
       round_half_even (c_radius c / unit_length)))"

definition add_hole :: "real \<Rightarrow> cylinder \<Rightarrow> (hole_id \<times> hole) list \<Rightarrow> (hole_id \<times> hole) list" where
  "add_hole tol c holes =
     (case map_of holes (hole_key tol c) of
        None \<Rightarrow> holes @ [(hole_key tol c, \<lparr>h_at = c_at c, h_diameter = c_radius c * 2, h_top = c_top c, h_bottom = c_bottom c\<rparr>)]
      | Some h \<Rightarrow> AList.update (hole_key tol c) (h\<lparr>h_top := max (h_top h) (c_top c), h_bottom := min (h_bottom h) (c_bottom c)\<rparr>) holes)"

definition hole_faces :: "('o, 'f, 'w) kernel \<Rightarrow> 'o \<Rightarrow> cylinder list" where
  "hole_faces K obj =
     filter (\<lambda>c. \<not> \<bar>\<bar>c_axis_z c\<bar> - 1\<bar> > 1 / 10 ^ 6 \<and> encloses_material c) (List.map_filter (k_cylinder K) (k_faces K obj))"

fun row_less :: "hole \<Rightarrow> hole \<Rightarrow> bool" where
  "row_less a b = (snd (h_at a) < snd (h_at b) \<or> snd (h_at a) = snd (h_at b) \<and> fst (h_at a) < fst (h_at b))"

fun insert_hole :: "hole \<Rightarrow> hole list \<Rightarrow> hole list" where
  "insert_hole c [] = [c]"
| "insert_hole c (d # ds) = (if row_less d c then d # insert_hole c ds else c # d # ds)"

definition holes_of :: "('o, 'f, 'w) kernel \<Rightarrow> 'o \<Rightarrow> real \<Rightarrow> hole list" where
  "holes_of K obj tol = foldr insert_hole (map snd (foldl (\<lambda>hs c. add_hole tol c hs) [] (hole_faces K obj))) []"

definition mismatch_warnings :: "hole list \<Rightarrow> real \<Rightarrow> real \<Rightarrow> string list" where
  "mismatch_warnings holes tool tol =
     (let wrong = filter (\<lambda>h. \<bar>h_diameter h - tool\<bar> > tol) holes in
      if wrong = [] then []
      else [show_nat (length wrong) @ '' of the '' @ show_nat (length holes) @ '' holes are not the diameter of the drill (''
            @ fixed 3 tool @ '' mm): '' @ join '', '' (sort (remdups (map (\<lambda>h. fixed 3 (h_diameter h) @ '' mm'') wrong)))
            @ ''. They are drilled at the centre anyway, at the size the drill actually is''])"

text \<open>The depths of one hole: to the bottom, in steps where a peck is stated.\<close>

definition peck_depths :: "real option \<Rightarrow> hole \<Rightarrow> real list" where
  "peck_depths peck h =
     (case peck of
        Some d \<Rightarrow> if d > 0 then pass_depths (h_top h) (h_top h - h_bottom h) d else [h_bottom h]
      | None \<Rightarrow> [h_bottom h])"

fun drill_steps :: "real \<Rightarrow> hole \<Rightarrow> bool \<Rightarrow> real list \<Rightarrow> program \<Rightarrow> program" where
  "drill_steps plunge_rate h pecking [] p = p"
| "drill_steps plunge_rate h pecking (z # zs) p =
     drill_steps plunge_rate h pecking zs
       (if pecking then rapid_z (h_top h) (plunge z plunge_rate p) else plunge z plunge_rate p)"

fun drill_holes :: "real \<Rightarrow> real \<Rightarrow> real option \<Rightarrow> hole list \<Rightarrow> program \<Rightarrow> program" where
  "drill_holes plunge_rate safe peck [] p = p"
| "drill_holes plunge_rate safe peck (h # hs) p =
     drill_holes plunge_rate safe peck hs
       (rapid_z safe (drill_steps plunge_rate h (length (peck_depths peck h) > 1) (peck_depths peck h)
         (rapid_z (h_top h) (rapid_xy (h_at h) p))))"

definition drill_program ::
  "(pyval \<Rightarrow> string) \<Rightarrow> pydict \<Rightarrow> string \<Rightarrow> real \<Rightarrow> int option \<Rightarrow> real \<Rightarrow> real \<Rightarrow> real option \<Rightarrow> hole list \<Rightarrow> program \<Rightarrow> program" where
  "drill_program repr request units tool speed safe plunge_rate peck holes p =
     code_line (Word ''M30'') (spindle_off speed (drill_holes plunge_rate safe peck holes
       (rapid_z safe (spindle_on speed (preamble units (units_comment units
         (comment (''machine: drill, '' @ show_nat (length holes) @ '' holes, drill '' @ number p tool)
           (object_comment repr request (comment ''PartCAD route'' p)))))))))"

definition drilling ::
  "('o, 'f, 'w) kernel \<Rightarrow> (pyval \<Rightarrow> string) \<Rightarrow> pydict \<Rightarrow> 'o \<Rightarrow> string \<Rightarrow> exn + program \<times> string list \<times> stats" where
  "drilling K repr request obj units =
     and_then (py_float (or_default (entry request ''tolerance'') (PFloat (Fin (1 / 100))))) (\<lambda>tol.
     and_then (required request ''diameter'') (\<lambda>tool.
     and_then (required request ''plunge'') (\<lambda>plunge_rate.
     and_then (required request ''safe_z'') (\<lambda>clearance.
       (let holes = holes_of K obj tol; safe = k_top K obj + clearance in
        and_then (require_that (holes \<noteq> []) (Raised ''nothing to drill'')) (\<lambda>_.
        and_then (program_for request units) (\<lambda>p.
        and_then (spindle_speed (entry request ''speed'')) (\<lambda>speed.
        and_then (if truthy (entry request ''peck'') then map_sum id Some (py_float (entry request ''peck'')) else Inr None) (\<lambda>peck.
          (let p = drill_program repr request units tool speed safe plunge_rate peck holes p in
           Inr (p, mismatch_warnings holes tool tol,
                \<lparr>s_machine = ''drill'', s_operation = ''drill'', s_paths = length holes, s_passes = 1,
                 s_depth = foldl (\<lambda>d h. max d (h_top h - h_bottom h)) 0 holes, s_cut_length = g_cut_length p\<rparr>)))))))))))"

section \<open>The object in the frame of the machine\<close>

text \<open>The turn, in degrees about the three axes, or none.\<close>

definition turn_for :: "real \<times> real \<times> real \<Rightarrow> exn + (real \<times> real \<times> real) option" where
  "turn_for v =
     (case v of (x, y, z) \<Rightarrow>
       (let l = sqrt (x * x + y * y + z * z) in
        if l \<le> TOLERANCE then Inl (Raised ''the tool axis is a zero vector'')
        else
          (let x = x / l; y = y / l; z = z / l in
           if \<bar>x\<bar> \<le> TOLERANCE \<and> \<bar>y\<bar> \<le> TOLERANCE \<and> z < 0 then Inr None
           else if \<bar>z\<bar> > 1 / 2 then Inr (Some (180, 0, 0))
           else if \<bar>x\<bar> > 1 / 2 then Inr (Some (if x > 0 then (0, 90, 0) else (0, - 90, 0)))
           else Inr (Some (if y > 0 then (- 90, 0, 0) else (90, 0, 0))))))"

definition axis_vector :: "pyval \<Rightarrow> exn + real \<times> real \<times> real" where
  "axis_vector v =
     (case v of
        PList [a, b, c] \<Rightarrow> and_then (py_float a) (\<lambda>x. and_then (py_float b) (\<lambda>y. map_sum id (\<lambda>z. (x, y, z)) (py_float c)))
      | PList _ \<Rightarrow> Inl ValueError
      | _ \<Rightarrow> Inl TypeError)"

definition orient :: "('o, 'f, 'w) kernel \<Rightarrow> pyval \<Rightarrow> 'o \<Rightarrow> exn + 'o" where
  "orient K v obj =
     (if \<not> truthy v then Inr obj
      else and_then (axis_vector v) (\<lambda>a. map_sum id (\<lambda>t. (case t of None \<Rightarrow> obj | Some angles \<Rightarrow> k_rotate K angles obj)) (turn_for a)))"

section \<open>The route\<close>

text \<open>What is written and reported; a refusal is reported and nothing is written.\<close>

definition route ::
  "('o, 'f, 'w) kernel \<Rightarrow> (pyval \<Rightarrow> string) \<Rightarrow> pydict \<Rightarrow> 'o \<Rightarrow> exn + program \<times> string list \<times> stats" where
  "route K repr request obj =
     (let units = word_of repr request ''units'' ''mm''; machine = word_of repr request ''machine'' ''cnc'' in
      and_then (require_that (units \<in> {''mm'', ''in''}) (Raised ''units'')) (\<lambda>_.
      and_then (require_that (machine \<in> {''cnc'', ''laser'', ''drill''}) (Raised ''machine'')) (\<lambda>_.
      and_then (orient K (entry request ''tool_axis_vector'') obj) (\<lambda>obj.
        if machine = ''cnc'' then cnc K repr request obj units
        else if machine = ''laser'' then laser K repr request obj units
        else drilling K repr request obj units))))"

definition process :: "('o, 'f, 'w) kernel \<Rightarrow> (pyval \<Rightarrow> string) \<Rightarrow> pydict \<Rightarrow> 'o \<Rightarrow> exn + string \<times> string list \<times> stats" where
  "process K repr request obj = map_sum id (\<lambda>(p, warnings, st). (program_text p, warnings, st)) (route K repr request obj)"

section \<open>A square plate\<close>

definition plate_edges :: "edge list" where
  "plate_edges = map (\<lambda>(a, b). \<lparr>e_line = True, e_start = a, e_end = b, e_samples = (\<lambda>_. [])\<rparr>)
     [((0, 0), (10, 0)), ((10, 0), (10, 10)), ((10, 10), (0, 10)), ((0, 10), (0, 0))]"

definition plate_hole :: cylinder where
  "plate_hole = \<lparr>c_axis_z = 1, c_at = (5, 5), c_radius = 3, c_top = 3, c_bottom = 0, c_bounds = Some ((0, 1), (0, 1)), c_reversed = True,
     c_normal = (\<lambda>_ _. Some ((1, 0), (8, 5)))\<rparr>"

definition plate_kernel :: "(unit, unit, unit) kernel" where
  "plate_kernel = \<lparr>k_top = (\<lambda>_. 3), k_bottom = (\<lambda>_. 0), k_section = (\<lambda>_ _. [()]), k_faces = (\<lambda>_. [()]), k_area = (\<lambda>_. 100),
     k_inner = (\<lambda>_. []), k_outer = (\<lambda>_. ()), k_extent = (\<lambda>_. (10, 10)), k_offset = (\<lambda>w _. Some w), k_length = (\<lambda>_. Some 40),
     k_edges = (\<lambda>_. plate_edges), k_cylinder = (\<lambda>_. Some plate_hole), k_rotate = (\<lambda>_ o'. o')\<rparr>"

definition plate_job :: pydict where
  "plate_job = [(''diameter'', PInt 6), (''feed'', PInt 1200), (''plunge'', PInt 300), (''safe_z'', PInt 5), (''depth_per_pass'', PInt 2),
     (''speed'', PInt 18000)]"

lemma distance_axis [simp]: "distance (a, b) (c, b) = \<bar>a - c\<bar>" "distance (a, b) (a, d) = \<bar>b - d\<bar>"
  by (simp_all add: distance_def)

definition plate_points :: "point list" where
  "plate_points = [(0, 0), (10, 0), (10, 10), (0, 10), (0, 0)]"

lemma plate_wire: "wire_points plate_kernel w tol = plate_points"
  by (simp add: wire_points_def plate_kernel_def plate_edges_def edge_points_def add_segment_def closed_contour_def plate_points_def
      TOLERANCE_def Let_def)

lemma plate_contours: "contours_of plate_kernel ''climb'' tol [((), False, 1)] = [(rev plate_points, False, 1)]"
  by (simp add: contours_of_def plate_wire oriented_def) (simp add: plate_points_def)

lemma plate_request [simp]:
  "required plate_job ''diameter'' = Inr 6" "required plate_job ''feed'' = Inr 1200" "required plate_job ''plunge'' = Inr 300"
  "required plate_job ''safe_z'' = Inr 5" "required plate_job ''depth_per_pass'' = Inr 2" "depth_of plate_job 3 = Inr 3"
  "entry plate_job ''plunge'' = PInt 300" "entry plate_job ''speed'' = PInt 18000" "entry plate_job ''tolerance'' = PNone"
  "entry plate_job ''stepover'' = PNone" "entry plate_job ''precision'' = PNone" "entry plate_job ''comments'' = PNone"
  "entry plate_job ''peck'' = PNone" "entry plate_job ''machine'' = PNone" "entry plate_job ''units'' = PNone"
  "entry plate_job ''tool_axis_vector'' = PNone"
  "word_of repr plate_job ''operation'' ''profile'' = ''profile''" "direction_of repr plate_job = Inr ''climb''"
  by (simp_all add: plate_job_def required_def depth_of_def TOLERANCE_def word_of_def direction_of_def or_default_def Let_def
      lower_def lower_char_def code_def)

lemma plate_faces: "fst (cnc_faces plate_kernel () 3) = [()]"
  by (simp add: cnc_faces_def plate_kernel_def TOLERANCE_def Let_def)

lemma plate_wires: "cnc_wires plate_kernel ''profile'' [()] r s t = Inr [((), False, 1)]" if "t < 40"
  using that by (simp add: cnc_wires_def plate_kernel_def offset_def)

lemma plate_kernel_heights [simp]: "k_top plate_kernel obj = 3" "k_bottom plate_kernel obj = 0"
  by (simp_all add: plate_kernel_def)

lemma plate_cnc: "\<exists>p warnings st. cnc plate_kernel repr plate_job () ''mm'' = Inr (p, warnings, st)"
  by (simp add: cnc_def Let_def case_prod_beta plate_faces plate_wires plate_contours [simplified] or_default_def program_for_def
      spindle_speed_def require_that_def of_rat_divide)

end
