(* ===== verification/GcodeMotion.thy ===== *)
theory GcodeMotion
  imports Gcode
begin

text \<open>
  What a machine does with a program of \<open>Gcode\<close>: a machine that runs the lines one by one, and what each of
  the three programs may count on when it runs them. A rate once set stays until another is.
\<close>

section \<open>The machine\<close>

record machine_state =
  m_xy :: "point option"
  m_z :: "real option"
  m_feed :: "real option"
  m_on :: bool

definition idle :: machine_state where
  "idle = \<lparr>m_xy = None, m_z = None, m_feed = None, m_on = False\<rparr>"

fun step_machine :: "machine_state \<Rightarrow> gline \<Rightarrow> machine_state" where
  "step_machine s (Spindle _) = s\<lparr>m_on := True\<rparr>"
| "step_machine s Spindle_off = s\<lparr>m_on := False\<rparr>"
| "step_machine s (Rapid_z z) = s\<lparr>m_z := Some z\<rparr>"
| "step_machine s (Rapid_xy q) = s\<lparr>m_xy := Some q\<rparr>"
| "step_machine s (Plunge z rate) = s\<lparr>m_z := Some z, m_feed := Some rate\<rparr>"
| "step_machine s (Cut_to q rate) =
     s\<lparr>m_xy := Some q, m_feed := (case rate of None \<Rightarrow> m_feed s | Some f \<Rightarrow> Some f)\<rparr>"
| "step_machine s _ = s"

definition run_machine :: "gline list \<Rightarrow> machine_state" where
  "run_machine ls = foldl step_machine idle ls"

text \<open>A condition on each line and the state it is run in.\<close>

fun holds_along :: "(machine_state \<Rightarrow> gline \<Rightarrow> bool) \<Rightarrow> machine_state \<Rightarrow> gline list \<Rightarrow> bool" where
  "holds_along ok s [] = True"
| "holds_along ok s (l # ls) = (ok s l \<and> holds_along ok (step_machine s l) ls)"

lemma holds_along_append [simp]:
  "holds_along ok s (a @ b) = (holds_along ok s a \<and> holds_along ok (foldl step_machine s a) b)"
  by (induction a arbitrary: s) auto

lemma holds_along_mono: "holds_along ok s ls \<Longrightarrow> (\<And>s l. ok s l \<Longrightarrow> ok' s l) \<Longrightarrow> holds_along ok' s ls"
  by (induction ls arbitrary: s) auto

lemma holds_along_nth:
  "holds_along ok s ls \<longleftrightarrow> (\<forall>i < length ls. ok (foldl step_machine s (take i ls)) (ls ! i))"
  by (induction ls arbitrary: s) (auto simp: less_Suc_eq_0_disj nth_Cons split: nat.splits)

section \<open>Programs that keep a condition\<close>

text \<open>
  Every operation of a program appends lines. A program is \<open>kept\<close> when its lines satisfy the condition as the
  machine runs them; where the program knows the place of the tool, the machine is there.
\<close>

definition state_of :: "program \<Rightarrow> machine_state" where
  "state_of p = run_machine (g_lines p)"

definition kept :: "(machine_state \<Rightarrow> gline \<Rightarrow> bool) \<Rightarrow> program \<Rightarrow> bool" where
  "kept ok p = holds_along ok idle (g_lines p)"

definition placed_right :: "program \<Rightarrow> bool" where
  "placed_right p = (\<forall>q. g_where p = Some q \<longrightarrow> m_xy (state_of p) = Some q)"

lemma code_line_machine [simp]:
  "state_of (code_line l p) = step_machine (state_of p) l"
  "kept ok (code_line l p) = (kept ok p \<and> ok (state_of p) l)"
  "g_where (code_line l p) = g_where p" "g_cut_length (code_line l p) = g_cut_length p"
  by (simp_all add: code_line_def state_of_def kept_def run_machine_def)

lemma tracked_machine [simp]:
  "state_of (p\<lparr>g_where := w\<rparr>) = state_of p" "state_of (p\<lparr>g_cut_length := c\<rparr>) = state_of p"
  "kept ok (p\<lparr>g_where := w\<rparr>) = kept ok p" "kept ok (p\<lparr>g_cut_length := c\<rparr>) = kept ok p"
  by (simp_all add: state_of_def kept_def)

lemma moves_machine [simp]:
  "state_of (rapid_z z p) = (state_of p)\<lparr>m_z := Some z\<rparr>"
  "state_of (rapid_xy q p) = (state_of p)\<lparr>m_xy := Some q\<rparr>"
  "state_of (plunge z rate p) = (state_of p)\<lparr>m_z := Some z, m_feed := Some rate\<rparr>"
  "kept ok (rapid_z z p) = (kept ok p \<and> ok (state_of p) (Rapid_z z))"
  "kept ok (rapid_xy q p) = (kept ok p \<and> ok (state_of p) (Rapid_xy q))"
  "kept ok (plunge z rate p) = (kept ok p \<and> ok (state_of p) (Plunge z rate))"
  "g_where (rapid_z z p) = None" "g_where (rapid_xy q p) = Some q" "g_where (plunge z rate p) = g_where p"
  by (simp_all add: rapid_z_def rapid_xy_def plunge_def)

text \<open>Lines that only say something move nothing.\<close>

definition says_only :: "(machine_state \<Rightarrow> gline \<Rightarrow> bool) \<Rightarrow> bool" where
  "says_only ok \<longleftrightarrow> (\<forall>s t. ok s (Comment t)) \<and> (\<forall>s t. ok s (Word t))"

lemma comment_machine [simp]:
  "state_of (comment t p) = state_of p" "g_where (comment t p) = g_where p"
  "says_only ok \<Longrightarrow> kept ok (comment t p) = kept ok p"
  by (auto simp: comment_def says_only_def)

lemma preamble_machine [simp]:
  "state_of (preamble units p) = state_of p" "g_where (preamble units p) = g_where p"
  "says_only ok \<Longrightarrow> kept ok (preamble units p) = kept ok p"
  by (auto simp: preamble_def says_only_def)

lemma object_comment_machine [simp]:
  "state_of (object_comment repr request p) = state_of p" "g_where (object_comment repr request p) = g_where p"
  "says_only ok \<Longrightarrow> kept ok (object_comment repr request p) = kept ok p"
  by (auto simp: object_comment_def Let_def)

lemma units_comment_machine [simp]:
  "state_of (units_comment units p) = state_of p" "g_where (units_comment units p) = g_where p"
  "says_only ok \<Longrightarrow> kept ok (units_comment units p) = kept ok p"
  by (auto simp: units_comment_def)

lemma new_program_machine [simp]:
  "state_of (new_program units n c) = idle" "g_where (new_program units n c) = None" "kept ok (new_program units n c)"
  by (simp_all add: new_program_def state_of_def kept_def run_machine_def)

lemma spindle_machine [simp]:
  "m_xy (state_of (spindle_on speed p)) = m_xy (state_of p)" "m_z (state_of (spindle_on speed p)) = m_z (state_of p)"
  "m_xy (state_of (spindle_off speed p)) = m_xy (state_of p)" "m_z (state_of (spindle_off speed p)) = m_z (state_of p)"
  "g_where (spindle_on speed p) = g_where p" "g_where (spindle_off speed p) = g_where p"
  by (auto simp: spindle_on_def spindle_off_def split: option.splits)

lemma placed_moves [simp]:
  "placed_right (rapid_z z p)" "placed_right (rapid_xy q p)" "placed_right (plunge z rate p) = placed_right p"
  by (simp_all add: placed_right_def)

section \<open>One contour\<close>

lemma cut_to_result:
  assumes "cut_to q rate p = (written, p')"
  shows "(written \<longrightarrow> state_of p' = step_machine (state_of p) (Cut_to q rate) \<and> g_where p' = Some q
            \<and> (kept ok p' \<longleftrightarrow> kept ok p \<and> ok (state_of p) (Cut_to q rate)))
       \<and> (\<not> written \<longrightarrow> p' = p \<and> (\<exists>w. g_where p = Some w \<and> distance w q \<le> TOLERANCE))"
  using assms by (auto simp: cut_to_def split: option.splits if_splits)

lemmas cut_to_written = cut_to_result [THEN conjunct1, rule_format]
lemmas cut_to_dropped = cut_to_result [THEN conjunct2, rule_format]

text \<open>Cutting leaves the height, and the spindle, as they are.\<close>

lemma cut_points_leaves:
  "m_on (state_of (cut_points rate first_move qs p)) = m_on (state_of p)
   \<and> m_z (state_of (cut_points rate first_move qs p)) = m_z (state_of p)"
proof (induction qs arbitrary: p first_move)
  case (Cons q qs)
  obtain written p' where c: "cut_to q (if first_move then Some rate else None) p = (written, p')" by fastforce
  have "m_on (state_of p') = m_on (state_of p) \<and> m_z (state_of p') = m_z (state_of p)"
    using c by (auto simp: cut_to_def split: option.splits if_splits)
  then show ?case using Cons.IH [of "first_move \<and> \<not> written" p'] by (simp add: c)
qed simp

lemmas cut_points_on [simp] = cut_points_leaves [THEN conjunct1] cut_points_leaves [THEN conjunct2]

text \<open>
  The moves of a contour: every one of them is at the rate of the cut, the first by saying so and the rest
  because it stays, also where points are dropped before the first that is written.
\<close>

definition cuts_where :: "real \<Rightarrow> (real option \<Rightarrow> bool \<Rightarrow> bool) \<Rightarrow> (machine_state \<Rightarrow> gline \<Rightarrow> bool) \<Rightarrow> bool" where
  "cuts_where rate fits ok \<longleftrightarrow>
     (\<forall>s q f. fits (m_z s) (m_on s) \<and> (case f of None \<Rightarrow> m_feed s = Some rate | Some g \<Rightarrow> g = rate) \<longrightarrow> ok s (Cut_to q f))"

lemma cuts_whereD:
  "cuts_where rate fits ok \<Longrightarrow> fits (m_z s) (m_on s) \<Longrightarrow> (case f of None \<Rightarrow> m_feed s = Some rate | Some g \<Rightarrow> g = rate) \<Longrightarrow> ok s (Cut_to q f)"
  by (cases q) (simp add: cuts_where_def)

lemma cut_points_kept:
  assumes cuts: "cuts_where rate fits ok" and "kept ok p" and "fits (m_z (state_of p)) (m_on (state_of p))"
    and "first_move \<or> m_feed (state_of p) = Some rate"
  shows "kept ok (cut_points rate first_move qs p)"
  using assms(2-4)
proof (induction qs arbitrary: p first_move)
  case (Cons q qs)
  let ?rate = "if first_move then Some rate else None"
  obtain written p' where c: "cut_to q ?rate p = (written, p')" by fastforce
  have ok: "ok (state_of p) (Cut_to q ?rate)" by (rule cuts_whereD [OF cuts Cons.prems(2)]) (use Cons.prems(3) in auto)
  have "kept ok (cut_points rate (first_move \<and> \<not> written) qs p')"
  proof (cases written)
    case True
    then have s: "state_of p' = step_machine (state_of p) (Cut_to q ?rate)" and k: "kept ok p'"
      using cut_to_written [OF c True, of ok] ok Cons.prems(1) by simp_all
    show ?thesis by (rule Cons.IH [OF k]) (use Cons.prems(2,3) s in \<open>auto split: if_splits\<close>)
  next
    case False
    then have same: "p' = p" using cut_to_dropped [OF c] by simp
    show ?thesis unfolding same by (rule Cons.IH [OF Cons.prems(1,2)]) (use False Cons.prems(3) in auto)
  qed
  then show ?case by (simp add: c)
qed simp

section \<open>Where the tool has been\<close>

fun states :: "machine_state \<Rightarrow> gline list \<Rightarrow> machine_state list" where
  "states s [] = []"
| "states s (l # ls) = step_machine s l # states (step_machine s l) ls"

lemma states_append: "states s (a @ b) = states s a @ states (foldl step_machine s a) b"
  by (induction a arbitrary: s) auto

text \<open>At a height, and within the tolerance of a point.\<close>

definition at_point :: "machine_state \<Rightarrow> real \<Rightarrow> point \<Rightarrow> bool" where
  "at_point s z q \<longleftrightarrow> m_z s = Some z \<and> (\<exists>w. m_xy s = Some w \<and> distance w q \<le> TOLERANCE)"

definition been :: "program \<Rightarrow> real \<Rightarrow> point \<Rightarrow> bool" where
  "been p z q \<longleftrightarrow> (\<exists>s \<in> set (states idle (g_lines p)). at_point s z q)"

lemma been_code_line [simp]: "been (code_line l p) z q \<longleftrightarrow> been p z q \<or> at_point (step_machine (state_of p) l) z q"
  by (auto simp: been_def code_line_def states_append state_of_def run_machine_def)

lemma been_tracked [simp]: "been (p\<lparr>g_where := w\<rparr>) z q = been p z q" "been (p\<lparr>g_cut_length := c\<rparr>) z q = been p z q"
  by (simp_all add: been_def)

lemma been_moves:
  "been p z q \<Longrightarrow> been (rapid_z h p) z q" "been p z q \<Longrightarrow> been (rapid_xy w p) z q" "been p z q \<Longrightarrow> been (plunge h rate p) z q"
  by (simp_all add: rapid_z_def rapid_xy_def plunge_def)

lemma been_cut_to: "cut_to w rate p = (written, p') \<Longrightarrow> been p z q \<Longrightarrow> been p' z q"
  by (auto simp: cut_to_def split: option.splits if_splits)

lemma been_cut_points: "been p z q \<Longrightarrow> been (cut_points rate first_move qs p) z q"
proof (induction qs arbitrary: p first_move)
  case (Cons w qs)
  obtain written p' where "cut_to w (if first_move then Some rate else None) p = (written, p')" by fastforce
  then show ?case using Cons been_cut_to by fastforce
qed simp

lemma been_cut_passes: "been p z q \<Longrightarrow> been (cut_passes rate plunge_rate points zs p) z q"
  by (induction zs arbitrary: p) (auto simp: been_moves been_cut_points)

lemma been_cut_contours: "been p z q \<Longrightarrow> been (cut_contours rate plunge_rate safe zs cs p) z q"
proof (induction cs arbitrary: p)
  case (Cons c cs)
  obtain points inside grp where "c = (points, inside, grp)" by (cases c)
  then show ?case using Cons by (simp add: been_moves been_cut_passes)
qed simp

text \<open>Where a known tool stands.\<close>

definition stands :: "program \<Rightarrow> real \<Rightarrow> point \<Rightarrow> bool" where
  "stands p z q \<longleftrightarrow> placed_right p \<and> m_z (state_of p) = Some z \<and> (\<exists>w. g_where p = Some w \<and> distance w q \<le> TOLERANCE)"

lemma distance_self [simp]: "distance q q = 0"
  by (simp add: distance_def)

lemma tolerance_pos: "0 < TOLERANCE" by (simp add: TOLERANCE_def)

lemma at_pointI: "m_z s = Some z \<Longrightarrow> m_xy s = Some w \<Longrightarrow> distance w q \<le> TOLERANCE \<Longrightarrow> at_point s z q"
  unfolding at_point_def by blast

lemma stands_at: "stands p z q \<Longrightarrow> at_point (state_of p) z q"
  unfolding stands_def placed_right_def using at_pointI by blast

lemma cut_to_stands:
  assumes "stands p z w" and "been p z w" and "cut_to q rate p = (written, p')"
  shows "stands p' z q \<and> been p' z q"
proof (cases written)
  case True
  then have s: "state_of p' = step_machine (state_of p) (Cut_to q rate)" and w: "g_where p' = Some q"
    using cut_to_result [OF assms(3)] by blast+
  have z: "m_z (state_of p') = Some z" using assms(1) by (simp add: s stands_def)
  have q: "m_xy (state_of p') = Some q" by (simp add: s)
  have t: "distance q q \<le> TOLERANCE" using tolerance_pos by simp
  have "\<exists>r. p' = r \<and> g_lines r = g_lines p @ [Cut_to q rate]"
    using assms(3) True by (auto simp: cut_to_def code_line_def split: option.splits if_splits)
  then have "been p' z q"
    using at_pointI [OF z q t] unfolding s by (auto simp: been_def states_append state_of_def run_machine_def)
  moreover have "placed_right p'" unfolding placed_right_def w using q by simp
  ultimately show ?thesis using z w t unfolding stands_def by simp
next
  case False
  then have p: "p' = p" and "\<exists>w. g_where p = Some w \<and> distance w q \<le> TOLERANCE" using cut_to_result [OF assms(3)] by auto
  then have s: "stands p z q" using assms(1) by (auto simp: stands_def)
  obtain s' where "s' \<in> set (states idle (g_lines p))" "at_point s' z w" using assms(2) by (auto simp: been_def)
  then have "g_lines p \<noteq> []" by auto
  then have "state_of p \<in> set (states idle (g_lines p))"
    by (cases "g_lines p" rule: rev_cases) (simp_all add: state_of_def run_machine_def states_append)
  then show ?thesis using s stands_at [OF s] unfolding p been_def by blast
qed

lemma cut_points_been:
  "stands p z w \<Longrightarrow> been p z w \<Longrightarrow>
     stands (cut_points rate first_move qs p) z (List.last (w # qs)) \<and> been (cut_points rate first_move qs p) z (List.last (w # qs))
     \<and> (\<forall>q \<in> set qs. been (cut_points rate first_move qs p) z q)"
proof (induction qs arbitrary: p first_move w)
  case (Cons q qs)
  obtain written p' where c: "cut_to q (if first_move then Some rate else None) p = (written, p')" by fastforce
  note s = cut_to_stands [OF Cons.prems c]
  have "stands (cut_points rate (first_move \<and> \<not> written) qs p') z (List.last (q # qs))
      \<and> been (cut_points rate (first_move \<and> \<not> written) qs p') z (List.last (q # qs))
      \<and> (\<forall>x \<in> set qs. been (cut_points rate (first_move \<and> \<not> written) qs p') z x)"
    using Cons.IH s by blast
  moreover have "been (cut_points rate (first_move \<and> \<not> written) qs p') z q" using s been_cut_points by blast
  ultimately show ?case by (auto simp: c)
qed simp

lemma cut_passes_been:
  assumes "points \<noteq> []" and "List.last points = hd points"
  shows "placed_right p \<Longrightarrow> (\<exists>w. g_where p = Some w \<and> distance w (hd points) \<le> TOLERANCE) \<Longrightarrow>
     \<forall>z \<in> set zs. \<forall>q \<in> set points. been (cut_passes rate plunge_rate points zs p) z q"
proof (induction zs arbitrary: p)
  case (Cons z zs)
  let ?p = "plunge z plunge_rate p" and ?q = "cut_points rate True (tl points) (plunge z plunge_rate p)"
  have s: "stands ?p z (hd points)" using Cons.prems by (simp add: stands_def)
  then have b: "been ?p z (hd points)" using stands_at [OF s] by (simp add: plunge_def)
  note c = cut_points_been [OF s b, of rate True "tl points"]
  have l: "List.last (hd points # tl points) = hd points" using assms by simp
  have all: "\<forall>q \<in> set points. been ?q z q"
    using c assms(1) been_cut_points [OF b] by (cases points) auto
  have next_pass: "placed_right ?q" "\<exists>w. g_where ?q = Some w \<and> distance w (hd points) \<le> TOLERANCE"
    using c unfolding l stands_def by blast+
  show ?case using Cons.IH [OF next_pass] all been_cut_passes by auto
qed simp

section \<open>The router\<close>

text \<open>
  What the router's program keeps: it travels only at the safe height, it is taken there and nowhere else by a
  rapid move, it plunges one depth at a time in the order of the passes and at the plunge rate, and it cuts at
  a depth of the passes, at the rate of the cut, with the spindle as the job has it.
\<close>

fun router_ok :: "real \<Rightarrow> real \<Rightarrow> real \<Rightarrow> bool \<Rightarrow> real list \<Rightarrow> machine_state \<Rightarrow> gline \<Rightarrow> bool" where
  "router_ok safe rate plunge_rate on zs s (Rapid_z z) = (z = safe)"
| "router_ok safe rate plunge_rate on zs s (Rapid_xy q) = (m_z s = Some safe)"
| "router_ok safe rate plunge_rate on zs s (Plunge z f) =
     (f = plunge_rate \<and> m_on s = on \<and> m_xy s \<noteq> None \<and> (\<exists>a u b. safe # zs = a @ u # z # b \<and> m_z s = Some u))"
| "router_ok safe rate plunge_rate on zs s (Cut_to q f) =
     ((\<exists>z \<in> set zs. m_z s = Some z) \<and> m_on s = on \<and> (case f of None \<Rightarrow> m_feed s = Some rate | Some g \<Rightarrow> g = rate))"
| "router_ok safe rate plunge_rate on zs s _ = True"

lemma router_says [simp]: "says_only (router_ok safe rate plunge_rate on zs)"
  by (simp add: says_only_def)

lemma cut_points_xy: "m_xy (state_of p) \<noteq> None \<Longrightarrow> m_xy (state_of (cut_points rate first_move qs p)) \<noteq> None"
proof (induction qs arbitrary: p first_move)
  case (Cons q qs)
  obtain written p' where c: "cut_to q (if first_move then Some rate else None) p = (written, p')" by fastforce
  have "m_xy (state_of p') \<noteq> None" using c Cons.prems by (auto simp: cut_to_def split: option.splits if_splits)
  then show ?case using Cons.IH by (simp add: c)
qed simp

lemma router_cuts: "cuts_where rate (\<lambda>h o'. (\<exists>z \<in> set zs. h = Some z) \<and> o' = on) (router_ok safe rate plunge_rate on zs)"
  by (auto simp: cuts_where_def)

lemma cut_passes_router:
  "kept (router_ok safe rate plunge_rate on zs) p \<Longrightarrow> m_on (state_of p) = on \<Longrightarrow> m_xy (state_of p) \<noteq> None \<Longrightarrow>
   safe # zs = a @ u # rest \<Longrightarrow> m_z (state_of p) = Some u \<Longrightarrow>
     kept (router_ok safe rate plunge_rate on zs) (cut_passes rate plunge_rate points rest p)
     \<and> m_on (state_of (cut_passes rate plunge_rate points rest p)) = on"
proof (induction rest arbitrary: p a u)
  case (Cons z rest)
  let ?ok = "router_ok safe rate plunge_rate on zs"
  let ?p = "plunge z plunge_rate p"
  have z: "z \<in> set zs" using Cons.prems(4) by (cases a) auto
  have k: "kept ?ok ?p" using Cons.prems by auto
  have "kept ?ok (cut_points rate True (tl points) ?p)"
    by (rule cut_points_kept [OF router_cuts k]) (use Cons.prems(2) z in auto)
  then show ?case
    using Cons.IH [of "cut_points rate True (tl points) ?p" "a @ [u]" z] Cons.prems cut_points_xy [of ?p] by simp
qed simp

lemma cut_contours_router:
  "kept (router_ok safe rate plunge_rate on zs) p \<Longrightarrow> m_on (state_of p) = on \<Longrightarrow> m_z (state_of p) = Some safe \<Longrightarrow>
     kept (router_ok safe rate plunge_rate on zs) (cut_contours rate plunge_rate safe zs cs p)"
proof (induction cs arbitrary: p)
  case (Cons c cs)
  obtain points inside grp where c: "c = (points, inside, grp)" by (cases c)
  let ?p = "rapid_xy (hd points) p"
  have "kept (router_ok safe rate plunge_rate on zs) ?p" using Cons.prems by simp
  then have "kept (router_ok safe rate plunge_rate on zs) (cut_passes rate plunge_rate points zs ?p)
      \<and> m_on (state_of (cut_passes rate plunge_rate points zs ?p)) = on"
    by (rule cut_passes_router [where a = "[]" and u = safe]) (use Cons.prems in simp_all)
  then show ?case using Cons.IH by (simp add: c)
qed simp

lemma spindle_on_kept [simp]:
  "kept (router_ok safe rate plunge_rate on zs) (spindle_on speed p) = kept (router_ok safe rate plunge_rate on zs) p"
  "kept (router_ok safe rate plunge_rate on zs) (spindle_off speed p) = kept (router_ok safe rate plunge_rate on zs) p"
  by (auto simp: spindle_on_def spindle_off_def split: option.splits)

lemma spindle_on_state: "m_on (state_of p) = False \<Longrightarrow> m_on (state_of (spindle_on speed p)) = (speed \<noteq> None)"
  by (cases speed) (auto simp: spindle_on_def)

lemma idle_off [simp]: "m_on idle = False" "m_xy idle = None" "m_z idle = None"
  by (simp_all add: idle_def)

lemma cnc_program_kept:
  "kept (router_ok safe rate plunge_rate (speed \<noteq> None) zs)
     (cnc_program repr request units oper dir tool depth zs speed safe rate plunge_rate paths (new_program units n c))"
  unfolding cnc_program_def
  by (auto intro!: cut_contours_router simp: spindle_on_state)

section \<open>How far the tool cuts\<close>

fun travelled :: "machine_state \<Rightarrow> gline list \<Rightarrow> real" where
  "travelled s [] = 0"
| "travelled s (l # ls) =
     (case l of Cut_to q _ \<Rightarrow> (case m_xy s of None \<Rightarrow> 0 | Some w \<Rightarrow> distance w q) | _ \<Rightarrow> 0) + travelled (step_machine s l) ls"

lemma travelled_append: "travelled s (a @ b) = travelled s a + travelled (foldl step_machine s a) b"
  by (induction a arbitrary: s) auto

definition measured :: "program \<Rightarrow> bool" where
  "measured p \<longleftrightarrow> g_cut_length p = travelled idle (g_lines p) \<and> placed_right p"

definition no_cut :: "gline \<Rightarrow> bool" where
  "no_cut l \<longleftrightarrow> (case l of Cut_to _ _ \<Rightarrow> False | Rapid_xy _ \<Rightarrow> False | _ \<Rightarrow> True)"

lemma measured_code_line [simp]: "no_cut l \<Longrightarrow> measured p \<Longrightarrow> measured (code_line l p)"
  by (cases l) (auto simp: measured_def code_line_def travelled_append placed_right_def no_cut_def state_of_def run_machine_def)

lemma measured_moves [simp]:
  "measured p \<Longrightarrow> measured (rapid_z z p)" "measured p \<Longrightarrow> measured (rapid_xy q p)" "measured p \<Longrightarrow> measured (plunge z rate p)"
  by (auto simp: measured_def rapid_z_def rapid_xy_def plunge_def code_line_def travelled_append placed_right_def state_of_def
      run_machine_def)

lemma measured_comment [simp]: "measured p \<Longrightarrow> measured (comment t p)"
  by (simp add: comment_def no_cut_def)

lemma measured_preamble [simp]: "measured p \<Longrightarrow> measured (preamble units p)"
  by (simp add: preamble_def no_cut_def)

lemma measured_object_comment [simp]: "measured p \<Longrightarrow> measured (object_comment repr request p)"
  by (simp add: object_comment_def Let_def)

lemma measured_units_comment [simp]: "measured p \<Longrightarrow> measured (units_comment units p)"
  by (simp add: units_comment_def)

lemma measured_spindle [simp]: "measured p \<Longrightarrow> measured (spindle_on s p)" "measured p \<Longrightarrow> measured (spindle_off s p)"
  by (simp_all add: spindle_on_def spindle_off_def no_cut_def split: option.splits)

lemma measured_new [simp]: "measured (new_program units n c)"
  by (simp add: measured_def new_program_def placed_right_def)

lemma cut_to_measured:
  assumes "cut_to q rate p = (written, p')" and "measured p" and "g_where p = Some w"
  shows "measured p' \<and> g_where p' \<noteq> None"
proof (cases "distance w q \<le> TOLERANCE")
  case True
  then show ?thesis using assms by (auto simp: cut_to_def)
next
  case False
  then have p': "p' = (code_line (Cut_to q rate) p)\<lparr>g_where := Some q, g_cut_length := g_cut_length p + distance w q\<rparr>"
    using assms by (auto simp: cut_to_def)
  have xy: "m_xy (state_of p) = Some w" using assms(2,3) by (simp add: measured_def placed_right_def)
  have "g_cut_length p' = travelled idle (g_lines p')"
    using assms(2) xy by (simp add: p' measured_def code_line_def travelled_append state_of_def run_machine_def)
  moreover have "placed_right p'" by (simp add: p' placed_right_def)
  ultimately show ?thesis by (simp add: p' measured_def)
qed

lemma cut_points_measured:
  "measured p \<Longrightarrow> g_where p = Some w \<Longrightarrow>
     measured (cut_points rate first_move qs p) \<and> g_where (cut_points rate first_move qs p) \<noteq> None"
proof (induction qs arbitrary: p first_move w)
  case (Cons q qs)
  obtain written p' where c: "cut_to q (if first_move then Some rate else None) p = (written, p')" by fastforce
  obtain w' where "measured p'" "g_where p' = Some w'" using cut_to_measured [OF c Cons.prems] by auto
  from Cons.IH [OF this] show ?case by (simp add: c)
qed simp

lemma cut_passes_measured:
  "measured p \<Longrightarrow> g_where p \<noteq> None \<Longrightarrow> measured (cut_passes rate plunge_rate points zs p)"
proof (induction zs arbitrary: p)
  case (Cons z zs)
  obtain w where "g_where (plunge z plunge_rate p) = Some w" using Cons.prems(2) by auto
  from cut_points_measured [OF measured_moves(3) [OF Cons.prems(1)] this] show ?case using Cons.IH by simp
qed simp

lemma cut_contours_measured: "measured p \<Longrightarrow> measured (cut_contours rate plunge_rate safe zs cs p)"
proof (induction cs arbitrary: p)
  case (Cons c cs)
  obtain points inside grp where "c = (points, inside, grp)" by (cases c)
  then show ?case using Cons cut_passes_measured [of "rapid_xy (hd points) p"] by simp
qed simp

lemma laser_contours_measured: "measured p \<Longrightarrow> measured (laser_contours rate beam cs p)"
proof (induction cs arbitrary: p)
  case (Cons c cs)
  obtain points inside grp where c: "c = (points, inside, grp)" by (cases c)
  let ?p = "code_line (Spindle beam) (rapid_xy (hd points) p)"
  have "measured ?p" "g_where ?p = Some (hd points)" using Cons.prems by (simp_all add: no_cut_def)
  from cut_points_measured [OF this] show ?case using Cons.IH by (simp add: c no_cut_def)
qed simp

lemma drill_steps_measured: "measured p \<Longrightarrow> measured (drill_steps plunge_rate h pecking zs p)"
  by (induction zs arbitrary: p) auto

lemma drill_holes_measured: "measured p \<Longrightarrow> measured (drill_holes plunge_rate safe peck hs p)"
  by (induction hs arbitrary: p) (auto simp: drill_steps_measured)

lemma cnc_program_measured:
  "measured (cnc_program repr request units oper dir tool depth zs speed safe rate plunge_rate paths (new_program units n c))"
  by (simp add: cnc_program_def no_cut_def cut_contours_measured)

lemma laser_program_measured:
  "measured (laser_program repr request units kerf height rate beam paths (new_program units n c))"
  by (simp add: laser_program_def no_cut_def laser_contours_measured)

lemma drill_program_measured:
  "measured (drill_program repr request units tool speed safe plunge_rate peck holes (new_program units n c))"
  by (simp add: drill_program_def no_cut_def drill_holes_measured)

section \<open>What a route came to\<close>

text \<open>What the request says decides the program: each of the three handlers, taken apart.\<close>

lemma program_for_new:
  "program_for request units = Inr p \<Longrightarrow> \<exists>n c. p = new_program units n c"
  by (cases "py_int (or_default (entry request ''precision'') (PInt 3))") (auto simp: program_for_def)

lemma cnc_program_is:
  assumes "cnc K repr request obj units = Inr (p, warnings, st)"
  obtains oper dir tool rate plunge_rate clearance depth_per_pass depth stepover tol wires n c speed where
    "required request ''feed'' = Inr rate" "required request ''safe_z'' = Inr clearance"
    "required request ''depth_per_pass'' = Inr depth_per_pass" "depth_of request (k_top K obj - k_bottom K obj) = Inr depth"
    "(if truthy (entry request ''plunge'') then py_float (entry request ''plunge'') else Inr rate) = Inr plunge_rate"
    "spindle_speed (entry request ''speed'') = Inr speed" "depth_per_pass \<noteq> 0"
    "required request ''diameter'' = Inr tool" "direction_of repr request = Inr dir" "oper = word_of repr request ''operation'' ''profile''"
    "cnc_wires K oper (fst (cnc_faces K obj depth)) (tool / 2) (stepover * tool) tol = Inr wires"
    "p = cnc_program repr request units oper dir tool depth (pass_depths (k_top K obj) depth depth_per_pass) speed
           (k_top K obj + clearance) rate plunge_rate (contours_of K dir tol wires) (new_program units n c)"
    "s_cut_length st = g_cut_length p" "s_paths st = length (contours_of K dir tol wires)"
    "s_passes st = length (pass_depths (k_top K obj) depth depth_per_pass)" "s_depth st = depth" "contours_of K dir tol wires \<noteq> []"
    "py_float (or_default (entry request ''tolerance'') (PFloat (Fin (1 / 100)))) = Inr tol"
    "py_float (or_default (entry request ''stepover'') (PFloat (Fin (1 / 2)))) = Inr stepover"
  using assms unfolding cnc_def Let_def case_prod_beta and_then_Inr require_that_Inr
  apply (elim exE conjE)
  apply (drule program_for_new)
  apply (elim exE)
  apply (simp only: sum.inject prod.inject)
  apply (elim conjE)
  apply hypsubst
  apply (rule that)
  apply (assumption | rule refl)+
  apply simp_all
  done

lemma spindle_speed_on: "spindle_speed v = Inr speed \<Longrightarrow> (speed \<noteq> None) = truthy v"
  by (cases "py_float v") (auto simp: spindle_speed_def split: if_splits)

section \<open>Properties of the router\<close>

text \<open>C4: 
  A router's program never crosses the object with a rapid move. It travels at the safe height alone, and a
  rapid move of the tool's axis goes there; it plunges to the next depth of the passes, at the plunge
  rate, from the one before; and every cutting move is made at a depth of the passes, at the rate of the cut and
  with the spindle running where the job has a speed, whatever points were dropped.
\<close>

theorem router_runs_safely:
  assumes run: "cnc K repr request obj units = Inr (p, warnings, st)"
    and rate: "required request ''feed'' = Inr rate" and clearance: "required request ''safe_z'' = Inr clearance"
    and per_pass: "required request ''depth_per_pass'' = Inr depth_per_pass"
    and depth: "depth_of request (k_top K obj - k_bottom K obj) = Inr depth"
    and plunge: "(if truthy (entry request ''plunge'') then py_float (entry request ''plunge'') else Inr rate) = Inr plunge_rate"
  shows "holds_along (router_ok (k_top K obj + clearance) rate plunge_rate (truthy (entry request ''speed''))
      (pass_depths (k_top K obj) depth depth_per_pass)) idle (g_lines p)"
proof (rule cnc_program_is [OF run])
  fix oper dir tool rate' plunge_rate' clearance' depth_per_pass' depth' tol wires n c speed
  assume a: "required request ''feed'' = Inr rate'" "required request ''safe_z'' = Inr clearance'"
      "required request ''depth_per_pass'' = Inr depth_per_pass'" "depth_of request (k_top K obj - k_bottom K obj) = Inr depth'"
      "(if truthy (entry request ''plunge'') then py_float (entry request ''plunge'') else Inr rate') = Inr plunge_rate'"
    and s: "spindle_speed (entry request ''speed'') = Inr speed"
    and p: "p = cnc_program repr request units oper dir tool depth' (pass_depths (k_top K obj) depth' depth_per_pass') speed
        (k_top K obj + clearance') rate' plunge_rate' (contours_of K dir tol wires) (new_program units n c)"
  have same: "rate' = rate" "clearance' = clearance" "depth_per_pass' = depth_per_pass" "depth' = depth"
    using a(1-4) rate clearance per_pass depth by simp_all
  have "plunge_rate' = plunge_rate" using a(5) plunge unfolding same by (simp split: if_splits)
  then show ?thesis
    using cnc_program_kept unfolding p same kept_def spindle_speed_on [OF s, symmetric] by blast
qed

lemma pass_count_bounds:
  assumes "0 < depth" and "0 < per_pass"
  shows "per_pass * real (pass_count depth per_pass - 1) < depth" and "depth - per_pass / 10 ^ 9 \<le> per_pass * real (pass_count depth per_pass)"
    and "1 \<le> pass_count depth per_pass"
proof -
  let ?q = "depth / per_pass - 1 / 10 ^ 9" and ?n = "pass_count depth per_pass"
  have n: "int ?n = max 1 (ceiling ?q)" by (simp add: pass_count_def)
  then show one: "1 \<le> ?n" by linarith
  have r: "real ?n = max 1 (real_of_int (ceiling ?q))"
    using n by (metis of_int_max of_int_1 of_int_of_nat_eq)
  have "?q \<le> real ?n" unfolding r by linarith
  then have "per_pass * ?q \<le> per_pass * real ?n" using assms(2) by (simp add: mult_left_mono)
  then show "depth - per_pass / 10 ^ 9 \<le> per_pass * real ?n" using assms(2) by (simp add: right_diff_distrib)
  show "per_pass * real (?n - 1) < depth"
  proof (cases "?n = 1")
    case False
    then have "real ?n = real_of_int (ceiling ?q)" using r one by (auto simp: max_def split: if_splits)
    then have "real ?n - 1 < ?q" by linarith
    then have "real (?n - 1) < depth / per_pass" using one by (simp add: of_nat_diff)
    then show ?thesis using assms(2) by (simp add: pos_less_divide_eq mult.commute)
  qed (use assms in simp)
qed

text \<open>C28: 
  The depths of the passes go down from the top by no more than the depth of one pass at a time, never past the
  depth of the cut, and the last of them is that depth to within a billionth of a pass.
\<close>

theorem passes_reach_depth:
  assumes "0 < depth" and "0 < per_pass"
  shows "let zs = pass_depths t depth per_pass in
     zs \<noteq> [] \<and> (\<forall>z \<in> set zs. t - depth \<le> z \<and> z < t) \<and> t - hd zs \<le> per_pass
     \<and> (\<forall>i. Suc i < length zs \<longrightarrow> 0 < zs ! i - zs ! Suc i \<and> zs ! i - zs ! Suc i \<le> per_pass)
     \<and> List.last zs \<le> t - depth + per_pass / 10 ^ 9"
proof -
  let ?n = "pass_count depth per_pass" and ?zs = "pass_depths t depth per_pass"
  note b = pass_count_bounds [OF assms]
  have len: "length ?zs = ?n" by (simp add: pass_depths_def)
  have nth: "?zs ! i = t - min depth (per_pass * real (i + 1))" if "i < ?n" for i
    using that by (simp add: pass_depths_def)
  have ne: "?zs \<noteq> []" using b(3) len by auto
  have range: "t - depth \<le> z \<and> z < t" if "z \<in> set ?zs" for z
    using that assms by (auto simp: pass_depths_def)
  have h: "t - hd ?zs \<le> per_pass" using nth [of 0] ne b(3) assms by (simp add: hd_conv_nth)
  have steps: "0 < ?zs ! i - ?zs ! Suc i \<and> ?zs ! i - ?zs ! Suc i \<le> per_pass" if i: "Suc i < ?n" for i
  proof -
    have "per_pass * real (i + 1) \<le> per_pass * real (?n - 1)" using i assms(2) by (intro mult_left_mono) auto
    then have "per_pass * real (i + 1) < depth" using b(1) by linarith
    moreover have "per_pass * real (Suc i + 1) = per_pass * real (i + 1) + per_pass" by (simp add: distrib_left)
    ultimately show ?thesis using nth [of i] nth [of "Suc i"] i assms(2) by (auto simp: min_def)
  qed
  have "List.last ?zs = ?zs ! (?n - 1)" using ne len by (simp add: last_conv_nth)
  also have "\<dots> = t - min depth (per_pass * real ?n)" using nth [of "?n - 1"] b(3) by (simp add: of_nat_diff)
  finally have l: "List.last ?zs \<le> t - depth + per_pass / 10 ^ 9" using b(2) assms by (auto simp: min_def)
  show ?thesis unfolding Let_def using ne range h steps l len by auto
qed

section \<open>The whole outline is cut\<close>

definition closed_path :: "point list \<Rightarrow> bool" where
  "closed_path points \<longleftrightarrow> points \<noteq> [] \<and> List.last points = hd points"

lemma closed_contour_closed: "closed_contour ps \<noteq> [] \<Longrightarrow> closed_path (closed_contour ps)"
  by (cases "length ps > 1 \<and> distance (hd ps) (List.last ps) \<le> TOLERANCE"; cases ps; cases "butlast ps")
    (auto simp: closed_contour_def closed_path_def Let_def split: if_splits)

lemma contours_closed:
  assumes "c \<in> set (contours_of K dir tol wires)"
  shows "closed_path (fst c)"
proof -
  obtain points inside grp where c: "c = (points, inside, grp)" by (cases c)
  obtain wire where w: "points = oriented (wire_points K wire tol) ((dir = ''climb'') \<noteq> inside)" "length (wire_points K wire tol) \<ge> 3"
    using assms by (auto simp: c contours_of_def Let_def split: if_splits)
  have "wire_points K wire tol \<noteq> []" using w(2) by auto
  then have "closed_path (wire_points K wire tol)" unfolding wire_points_def by (rule closed_contour_closed)
  then show ?thesis by (simp add: c w(1) oriented_def closed_path_def hd_rev last_rev)
qed

lemma cut_contours_been:
  "\<forall>c \<in> set cs. closed_path (fst c) \<Longrightarrow>
   (points, inside, grp) \<in> set cs \<Longrightarrow> z \<in> set zs \<Longrightarrow> q \<in> set points \<Longrightarrow>
     been (cut_contours rate plunge_rate safe zs cs p) z q"
proof (induction cs arbitrary: p)
  case (Cons c cs)
  obtain points' inside' grp' where c: "c = (points', inside', grp')" by (cases c)
  let ?p = "rapid_xy (hd points') p"
  show ?case
  proof (cases "c = (points, inside, grp)")
    case True
    have "points \<noteq> [] \<and> List.last points = hd points" using Cons.prems(1,2) by (force simp: closed_path_def)
    then have "\<forall>z \<in> set zs. \<forall>q \<in> set points. been (cut_passes rate plunge_rate points zs (rapid_xy (hd points) p)) z q"
      using tolerance_pos by (intro cut_passes_been) auto
    then show ?thesis using True Cons.prems(3,4) by (auto intro!: been_cut_contours been_moves)
  next
    case False
    then have "(points, inside, grp) \<in> set cs" using Cons.prems(2) by auto
    then show ?thesis using Cons.IH Cons.prems by (simp add: c)
  qed
qed simp

lemma insert_path_set: "set (insert_path c ds) = insert c (set ds)"
  by (induction ds) auto

lemma sorted_paths_set: "set (sorted_paths cs) = set cs"
  by (induction cs) (auto simp: sorted_paths_def insert_path_set)

lemma been_says [simp]:
  "been p z q \<Longrightarrow> been (spindle_off speed p) z q"
  by (simp add: spindle_off_def split: option.splits)

text \<open>C17: 
  Every point of every contour of the outline is cut at every depth of the passes: at each of those heights
  the tool comes within the tolerance of it.
\<close>

theorem whole_outline_cut:
  assumes run: "cnc K repr request obj units = Inr (p, warnings, st)"
    and depth: "depth_of request (k_top K obj - k_bottom K obj) = Inr depth"
    and per_pass: "required request ''depth_per_pass'' = Inr depth_per_pass"
    and dir: "direction_of repr request = Inr dir"
    and tool: "required request ''diameter'' = Inr tool"
    and stepover: "py_float (or_default (entry request ''stepover'') (PFloat (Fin (1 / 2)))) = Inr stepover"
    and tol: "py_float (or_default (entry request ''tolerance'') (PFloat (Fin (1 / 100)))) = Inr tol"
    and wires: "cnc_wires K (word_of repr request ''operation'' ''profile'') (fst (cnc_faces K obj depth)) (tool / 2) (stepover * tool) tol
      = Inr wires"
    and contour: "(points, inside, grp) \<in> set (contours_of K dir tol wires)" and "q \<in> set points"
    and "z \<in> set (pass_depths (k_top K obj) depth depth_per_pass)"
  shows "\<exists>s \<in> set (states idle (g_lines p)). m_z s = Some z \<and> (\<exists>w. m_xy s = Some w \<and> distance w q \<le> TOLERANCE)"
proof (rule cnc_program_is [OF run])
  fix oper dir' tool' rate plunge_rate clearance depth_per_pass' depth' stepover' tol' wires' n c speed
  assume a: "required request ''depth_per_pass'' = Inr depth_per_pass'" "depth_of request (k_top K obj - k_bottom K obj) = Inr depth'"
      "required request ''diameter'' = Inr tool'" "direction_of repr request = Inr dir'"
      "py_float (or_default (entry request ''tolerance'') (PFloat (Fin (1 / 100)))) = Inr tol'"
      "py_float (or_default (entry request ''stepover'') (PFloat (Fin (1 / 2)))) = Inr stepover'"
    and o': "oper = word_of repr request ''operation'' ''profile''"
    and w: "cnc_wires K oper (fst (cnc_faces K obj depth')) (tool' / 2) (stepover' * tool') tol' = Inr wires'"
    and p: "p = cnc_program repr request units oper dir' tool' depth' (pass_depths (k_top K obj) depth' depth_per_pass') speed
        (k_top K obj + clearance) rate plunge_rate (contours_of K dir' tol' wires') (new_program units n c)"
  have same: "depth_per_pass' = depth_per_pass" "depth' = depth" "tool' = tool" "dir' = dir" "tol' = tol" "stepover' = stepover"
    using a per_pass depth tool dir tol stepover by simp_all
  have "wires' = wires" using w wires unfolding o' same by simp
  then have "been p z q"
    unfolding p same cnc_program_def been_code_line
    by (intro disjI1 been_says cut_contours_been [where points = points and inside = inside and grp = grp])
      (use contours_closed [of _ K dir tol wires] contour assms(10,11) in \<open>auto simp: sorted_paths_set\<close>)
  then show ?thesis unfolding been_def at_point_def .
qed

section \<open>The laser\<close>

text \<open>The head keeps its height; it travels with the beam off and cuts with the beam on, at the rate of the cut.\<close>

fun laser_ok :: "real \<Rightarrow> machine_state \<Rightarrow> gline \<Rightarrow> bool" where
  "laser_ok rate s (Rapid_z z) = False"
| "laser_ok rate s (Plunge z f) = False"
| "laser_ok rate s (Rapid_xy q) = (\<not> m_on s)"
| "laser_ok rate s (Cut_to q f) = (m_on s \<and> (case f of None \<Rightarrow> m_feed s = Some rate | Some g \<Rightarrow> g = rate))"
| "laser_ok rate s _ = True"

lemma laser_says [simp]: "says_only (laser_ok rate)"
  by (simp add: says_only_def)

lemma laser_cuts: "cuts_where rate (\<lambda>h o'. o') (laser_ok rate)"
  by (auto simp: cuts_where_def)

lemma laser_contours_kept:
  "kept (laser_ok rate) p \<Longrightarrow> \<not> m_on (state_of p) \<Longrightarrow>
     kept (laser_ok rate) (laser_contours rate beam cs p) \<and> \<not> m_on (state_of (laser_contours rate beam cs p))"
proof (induction cs arbitrary: p)
  case (Cons c cs)
  obtain points inside grp where c: "c = (points, inside, grp)" by (cases c)
  let ?p = "code_line (Spindle beam) (rapid_xy (hd points) p)"
  have "kept (laser_ok rate) ?p" using Cons.prems by simp
  then have "kept (laser_ok rate) (cut_points rate True (tl points) ?p)"
    by (rule cut_points_kept [OF laser_cuts]) simp_all
  then show ?case using Cons.IH by (simp add: c)
qed simp

lemma laser_program_is:
  assumes "laser K repr request obj units = Inr (p, warnings, st)"
  obtains rate kerf beam paths n c where "required request ''feed'' = Inr rate"
    "p = laser_program repr request units kerf (k_top K obj - k_bottom K obj) rate beam paths (new_program units n c)"
    "s_cut_length st = g_cut_length p"
  using assms unfolding laser_def Let_def case_prod_beta and_then_Inr require_that_Inr
  apply (elim exE conjE)
  apply (drule program_for_new)
  apply (elim exE)
  apply (simp only: sum.inject prod.inject)
  apply (elim conjE)
  apply hypsubst
  apply (rule that)
  apply (assumption | rule refl)+
  apply simp_all
  done

text \<open>
  A laser's beam is off whenever the head travels from one contour to the next and on whenever it cuts, every
  cut is at the rate of the job, and the head is never moved up or down.
\<close>

theorem laser_travels_dark:
  assumes run: "laser K repr request obj units = Inr (p, warnings, st)" and rate: "required request ''feed'' = Inr rate"
  shows "holds_along (laser_ok rate) idle (g_lines p)"
proof (rule laser_program_is [OF run])
  fix rate' kerf beam paths n c
  assume "required request ''feed'' = Inr rate'"
    and p: "p = laser_program repr request units kerf (k_top K obj - k_bottom K obj) rate' beam paths (new_program units n c)"
  then have same: "rate' = rate" using rate by simp
  have "kept (laser_ok rate) p"
    unfolding p same laser_program_def by (simp add: laser_contours_kept)
  then show ?thesis by (simp add: kept_def)
qed

section \<open>The drilling machine\<close>

text \<open>
  The tool travels at the safe height, to the centre of a hole; above a hole it is taken to the top of it and
  back; it goes into a hole only from the top of it, at the plunge rate, to a depth of that hole.
\<close>

fun drill_ok :: "real \<Rightarrow> real \<Rightarrow> real option \<Rightarrow> hole list \<Rightarrow> machine_state \<Rightarrow> gline \<Rightarrow> bool" where
  "drill_ok safe plunge_rate peck holes s (Rapid_xy q) = (m_z s = Some safe \<and> q \<in> h_at ` set holes)"
| "drill_ok safe plunge_rate peck holes s (Rapid_z z) =
     (z = safe \<or> (\<exists>h \<in> set holes. m_xy s = Some (h_at h) \<and> z = h_top h))"
| "drill_ok safe plunge_rate peck holes s (Plunge z f) =
     (f = plunge_rate \<and> (\<exists>h \<in> set holes. m_xy s = Some (h_at h) \<and> m_z s = Some (h_top h) \<and> z \<in> set (peck_depths peck h)))"
| "drill_ok safe plunge_rate peck holes s (Cut_to q f) = False"
| "drill_ok safe plunge_rate peck holes s _ = True"

lemma drill_says [simp]: "says_only (drill_ok safe plunge_rate peck holes)"
  by (simp add: says_only_def)

lemma drill_steps_kept:
  "kept (drill_ok safe plunge_rate peck holes) p \<Longrightarrow> h \<in> set holes \<Longrightarrow> m_xy (state_of p) = Some (h_at h) \<Longrightarrow>
   m_z (state_of p) = Some (h_top h) \<Longrightarrow> set zs \<subseteq> set (peck_depths peck h) \<Longrightarrow> (pecking \<or> length zs \<le> 1) \<Longrightarrow>
     kept (drill_ok safe plunge_rate peck holes) (drill_steps plunge_rate h pecking zs p)
     \<and> m_xy (state_of (drill_steps plunge_rate h pecking zs p)) = Some (h_at h)"
proof (induction zs arbitrary: p)
  case (Cons z zs)
  have k: "kept (drill_ok safe plunge_rate peck holes) (plunge z plunge_rate p)" using Cons.prems by auto
  show ?case
  proof (cases pecking)
    case True
    then show ?thesis using Cons.IH [of "rapid_z (h_top h) (plunge z plunge_rate p)"] Cons.prems k by auto
  next
    case False
    then have "zs = []" using Cons.prems(6) by simp
    then show ?thesis using k Cons.prems False by simp
  qed
qed simp

lemma drill_holes_kept:
  "kept (drill_ok safe plunge_rate peck holes) p \<Longrightarrow> m_z (state_of p) = Some safe \<Longrightarrow> set hs \<subseteq> set holes \<Longrightarrow>
     kept (drill_ok safe plunge_rate peck holes) (drill_holes plunge_rate safe peck hs p)"
proof (induction hs arbitrary: p)
  case (Cons h hs)
  let ?p = "rapid_z (h_top h) (rapid_xy (h_at h) p)"
  have "kept (drill_ok safe plunge_rate peck holes) ?p" using Cons.prems by auto
  then have "kept (drill_ok safe plunge_rate peck holes)
      (drill_steps plunge_rate h (length (peck_depths peck h) > 1) (peck_depths peck h) ?p)"
    by (rule drill_steps_kept [THEN conjunct1]) (use Cons.prems(3) in auto)
  then show ?case using Cons.IH Cons.prems by simp
qed simp

lemma drill_steps_been:
  "z \<in> set zs \<Longrightarrow> m_xy (state_of p) = Some q \<Longrightarrow> been (drill_steps plunge_rate h pecking zs p) z q"
proof (induction zs arbitrary: p)
  case (Cons z' zs)
  have keep: "been p z q \<Longrightarrow> been (drill_steps plunge_rate h pecking zs p) z q" for p zs
    by (induction zs arbitrary: p) (auto simp: been_moves)
  show ?case
  proof (cases "z = z'")
    case True
    have "at_point (step_machine (state_of p) (Plunge z plunge_rate)) z q"
      using Cons.prems(2) tolerance_pos by (intro at_pointI [where w = q]) auto
    then have "been (plunge z plunge_rate p) z q" by (simp add: plunge_def)
    then show ?thesis using True keep been_moves(1) by auto
  next
    case False
    then show ?thesis using Cons by auto
  qed
qed simp

lemma drill_holes_been:
  "h \<in> set hs \<Longrightarrow> z \<in> set (peck_depths peck h) \<Longrightarrow> been (drill_holes plunge_rate safe peck hs p) z (h_at h)"
proof (induction hs arbitrary: p)
  case (Cons h' hs)
  have keep: "been p z q \<Longrightarrow> been (drill_steps plunge_rate h pecking zs p) z q" for p zs q h pecking
    by (induction zs arbitrary: p) (auto simp: been_moves)
  have keep': "been p z q \<Longrightarrow> been (drill_holes plunge_rate safe peck hs p) z q" for p hs q
    by (induction hs arbitrary: p) (auto simp: been_moves keep)
  show ?case
  proof (cases "h = h'")
    case True
    then show ?thesis using Cons.prems(2) by (auto intro!: keep' been_moves(1) drill_steps_been)
  next
    case False
    then show ?thesis using Cons by auto
  qed
qed simp

lemma drill_program_is:
  assumes "drilling K repr request obj units = Inr (p, warnings, st)"
  obtains tol tool plunge_rate clearance speed peck n c where
    "py_float (or_default (entry request ''tolerance'') (PFloat (Fin (1 / 100)))) = Inr tol"
    "required request ''plunge'' = Inr plunge_rate" "required request ''safe_z'' = Inr clearance"
    "(if truthy (entry request ''peck'') then map_sum id Some (py_float (entry request ''peck'')) else Inr None) = Inr peck"
    "p = drill_program repr request units tool speed (k_top K obj + clearance) plunge_rate peck (holes_of K obj tol) (new_program units n c)"
    "s_cut_length st = g_cut_length p"
  using assms unfolding drilling_def Let_def and_then_Inr require_that_Inr
  apply (elim exE conjE)
  apply (drule program_for_new)
  apply (elim exE)
  apply (simp only: sum.inject prod.inject)
  apply (elim conjE)
  apply hypsubst
  apply (rule that)
  apply (assumption | rule refl)+
  apply simp_all
  done


section \<open>The length that is reported\<close>

text \<open>The length a route reports is the length of the cutting moves of its program, for each of the machines.\<close>

theorem cut_length_is_travelled:
  assumes "route K repr request obj = Inr (p, warnings, st)"
  shows "s_cut_length st = travelled idle (g_lines p)"
proof -
  obtain obj' where "cnc K repr request obj' (word_of repr request ''units'' ''mm'') = Inr (p, warnings, st)
      \<or> laser K repr request obj' (word_of repr request ''units'' ''mm'') = Inr (p, warnings, st)
      \<or> drilling K repr request obj' (word_of repr request ''units'' ''mm'') = Inr (p, warnings, st)"
    using assms unfolding route_def Let_def and_then_Inr by (metis (no_types))
  then have "measured p \<and> s_cut_length st = g_cut_length p"
    by (elim disjE cnc_program_is laser_program_is drill_program_is)
      (simp_all add: cnc_program_measured laser_program_measured drill_program_measured)
  then show ?thesis by (simp add: measured_def)
qed

section \<open>The plate, cut\<close>

lemma router_runs_safely_witness:
  "\<exists>p warnings st. cnc plate_kernel (\<lambda>_. []) plate_job () ''mm'' = Inr (p, warnings, st)
     \<and> holds_along (router_ok 8 1200 300 True (pass_depths 3 3 2)) idle (g_lines p)"
proof -
  obtain p warnings st where r: "cnc plate_kernel (\<lambda>_. []) plate_job () ''mm'' = Inr (p, warnings, st)" using plate_cnc by blast
  have "holds_along (router_ok (k_top plate_kernel () + 5) 1200 300 (truthy (entry plate_job ''speed''))
      (pass_depths (k_top plate_kernel ()) 3 2)) idle (g_lines p)"
    by (rule router_runs_safely [OF r]) simp_all
  then show ?thesis using r by simp
qed

lemma passes_reach_depth_witness:
  "let zs = pass_depths 3 3 2 in
     zs \<noteq> [] \<and> (\<forall>z \<in> set zs. 3 - 3 \<le> z \<and> z < 3) \<and> 3 - hd zs \<le> 2
     \<and> (\<forall>i. Suc i < length zs \<longrightarrow> 0 < zs ! i - zs ! Suc i \<and> zs ! i - zs ! Suc i \<le> 2)
     \<and> List.last zs \<le> 3 - 3 + 2 / 10 ^ 9"
  by (rule passes_reach_depth) simp_all

lemma whole_outline_cut_witness:
  "\<exists>p warnings st. cnc plate_kernel (\<lambda>_. []) plate_job () ''mm'' = Inr (p, warnings, st)
     \<and> (\<exists>s \<in> set (states idle (g_lines p)). m_z s = Some 0 \<and> (\<exists>w. m_xy s = Some w \<and> distance w (10, 10) \<le> TOLERANCE))"
proof -
  obtain p warnings st where r: "cnc plate_kernel (\<lambda>_. []) plate_job () ''mm'' = Inr (p, warnings, st)" using plate_cnc by blast
  have z: "0 \<in> set (pass_depths 3 3 2)"
    by (simp add: pass_depths_def pass_count_def upt_rec)
  have "\<exists>s \<in> set (states idle (g_lines p)). m_z s = Some 0 \<and> (\<exists>w. m_xy s = Some w \<and> distance w (10, 10) \<le> TOLERANCE)"
    by (rule whole_outline_cut [OF r, where depth = 3 and depth_per_pass = 2 and dir = "''climb''" and tool = 6 and stepover = "1 / 2"
          and tol = "1 / 100" and wires = "[((), False, 1)]" and points = "rev plate_points" and inside = False and grp = 1])
      (use z in \<open>simp_all add: or_default_def of_rat_divide plate_faces plate_wires plate_contours [simplified] plate_points_def\<close>)
  then show ?thesis using r by blast
qed

lemma plate_holes: "holes_of plate_kernel () tol = [\<lparr>h_at = (5, 5), h_diameter = 6, h_top = 3, h_bottom = 0\<rparr>]"
proof -
  have g: "length (filter (\<lambda>s. along_radius plate_hole s < 0) (grid_samples plate_hole)) = 9"
    "length (filter (\<lambda>s. \<not> along_radius plate_hole s < 0) (grid_samples plate_hole)) = 0"
    by (simp_all add: grid_samples_def plate_hole_def along_radius_def upt_rec)
  then have "encloses_material plate_hole" by (simp only: encloses_material_def)
  then show ?thesis
    by (simp add: holes_of_def hole_faces_def plate_kernel_def List.map_filter_def add_hole_def)
      (simp add: plate_hole_def)
qed

lemma plate_drilling: "\<exists>p warnings st. drilling plate_kernel (\<lambda>_. []) plate_job () ''mm'' = Inr (p, warnings, st)"
  by (simp add: drilling_def Let_def case_prod_beta plate_holes or_default_def program_for_def spindle_speed_def require_that_def of_rat_divide)


lemma plate_laser: "\<exists>p warnings st. laser plate_kernel (\<lambda>_. []) plate_job () ''mm'' = Inr (p, warnings, st)"
proof -
  have f: "fst (laser_faces plate_kernel ()) = [()]" by (simp add: laser_faces_def plate_kernel_def TOLERANCE_def Let_def)
  have w: "profile_paths plate_kernel [()] r t = Inr [((), False, 1)]" if "t < 40" for r t
    using plate_wires [OF that] by (simp add: cnc_wires_def)
  have e: "entry plate_job ''kerf'' = PNone" "entry plate_job ''power'' = PNone" by (simp_all add: plate_job_def)
  show ?thesis
    by (simp add: laser_def Let_def case_prod_beta f w e plate_contours or_default_def program_for_def spindle_speed_def
        require_that_def of_rat_divide del: profile_paths.simps One_nat_def)
qed

lemma laser_travels_dark_witness:
  "\<exists>p warnings st. laser plate_kernel (\<lambda>_. []) plate_job () ''mm'' = Inr (p, warnings, st) \<and> holds_along (laser_ok 1200) idle (g_lines p)"
proof -
  obtain p warnings st where r: "laser plate_kernel (\<lambda>_. []) plate_job () ''mm'' = Inr (p, warnings, st)" using plate_laser by blast
  have "holds_along (laser_ok 1200) idle (g_lines p)" by (rule laser_travels_dark [OF r]) simp
  then show ?thesis using r by blast
qed

lemma cut_length_is_travelled_witness:
  "\<exists>p warnings st. route plate_kernel (\<lambda>_. []) plate_job () = Inr (p, warnings, st) \<and> s_cut_length st = travelled idle (g_lines p)"
proof -
  obtain p warnings st where r: "cnc plate_kernel (\<lambda>_. []) plate_job () ''mm'' = Inr (p, warnings, st)" using plate_cnc by blast
  have "word_of (\<lambda>_. []) plate_job ''units'' ''mm'' = ''mm''" "word_of (\<lambda>_. []) plate_job ''machine'' ''cnc'' = ''cnc''"
    by (simp_all add: word_of_def or_default_def lower_def lower_char_def code_def)
  then have "route plate_kernel (\<lambda>_. []) plate_job () = Inr (p, warnings, st)"
    by (simp add: route_def Let_def require_that_def orient_def r)
  with cut_length_is_travelled [OF this] show ?thesis by blast
qed

section \<open>A counterbore\<close>

text \<open>
  Two holes on one axis, a narrow one below a wide one, are drilled in the order the kernel lists their faces.
  With the narrow one first, the tool is taken at rapid to the top of it before anything has been drilled
  above, through the material of the wide one.
\<close>

definition bore_kernel :: "(unit, bool, unit) kernel" where
  "bore_kernel = \<lparr>k_top = (\<lambda>_. 10), k_bottom = (\<lambda>_. 0), k_section = (\<lambda>_ _. []), k_faces = (\<lambda>_. [False, True]), k_area = (\<lambda>_. 1),
     k_inner = (\<lambda>_. []), k_outer = (\<lambda>_. ()), k_extent = (\<lambda>_. (10, 10)), k_offset = (\<lambda>w _. Some w), k_length = (\<lambda>_. Some 40),
     k_edges = (\<lambda>_. []),
     k_cylinder = (\<lambda>wide. Some (if wide then plate_hole\<lparr>c_radius := 6, c_top := 10, c_bottom := 5\<rparr> else plate_hole\<lparr>c_top := 5\<rparr>)),
     k_rotate = (\<lambda>_ o'. o')\<rparr>"

lemma bore_holes: "holes_of bore_kernel () (1 / 100) =
    [\<lparr>h_at = (5, 5), h_diameter = 6, h_top = 5, h_bottom = 0\<rparr>, \<lparr>h_at = (5, 5), h_diameter = 12, h_top = 10, h_bottom = 5\<rparr>]"
proof -
  have g: "grid_samples (plate_hole\<lparr>c_radius := 6, c_top := 10, c_bottom := 5\<rparr>) = replicate 9 ((1, 0), (8, 5))"
    "grid_samples (plate_hole\<lparr>c_top := 5\<rparr>) = replicate 9 ((1, 0), (8, 5))"
    by (simp_all add: grid_samples_def plate_hole_def upt_rec numeral_eq_Suc)
  have "encloses_material (plate_hole\<lparr>c_radius := 6, c_top := 10, c_bottom := 5\<rparr>)" "encloses_material (plate_hole\<lparr>c_top := 5\<rparr>)"
    by (simp_all add: encloses_material_def g along_radius_def) (simp_all add: plate_hole_def)
  then show ?thesis
    by (simp add: holes_of_def hole_faces_def bore_kernel_def List.map_filter_def add_hole_def)
      (simp add: plate_hole_def hole_key_def round_half_even_def Let_def)
qed

lemma counterbore_entered_at_rapid:
  "\<exists>p warnings st ls rest. drilling bore_kernel (\<lambda>_. []) plate_job () ''mm'' = Inr (p, warnings, st)
     \<and> g_lines p = ls @ Rapid_xy (5, 5) # Rapid_z 5 # rest \<and> (\<forall>z f. Plunge z f \<notin> set ls)
     \<and> (\<exists>h \<in> set (holes_of bore_kernel () (1 / 100)). h_at h = (5, 5) \<and> h_top h = 10 \<and> h_bottom h = 5)"
proof -
  have "\<exists>p warnings st ls rest. drilling bore_kernel (\<lambda>_. []) plate_job () ''mm'' = Inr (p, warnings, st)
     \<and> g_lines p = ls @ Rapid_xy (5, 5) # Rapid_z 5 # rest \<and> (\<forall>z f. Plunge z f \<notin> set ls)"
  proof -
    have "\<exists>p warnings st n c. drilling bore_kernel (\<lambda>_. []) plate_job () ''mm'' = Inr (p, warnings, st)
        \<and> p = drill_program (\<lambda>_. []) plate_job ''mm'' 6 (Some 18000) (k_top bore_kernel () + 5) 300 None (holes_of bore_kernel () (1 / 100))
          (new_program ''mm'' n c)"
      by (simp add: drilling_def Let_def bore_holes or_default_def program_for_def spindle_speed_def require_that_def of_rat_divide
          truncated_def) blast
    moreover have "\<exists>ls rest. g_lines (drill_program (\<lambda>_. []) plate_job ''mm'' 6 (Some 18000) s 300 None (holes_of bore_kernel () (1 / 100))
        (new_program ''mm'' n c)) = ls @ Rapid_xy (5, 5) # Rapid_z 5 # rest \<and> (\<forall>z f. Plunge z f \<notin> set ls)" for s n c
    proof -
      define q where "q = rapid_z s (spindle_on (Some 18000) (preamble ''mm'' (units_comment ''mm''
         (comment (''machine: drill, '' @ show_nat (length (holes_of bore_kernel () (1 / 100))) @ '' holes, drill '' @ number (new_program ''mm'' n c) 6)
           (object_comment (\<lambda>_. []) plate_job (comment ''PartCAD route'' (new_program ''mm'' n c)))))))"
      have "\<forall>z f. Plunge z f \<notin> set (g_lines q)"
        by (simp add: q_def rapid_z_def code_line_def spindle_on_def preamble_def units_comment_def comment_def object_comment_def
            new_program_def Let_def)
      moreover have "drill_program (\<lambda>_. []) plate_job ''mm'' 6 (Some 18000) s 300 None (holes_of bore_kernel () (1 / 100)) (new_program ''mm'' n c)
          = code_line (Word ''M30'') (spindle_off (Some 18000) (drill_holes 300 s None (holes_of bore_kernel () (1 / 100)) q))"
        unfolding drill_program_def q_def ..
      moreover have "\<exists>rest. g_lines (code_line (Word ''M30'') (spindle_off (Some 18000)
          (drill_holes 300 s None (holes_of bore_kernel () (1 / 100)) q'))) = g_lines q' @ Rapid_xy (5, 5) # Rapid_z 5 # rest" for q'
        by (simp add: bore_holes peck_depths_def spindle_off_def rapid_z_def rapid_xy_def plunge_def code_line_def)
      ultimately show ?thesis by metis
    qed
    ultimately show ?thesis by blast
  qed
  then show ?thesis by (simp add: bore_holes)
qed

end
