(* ===== verification/GcodeOutput.thy ===== *)
theory GcodeOutput
  imports Gcode Manufacturing "HOL-Library.Multiset"
begin

text \<open>
  What \<open>Gcode\<close> writes: the order and the direction of the contours, the rings of a pocket, the numbers of the
  text, and the object turned into the frame of the machine.
\<close>

section \<open>The order of the contours\<close>

lemma key_less_irrefl: "\<not> key_less k k"
  by (cases k) auto

lemma key_less_trans: "key_less a b \<Longrightarrow> key_less b c \<Longrightarrow> key_less a c"
  by (cases a; cases b; cases c) auto

lemma key_less_total: "key_less a b \<or> a = b \<or> key_less b a"
  by (cases a; cases b) auto

lemma insert_path_mset: "mset (insert_path c ds) = add_mset c (mset ds)"
  by (induction ds) auto

lemma sorted_paths_mset: "mset (sorted_paths cs) = mset cs"
  by (induction cs) (auto simp: sorted_paths_def insert_path_mset)

definition in_order :: "contour \<Rightarrow> contour \<Rightarrow> bool" where
  "in_order a b \<longleftrightarrow> \<not> key_less (path_key b) (path_key a)"

lemma insert_path_elems: "set (insert_path c ds) = insert c (set ds)"
  by (induction ds) auto

lemma in_order_trans: "in_order a b \<Longrightarrow> in_order b c \<Longrightarrow> in_order a c"
  unfolding in_order_def by (metis key_less_total key_less_trans)

lemma insert_path_sorted: "sorted_wrt in_order ds \<Longrightarrow> sorted_wrt in_order (insert_path c ds)"
proof (induction ds)
  case (Cons d ds)
  show ?case
  proof (cases "key_less (path_key d) (path_key c)")
    case True
    then have "in_order d c" unfolding in_order_def using key_less_irrefl key_less_trans by blast
    then show ?thesis using True Cons by (auto simp: insert_path_elems)
  next
    case False
    then have "in_order c d" by (simp add: in_order_def)
    then show ?thesis using False Cons.prems by (auto intro: in_order_trans)
  qed
qed simp

lemma sorted_paths_sorted: "sorted_wrt in_order (sorted_paths cs)"
  by (induction cs) (auto simp: sorted_paths_def insert_path_sorted)

lemma in_order_unique:
  "sorted_wrt in_order as \<Longrightarrow> sorted_wrt in_order bs \<Longrightarrow> mset as = mset bs \<Longrightarrow> distinct (map path_key as) \<Longrightarrow> as = bs"
proof (induction as arbitrary: bs)
  case (Cons a as)
  obtain b bs' where bs: "bs = b # bs'" using Cons.prems(3) by (cases bs) auto
  have "b = a"
  proof (rule ccontr)
    assume "b \<noteq> a"
    have "set_mset (mset (a # as)) = set_mset (mset (b # bs'))" using Cons.prems(3) bs by (simp only:)
    then have same: "set (a # as) = set (b # bs')" by simp
    then have m: "b \<in> set as" "a \<in> set bs'" using \<open>b \<noteq> a\<close> by auto
    then have "in_order a b" "in_order b a" using Cons.prems(1,2) bs by auto
    then have "path_key a = path_key b" unfolding in_order_def using key_less_total by blast
    then show False using Cons.prems(4) m(1) by auto
  qed
  then show ?case using Cons bs by simp
qed simp

text \<open>C33: 
  The program does not depend on the order the kernel lists the contours in, where no two of them have one key;
  and in any case a contour of an earlier kind, such as a hole, is cut before one of a later kind.
\<close>

theorem order_is_of_the_object:
  "(mset paths = mset paths' \<and> distinct (map path_key paths) \<longrightarrow>
      cnc_program repr request units oper dir tool depth zs speed safe rate plunge_rate paths p
      = cnc_program repr request units oper dir tool depth zs speed safe rate plunge_rate paths' p)
   \<and> mset (sorted_paths paths) = mset paths \<and> sorted (map (snd \<circ> snd) (sorted_paths paths))"
proof (intro conjI impI)
  assume "mset paths = mset paths' \<and> distinct (map path_key paths)"
  moreover have "distinct (map path_key (sorted_paths paths)) = distinct (map path_key paths)"
    by (rule mset_eq_imp_distinct_iff) (simp add: sorted_paths_mset)
  ultimately have "sorted_paths paths = sorted_paths paths'"
    by (intro in_order_unique sorted_paths_sorted) (simp_all add: sorted_paths_mset)
  then show "cnc_program repr request units oper dir tool depth zs speed safe rate plunge_rate paths p
      = cnc_program repr request units oper dir tool depth zs speed safe rate plunge_rate paths' p"
    by (simp add: cnc_program_def)
next
  have "snd (snd a) \<le> snd (snd b)" if "in_order a b" for a b
    using that by (cases a; cases b) (auto simp: in_order_def path_key_def)
  then show "sorted (map (snd \<circ> snd) (sorted_paths paths))"
    using sorted_paths_sorted [of paths] unfolding sorted_map by (auto elim: sorted_wrt_mono_rel [rotated])
qed (rule sorted_paths_mset)

section \<open>The direction of a contour\<close>

definition cross :: "point \<Rightarrow> point \<Rightarrow> real" where
  "cross a b = fst a * snd b - fst b * snd a"

lemma signed_area_snoc: "ps \<noteq> [] \<Longrightarrow> signed_area (ps @ [q]) = signed_area ps + cross (List.last ps) q"
  by (induction ps rule: signed_area.induct) (auto simp: cross_def)

lemma signed_area_rev: "signed_area (rev ps) = - signed_area ps"
proof (induction ps rule: signed_area.induct)
  case (1 a b ps)
  have "signed_area (rev (a # b # ps)) = signed_area (rev (b # ps)) + cross b a"
    using signed_area_snoc [of "rev (b # ps)" a] by simp
  then show ?case using 1 by (simp add: cross_def)
qed simp_all

text \<open>
  A contour is cut with the material on the side the job asks for: climbing runs clockwise around the outside of
  the part and anticlockwise inside a hole, and the conventional cut the other way round.
\<close>

theorem contours_wind_as_asked:
  assumes "(points, inside, grp) \<in> set (contours_of K dir tol wires)" and "signed_area points \<noteq> 0"
  shows "signed_area points < 0 \<longleftrightarrow> (dir = ''climb'') \<noteq> inside"
proof -
  obtain wire where "points = oriented (wire_points K wire tol) ((dir = ''climb'') \<noteq> inside)"
    using assms(1) by (auto simp: contours_of_def Let_def split: if_splits)
  then show ?thesis using assms(2) by (auto simp: oriented_def signed_area_rev split: if_splits)
qed

section \<open>The rings of a pocket\<close>

lemma pocket_rings_nth:
  "length (pocket_rings K outer tol advance amount n) \<le> n
   \<and> (\<forall>i < length (pocket_rings K outer tol advance amount n).
        offset K outer (- (amount + real i * advance)) tol = Some (pocket_rings K outer tol advance amount n ! i))"
proof (induction n arbitrary: amount)
  case (Suc n)
  show ?case
  proof (cases "offset K outer (- amount) tol")
    case (Some w)
    have "offset K outer (- (amount + real i * advance)) tol = Some ((w # pocket_rings K outer tol advance (amount + advance) n) ! i)"
      if "i < Suc (length (pocket_rings K outer tol advance (amount + advance) n))" for i
      using Suc [of "amount + advance"] that Some by (cases i) (auto simp: algebra_simps)
    then show ?thesis using Some Suc [of "amount + advance"] by simp
  qed simp
qed simp

text \<open>
  A pocket is cleared from the inside out: the rings are each one step further out than the one before, no
  more of them than the bound, and the last that is cut is the one against the wall.
\<close>

theorem pocket_wall_last:
  assumes "pocket_paths K [face] radius stepover tol = Inr paths"
  shows "paths \<noteq> [] \<and> length paths \<le> ring_limit (k_extent K face) (max stepover tol)
     \<and> (\<forall>i < length paths. \<exists>w. paths ! i = (w, True, i)
          \<and> offset K (k_outer K face) (- (radius + real (length paths - 1 - i) * max stepover tol)) tol = Some w)"
proof -
  let ?rings = "pocket_rings K (k_outer K face) tol (max stepover tol) radius (ring_limit (k_extent K face) (max stepover tol))"
  have p: "?rings \<noteq> []" "paths = map (\<lambda>(index, ring). (ring, True, index)) (enumerate 0 (rev ?rings))"
    using assms by (auto simp: Let_def split: if_splits)
  note r = pocket_rings_nth [of K "k_outer K face" tol "max stepover tol" radius "ring_limit (k_extent K face) (max stepover tol)"]
  have len: "length paths = length ?rings" by (simp add: p(2))
  have "paths ! i = (?rings ! (length ?rings - 1 - i), True, i)" if "i < length paths" for i
    using that by (simp add: p(2) nth_enumerate_eq rev_nth)
  moreover have "paths \<noteq> []" using p(1) len by auto
  moreover have "\<exists>w. (?rings ! (length ?rings - 1 - i), True, i) = (w, True, i)
      \<and> offset K (k_outer K face) (- (radius + real (length ?rings - 1 - i) * max stepover tol)) tol = Some w"
    if "i < length ?rings" for i
  proof -
    have "length ?rings - 1 - i < length ?rings" using that by linarith
    then show ?thesis using r by simp
  qed
  ultimately show ?thesis using r len by simp
qed

section \<open>The numbers of the text\<close>

lemma round_half_even_error: "\<bar>of_int (round_half_even x) - x\<bar> \<le> 1 / 2"
  unfolding round_half_even_def Let_def using of_int_floor_le [of x] by (auto simp: abs_if) linarith+

lemma round_half_even_int [simp]: "round_half_even (of_int n) = n"
  by (simp add: round_half_even_def)

lemma rounded_nat: "rounded (int p) x = of_int (round_half_even (x * 10 ^ p)) / 10 ^ p"
  by (simp add: rounded_def)

lemma rounded_error: "\<bar>rounded (int p) x - x\<bar> \<le> 1 / (2 * 10 ^ p)"
proof -
  have "\<bar>of_int (round_half_even (x * 10 ^ p)) - x * 10 ^ p\<bar> / 10 ^ p \<le> (1 / 2) / 10 ^ p"
    by (intro divide_right_mono round_half_even_error) simp
  moreover have "rounded (int p) x - x = (of_int (round_half_even (x * 10 ^ p)) - x * 10 ^ p) / 10 ^ p"
    by (simp add: rounded_nat diff_divide_distrib)
  ultimately show ?thesis by (simp add: abs_divide)
qed

lemma digits_value: "list_all is_digit t \<Longrightarrow> nat_of_digits (s @ t) = nat_of_digits s * 10 ^ length t + nat_of_digits t"
proof (induction t rule: rev_induct)
  case (snoc c t)
  then show ?case by (simp add: nat_of_digits_snoc [of "s @ t" c, simplified append_assoc])
qed (simp add: nat_of_digits_def)

lemma zeros_value: "list_all is_digit s \<Longrightarrow> nat_of_digits (replicate k (CHR ''0'') @ s) = nat_of_digits s"
proof -
  have "nat_of_digits (replicate k (CHR ''0'')) = 0"
    by (induction k) (simp_all add: nat_of_digits_def code_def replicate_append_same [symmetric])
  then show "list_all is_digit s \<Longrightarrow> ?thesis" by (simp add: digits_value)
qed

lemma show_nat_short: "0 < p \<Longrightarrow> n < 10 ^ p \<Longrightarrow> length (show_nat n) \<le> p"
proof (induction p arbitrary: n)
  case (Suc p)
  show ?case
  proof (cases "n < 10")
    case False
    then have "n div 10 < 10 ^ p" using Suc.prems(2) by (simp add: less_mult_imp_div_less)
    moreover have "0 < p" using False Suc.prems(2) by (cases p) auto
    ultimately show ?thesis using Suc.IH False by (subst show_nat.simps) simp
  qed (subst show_nat.simps, simp)
qed simp

lemma show_nat_all_digits: "list_all is_digit (show_nat n)"
  using show_nat_digits by (simp add: list_all_iff)

lemma zero_digits: "list_all is_digit (replicate k (CHR ''0''))"
  by (simp add: list_all_iff is_digit_def code_def)

lemma signed_digit: "is_digit c \<Longrightarrow> signed (c # s) = (False, c # s)"
proof -
  assume d: "is_digit c"
  have "code c = 48 \<or> code c = 49 \<or> code c = 50 \<or> code c = 51 \<or> code c = 52 \<or> code c = 53 \<or> code c = 54 \<or> code c = 55
      \<or> code c = 56 \<or> code c = 57"
    using d unfolding is_digit_def by presburger
  moreover have "c = char_of (code c)" by (simp add: code_def)
  ultimately have "c \<in> set ''0123456789''" by (elim disjE) (simp_all add: char_of_def bit_Suc_0_iff)
  then show "signed (c # s) = (False, c # s)" by (auto simp: signed_def)
qed

lemma padded_facts:
  assumes "0 < p" and "n < 10 ^ p"
  shows "list_all is_digit (padded p (show_nat n))" and "length (padded p (show_nat n)) = p"
    and "nat_of_digits (padded p (show_nat n)) = n"
  using show_nat_short [OF assms] by (simp_all add: padded_def show_nat_all_digits zeros_value zero_digits)

lemma takeWhile_digits: "list_all is_digit s \<Longrightarrow> takeWhile is_digit (s @ ''.'' @ t) = s \<and> dropWhile is_digit (s @ ''.'' @ t) = ''.'' @ t"
  by (induction s) (auto simp: is_digit_def code_def)

lemma number_of_unsigned:
  assumes "signed s = (False, s)" "takeWhile is_digit s = w" "dropWhile is_digit s = CHR ''.'' # t" "w \<noteq> []" "list_all is_digit t"
  shows "number_of s = Some (scale10 (- int (length t)) (rat_of_nat (nat_of_digits (w @ t))))"
proof -
  have "takeWhile is_digit t = t" "dropWhile is_digit t = []"
    using assms(5) by (simp_all add: takeWhile_eq_all_conv dropWhile_eq_Nil_conv list_all_iff)
  then show ?thesis
    using assms(4) by (simp add: number_of_def assms(1-3) exponent_of_def Let_def del: dropWhile_eq_Nil_conv takeWhile_eq_all_conv)
qed

lemma number_of_decimal:
  assumes "0 < p" and "b < 10 ^ p"
  shows "number_of (show_nat a @ ''.'' @ padded p (show_nat b)) = Some (rat_of_nat (a * 10 ^ p + b) / 10 ^ p)"
proof -
  note pd = padded_facts [OF assms]
  let ?s = "show_nat a @ ''.'' @ padded p (show_nat b)"
  obtain c cs where c: "show_nat a = c # cs" by (cases "show_nat a") auto
  have "is_digit c" using show_nat_all_digits [of a] c by simp
  then have sg: "signed ?s = (False, ?s)" by (simp add: c signed_digit)
  note tw = takeWhile_digits [OF show_nat_all_digits [of a], of "padded p (show_nat b)"]
  have v: "nat_of_digits (show_nat a @ padded p (show_nat b)) = a * 10 ^ p + b"
    by (simp add: digits_value pd)
  have "number_of ?s = Some (scale10 (- int (length (padded p (show_nat b)))) (rat_of_nat (nat_of_digits (show_nat a @ padded p (show_nat b)))))"
    by (rule number_of_unsigned [OF sg]) (use tw pd(1) in simp_all)
  then show ?thesis by (simp add: v pd(2) scale10_def assms(1))
qed

lemma scale10_minus: "scale10 e (- q) = - scale10 e q"
  by (simp add: scale10_def)

lemma number_of_negative:
  assumes "signed s = (False, s)"
  shows "number_of (CHR ''-'' # s) = map_option uminus (number_of s)"
proof -
  have "signed (CHR ''-'' # s) = (True, s)" by (simp add: signed_def)
  then show ?thesis
    by (simp add: number_of_def assms Let_def scale10_minus option.map_comp o_def)
qed

text \<open>C31: 
  A length of the text reads back as the length rounded to the digits of the file, so it is off by no more than
  half of its last digit, in the units of the file.
\<close>

theorem number_reads_back:
  assumes "g_precision prog = int p" and "0 < p"
  shows "\<exists>q. number_of (number prog x) = Some q \<and> of_rat q = rounded (int p) (x * g_scale prog)
     \<and> \<bar>of_rat q - x * g_scale prog\<bar> \<le> 1 / (2 * 10 ^ p)"
proof -
  define m where "m = round_half_even (x * g_scale prog * 10 ^ p)"
  define y where "y = rounded (int p) (x * g_scale prog)"
  define a b where "a = nat \<bar>m\<bar> div 10 ^ p" and "b = nat \<bar>m\<bar> mod 10 ^ p"
  let ?s = "show_nat a @ ''.'' @ padded p (show_nat b)"
  have y: "y = of_int m / 10 ^ p" by (simp add: y_def m_def rounded_nat)
  have b: "b < 10 ^ p" by (simp add: b_def)
  have ab: "a * 10 ^ p + b = nat \<bar>m\<bar>" unfolding a_def b_def by (rule div_mult_mod_eq)
  have t: "number prog x = (if m < 0 then ''-'' else []) @ ?s"
  proof -
    have "round_half_even (y * 10 ^ p) = m" by (simp add: y)
    moreover have "y < 0 \<longleftrightarrow> m < 0" by (simp add: y divide_less_0_iff)
    ultimately show ?thesis using assms by (simp add: number_def fixed_def Let_def y_def [symmetric] a_def b_def)
  qed
  have s: "number_of ?s = Some (rat_of_nat (nat \<bar>m\<bar>) / 10 ^ p)" using number_of_decimal [OF assms(2) b, of a] ab by simp
  have sg: "signed ?s = (False, ?s)"
    using show_nat_all_digits [of a] by (cases "show_nat a") (simp_all add: signed_digit)
  have n: "number_of (number prog x) = Some (rat_of_int m / 10 ^ p)"
    using s number_of_negative [OF sg] by (cases "m < 0") (simp_all add: t)
  moreover have "of_rat (rat_of_int m / 10 ^ p) = y"
    by (simp add: y of_rat_divide of_rat_power)
  ultimately show ?thesis using rounded_error [of p "x * g_scale prog"] unfolding y_def by auto
qed

lemma number_reads_back_witness:
  "\<exists>q. number_of (number (new_program ''mm'' 3 True) (2 / 3)) = Some q
     \<and> of_rat q = rounded (int 3) (2 / 3 * g_scale (new_program ''mm'' 3 True))
     \<and> \<bar>of_rat q - 2 / 3 * g_scale (new_program ''mm'' 3 True)\<bar> \<le> 1 / (2 * 10 ^ 3)"
  by (rule number_reads_back) (simp_all add: new_program_def)

text \<open>Inside a comment there is nothing that would end it.\<close>

lemma brackets_no_parentheses: "set (brackets t) \<inter> {CHR ''('', CHR '')''} = {}"
  by (auto simp: brackets_def split: if_splits)

text \<open>A precision of zero, which is false, is read as three.\<close>

lemma precision_zero_is_three:
  "program_for [(''precision'', PInt 0)] units = Inr (new_program units 3 True)"
  by (simp add: program_for_def or_default_def truncated_def)

section \<open>The object in the frame of the machine\<close>

text \<open>
  Turning by degrees about the first, the second and the third axis. Where two of the angles are zero, as they
  are here, the order of the three does not matter.
\<close>

definition about_x :: "real \<Rightarrow> real \<times> real \<times> real \<Rightarrow> real \<times> real \<times> real" where
  "about_x d v = (case v of (x, y, z) \<Rightarrow>
     (x, cos (pi * d / 180) * y - sin (pi * d / 180) * z, sin (pi * d / 180) * y + cos (pi * d / 180) * z))"

definition about_y :: "real \<Rightarrow> real \<times> real \<times> real \<Rightarrow> real \<times> real \<times> real" where
  "about_y d v = (case v of (x, y, z) \<Rightarrow>
     (cos (pi * d / 180) * x + sin (pi * d / 180) * z, y, cos (pi * d / 180) * z - sin (pi * d / 180) * x))"

definition about_z :: "real \<Rightarrow> real \<times> real \<times> real \<Rightarrow> real \<times> real \<times> real" where
  "about_z d v = (case v of (x, y, z) \<Rightarrow>
     (cos (pi * d / 180) * x - sin (pi * d / 180) * y, sin (pi * d / 180) * x + cos (pi * d / 180) * y, z))"

definition turned :: "(real \<times> real \<times> real) option \<Rightarrow> real \<times> real \<times> real \<Rightarrow> real \<times> real \<times> real" where
  "turned t v = (case t of None \<Rightarrow> v | Some (a, b, c) \<Rightarrow> about_x a (about_y b (about_z c v)))"

lemma quarter_turns [simp]:
  "cos (pi * 90 / 180) = 0" "sin (pi * 90 / 180) = 1" "cos (pi * 180 / 180) = - 1" "sin (pi * 180 / 180) = 0"
  "cos (pi * - 90 / 180) = 0" "sin (pi * - 90 / 180) = - 1"
proof -
  have "pi * 90 / 180 = pi / 2" "pi * - 90 / 180 = - (pi / 2)" by simp_all
  then show "cos (pi * 90 / 180) = 0" "sin (pi * 90 / 180) = 1" "cos (pi * - 90 / 180) = 0" "sin (pi * - 90 / 180) = - 1"
    by (simp_all only: cos_pi_half sin_pi_half cos_minus sin_minus)
qed simp_all

text \<open>
  Every tool axis a part can name is turned onto the axis of the machine, pointing down.
\<close>

theorem tool_axis_points_down:
  "list_all (\<lambda>(name, axis).
     case and_then (axis_vector (PList (map PInt axis))) turn_for of
       Inl _ \<Rightarrow> False
     | Inr t \<Rightarrow> turned t (case axis of [x, y, z] \<Rightarrow> (real_of_int x, real_of_int y, real_of_int z)) = (0, 0, - 1)) AXES"
  by (simp add: AXES_def axis_vector_def turn_for_def Let_def TOLERANCE_def turned_def about_x_def about_y_def about_z_def)

section \<open>On the plate\<close>

lemma order_is_of_the_object_witness:
  "cnc_program (\<lambda>_. []) plate_job ''mm'' ''profile'' ''climb'' 6 3 [1, 0] None 8 1200 300
       [(plate_points, False, 1), (plate_points, True, 0)] (new_program ''mm'' 3 True)
   = cnc_program (\<lambda>_. []) plate_job ''mm'' ''profile'' ''climb'' 6 3 [1, 0] None 8 1200 300
       [(plate_points, True, 0), (plate_points, False, 1)] (new_program ''mm'' 3 True)"
  by (rule order_is_of_the_object [THEN conjunct1, rule_format]) (simp add: path_key_def add_mset_commute)

lemma contours_wind_as_asked_witness:
  "signed_area (rev plate_points) < 0 \<longleftrightarrow> (''climb'' = ''climb'') \<noteq> False"
  by (rule contours_wind_as_asked [of _ _ 1 plate_kernel "''climb''" "1 / 100" "[((), False, 1)]"])
    (simp add: plate_contours [simplified], simp add: plate_points_def)

lemma pocket_wall_last_witness:
  "\<exists>paths. pocket_paths plate_kernel [()] 3 3 (1 / 100) = Inr paths \<and> paths \<noteq> []
     \<and> (\<exists>w. paths ! (length paths - 1) = (w, True, length paths - 1)
          \<and> offset plate_kernel (k_outer plate_kernel ()) (- (3 + real (length paths - 1 - (length paths - 1)) * max 3 (1 / 100))) (1 / 100) = Some w)"
proof -
  have "ring_limit (10, 10) 3 = 17" by (simp add: ring_limit_def POCKET_RING_LIMIT_def truncated_def)
  moreover have "pocket_rings plate_kernel w t a r n \<noteq> []" if "t < 40" "n \<noteq> 0" for w t a r n
    using that by (cases n) (simp_all add: offset_def plate_kernel_def)
  moreover have "k_inner plate_kernel () = []" "k_extent plate_kernel () = (10, 10)" by (simp_all add: plate_kernel_def)
  ultimately have "\<exists>paths. pocket_paths plate_kernel [()] 3 3 (1 / 100) = Inr paths" by (simp add: Let_def)
  then obtain paths where p: "pocket_paths plate_kernel [()] 3 3 (1 / 100) = Inr paths" by blast
  note w = pocket_wall_last [OF p]
  then have "length paths - 1 < length paths" by (cases paths) auto
  then show ?thesis using p w by blast
qed

end
