(* ===== verification/PackageConfig.thy ===== *)
theory PackageConfig
  imports Tags SandboxVersions References
begin

text \<open>
  \<open>src/src/partcad/project_config.py\<close>: what a package is told by its configuration, once it is
  parsed. The name it goes by, what it inherits, the obsolete spelling of its dependencies, the
  versions of PartCAD, Python and Node.js it asks for.

  \<open>supports\<close> is the question \<open>version in SpecifierSet(requirement)\<close> of the package
  \<open>packaging\<close>, asked about the running PartCAD. A dictionary is an association list; the
  configuration is changed in place by the code and is a component of the result here.
\<close>

definition ROOT :: string where
  "ROOT = ''//''"

abbreviation item :: "pydict \<Rightarrow> string \<Rightarrow> pyval" where
  "item d k \<equiv> get_or d k PNone"

record package_config =
  called :: pyval
  config_dir :: string
  config_obj :: pydict
  broken :: bool
  declares :: pyval
  python_version :: string
  python_version_declared :: "string option"
  docker_image_declared :: "string option"
  javascript_version :: "string option"
  chili3d_version :: "string option"
  makes_products :: bool

section \<open>Dependencies under their old name\<close>

definition DEPENDENCY_TRANSPORTS :: "string list" where
  "DEPENDENCY_TRANSPORTS = [''git'', ''tar'', ''local'', ''external'']"

definition DEPENDENCY_ONLY_KEYS :: "string list" where
  "DEPENDENCY_ONLY_KEYS =
     [''url'', ''relPath'', ''revision'', ''subfolder'', ''onlyInRoot'', ''cacheVersion'',
      ''includePaths'', ''plugin'']"

text \<open>\<open>entry.get("type") in DEPENDENCY_TRANSPORTS\<close>: a list or a dictionary has no hash.\<close>

fun is_transport :: "pyval \<Rightarrow> exn + bool" where
  "is_transport (PStr s) = Inr (s \<in> set DEPENDENCY_TRANSPORTS)"
| "is_transport (PList _) = Inl TypeError"
| "is_transport (PDict _) = Inl TypeError"
| "is_transport _ = Inr False"

definition is_dependency :: "pydict \<Rightarrow> exn + bool" where
  "is_dependency entry =
     and_then (is_transport (item entry ''type''))
       (\<lambda>transport. Inr (transport \<or> (\<exists>k \<in> set DEPENDENCY_ONLY_KEYS. dict_has entry k)))"

fun obsolete_entries :: "pydict \<Rightarrow> exn + string list" where
  "obsolete_entries [] = Inr []"
| "obsolete_entries ((entry_name, PDict entry) # others) =
     and_then (is_dependency entry) (\<lambda>dependency.
     and_then (obsolete_entries others) (\<lambda>names.
       Inr (if dependency then entry_name # names else names)))"
| "obsolete_entries (_ # others) = obsolete_entries others"

fun obsolete_import_entries :: "pyval \<Rightarrow> exn + string list" where
  "obsolete_import_entries (PDict entries) = obsolete_entries entries"
| "obsolete_import_entries _ = Inr []"

text \<open>The entries deleted from the section, and the section from the configuration when it is empty.\<close>

definition drop_obsolete :: "string list \<Rightarrow> pydict \<Rightarrow> pydict" where
  "drop_obsolete obsolete obj =
     (case map_of obj ''import'' of
        Some (PDict entries) \<Rightarrow>
          if obsolete = [] then obj
          else
            let kept = dict_restrict (\<lambda>k. k \<notin> set obsolete) entries in
            if kept = [] then AList.delete ''import'' obj
            else AList.update ''import'' (PDict kept) obj
      | _ \<Rightarrow> obj)"

section \<open>The constructor\<close>

fun inherit_config :: "pydict \<Rightarrow> pydict \<Rightarrow> pydict" where
  "inherit_config obj [] = obj"
| "inherit_config obj ((k, v) # inherited) =
     inherit_config (if dict_has obj k then obj else AList.update k v obj) inherited"

text \<open>The name and the configuration that says it: a location, or what the root calls itself.\<close>

definition named :: "string \<Rightarrow> pyval \<Rightarrow> pydict \<Rightarrow> pyval \<times> pydict" where
  "named name declared obj =
     (if name = ROOT \<and> truthy declared then (declared, obj)
      else (PStr name, AList.update ''name'' (PStr name) obj))"

definition with_render :: "pydict \<Rightarrow> pydict" where
  "with_render obj =
     (if item obj ''render'' = PNone then AList.update ''render'' (PDict []) obj else obj)"

definition check_partcad :: "(pyval \<Rightarrow> exn + bool) \<Rightarrow> pydict \<Rightarrow> exn + unit" where
  "check_partcad supports obj =
     (case map_of obj ''partcad'' of
        None \<Rightarrow> Inr ()
      | Some requirement \<Rightarrow>
          and_then (supports requirement) (\<lambda>ok. require_that ok (Raised ''NeedsUpdateException'')))"

text \<open>An unquoted 3.10 reaches here as the number 3.1.\<close>

definition stated_python :: "(pyval \<Rightarrow> string) \<Rightarrow> pyval \<Rightarrow> string" where
  "stated_python repr v =
     (case v of
        PStr s \<Rightarrow> s
      | _ \<Rightarrow> if py_str repr v = ''3.1'' then ''3.10'' else py_str repr v)"

definition text_unless_none :: "(pyval \<Rightarrow> string) \<Rightarrow> pyval \<Rightarrow> string option" where
  "text_unless_none repr v = (if v = PNone then None else Some (py_str repr v))"

text \<open>The fields read from the configuration once it is settled.\<close>

definition fields_of ::
  "(pyval \<Rightarrow> string) \<Rightarrow> pyval \<Rightarrow> string \<Rightarrow> bool \<Rightarrow> pyval \<Rightarrow> pydict \<Rightarrow> package_config" where
  "fields_of repr own path is_broken declared obj =
     (let python = map_option (stated_python repr) (map_of obj ''pythonVersion'')
      in \<lparr>called = own, config_dir = path, config_obj = obj, broken = is_broken, declares = declared,
          python_version = (case python of None \<Rightarrow> DEFAULT_PYTHON_VERSION | Some v \<Rightarrow> v),
          python_version_declared = python,
          docker_image_declared = text_unless_none repr (item obj ''dockerImage''),
          javascript_version =
            map_option (\<lambda>v. node_major_version (py_str repr v)) (map_of obj ''javascriptVersion''),
          chili3d_version = text_unless_none repr (item obj ''chili3dVersion''),
          makes_products =
            (case map_of obj ''manufacturable'' of None \<Rightarrow> True | Some v \<Rightarrow> truthy v)\<rparr>)"

definition new_configuration ::
  "(pyval \<Rightarrow> string) \<Rightarrow> (pyval \<Rightarrow> exn + bool) \<Rightarrow> string \<Rightarrow> string
    \<Rightarrow> pydict option \<Rightarrow> pydict option \<Rightarrow> exn + package_config" where
  "new_configuration repr supports name path given inherited =
     (let obj = (case given of None \<Rightarrow> [] | Some d \<Rightarrow> d);
          declared = item obj ''name'';
          obj = inherit_config obj (case inherited of None \<Rightarrow> [] | Some d \<Rightarrow> d);
          (own, obj) = named name declared obj;
          obj = with_render obj
      in and_then (obsolete_import_entries (item obj ''import'')) (\<lambda>obsolete.
         let obj = drop_obsolete obsolete obj in
         and_then (check_partcad supports obj) (\<lambda>_.
           Inr (fields_of repr own path (obsolete \<noteq> [] \<and> name = ROOT) declared obj))))"

section \<open>Lemmas\<close>

lemma item_of: "item d k = (case map_of d k of None \<Rightarrow> PNone | Some v \<Rightarrow> v)"
  by (simp add: get_or_def)

lemma obsolete_entries_restrict:
  "obsolete_entries es = Inr names \<Longrightarrow> set names \<subseteq> ns
    \<Longrightarrow> obsolete_entries (dict_restrict (\<lambda>k. k \<notin> ns) es) = Inr []"
  by (induction es arbitrary: names rule: obsolete_entries.induct)
    (auto simp: dict_restrict_def and_then_Inr split: if_splits)

lemma obsolete_entries_sound:
  "obsolete_entries es = Inr names \<Longrightarrow> n \<in> set names
    \<Longrightarrow> \<exists>e. (n, PDict e) \<in> set es \<and> is_dependency e = Inr True"
  by (induction es arbitrary: names rule: obsolete_entries.induct)
    (fastforce simp: and_then_Inr split: if_splits)+

lemma drop_obsolete_import:
  assumes "obsolete_import_entries (item obj ''import'') = Inr obsolete"
  shows "obsolete_import_entries (item (drop_obsolete obsolete obj) ''import'') = Inr []"
proof (cases "map_of obj ''import''")
  case None
  then show ?thesis by (simp add: drop_obsolete_def item_of)
next
  case (Some v)
  show ?thesis
  proof (cases v)
    case (PDict es)
    have "obsolete_entries es = Inr obsolete"
      using assms Some PDict by (simp add: item_of)
    then show ?thesis
      using Some PDict obsolete_entries_restrict [of es obsolete "set obsolete"]
      by (auto simp: drop_obsolete_def item_of Let_def delete_conv)
  qed (use Some in \<open>simp_all add: drop_obsolete_def item_of\<close>)
qed

lemma drop_obsolete_other [simp]:
  "k \<noteq> ''import'' \<Longrightarrow> map_of (drop_obsolete obsolete obj) k = map_of obj k"
  by (auto simp: drop_obsolete_def Let_def delete_conv split: option.splits pyval.splits)

lemma drop_obsolete_Nil [simp]: "drop_obsolete [] obj = obj"
  by (auto simp: drop_obsolete_def split: option.splits pyval.splits)

lemma with_render_other [simp]: "k \<noteq> ''render'' \<Longrightarrow> map_of (with_render obj) k = map_of obj k"
  by (simp add: with_render_def)

lemma with_render_set: "item (with_render obj) ''render'' \<noteq> PNone"
  by (simp add: with_render_def item_of)

lemma alist_update_same: "map_of d k = Some v \<Longrightarrow> wf_dict d \<Longrightarrow> AList.update k v d = d"
  by (induction d) (auto simp: map_of_eq_None_iff split: if_splits)

lemma wf_drop_obsolete: "wf_dict obj \<Longrightarrow> wf_dict (drop_obsolete obsolete obj)"
  by (auto simp: drop_obsolete_def Let_def distinct_delete split: option.splits pyval.splits)

lemma wf_with_render: "wf_dict obj \<Longrightarrow> wf_dict (with_render obj)"
  by (simp add: with_render_def)

lemma wf_inherit: "wf_dict obj \<Longrightarrow> wf_dict (inherit_config obj inherited)"
  by (induction obj inherited rule: inherit_config.induct) auto

lemma inherit_keeps: "map_of obj k = Some v \<Longrightarrow> map_of (inherit_config obj inherited) k = Some v"
  by (induction obj inherited rule: inherit_config.induct) (auto, metis option.distinct(1))


lemma named_of:
  assumes "named name (item d ''name'') (inherit_config d inherited) = (own, obj)"
  shows "own = (if name = ROOT \<and> truthy (item d ''name'') then item d ''name'' else PStr name)"
    and "map_of obj ''name'' = Some own"
    and "wf_dict d \<Longrightarrow> wf_dict obj"
  using assms inherit_keeps [of d "''name''"]
  by (auto simp: named_def item_of wf_inherit split: if_splits option.splits)

text \<open>What the constructor goes through, for the proofs.\<close>

lemma fields_of_simps [simp]:
  "called (fields_of repr own path b declared obj) = own"
  "config_obj (fields_of repr own path b declared obj) = obj"
  "broken (fields_of repr own path b declared obj) = b"
  "declares (fields_of repr own path b declared obj) = declared"
  by (simp_all add: fields_of_def Let_def)

lemma fields_of_update:
  "(fields_of repr own path b declared obj)\<lparr>broken := b', declares := declared'\<rparr>
    = fields_of repr own path b' declared' obj"
  by (simp add: fields_of_def Let_def)

lemma configuration_cases:
  assumes "new_configuration repr supports name path (Some d) inherited = Inr c"
  obtains own obj obsolete where
    "named name (item d ''name'') (inherit_config d (case inherited of None \<Rightarrow> [] | Some e \<Rightarrow> e)) = (own, obj)"
    "obsolete_import_entries (item (with_render obj) ''import'') = Inr obsolete"
    "check_partcad supports (drop_obsolete obsolete (with_render obj)) = Inr ()"
    "c = fields_of repr own path (obsolete \<noteq> [] \<and> name = ROOT) (item d ''name'')
           (drop_obsolete obsolete (with_render obj))"
  using assms by (fastforce simp: new_configuration_def Let_def and_then_Inr split: prod.splits)

lemma named_again:
  assumes "map_of obj ''name'' = Some own" "wf_dict obj"
    and "own = (if name = ROOT \<and> truthy v then v else PStr name)"
  shows "named name own obj = (own, obj)"
  using assms by (auto simp: named_def alist_update_same ROOT_def split: if_splits)

lemma configuration_name:
  assumes "new_configuration repr supports name path (Some d) inherited = Inr c"
  shows "called c = (if name = ROOT \<and> truthy (item d ''name'') then item d ''name'' else PStr name)"
    and "map_of (config_obj c) ''name'' = Some (called c)" and "declares c = item d ''name''"
  using assms
  by (atomize(full), rule configuration_cases)
    (use named_of [of name d] in \<open>auto simp del: truthy.simps\<close>)

text \<open>
  The location a package is loaded at is its name, whatever it declares itself to be; the root
  alone, which has no location to be named after, goes by the name it declares. What is written
  into the configuration is that same name.
\<close>

theorem location_is_authoritative:
  assumes "new_configuration repr supports name path (Some d) inherited = Inr c"
  shows "called c = (if name = ROOT \<and> truthy (item d ''name'') then item d ''name'' else PStr name)
    \<and> map_of (config_obj c) ''name'' = Some (called c) \<and> declares c = item d ''name''"
  using configuration_name [OF assms] by simp

text \<open>
  No dependency is ever taken for a reader: what is left of the section \<open>import\<close> has no entry that
  describes a dependency, every other entry of it is kept, and only the root package is broken by
  having had one.
\<close>

theorem no_dependency_among_readers:
  assumes "new_configuration repr supports name path (Some d) inherited = Inr c"
  shows "obsolete_import_entries (item (config_obj c) ''import'') = Inr [] \<and> (broken c \<longrightarrow> name = ROOT)"
  using assms by (rule configuration_cases) (auto dest: drop_obsolete_import)

text \<open>C20: 
  The configuration a package ends up with is settled: a package constructed from it again, at the
  same place, comes out the same, with nothing left that could break it.
\<close>

theorem configuration_settles:
  assumes c: "new_configuration repr supports name path (Some d) inherited = Inr c" and "wf_dict d"
  shows "new_configuration repr supports name path (Some (config_obj c)) None
    = Inr (c\<lparr>broken := False, declares := called c\<rparr>)"
proof -
  from c obtain own obj obsolete where own:
      "named name (item d ''name'') (inherit_config d (case inherited of None \<Rightarrow> [] | Some e \<Rightarrow> e)) = (own, obj)"
    and obsolete: "obsolete_import_entries (item (with_render obj) ''import'') = Inr obsolete"
    and partcad: "check_partcad supports (drop_obsolete obsolete (with_render obj)) = Inr ()"
    and c': "c = fields_of repr own path (obsolete \<noteq> [] \<and> name = ROOT) (item d ''name'')
           (drop_obsolete obsolete (with_render obj))"
    by (rule configuration_cases)
  let ?o = "drop_obsolete obsolete (with_render obj)"
  have wf: "wf_dict ?o"
    using named_of(3) [OF own \<open>wf_dict d\<close>] by (intro wf_drop_obsolete wf_with_render)
  have nm: "map_of ?o ''name'' = Some own"
    using named_of(2) [OF own] by simp
  have n: "named name own ?o = (own, ?o)"
    using named_again [OF nm wf named_of(1) [OF own]] .
  have r: "with_render ?o = ?o"
    using with_render_set [of obj] by (simp add: with_render_def [of ?o] item_of)
  have i: "obsolete_import_entries (item ?o ''import'') = Inr []"
    by (rule drop_obsolete_import [OF obsolete])
  have "item ?o ''name'' = own"
    using nm by (simp add: item_of)
  with partcad n r i show ?thesis
    by (simp add: new_configuration_def Let_def c' fields_of_update)
qed


definition vendored :: pydict where
  "vendored =
     [(''name'', PStr ''//pub/bolts''), (''pythonVersion'', PFloat (Fin (31 / 10))),
      (''import'', PDict [(''std'', PDict [(''type'', PStr ''git''), (''url'', PStr ''https://std'')]),
                        (''urdf'', PDict [(''path'', PStr ''urdf.py'')])])]"

definition vendored_at :: "string \<Rightarrow> package_config" where
  "vendored_at name =
     (case new_configuration (\<lambda>v. ''3.1'') (\<lambda>v. Inr True) name ''/w'' (Some vendored) None of
        Inr c \<Rightarrow> c | Inl e \<Rightarrow> fields_of (\<lambda>v. '''') PNone '''' True PNone [])"

lemma vendored_reads:
  "new_configuration (\<lambda>v. ''3.1'') (\<lambda>v. Inr True) name ''/w'' (Some vendored) None = Inr (vendored_at name)"
  by (simp add: vendored_at_def new_configuration_def vendored_def Let_def item_of named_def
      is_dependency_def DEPENDENCY_TRANSPORTS_def DEPENDENCY_ONLY_KEYS_def check_partcad_def drop_obsolete_def
      with_render_def split: prod.splits if_splits)

theorem location_is_authoritative_witness:
  "called (vendored_at ''//vendor/bolts'') = PStr ''//vendor/bolts'' \<and> called (vendored_at ''//'') = PStr ''//pub/bolts''"
  using location_is_authoritative [OF vendored_reads [of "''//vendor/bolts''"]]
    location_is_authoritative [OF vendored_reads [of "''//''"]]
  by (simp add: ROOT_def vendored_def item_of)

theorem no_dependency_among_readers_witness:
  "obsolete_import_entries (item (config_obj (vendored_at ''//a'')) ''import'') = Inr []
     \<and> python_version (vendored_at ''//a'') = ''3.10''"
proof -
  have "python_version (vendored_at ''//a'') = ''3.10''" by code_simp
  then show ?thesis using no_dependency_among_readers [OF vendored_reads] by blast
qed

theorem configuration_settles_witness:
  "new_configuration (\<lambda>v. ''3.1'') (\<lambda>v. Inr True) ''//a'' ''/w'' (Some (config_obj (vendored_at ''//a''))) None
     = Inr ((vendored_at ''//a'')\<lparr>broken := False, declares := called (vendored_at ''//a'')\<rparr>)"
  by (rule configuration_settles [OF vendored_reads]) (simp add: vendored_def)

end
