(* ===== verification/Packages.thy ===== *)
theory Packages
  imports PackageConfig
begin

text \<open>
  The tree of packages of \<open>src/src/partcad/context.py\<close>: how a package is found by its path, loaded
  on the way when it is not there yet, and kept under the path it was loaded at; with the constructor
  of \<open>project.py\<close> as far as loading is concerned and the factories of \<open>project_factory.py\<close>.

  Everything runs on one thread here. A thread that waits for a lock it holds itself never comes
  back: that outcome is \<open>Stuck\<close>. A package being loaded asks for other packages, which load in turn,
  so the operations are mutually recursive and take fuel; \<open>NoFuel\<close> says that it ran out, and
  \<open>lookup_comes_back\<close> gives an amount that is enough where loading asks for nothing.

  What is outside is the record \<open>world\<close>: the file system, the fetching of a package (a directory, a
  clone, an archive) with the configuration parsed from it, and which packages the objects of a
  package ask for while they are created. The package of a repository plugin is not modelled.
\<close>

section \<open>Paths of packages\<close>

text \<open>\<open>s.rstrip("/")\<close>\<close>

definition strip_slashes :: "string \<Rightarrow> string" where
  "strip_slashes s = rev (dropWhile (\<lambda>c. c = CHR ''/'') (rev s))"

definition is_within :: "string \<Rightarrow> string option \<Rightarrow> bool" where
  "is_within name parent_name =
     (case parent_name of
        None \<Rightarrow> True
      | Some parent \<Rightarrow> name = parent \<or> starts_with name (strip_slashes parent @ ''/''))"

definition located :: "pydict \<Rightarrow> string \<Rightarrow> pydict" where
  "located dependency_config path =
     AList.update ''name'' (PStr path)
       (case map_of dependency_config ''name'' of
          None \<Rightarrow> dependency_config
        | Some v \<Rightarrow> AList.update ''orig_name'' v dependency_config)"

section \<open>A package and a context\<close>

record package =
  path_name :: string
  conf :: package_config
  excluded :: "string option"

record packages =
  own_name :: string
  projects :: "(string \<times> package) list"
  being_loaded :: "string list"
  locked :: "string list"
  current_project_path :: string
  packages_loaded :: nat

datatype ask = For_object string | Mate_source string | Mate_target string

record world =
  fetch :: "string \<Rightarrow> pydict \<Rightarrow> exn + (string \<times> pydict option)"
  subfolders :: "string \<Rightarrow> string list"
  has_package :: "string \<Rightarrow> string \<Rightarrow> bool"
  installed :: string
  context_dir :: string
  relative_path :: string
  known_tags :: "string set"
  text_of_value :: "pyval \<Rightarrow> string"
  supported :: "pyval \<Rightarrow> exn + bool"
  asks :: "package \<Rightarrow> ask list"

definition skipped :: "package \<Rightarrow> bool" where
  "skipped p \<longleftrightarrow> excluded p \<noteq> None"

text \<open>
  The declaration of one dependency, as the loop over \<open>project.dependencies()\<close> finds it: a section
  that is no dictionary is walked all the same, and fails where it is asked for an entry.
\<close>

definition dependency :: "package \<Rightarrow> string \<Rightarrow> exn + pydict option" where
  "dependency p name =
     (case item (config_obj (conf p)) ''dependencies'' of
        PDict d \<Rightarrow>
          (case map_of d name of
             None \<Rightarrow> Inr None
           | Some (PDict cfg) \<Rightarrow> Inr (Some cfg)
           | Some _ \<Rightarrow> Inl AttributeError)
      | PList names \<Rightarrow> if PStr name \<in> set names then Inl TypeError else Inr None
      | PStr s \<Rightarrow> if \<exists>c \<in> set s. name = [c] then Inl TypeError else Inr None
      | PBytes _ \<Rightarrow> Inr None
      | v \<Rightarrow> if truthy v then Inl TypeError else Inr None)"

text \<open>How an operation ends: with a result, an exception, never, or out of fuel.\<close>

datatype 'a outcome = Returned 'a packages | Failed exn packages | Stuck | NoFuel

fun then_do :: "'a outcome \<Rightarrow> ('a \<Rightarrow> packages \<Rightarrow> 'b outcome) \<Rightarrow> 'b outcome" where
  "then_do (Returned x c) f = f x c"
| "then_do (Failed e c) f = Failed e c"
| "then_do Stuck f = Stuck"
| "then_do NoFuel f = NoFuel"

text \<open>\<open>try: ... finally: ...\<close>\<close>

fun finally_do :: "'a outcome \<Rightarrow> (packages \<Rightarrow> packages) \<Rightarrow> 'a outcome" where
  "finally_do (Returned x c) g = Returned x (g c)"
| "finally_do (Failed e c) g = Failed e (g c)"
| "finally_do Stuck g = Stuck"
| "finally_do NoFuel g = NoFuel"

section \<open>Where a path points\<close>

text \<open>\<open>os.path.relpath(initial, search)\<close> is the field \<open>relative_path\<close>.\<close>

definition recompute_current_project_path :: "string \<Rightarrow> string \<Rightarrow> string" where
  "recompute_current_project_path own relative =
     (let path = (if ends_with own ''/'' then own else own @ ''/'') @ relative
      in if path = own @ ''/.'' \<or> (ends_with own ''/'' \<and> path = own @ ''.'') then own else path)"

fun drop_slashes :: "nat \<Rightarrow> string \<Rightarrow> string" where
  "drop_slashes 0 p = p"
| "drop_slashes (Suc n) p =
     (if length p > 1 \<and> p \<noteq> ''//'' \<and> ends_with p ''/'' then drop_slashes n (butlast p) else p)"

definition get_current_project_path :: "packages \<Rightarrow> string" where
  "get_current_project_path c =
     drop_slashes (length (current_project_path c)) (current_project_path c)"

definition resolve_package_path :: "packages \<Rightarrow> string option \<Rightarrow> string" where
  "resolve_package_path c package =
     (case package of
        None \<Rightarrow> get_current_project_path c
      | Some package \<Rightarrow>
          let package = drop_slashes (length package) package in
          if package = ''/'' \<or> package = ''//'' then own_name c
          else if package = '''' \<or> package = ''.'' then get_current_project_path c
          else
            let package = (if starts_with package ''/'' then package
                           else get_current_project_path c @ ''/'' @ package)
            in if starts_with package ''/'' \<and> \<not> starts_with package ''//'' then ''/'' @ package
               else package)"

definition get_project_abs_path :: "packages \<Rightarrow> string \<Rightarrow> string" where
  "get_project_abs_path c rel =
     (if starts_with rel ''//'' then rel
      else if rel = ''.'' \<or> rel = '''' then current_project_path c
      else get_child_project_path (current_project_path c) rel)"

definition BUILTIN_NAMES :: "string list" where
  "BUILTIN_NAMES = [''export'', ''render'', ''import'', ''open'', ''cam'', ''scene'']"

definition BUILTIN_PATHS :: "string \<Rightarrow> (string \<times> string) list" where
  "BUILTIN_PATHS base =
     (''//builtin'', base) # map (\<lambda>n. (''//builtin/'' @ n, base @ ''/'' @ n)) BUILTIN_NAMES"

text \<open>What is left of a path below the root, as \<open>get_project\<close> takes it apart.\<close>

definition below_root :: "string \<Rightarrow> string \<Rightarrow> string" where
  "below_root own path =
     drop (if own \<noteq> ''//'' \<and> starts_with path own then length own + 1 else 2) path"


section \<open>Loading a package\<close>

text \<open>What a factory hands down to the package: what the dependency says, or what its parent is.\<close>

definition inherited_of :: "package option \<Rightarrow> pydict \<Rightarrow> pydict" where
  "inherited_of parent cfg =
     (let inherited = (case map_of cfg ''inheritedConfig'' of Some (PDict d) \<Rightarrow> d | _ \<Rightarrow> []) in
      case parent of
        Some p \<Rightarrow>
          if inherited = [] then [(''manufacturable'', PBool (makes_products (conf p)))] else inherited
      | None \<Rightarrow> inherited)"

text \<open>
  The constructor of a package up to the point where its objects are created: its name, its
  configuration, and whether it is excluded. A malformed \<open>unless\<close> is reported and excludes nothing; a
  package without its file is broken. A declared name that is not text is refused here.
\<close>

definition new_package :: "world \<Rightarrow> package option \<Rightarrow> pydict \<Rightarrow> string \<Rightarrow> exn + package" where
  "new_package w parent cfg name =
     and_then (fetch w (case parent of None \<Rightarrow> context_dir w | Some p \<Rightarrow> config_dir (conf p)) cfg)
       (\<lambda>(dir, content).
         and_then (new_configuration (text_of_value w) (supported w) name dir
                     (Some (case content of None \<Rightarrow> [] | Some d \<Rightarrow> d)) (Some (inherited_of parent cfg)))
           (\<lambda>configuration.
             and_then (text_of (Some (called configuration))) (\<lambda>path.
               Inr \<lparr>path_name = path,
                    conf = configuration\<lparr>broken := broken configuration \<or> content = None\<rparr>,
                    excluded = (case excluded_by (PDict (config_obj configuration)) (known_tags w) of
                        Inl e \<Rightarrow> None | Inr clause \<Rightarrow> clause)\<rparr>)))"

text \<open>\<open>ProjectFactory._create\<close>: what the import says is written into the configuration.\<close>

definition marked :: "pydict \<Rightarrow> package \<Rightarrow> package" where
  "marked cfg p =
     p\<lparr>conf := (conf p)\<lparr>config_obj :=
        AList.update ''importUrl'' (item cfg ''url'')
          (AList.update ''isRoot'' (get_or cfg ''isRoot'' (PBool False))
             (AList.update ''type'' (item cfg ''type'') (config_obj (conf p))))\<rparr>\<rparr>"

definition save :: "string \<Rightarrow> package \<Rightarrow> packages \<Rightarrow> packages" where
  "save name p c = c\<lparr>projects := AList.update name p (projects c)\<rparr>"

text \<open>The root goes by the name it declares, and is filed under that.\<close>

definition rekey :: "string \<Rightarrow> package \<Rightarrow> packages \<Rightarrow> packages" where
  "rekey name p c =
     (if path_name p = name then c
      else c\<lparr>projects := AList.update (path_name p) p (AList.delete name (projects c))\<rparr>)"

definition adopt_root :: "world \<Rightarrow> pydict \<Rightarrow> package \<Rightarrow> packages \<Rightarrow> packages" where
  "adopt_root w cfg p c =
     (if truthy (get_or cfg ''isRoot'' (PBool False))
      then c\<lparr>own_name := path_name p,
             current_project_path := recompute_current_project_path (path_name p) (relative_path w)\<rparr>
      else c)"

definition TYPES :: "string list" where
  "TYPES = [''local'', ''git'', ''tar'', ''external'']"

definition take_lock :: "string \<Rightarrow> packages \<Rightarrow> packages" where
  "take_lock name c = c\<lparr>locked := name # locked c\<rparr>"

definition release :: "string \<Rightarrow> packages \<Rightarrow> packages" where
  "release name c = c\<lparr>locked := removeAll name (locked c)\<rparr>"

definition mark_loading :: "string \<Rightarrow> packages \<Rightarrow> packages" where
  "mark_loading name c = c\<lparr>being_loaded := name # being_loaded c\<rparr>"

definition unmark_loading :: "string \<Rightarrow> packages \<Rightarrow> packages" where
  "unmark_loading name c = c\<lparr>being_loaded := removeAll name (being_loaded c)\<rparr>"

definition count_package :: "packages \<Rightarrow> packages" where
  "count_package c = c\<lparr>packages_loaded := packages_loaded c + 1\<rparr>"

definition subfolder_config :: "string \<Rightarrow> string \<Rightarrow> pydict" where
  "subfolder_config path folder =
     [(''name'', PStr path), (''type'', PStr ''local''), (''path'', PStr folder)]"

text \<open>What becomes of a package asked for while objects are created.\<close>

fun answered :: "ask \<Rightarrow> package option outcome \<Rightarrow> unit outcome" where
  "answered (For_object _) (Failed e c) = Returned () c"
| "answered (Mate_source _) (Returned None c) = Failed AttributeError c"
| "answered _ (Returned _ c) = Returned () c"
| "answered _ (Failed e c) = Failed e c"
| "answered _ Stuck = Stuck"
| "answered _ NoFuel = NoFuel"

fun path_asked :: "ask \<Rightarrow> string" where
  "path_asked (For_object p) = p"
| "path_asked (Mate_source p) = p"
| "path_asked (Mate_target p) = p"

type_synonym importer = "package option \<Rightarrow> pydict \<Rightarrow> packages \<Rightarrow> package option outcome"

text \<open>Down a path from a package, one segment at a time; what is missing is imported on the way.\<close>

fun get_recursive :: "world \<Rightarrow> importer \<Rightarrow> package \<Rightarrow> string list \<Rightarrow> packages \<Rightarrow> package option outcome" where
  "get_recursive w imp project [] c = Returned (Some project) c"
| "get_recursive w imp project (next # rest) c =
     (if skipped project then Returned None c
      else
        let next_path = get_child_project_path (path_name project) next in
        case map_of (projects c) next_path of
          Some p \<Rightarrow> get_recursive w imp p rest c
        | None \<Rightarrow>
            then_do
              (if next \<in> set (subfolders w (config_dir (conf project))) then
                 if has_package w (config_dir (conf project)) next
                 then imp (Some project) (subfolder_config next_path next) c
                 else Returned None c
               else
                 case dependency project next of
                   Inl e \<Rightarrow> Failed e c
                 | Inr None \<Rightarrow> Returned None c
                 | Inr (Some prj_conf) \<Rightarrow>
                     imp (Some project)
                       (located prj_conf
                          (if truthy (get_or prj_conf ''onlyInRoot'' (PBool False)) then ''//'' @ next
                           else next_path)) c)
              (\<lambda>found c.
                 case found of
                   None \<Rightarrow> Returned None c
                 | Some p \<Rightarrow> get_recursive w imp p rest c))"

definition get_builtin_project :: "world \<Rightarrow> importer \<Rightarrow> string \<Rightarrow> packages \<Rightarrow> package option outcome" where
  "get_builtin_project w imp path c =
     (case map_of (BUILTIN_PATHS (installed w)) path of
        None \<Rightarrow> Returned None c
      | Some dir \<Rightarrow>
          (case map_of (projects c) path of
             Some p \<Rightarrow> Returned (Some p) c
           | None \<Rightarrow> imp None
               [(''name'', PStr path), (''type'', PStr ''local''), (''path'', PStr dir)] c))"

definition lookup_below_root ::
  "world \<Rightarrow> importer \<Rightarrow> string \<Rightarrow> packages \<Rightarrow> package option outcome" where
  "lookup_below_root w imp path c =
     (let path = below_root (own_name c) path in
      case map_of (projects c) (own_name c) of
        None \<Rightarrow> Returned None c
      | Some project \<Rightarrow>
          if path = [] then Returned (Some project) c
          else get_recursive w imp project (split_on CHR ''/'' path) c)"

definition look_up :: "world \<Rightarrow> importer \<Rightarrow> string \<Rightarrow> packages \<Rightarrow> package option outcome" where
  "look_up w imp rel c =
     (let path = get_project_abs_path c rel in
      then_do (get_builtin_project w imp path c) (\<lambda>builtin c.
        case builtin of
          Some p \<Rightarrow> Returned (Some p) c
        | None \<Rightarrow> lookup_below_root w imp path c))"

text \<open>The packages its objects ask for, in order; a skipped package creates no objects.\<close>

fun create_objects :: "world \<Rightarrow> importer \<Rightarrow> ask list \<Rightarrow> packages \<Rightarrow> unit outcome" where
  "create_objects w imp [] c = Returned () c"
| "create_objects w imp (a # others) c =
     then_do (answered a (look_up w imp (path_asked a) c)) (\<lambda>_ c. create_objects w imp others c)"

definition import_locked ::
  "world \<Rightarrow> importer \<Rightarrow> package option \<Rightarrow> pydict \<Rightarrow> string \<Rightarrow> packages \<Rightarrow> package option outcome" where
  "import_locked w imp parent cfg name c =
     (if item cfg ''type'' \<notin> PStr ` set TYPES then Returned None c
      else
        case new_package w parent cfg name of
          Inl e \<Rightarrow> Failed e c
        | Inr p \<Rightarrow>
            then_do (if skipped p then Returned () c else create_objects w imp (asks w p) c)
              (\<lambda>_ c.
                 let p = marked cfg p;
                     c = save name p c
                 in if path_name p \<noteq> name \<and> name \<noteq> ROOT then Failed AssertionError c
                    else Returned (Some p) (count_package (adopt_root w cfg p (rekey name p c)))))"

definition importing :: "world \<Rightarrow> importer \<Rightarrow> importer" where
  "importing w imp parent cfg c =
     (if map_of cfg ''name'' = None \<or> map_of cfg ''type'' = None then Returned None c
      else
        case text_of (map_of cfg ''name'') of
          Inl e \<Rightarrow> Failed e c
        | Inr name \<Rightarrow>
            if name \<in> set (locked c) then Stuck
            else
              finally_do
                (case map_of (projects c) name of
                   Some p \<Rightarrow> Returned (Some p) (take_lock name c)
                 | None \<Rightarrow>
                     if name \<in> set (being_loaded c) then Returned None (take_lock name c)
                     else finally_do
                            (import_locked w imp parent cfg name (mark_loading name (take_lock name c)))
                            (unmark_loading name))
                (release name))"

text \<open>The fuel is the depth to which packages load one inside another.\<close>

primrec import_project :: "world \<Rightarrow> nat \<Rightarrow> importer" where
  "import_project w 0 = (\<lambda>parent cfg c. NoFuel)"
| "import_project w (Suc n) = importing w (import_project w n)"

definition get_project :: "world \<Rightarrow> nat \<Rightarrow> string \<Rightarrow> packages \<Rightarrow> package option outcome" where
  "get_project w n = look_up w (import_project w n)"

text \<open>A package by path, asked for by a package that may still be loading itself.\<close>

definition get_project_from ::
  "world \<Rightarrow> nat \<Rightarrow> package option \<Rightarrow> string \<Rightarrow> packages \<Rightarrow> package option outcome" where
  "get_project_from w n project rel c =
     (let path = get_project_abs_path c rel in
      then_do (get_builtin_project w (import_project w n) path c) (\<lambda>builtin c.
        if builtin \<noteq> None then Returned builtin c
        else then_do (get_project w n path c) (\<lambda>found c.
          case project of
            None \<Rightarrow> Returned found c
          | Some p \<Rightarrow>
              if found \<noteq> None then Returned found c
              else if map_of (projects c) path \<noteq> None then Returned (map_of (projects c) path) c
              else
                let base = (if ends_with (path_name p) ''/'' then path_name p else path_name p @ ''/'')
                in if \<not> starts_with path base then Returned None c
                   else get_recursive w (import_project w n) p
                          (split_on CHR ''/'' (drop (length base) path)) c)))"

section \<open>The context\<close>

definition root_config :: "string \<Rightarrow> pydict" where
  "root_config path =
     [(''name'', PStr ROOT), (''type'', PStr ''local''), (''path'', PStr path),
      (''canBeEmpty'', PBool True), (''isRoot'', PBool True)]"

definition empty_context :: packages where
  "empty_context = \<lparr>own_name = ROOT, projects = [], being_loaded = [], locked = [],
     current_project_path = ROOT, packages_loaded = 0\<rparr>"

definition new_context :: "world \<Rightarrow> nat \<Rightarrow> string \<Rightarrow> package option outcome" where
  "new_context w n root_path = import_project w n None (root_config root_path) empty_context"

text \<open>
  What there is to import directly below a package: its dependencies, and its folders that are
  packages. A dependency kept for the root is left out of any other package.
\<close>

text \<open>A dependency that is declared by no dictionary.\<close>

fun misdeclared :: "bool \<Rightarrow> pyval \<Rightarrow> exn" where
  "misdeclared True v = AttributeError"
| "misdeclared False (PStr s) = (if contains_sub s ''onlyInRoot'' then TypeError else AttributeError)"
| "misdeclared False (PList vs) = (if PStr ''onlyInRoot'' \<in> set vs then TypeError else AttributeError)"
| "misdeclared False v = TypeError"

fun dependency_tasks :: "string \<Rightarrow> bool \<Rightarrow> package \<Rightarrow> pydict \<Rightarrow> exn + (package \<times> pydict) list" where
  "dependency_tasks own is_root p [] = Inr []"
| "dependency_tasks own is_root p ((name, PDict cfg) # others) =
     and_then (dependency_tasks own is_root p others) (\<lambda>tasks.
       let only_in_root = truthy (get_or cfg ''onlyInRoot'' (PBool False));
           path = (if only_in_root then ''//'' @ name else get_child_project_path (path_name p) name)
       in Inr (if (only_in_root \<and> \<not> is_root) \<or> path = own then tasks
               else (p, located cfg path) # tasks))"
| "dependency_tasks own is_root p ((name, v) # others) = Inl (misdeclared is_root v)"

definition import_tasks :: "world \<Rightarrow> string \<Rightarrow> package \<Rightarrow> exn + (package \<times> pydict) list" where
  "import_tasks w own p =
     (if broken (conf p) \<or> skipped p then Inr []
      else
        let obj = config_obj (conf p);
            folders = map (\<lambda>f. (p, subfolder_config (get_child_project_path (path_name p) f) f))
              (filter (has_package w (config_dir (conf p))) (subfolders w (config_dir (conf p))))
        in and_then
             (case item obj ''dependencies'' of
                PDict d \<Rightarrow> dependency_tasks own (truthy (get_or obj ''isRoot'' (PBool False))) p d
              | v \<Rightarrow> if truthy v then Inl TypeError else Inr [])
             (\<lambda>tasks. Inr (tasks @ folders)))"

text \<open>
  The traversal of everything below a package, one task after the other: the code runs the
  imports of one round concurrently, and this is one of the orders they may take.
\<close>

fun import_all :: "world \<Rightarrow> importer \<Rightarrow> nat \<Rightarrow> package list \<Rightarrow> (package \<times> pydict) list \<Rightarrow> packages \<Rightarrow> unit outcome" where
  "import_all w imp 0 found tasks c = NoFuel"
| "import_all w imp (Suc n) (p # found) tasks c =
     (case import_tasks w (own_name c) p of
        Inl e \<Rightarrow> Failed e c
      | Inr new_tasks \<Rightarrow> import_all w imp n found (tasks @ new_tasks) c)"
| "import_all w imp (Suc n) [] ((parent, cfg) # tasks) c =
     then_do (imp (Some parent) cfg c) (\<lambda>imported c.
       case imported of
         None \<Rightarrow> Failed AttributeError c
       | Some p \<Rightarrow> import_all w imp n [p] tasks c)"
| "import_all w imp (Suc n) [] [] c = Returned () c"

definition HAS_STUFF_KINDS :: "string list" where
  "HAS_STUFF_KINDS = [''sketch'', ''part'', ''assembly'', ''scene'']"

text \<open>\<open>object_count kind p\<close> is \<open>Project.object_count\<close>, \<open>desc_of p\<close> the description of a package.\<close>

definition get_packages ::
  "(string \<Rightarrow> package \<Rightarrow> nat) \<Rightarrow> (package \<Rightarrow> string) \<Rightarrow> packages \<Rightarrow> string option \<Rightarrow> bool
    \<Rightarrow> (string \<times> string) list" where
  "get_packages object_count desc_of c parent_name has_stuff =
     map (\<lambda>p. (path_name p, desc_of p))
       (filter (\<lambda>p. has_stuff \<longrightarrow> (\<Sum>kind\<leftarrow>HAS_STUFF_KINDS. object_count kind p) > 0)
         (filter (\<lambda>p. \<not> skipped p)
           (filter (\<lambda>p. is_within (path_name p) parent_name) (map snd (projects c)))))"


section \<open>Lemmas\<close>

subsection \<open>Outcomes\<close>

fun settles :: "(packages \<Rightarrow> bool) \<Rightarrow> 'a outcome \<Rightarrow> bool" where
  "settles P (Returned x c) = P c"
| "settles P (Failed e c) = P c"
| "settles P Stuck = True"
| "settles P NoFuel = True"

lemma settles_then_do:
  "settles P m \<Longrightarrow> (\<And>x c. m = Returned x c \<Longrightarrow> P c \<Longrightarrow> settles Q (f x c)) \<Longrightarrow> (\<And>c. P c \<Longrightarrow> Q c)
    \<Longrightarrow> settles Q (then_do m f)"
  by (cases m) auto

lemma settles_finally:
  "settles P m \<Longrightarrow> (\<And>c. P c \<Longrightarrow> Q (g c)) \<Longrightarrow> settles Q (finally_do m g)"
  by (cases m) auto

lemma then_do_Returned: "then_do m f = Returned x c \<longleftrightarrow> (\<exists>y d. m = Returned y d \<and> f y d = Returned x c)"
  by (cases m) auto

lemma finally_do_Returned: "finally_do m g = Returned x c \<longleftrightarrow> (\<exists>d. m = Returned x d \<and> c = g d)"
  by (cases m) auto

lemma settles_answered: "settles P m \<Longrightarrow> settles P (answered a m)"
  by (cases "(a, m)" rule: answered.cases) auto

lemma settles_mono: "settles P m \<Longrightarrow> (\<And>c. P c \<Longrightarrow> Q c) \<Longrightarrow> settles Q m"
  by (cases m) auto

subsection \<open>The state\<close>

text \<open>Every package is kept under the path it goes by.\<close>

definition tree_ok :: "packages \<Rightarrow> bool" where
  "tree_ok c \<longleftrightarrow> (\<forall>k p. map_of (projects c) k = Some p \<longrightarrow> path_name p = k)"

text \<open>No package is lost, and every lock and mark taken on the way is given back.\<close>

definition grows :: "packages \<Rightarrow> packages \<Rightarrow> bool" where
  "grows c c' \<longleftrightarrow> dom (map_of (projects c)) \<subseteq> dom (map_of (projects c'))
     \<and> locked c' = locked c \<and> being_loaded c' = being_loaded c"

lemma grows_refl [simp, intro]: "grows c c"
  by (simp add: grows_def)

lemma grows_trans: "grows c d \<Longrightarrow> grows d e \<Longrightarrow> grows c e"
  by (auto simp: grows_def)

lemma tree_okD: "tree_ok c \<Longrightarrow> map_of (projects c) k = Some p \<Longrightarrow> path_name p = k"
  by (simp add: tree_ok_def)

lemma tree_ok_marks [simp]:
  "tree_ok (take_lock n c) = tree_ok c" "tree_ok (release n c) = tree_ok c"
  "tree_ok (mark_loading n c) = tree_ok c" "tree_ok (unmark_loading n c) = tree_ok c"
  "tree_ok (count_package c) = tree_ok c" "tree_ok (adopt_root w cfg p c) = tree_ok c"
  by (simp_all add: tree_ok_def take_lock_def release_def mark_loading_def unmark_loading_def
      count_package_def adopt_root_def)

lemma projects_marks [simp]:
  "projects (take_lock n c) = projects c" "projects (release n c) = projects c"
  "projects (mark_loading n c) = projects c" "projects (unmark_loading n c) = projects c"
  "projects (count_package c) = projects c" "projects (adopt_root w cfg p c) = projects c"
  by (simp_all add: take_lock_def release_def mark_loading_def unmark_loading_def
      count_package_def adopt_root_def)

lemma locked_marks [simp]:
  "locked (take_lock n c) = n # locked c" "locked (release n c) = removeAll n (locked c)"
  "locked (mark_loading n c) = locked c" "locked (unmark_loading n c) = locked c"
  "locked (count_package c) = locked c" "locked (adopt_root w cfg p c) = locked c"
  "locked (save n p c) = locked c" "locked (rekey n p c) = locked c"
  by (simp_all add: take_lock_def release_def mark_loading_def unmark_loading_def
      count_package_def adopt_root_def save_def rekey_def)

lemma being_loaded_marks [simp]:
  "being_loaded (take_lock n c) = being_loaded c" "being_loaded (release n c) = being_loaded c"
  "being_loaded (mark_loading n c) = n # being_loaded c"
  "being_loaded (unmark_loading n c) = removeAll n (being_loaded c)"
  "being_loaded (count_package c) = being_loaded c" "being_loaded (adopt_root w cfg p c) = being_loaded c"
  "being_loaded (save n p c) = being_loaded c" "being_loaded (rekey n p c) = being_loaded c"
  by (simp_all add: take_lock_def release_def mark_loading_def unmark_loading_def
      count_package_def adopt_root_def save_def rekey_def)

lemma path_name_marked [simp]: "path_name (marked cfg p) = path_name p"
  by (simp add: marked_def)

lemma new_package_name:
  "new_package w parent cfg name = Inr p \<Longrightarrow> name \<noteq> ROOT \<Longrightarrow> path_name p = name"
  by (fastforce simp: new_package_def and_then_Inr split: prod.splits dest!: configuration_name(1))

text \<open>A new package under its own path, the root moved to the name it declares.\<close>

lemma filed_ok:
  assumes "tree_ok c" "path_name p = name \<or> name = ROOT"
  shows "tree_ok (rekey name p (save name p c))"
  using assms by (auto simp: tree_ok_def rekey_def save_def delete_conv split: if_splits)

lemma filed_dom:
  "dom (map_of (projects c)) - {name} \<subseteq> dom (map_of (projects (rekey name p (save name p c))))"
  by (auto simp: rekey_def save_def delete_conv split: if_splits)

lemma filed_grows:
  assumes "grows c d" "map_of (projects c) name = None"
  shows "grows c (count_package (adopt_root w cfg p (rekey name p (save name p d))))"
proof -
  have "dom (map_of (projects c)) \<subseteq> dom (map_of (projects d)) - {name}"
    using assms domIff [of name "map_of (projects c)"] unfolding grows_def by blast
  then show ?thesis
    using filed_dom [of d name p] assms(1) unfolding grows_def by (simp add: subset_trans)
qed

lemma filed_there:
  "path_name p = k \<Longrightarrow> map_of (projects (rekey name p (save name p c))) k = Some p"
  by (simp add: rekey_def save_def)

subsection \<open>What an import promises\<close>

text \<open>
  The contract the lookups rest on: an import that comes back keeps the tree in order and loses
  nothing, and a package it answers with is registered under the path it was imported at.
\<close>

definition asked_name :: "pydict \<Rightarrow> string \<Rightarrow> bool" where
  "asked_name cfg name \<longleftrightarrow> map_of cfg ''name'' = Some (PStr name)"

lemma asked_name_located: "asked_name (located cfg path) path"
  by (simp add: asked_name_def located_def)

lemma asked_name_subfolder: "asked_name (subfolder_config path f) path"
  by (simp add: asked_name_def subfolder_config_def)

locale package_importer =
  fixes imp :: importer
  assumes import_settles: "tree_ok c \<Longrightarrow> settles (\<lambda>d. tree_ok d \<and> grows c d) (imp parent cfg c)"
    and import_there: "tree_ok c \<Longrightarrow> imp parent cfg c = Returned (Some p) d
      \<Longrightarrow> map_of (projects d) (path_name p) = Some p"
    and import_name: "tree_ok c \<Longrightarrow> imp parent cfg c = Returned (Some p) d \<Longrightarrow> asked_name cfg name
      \<Longrightarrow> name \<noteq> ROOT \<Longrightarrow> path_name p = name"
begin

lemma import_ok: "tree_ok c \<Longrightarrow> imp parent cfg c = Returned r d \<Longrightarrow> tree_ok d \<and> grows c d"
  using import_settles [of c parent cfg] by simp

lemma recursive_settles:
  "tree_ok c \<Longrightarrow> settles (\<lambda>d. tree_ok d \<and> grows c d) (get_recursive w imp project path c)"
proof (induction path arbitrary: project c)
  case Nil
  then show ?case by simp
next
  case (Cons seg path)
  have step: "settles (\<lambda>d. tree_ok d \<and> grows c d)
      (then_do m (\<lambda>found d. case found of None \<Rightarrow> Returned None d | Some p \<Rightarrow> get_recursive w imp p path d))"
    if "settles (\<lambda>d. tree_ok d \<and> grows c d) m" for m
    using that
  proof (rule settles_then_do)
    fix x d
    assume d: "tree_ok d \<and> grows c d"
    show "settles (\<lambda>d. tree_ok d \<and> grows c d)
        (case x of None \<Rightarrow> Returned None d | Some p \<Rightarrow> get_recursive w imp p path d)"
    proof (cases x)
      case (Some p)
      have "settles (\<lambda>e. tree_ok e \<and> grows d e) (get_recursive w imp p path d)"
        using d by (intro Cons.IH) simp
      then show ?thesis
        using Some d by (cases "get_recursive w imp p path d") (auto intro: grows_trans)
    qed (use d in simp)
  qed
  show ?case
    using Cons.prems Cons.IH [OF Cons.prems]
    by (auto simp: Let_def simp del: then_do.simps intro!: step import_settles
        split: option.splits sum.splits)
qed

lemma builtin_settles:
  "tree_ok c \<Longrightarrow> settles (\<lambda>d. tree_ok d \<and> grows c d) (get_builtin_project w imp path c)"
  by (auto simp: get_builtin_project_def intro: import_settles split: option.splits)

lemma below_root_settles:
  "tree_ok c \<Longrightarrow> settles (\<lambda>d. tree_ok d \<and> grows c d) (lookup_below_root w imp path c)"
  by (auto simp: lookup_below_root_def Let_def intro: recursive_settles split: option.splits)

lemma look_up_settles:
  "tree_ok c \<Longrightarrow> settles (\<lambda>d. tree_ok d \<and> grows c d) (look_up w imp rel c)"
  unfolding look_up_def Let_def
  by (rule settles_then_do [OF builtin_settles])
    (auto intro: settles_mono [OF below_root_settles] grows_trans split: option.splits)

lemma objects_settle:
  "tree_ok c \<Longrightarrow> settles (\<lambda>d. tree_ok d \<and> grows c d) (create_objects w imp wanted c)"
proof (induction wanted arbitrary: c)
  case Nil
  then show ?case by simp
next
  case (Cons a wanted)
  show ?case
    unfolding create_objects.simps
    by (rule settles_then_do [OF settles_answered [OF look_up_settles [OF Cons.prems]]])
      (auto intro: settles_mono [OF Cons.IH] grows_trans)
qed

lemma created_settles:
  "tree_ok c \<Longrightarrow> settles (\<lambda>d. tree_ok d \<and> grows c d)
    (if skipped p then Returned () c else create_objects w imp (asks w p) c)"
  by (auto intro: objects_settle)

lemma locked_new:
  assumes "item cfg ''type'' \<in> PStr ` set TYPES" and "new_package w parent cfg name = Inr p"
  shows "import_locked w imp parent cfg name c =
    then_do (if skipped p then Returned () c else create_objects w imp (asks w p) c) (\<lambda>_ d.
      Returned (Some (marked cfg p))
        (count_package (adopt_root w cfg (marked cfg p) (rekey name (marked cfg p) (save name (marked cfg p) d)))))"
proof -
  have "path_name p = name \<or> name = ROOT"
    using new_package_name assms(2) by blast
  then have "\<not> (path_name (marked cfg p) \<noteq> name \<and> name \<noteq> ROOT)"
    by simp
  then show ?thesis
    using assms by (simp only: import_locked_def sum.case Let_def not_not if_False simp_thms)
qed

lemma locked_settles:
  assumes "tree_ok c" and "map_of (projects c) name = None"
  shows "settles (\<lambda>d. tree_ok d \<and> grows c d) (import_locked w imp parent cfg name c)"
proof (cases "item cfg ''type'' \<in> PStr ` set TYPES \<and> (\<exists>p. new_package w parent cfg name = Inr p)")
  case False
  then show ?thesis
    using assms by (auto simp: import_locked_def split: sum.splits)
next
  case True
  then obtain p where p: "new_package w parent cfg name = Inr p" by blast
  have "tree_ok (rekey name (marked cfg p) (save name (marked cfg p) d))" if "tree_ok d" for d
    using that new_package_name [OF p] by (intro filed_ok) auto
  then show ?thesis
    unfolding locked_new [OF conjunct1 [OF True] p]
    by (intro settles_then_do [OF created_settles [OF assms(1)]]) (simp_all add: filed_grows assms(2))
qed

lemma locked_there:
  assumes r: "import_locked w imp parent cfg name c = Returned (Some q) d"
  shows "map_of (projects d) (path_name q) = Some q" and "path_name q = name \<or> name = ROOT"
proof -
  have t: "item cfg ''type'' \<in> PStr ` set TYPES"
    using r by (rule contrapos_pp) (simp add: import_locked_def)
  obtain p where p: "new_package w parent cfg name = Inr p"
    using r t by (cases "new_package w parent cfg name") (auto simp: import_locked_def)
  obtain e where e: "q = marked cfg p"
      "d = count_package (adopt_root w cfg q (rekey name q (save name q e)))"
    using r unfolding locked_new [OF t p] then_do_Returned by auto
  show "map_of (projects d) (path_name q) = Some q"
    using e(2) by (simp add: filed_there)
  show "path_name q = name \<or> name = ROOT"
    using e(1) new_package_name [OF p] by auto
qed

lemma importing_settles:
  assumes c: "tree_ok c"
  shows "settles (\<lambda>d. tree_ok d \<and> grows c d) (importing w imp parent cfg c)"
proof -
  have new: "settles (\<lambda>d. tree_ok d \<and> grows c d)
      (finally_do (finally_do (import_locked w imp parent cfg name (mark_loading name (take_lock name c)))
         (unmark_loading name)) (release name))"
    if "name \<notin> set (locked c)" "name \<notin> set (being_loaded c)" "map_of (projects c) name = None" for name
    using that c
    by (intro settles_finally [OF settles_finally
          [OF locked_settles [of "mark_loading name (take_lock name c)" name]]])
      (auto simp: grows_def)
  show ?thesis
    using c new by (auto simp: importing_def grows_def split: option.splits sum.splits)
qed

lemma importing_there:
  assumes c: "tree_ok c" and r: "importing w imp parent cfg c = Returned (Some p) d"
  shows "map_of (projects d) (path_name p) = Some p"
    and "asked_name cfg name \<Longrightarrow> name \<noteq> ROOT \<Longrightarrow> path_name p = name"
  using r locked_there tree_okD [OF c]
  by (fastforce simp: importing_def asked_name_def finally_do_Returned split: if_splits option.splits sum.splits)+

lemma builtin_there:
  assumes "tree_ok c" and "get_builtin_project w imp path c = Returned (Some p) d"
  shows "map_of (projects d) (path_name p) = Some p"
  using assms by (auto simp: get_builtin_project_def import_there tree_ok_def split: option.splits)

lemma recursive_step:
  assumes "get_recursive w imp project (seg # path) c = Returned (Some p) d"
  obtains q e where "\<not> skipped project"
    "(e = c \<and> map_of (projects c) (get_child_project_path (path_name project) seg) = Some q) \<or>
     (\<exists>cfg. imp (Some project) cfg c = Returned (Some q) e \<and>
       (asked_name cfg (get_child_project_path (path_name project) seg) \<or> asked_name cfg (''//'' @ seg)))"
    "get_recursive w imp q path e = Returned (Some p) d"
proof -
  let ?next = "get_child_project_path (path_name project) seg"
  have nk: "\<not> skipped project"
    using assms by auto
  show thesis
  proof (cases "map_of (projects c) ?next")
    case (Some q)
    then show thesis using assms nk that [of c q] by (simp add: Let_def)
  next
    case None
    let ?m = "if seg \<in> set (subfolders w (config_dir (conf project))) then
        if has_package w (config_dir (conf project)) seg
        then imp (Some project) (subfolder_config ?next seg) c else Returned None c
      else case dependency project seg of Inl e \<Rightarrow> Failed e c | Inr None \<Rightarrow> Returned None c
        | Inr (Some prj_conf) \<Rightarrow> imp (Some project) (located prj_conf
            (if truthy (get_or prj_conf ''onlyInRoot'' (PBool False)) then ''//'' @ seg else ?next)) c"
    obtain x e where x: "?m = Returned x e"
      "(case x of None \<Rightarrow> Returned None e | Some p \<Rightarrow> get_recursive w imp p path e) = Returned (Some p) d"
      using assms nk None by (simp add: Let_def then_do_Returned) blast
    then obtain q where q: "x = Some q" by (cases x) auto
    then have "\<exists>cfg. imp (Some project) cfg c = Returned (Some q) e \<and>
        (asked_name cfg ?next \<or> asked_name cfg (''//'' @ seg))"
      using x(1) asked_name_subfolder asked_name_located
      by (cases "truthy (get_or (the (projr (dependency project seg))) ''onlyInRoot'' (PBool False))")
        (fastforce split: if_splits sum.splits option.splits)+
    with q x(2) have "\<exists>cfg q e. imp (Some project) cfg c = Returned (Some q) e \<and>
       (asked_name cfg ?next \<or> asked_name cfg (''//'' @ seg)) \<and> get_recursive w imp q path e = Returned (Some p) d"
      by auto
    then show thesis using nk that by blast
  qed
qed

lemma recursive_there:
  "tree_ok c \<Longrightarrow> map_of (projects c) (path_name project) = Some project
    \<Longrightarrow> get_recursive w imp project path c = Returned (Some p) d
    \<Longrightarrow> map_of (projects d) (path_name p) = Some p"
proof (induction path arbitrary: project c)
  case Nil
  then show ?case by simp
next
  case (Cons seg path)
  from Cons.prems(3) obtain q e where q: "(e = c \<and> map_of (projects c)
        (get_child_project_path (path_name project) seg) = Some q) \<or>
      (\<exists>cfg. imp (Some project) cfg c = Returned (Some q) e)"
    and r: "get_recursive w imp q path e = Returned (Some p) d"
    by (rule recursive_step) blast
  have "tree_ok e \<and> map_of (projects e) (path_name q) = Some q"
    using q
  proof (elim disjE exE conjE)
    assume "e = c" "map_of (projects c) (get_child_project_path (path_name project) seg) = Some q"
    then show ?thesis using Cons.prems(1) tree_okD by simp
  next
    fix cfg
    assume "imp (Some project) cfg c = Returned (Some q) e"
    then show ?thesis using Cons.prems(1) import_ok import_there by blast
  qed
  then show ?case using Cons.IH r by blast
qed

lemma look_up_there:
  assumes c: "tree_ok c" and r: "look_up w imp rel c = Returned (Some p) d"
  shows "map_of (projects d) (path_name p) = Some p"
proof -
  let ?path = "get_project_abs_path c rel"
  from r obtain b e where b: "get_builtin_project w imp ?path c = Returned b e"
    and n: "(case b of Some q \<Rightarrow> Returned (Some q) e | None \<Rightarrow> lookup_below_root w imp ?path e)
      = Returned (Some p) d"
    by (auto simp: look_up_def Let_def then_do_Returned)
  have e: "tree_ok e"
    using builtin_settles [OF c, of w ?path] b by simp
  show ?thesis
  proof (cases b)
    case (Some q)
    then show ?thesis using n b builtin_there [OF c] by simp
  next
    case None
    with n e show ?thesis
      by (auto simp: lookup_below_root_def Let_def tree_okD split: option.splits if_splits
          dest: recursive_there [OF e, rotated])
  qed
qed

end

text \<open>Every import of the model keeps the contract, at whatever depth loading may go.\<close>

lemma import_project_contract: "package_importer (import_project w n)"
proof (induction n)
  case 0
  show ?case by (simp add: package_importer_def)
next
  case (Suc n)
  show ?case
    using package_importer.importing_settles [OF Suc.IH] package_importer.importing_there [OF Suc.IH]
    by (auto simp: package_importer_def)
qed

interpretation imported: package_importer "import_project w n" for w n
  by (rule import_project_contract)


section \<open>What the tree promises\<close>

text \<open>C3: 
  However a package is asked for, and whatever loads on the way: afterwards every package is still
  kept under the path it goes by, none is lost, every lock and mark is given back, and the package
  that was found is registered.
\<close>

theorem found_package_is_registered:
  assumes "tree_ok c" and "get_project w n rel c = Returned found d"
  shows "tree_ok d \<and> grows c d \<and> (\<forall>p. found = Some p \<longrightarrow> map_of (projects d) (path_name p) = Some p)"
proof -
  have "settles (\<lambda>d. tree_ok d \<and> grows c d) (look_up w (import_project w n) rel c)"
    by (rule imported.look_up_settles [OF assms(1)])
  moreover have "map_of (projects d) (path_name p) = Some p" if "found = Some p" for p
    by (rule imported.look_up_there [OF assms(1)]) (use assms(2) that in \<open>simp add: get_project_def\<close>)
  ultimately show ?thesis
    using assms(2) by (simp add: get_project_def)
qed

text \<open>How a package is led to: through packages that are not skipped, each under the one before or kept for the root.\<close>

inductive led_to :: "package \<Rightarrow> string list \<Rightarrow> package \<Rightarrow> bool" where
  there: "led_to p [] p"
| below: "\<not> skipped p \<Longrightarrow> path_name q = get_child_project_path (path_name p) seg \<or> path_name q = ''//'' @ seg
    \<Longrightarrow> led_to q path r \<Longrightarrow> led_to p (seg # path) r"

lemma sub_dotdot_ends:
  assumes "plain_segment seg"
  shows "\<exists>a. sub_dotdot (x @ CHR ''/'' # seg) = a @ CHR ''/'' # seg"
proof (induction x rule: length_induct)
  case (1 x)
  note IH = this
  show ?case
  proof (cases x)
    case Nil
    then show ?thesis using assms sub_dotdot_last [of seg] by (auto simp: plain_segment_def)
  next
    case (Cons h t)
    let ?rest = "dropWhile (\<lambda>c. c \<noteq> CHR ''/'') (t @ CHR ''/'' # seg)"
    have "?rest = dropWhile (\<lambda>c. c \<noteq> CHR ''/'') t @ CHR ''/'' # seg"
      by (induction t) auto
    then obtain t' where t': "?rest = t' @ CHR ''/'' # seg" "length t' \<le> length t"
      using length_dropWhile_le by blast
    have step: "sub_dotdot (x @ CHR ''/'' # seg) = (if h = CHR ''/'' \<and> starts_with ?rest ''/..''
        then sub_dotdot (drop 3 ?rest) else h # sub_dotdot (t @ CHR ''/'' # seg))"
      using Cons by (subst sub_dotdot.simps) (simp add: Let_def)
    show ?thesis
    proof (cases "h = CHR ''/'' \<and> starts_with ?rest ''/..''")
      case True
      then obtain z where z: "t' @ CHR ''/'' # seg = ''/..'' @ z"
        using t'(1) unfolding prefix_def by metis
      have "\<not> prefix ''..'' seg"
        using assms by (simp add: plain_segment_def)
      then obtain u where "t' = ''/..'' @ u"
        using z unfolding append_eq_append_conv2
        by (auto simp: append_eq_Cons_conv prefix_def)
      then show ?thesis
        using step True t' IH Cons by simp
    next
      case False
      then have e: "sub_dotdot (x @ CHR ''/'' # seg) = h # sub_dotdot (t @ CHR ''/'' # seg)"
        using step by (simp only: if_False)
      obtain a where "sub_dotdot (t @ CHR ''/'' # seg) = a @ CHR ''/'' # seg"
        using IH Cons by auto
      with e have "sub_dotdot (x @ CHR ''/'' # seg) = (h # a) @ CHR ''/'' # seg"
        by simp
      then show ?thesis by blast
    qed
  qed
qed

lemma child_not_root:
  assumes "plain_segment seg"
  shows "get_child_project_path parent seg \<noteq> ROOT"
proof -
  have "\<exists>x. (if ends_with parent ''/'' then parent @ seg else parent @ ''/'' @ seg) = x @ CHR ''/'' # seg"
    by (cases parent rule: rev_cases) auto
  then obtain x a where "(if ends_with parent ''/'' then parent @ seg else parent @ ''/'' @ seg) = x @ CHR ''/'' # seg"
    and a: "sub_dotdot (x @ CHR ''/'' # seg) = a @ CHR ''/'' # seg"
    using sub_dotdot_ends [OF assms] by blast
  then have "get_child_project_path parent seg
      = (if a @ CHR ''/'' # seg \<noteq> ''//'' then drop_final_slash (a @ CHR ''/'' # seg) else a @ CHR ''/'' # seg)"
    by (simp only: get_child_project_path_def Let_def)
  moreover have "drop_final_slash (a @ CHR ''/'' # seg) = a @ CHR ''/'' # seg"
    using drop_final_slash_segment [OF assms, of "a @ ''/''"] by simp
  ultimately have "get_child_project_path parent seg = a @ CHR ''/'' # seg"
    by (simp only: if_cancel)
  then have "last (get_child_project_path parent seg) = last seg"
    using last_plain_segment(3) [OF assms] by simp
  then show ?thesis
    using last_plain_segment(1) [OF assms] by (auto simp: ROOT_def)
qed

lemma recursive_leads:
  "tree_ok c \<Longrightarrow> \<forall>seg \<in> set path. plain_segment seg
    \<Longrightarrow> get_recursive w (import_project w' n) project path c = Returned (Some p) d \<Longrightarrow> led_to project path p"
proof (induction path arbitrary: project c)
  case Nil
  then show ?case by (simp add: there)
next
  case (Cons seg path)
  let ?next = "get_child_project_path (path_name project) seg"
  obtain q e where nk: "\<not> skipped project" and q: "(e = c \<and> map_of (projects c) ?next = Some q) \<or>
     (\<exists>cfg. import_project w' n (Some project) cfg c = Returned (Some q) e \<and>
       (asked_name cfg ?next \<or> asked_name cfg (''//'' @ seg)))"
    and r: "get_recursive w (import_project w' n) q path e = Returned (Some p) d"
    using imported.recursive_step [OF Cons.prems(3)] by blast
  have "tree_ok e \<and> (path_name q = ?next \<or> path_name q = ''//'' @ seg)"
    using q
  proof (elim disjE exE conjE)
    assume "e = c" "map_of (projects c) ?next = Some q"
    then show ?thesis using Cons.prems(1) tree_okD by simp
  next
    fix cfg
    assume "import_project w' n (Some project) cfg c = Returned (Some q) e" "asked_name cfg ?next"
    then show ?thesis
      using imported.import_ok [OF Cons.prems(1)] imported.import_name [OF Cons.prems(1)] child_not_root Cons.prems(2)
      by fastforce
  next
    fix cfg
    assume "import_project w' n (Some project) cfg c = Returned (Some q) e" "asked_name cfg (''//'' @ seg)"
    moreover have "''//'' @ seg \<noteq> ROOT" using Cons.prems(2) by (simp add: plain_segment_def ROOT_def)
    ultimately show ?thesis
      using imported.import_ok [OF Cons.prems(1)] imported.import_name [OF Cons.prems(1)] by blast
  qed
  then show ?case
    using Cons nk r by (auto intro: below)
qed

lemma below_root_path:
  assumes "own = package_path base" "\<forall>seg \<in> set base. plain_segment seg"
  shows "below_root own (package_path (base @ path)) = join ''/'' path"
proof (cases "path = []")
  case True
  then show ?thesis
    using assms by (auto simp: below_root_def package_path_def)
next
  case False
  then have j: "path_of path = ''/'' @ join ''/'' path"
    using join_path_of [of path] by simp
  show ?thesis
  proof (cases "base = []")
    case True
    then show ?thesis using assms j False by (simp add: below_root_def package_path_def)
  next
    case b: False
    then have "path_of base \<noteq> ''/''"
      using assms(2) by (cases base) (auto simp: plain_segment_def)
    then show ?thesis
      using assms(1) j False b by (auto simp: below_root_def package_path_def)
  qed
qed



text \<open>
  A package is imported once: importing the same path again, from any parent and by any
  declaration, answers with the package that is there and leaves everything as it was.
\<close>

theorem imported_once:
  assumes "tree_ok c" and "import_project w n parent cfg c = Returned (Some p) d"
    and "asked_name cfg name" and "name \<noteq> ROOT" and "name \<notin> set (locked c)"
    and "asked_name cfg' name" and "map_of cfg' ''type'' \<noteq> None"
  shows "import_project w (Suc m) parent' cfg' d = Returned (Some p) d"
proof -
  have "map_of (projects d) name = Some p"
    using imported.import_there [OF assms(1,2)] imported.import_name [OF assms(1,2,3,4)] by simp
  moreover have "locked d = locked c"
    using imported.import_ok [OF assms(1,2)] by (simp add: grows_def)
  moreover have "release name (take_lock name d) = d" if "name \<notin> set (locked d)"
    using that by (simp add: release_def take_lock_def)
  ultimately show ?thesis
    using assms(5-7) by (simp add: importing_def asked_name_def)
qed

text \<open>
  A package that is being loaded and is asked for again is never reported: the report of a recursion
  is behind the lock the loading thread holds, so the thread waits for itself. Marks are only ever
  set under that lock, which every import keeps so.
\<close>

theorem recursive_import_hangs:
  assumes "set (being_loaded c) \<subseteq> set (locked c)" and "name \<in> set (being_loaded c)"
    and "asked_name cfg name" and "map_of cfg ''type'' \<noteq> None"
  shows "import_project w (Suc n) parent cfg c = Stuck
    \<and> (\<forall>other. set (being_loaded (mark_loading other (take_lock other c)))
                 \<subseteq> set (locked (mark_loading other (take_lock other c))))"
  using assms by (auto simp: importing_def asked_name_def)

subsection \<open>Coming back\<close>

text \<open>Where loading a package asks for no other, one level of loading is all a lookup needs.\<close>

fun comes_back :: "'a outcome \<Rightarrow> bool" where
  "comes_back (Returned x c) = True"
| "comes_back (Failed e c) = True"
| "comes_back _ = False"

lemma comes_back_then:
  "comes_back m \<Longrightarrow> (\<And>x c. m = Returned x c \<Longrightarrow> comes_back (f x c)) \<Longrightarrow> comes_back (then_do m f)"
  by (cases m) auto

lemma comes_back_finally: "comes_back (finally_do m g) = comes_back m"
  by (cases m) auto

lemma import_comes_back:
  assumes "locked c = []" and "\<And>p. asks w p = []"
  shows "comes_back (import_project w (Suc n) parent cfg c)"
proof -
  have "comes_back (import_locked w imp parent cfg name d)" for imp name d
    by (auto simp: import_locked_def Let_def assms(2) simp del: then_do.simps
        intro!: comes_back_then split: sum.splits)
  then show ?thesis
    using assms(1) by (auto simp: importing_def comes_back_finally split: option.splits sum.splits)
qed

lemma recursive_comes_back:
  assumes "\<And>p. asks w p = []"
  shows "tree_ok c \<Longrightarrow> locked c = []
    \<Longrightarrow> comes_back (get_recursive w (import_project w (Suc n)) project path c)"
proof (induction path arbitrary: project c)
  case Nil
  then show ?case by simp
next
  case (Cons seg path)
  note ret = import_comes_back [OF Cons.prems(2) assms]
  have step: "comes_back (then_do (import_project w (Suc n) parent cfg c) (\<lambda>found d. case found of
      None \<Rightarrow> Returned None d | Some p \<Rightarrow> get_recursive w (import_project w (Suc n)) p path d))" for parent cfg
    using ret Cons.IH imported.import_ok [OF Cons.prems(1), of w "Suc n"] Cons.prems
    by (intro comes_back_then) (auto simp: grows_def simp del: import_project.simps split: option.splits)
  then show ?case
    using Cons by (auto simp: Let_def simp del: import_project.simps split: option.splits sum.splits)
qed


subsection \<open>Paths\<close>

lemma strip_slashes_path:
  assumes "\<forall>seg \<in> set segs. plain_segment seg"
  shows "strip_slashes (package_path segs) = (if segs = [] then [] else package_path segs)"
proof (cases "segs = []")
  case True
  then show ?thesis by (simp add: strip_slashes_def package_path_def)
next
  case False
  then obtain a where "package_path segs = a @ [last (last segs)]" "last (last segs) \<noteq> CHR ''/''"
    using assms last_plain_segment(1,3) [of "last segs"] package_path_snoc [of "butlast segs" "last segs"]
    by (metis append_assoc append_butlast_last_id last_in_set)
  then show ?thesis using False by (simp add: strip_slashes_def)
qed

lemma segment_prefix:
  assumes "CHR ''/'' \<notin> set s" "CHR ''/'' \<notin> set t"
  shows "prefix (s @ path_of a @ ''/'') (t @ path_of b) \<longleftrightarrow> s = t \<and> prefix (path_of a @ ''/'') (path_of b)"
  using assms
proof (induction s arbitrary: t)
  case Nil
  then show ?case by (cases t; cases a) auto
next
  case (Cons x s)
  then show ?case by (cases t; cases b) auto
qed

lemma prefix_path_of:
  assumes "\<forall>seg \<in> set (a @ b). plain_segment seg"
  shows "prefix (path_of a @ ''/'') (path_of b) \<longleftrightarrow> strict_prefix a b"
  using assms
proof (induction a arbitrary: b)
  case Nil
  then show ?case by (cases b) auto
next
  case (Cons s a)
  note IH = this
  show ?case
  proof (cases b)
    case Nil
    then show ?thesis by simp
  next
    case (Cons t b')
    have st: "CHR ''/'' \<notin> set s" "CHR ''/'' \<notin> set t"
      using IH(2) Cons by (auto simp: plain_segment_def)
    have "prefix (s @ path_of a @ ''/'') (t @ path_of b') \<longleftrightarrow> s = t \<and> prefix (path_of a @ ''/'') (path_of b')"
      using st by (rule segment_prefix)
    then show ?thesis
      using IH(1) [of b'] IH(2) Cons by simp
  qed
qed

lemma path_of_not_slash: "\<forall>seg \<in> set a. plain_segment seg \<Longrightarrow> path_of a \<noteq> ''/''"
  by (cases a) (auto simp: plain_segment_def)

lemma path_of_inj:
  "\<forall>seg \<in> set (a @ b). plain_segment seg \<Longrightarrow> path_of a = path_of b \<Longrightarrow> a = b"
proof (induction a arbitrary: b)
  case Nil
  then show ?case by (cases b) auto
next
  case (Cons s a)
  then obtain t b' where b: "b = t # b'" by (cases b) auto
  have st: "CHR ''/'' \<notin> set s" "CHR ''/'' \<notin> set t"
    using Cons.prems(1) b by (auto simp: plain_segment_def)
  have "s @ path_of a = t @ path_of b'"
    using Cons.prems(2) b by simp
  moreover have "takeWhile (\<lambda>c. c \<noteq> CHR ''/'') (u @ path_of v) = u" if "CHR ''/'' \<notin> set u" for u v
    using that by (cases v) (auto simp: takeWhile_neq takeWhile_neq_all)
  ultimately have "s = t"
    using st by metis
  then show ?case
    using Cons b by simp
qed

lemma package_path_inj:
  assumes "\<forall>seg \<in> set (a @ b). plain_segment seg" and eq: "package_path b = package_path a"
  shows "b = a"
proof -
  have n: "path_of a \<noteq> ''/''" "path_of b \<noteq> ''/''"
    using assms(1) path_of_not_slash by simp_all
  show ?thesis
  proof (cases "a = [] \<or> b = []")
    case True
    then show ?thesis
      using eq n by (cases a; cases b) (simp_all add: package_path_def)
  next
    case False
    then show ?thesis
      using eq path_of_inj [OF assms(1)] by (simp add: package_path_def)
  qed
qed

text \<open>
  One package is within another exactly when its path goes on from there: a neighbour whose name
  merely begins the same way is not, and everything is within the root.
\<close>

theorem is_within_is_below:
  assumes "\<forall>seg \<in> set (a @ b). plain_segment seg"
  shows "is_within (package_path b) (Some (package_path a)) \<longleftrightarrow> prefix a b"
proof -
  have "is_within (package_path b) (Some (package_path a)) \<longleftrightarrow>
      package_path b = package_path a \<or> prefix (path_of a @ ''/'') (path_of b)"
  proof (cases "a = []")
    case True
    then show ?thesis
      by (cases b) (auto simp: is_within_def package_path_def strip_slashes_def)
  next
    case False
    moreover have "strip_slashes (package_path a) = package_path a"
      using strip_slashes_path [of a] assms False by simp
    ultimately show ?thesis
      by (cases a; cases b) (auto simp: is_within_def package_path_def)
  qed
  moreover have "package_path b = package_path a \<longleftrightarrow> b = a"
    using package_path_inj [OF assms] by blast
  ultimately show ?thesis
    using prefix_path_of [OF assms] by (auto simp: strict_prefix_def)
qed


text \<open>
  A path that begins with the letters of the root's own path is taken for one below it, whatever the
  next letter is: a neighbour one letter longer answers with the root itself, and what lies below a
  neighbour is looked for below the root.
\<close>

theorem neighbour_taken_for_root:
  assumes "own_name c \<noteq> ''//''" and "starts_with (own_name c) ''//''"
    and "map_of (projects c) (own_name c) = Some r"
    and "map_of (BUILTIN_PATHS (installed w)) (own_name c @ x # rest) = None"
  shows "get_project w n (own_name c @ x # rest) c
    = (if rest = [] then Returned (Some r) c
       else get_recursive w (import_project w n) r (split_on CHR ''/'' rest) c)"
proof -
  have "starts_with (own_name c @ x # rest) ''//''"
    using assms(2) by (auto simp: prefix_def)
  then have abs: "get_project_abs_path c (own_name c @ x # rest) = own_name c @ x # rest"
    by (simp add: get_project_abs_path_def)
  have b: "get_builtin_project w (import_project w n) (own_name c @ x # rest) c = Returned None c"
    using assms(4) by (simp add: get_builtin_project_def)
  have below: "below_root (own_name c) (own_name c @ x # rest) = rest"
    using assms(1) by (simp add: below_root_def)
  show ?thesis
    unfolding get_project_def look_up_def abs Let_def b then_do.simps option.case lookup_below_root_def
      below assms(3) ..
qed

text \<open>A folder without a package of its own hides the dependency of that name from a lookup.\<close>

lemma folder_hides_dependency:
  assumes "map_of (projects c) (get_child_project_path (path_name p) seg) = None"
    and "seg \<in> set (subfolders w (config_dir (conf p)))" and "\<not> has_package w (config_dir (conf p)) seg"
  shows "get_recursive w imp p (seg # path) c = Returned None c"
  using assms by (simp add: Let_def)

text \<open>From the root, a relative path is given three slashes here and two where it is looked up.\<close>

lemma three_slashes:
  assumes "current_project_path c = ''//''" and "plain_segment seg" and "seg \<noteq> ''.''"
  shows "resolve_package_path c (Some seg) = ''///'' @ seg"
    and "get_project_abs_path c seg = ''//'' @ seg"
proof -
  have d: "drop_slashes (length seg) seg = seg"
    using last_plain_segment [OF assms(2)] by (cases "length seg") auto
  have g: "get_current_project_path c = ''//''"
    using assms(1) by (simp add: get_current_project_path_def numeral_2_eq_2)
  have "seg \<noteq> []" "\<not> starts_with seg ''/''" "seg \<noteq> ''/''" "seg \<noteq> ''//''" "\<not> starts_with seg ''//''"
    using assms(2) by (auto simp: plain_segment_def prefix_def)
  then show "resolve_package_path c (Some seg) = ''///'' @ seg"
      "get_project_abs_path c seg = ''//'' @ seg"
    using assms d g child_path_down [of "[]" "[seg]"]
    by (simp_all add: resolve_package_path_def get_project_abs_path_def Let_def package_path_def)
qed

subsection \<open>A small tree\<close>

text \<open>
  The root \<open>//\<close> at \<open>/w\<close> has the packages \<open>a\<close> and \<open>b\<close> in its folders; \<open>b\<close> is excluded on a machine
  with the tag \<open>arm64\<close>. \<open>wanted\<close> says what the objects of a package ask for.
\<close>

definition sample_fetch :: "string \<Rightarrow> pydict \<Rightarrow> exn + (string \<times> pydict option)" where
  "sample_fetch dir cfg =
     (case map_of cfg ''path'' of
        Some (PStr p) \<Rightarrow>
          if p = ''/w'' then Inr (''/w'', Some [(''desc'', PStr ''shop'')])
          else if p = ''b'' then Inr (dir @ ''/b'', Some [(''unless'', PStr ''arm64'')])
          else Inr (dir @ ''/'' @ p, Some [])
      | _ \<Rightarrow> Inl KeyError)"

definition sample_world :: "string list \<Rightarrow> (string \<Rightarrow> ask list) \<Rightarrow> world" where
  "sample_world tags wanted =
     \<lparr>fetch = sample_fetch, subfolders = (\<lambda>d. if d = ''/w'' then [''a'', ''b''] else [''c'']),
      has_package = (\<lambda>d f. True), installed = ''/partcad/builtin'', context_dir = ''/w'',
      relative_path = ''.'', known_tags = set tags, text_of_value = (\<lambda>v. ''''), supported = (\<lambda>v. Inr True),
      asks = (\<lambda>p. wanted (path_name p))\<rparr>"

definition context_after :: "package option outcome \<Rightarrow> packages" where
  "context_after r = (case r of Returned found c \<Rightarrow> c | Failed e c \<Rightarrow> c | _ \<Rightarrow> empty_context)"

definition path_found :: "package option outcome \<Rightarrow> string option" where
  "path_found r = (case r of Returned (Some p) c \<Rightarrow> Some (path_name p) | _ \<Rightarrow> None)"

abbreviation quiet_world :: world where
  "quiet_world \<equiv> sample_world [''arm64''] (\<lambda>p. [])"

definition shop :: packages where
  "shop = context_after (new_context quiet_world 1 ''/w'')"

lemma shop_opens:
  "map fst (projects shop) = [''//'']" "own_name shop = ''//''" "locked shop = []" "being_loaded shop = []"
  by code_simp+

lemma shop_finds:
  "path_found (get_project quiet_world 1 ''//a/c'' shop) = Some ''//a/c''"
  "path_found (get_project quiet_world 1 ''//b'' shop) = Some ''//b''"
  "path_found (get_project quiet_world 1 ''//b/c'' shop) = None"
  by code_simp+

text \<open>Two packages whose interfaces mate with one another never finish loading.\<close>

lemma mates_both_ways_hang:
  "get_project (sample_world [] (\<lambda>p. if p = ''//a'' then [Mate_target ''//b'']
      else if p = ''//b'' then [Mate_target ''//a''] else [])) 5 ''//a'' shop = Stuck"
  by code_simp


subsection \<open>Witnesses\<close>

lemma path_foundD: "path_found r = Some x \<Longrightarrow> \<exists>p d. r = Returned (Some p) d \<and> path_name p = x"
  by (auto simp: path_found_def split: outcome.splits option.splits)

lemma context_after_ok: "settles P r \<Longrightarrow> P empty_context \<Longrightarrow> P (context_after r)"
  by (cases r) (simp_all add: context_after_def)

lemma shop_ok: "tree_ok shop"
proof -
  have e: "tree_ok empty_context"
    by (simp add: tree_ok_def empty_context_def)
  have "settles (\<lambda>d. tree_ok d \<and> grows empty_context d) (new_context quiet_world 1 ''/w'')"
    unfolding new_context_def by (rule imported.import_settles [OF e])
  then show ?thesis
    unfolding shop_def using context_after_ok [of "\<lambda>d. tree_ok d \<and> grows empty_context d"] e by blast
qed

theorem found_package_is_registered_witness:
  "\<exists>p d. get_project quiet_world 1 ''//a/c'' shop = Returned (Some p) d \<and> path_name p = ''//a/c''
     \<and> tree_ok d \<and> grows shop d \<and> map_of (projects d) ''//a/c'' = Some p"
proof -
  obtain p d where r: "get_project quiet_world 1 ''//a/c'' shop = Returned (Some p) d" and p: "path_name p = ''//a/c''"
    using path_foundD [OF shop_finds(1)] by blast
  show ?thesis
    using found_package_is_registered [OF shop_ok r] r p by auto
qed


theorem imported_once_witness:
  "\<exists>p d. import_project quiet_world 1 None (subfolder_config ''//a'' ''a'') shop = Returned (Some p) d
     \<and> import_project quiet_world (Suc 0) (Some p) (subfolder_config ''//a'' ''elsewhere'') d = Returned (Some p) d"
proof -
  have "path_found (import_project quiet_world 1 None (subfolder_config ''//a'' ''a'') shop) = Some ''//a''"
    by code_simp
  then obtain p d where r: "import_project quiet_world 1 None (subfolder_config ''//a'' ''a'') shop = Returned (Some p) d"
    using path_foundD by blast
  have "import_project quiet_world (Suc 0) (Some p) (subfolder_config ''//a'' ''elsewhere'') d = Returned (Some p) d"
    by (rule imported_once [OF shop_ok r, of "''//a''"])
      (simp_all add: asked_name_def subfolder_config_def ROOT_def shop_opens)
  with r show ?thesis by blast
qed

theorem recursive_import_hangs_witness:
  "import_project quiet_world (Suc 3) None (subfolder_config ''//a'' ''a'')
     (mark_loading ''//a'' (take_lock ''//a'' shop)) = Stuck"
  by (rule recursive_import_hangs [THEN conjunct1, of _ "''//a''"])
    (simp_all add: asked_name_def subfolder_config_def shop_opens)


theorem is_within_is_below_witness:
  "\<not> is_within ''//foobar'' (Some ''//foo'') \<and> is_within ''//foo/bar'' (Some ''//foo'')"
  using is_within_is_below [of "[''foo'']" "[''foobar'']"] is_within_is_below [of "[''foo'']" "[''foo'', ''bar'']"]
  by (simp add: plain_segment_def package_path_def)

theorem neighbour_taken_for_root_witness:
  "\<exists>r c. own_name c = ''//foo'' \<and> map_of (projects c) ''//foo'' = Some r
     \<and> get_project quiet_world 1 ''//foob'' c = Returned (Some r) c"
proof -
  obtain r where r: "map_of (projects shop) ''//'' = Some r"
    using shop_opens(1) by (cases "projects shop") auto
  let ?c = "shop\<lparr>own_name := ''//foo'', projects := [(''//foo'', r)]\<rparr>"
  have b: "map_of (BUILTIN_PATHS (installed quiet_world)) ''//foob'' = None"
    by code_simp
  have "get_project quiet_world 1 (own_name ?c @ CHR ''b'' # []) ?c = Returned (Some r) ?c"
    using b by (subst neighbour_taken_for_root [where r = r]) simp_all
  then show ?thesis by (intro exI [of _ r] exI [of _ ?c]) simp
qed

end
