(* ===== verification/ObjectStore.thy ===== *)
theory ObjectStore
  imports Parameters References
begin

text \<open>
  The objects of a package: \<open>src/src/partcad/project.py\<close> from the declarations to the objects made of
  them, the configuration classes that normalize a declaration, and the dispatch of
  \<open>src/src/partcad/factory.py\<close>.

  The state is a record per package, with one entry per kind of object. An operation takes a state
  to a result, or an exception, and the state it leaves; a failure keeps what was changed before it.
  One thread is modelled, so a lock and the second look behind it are not. A factory is a parameter:
  whether it produced an object, or the exception it raised; an object is known by its number.
\<close>

section \<open>The state of a package\<close>

record made_object =
  serial :: nat
  made_by :: string
  made_from :: pydict

record store =
  configs :: "string \<Rightarrow> pydict option"
  normalized :: "string \<Rightarrow> string set"
  broken_objects :: "string \<Rightarrow> (string \<times> string) list"
  retired_objects :: "string \<Rightarrow> string set"
  skipped_objects :: "string \<Rightarrow> (string \<times> string) list"
  objects :: "string \<Rightarrow> (string \<times> made_object) list"
  implicit_aliases :: "string \<Rightarrow> string set"
  alias_index :: "string \<Rightarrow> (string \<times> string) list option"
  instantiated_kinds :: "string set"
  made_count :: nat

text \<open>
  What a package is told and what is outside of it: the tags of the context, the user's parameter
  overrides, the registered factories with what each makes of a configuration (whether it got as far
  as registering an object, and the exception it raised then or instead), the text of an exception,
  and what a repository plugin serves.
\<close>

record package_env =
  package :: string
  is_skipped :: bool
  makes_products :: bool
  context_tags_known :: "string set"
  overrides :: "(string \<times> pydict) list"
  registered :: "string \<Rightarrow> string list option"
  run_factory :: "string \<Rightarrow> string \<Rightarrow> pydict \<Rightarrow> bool \<times> exn option"
  accepted :: "string \<Rightarrow> pyval \<Rightarrow> (string \<times> pyval option) list"
  coerce_value :: "pyval \<Rightarrow> pyval \<Rightarrow> exn + pyval"
  text_of_value :: "pyval \<Rightarrow> string"
  message :: "exn \<Rightarrow> string"
  class_name :: "exn \<Rightarrow> string"
  serves :: "string \<Rightarrow> string \<Rightarrow> pyval"
  enumerates :: "string \<Rightarrow> pydict"

definition OBJECT_KINDS :: "string list" where
  "OBJECT_KINDS =
     [''material'', ''interface'', ''sketch'', ''part'', ''assembly'', ''scene'', ''provider'',
      ''repository'', ''software'', ''partType'']"

definition LAZY_OBJECT_KINDS :: "string list" where
  "LAZY_OBJECT_KINDS = [''sketch'', ''part'', ''assembly'', ''scene'']"

definition CONFIG_KINDS :: "string list" where
  "CONFIG_KINDS = LAZY_OBJECT_KINDS @ [''provider'', ''repository'', ''software'']"

definition PARAMETER_PASSING_TYPES :: "string list" where
  "PARAMETER_PASSING_TYPES = [''alias'', ''enrich'']"

definition INVALID_UNLESS :: string where
  "INVALID_UNLESS = ''<invalid '' @ [CHR 0x27] @ ''unless'' @ [CHR 0x27] @ ''>''"

type_synonym 'a act = "store \<Rightarrow> (exn + 'a) \<times> store"

definition give :: "'a \<Rightarrow> 'a act" where
  "give x st = (Inr x, st)"

definition fail_with :: "exn \<Rightarrow> 'a act" where
  "fail_with e st = (Inl e, st)"

definition do_then :: "'a act \<Rightarrow> ('a \<Rightarrow> 'b act) \<Rightarrow> 'b act" where
  "do_then m f st = (case m st of (Inl e, st') \<Rightarrow> (Inl e, st') | (Inr x, st') \<Rightarrow> f x st')"

text \<open>\<open>try: ... except Exception as e: ...\<close>\<close>

definition catching :: "'a act \<Rightarrow> (exn \<Rightarrow> 'a act) \<Rightarrow> 'a act" where
  "catching m h st = (case m st of (Inl e, st') \<Rightarrow> h e st' | (Inr x, st') \<Rightarrow> (Inr x, st'))"

definition lift :: "exn + 'a \<Rightarrow> 'a act" where
  "lift r st = (r, st)"

definition reading :: "(store \<Rightarrow> 'a) \<Rightarrow> 'a act" where
  "reading f st = (Inr (f st), st)"

definition changing :: "(store \<Rightarrow> store) \<Rightarrow> unit act" where
  "changing f st = (Inr (), f st)"

section \<open>What went wrong\<close>

text \<open>One line of at most 200 characters.\<close>

definition short_reason :: "string \<Rightarrow> string" where
  "short_reason reason =
     (let r = join '' '' (split_ws reason)
      in if length r > 200 then take 197 r @ ''...'' else r)"

definition note_broken :: "string \<Rightarrow> string \<Rightarrow> string \<Rightarrow> bool \<Rightarrow> unit act" where
  "note_broken kind name reason is_retired =
     changing (\<lambda>st. st
       \<lparr>broken_objects := (broken_objects st)
          (kind := AList.update name (short_reason reason) (broken_objects st kind)),
        retired_objects := (if is_retired
          then (retired_objects st)(kind := insert name (retired_objects st kind))
          else retired_objects st)\<rparr>)"

definition record_broken_object :: "package_env \<Rightarrow> string \<Rightarrow> string \<Rightarrow> exn \<Rightarrow> unit act" where
  "record_broken_object env kind name e =
     (if e = Raised ''NeedsUpdateException'' then fail_with e
      else note_broken kind name (if message env e = [] then class_name env e else message env e)
             (e = Raised ''RetiredTypeException''))"

definition get_broken_object_reason :: "string \<Rightarrow> string \<Rightarrow> store \<Rightarrow> string option" where
  "get_broken_object_reason kind name st = map_of (broken_objects st kind) name"

definition is_retired_object :: "string \<Rightarrow> string \<Rightarrow> store \<Rightarrow> bool" where
  "is_retired_object kind name st \<longleftrightarrow> name \<in> retired_objects st kind"

definition get_skipped_object_clause :: "string \<Rightarrow> string \<Rightarrow> store \<Rightarrow> string option" where
  "get_skipped_object_clause kind name st = map_of (skipped_objects st kind) name"


section \<open>Declarations\<close>

subsection \<open>What normalizes one\<close>

text \<open>\<open>Configuration.normalize\<close>: the name, the parameters in their long form, the user's overrides.\<close>

fun override_fails :: "pyval \<Rightarrow> pydict \<Rightarrow> bool" where
  "override_fails (PList vs) parameter_config = (\<exists>n \<in> set (map fst parameter_config). PStr n \<in> set vs)"
| "override_fails (PStr s) parameter_config = (\<exists>n \<in> set (map fst parameter_config). contains_sub s n)"
| "override_fails v parameter_config = (truthy v \<and> parameter_config \<noteq> [])"

definition normalize_configuration ::
  "(string \<times> pydict) list \<Rightarrow> string \<Rightarrow> pydict \<Rightarrow> string \<Rightarrow> exn + pydict" where
  "normalize_configuration config_parameters name config object_name =
     (let config = AList.update ''orig_name'' (PStr name) (AList.update ''name'' (PStr name) config);
          config = (case map_of config ''parameters'' of
                      Some (PDict ps) \<Rightarrow> AList.update ''parameters'' (PDict (normalize_parameters ps)) config
                    | _ \<Rightarrow> config)
      in case map_of config ''parameters'' of
           Some (PDict ps) \<Rightarrow>
             map_sum id (\<lambda>ps. AList.update ''parameters'' (PDict ps) config)
               (apply_user_parameter_overrides config_parameters ps object_name)
         | Some v \<Rightarrow>
             (case map_of config_parameters object_name of
                Some parameter_config \<Rightarrow>
                  if override_fails v parameter_config then Inl TypeError else Inr config
              | None \<Rightarrow> Inr config)
         | None \<Rightarrow> Inr config)"

text \<open>The declaration as a dictionary: \<open>None\<close> is an empty one, a text is the short form of an alias.\<close>

fun as_declaration :: "pyval \<Rightarrow> exn + pydict" where
  "as_declaration PNone = Inr []"
| "as_declaration (PStr s) = Inr [(''type'', PStr ''alias''), (''source'', PStr s)]"
| "as_declaration (PDict d) = Inr d"
| "as_declaration _ = Inl TypeError"

definition setdefault :: "string \<Rightarrow> pyval \<Rightarrow> pydict \<Rightarrow> pydict" where
  "setdefault k v d = (if dict_has d k then d else d @ [(k, v)])"

text \<open>An assembly read from an ASSY file is put together the way the file says, unless it says otherwise.\<close>

definition assembly_defaults :: "pydict \<Rightarrow> pydict" where
  "assembly_defaults d =
     (if map_of d ''type'' = Some (PStr ''assy'') then
        let d = setdefault ''manufacturing'' (PDict []) d in
        case map_of d ''manufacturing'' of
          Some (PDict m) \<Rightarrow> AList.update ''manufacturing'' (PDict (setdefault ''method'' (PStr ''assy'') m)) d
        | _ \<Rightarrow> d
      else d)"

definition software_declaration :: "pyval \<Rightarrow> exn + pydict" where
  "software_declaration v =
     map_sum id (\<lambda>d. if get_or d ''type'' PNone = PNone then AList.update ''type'' (PStr ''raw'') d else d)
       (case v of PStr s \<Rightarrow> Inr [(''path'', PStr s)] | _ \<Rightarrow> as_declaration v)"

text \<open>
  The classes that normalize a declaration, by kind. An assembly or a scene that declares nothing
  fails, because these two are asked for a default before the empty declaration is made.
\<close>

definition normalize_kind ::
  "(string \<times> pydict) list \<Rightarrow> string \<Rightarrow> string \<Rightarrow> pyval \<Rightarrow> string \<Rightarrow> exn + pydict" where
  "normalize_kind config_parameters kind name config object_name =
     and_then
       (if kind = ''software'' then software_declaration config
        else if kind = ''provider'' \<or> kind = ''repository'' then
          (if is_str config then Inl TypeError else as_declaration config)
        else if kind = ''assembly'' \<or> kind = ''scene'' then
          (if \<not> is_str config \<and> \<not> is_dict config then Inl AttributeError
           else map_sum id
                  (if kind = ''assembly'' then assembly_defaults else setdefault ''manufacturable'' (PBool False))
                  (as_declaration config))
        else as_declaration config)
       (\<lambda>d. normalize_configuration config_parameters name d object_name)"

subsection \<open>What a package declares\<close>

definition full_name :: "package_env \<Rightarrow> string \<Rightarrow> string" where
  "full_name env name = package env @ '':'' @ name"

text \<open>The clause that excludes an object here, remembered; a clause that cannot be read excludes it too.\<close>

definition skipped_by :: "package_env \<Rightarrow> string \<Rightarrow> string \<Rightarrow> pyval \<Rightarrow> string option act" where
  "skipped_by env kind name config =
     (case excluded_by config (context_tags_known env) of
        Inl ValueError \<Rightarrow>
          do_then (record_broken_object env kind name ValueError) (\<lambda>_. give (Some INVALID_UNLESS))
      | Inl e \<Rightarrow> fail_with e
      | Inr None \<Rightarrow> give None
      | Inr (Some clause) \<Rightarrow>
          do_then
            (changing (\<lambda>st. st\<lparr>skipped_objects := (skipped_objects st)
               (kind := AList.update name clause (skipped_objects st kind))\<rparr>))
            (\<lambda>_. give (Some clause)))"

fun filter_skipped :: "package_env \<Rightarrow> string \<Rightarrow> pydict \<Rightarrow> pydict act" where
  "filter_skipped env kind [] = give []"
| "filter_skipped env kind ((name, config) # others) =
     do_then (skipped_by env kind name config) (\<lambda>clause.
     do_then (filter_skipped env kind others) (\<lambda>kept.
       give (if clause = None then (name, config) # kept else kept)))"

definition set_configs :: "string \<Rightarrow> pydict \<Rightarrow> unit act" where
  "set_configs kind cs = changing (\<lambda>st. st\<lparr>configs := (configs st)(kind := Some cs)\<rparr>)"

definition object_configs :: "package_env \<Rightarrow> string \<Rightarrow> pydict act" where
  "object_configs env kind =
     do_then (reading (\<lambda>st. configs st kind)) (\<lambda>known.
       case known of
         Some cs \<Rightarrow> give cs
       | None \<Rightarrow>
           do_then (if is_skipped env then give [] else filter_skipped env kind (enumerates env kind)) (\<lambda>cs.
           do_then (set_configs kind cs) (\<lambda>_. give cs)))"

text \<open>
  The declaration with the fields every reader expects, done once per object and kept. A kind
  without a configuration class, and a declaration of nothing, come back as they are.
\<close>

definition with_manufacturable :: "package_env \<Rightarrow> string \<Rightarrow> pydict \<Rightarrow> pydict" where
  "with_manufacturable env kind d =
     (if kind \<in> set LAZY_OBJECT_KINDS
      then setdefault ''manufacturable'' (PBool (makes_products env)) d else d)"

definition normalized_config :: "package_env \<Rightarrow> string \<Rightarrow> string \<Rightarrow> pyval \<Rightarrow> pyval act" where
  "normalized_config env kind name config =
     (if kind \<notin> set CONFIG_KINDS \<or> config = PNone then give config
      else
        do_then (reading (\<lambda>st. name \<in> normalized st kind
              \<and> Option.bind (configs st kind) (\<lambda>cs. map_of cs name) = Some config)) (\<lambda>known.
        if known then give config
        else
          do_then (lift (normalize_kind (overrides env) kind name config (full_name env name))) (\<lambda>d.
          let d = PDict (with_manufacturable env kind d) in
          do_then (changing (\<lambda>st. st
             \<lparr>configs := (configs st)(kind := map_option (AList.update name d) (configs st kind)),
              normalized := (normalized st)(kind := insert name (normalized st kind))\<rparr>)) (\<lambda>_. give d))))"

definition object_config :: "package_env \<Rightarrow> string \<Rightarrow> string \<Rightarrow> pyval act" where
  "object_config env kind name =
     do_then (reading (\<lambda>st. configs st kind)) (\<lambda>known.
       case Option.bind known (\<lambda>cs. map_of cs name) of
         Some config \<Rightarrow> normalized_config env kind name config
       | None \<Rightarrow>
           let one = (if is_skipped env then PNone else serves env kind name) in
           if one \<noteq> PNone then
             do_then (skipped_by env kind name one) (\<lambda>clause.
               if clause \<noteq> None then give PNone else normalized_config env kind name one)
           else if known = None then
             do_then (object_configs env kind) (\<lambda>cs. normalized_config env kind name (get_or cs name PNone))
           else give PNone)"

definition declares_object :: "package_env \<Rightarrow> string \<Rightarrow> string \<Rightarrow> bool act" where
  "declares_object env kind name =
     (let base = fst (parse_parameterized_name name) in
      do_then (object_config env kind base) (\<lambda>config.
        if config \<noteq> PNone then give True
        else if kind = ''part'' \<and> CHR ''/'' \<in> set base then
          do_then (object_config env ''assembly'' (hd (split_on CHR ''/'' base)))
            (\<lambda>owner. give (owner \<noteq> PNone))
        else give False))"


section \<open>Making an object\<close>

subsection \<open>Which factory\<close>

definition RETIRED_TYPES :: "(string \<times> string) list" where
  "RETIRED_TYPES =
     [(''ai-build123d'', ''0.7.153''), (''ai-cadquery'', ''0.7.153''),
      (''ai-openscad'', ''0.7.153''), (''ai-sdf'', ''0.7.153'')]"

definition IMPORTED_KINDS :: "(string \<times> string) list" where
  "IMPORTED_KINDS = [(''assembly'', ''__imported__''), (''scene'', ''__imported__'')]"

text \<open>A type that begins with a colon names a \<open>partType\<close> of the package itself.\<close>

fun full_type :: "package_env \<Rightarrow> string \<Rightarrow> pyval \<Rightarrow> pyval" where
  "full_type env kind (PStr t) =
     (if kind = ''part'' \<and> starts_with t '':'' then PStr (package env @ t) else PStr t)"
| "full_type env kind t = t"

text \<open>What is raised of a type nothing can make: it was retired, or it was never there.\<close>

definition unknown_type :: "string \<Rightarrow> pyval \<Rightarrow> exn" where
  "unknown_type kind t =
     (case t of
        PStr s \<Rightarrow> if kind = ''part'' \<and> dict_has RETIRED_TYPES s then Raised ''RetiredTypeException''
                  else Raised ''UnknownTypeException''
      | _ \<Rightarrow> Raised ''UnknownTypeException'')"

text \<open>The key of the factory that makes a type, the retired and unknown types being an exception.\<close>

definition factory_key :: "package_env \<Rightarrow> string \<Rightarrow> pyval \<Rightarrow> exn + string" where
  "factory_key env kind t =
     (case registered env kind of
        None \<Rightarrow> Inl KeyError
      | Some types \<Rightarrow>
          (case t of
             PList _ \<Rightarrow> Inl TypeError
           | PDict _ \<Rightarrow> Inl TypeError
           | _ \<Rightarrow>
               (case (case t of PStr s \<Rightarrow> if s \<in> set types then Some s else None | _ \<Rightarrow> None) of
                  Some s \<Rightarrow> Inr s
                | None \<Rightarrow>
                    if kind = ''part'' \<and> (case t of PStr s \<Rightarrow> CHR '':'' \<in> set s | _ \<Rightarrow> False)
                      \<and> ''wrapper'' \<in> set types
                    then Inr ''wrapper''
                    else
                      (case map_of IMPORTED_KINDS kind of
                         Some k \<Rightarrow> if k \<in> set types then Inr k else Inl (unknown_type kind t)
                       | None \<Rightarrow> Inl (unknown_type kind t)))))"

definition accepted_object_type_parameters ::
  "package_env \<Rightarrow> string \<Rightarrow> pyval \<Rightarrow> exn + (string \<times> pyval option) list" where
  "accepted_object_type_parameters env kind t =
     (case t of
        PList _ \<Rightarrow> Inl TypeError
      | PDict _ \<Rightarrow> Inl TypeError
      | _ \<Rightarrow>
          Inr (case registered env kind of
                 None \<Rightarrow> []
               | Some types \<Rightarrow> if t \<in> PStr ` set types then accepted env kind t else []))"

subsection \<open>Putting it into the package\<close>

definition set_object :: "string \<Rightarrow> string \<Rightarrow> made_object \<Rightarrow> store \<Rightarrow> store" where
  "set_object kind name obj st =
     st\<lparr>objects := (objects st)(kind := AList.update name obj (objects st kind))\<rparr>"

definition register_object :: "string \<Rightarrow> string \<Rightarrow> made_object \<Rightarrow> unit act" where
  "register_object kind name obj =
     do_then (reading (\<lambda>st. map_of (objects st kind) name)) (\<lambda>existing.
       if existing \<noteq> None \<and> existing \<noteq> Some obj then fail_with (Raised ''ObjectNameTakenError'')
       else changing (set_object kind name obj))"

text \<open>A factory at work: what it produces it registers under the name of the configuration.\<close>

definition make_object :: "package_env \<Rightarrow> string \<Rightarrow> string \<Rightarrow> pydict \<Rightarrow> unit act" where
  "make_object env kind key config =
     (let (produced, raised) = run_factory env kind key config in
      do_then
        (if \<not> produced then give ()
         else
           do_then (lift (text_of (map_of config ''name''))) (\<lambda>name.
           do_then (reading made_count) (\<lambda>n.
           do_then (changing (\<lambda>st. st\<lparr>made_count := n + 1\<rparr>)) (\<lambda>_.
             register_object kind name \<lparr>serial = n, made_by = key, made_from = config\<rparr>))))
        (\<lambda>_. case raised of None \<Rightarrow> give () | Some e \<Rightarrow> fail_with e))"

text \<open>
  \<open>factory.instantiate\<close>, with the configuration as it leaves it. An imported type nobody declares is
  an unknown type; one that is declared in the wrong section is an unknown type as well.
\<close>

definition instantiate_object :: "package_env \<Rightarrow> string \<Rightarrow> pydict \<Rightarrow> pydict act" where
  "instantiate_object env kind config =
     (case map_of config ''type'' of
        None \<Rightarrow> fail_with KeyError
      | Some t \<Rightarrow>
          let full = full_type env kind t;
              config = AList.update ''type'' full config
          in do_then (lift (factory_key env kind full)) (\<lambda>key.
             do_then
               (catching (make_object env kind key config) (\<lambda>e.
                  if map_of IMPORTED_KINDS kind = Some key \<and> e = Raised ''ImportedKindError''
                  then fail_with (Raised ''UnknownTypeException'')
                  else if map_of IMPORTED_KINDS kind = Some key \<and> e = Raised ''ImportedTypeError''
                  then fail_with (unknown_type kind full)
                  else fail_with e))
               (\<lambda>_. give config)))"

subsection \<open>Aliases\<close>

text \<open>What a \<open>for\<close> over the section goes through: the characters of a text, the keys of a dictionary.\<close>

fun elements :: "pyval \<Rightarrow> exn + pyval list" where
  "elements (PList xs) = Inr xs"
| "elements (PStr s) = Inr (map (\<lambda>c. PStr [c]) s)"
| "elements (PDict d) = Inr (map (\<lambda>kv. PStr (fst kv)) d)"
| "elements (PBytes s) = Inr (map (\<lambda>c. PInt (int (code c))) s)"
| "elements v = Inl TypeError"

definition parameters_of_name :: "string \<Rightarrow> string" where
  "parameters_of_name name = dropWhile (\<lambda>c. c \<noteq> CHR '';'') name"

text \<open>The aliases an object asks for; each that cannot be made is its own failure.\<close>

fun make_aliases :: "package_env \<Rightarrow> string \<Rightarrow> string \<Rightarrow> pyval list \<Rightarrow> unit act" where
  "make_aliases env kind object_name [] = give ()"
| "make_aliases env kind object_name (PStr alias_text # others) =
     (let name = alias_text @ parameters_of_name object_name in
      do_then (lift (normalize_kind (overrides env) kind name
                 (PDict [(''type'', PStr ''alias''), (''name'', PStr name), (''source'', PStr ('':'' @ object_name))])
                 (full_name env name))) (\<lambda>config.
      do_then
        (catching
           (do_then (make_object env kind ''alias'' config) (\<lambda>_.
              changing (\<lambda>st. st\<lparr>implicit_aliases := (implicit_aliases st)
                 (kind := insert name (implicit_aliases st kind))\<rparr>)))
           (record_broken_object env kind name))
        (\<lambda>_. make_aliases env kind object_name others)))"
| "make_aliases env kind object_name (_ # others) = fail_with TypeError"

definition init_object_by_config :: "package_env \<Rightarrow> string \<Rightarrow> pydict \<Rightarrow> unit act" where
  "init_object_by_config env kind config =
     do_then (instantiate_object env kind config) (\<lambda>config.
       if kind \<in> set LAZY_OBJECT_KINDS \<and> truthy (get_or config ''aliases'' PNone) then
         do_then (lift (text_of (map_of config ''name''))) (\<lambda>object_name.
         do_then (lift (elements (get_or config ''aliases'' PNone)))
           (make_aliases env kind object_name))
       else give ())"


section \<open>All the objects of a kind\<close>

text \<open>A declaration handed to a factory; one of nothing cannot be asked for its type.\<close>

fun init_declared :: "package_env \<Rightarrow> string \<Rightarrow> pyval \<Rightarrow> unit act" where
  "init_declared env kind (PDict config) = init_object_by_config env kind config"
| "init_declared env kind _ = fail_with TypeError"

definition init_one :: "package_env \<Rightarrow> string \<Rightarrow> string \<Rightarrow> unit act" where
  "init_one env kind name =
     do_then (reading (\<lambda>st. dict_has (objects st kind) name \<and> name \<notin> implicit_aliases st kind)) (\<lambda>there.
       if there then give ()
       else do_then (object_config env kind name) (init_declared env kind))"

fun init_objects :: "package_env \<Rightarrow> string \<Rightarrow> string list \<Rightarrow> unit act" where
  "init_objects env kind [] = give ()"
| "init_objects env kind (name # names) =
     do_then (catching (init_one env kind name) (record_broken_object env kind name))
       (\<lambda>_. init_objects env kind names)"

definition instantiate_kind :: "package_env \<Rightarrow> string \<Rightarrow> unit act" where
  "instantiate_kind env kind =
     do_then (object_configs env kind) (\<lambda>cs. init_objects env kind (map fst cs))"

text \<open>Every object of a kind, made on the first demand for all of them.\<close>

definition lazy_objects :: "package_env \<Rightarrow> string \<Rightarrow> unit act" where
  "lazy_objects env kind =
     do_then (reading (\<lambda>st. kind \<in> instantiated_kinds st)) (\<lambda>done_already.
       if done_already then give ()
       else
         do_then (instantiate_kind env kind) (\<lambda>_.
           changing (\<lambda>st. st\<lparr>instantiated_kinds := insert kind (instantiated_kinds st)\<rparr>)))"

section \<open>Names claimed by aliases\<close>

fun add_claims :: "string \<Rightarrow> pyval list \<Rightarrow> (string \<times> string) list \<Rightarrow> (string \<times> string) list" where
  "add_claims owner [] index = index"
| "add_claims owner (PStr alias_text # others) index =
     (let name = alias_text @ parameters_of_name owner in
      add_claims owner others (if dict_has index name then index else index @ [(name, owner)]))"
| "add_claims owner (_ # others) index = add_claims owner others index"

fun claim_index :: "pydict \<Rightarrow> (string \<times> string) list \<Rightarrow> exn + (string \<times> string) list" where
  "claim_index [] index = Inr index"
| "claim_index ((owner, PDict config) # others) index =
     (let claimed = get_or config ''aliases'' PNone in
      and_then (if truthy claimed then elements claimed else Inr []) (\<lambda>names.
        claim_index others (add_claims owner names index)))"
| "claim_index (_ # others) index = claim_index others index"

definition aliases_declared :: "package_env \<Rightarrow> string \<Rightarrow> (string \<times> string) list act" where
  "aliases_declared env kind =
     do_then (reading (\<lambda>st. alias_index st kind)) (\<lambda>known.
       case known of
         Some index \<Rightarrow> give index
       | None \<Rightarrow>
           do_then (object_configs env kind) (\<lambda>cs.
           do_then (lift (claim_index cs [])) (\<lambda>index.
           do_then (changing (\<lambda>st. st\<lparr>alias_index := (alias_index st)(kind := Some index)\<rparr>))
             (\<lambda>_. give index))))"

definition alias_declared_by :: "package_env \<Rightarrow> string \<Rightarrow> string \<Rightarrow> string option act" where
  "alias_declared_by env kind name =
     do_then (aliases_declared env kind) (\<lambda>index. give (map_of index name))"

section \<open>One object by name\<close>

text \<open>The parameters a reference sets that belong to the type and that the object does not declare.\<close>

fun declare_parameters :: "(string \<times> pyval option) list \<Rightarrow> string list \<Rightarrow> pydict \<Rightarrow> pydict" where
  "declare_parameters known [] config = config"
| "declare_parameters known (name # names) config =
     (let own = (case map_of config ''parameters'' of Some (PDict ps) \<Rightarrow> Some ps | _ \<Rightarrow> None) in
      case map_of known name of
        None \<Rightarrow> declare_parameters known names config
      | Some dflt \<Rightarrow>
          if (case own of Some ps \<Rightarrow> dict_has ps name | None \<Rightarrow> False) then declare_parameters known names config
          else
            let decl = (case dflt of
                    None \<Rightarrow> [(''type'', PNone)]
                  | Some v \<Rightarrow> [(''type'', declared_parameter_type v), (''default'', v)]);
                ps = (case own of Some ps \<Rightarrow> ps | None \<Rightarrow> [])
            in declare_parameters known names
                 (AList.update ''parameters'' (PDict (AList.update name (PDict decl) ps)) config))"

definition declare_object_type_parameters ::
  "package_env \<Rightarrow> string \<Rightarrow> pydict \<Rightarrow> pydict \<Rightarrow> exn + pydict" where
  "declare_object_type_parameters env kind config params =
     and_then (accepted_object_type_parameters env kind (get_or config ''type'' PNone)) (\<lambda>known.
       Inr (declare_parameters known (map fst params) config))"

text \<open>The values a reference sets, as defaults of what is declared or to be passed on.\<close>

definition fill_parameters :: "package_env \<Rightarrow> pydict \<Rightarrow> pydict \<Rightarrow> exn + pydict" where
  "fill_parameters env config params =
     (case get_or config ''parameters'' PNone of
        PDict ps \<Rightarrow>
          map_sum id (\<lambda>ps. AList.update ''parameters'' (PDict ps) config)
            (apply_parameter_values (coerce_value env) ps params)
      | PNone \<Rightarrow>
          (case get_or config ''with'' (PDict []) of
             PDict w \<Rightarrow> Inr (AList.update ''with'' (PDict (dict_update w params)) config)
           | _ \<Rightarrow> Inl TypeError)
      | _ \<Rightarrow> Inl AttributeError)"

text \<open>The configuration of an instance: none for an object with nothing to set a parameter of.\<close>

definition instance_config ::
  "package_env \<Rightarrow> string \<Rightarrow> string \<Rightarrow> string \<Rightarrow> pydict \<Rightarrow> pydict \<Rightarrow> exn + pydict option" where
  "instance_config env kind base_name result_name config params =
     and_then (declare_object_type_parameters env kind config params) (\<lambda>config.
       if get_or config ''parameters'' PNone = PNone \<and> map_of config ''type'' = None then Inl KeyError
       else if get_or config ''parameters'' PNone = PNone
         \<and> get_or config ''type'' PNone \<notin> PStr ` set PARAMETER_PASSING_TYPES then Inr None
       else
         and_then (normalize_kind (overrides env) kind result_name (PDict config) (full_name env result_name))
           (\<lambda>config.
             and_then (fill_parameters env (AList.update ''orig_name'' (PStr base_name) config) params)
               (\<lambda>config. Inr (Some config))))"

definition object_named :: "string \<Rightarrow> string \<Rightarrow> made_object option act" where
  "object_named kind name = reading (\<lambda>st. map_of (objects st kind) name)"

text \<open>
  An object that no declaration names: another object may claim the name for an alias, and is made
  for it.
\<close>

definition object_of_alias :: "package_env \<Rightarrow> string \<Rightarrow> string \<Rightarrow> made_object option act" where
  "object_of_alias env kind name =
     do_then (alias_declared_by env kind name) (\<lambda>owner.
       case owner of
         None \<Rightarrow> give None
       | Some owner \<Rightarrow>
           do_then (object_named kind owner) (\<lambda>made.
           do_then
             (if made \<noteq> None then give ()
              else catching (do_then (object_config env kind owner) (init_declared env kind))
                     (record_broken_object env kind owner))
             (\<lambda>_. object_named kind name)))"

definition plain_object :: "package_env \<Rightarrow> string \<Rightarrow> string \<Rightarrow> made_object option act" where
  "plain_object env kind name =
     do_then (object_config env kind name) (\<lambda>config.
       if config = PNone then object_of_alias env kind name
       else
         do_then
           (catching (do_then (init_declared env kind config) (\<lambda>_. give True))
              (\<lambda>e. do_then (record_broken_object env kind name e) (\<lambda>_. give False)))
           (\<lambda>succeeded.
             if \<not> succeeded then give None
             else
               do_then (object_named kind name) (\<lambda>made.
               do_then (reading (get_broken_object_reason kind name)) (\<lambda>reason.
                 if made \<noteq> None \<or> reason \<noteq> None then give made
                 else do_then (note_broken kind name ''the factory produced no object'' False)
                        (\<lambda>_. give None)))))"

definition make_instance :: "package_env \<Rightarrow> string \<Rightarrow> string \<Rightarrow> pydict \<Rightarrow> made_object option act" where
  "make_instance env kind result_name config =
     do_then
       (catching (do_then (instantiate_object env kind config) (\<lambda>_. give True))
          (\<lambda>e. do_then (record_broken_object env kind result_name e) (\<lambda>_. give False)))
       (\<lambda>succeeded.
         if \<not> succeeded then give None
         else
           do_then (object_named kind result_name) (\<lambda>made.
             if made \<noteq> None then give made
             else do_then (note_broken kind result_name ''the factory produced no object'' False)
                    (\<lambda>_. give None)))"

definition parametrized_object ::
  "package_env \<Rightarrow> string \<Rightarrow> string \<Rightarrow> string \<Rightarrow> pydict \<Rightarrow> made_object option act" where
  "parametrized_object env kind base_name result_name params =
     do_then (object_config env kind base_name) (\<lambda>config.
       case config of
         PDict config \<Rightarrow>
           do_then (lift (instance_config env kind base_name result_name config params)) (\<lambda>instance.
             case instance of
               None \<Rightarrow> give None
             | Some config \<Rightarrow> make_instance env kind result_name config)
       | _ \<Rightarrow> give None)"

definition get_object :: "package_env \<Rightarrow> string \<Rightarrow> string \<Rightarrow> pydict \<Rightarrow> made_object option act" where
  "get_object env kind object_name func_params =
     (let (base_name, params) = parse_parameterized_name object_name;
          params = dict_update (map (\<lambda>(k, v). (k, PStr v)) params) func_params;
          result_name = (if params = [] then object_name
                         else format_parameterized_name (Prelude.py_str (text_of_value env)) base_name params)
      in do_then (object_named kind result_name) (\<lambda>existing.
           if existing \<noteq> None then give existing
           else if params = [] then plain_object env kind object_name
           else parametrized_object env kind base_name result_name params))"


section \<open>Lemmas\<close>

subsection \<open>What every operation does to the state\<close>

named_theorems acts \<open>operations that stay within a relation between states\<close>

definition stays :: "(store \<Rightarrow> store \<Rightarrow> bool) \<Rightarrow> 'a act \<Rightarrow> bool" where
  "stays R m \<longleftrightarrow> (\<forall>st. R st (snd (m st)))"

text \<open>
  A relation between the state before an operation and the state after it, failed or not, that is
  kept through sequences. Its clients are the relations below: what is kept, and what stays true.
\<close>

locale store_relation =
  fixes R :: "store \<Rightarrow> store \<Rightarrow> bool"
  assumes R_refl: "R st st"
    and R_trans: "R st st' \<Longrightarrow> R st' st'' \<Longrightarrow> R st st''"
begin

lemma staysD: "stays R m \<Longrightarrow> m st = (r, st') \<Longrightarrow> R st st'"
  unfolding stays_def by (metis snd_conv)

lemma stays_pure [acts]: "stays R (give x)" "stays R (fail_with e)" "stays R (lift r)" "stays R (reading f)"
  by (simp_all add: stays_def give_def fail_with_def lift_def reading_def R_refl)

lemma stays_changing: "(\<And>st. R st (f st)) \<Longrightarrow> stays R (changing f)"
  by (simp add: stays_def changing_def)

lemma stays_do [acts]:
  assumes "stays R m" "\<And>x. stays R (f x)" shows "stays R (do_then m f)"
  unfolding stays_def
proof
  fix st
  obtain r st' where m: "m st = (r, st')" by force
  have "R st st'" using assms(1) m by (rule staysD)
  moreover have "R st' (snd (f x st'))" for x
    using assms(2) by (simp add: stays_def)
  ultimately show "R st (snd (do_then m f st))"
    using m by (cases r) (auto simp: do_then_def intro: R_trans)
qed

lemma stays_catching [acts]:
  assumes "stays R m" "\<And>e. stays R (h e)" shows "stays R (catching m h)"
  unfolding stays_def
proof
  fix st
  obtain r st' where m: "m st = (r, st')" by force
  have "R st st'" using assms(1) m by (rule staysD)
  moreover have "R st' (snd (h e st'))" for e
    using assms(2) by (simp add: stays_def)
  ultimately show "R st (snd (catching m h st))"
    using m by (cases r) (auto simp: catching_def intro: R_trans)
qed

lemma stays_if [acts]: "(P \<Longrightarrow> stays R m) \<Longrightarrow> (\<not> P \<Longrightarrow> stays R m') \<Longrightarrow> stays R (if P then m else m')"
  by simp

end

lemma normalize_configuration_name:
  "normalize_configuration ps name config full = Inr d \<Longrightarrow> map_of d ''name'' = Some (PStr name)"
  by (auto simp: normalize_configuration_def Let_def map_sum_Inr split: option.splits pyval.splits if_splits)

lemma normalize_kind_name:
  "normalize_kind ps kind name config full = Inr d \<Longrightarrow> map_of d ''name'' = Some (PStr name)"
  by (auto simp: normalize_kind_def and_then_Inr dest: normalize_configuration_name)

lemma skipped_by_configs [simp]: "configs (snd (skipped_by env kind name config st)) = configs st"
  by (auto simp: skipped_by_def do_then_def give_def fail_with_def changing_def record_broken_object_def
      note_broken_def split: sum.splits option.splits exn.splits)

lemma filter_skipped_configs: "configs (snd (filter_skipped env kind cs st)) = configs st"
proof (induction cs arbitrary: st rule: filter_skipped.induct)
  case (1 env kind)
  then show ?case by (simp add: give_def)
next
  case (2 env kind name config others)
  obtain r st1 where r: "skipped_by env kind name config st = (r, st1)" by force
  obtain q st2 where q: "filter_skipped env kind others st1 = (q, st2)" by force
  have "configs (snd (filter_skipped env kind others st1)) = configs st1"
    using 2 by blast
  then have "configs st1 = configs st" "configs st2 = configs st1"
    using skipped_by_configs [of env kind name config st] r q by simp_all
  then show ?case
    by (cases r; cases q) (simp_all add: do_then_def give_def r q)
qed

text \<open>Of the steps that change the state, seven in number, these are the laws a relation needs.\<close>

locale store_steps = store_relation +
  assumes step_broken: "stays R (note_broken kind name reason b)"
    and step_configs: "configs st kind = None \<Longrightarrow> R st (st\<lparr>configs := (configs st)(kind := Some cs)\<rparr>)"
    and step_skipped: "R st (st\<lparr>skipped_objects := (skipped_objects st)
          (kind := AList.update name clause (skipped_objects st kind))\<rparr>)"
    and step_normalized: "map_of d ''name'' = Some (PStr name) \<Longrightarrow>
          R st (st\<lparr>configs := (configs st)(kind := map_option (AList.update name (PDict d)) (configs st kind)),
                  normalized := (normalized st)(kind := insert name (normalized st kind))\<rparr>)"
    and step_new: "map_of (objects st kind) name = None \<or> map_of (objects st kind) name = Some obj
          \<Longrightarrow> map_of (made_from obj) ''name'' = Some (PStr name) \<Longrightarrow> serial obj = made_count st
          \<Longrightarrow> R st (set_object kind name obj (st\<lparr>made_count := made_count st + 1\<rparr>))"
    and step_count: "R st (st\<lparr>made_count := made_count st + 1\<rparr>)"
    and step_implicit: "R st (st\<lparr>implicit_aliases := (implicit_aliases st)
          (kind := insert name (implicit_aliases st kind))\<rparr>)"
    and step_index: "R st (st\<lparr>alias_index := (alias_index st)(kind := Some index)\<rparr>)"
    and step_done: "R st (st\<lparr>instantiated_kinds := insert kind (instantiated_kinds st)\<rparr>)"
begin

lemma stays_record [acts]: "stays R (record_broken_object env kind name e)"
  by (auto simp: record_broken_object_def intro!: acts step_broken)

lemma stays_skipped [acts]: "stays R (skipped_by env kind name config)"
  unfolding skipped_by_def
  by (auto intro!: acts stays_changing step_skipped split: sum.splits option.splits exn.splits)

lemma stays_filter [acts]: "stays R (filter_skipped env kind cs)"
  by (induction cs rule: filter_skipped.induct) (auto intro!: acts)

lemma stays_note [acts]: "stays R (note_broken kind name reason b)"
  by (rule step_broken)

lemma stays_configs [acts]: "stays R (object_configs env kind)"
  unfolding stays_def
proof
  fix st
  let ?m = "if is_skipped env then give [] else filter_skipped env kind (enumerates env kind)"
  show "R st (snd (object_configs env kind st))"
  proof (cases "configs st kind")
    case (Some cs)
    then show ?thesis by (simp add: object_configs_def do_then_def reading_def give_def R_refl)
  next
    case None
    obtain x st' where m: "?m st = (x, st')" by force
    have "stays R ?m" by (auto intro: acts)
    then have "R st st'" using m by (rule staysD)
    moreover have "configs st' = configs st"
      using m filter_skipped_configs [of env kind "enumerates env kind" st] by (auto simp: give_def split: if_splits)
    ultimately have "R st (st'\<lparr>configs := (configs st')(kind := Some cs)\<rparr>)" for cs
      using None step_configs by (metis R_trans)
    then show ?thesis
      using m None \<open>R st st'\<close>
      by (cases x) (auto simp: object_configs_def do_then_def reading_def give_def set_configs_def changing_def)
  qed
qed

lemma stays_normalized [acts]: "stays R (normalized_config env kind name config)"
proof -
  let ?d = "normalize_kind (overrides env) kind name config (full_name env name)"
  have "stays R (do_then (lift ?d) (\<lambda>d. do_then (changing (\<lambda>st. st
     \<lparr>configs := (configs st)(kind := map_option (AList.update name (PDict (with_manufacturable env kind d))) (configs st kind)),
      normalized := (normalized st)(kind := insert name (normalized st kind))\<rparr>))
       (\<lambda>_. give (PDict (with_manufacturable env kind d)))))"
  proof (cases ?d)
    case (Inl e)
    then show ?thesis by (simp add: stays_def do_then_def lift_def R_refl)
  next
    case (Inr d)
    have "map_of (with_manufacturable env kind d) ''name'' = Some (PStr name)"
      using normalize_kind_name [OF Inr] by (simp add: with_manufacturable_def setdefault_def map_add_def)
    then show ?thesis
      unfolding Inr by (auto simp: stays_def do_then_def lift_def changing_def give_def intro: step_normalized)
  qed
  then show ?thesis
    unfolding normalized_config_def Let_def by (auto intro!: acts)
qed

lemma stays_config [acts]: "stays R (object_config env kind name)"
  unfolding object_config_def Let_def by (auto intro!: acts split: option.splits)

lemma stays_make [acts]: "stays R (make_object env kind key config)"
proof (cases "text_of (map_of config ''name'')")
  case (Inl e)
  then show ?thesis
    by (auto simp: make_object_def stays_def do_then_def lift_def give_def fail_with_def R_refl
        split: prod.splits option.splits)
next
  case (Inr name)
  then have n: "map_of config ''name'' = Some (PStr name)"
    by (cases "map_of config ''name''" rule: text_of.cases) auto
  obtain produced raised where r: "run_factory env kind key config = (produced, raised)" by force
  have "R st (snd (do_then (changing (\<lambda>st. st\<lparr>made_count := made_count st + 1\<rparr>)) (\<lambda>_.
      register_object kind name \<lparr>serial = made_count st, made_by = key, made_from = config\<rparr>) st))" for st
    using step_new [of st kind name "\<lparr>serial = made_count st, made_by = key, made_from = config\<rparr>"] step_count n
    by (auto simp: do_then_def changing_def register_object_def reading_def fail_with_def)
  then have "stays R (do_then (reading made_count) (\<lambda>n. do_then (changing (\<lambda>st. st\<lparr>made_count := n + 1\<rparr>)) (\<lambda>_.
      register_object kind name \<lparr>serial = n, made_by = key, made_from = config\<rparr>)))"
    by (simp add: stays_def do_then_def reading_def changing_def)
  then have "stays R (do_then (lift (Inr name)) (\<lambda>name. do_then (reading made_count) (\<lambda>n.
      do_then (changing (\<lambda>st. st\<lparr>made_count := n + 1\<rparr>)) (\<lambda>_.
        register_object kind name \<lparr>serial = n, made_by = key, made_from = config\<rparr>))))"
    by (simp add: stays_def do_then_def lift_def)
  then show ?thesis
    unfolding make_object_def r prod.case Inr by (auto intro!: acts split: option.splits)
qed

lemma stays_instantiate [acts]: "stays R (instantiate_object env kind config)"
  unfolding instantiate_object_def Let_def by (auto intro!: acts split: option.splits)

lemma stays_aliases [acts]: "stays R (make_aliases env kind object_name xs)"
  by (induction env kind object_name xs rule: make_aliases.induct)
    (auto simp: Let_def intro!: acts stays_changing step_implicit)

lemma stays_init [acts]: "stays R (init_object_by_config env kind config)"
  unfolding init_object_by_config_def by (intro acts)

lemma stays_declared [acts]: "stays R (init_declared env kind config)"
  by (cases config) (auto intro: acts)

lemma stays_init_objects [acts]: "stays R (init_objects env kind names)"
  by (induction names) (auto simp: init_one_def intro!: acts)

lemma stays_lazy [acts]: "stays R (lazy_objects env kind)"
  unfolding lazy_objects_def instantiate_kind_def by (intro acts stays_changing step_done)

lemma stays_index [acts]: "stays R (alias_declared_by env kind name)"
  unfolding alias_declared_by_def aliases_declared_def
  by (auto intro!: acts stays_changing step_index split: option.splits)

lemma stays_plain [acts]: "stays R (plain_object env kind name)"
  unfolding plain_object_def object_of_alias_def object_named_def
  by (auto intro!: acts split: option.splits)

lemma stays_parametrized [acts]: "stays R (parametrized_object env kind base_name result_name params)"
  unfolding parametrized_object_def make_instance_def object_named_def
  by (auto intro!: acts split: option.splits pyval.splits)

lemma stays_get [acts]: "stays R (get_object env kind name func_params)"
  unfolding get_object_def Let_def object_named_def by (auto intro!: acts split: prod.splits)

end

subsection \<open>What is kept\<close>

text \<open>An object stays the one it is; a reason once recorded stays recorded; nothing declared is dropped.\<close>

definition keeps :: "store \<Rightarrow> store \<Rightarrow> bool" where
  "keeps st st' \<longleftrightarrow>
     (\<forall>kind n obj. map_of (objects st kind) n = Some obj \<longrightarrow> map_of (objects st' kind) n = Some obj) \<and>
     (\<forall>kind n. dict_has (broken_objects st kind) n \<longrightarrow> dict_has (broken_objects st' kind) n) \<and>
     (\<forall>kind cs. configs st kind = Some cs \<longrightarrow> (\<exists>cs'. configs st' kind = Some cs' \<and>
        dom (map_of cs) \<subseteq> dom (map_of cs')))"

text \<open>Every object is filed under the name it was made for, and no two are the same.\<close>

definition well_made :: "store \<Rightarrow> bool" where
  "well_made st \<longleftrightarrow>
     (\<forall>kind n obj. map_of (objects st kind) n = Some obj \<longrightarrow>
        map_of (made_from obj) ''name'' = Some (PStr n) \<and> serial obj < made_count st) \<and>
     (\<forall>kind n obj kind' n' obj'. map_of (objects st kind) n = Some obj \<longrightarrow>
        map_of (objects st kind') n' = Some obj' \<longrightarrow> serial obj = serial obj' \<longrightarrow> kind = kind' \<and> n = n')"

text \<open>A package that knows what it declares, and whose normalized declarations carry their names.\<close>

definition settled :: "store \<Rightarrow> bool" where
  "settled st \<longleftrightarrow>
     (\<forall>kind. configs st kind \<noteq> None) \<and>
     (\<forall>kind n cs d. n \<in> normalized st kind \<longrightarrow> configs st kind = Some cs \<longrightarrow> map_of cs n = Some (PDict d)
        \<longrightarrow> map_of d ''name'' = Some (PStr n))"

lemma keeps_same:
  "objects st' = objects st \<Longrightarrow> broken_objects st' = broken_objects st \<Longrightarrow> configs st' = configs st \<Longrightarrow> keeps st st'"
  by (simp add: keeps_def)

lemma keeps_object: "keeps st st' \<Longrightarrow> map_of (objects st kind) n = Some obj \<Longrightarrow> map_of (objects st' kind) n = Some obj"
  by (simp add: keeps_def)

lemma keeps_broken: "keeps st st' \<Longrightarrow> dict_has (broken_objects st kind) n \<Longrightarrow> dict_has (broken_objects st' kind) n"
  by (simp add: keeps_def)

lemma keeps_configs:
  assumes "keeps st st'" "configs st kind = Some cs"
  obtains cs' where "configs st' kind = Some cs'" "dom (map_of cs) \<subseteq> dom (map_of cs')"
proof -
  have "\<exists>cs'. configs st' kind = Some cs' \<and> dom (map_of cs) \<subseteq> dom (map_of cs')"
    using assms by (simp add: keeps_def)
  then show thesis using that by blast
qed

lemma keeps_declared:
  "keeps st st' \<Longrightarrow> configs st kind = Some cs \<Longrightarrow> map_of cs n \<noteq> None
    \<Longrightarrow> \<exists>cs'. configs st' kind = Some cs' \<and> map_of cs' n \<noteq> None"
  by (elim keeps_configs) (auto simp: domIff)

lemma keeps_trans:
  assumes "keeps st st'" "keeps st' st''"
  shows "keeps st st''"
proof -
  have "\<exists>cs''. configs st'' kind = Some cs'' \<and> dom (map_of cs) \<subseteq> dom (map_of cs'')"
    if c: "configs st kind = Some cs" for kind cs
  proof -
    obtain cs' where c': "configs st' kind = Some cs'" "dom (map_of cs) \<subseteq> dom (map_of cs')"
      by (rule keeps_configs [OF assms(1) c])
    obtain cs'' where "configs st'' kind = Some cs''" "dom (map_of cs') \<subseteq> dom (map_of cs'')"
      by (rule keeps_configs [OF assms(2) c'(1)])
    with c'(2) show ?thesis by auto
  qed
  then show ?thesis
    using keeps_object keeps_broken assms unfolding keeps_def [of st st''] by simp
qed

interpretation kept: store_steps keeps
proof unfold_locales
  show "keeps st st'' " if "keeps st st'" "keeps st' st''" for st st' st''
    using that by (rule keeps_trans)
  show "stays keeps (note_broken kind name reason b)" for kind name reason b
    by (simp add: stays_def note_broken_def changing_def keeps_def)
  show "keeps st (st\<lparr>configs := (configs st)(kind := Some cs)\<rparr>)" if "configs st kind = None" for st kind cs
    using that by (simp add: keeps_def)
  show "keeps st (st\<lparr>configs := (configs st)(kind := map_option (AList.update name (PDict d)) (configs st kind)),
      normalized := (normalized st)(kind := insert name (normalized st kind))\<rparr>)" for st kind name d
    by (simp add: keeps_def subset_insertI)
  show "keeps st (set_object kind name obj (st\<lparr>made_count := made_count st + 1\<rparr>))"
    if "map_of (objects st kind) name = None \<or> map_of (objects st kind) name = Some obj" for st kind name obj
    using that by (auto simp: keeps_def set_object_def)
qed (rule keeps_same; simp)+

lemma well_made_same: "objects st' = objects st \<Longrightarrow> made_count st \<le> made_count st' \<Longrightarrow> well_made st \<longrightarrow> well_made st'"
  unfolding well_made_def by (simp, metis less_le_trans)

lemma well_madeD: "well_made st \<Longrightarrow> map_of (objects st kind) n = Some obj \<Longrightarrow> serial obj < made_count st"
  by (simp add: well_made_def)

lemma well_made_new:
  assumes w: "well_made st" and obj: "map_of (made_from obj) ''name'' = Some (PStr name)" "serial obj = made_count st"
  shows "well_made (set_object kind name obj (st\<lparr>made_count := made_count st + 1\<rparr>))"
proof -
  let ?st = "set_object kind name obj (st\<lparr>made_count := made_count st + 1\<rparr>)"
  have at: "map_of (objects ?st k) n = (if k = kind \<and> n = name then Some obj else map_of (objects st k) n)" for k n
    by (simp add: set_object_def)
  have lt: "serial o' \<noteq> made_count st" if "map_of (objects st k) n = Some o'" for k n o'
    using well_madeD [OF w that] by simp
  have count: "made_count ?st = made_count st + 1"
    by (simp add: set_object_def)
  have "map_of (made_from o') ''name'' = Some (PStr n) \<and> serial o' < made_count ?st"
    if "map_of (objects ?st k) n = Some o'" for k n o'
    using that w obj unfolding at count by (auto simp: well_made_def less_SucI split: if_splits)
  moreover have "k = k' \<and> n = n'"
    if "map_of (objects ?st k) n = Some o'" "map_of (objects ?st k') n' = Some o''" "serial o' = serial o''" for k n o' k' n' o''
  proof (cases "(k = kind \<and> n = name) = (k' = kind \<and> n' = name)")
    case True
    then show ?thesis using that w unfolding at well_made_def by (auto split: if_splits)
  next
    case False
    then show ?thesis
    proof (cases "k = kind \<and> n = name")
      case True
      with False have "map_of (objects st k') n' = Some o''" "o' = obj"
        using that(1,2) unfolding at by (auto split: if_splits)
      then show ?thesis using lt [of k' n' o''] that(3) obj(2) by simp
    next
      case new: False
      with False have "map_of (objects st k) n = Some o'" "o'' = obj"
        using that(1,2) unfolding at by (auto split: if_splits)
      then show ?thesis using lt [of k n o'] that(3) obj(2) by simp
    qed
  qed
  ultimately show ?thesis unfolding well_made_def by blast
qed

interpretation well: store_steps "\<lambda>st st'. well_made st \<longrightarrow> well_made st'"
proof unfold_locales
  show "stays (\<lambda>st st'. well_made st \<longrightarrow> well_made st') (note_broken kind name reason b)" for kind name reason b
    by (simp add: stays_def note_broken_def changing_def well_made_same)
  show "well_made st \<longrightarrow> well_made (set_object kind name obj (st\<lparr>made_count := made_count st + 1\<rparr>))"
    if "map_of (made_from obj) ''name'' = Some (PStr name)" "serial obj = made_count st" for st kind name obj
    using that well_made_new by blast
  show "well_made st \<longrightarrow> well_made st''" if "well_made st \<longrightarrow> well_made st'" "well_made st' \<longrightarrow> well_made st''"
    for st st' st'' using that by simp
qed (rule well_made_same; simp)+

lemma settled_same: "configs st' = configs st \<Longrightarrow> normalized st' = normalized st \<Longrightarrow> settled st \<longrightarrow> settled st'"
  by (simp add: settled_def)

lemma settled_normalized:
  assumes "settled st" "map_of d ''name'' = Some (PStr name)"
  shows "settled (st\<lparr>configs := (configs st)(kind := map_option (AList.update name (PDict d)) (configs st kind)),
      normalized := (normalized st)(kind := insert name (normalized st kind))\<rparr>)"
  using assms unfolding settled_def by (auto split: if_splits)

interpretation ready: store_steps "\<lambda>st st'. settled st \<longrightarrow> settled st'"
proof unfold_locales
  show "stays (\<lambda>st st'. settled st \<longrightarrow> settled st') (note_broken kind name reason b)" for kind name reason b
    by (simp add: stays_def note_broken_def changing_def settled_same)
  show "settled st \<longrightarrow> settled (st\<lparr>configs := (configs st)(kind := Some cs)\<rparr>)" if "configs st kind = None" for st kind cs
    using that settled_def by blast
  show "settled st \<longrightarrow> settled (st\<lparr>configs := (configs st)(kind := map_option (AList.update name (PDict d)) (configs st kind)),
      normalized := (normalized st)(kind := insert name (normalized st kind))\<rparr>)"
    if "map_of d ''name'' = Some (PStr name)" for st kind name d
    using that settled_normalized by blast
  show "settled st \<longrightarrow> settled st''" if "settled st \<longrightarrow> settled st'" "settled st' \<longrightarrow> settled st''"
    for st st' st'' using that by simp
qed (rule settled_same; simp add: set_object_def)+

subsection \<open>Sequences of calls\<close>

text \<open>What is asked of a package: an object, all of a kind, a declaration, whether there is one.\<close>

inductive store_step :: "package_env \<Rightarrow> store \<Rightarrow> store \<Rightarrow> bool" for env where
  one: "get_object env kind name func_params st = (r, st') \<Longrightarrow> store_step env st st'"
| all_of: "lazy_objects env kind st = (r', st') \<Longrightarrow> store_step env st st'"
| declared: "object_config env kind name st = (r'', st') \<Longrightarrow> store_step env st st'"

lemma step_keeps: "store_step env st st' \<Longrightarrow> keeps st st'"
  by (induction rule: store_step.induct)
    (auto intro: kept.staysD [OF kept.stays_get] kept.staysD [OF kept.stays_lazy] kept.staysD [OF kept.stays_config])

lemma step_well_made: "store_step env st st' \<Longrightarrow> well_made st \<longrightarrow> well_made st'"
proof (induction rule: store_step.induct)
  case (one kind name func_params st r st')
  then show ?case by (rule well.staysD [OF well.stays_get])
next
  case (all_of kind st r' st')
  then show ?case by (rule well.staysD [OF well.stays_lazy])
next
  case (declared kind name st r'' st')
  then show ?case by (rule well.staysD [OF well.stays_config])
qed

lemma steps_keep: "(store_step env)\<^sup>*\<^sup>* st st' \<Longrightarrow> keeps st st'"
  by (induction rule: rtranclp_induct) (auto intro: kept.R_refl keeps_trans step_keeps)

definition new_store :: "(string \<Rightarrow> pydict option) \<Rightarrow> store" where
  "new_store declared_configs =
     \<lparr>configs = declared_configs, normalized = (\<lambda>k. {}), broken_objects = (\<lambda>k. []), retired_objects = (\<lambda>k. {}),
      skipped_objects = (\<lambda>k. []), objects = (\<lambda>k. []), implicit_aliases = (\<lambda>k. {}), alias_index = (\<lambda>k. None),
      instantiated_kinds = {}, made_count = 0\<rparr>"

lemma new_store_ok: "well_made (new_store cs)" "(\<And>k. cs k \<noteq> None) \<Longrightarrow> settled (new_store cs)"
  by (simp_all add: well_made_def settled_def new_store_def)

interpretation package_calls: step_system "\<lambda>st. \<exists>cs. st = new_store cs" "store_step env" well_made
  using step_well_made new_store_ok by unfold_locales blast+

text \<open>C5: 
  In a package that has been asked for anything, in any order, every object is filed under the name
  it was made for and under that name only, and none is ever displaced: whatever is asked of the
  package later finds it there, with the same number.
\<close>

theorem no_object_is_displaced:
  assumes "(store_step env)\<^sup>*\<^sup>* (new_store cs) st" and "(store_step env)\<^sup>*\<^sup>* st st'"
    and "map_of (objects st kind) n = Some obj"
  shows "map_of (objects st' kind) n = Some obj \<and> map_of (made_from obj) ''name'' = Some (PStr n)
    \<and> (\<forall>k m. map_of (objects st' k) m = Some obj \<longrightarrow> k = kind \<and> m = n)"
proof -
  have "(store_step env)\<^sup>*\<^sup>* (new_store cs) st'"
    using assms(1,2) by simp
  then have "well_made st'"
    by (rule package_calls.run_inv) blast
  moreover have "map_of (objects st' kind) n = Some obj"
    using steps_keep [OF assms(2)] assms(3) by (rule keeps_object)
  ultimately show ?thesis
    unfolding well_made_def by blast
qed

subsection \<open>One object by name\<close>

lemma do_then_Inr: "do_then m f st = (Inr y, st') \<longleftrightarrow> (\<exists>x s. m st = (Inr x, s) \<and> f x s = (Inr y, st'))"
  by (auto simp: do_then_def split: prod.splits sum.splits)

lemma give_Inr: "give x st = (Inr y, st') \<longleftrightarrow> y = x \<and> st' = st"
  by (auto simp: give_def)

lemma reading_Inr: "reading f st = (Inr y, st') \<longleftrightarrow> y = f st \<and> st' = st"
  by (auto simp: reading_def)

lemma changing_Inr: "changing f st = (Inr y, st') \<longleftrightarrow> st' = f st"
  by (auto simp: changing_def)

lemma fail_Inr: "fail_with e st \<noteq> (Inr y, st')"
  by (simp add: fail_with_def)

lemma lift_Inr: "lift r st = (Inr y, st') \<longleftrightarrow> r = Inr y \<and> st' = st"
  by (auto simp: lift_def)

lemmas act_Inr = do_then_Inr give_Inr reading_Inr changing_Inr fail_Inr lift_Inr

lemma named_there: "object_named kind name st = (Inr (Some obj), st') \<Longrightarrow> map_of (objects st' kind) name = Some obj"
  by (auto simp: object_named_def act_Inr)

lemma alias_there:
  "object_of_alias env kind name st = (Inr (Some obj), st') \<Longrightarrow> map_of (objects st' kind) name = Some obj"
  by (auto simp: object_of_alias_def act_Inr split: option.splits dest: named_there)

lemma plain_there:
  "plain_object env kind name st = (Inr (Some obj), st') \<Longrightarrow> map_of (objects st' kind) name = Some obj"
  by (auto simp: plain_object_def act_Inr object_named_def split: if_splits dest: alias_there)

lemma instance_there:
  "make_instance env kind name config st = (Inr (Some obj), st') \<Longrightarrow> map_of (objects st' kind) name = Some obj"
  by (auto simp: make_instance_def act_Inr object_named_def split: if_splits)

lemma parametrized_there:
  assumes "parametrized_object env kind base_name result_name params st = (Inr (Some obj), st')"
  shows "map_of (objects st' kind) result_name = Some obj"
proof -
  obtain config s where c: "(case config of PDict config \<Rightarrow>
           do_then (lift (instance_config env kind base_name result_name config params)) (\<lambda>instance.
             case instance of None \<Rightarrow> give None | Some config \<Rightarrow> make_instance env kind result_name config)
       | _ \<Rightarrow> give None) s = (Inr (Some obj), st')"
    using assms unfolding parametrized_object_def do_then_Inr by blast
  then obtain d where "config = PDict d"
    by (cases config) (simp_all add: give_Inr)
  with c show ?thesis
    by (auto simp: act_Inr split: option.splits dest: instance_there)
qed

text \<open>The name an object is asked for by, its parameters spelled the one way.\<close>

definition result_name_of :: "package_env \<Rightarrow> string \<Rightarrow> pydict \<Rightarrow> string" where
  "result_name_of env object_name func_params =
     (let (base_name, params) = parse_parameterized_name object_name;
          params = dict_update (map (\<lambda>(k, v). (k, PStr v)) params) func_params
      in if params = [] then object_name
         else format_parameterized_name (Prelude.py_str (text_of_value env)) base_name params)"

lemma get_object_there:
  assumes "get_object env kind name func_params st = (Inr (Some obj), st')"
  shows "map_of (objects st' kind) (result_name_of env name func_params) = Some obj"
  using assms
  by (auto simp: get_object_def result_name_of_def Let_def act_Inr split: prod.splits if_splits
      dest: named_there plain_there parametrized_there)

lemma get_object_again:
  assumes "map_of (objects st kind) (result_name_of env name func_params) = Some obj"
  shows "get_object env kind name func_params st = (Inr (Some obj), st)"
  using assms
  by (auto simp: get_object_def result_name_of_def Let_def object_named_def do_then_def reading_def give_def
      split: prod.splits if_splits)


subsection \<open>All of a kind\<close>

definition produces :: "package_env \<Rightarrow> bool" where
  "produces env \<longleftrightarrow> (\<forall>kind key config. run_factory env kind key config \<noteq> (False, None))"

definition accounted :: "string \<Rightarrow> string \<Rightarrow> store \<Rightarrow> bool" where
  "accounted kind name st \<longleftrightarrow> dict_has (objects st kind) name \<or> dict_has (broken_objects st kind) name"

lemma accounted_keeps: "keeps st st' \<Longrightarrow> accounted kind name st \<Longrightarrow> accounted kind name st'"
  unfolding accounted_def using keeps_object keeps_broken by fastforce

lemma catching_Inr:
  "catching m h st = (Inr x, st') \<longleftrightarrow> m st = (Inr x, st') \<or> (\<exists>e s. m st = (Inl e, s) \<and> h e s = (Inr x, st'))"
  by (auto simp: catching_def split: prod.splits sum.splits)

lemma normalized_named:
  assumes "settled st" "configs st kind = Some cs" "map_of cs name = Some config" "kind \<in> set CONFIG_KINDS"
    and "normalized_config env kind name config st = (Inr (PDict d), st')"
  shows "map_of d ''name'' = Some (PStr name)"
proof (cases "name \<in> normalized st kind")
  case True
  have "config \<noteq> PNone" using assms(4,5) by (auto simp: normalized_config_def give_def)
  then have "config = PDict d"
    using True assms by (auto simp: normalized_config_def act_Inr split: if_splits)
  with True assms show ?thesis unfolding settled_def by blast
next
  case False
  have "config \<noteq> PNone" using assms(4,5) by (auto simp: normalized_config_def give_def)
  then obtain d' where "normalize_kind (overrides env) kind name config (full_name env name) = Inr d'"
    and d: "d = with_manufacturable env kind d'"
    using False assms(4,5) by (auto simp: normalized_config_def act_Inr Let_def)
  then show ?thesis
    using normalize_kind_name by (fastforce simp: d with_manufacturable_def setdefault_def map_add_def)
qed

lemma object_config_named:
  assumes "settled st" "configs st kind = Some cs" "map_of cs name \<noteq> None" "kind \<in> set CONFIG_KINDS"
    and "object_config env kind name st = (Inr (PDict d), st')"
  shows "map_of d ''name'' = Some (PStr name)"
proof -
  obtain config where c: "map_of cs name = Some config" using assms(3) by auto
  then have "normalized_config env kind name config st = (Inr (PDict d), st')"
    using assms(2,5) by (simp add: object_config_def act_Inr)
  then show ?thesis using normalized_named assms(1,2,4) c by blast
qed

lemma make_object_made:
  assumes "make_object env kind key config st = (Inr (), st')" "produces env"
    and "map_of config ''name'' = Some (PStr name)"
  shows "dict_has (objects st' kind) name"
proof -
  obtain p r where run: "run_factory env kind key config = (p, r)" by force
  with assms(1) have "r = None"
    by (auto simp: make_object_def act_Inr split: option.splits)
  with run assms(2) have "p" unfolding produces_def by metis
  with run \<open>r = None\<close> assms(1,3) show ?thesis
    by (auto simp: make_object_def act_Inr register_object_def set_object_def split: if_splits)
qed

lemma instantiate_made:
  assumes "instantiate_object env kind config st = (Inr config', st')" "produces env"
    and "map_of config ''name'' = Some (PStr name)"
  shows "dict_has (objects st' kind) name"
proof -
  obtain t where t: "map_of config ''type'' = Some t"
    using assms(1) by (cases "map_of config ''type''") (auto simp: instantiate_object_def fail_with_def)
  let ?config = "AList.update ''type'' (full_type env kind t) config"
  obtain key s where "make_object env kind key ?config s = (Inr (), st')"
    using assms(1) t by (auto simp: instantiate_object_def Let_def act_Inr catching_Inr split: if_splits)
  then show ?thesis
    by (rule make_object_made [OF _ assms(2)]) (simp add: assms(3))
qed

lemma init_declared_made:
  assumes "init_declared env kind (PDict d) st = (Inr (), st')" "produces env"
    and "map_of d ''name'' = Some (PStr name)"
  shows "dict_has (objects st' kind) name"
proof -
  obtain config s where i: "instantiate_object env kind d st = (Inr config, s)"
    and r: "(if kind \<in> set LAZY_OBJECT_KINDS \<and> truthy (get_or config ''aliases'' PNone) then
         do_then (lift (text_of (map_of config ''name''))) (\<lambda>object_name.
         do_then (lift (elements (get_or config ''aliases'' PNone))) (make_aliases env kind object_name))
       else give ()) s = (Inr (), st')"
    using assms(1) by (auto simp: init_object_by_config_def do_then_Inr)
  have "stays keeps (if kind \<in> set LAZY_OBJECT_KINDS \<and> truthy (get_or config ''aliases'' PNone) then
         do_then (lift (text_of (map_of config ''name''))) (\<lambda>object_name.
         do_then (lift (elements (get_or config ''aliases'' PNone))) (make_aliases env kind object_name))
       else give ())"
    by (intro kept.stays_if kept.stays_do kept.stays_pure kept.stays_aliases)
  then have "keeps s st'" using r by (rule kept.staysD)
  moreover obtain obj where "map_of (objects s kind) name = Some obj"
    using instantiate_made [OF i assms(2,3)] by blast
  ultimately show ?thesis by (simp add: keeps_object)
qed

lemma init_one_accounted:
  assumes "settled st" "configs st kind = Some cs" "map_of cs name \<noteq> None" "kind \<in> set CONFIG_KINDS" "produces env"
    and "init_one env kind name st = (Inr (), st')"
  shows "accounted kind name st'"
proof (cases "dict_has (objects st kind) name \<and> name \<notin> implicit_aliases st kind")
  case True
  then show ?thesis using assms(6) by (auto simp: init_one_def act_Inr accounted_def split: if_splits)
next
  case False
  then obtain config s where c: "object_config env kind name st = (Inr config, s)"
      "init_declared env kind config s = (Inr (), st')"
    using assms(6) by (auto simp: init_one_def act_Inr split: if_splits)
  then obtain d where "config = PDict d"
    by (cases config) (simp_all add: fail_Inr)
  with c show ?thesis
    using init_declared_made object_config_named assms by (simp add: accounted_def)
qed

lemma record_accounts:
  "record_broken_object env kind name e st = (Inr (), st') \<Longrightarrow> accounted kind name st'"
  by (auto simp: record_broken_object_def fail_with_def note_broken_def changing_def accounted_def split: if_splits)

lemma init_objects_accounted:
  assumes "kind \<in> set CONFIG_KINDS" "produces env"
  shows "settled st \<Longrightarrow> configs st kind = Some cs \<Longrightarrow> \<forall>n \<in> set names. map_of cs n \<noteq> None
    \<Longrightarrow> init_objects env kind names st = (Inr (), st') \<Longrightarrow> \<forall>n \<in> set names. accounted kind n st'"
proof (induction names arbitrary: st cs)
  case Nil
  then show ?case by simp
next
  case (Cons n names)
  let ?m = "catching (init_one env kind n) (record_broken_object env kind n)"
  obtain s where m: "?m st = (Inr (), s)" and rest: "init_objects env kind names s = (Inr (), st')"
    using Cons.prems(4) by (auto simp: act_Inr)
  have "accounted kind n s"
    using m unfolding catching_Inr
    using init_one_accounted [OF Cons.prems(1,2) _ assms] Cons.prems(3) record_accounts by fastforce
  moreover have "keeps s st'"
    using rest by (rule kept.staysD [OF kept.stays_init_objects])
  ultimately have "accounted kind n st'" by (rule accounted_keeps [rotated])
  have "stays R ?m" if "store_steps R" for R
    using that by (auto simp: init_one_def intro!: store_steps.axioms(1) store_relation.stays_catching
        store_relation.stays_do store_relation.stays_if store_relation.stays_pure store_steps.stays_config
        store_steps.stays_declared store_steps.stays_record)
  then have "keeps st s" "settled st \<longrightarrow> settled s"
    using kept.staysD m ready.staysD kept.store_steps_axioms ready.store_steps_axioms by blast+
  moreover obtain cs' where "configs s kind = Some cs'" "\<forall>n \<in> set names. map_of cs' n \<noteq> None"
    using keeps_configs [OF \<open>keeps st s\<close> Cons.prems(2)] Cons.prems(3) by (metis domIff in_mono list.set_intros(2))
  ultimately have "\<forall>n \<in> set names. accounted kind n st'"
    using Cons.IH Cons.prems(1) rest by blast
  with \<open>accounted kind n st'\<close> show ?case by simp
qed


subsection \<open>A small package\<close>

definition sample_env :: package_env where
  "sample_env =
     \<lparr>package = ''//shop'', is_skipped = False, makes_products = True, context_tags_known = {''arm64''},
      overrides = [], registered = (\<lambda>k. Some [''cad'', ''alias'']), run_factory = (\<lambda>kind key config. (True, None)),
      accepted = (\<lambda>k t. []), coerce_value = (\<lambda>t v. Inr v), text_of_value = (\<lambda>v. ''?''),
      message = (\<lambda>e. ''no''), class_name = (\<lambda>e. ''Exception''),
      serves = (\<lambda>kind name. if name = ''bolt'' then PDict [(''type'', PStr ''cad'')] else PNone),
      enumerates = (\<lambda>kind. [(''bolt'', PDict [(''type'', PStr ''cad'')])])\<rparr>"

definition sample_parts :: pydict where
  "sample_parts =
     [(''cube'', PDict [(''type'', PStr ''cad''), (''aliases'', PList [PStr ''box'']),
         (''parameters'', PDict [(''size'', PInt 3)])]),
      (''dice'', PStr '':cube''),
      (''old'', PDict [(''type'', PStr ''ai-sdf'')])]"

definition sample_store :: store where
  "sample_store = new_store (\<lambda>k. Some (if k = ''part'' then sample_parts else []))"

text \<open>The name, factory and number of the object an operation answers with.\<close>

definition answer_of :: "(exn + made_object option) \<times> store \<Rightarrow> (string \<times> nat) option" where
  "answer_of r = (case fst r of Inr (Some obj) \<Rightarrow> Some (made_by obj, serial obj) | _ \<Rightarrow> None)"

lemma sample_store_settled: "settled sample_store"
  unfolding sample_store_def by (rule new_store_ok(2)) simp

lemma sample_asks:
  "answer_of (get_object sample_env ''part'' ''cube'' [] sample_store) = Some (''cad'', 0)"
  "answer_of (get_object sample_env ''part'' ''cube;size=4'' [] sample_store) = Some (''cad'', 0)"
  "answer_of (get_object sample_env ''part'' ''box'' [] sample_store) = Some (''alias'', 1)"
  "answer_of (get_object sample_env ''part'' ''old'' [] sample_store) = None"
  "is_retired_object ''part'' ''old'' (snd (get_object sample_env ''part'' ''old'' [] sample_store))"
  by code_simp+

text \<open>A name that another object claims for an alias takes no parameters, a declared alias does.\<close>

lemma claimed_name_takes_no_parameters:
  "answer_of (get_object sample_env ''part'' ''box;size=4'' [] sample_store) = None"
  "answer_of (get_object sample_env ''part'' ''dice;size=4'' [] sample_store) = Some (''alias'', 0)"
  by code_simp+

text \<open>
  Of a package served by a plugin: a declaration read by itself and then listed is taken for one
  that is normalized, and comes back as it was served.
\<close>

lemma fetched_then_listed_is_raw:
  defines "st1 \<equiv> snd (object_config sample_env ''part'' ''bolt'' (new_store (\<lambda>k. None)))"
  defines "st2 \<equiv> snd (object_configs sample_env ''part'' st1)"
  shows "fst (object_config sample_env ''part'' ''bolt'' (new_store (\<lambda>k. None)))
    = Inr (PDict [(''type'', PStr ''cad''), (''name'', PStr ''bolt''), (''orig_name'', PStr ''bolt''),
             (''manufacturable'', PBool True)])"
    and "fst (object_config sample_env ''part'' ''bolt'' st2) = Inr (PDict [(''type'', PStr ''cad'')])"
  unfolding st2_def st1_def by code_simp+

text \<open>A sketch stated as nothing is an empty declaration when listed and no object when asked for.\<close>

lemma answer_ofD: "answer_of r = Some x \<Longrightarrow> \<exists>obj st. r = (Inr (Some obj), st) \<and> x = (made_by obj, serial obj)"
  by (cases r) (auto simp: answer_of_def split: sum.splits option.splits)

theorem no_object_is_displaced_witness:
  "\<exists>obj st. get_object sample_env ''part'' ''box'' [] sample_store = (Inr (Some obj), st)
     \<and> map_of (objects (snd (lazy_objects sample_env ''part'' st)) ''part'') ''box'' = Some obj"
proof -
  obtain obj st where r: "get_object sample_env ''part'' ''box'' [] sample_store = (Inr (Some obj), st)"
    using answer_ofD [OF sample_asks(3)] by blast
  have "result_name_of sample_env ''box'' [] = ''box''"
    by code_simp
  then have there: "map_of (objects st ''part'') ''box'' = Some obj"
    using get_object_there [OF r] by simp
  have a: "(store_step sample_env)\<^sup>*\<^sup>* (new_store (\<lambda>k. Some (if k = ''part'' then sample_parts else []))) st"
    using r unfolding sample_store_def by (blast intro: r_into_rtranclp store_step.one)
  have b: "(store_step sample_env)\<^sup>*\<^sup>* st (snd (lazy_objects sample_env ''part'' st))"
    by (rule r_into_rtranclp, rule store_step.all_of, rule surjective_pairing)
  show ?thesis
    using no_object_is_displaced [OF a b there] r by blast
qed



end
