(* ===== verification/DerivedParts.thy ===== *)
theory DerivedParts
  imports ObjectStore
begin

text \<open>
  Parts that an assembly or a scene makes for itself: \<open>_derived_part_owner\<close>, \<open>_claim_derived_part\<close>
  and \<open>_finish_derived_part\<close> of \<open>src/src/partcad/project.py\<close>. Which object has to be built for a part to
  exist, and how the callers that need it at the same time agree on who builds it, as a step system.
\<close>

section \<open>Whose part it is\<close>

definition PART_PRODUCING_BUILTIN_TYPES :: "string list" where
  "PART_PRODUCING_BUILTIN_TYPES = [''step'']"

definition produces_own_parts :: "package_env \<Rightarrow> string \<Rightarrow> pyval \<Rightarrow> bool" where
  "produces_own_parts env kind type_name =
     (case type_name of
        PStr t \<Rightarrow>
          t \<noteq> [] \<and> (t \<in> set PART_PRODUCING_BUILTIN_TYPES
             \<or> t \<notin> set (case registered env kind of None \<Rightarrow> [] | Some types \<Rightarrow> types))
      | _ \<Rightarrow> False)"

text \<open>\<open>prefix.rsplit("/", 1)[0]\<close>, again and again: the leading segments, most of them first.\<close>

fun shorter_prefixes :: "string list \<Rightarrow> string list list" where
  "shorter_prefixes [] = []"
| "shorter_prefixes (seg # segs) = map (\<lambda>p. seg # p) (shorter_prefixes segs) @ (if segs = [] then [] else [[seg]])"

definition declared_owner :: "package_env \<Rightarrow> store \<Rightarrow> string \<Rightarrow> string \<Rightarrow> bool" where
  "declared_owner env st kind name =
     (case map_of (case configs st kind of None \<Rightarrow> [] | Some cs \<Rightarrow> cs) name of
        Some (PDict config) \<Rightarrow> produces_own_parts env kind (get_or config ''type'' PNone)
      | _ \<Rightarrow> False)"

fun first_owner :: "package_env \<Rightarrow> store \<Rightarrow> string list \<Rightarrow> (string \<times> string) option" where
  "first_owner env st [] = None"
| "first_owner env st (name # names) =
     (if declared_owner env st ''assembly'' name then Some (''assembly'', name)
      else if declared_owner env st ''scene'' name then Some (''scene'', name)
      else first_owner env st names)"

definition derived_part_owner :: "package_env \<Rightarrow> store \<Rightarrow> string \<Rightarrow> (string \<times> string) option" where
  "derived_part_owner env st part_name =
     first_owner env st
       (map (join ''/'') (shorter_prefixes (split_on CHR ''/'' (hd (split_on CHR '';'' part_name)))))"

text \<open>\<open>has_children\<close>: whether an object has been built already.\<close>

definition derived_part_to_build ::
  "package_env \<Rightarrow> (made_object \<Rightarrow> bool) \<Rightarrow> string \<Rightarrow> ((string \<times> string) \<times> made_object) option act" where
  "derived_part_to_build env has_children part_name =
     do_then (reading (\<lambda>st. (map_of (objects st ''part'') part_name, derived_part_owner env st part_name)))
       (\<lambda>(made, owner).
          if made \<noteq> None then give None
          else
            case owner of
              None \<Rightarrow> give None
            | Some (kind, name) \<Rightarrow>
                do_then (get_object env kind name []) (\<lambda>obj.
                  case obj of
                    None \<Rightarrow> give None
                  | Some obj \<Rightarrow> give (if has_children obj then None else Some ((kind, name), obj))))"

section \<open>Who builds it\<close>

text \<open>
  \<open>'owner\<close> is what names the object to build, the pair of its kind and its name in the code. An event is
  a number; \<open>events_set\<close> are those that were set. \<open>started\<close> is the order in which builds
  were claimed, which the code does not keep.
\<close>

record 'owner claims =
  attempted :: "'owner set"
  building :: "'owner \<Rightarrow> nat option"
  events_set :: "nat set"
  new_event :: nat
  started :: "'owner list"

definition no_claims :: "'owner claims" where
  "no_claims = \<lparr>attempted = {}, building = (\<lambda>x. None), events_set = {}, new_event = 0, started = []\<rparr>"

definition claim_derived_part :: "'owner \<Rightarrow> 'owner claims \<Rightarrow> (nat \<times> bool) option \<times> 'owner claims" where
  "claim_derived_part x c =
     (case building c x of
        Some e \<Rightarrow> (Some (e, False), c)
      | None \<Rightarrow>
          if x \<in> attempted c then (None, c)
          else (Some (new_event c, True),
                c\<lparr>attempted := insert x (attempted c), building := (building c)(x \<mapsto> new_event c),
                  new_event := new_event c + 1, started := started c @ [x]\<rparr>))"

text \<open>
  \<open>_finish_derived_part\<close> forgets the build under the lock and sets the event after it, so another caller
  may act in between.
\<close>

definition forget_build :: "'owner \<Rightarrow> 'owner claims \<Rightarrow> 'owner claims" where
  "forget_build x c = c\<lparr>building := (building c)(x := None)\<rparr>"

definition set_event :: "nat \<Rightarrow> 'owner claims \<Rightarrow> 'owner claims" where
  "set_event e c = c\<lparr>events_set := insert e (events_set c)\<rparr>"

definition finish_derived_part :: "'owner \<Rightarrow> nat \<Rightarrow> 'owner claims \<Rightarrow> 'owner claims" where
  "finish_derived_part x e c = set_event e (forget_build x c)"

text \<open>
  What a caller is inside of, innermost first: it builds, it is about to set the event of a build it
  forgot, or it waits for an event. What is built may ask for other derived parts, so a claim may be made
  inside a build. A build that fails ends as one that succeeds does: the event is set in a \<open>finally\<close>.
\<close>

datatype 'owner frame = Builds 'owner nat | Releases nat | Waits 'owner nat

record 'owner callers =
  shared :: "'owner claims"
  inside :: "nat \<Rightarrow> 'owner frame list"

fun may_claim :: "'owner frame list \<Rightarrow> bool" where
  "may_claim (Builds x e # fs) = True"
| "may_claim fs = (fs = [])"

inductive caller_step :: "'owner callers \<Rightarrow> 'owner callers \<Rightarrow> bool" where
  claims_it: "may_claim (inside s t) \<Longrightarrow> claim_derived_part x (shared s) = (Some (e, True), c)
    \<Longrightarrow> caller_step s (s\<lparr>shared := c, inside := (inside s)(t := Builds x e # inside s t)\<rparr>)"
| waits_for_it: "may_claim (inside s t) \<Longrightarrow> claim_derived_part x (shared s) = (Some (e, False), c)
    \<Longrightarrow> caller_step s (s\<lparr>shared := c, inside := (inside s)(t := Waits x e # inside s t)\<rparr>)"
| forgets: "inside s t = Builds x e # fs
    \<Longrightarrow> caller_step s (s\<lparr>shared := forget_build x (shared s), inside := (inside s)(t := Releases e # fs)\<rparr>)"
| releases: "inside s t = Releases e # fs
    \<Longrightarrow> caller_step s (s\<lparr>shared := set_event e (shared s), inside := (inside s)(t := fs)\<rparr>)"
| goes_on: "inside s t = Waits x e # fs \<Longrightarrow> e \<in> events_set (shared s)
    \<Longrightarrow> caller_step s (s\<lparr>inside := (inside s)(t := fs)\<rparr>)"

definition callers_init :: "'owner callers \<Rightarrow> bool" where
  "callers_init s \<longleftrightarrow> shared s = no_claims \<and> (\<forall>t. inside s t = [])"

section \<open>The invariant\<close>

fun is_build :: "'owner frame \<Rightarrow> bool" where
  "is_build (Builds x e) = True"
| "is_build _ = False"

definition claims_ok :: "'owner callers \<Rightarrow> bool" where
  "claims_ok s \<longleftrightarrow>
     distinct (started (shared s)) \<and> set (started (shared s)) = attempted (shared s) \<and>
     (\<forall>x e. building (shared s) x = Some e \<longrightarrow>
        x \<in> attempted (shared s) \<and> e < new_event (shared s) \<and> e \<notin> events_set (shared s)) \<and>
     (\<forall>x y e. building (shared s) x = Some e \<longrightarrow> building (shared s) y = Some e \<longrightarrow> x = y) \<and>
     (\<forall>e. e \<in> events_set (shared s) \<longrightarrow> e < new_event (shared s))"

definition frames_ok :: "'owner callers \<Rightarrow> bool" where
  "frames_ok s \<longleftrightarrow>
     (\<forall>x e. building (shared s) x = Some e \<longrightarrow> (\<exists>t. Builds x e \<in> set (inside s t))) \<and>
     (\<forall>t x e. Builds x e \<in> set (inside s t) \<longrightarrow> building (shared s) x = Some e) \<and>
     (\<forall>t u x e. Builds x e \<in> set (inside s t) \<longrightarrow> Builds x e \<in> set (inside s u) \<longrightarrow> t = u) \<and>
     (\<forall>t. distinct (filter is_build (inside s t)) \<and> (\<forall>f \<in> set (tl (inside s t)). is_build f))"

definition waits_ok :: "'owner callers \<Rightarrow> bool" where
  "waits_ok s \<longleftrightarrow>
     (\<forall>t e. Releases e \<in> set (inside s t) \<longrightarrow> e < new_event (shared s) \<and> (\<forall>x. building (shared s) x \<noteq> Some e)) \<and>
     (\<forall>t x e. Waits x e \<in> set (inside s t) \<longrightarrow>
        e \<in> events_set (shared s) \<or> building (shared s) x = Some e \<or> (\<exists>u. Releases e \<in> set (inside s u)))"

definition callers_inv :: "'owner callers \<Rightarrow> bool" where
  "callers_inv s \<longleftrightarrow> claims_ok s \<and> frames_ok s \<and> waits_ok s"

lemma claimed_new:
  "claim_derived_part x c = (Some (e, True), c') \<longleftrightarrow>
     building c x = None \<and> x \<notin> attempted c \<and> e = new_event c \<and>
     c' = c\<lparr>attempted := insert x (attempted c), building := (building c)(x \<mapsto> new_event c),
            new_event := new_event c + 1, started := started c @ [x]\<rparr>"
  by (auto simp: claim_derived_part_def split: option.splits if_splits)

lemma claimed_other:
  "claim_derived_part x c = (Some (e, False), c') \<longleftrightarrow> building c x = Some e \<and> c' = c"
  by (auto simp: claim_derived_part_def split: option.splits if_splits)

inductive_cases caller_stepE: "caller_step s s'"

lemma may_claim_builds: "may_claim fs \<longleftrightarrow> fs = [] \<or> is_build (hd fs)"
  by (cases fs rule: may_claim.cases) auto

lemma callers_init_inv: "callers_init s \<Longrightarrow> callers_inv s"
  by (auto simp: callers_init_def callers_inv_def claims_ok_def frames_ok_def waits_ok_def no_claims_def)

lemma release_fresh:
  assumes "waits_ok s" "inside s t = Releases e # fs"
  shows "e < new_event (shared s)" "building (shared s) x \<noteq> Some e"
proof -
  have "Releases e \<in> set (inside s t)"
    using assms(2) by simp
  then show "e < new_event (shared s)" "building (shared s) x \<noteq> Some e"
    using assms(1) by (auto simp: waits_ok_def)
qed

lemma step_claims_ok:
  assumes "caller_step s s'" "callers_inv s"
  shows "claims_ok s'"
  using assms
  by cases
    (auto simp: callers_inv_def claims_ok_def release_fresh claimed_new claimed_other forget_build_def
      set_event_def less_Suc_eq split: if_splits)

lemma below_top: "frames_ok s \<Longrightarrow> inside s t = f # fs \<Longrightarrow> g \<in> set fs \<Longrightarrow> is_build g"
  by (metis frames_ok_def list.sel(3))

lemma built_once:
  assumes "frames_ok s" "inside s t = Builds x e # fs" "Builds x e' \<in> set (inside s u)"
  shows "u = t \<and> e' = e \<and> Builds x e \<notin> set fs"
proof -
  have here: "Builds x e \<in> set (inside s t)" "Builds x e \<notin> set fs"
    using assms(1,2) by (auto simp: frames_ok_def dest: spec [of _ t])
  then show ?thesis
    using assms unfolding frames_ok_def by (metis option.inject)
qed

lemma frame_cases: "is_build f \<longleftrightarrow> (\<exists>x e. f = Builds x e)"
  by (cases f) auto

lemma frames_okI:
  assumes "\<And>x e. building (shared s) x = Some e \<Longrightarrow> \<exists>t. Builds x e \<in> set (inside s t)"
    and "\<And>t x e. Builds x e \<in> set (inside s t) \<Longrightarrow> building (shared s) x = Some e"
    and "\<And>t u x e. Builds x e \<in> set (inside s t) \<Longrightarrow> Builds x e \<in> set (inside s u) \<Longrightarrow> t = u"
    and "\<And>t. distinct (filter is_build (inside s t)) \<and> (\<forall>f \<in> set (tl (inside s t)). is_build f)"
  shows "frames_ok s"
  using assms unfolding frames_ok_def by blast

lemma frames_okD:
  assumes "frames_ok s"
  shows "building (shared s) x = Some e \<Longrightarrow> \<exists>t. Builds x e \<in> set (inside s t)"
    and "Builds x e \<in> set (inside s t) \<Longrightarrow> building (shared s) x = Some e"
    and "Builds x e \<in> set (inside s t) \<Longrightarrow> Builds x e \<in> set (inside s u) \<Longrightarrow> t = u"
    and "distinct (filter is_build (inside s t))" and "f \<in> set (tl (inside s t)) \<Longrightarrow> is_build f"
  using assms unfolding frames_ok_def by blast+

lemma in_set_tlD: "f \<in> set (tl fs) \<Longrightarrow> f \<in> set fs"
  by (cases fs) auto

lemma in_builds: "Builds x e \<in> set fs \<longleftrightarrow> Builds x e \<in> set (filter is_build fs)"
  by simp

text \<open>A frame that is no build comes and goes without touching what is built.\<close>

lemma frames_ok_same_builds:
  assumes "frames_ok s" "\<And>u. filter is_build (inside s' u) = filter is_build (inside s u)"
    "building (shared s') = building (shared s)" "\<And>u f. f \<in> set (tl (inside s' u)) \<Longrightarrow> is_build f"
  shows "frames_ok s'"
proof -
  have same: "Builds x e \<in> set (inside s' u) \<longleftrightarrow> Builds x e \<in> set (inside s u)" for x e u
    by (metis assms(2) in_builds)
  show ?thesis
  proof (rule frames_okI)
    show "\<exists>u. Builds x e \<in> set (inside s' u)" if "building (shared s') x = Some e" for x e
      using that frames_okD(1) [OF assms(1), of x e] by (simp add: same assms(3))
    show "building (shared s') x = Some e" if "Builds x e \<in> set (inside s' u)" for u x e
      using that frames_okD(2) [OF assms(1), of x e u] by (simp add: same assms(3))
    show "u = v" if "Builds x e \<in> set (inside s' u)" "Builds x e \<in> set (inside s' v)" for u v x e
      using that frames_okD(3) [OF assms(1), of x e u v] by (simp add: same)
    show "distinct (filter is_build (inside s' u)) \<and> (\<forall>f \<in> set (tl (inside s' u)). is_build f)" for u
      using frames_okD(4) [OF assms(1), of u] assms(2,4) by simp
  qed
qed

lemma all_builds: "frames_ok s \<Longrightarrow> may_claim (inside s t) \<Longrightarrow> f \<in> set (inside s t) \<Longrightarrow> is_build f"
  using frames_okD(5) [of s f t] by (cases "inside s t") (auto simp: may_claim_builds)

lemma step_frames_ok:
  assumes "caller_step s s'" "callers_inv s"
  shows "frames_ok s'"
  using assms(1)
proof cases
  case (claims_it t x e c)
  have ok: "frames_ok s"
    using assms(2) by (simp add: callers_inv_def)
  have none: "Builds x f \<notin> set (inside s u)" for u f
    using claims_it(3) frames_okD(2) [OF ok, of x f u] by (auto simp: claimed_new)
  have b: "building (shared s') = (building (shared s))(x \<mapsto> e)" "building (shared s) x = None"
    using claims_it by (auto simp: claimed_new)
  have f: "Builds y h \<in> set (inside s' u) \<longleftrightarrow> (u = t \<and> y = x \<and> h = e) \<or> Builds y h \<in> set (inside s u)" for y h u
    using claims_it(1) by auto
  show ?thesis
  proof (rule frames_okI)
    show "\<exists>u. Builds y h \<in> set (inside s' u)" if "building (shared s') y = Some h" for y h
      using that frames_okD(1) [OF ok, of y h] b f by (metis fun_upd_apply option.inject)
    show "building (shared s') y = Some h" if "Builds y h \<in> set (inside s' u)" for u y h
      using that frames_okD(2) [OF ok, of y h u] by (auto simp: b f)
    show "u = v" if "Builds y h \<in> set (inside s' u)" "Builds y h \<in> set (inside s' v)" for u v y h
      using that none frames_okD(3) [OF ok, of y h u v] by (auto simp: f)
    show "distinct (filter is_build (inside s' u)) \<and> (\<forall>f \<in> set (tl (inside s' u)). is_build f)" for u
      using claims_it(1) none frames_okD(4) [OF ok, of u] frames_okD(5) [OF ok, of _ u] all_builds [OF ok claims_it(2)] by auto
  qed
next
  case (waits_for_it t x e c)
  have ok: "frames_ok s"
    using assms(2) by (simp add: callers_inv_def)
  show ?thesis
    by (rule frames_ok_same_builds [OF ok])
      (use waits_for_it all_builds [OF ok waits_for_it(2)] frames_okD(5) [OF ok] in
        \<open>auto simp: claimed_other split: if_splits\<close>)
next
  case (forgets t x e fs)
  have ok: "frames_ok s"
    using assms(2) by (simp add: callers_inv_def)
  have gone: "u = t" "h = e" "Builds x e \<notin> set fs" if "Builds x h \<in> set (inside s u)" for h u
    using built_once [OF ok forgets(2) that] by simp_all
  have b: "building (shared s') = (building (shared s))(x := None)"
    using forgets(1) by (simp add: forget_build_def)
  have f: "Builds y h \<in> set (inside s' u) \<longleftrightarrow> y \<noteq> x \<and> Builds y h \<in> set (inside s u)" for y h u
  proof (cases "u = t")
    case True
    then have "Builds y h \<in> set (inside s' u) \<longleftrightarrow> Builds y h \<in> set fs"
      using forgets(1) by simp
    then show ?thesis
      using gone(2,3) [of h t] forgets(2) True by auto
  next
    case False
    then have "inside s' u = inside s u"
      using forgets(1) by simp
    then show ?thesis
      using gone(1) [of h u] False by auto
  qed
  show ?thesis
  proof (rule frames_okI)
    show "\<exists>u. Builds y h \<in> set (inside s' u)" if "building (shared s') y = Some h" for y h
      using that frames_okD(1) [OF ok, of y h] b f by (metis fun_upd_apply option.distinct(1))
    show "building (shared s') y = Some h" if "Builds y h \<in> set (inside s' u)" for u y h
      using that frames_okD(2) [OF ok, of y h u] by (auto simp: b f)
    show "u = v" if "Builds y h \<in> set (inside s' u)" "Builds y h \<in> set (inside s' v)" for u v y h
      using that frames_okD(3) [OF ok, of y h u v] by (auto simp: f)
    show "distinct (filter is_build (inside s' u)) \<and> (\<forall>f \<in> set (tl (inside s' u)). is_build f)" for u
      using forgets(1,2) frames_okD(4) [OF ok, of u] frames_okD(5) [OF ok, of _ u] below_top [OF ok forgets(2)] by auto
  qed
next
  case (releases t e fs)
  have ok: "frames_ok s"
    using assms(2) by (simp add: callers_inv_def)
  show ?thesis
    by (rule frames_ok_same_builds [OF ok])
      (use releases below_top [OF ok releases(2)] frames_okD(5) [OF ok] in
        \<open>auto simp: set_event_def split: if_splits dest: in_set_tlD\<close>)
next
  case (goes_on t x e fs)
  have ok: "frames_ok s"
    using assms(2) by (simp add: callers_inv_def)
  show ?thesis
    by (rule frames_ok_same_builds [OF ok])
      (use goes_on below_top [OF ok goes_on(2)] frames_okD(5) [OF ok] in
        \<open>auto split: if_splits dest: in_set_tlD\<close>)
qed

lemma waits_okI:
  assumes "\<And>t e. Releases e \<in> set (inside s t) \<Longrightarrow> e < new_event (shared s)"
    and "\<And>t e x. Releases e \<in> set (inside s t) \<Longrightarrow> building (shared s) x \<noteq> Some e"
    and "\<And>t x e. Waits x e \<in> set (inside s t) \<Longrightarrow> e \<notin> events_set (shared s) \<Longrightarrow>
      building (shared s) x \<noteq> Some e \<Longrightarrow> \<exists>u. Releases e \<in> set (inside s u)"
  shows "waits_ok s"
  using assms unfolding waits_ok_def by blast

lemma waits_okD:
  assumes "waits_ok s"
  shows "Releases e \<in> set (inside s t) \<Longrightarrow> e < new_event (shared s)"
    and "Releases e \<in> set (inside s t) \<Longrightarrow> building (shared s) x \<noteq> Some e"
    and "Waits x e \<in> set (inside s t) \<Longrightarrow> e \<notin> events_set (shared s) \<Longrightarrow>
      building (shared s) x \<noteq> Some e \<Longrightarrow> \<exists>u. Releases e \<in> set (inside s u)"
  using assms unfolding waits_ok_def by blast+

text \<open>A wait stays covered when events are only added and releases only made.\<close>

lemma waits_ok_mono:
  assumes ok: "waits_ok s" and new: "new_event (shared s) \<le> new_event (shared s')"
    and rel: "\<And>u e. Releases e \<in> set (inside s' u) \<Longrightarrow>
      Releases e \<in> set (inside s u) \<or> e < new_event (shared s') \<and> (\<forall>x. building (shared s') x \<noteq> Some e)"
    and bld: "\<And>y e. building (shared s') y = Some e \<Longrightarrow> building (shared s) y = Some e \<or> e = new_event (shared s)"
    and wait: "\<And>u y e. Waits y e \<in> set (inside s' u) \<Longrightarrow>
      Waits y e \<in> set (inside s u) \<or> building (shared s') y = Some e"
    and kept: "\<And>y e. building (shared s) y = Some e \<Longrightarrow>
      building (shared s') y = Some e \<or> (\<exists>u. Releases e \<in> set (inside s' u))"
    and evs: "events_set (shared s) \<subseteq> events_set (shared s')"
    and still: "\<And>u e. Releases e \<in> set (inside s u) \<Longrightarrow>
      e \<in> events_set (shared s') \<or> (\<exists>v. Releases e \<in> set (inside s' v))"
  shows "waits_ok s'"
proof (rule waits_okI)
  show "e < new_event (shared s')" if "Releases e \<in> set (inside s' u)" for u e
    using rel [OF that] waits_okD(1) [OF ok] new by force
  show "building (shared s') y \<noteq> Some e" if "Releases e \<in> set (inside s' u)" for u e y
    using rel [OF that] waits_okD(1,2) [OF ok] bld [of y e] by fastforce
  show "\<exists>v. Releases e \<in> set (inside s' v)" if "Waits y e \<in> set (inside s' u)"
    "e \<notin> events_set (shared s')" "building (shared s') y \<noteq> Some e" for u y e
    using that wait [OF that(1)] waits_okD(3) [OF ok, of y e u] kept [of y e] evs still [of e] by blast
qed

lemma step_waits_ok:
  assumes "caller_step s s'" "callers_inv s"
  shows "waits_ok s'"
  using assms(1)
proof cases
  case (claims_it t x e c)
  show ?thesis
    by (rule waits_ok_mono [of s])
      (use claims_it assms(2) in \<open>auto simp: callers_inv_def claimed_new split: if_splits\<close>)
next
  case (waits_for_it t x e c)
  show ?thesis
    by (rule waits_ok_mono [of s])
      (use waits_for_it assms(2) in \<open>auto simp: callers_inv_def claimed_other split: if_splits\<close>)
next
  case (forgets t x e fs)
  have ok: "waits_ok s" and mine: "building (shared s) x = Some e"
    using assms(2) forgets(2) frames_okD(2) [of s x e t] by (auto simp: callers_inv_def)
  have fresh: "e < new_event (shared s)" "building (shared s) y = Some e \<Longrightarrow> y = x" for y
    using assms(2) mine by (auto simp: callers_inv_def claims_ok_def)
  have b: "building (shared s') = (building (shared s))(x := None)" "new_event (shared s') = new_event (shared s)"
    "events_set (shared s') = events_set (shared s)"
    using forgets(1) by (simp_all add: forget_build_def)
  have r: "Releases h \<in> set (inside s' u) \<longleftrightarrow> u = t \<and> h = e \<or> Releases h \<in> set (inside s u)"
    and w: "Waits y h \<in> set (inside s' u) \<longleftrightarrow> Waits y h \<in> set (inside s u)" for h u y
    using forgets(1,2) by auto
  have "y = x" if "building (shared s) y = Some e" for y
    by (rule fresh(2) [OF that])
  then show ?thesis
    by (intro waits_ok_mono [OF ok]) (auto simp: b r w fresh(1) mine split: if_splits)
next
  case (releases t e fs)
  have still: "h = e \<or> Releases h \<in> set (inside s' u)" if "Releases h \<in> set (inside s u)" for h u
    using releases(1,2) that by (cases "u = t") auto
  show ?thesis
    by (rule waits_ok_mono [of s])
      (use releases assms(2) in \<open>auto simp: callers_inv_def set_event_def dest!: still split: if_splits\<close>)
next
  case (goes_on t x e fs)
  have still: "Releases h \<in> set (inside s' u)" if "Releases h \<in> set (inside s u)" for h u
    using goes_on(1,2) that by (cases "u = t") auto
  show ?thesis
    by (rule waits_ok_mono [of s])
      (use goes_on assms(2) in \<open>auto simp: callers_inv_def dest!: still split: if_splits\<close>)
qed

lemma step_inv: "caller_step s s' \<Longrightarrow> callers_inv s \<Longrightarrow> callers_inv s'"
  by (simp add: callers_inv_def [of s'] step_claims_ok step_frames_ok step_waits_ok)

interpretation derived: step_system callers_init caller_step callers_inv
  by unfold_locales (blast intro: callers_init_inv step_inv)+

section \<open>What callers can count on\<close>

text \<open>A caller that waits for what it builds itself waits for ever: nobody but itself can set the event.\<close>

definition waits_for_itself :: "nat \<Rightarrow> 'owner \<Rightarrow> nat \<Rightarrow> 'owner callers \<Rightarrow> bool" where
  "waits_for_itself t x e s \<longleftrightarrow>
     (\<exists>fs. inside s t = Waits x e # fs \<and> Builds x e \<in> set fs)"

lemma waits_for_itself_step:
  assumes "caller_step s s'" "callers_inv s" "waits_for_itself t x e s"
  shows "waits_for_itself t x e s'"
proof -
  obtain fs where fs: "inside s t = Waits x e # fs" "Builds x e \<in> set fs"
    using assms(3) by (auto simp: waits_for_itself_def)
  have "building (shared s) x = Some e"
    using assms(2) fs frames_okD(2) [of s x e t] by (auto simp: callers_inv_def)
  then have "e \<notin> events_set (shared s)"
    using assms(2) by (auto simp: callers_inv_def claims_ok_def)
  with assms(1) have "inside s' t = inside s t"
    using fs by cases auto
  then show ?thesis
    using fs by (auto simp: waits_for_itself_def)
qed

lemma waits_for_itself_for_ever:
  "caller_step\<^sup>*\<^sup>* s s' \<Longrightarrow> reach callers_init caller_step s \<Longrightarrow> waits_for_itself t x e s \<Longrightarrow>
    waits_for_itself t x e s'"
  by (induction rule: rtranclp_induct)
    (auto intro: waits_for_itself_step derived.reach_inv derived.reach_trans)

lemma claim_inside_a_build:
  assumes "callers_init s"
  shows "\<exists>s'. caller_step\<^sup>*\<^sup>* s s' \<and> waits_for_itself t x 0 s'"
proof -
  let ?c = "no_claims\<lparr>attempted := {x}, building := (\<lambda>x. None)(x \<mapsto> 0), new_event := 1, started := [x]\<rparr>"
  let ?s1 = "s\<lparr>shared := ?c, inside := (inside s)(t := [Builds x 0])\<rparr>"
  let ?s2 = "?s1\<lparr>shared := ?c, inside := (inside ?s1)(t := [Waits x 0, Builds x 0])\<rparr>"
  have start: "shared s = no_claims" "inside s t = []"
    using assms by (simp_all add: callers_init_def)
  have "caller_step s ?s1"
    using caller_step.claims_it [of s t x 0 ?c] start by (simp add: claim_derived_part_def no_claims_def)
  moreover have "caller_step ?s1 ?s2"
    using caller_step.waits_for_it [of ?s1 t x 0 ?c] by (simp add: claim_derived_part_def)
  moreover have "waits_for_itself t x 0 ?s2"
    by (simp add: waits_for_itself_def)
  ultimately show ?thesis
    by (meson rtranclp.rtrancl_into_rtrancl r_into_rtranclp)
qed

lemma wait_covered:
  assumes "callers_inv s" "Waits x e \<in> set (inside s t)" "e \<notin> events_set (shared s)"
  shows "\<exists>u. Builds x e \<in> set (inside s u) \<or> Releases e \<in> set (inside s u)"
  using assms waits_okD(3) [of s x e t] frames_okD(1) [of s x e] by (auto simp: callers_inv_def)

lemma waiter_goes_on:
  assumes "inside s t = Waits x e # fs" "inside s u = Builds x e # gs"
  shows "\<exists>s'. caller_step\<^sup>*\<^sup>* s s' \<and> inside s' t = fs"
proof -
  let ?s1 = "s\<lparr>shared := forget_build x (shared s), inside := (inside s)(u := Releases e # gs)\<rparr>"
  let ?s2 = "?s1\<lparr>shared := set_event e (shared ?s1), inside := (inside ?s1)(u := gs)\<rparr>"
  let ?s3 = "?s2\<lparr>inside := (inside ?s2)(t := fs)\<rparr>"
  have ne: "u \<noteq> t"
    using assms by auto
  have "caller_step s ?s1"
    by (rule caller_step.forgets [of s u x e gs]) (rule assms(2))
  moreover have "caller_step ?s1 ?s2"
    by (rule caller_step.releases [of ?s1 u e gs]) simp
  moreover have "caller_step ?s2 ?s3"
    by (rule caller_step.goes_on [of ?s2 t x e fs]) (use assms(1) ne in \<open>simp_all add: set_event_def\<close>)
  moreover have "inside ?s3 t = fs"
    by simp
  ultimately show ?thesis
    by (meson rtranclp.rtrancl_into_rtrancl r_into_rtranclp)
qed

section \<open>The owner is the nearest\<close>

lemma shorter_prefixes_takes:
  "shorter_prefixes segs = rev (map (\<lambda>n. take n segs) [1..<length segs])"
proof (induction segs)
  case (Cons seg segs)
  have "[1..<Suc k] = (if k = 0 then [] else 1 # map Suc [1..<k])" for k
    unfolding map_Suc_upt by (cases k) (simp_all add: upt_conv_Cons del: upt_Suc)
  then show ?case
    by (simp add: Cons.IH rev_map comp_def del: upt_Suc)
qed simp

lemma first_owner_some:
  assumes "first_owner env st names = Some (kind, name)"
  shows "\<exists>before after. names = before @ name # after \<and> declared_owner env st kind name \<and>
    (kind = ''assembly'' \<or> kind = ''scene'' \<and> \<not> declared_owner env st ''assembly'' name) \<and>
    (\<forall>n \<in> set before. \<not> declared_owner env st ''assembly'' n \<and> \<not> declared_owner env st ''scene'' n)"
  using assms
proof (induction names)
  case (Cons n names)
  show ?case
  proof (cases "declared_owner env st ''assembly'' n \<or> declared_owner env st ''scene'' n")
    case True
    then have "name = n" "declared_owner env st kind n"
      "kind = ''assembly'' \<or> kind = ''scene'' \<and> \<not> declared_owner env st ''assembly'' n"
      using Cons.prems by (auto split: if_splits)
    then show ?thesis
      by (intro exI [of _ "[]"] exI [of _ names]) simp
  next
    case False
    with Cons obtain before after where "names = before @ name # after" "declared_owner env st kind name"
      "kind = ''assembly'' \<or> kind = ''scene'' \<and> \<not> declared_owner env st ''assembly'' name"
      "\<forall>n \<in> set before. \<not> declared_owner env st ''assembly'' n \<and> \<not> declared_owner env st ''scene'' n"
      by auto
    with False show ?thesis
      by (intro exI [of _ "n # before"] exI [of _ after]) simp
  qed
qed simp

lemma first_owner_none:
  "first_owner env st names = None \<longleftrightarrow>
     (\<forall>n \<in> set names. \<not> declared_owner env st ''assembly'' n \<and> \<not> declared_owner env st ''scene'' n)"
  by (induction names) auto

lemma first_of_decreasing:
  assumes "map f (rev [1..<l]) = before @ name # after"
  shows "\<exists>n. 0 < n \<and> n < l \<and> name = f n \<and> (\<forall>m. n < m \<and> m < l \<longrightarrow> f m \<in> set before)"
proof -
  let ?i = "length before"
  have len: "l - 1 = ?i + 1 + length after"
    using arg_cong [OF assms, of length] by simp
  have at_pos: "(before @ name # after) ! j = f (l - 1 - j)" if "j < l - 1" for j
    using that by (simp add: assms [symmetric] rev_nth Suc_diff_Suc)
  have "name = f (l - 1 - ?i)"
    using at_pos [of ?i] len nth_append_length [of before name after] by (metis less_add_one trans_less_add1)
  moreover have "f m \<in> set before" if "l - 1 - ?i < m" "m < l" for m
  proof -
    have "l - 1 - m < ?i" "l - 1 - m < l - 1" "l - 1 - (l - 1 - m) = m"
      using that len by linarith+
    then have "before ! (l - 1 - m) = f m" "l - 1 - m < ?i"
      using at_pos [of "l - 1 - m"] by (simp_all add: nth_append)
    then show ?thesis
      by (metis nth_mem)
  qed
  ultimately show ?thesis
    using len by (intro exI [of _ "l - 1 - ?i"] conjI) (simp_all del: One_nat_def)
qed

section \<open>Properties\<close>

text \<open>C12: an object is built at most once for its parts; a caller that waits for an event not yet set waits
  for a build that is under way or about to set it; and when the builder of what it waits for has nothing
  else to do, the waiter gets on.\<close>

theorem built_once_nobody_stranded:
  assumes "reach callers_init caller_step s"
  shows "distinct (started (shared s)) \<and>
    (Waits x e \<in> set (inside s t) \<and> e \<notin> events_set (shared s) \<longrightarrow>
      (\<exists>u. Builds x e \<in> set (inside s u) \<or> Releases e \<in> set (inside s u))) \<and>
    (inside s t = Waits x e # fs \<and> inside s u = Builds x e # gs \<longrightarrow>
      (\<exists>s'. caller_step\<^sup>*\<^sup>* s s' \<and> inside s' t = fs))"
  using derived.reach_inv [OF assms] wait_covered [of s x e t] waiter_goes_on [of s t x e fs u gs]
  by (simp add: callers_inv_def claims_ok_def)

definition two_callers :: "string callers" where
  "two_callers =
     \<lparr>shared = no_claims\<lparr>attempted := {''robot''}, building := (\<lambda>x. None)(''robot'' \<mapsto> 0), new_event := 1,
        started := [''robot'']\<rparr>,
      inside = (\<lambda>u. [])(0 := [Builds ''robot'' 0], 1 := [Waits ''robot'' 0])\<rparr>"

lemma two_callers_reached: "reach callers_init caller_step two_callers"
proof -
  let ?c = "no_claims\<lparr>attempted := {''robot''}, building := (\<lambda>x. None)(''robot'' \<mapsto> 0), new_event := 1,
        started := [''robot'']\<rparr> :: string claims"
  let ?s0 = "\<lparr>shared = no_claims, inside = (\<lambda>u. [])\<rparr> :: string callers"
  let ?s1 = "?s0\<lparr>shared := ?c, inside := (inside ?s0)(0 := [Builds ''robot'' 0])\<rparr>"
  have "reach callers_init caller_step ?s0"
    by (rule reach_init) (simp add: callers_init_def)
  moreover have "caller_step ?s0 ?s1"
    using caller_step.claims_it [of ?s0 0 "''robot''" 0 ?c] by (simp add: claim_derived_part_def no_claims_def)
  moreover have "caller_step ?s1 two_callers"
    using caller_step.waits_for_it [of ?s1 1 "''robot''" 0 ?c]
    by (simp add: claim_derived_part_def two_callers_def)
  ultimately show ?thesis
    by (blast intro: reach_step)
qed

theorem built_once_nobody_stranded_witness:
  "\<exists>s'. caller_step\<^sup>*\<^sup>* two_callers s' \<and> inside s' 1 = []"
  using built_once_nobody_stranded [OF two_callers_reached, of "''robot''" 0 1 "[]" 0 "[]"]
  by (simp add: two_callers_def)

text \<open>C25: the owner of a part is the nearest object that makes parts: no longer prefix of the name of the part
  is declared as one, and an assembly goes before a scene of the same name.\<close>

theorem derived_part_owner_nearest:
  assumes "derived_part_owner env st part = Some (kind, name)"
    and "segs = split_on CHR ''/'' (hd (split_on CHR '';'' part))"
  shows "\<exists>n. 0 < n \<and> n < length segs \<and> name = join ''/'' (take n segs) \<and> declared_owner env st kind name \<and>
    (kind = ''assembly'' \<or> kind = ''scene'' \<and> \<not> declared_owner env st ''assembly'' name) \<and>
    (\<forall>m k. n < m \<and> m < length segs \<and> k \<in> {''assembly'', ''scene''} \<longrightarrow>
       \<not> declared_owner env st k (join ''/'' (take m segs)))"
proof -
  let ?names = "map (\<lambda>n. join ''/'' (take n segs)) (rev [1..<length segs])"
  have "first_owner env st ?names = Some (kind, name)"
    using assms by (simp add: derived_part_owner_def shorter_prefixes_takes rev_map comp_def)
  then obtain before after where found: "?names = before @ name # after" "declared_owner env st kind name"
    "kind = ''assembly'' \<or> kind = ''scene'' \<and> \<not> declared_owner env st ''assembly'' name"
    "\<forall>n \<in> set before. \<not> declared_owner env st ''assembly'' n \<and> \<not> declared_owner env st ''scene'' n"
    using first_owner_some by blast
  then show ?thesis
    using first_of_decreasing [OF found(1)] by blast
qed

definition robots :: store where
  "robots = new_store (\<lambda>k. Some (if k = ''assembly'' then
     [(''robot'', PDict [(''type'', PStr ''step'')]), (''robot/arm'', PDict [(''type'', PStr ''cad'')])] else []))"

theorem derived_part_owner_nearest_witness:
  "derived_part_owner sample_env robots ''robot/arm/tip;size=1'' = Some (''assembly'', ''robot'')
     \<and> \<not> declared_owner sample_env robots ''assembly'' ''robot/arm''"
proof -
  have *: "derived_part_owner sample_env robots ''robot/arm/tip;size=1'' = Some (''assembly'', ''robot'')"
    by code_simp
  have s: "[''robot'', ''arm'', ''tip''] = split_on CHR ''/'' (hd (split_on CHR '';'' ''robot/arm/tip;size=1''))"
    by code_simp
  obtain n where n: "n < 3" "''robot'' = join ''/'' (take n [''robot'', ''arm'', ''tip''])"
    "\<forall>m k. n < m \<and> m < 3 \<and> k \<in> {''assembly'', ''scene''} \<longrightarrow>
       \<not> declared_owner sample_env robots k (join ''/'' (take m [''robot'', ''arm'', ''tip'']))"
    using derived_part_owner_nearest [OF * s] by (auto simp: numeral_3_eq_3)
  have arm: "join ''/'' (take 2 [''robot'', ''arm'', ''tip'']) = ''robot/arm''"
    by code_simp
  have "n \<noteq> 2"
  proof
    assume "n = 2"
    with n(2) arm have "''robot'' = ''robot/arm''"
      by metis
    then show False
      by simp
  qed
  then have "n < 2"
    using n(1) by simp
  then have "\<not> declared_owner sample_env robots ''assembly'' (join ''/'' (take 2 [''robot'', ''arm'', ''tip'']))"
    by (intro n(3) [rule_format] conjI) simp_all
  then show ?thesis
    using * arm by simp
qed

end
