(* ===== verification/Spec2Isabelle.thy ===== *)
theory Spec2Isabelle
  imports Names Tags Expr Locks CacheTiers CacheHash Codecs Envelope CacheShape References Regex StepTolerance
    SandboxVersions Paths OutputFormats Cam Manufacturing ShapeConfig ConnectHow Geometry Parameters Interfaces
    Walks Matings ShapePorts Fnmatch AssemblyConnect AssemblyPlacement Bom ShapeTree InterfaceIndex
    Gcode GcodeMotion GcodeOutput PackageConfig Packages ObjectStore DerivedParts
begin

text \<open>
  \<^bold>\<open>PartCAD: a verification development.\<close>

  PartCAD keeps parts, sketches, assemblies and interfaces in packages, resolves references between
  them, builds each object in a sandboxed runtime, caches what was built and writes it out in the
  format somebody asked for. The development follows the part of the program that decides: what a
  declaration means, what a name resolves to, what is cached under which key, who may enter an
  environment, which implementation writes a file and what machining request it carries. Python
  sources are under \<open>src/src\<close>; every theory says which files it translates.

  \<^bold>\<open>Theories.\<close>
  \<^item> \<open>Prelude\<close>: Python values (\<open>pyval\<close>), dictionaries as association lists in insertion order,
    string operations, the exceptions of the model (\<open>exn\<close>), and two interfaces as locales: \<open>step_system\<close>
    (an invariant of a step relation holds in every reachable state) and \<open>codec\<close> (what a decoder owes
    an encoder).
  \<^item> \<open>Names\<close> (\<open>partcad_utils/utils.py\<close>, \<open>booleans.py\<close>): package paths, recursive arguments,
    parameterized names, resource paths. Interpreted as a \<open>codec\<close>.
  \<^item> \<open>Tags\<close> (\<open>partcad/tags.py\<close>): the tags of a context and the decision \<open>unless\<close> takes.
  \<^item> \<open>Expr\<close> (\<open>partcad/expr.py\<close>): the checked expression evaluator and the substitution of
    percent-quoted expressions in declarations.
  \<^item> \<open>Locks\<close> (\<open>partcad/sandbox_lock.py\<close>, \<open>concurrency.py\<close>): the readers/writer lock of an environment,
    process slots and the reentrant gate, each a step relation interpreted as a \<open>step_system\<close>.
  \<^item> \<open>CacheTiers\<close>, \<open>CacheHash\<close>, \<open>CacheShape\<close> (\<open>partcad/cache*.py\<close>): tiers of the cache with a locale for
    what a tier promises, keys, and the bytes of an entry.
  \<^item> \<open>Codecs\<close>, \<open>Envelope\<close> (\<open>partcad/shape_envelope.py\<close>): base64 and JSON as the standard library writes
    and reads them, and the envelope a shape travels in.
  \<^item> \<open>References\<close> (\<open>partcad/reference.py\<close>, \<open>enrich.py\<close>, \<open>shape_config_store.py\<close>, \<open>part_factory_alias.py\<close>,
    parts of \<open>project.py\<close>): aliases and enriched objects, and what a chain of references leaves.
  \<^item> \<open>Regex\<close>, \<open>StepTolerance\<close> (\<open>partcad/tolerance_inspect.py\<close>): a matcher for the patterns the scan uses
    and the scan of a STEP file for the tolerance it states.
  \<^item> \<open>SandboxVersions\<close> (\<open>partcad/sandbox_versions.py\<close>): pins, versions, environment keys.
  \<^item> \<open>Paths\<close>, \<open>OutputFormats\<close> (\<open>partcad/output.py\<close>, the output part of \<open>shape.py\<close>, \<open>simulation.py\<close>):
    POSIX paths and the resolution of a file type to the implementation that writes it.
  \<^item> \<open>Cam\<close>, \<open>Manufacturing\<close> (\<open>partcad/cam.py\<close>, \<open>part_config_manufacturing.py\<close>,
    \<open>assembly_config_manufacturing.py\<close>, \<open>Shape._route_machine_data\<close>): quantities with units, machining jobs,
    manufacturing sections and the machine a request carries.
  \<^item> \<open>ShapeConfig\<close> (\<open>partcad/shape_config.py\<close>, \<open>part_factory.py\<close>, \<open>test/manufacturability.py\<close>): tolerances,
    validation of a declaration and the manufacturability test.
  \<^item> \<open>ConnectHow\<close> (\<open>partcad/assembly_connect.py\<close>): how a connection of an assembly is made.
  \<^item> \<open>Geometry\<close> (\<open>partcad/geom.py\<close>): placements as quaternion and translation. A locale \<open>placements\<close> says
    what a group of placements acting on points owes, and is interpreted on the model.
  \<^item> \<open>Parameters\<close> (\<open>partcad/config.py\<close>, \<open>interface_config.py\<close>, \<open>InterfaceParameter\<close> of \<open>interface.py\<close>):
    values of parameters and the freedom of movement of an interface.
  \<^item> \<open>Interfaces\<close> (\<open>partcad/interface.py\<close>, \<open>interface_inherit.py\<close>, \<open>Project.get_interface\<close>): declared and
    inherited ports, what an interface reads of its declaration, and the store of interfaces of a package.
  \<^item> \<open>Walks\<close>: a search that marks what it has seen finds exactly what is reachable.
  \<^item> \<open>Matings\<close> (\<open>partcad/interface.py\<close>, \<open>mating.py\<close>, \<open>context.py\<close>): what an interface is compatible with,
    what it inherits, which matings are declared and which of them two shapes can use.
  \<^item> \<open>ShapePorts\<close> (\<open>partcad/port.py\<close>): the interfaces a shape carries, instance by instance.
  \<^item> \<open>Fnmatch\<close>: shell patterns.
  \<^item> \<open>AssemblyConnect\<close>, \<open>AssemblyPlacement\<close> (\<open>partcad/assembly_factory_assy.py\<close>): the nodes of an ASSY file,
    what a connection selects on its two ends and where it puts the item; connected items meet.
  \<^item> \<open>ShapeTree\<close> (\<open>partcad/shape_ports.py\<close>, \<open>assembly_ports.py\<close>): the ports of an object and of what is inside it,
    and the ports and interfaces an assembly externalizes; an externalized port is where a port of the tree is.
  \<^item> \<open>InterfaceIndex\<close> (\<open>partcad/shape_ports.py\<close>): the search for objects by interface; the index finds what a
    search through every object finds.
  \<^item> \<open>Gcode\<close>, \<open>GcodeMotion\<close>, \<open>GcodeOutput\<close> (\<open>partcad/builtin/cam/cam_gcode.py\<close>): the programs of a router, a laser
    and a drilling machine over a kernel of functions; a machine that runs them, and what each may count on: where
    the tool travels, how deep and at which rate it cuts, that the whole outline is cut; the order and the
    direction of contours, the numbers of the text, the turn into the frame of the machine.
  \<^item> \<open>Bom\<close> (\<open>partcad/assembly.py\<close>, \<open>software.py\<close>): the bills of materials. Dictionaries that count share a
    locale, interpreted on the three forms of a bill.

  \<^item> \<open>PackageConfig\<close> (\<open>partcad/project_config.py\<close>): what the constructor of a package makes of its file;
    a package goes by its location, and what it reads does not change when it is read again.
  \<^item> \<open>Packages\<close> (\<open>partcad/context.py\<close>, \<open>project_factory.py\<close>): the tree of packages, lookups and imports with
    their locks and marks. The locale \<open>package_importer\<close> says what an import owes a lookup, and is interpreted
    on imports of every depth.
  \<^item> \<open>ObjectStore\<close> (\<open>partcad/project.py\<close>, \<open>factory.py\<close>): the objects of a package, made on demand from their
    declarations. The operations are state transformers with exceptions; the locale \<open>store_steps\<close> says which
    relations between states they all keep.
  \<^item> \<open>DerivedParts\<close> (\<open>partcad/project.py\<close>): parts that an assembly or a scene makes for itself, and how callers
    agree on who builds it, as a \<open>step_system\<close>.

  \<^bold>\<open>How the model reads.\<close> A Python function is a HOL function with the same name where HOL allows
  it; a class is a record; a raise is \<open>Inl\<close> of an exception; a mutable object is passed and returned;
  concurrency is a step relation with one constructor per atomic section. Dictionaries keep their
  order, since the code iterates over them. A callable of another module is an argument.

  \<^bold>\<open>Bounds and fuel.\<close> The JSON reader runs with fuel one more than the length of the text and each
  call consumes a character; a repetition of a pattern runs with the length of the text; the argument
  scanner with one more than the length of the block. Chains of units and references recurse under
  the set of names not yet seen, and the theorems state when they return. The walk over
  what a shape inherits has the recursion limit of the interpreter as its fuel: the limit reached is the
  \<open>RecursionError\<close> of the code, and the depth of the hierarchy is shown to be enough. The hierarchy of
  interfaces is the list of those already instantiated. The fuel of an import is the depth to which packages
  load one inside another, and one level is enough where loading asks for no other package. Placements are over the reals. Numbers written in files
  are exact rationals with the non-finite values beside them, not binary64; text is text below code
  point 256; paths are POSIX paths.

  \<^bold>\<open>What is not modelled.\<close> Processes, sockets, containers, git and HTTP; the CAD kernels and the
  scripts that call them; terminal output, telemetry and logging other than the count of what is
  reported where a property is about it; the parsers of YAML and of Python, which the model receives
  the results of; the digest function, a parameter of the cache keys.
\<close>

end
